(* ===== verification/NC_Prelude.thy ===== *)
theory NC_Prelude
  imports Main
begin

text \<open>
  Prelude of the development: the outcome of a Natural C function, the sequencing that the
  \<^verbatim>\<open>ncc\<close> compiler inserts between calls (\<^verbatim>\<open>try\<close>, \<^verbatim>\<open>throw\<close> and \<^verbatim>\<open>require\<close> of
  src/nc_exception.h), byte sequences with indeterminate bytes, NUL terminated strings, and
  the fixed-width arithmetic of \<^verbatim>\<open>size_t\<close>. Nothing here is specific to one component.
\<close>

section \<open>Lemma collections\<close>

named_theorems nc_simps \<open>evaluation of the Natural C statement combinators\<close>
named_theorems mem_simps \<open>evaluation of the memory primitives\<close>
named_theorems cstr_simps \<open>NUL terminated byte sequences\<close>

section \<open>Outcomes and statements\<close>

text \<open>
  A call of a Natural C function ends in one of three ways. \<open>Ok a w\<close>: it returned 0, with its
  out-parameters \<open>a\<close> and the memory \<open>w\<close>. \<open>Fail rc w\<close>: it returned \<open>rc\<close>, which is not 0 (a
  \<^verbatim>\<open>throw\<close> returns -1), and the memory keeps what was written before. \<open>Fault f\<close>: the C code
  had no defined behaviour (\<open>f\<close> says why), called \<^verbatim>\<open>abort()\<close>, or did not return.
\<close>

datatype fault =
    NullDeref      \<comment> \<open>a NULL pointer was dereferenced\<close>
  | BadAddr        \<comment> \<open>an object was used that is not allocated\<close>
  | OutOfBounds    \<comment> \<open>a read or write left its block\<close>
  | BadFree        \<comment> \<open>free(3) or realloc(3) of memory that malloc(3) did not return\<close>
  | ReadOnly       \<comment> \<open>a write to a constant array\<close>
  | Uninit         \<comment> \<open>an indeterminate byte decided something\<close>
  | Overlap        \<comment> \<open>memcpy(3) between overlapping ranges\<close>
  | Diverge        \<comment> \<open>a loop that does not end\<close>
  | Abort          \<comment> \<open>throw_fatal(): abort(3)\<close>

datatype ('a, 'w) outcome = Ok 'a 'w | Fail int 'w | Fault fault

definition nc_return :: "'a \<Rightarrow> 'w \<Rightarrow> ('a, 'w) outcome" where
  "nc_return a w = Ok a w"

definition nc_throw :: "'w \<Rightarrow> ('a, 'w) outcome" where
  "nc_throw w = Fail (-1) w"

definition nc_fault :: "fault \<Rightarrow> 'w \<Rightarrow> ('a, 'w) outcome" where
  "nc_fault f w = Fault f"

text \<open>
  A called function whose return value is not tested by the program is wrapped by the compiler
  in \<^verbatim>\<open>try(f(...))\<close>, that is \<^verbatim>\<open>if ((f(...)) != 0) throw("")\<close>: the caller goes on when the
  callee returned 0, and otherwise returns -1 at once, whatever the callee returned.
\<close>

definition nc_bind ::
    "('w \<Rightarrow> ('a, 'w) outcome) \<Rightarrow> ('a \<Rightarrow> 'w \<Rightarrow> ('b, 'w) outcome) \<Rightarrow> 'w \<Rightarrow> ('b, 'w) outcome" where
  "nc_bind m k w =
     (case m w of Ok a w' \<Rightarrow> k a w' | Fail rc w' \<Rightarrow> Fail (-1) w' | Fault f \<Rightarrow> Fault f)"

text \<open>A call whose return value the program tests itself: \<^verbatim>\<open>if (f(...) == 0) k else h\<close>.\<close>

definition nc_catch ::
    "('w \<Rightarrow> ('a, 'w) outcome) \<Rightarrow> ('a \<Rightarrow> 'w \<Rightarrow> ('b, 'w) outcome)
      \<Rightarrow> (int \<Rightarrow> 'w \<Rightarrow> ('b, 'w) outcome) \<Rightarrow> 'w \<Rightarrow> ('b, 'w) outcome" where
  "nc_catch m k h w =
     (case m w of Ok a w' \<Rightarrow> k a w' | Fail rc w' \<Rightarrow> h rc w' | Fault f \<Rightarrow> Fault f)"

text \<open>\<^verbatim>\<open>require(c)\<close>: throw when the condition is false.\<close>

definition nc_require :: "bool \<Rightarrow> 'w \<Rightarrow> (unit, 'w) outcome" where
  "nc_require c w = (if c then Ok () w else Fail (-1) w)"

text \<open>\<^verbatim>\<open>if (c) stmt;\<close>\<close>

definition nc_when :: "bool \<Rightarrow> ('w \<Rightarrow> (unit, 'w) outcome) \<Rightarrow> 'w \<Rightarrow> (unit, 'w) outcome" where
  "nc_when c m w = (if c then m w else Ok () w)"

lemmas nc_defs [nc_simps] =
  nc_return_def nc_throw_def nc_fault_def nc_bind_def nc_catch_def nc_require_def nc_when_def

lemma nc_bind_assoc:
  "nc_bind (nc_bind m f) g w = nc_bind m (\<lambda>a. nc_bind (f a) g) w"
  by (cases "m w") (simp_all add: nc_bind_def)

lemma nc_bind_Ok_iff:
  "nc_bind m k w = Ok b w'' \<longleftrightarrow> (\<exists>a w'. m w = Ok a w' \<and> k a w' = Ok b w'')"
  by (cases "m w") (simp_all add: nc_bind_def)

text \<open>The result is not a fault: what every safety statement says of a call.\<close>

definition no_fault :: "('a, 'w) outcome \<Rightarrow> bool" where
  "no_fault r \<longleftrightarrow> (\<forall>f. r \<noteq> Fault f)"

lemma no_fault_simps [simp]:
  "no_fault (Ok a w)" "no_fault (Fail rc w)" "\<not> no_fault (Fault f)"
  by (simp_all add: no_fault_def)

section \<open>The arithmetic of size_t\<close>

definition sz :: "nat \<Rightarrow> nat" where
  "sz n = n mod 2 ^ 64"

lemma sz_id: "n < 2 ^ 64 \<Longrightarrow> sz n = n"
  by (simp add: sz_def)

lemma sz_less [simp]: "sz n < 2 ^ 64"
  by (simp add: sz_def)

text \<open>\<^verbatim>\<open>x--\<close> on a \<^verbatim>\<open>size_t\<close>: 0 becomes the largest value.\<close>

definition sz_dec :: "nat \<Rightarrow> nat" where
  "sz_dec n = (n + (2 ^ 64 - 1)) mod 2 ^ 64"

lemma sz_dec_pos: "0 < n \<Longrightarrow> n < 2 ^ 64 \<Longrightarrow> sz_dec n = n - 1"
proof -
  assume "0 < n" "n < 2 ^ 64"
  then have "n + (2 ^ 64 - 1) = (n - 1) + 2 ^ 64" by simp
  then have "sz_dec n = ((n - 1) + 2 ^ 64) mod 2 ^ 64" by (simp only: sz_dec_def)
  also have "\<dots> = (n - 1) mod 2 ^ 64" by (rule mod_add_self2)
  finally show ?thesis using \<open>n < 2 ^ 64\<close> by simp
qed

lemma sz_dec_0: "sz_dec 0 = 2 ^ 64 - 1"
  by (simp add: sz_dec_def)

section \<open>Bytes and NUL terminated strings\<close>

text \<open>
  A byte of a block is \<open>Some c\<close>, or \<open>None\<close> while it is indeterminate (memory that malloc(3) or
  realloc(3) returned and nothing has written yet).
\<close>

type_synonym bytes = "char option list"

abbreviation NUL :: char where "NUL \<equiv> CHR 0x00"
abbreviation LF :: char where "LF \<equiv> CHR 0x0A"
abbreviation CR :: char where "CR \<equiv> CHR 0x0D"

text \<open>
  \<open>cstr b\<close> is the C string at the start of the bytes \<open>b\<close>: the characters before the first NUL.
  There is none (and reading it faults) when the block ends, or an indeterminate byte is
  met, before a NUL.
\<close>

fun cstr :: "bytes \<Rightarrow> string option" where
  "cstr [] = None"
| "cstr (None # b) = None"
| "cstr (Some c # b) = (if c = NUL then Some [] else map_option ((#) c) (cstr b))"

lemma cstr_terminated [cstr_simps]:
  "NUL \<notin> set xs \<Longrightarrow> cstr (map Some xs @ Some NUL # b) = Some xs"
  by (induction xs) auto

lemma cstr_no_NUL: "cstr b = Some xs \<Longrightarrow> NUL \<notin> set xs"
  by (induction b arbitrary: xs rule: cstr.induct) (auto split: if_splits)

lemma cstr_split: "cstr b = Some xs \<Longrightarrow> \<exists>r. b = map Some xs @ Some NUL # r"
  by (induction b arbitrary: xs rule: cstr.induct) (auto split: if_splits)

lemma cstr_iff:
  "cstr b = Some xs \<longleftrightarrow> NUL \<notin> set xs \<and> (\<exists>r. b = map Some xs @ Some NUL # r)"
  using cstr_no_NUL cstr_split cstr_terminated by blast

lemma cstr_takeWhile:
  "cstr (map Some xs @ Some NUL # b) = Some (takeWhile (\<lambda>c. c \<noteq> NUL) xs)"
  by (induction xs) auto

text \<open>Writing the bytes \<open>c\<close> at offset \<open>i\<close>; meaningful only inside the block.\<close>

definition splice :: "nat \<Rightarrow> 'a list \<Rightarrow> 'a list \<Rightarrow> 'a list" where
  "splice i c b = take i b @ c @ drop (i + length c) b"

lemma length_splice [simp]:
  "i + length c \<le> length b \<Longrightarrow> length (splice i c b) = length b"
  by (simp add: splice_def)

lemma length_splice_single [simp]: "i < length b \<Longrightarrow> length (splice i [x] b) = length b"
  by (simp add: splice_def)

lemma splice_single: "i < length b \<Longrightarrow> splice i [x] b = b[i := x]"
  by (simp add: splice_def upd_conv_take_nth_drop)

lemma take_splice_below [simp]: "n \<le> i \<Longrightarrow> i \<le> length b \<Longrightarrow> take n (splice i c b) = take n b"
  by (simp add: splice_def min_def)

lemma take_splice_through:
  "i \<le> length b \<Longrightarrow> take (i + length c) (splice i c b) = take i b @ c"
  by (simp add: splice_def)

lemma nth_splice_after:
  "i + length c \<le> n \<Longrightarrow> n < length b \<Longrightarrow> splice i c b ! n = b ! n"
  by (auto simp: splice_def nth_append)

lemma splice_nil [simp]: "splice i [] b = b"
  by (simp add: splice_def)

lemma take_Suc_terminated:
  "n < length b \<Longrightarrow> take n b = xs \<Longrightarrow> b ! n = x \<Longrightarrow> b = xs @ x # drop (Suc n) b"
  by (metis id_take_nth_drop)

section \<open>Signed and unsigned characters\<close>

text \<open>
  \<^verbatim>\<open>char\<close> is a signed byte on the platforms the library is written for: \<open>char_int c\<close> is the
  value of a character promoted to int, and \<open>int_char i\<close> the conversion \<^verbatim>\<open>(char) i\<close>.
\<close>

definition char_int :: "char \<Rightarrow> int" where
  "char_int c = (let n = int (of_char c) in if n < 128 then n else n - 256)"

definition int_char :: "int \<Rightarrow> char" where
  "int_char i = char_of (nat (i mod 256))"

lemma int_char_char_int [simp]: "int_char (char_int c) = c"
proof -
  have lt: "(of_char c :: nat) < 256" 
    by (metis of_char_mod_256 mod_less_divisor zero_less_numeral)
  have "char_int c mod 256 = int (of_char c)"
  proof (cases "int (of_char c :: nat) < 128")
    case True
    then show ?thesis using lt by (simp add: char_int_def Let_def)
  next
    case False
    then have "char_int c mod 256 = (int (of_char c) - 256) mod 256"
      by (simp add: char_int_def Let_def)
    also have "\<dots> = int (of_char c) mod 256" by (rule minus_mod_self2)
    finally show ?thesis using lt by simp
  qed
  then show ?thesis by (simp add: int_char_def)
qed

lemma char_int_inj: "char_int c = char_int d \<longleftrightarrow> c = d"
  by (metis int_char_char_int)

end
