(* ===== verification/NC_Memory.thy ===== *)
theory NC_Memory
  imports NC_Prelude
begin

text \<open>
  The memory the library works on: string objects (src/nc_string.h) with the character buffer
  each of them points to, the allocator, and the reads and writes that the sources do through
  \<^verbatim>\<open>memset\<close>, \<^verbatim>\<open>memcpy\<close> and pointers. A buffer belongs to the one object whose \<^verbatim>\<open>value\<close> field
  points to it; a write outside a block, a read of an indeterminate byte, a use of an object
  that is not allocated are faults. Later theories extend the record \<open>heap\<close> with the other kinds
  of objects.
\<close>

section \<open>String objects\<close>

text \<open>
  What \<^verbatim>\<open>value\<close> points to: nothing, a block that malloc(3) returned, or an array the library
  did not allocate (a literal, or the caller's array after \<^verbatim>\<open>str_alias\<close>).
\<close>

datatype charbuf = Null | Heap bytes | Static bytes

record string_t =
  s_value :: charbuf
  s_size :: nat
  s_len :: nat
  s_owner :: bool

definition STRING_MAX :: nat where
  "STRING_MAX = 536870912"

text \<open>\<^verbatim>\<open>sizeof(string_t)\<close> and \<^verbatim>\<open>sizeof(char *)\<close> on a 64-bit platform.\<close>

definition SIZEOF_STRING_T :: nat where "SIZEOF_STRING_T = 32"
definition SIZEOF_PTR :: nat where "SIZEOF_PTR = 8"

section \<open>The heap\<close>

text \<open>
  \<open>strs\<close> maps the address of every allocated string object to its fields. \<open>brk\<close> numbers the
  allocations: it is the address the next object gets. \<open>malloc_ok k n\<close> says whether allocation
  number \<open>k\<close>, of \<open>n\<close> bytes, succeeds; it is arbitrary, so every allocation may fail.
\<close>

record heap =
  strs :: "nat \<Rightarrow> string_t option"
  brk :: nat
  malloc_ok :: "nat \<Rightarrow> nat \<Rightarrow> bool"

type_synonym ('a, 'z) nc = "'z heap_scheme \<Rightarrow> ('a, 'z heap_scheme) outcome"

definition mem_ok :: "'z heap_scheme \<Rightarrow> bool" where
  "mem_ok w \<longleftrightarrow> (\<forall>k n. malloc_ok w k n)"

text \<open>Every allocated string object has an address below \<open>brk\<close>.\<close>

definition wf_strs :: "'z heap_scheme \<Rightarrow> bool" where
  "wf_strs w \<longleftrightarrow> (\<forall>a. strs w a \<noteq> None \<longrightarrow> a < brk w)"

lemma wf_strs_fresh: "wf_strs w \<Longrightarrow> brk w \<le> a \<Longrightarrow> strs w a = None"
  unfolding wf_strs_def by (metis leD)

section \<open>Character pointers\<close>

text \<open>
  A \<^verbatim>\<open>const char *\<close> points to an array that holds the given characters and a NUL after them
  (\<open>CLit\<close>), or into the buffer of a string object: \<open>CVal s off\<close> is \<^verbatim>\<open>s->value + off\<close>.
\<close>

datatype cptr = CLit string | CVal nat nat

definition buf_bytes :: "charbuf \<Rightarrow> bytes option" where
  "buf_bytes v = (case v of Null \<Rightarrow> None | Heap b \<Rightarrow> Some b | Static b \<Rightarrow> Some b)"

definition get_str :: "nat \<Rightarrow> (string_t, 'z) nc" where
  "get_str s w = (case strs w s of None \<Rightarrow> Fault BadAddr | Some t \<Rightarrow> Ok t w)"

definition put_str :: "nat \<Rightarrow> string_t \<Rightarrow> (unit, 'z) nc" where
  "put_str s t w = (case strs w s of None \<Rightarrow> Fault BadAddr
     | Some _ \<Rightarrow> Ok () (w\<lparr>strs := (strs w)(s \<mapsto> t)\<rparr>))"

text \<open>The bytes from a pointer to the end of its block.\<close>

fun cbytes :: "cptr \<Rightarrow> (bytes, 'z) nc" where
  "cbytes (CLit cs) w = Ok (map Some (cs @ [NUL])) w"
| "cbytes (CVal s off) w =
     (case strs w s of None \<Rightarrow> Fault BadAddr
      | Some t \<Rightarrow> (case buf_bytes (s_value t) of None \<Rightarrow> Fault NullDeref
         | Some b \<Rightarrow> if off \<le> length b then Ok (drop off b) w else Fault OutOfBounds))"

text \<open>Reading a C string: strlen(3), strcmp(3) and the others run to its NUL.\<close>

definition cread :: "cptr \<Rightarrow> (string, 'z) nc" where
  "cread p = nc_bind (cbytes p) (\<lambda>b. case cstr b of None \<Rightarrow> nc_fault OutOfBounds
     | Some cs \<Rightarrow> nc_return cs)"

text \<open>\<^verbatim>\<open>s->value[off]\<close>\<close>

definition peek :: "nat \<Rightarrow> nat \<Rightarrow> (char, 'z) nc" where
  "peek s off = nc_bind (cbytes (CVal s off)) (\<lambda>b. case b of [] \<Rightarrow> nc_fault OutOfBounds
     | None # _ \<Rightarrow> nc_fault Uninit | Some c # _ \<Rightarrow> nc_return c)"

text \<open>Writing bytes at \<^verbatim>\<open>s->value + off\<close>; \<^verbatim>\<open>memset(s->value + off, c, 1)\<close> writes one.\<close>

definition poke :: "nat \<Rightarrow> nat \<Rightarrow> bytes \<Rightarrow> (unit, 'z) nc" where
  "poke s off bs = nc_bind (get_str s) (\<lambda>t. case s_value t of Null \<Rightarrow> nc_fault NullDeref
     | Static _ \<Rightarrow> nc_fault ReadOnly
     | Heap b \<Rightarrow> if off + length bs \<le> length b
         then put_str s (t\<lparr>s_value := Heap (splice off bs b)\<rparr>) else nc_fault OutOfBounds)"

definition overlaps :: "nat \<Rightarrow> nat \<Rightarrow> cptr \<Rightarrow> nat \<Rightarrow> bool" where
  "overlaps s off p n = (case p of CLit _ \<Rightarrow> False
     | CVal s' off' \<Rightarrow> s = s' \<and> 0 < n \<and> off < off' + n \<and> off' < off + n)"

text \<open>\<^verbatim>\<open>memcpy(s->value + off, p, n)\<close>\<close>

definition memcpy :: "nat \<Rightarrow> nat \<Rightarrow> cptr \<Rightarrow> nat \<Rightarrow> (unit, 'z) nc" where
  "memcpy s off p n = nc_bind (cbytes p) (\<lambda>b.
     if length b < n then nc_fault OutOfBounds
     else if overlaps s off p n then nc_fault Overlap
     else poke s off (take n b))"

section \<open>The allocator\<close>

definition malloc :: "nat \<Rightarrow> (charbuf, 'z) nc" where
  "malloc n w = Ok (if malloc_ok w (brk w) n then Heap (replicate n None) else Null)
     (w\<lparr>brk := Suc (brk w)\<rparr>)"

definition realloc :: "charbuf \<Rightarrow> nat \<Rightarrow> (charbuf, 'z) nc" where
  "realloc v n = (case v of
       Static _ \<Rightarrow> nc_fault BadFree
     | Null \<Rightarrow> malloc n
     | Heap b \<Rightarrow> nc_bind (malloc n) (\<lambda>v'. nc_return (case v' of Null \<Rightarrow> Null
         | _ \<Rightarrow> Heap (take n b @ replicate (n - length b) None))))"

definition free_buf :: "charbuf \<Rightarrow> (unit, 'z) nc" where
  "free_buf v = (case v of Static _ \<Rightarrow> nc_fault BadFree | _ \<Rightarrow> nc_return ())"

text \<open>
  The new bytes are cleared through the old pointer. \<open>moved\<close> tells whether realloc(3) moved the block; the old pointer
  is not valid then. The result is the new pointer.
\<close>

definition mem_realloc :: "bool \<Rightarrow> charbuf \<Rightarrow> nat \<Rightarrow> nat \<Rightarrow> (charbuf, 'z) nc" where
  "mem_realloc moved dest old_size new_size =
     nc_bind (realloc dest new_size) (\<lambda>p. case p of
       Heap b \<Rightarrow>
         if 0 < old_size \<and> old_size < new_size
         then if dest = Null then nc_fault NullDeref
           else if moved then nc_fault BadAddr
           else nc_return (Heap (splice old_size (replicate (new_size - old_size) (Some NUL)) b))
         else nc_return p
     | _ \<Rightarrow> nc_throw)"

text \<open>
  \<^verbatim>\<open>mem_calloc(*dest)\<close> for a string object: it throws when the pointer is not NULL, and when
  calloc(3) fails; otherwise every field is zero.
\<close>

definition zero_string :: string_t where
  "zero_string = \<lparr>s_value = Null, s_size = 0, s_len = 0, s_owner = False\<rparr>"

definition calloc_str :: "nat option \<Rightarrow> (nat, 'z) nc" where
  "calloc_str dest w =
     (if dest \<noteq> None then Fail (-1) w
      else if malloc_ok w (brk w) SIZEOF_STRING_T
      then Ok (brk w) (w\<lparr>strs := (strs w)(brk w \<mapsto> zero_string), brk := Suc (brk w)\<rparr>)
      else Fail (-1) (w\<lparr>brk := Suc (brk w)\<rparr>))"

text \<open>\<^verbatim>\<open>free(s)\<close> of the object itself.\<close>

definition free_str :: "nat \<Rightarrow> (unit, 'z) nc" where
  "free_str s w = (case strs w s of None \<Rightarrow> Fault BadFree
     | Some _ \<Rightarrow> Ok () (w\<lparr>strs := (strs w)(s := None)\<rparr>))"

text \<open>
  A \<^verbatim>\<open>string_t\<close> declared as a local variable with an initialiser lives on the stack: it gets an
  address for the time of the body, and no allocation can fail.
\<close>

definition with_local_str :: "string_t \<Rightarrow> (nat \<Rightarrow> ('a, 'z) nc) \<Rightarrow> ('a, 'z) nc" where
  "with_local_str t body w =
     (let a = brk w in
      case body a (w\<lparr>strs := (strs w)(a \<mapsto> t), brk := Suc a\<rparr>) of
        Ok r w' \<Rightarrow> Ok r (w'\<lparr>strs := (strs w')(a := None)\<rparr>)
      | Fail rc w' \<Rightarrow> Fail rc (w'\<lparr>strs := (strs w')(a := None)\<rparr>)
      | Fault f \<Rightarrow> Fault f)"

section \<open>Evaluation lemmas\<close>

lemmas mem_defs [mem_simps] =
  get_str_def put_str_def cread_def peek_def poke_def memcpy_def malloc_def realloc_def
  free_buf_def calloc_str_def free_str_def buf_bytes_def

lemma strs_brk_commute [simp]: "w\<lparr>brk := n, strs := m\<rparr> = w\<lparr>strs := m, brk := n\<rparr>"
  by simp

lemma mem_ok_malloc [simp]: "mem_ok w \<Longrightarrow> malloc_ok w k n"
  by (simp add: mem_ok_def)

lemma mem_ok_strs [simp]: "mem_ok (w\<lparr>strs := x\<rparr>) = mem_ok w"
  by (simp add: mem_ok_def)

lemma mem_ok_brk [simp]: "mem_ok (w\<lparr>brk := x\<rparr>) = mem_ok w"
  by (simp add: mem_ok_def)

lemma wf_strs_update [simp]:
  "strs w a \<noteq> None \<Longrightarrow> wf_strs w \<Longrightarrow> brk w \<le> n \<Longrightarrow>
     wf_strs (w\<lparr>strs := (strs w)(a \<mapsto> t), brk := n\<rparr>)"
  by (fastforce simp: wf_strs_def)

lemma STRING_MAX_small: "STRING_MAX < 2 ^ 30"
  by (simp add: STRING_MAX_def)

lemma STRING_MAX_pos [simp]: "16 < STRING_MAX"
  by (simp add: STRING_MAX_def)

lemma overlaps_CLit [simp]: "\<not> overlaps s off (CLit cs) n"
  by (simp add: overlaps_def)

lemma overlaps_other [simp]: "s \<noteq> s' \<Longrightarrow> \<not> overlaps s off (CVal s' off') n"
  by (simp add: overlaps_def)

end
