(* ===== verification/NC_Libc.thy ===== *)
theory NC_Libc
  imports NC_Prelude
begin

text \<open>
  The functions of the C library that the sources call on NUL terminated strings, as functions
  on the characters before the terminator (a \<open>string\<close> with no NUL). The locale is the "C"
  locale. Only the sign of a comparison is specified by C, so comparisons return -1, 0 or 1.
\<close>

section \<open>Character classes\<close>

definition isupper :: "char \<Rightarrow> bool" where
  "isupper c \<longleftrightarrow> (let n = (of_char c :: nat) in 65 \<le> n \<and> n \<le> 90)"

definition islower :: "char \<Rightarrow> bool" where
  "islower c \<longleftrightarrow> (let n = (of_char c :: nat) in 97 \<le> n \<and> n \<le> 122)"

definition isdigit :: "char \<Rightarrow> bool" where
  "isdigit c \<longleftrightarrow> (let n = (of_char c :: nat) in 48 \<le> n \<and> n \<le> 57)"

definition isalnum :: "char \<Rightarrow> bool" where
  "isalnum c \<longleftrightarrow> isupper c \<or> islower c \<or> isdigit c"

definition isspace :: "char \<Rightarrow> bool" where
  "isspace c \<longleftrightarrow> (let n = (of_char c :: nat) in n = 32 \<or> 9 \<le> n \<and> n \<le> 13)"

definition toupper :: "char \<Rightarrow> char" where
  "toupper c = (if islower c then char_of ((of_char c :: nat) - 32) else c)"

definition tolower :: "char \<Rightarrow> char" where
  "tolower c = (if isupper c then char_of ((of_char c :: nat) + 32) else c)"

section \<open>Comparison and search\<close>

fun strcmp :: "string \<Rightarrow> string \<Rightarrow> int" where
  "strcmp [] [] = 0"
| "strcmp [] (y # ys) = -1"
| "strcmp (x # xs) [] = 1"
| "strcmp (x # xs) (y # ys) =
     (if x = y then strcmp xs ys
      else if (of_char x :: nat) < of_char y then -1 else 1)"

definition strncmp :: "string \<Rightarrow> string \<Rightarrow> nat \<Rightarrow> int" where
  "strncmp xs ys n = strcmp (take n xs) (take n ys)"

definition strcasecmp :: "string \<Rightarrow> string \<Rightarrow> int" where
  "strcasecmp xs ys = strcmp (map tolower xs) (map tolower ys)"

text \<open>\<open>strstr haystack needle\<close>: the haystack from the first occurrence of the needle on.\<close>

fun is_prefix :: "string \<Rightarrow> string \<Rightarrow> bool" where
  "is_prefix [] ys = True"
| "is_prefix (x # xs) [] = False"
| "is_prefix (x # xs) (y # ys) = (x = y \<and> is_prefix xs ys)"

fun strstr :: "string \<Rightarrow> string \<Rightarrow> string option" where
  "strstr [] needle = (if needle = [] then Some [] else None)"
| "strstr (x # xs) needle =
     (if is_prefix needle (x # xs) then Some (x # xs) else strstr xs needle)"

text \<open>\<open>strchr s c \<noteq> NULL\<close>: the terminator is part of the string.\<close>

definition strchr :: "string \<Rightarrow> char \<Rightarrow> bool" where
  "strchr s c \<longleftrightarrow> c = NUL \<or> c \<in> set s"

lemma strcmp_eq_0 [simp]: "strcmp xs ys = 0 \<longleftrightarrow> xs = ys"
  by (induction xs ys rule: strcmp.induct) auto

lemma strcmp_refl [simp]: "strcmp xs xs = 0"
  by simp

lemma strcmp_sym: "strcmp ys xs = - strcmp xs ys"
proof (induction xs ys rule: strcmp.induct)
  case (4 x xs y ys)
  show ?case
  proof (cases "x = y")
    case False
    then have "(of_char x :: nat) \<noteq> of_char y" by simp
    with False show ?thesis by auto
  qed (use 4 in auto)
qed auto

lemma strcmp_trans_less:
  "strcmp xs ys \<le> 0 \<Longrightarrow> strcmp ys zs \<le> 0 \<Longrightarrow> strcmp xs zs \<le> 0"
proof (induction xs arbitrary: ys zs)
  case Nil
  then show ?case by (cases zs) auto
next
  case (Cons x xs)
  then obtain y ys' where ys: "ys = y # ys'" by (cases ys) auto
  with Cons obtain z zs' where zs: "zs = z # zs'" by (cases zs) auto
  show ?case
    using Cons.prems Cons.IH [of ys' zs'] unfolding ys zs
    by (auto split: if_splits)
qed

lemma is_prefix_iff: "is_prefix xs ys \<longleftrightarrow> (\<exists>zs. ys = xs @ zs)"
  by (induction xs ys rule: is_prefix.induct) auto

text \<open>strstr(3) finds the needle exactly when it is a contiguous part of the haystack.\<close>

lemma strstr_iff: "strstr hay needle \<noteq> None \<longleftrightarrow> (\<exists>us vs. hay = us @ needle @ vs)"
proof (induction hay needle rule: strstr.induct)
  case (2 x xs needle)
  show ?case
  proof (cases "is_prefix needle (x # xs)")
    case True
    then show ?thesis by (auto simp: is_prefix_iff) (metis append_Nil)
  next
    case False
    then have "(\<exists>us vs. x # xs = us @ needle @ vs) \<longleftrightarrow> (\<exists>us vs. xs = us @ needle @ vs)"
      by (auto simp: is_prefix_iff Cons_eq_append_conv)
    with False 2 show ?thesis by simp
  qed
qed simp

lemma length_strcasecmp: "strcasecmp xs ys = 0 \<longleftrightarrow> map tolower xs = map tolower ys"
  by (simp add: strcasecmp_def)

section \<open>Numbers\<close>

definition digit_val :: "char \<Rightarrow> nat" where
  "digit_val c = of_char c - 48"

text \<open>The value of a run of decimal digits, most significant first.\<close>

definition dec_val :: "string \<Rightarrow> nat" where
  "dec_val ds = fold (\<lambda>c n. 10 * n + digit_val c) ds 0"

definition LONG_MAX :: int where "LONG_MAX = 9223372036854775807"
definition LONG_MIN :: int where "LONG_MIN = -9223372036854775808"
definition ULONG_MAX :: nat where "ULONG_MAX = 18446744073709551615"
definition INT_MAX :: int where "INT_MAX = 2147483647"
definition UINT_MAX :: nat where "UINT_MAX = 4294967295"

text \<open>
  What strtol(3) and strtoul(3) see in base 10: the sign and the digits after leading white
  space, and the rest of the string after the digits. With no digits there is no conversion,
  and the end pointer is the start of the string.
\<close>

definition num_parts :: "string \<Rightarrow> bool \<times> string \<times> string" where
  "num_parts s =
     (let t = dropWhile isspace s;
          neg = (t \<noteq> [] \<and> hd t = CHR ''-'');
          u = (if t \<noteq> [] \<and> (hd t = CHR ''-'' \<or> hd t = CHR ''+'') then tl t else t);
          ds = takeWhile isdigit u
      in (neg, ds, if ds = [] then s else dropWhile isdigit u))"

text \<open>strtol(s, NULL, 10): the value, and whether errno was set to ERANGE.\<close>

definition strtol :: "string \<Rightarrow> int \<times> bool" where
  "strtol s =
     (case num_parts s of (neg, ds, _) \<Rightarrow>
        let v = (if neg then - int (dec_val ds) else int (dec_val ds)) in
        if v > LONG_MAX then (LONG_MAX, True)
        else if v < LONG_MIN then (LONG_MIN, True)
        else (v, False))"

text \<open>
  strtoul(s, &ep, 10): the value, whether errno was set to ERANGE, and the string at \<^verbatim>\<open>ep\<close>. A
  minus sign negates the value in unsigned arithmetic.
\<close>

definition strtoul :: "string \<Rightarrow> nat \<times> bool \<times> string" where
  "strtoul s =
     (case num_parts s of (neg, ds, rest) \<Rightarrow>
        let v = dec_val ds in
        if v > ULONG_MAX then (ULONG_MAX, True, rest)
        else ((if neg then (2 ^ 64 - v) mod 2 ^ 64 else v), False, rest))"

section \<open>Hexadecimal\<close>

definition isxdigit :: "char \<Rightarrow> bool" where
  "isxdigit c \<longleftrightarrow> isdigit c \<or>
     (let n = (of_char c :: nat) in 65 \<le> n \<and> n \<le> 70 \<or> 97 \<le> n \<and> n \<le> 102)"

definition xdigit_val :: "char \<Rightarrow> nat" where
  "xdigit_val c =
     (let n = of_char c in if n \<le> 57 then n - 48 else if n \<le> 70 then n - 55 else n - 87)"

text \<open>The lower case hexadecimal digit of a number below 16.\<close>

definition hex_digit :: "nat \<Rightarrow> char" where
  "hex_digit n = char_of (if n < 10 then 48 + n else 87 + n)"

text \<open>snprintf(code, 4, "%%%02x", c & 0xff).\<close>

definition pct_hex :: "char \<Rightarrow> string" where
  "pct_hex c = [CHR ''%'', hex_digit (of_char c div 16), hex_digit (of_char c mod 16)]"

text \<open>
  sscanf(s, "%%%02x", &code) == 1, with \<open>s\<close> the string after the percent sign: white space is
  skipped, then at most two characters are taken, an optional sign, an optional 0x and
  hexadecimal digits. The result is the converted value modulo 2^32, or \<open>None\<close> when there is no
  digit.
\<close>

definition sscanf_hex2 :: "string \<Rightarrow> nat option" where
  "sscanf_hex2 s =
     (let t = take 2 (dropWhile isspace s);
          neg = (t \<noteq> [] \<and> hd t = CHR ''-'');
          u = (if t \<noteq> [] \<and> (hd t = CHR ''-'' \<or> hd t = CHR ''+'') then tl t else t);
          ds = (if take 2 u = ''0x'' \<or> take 2 u = ''0X'' then [] else takeWhile isxdigit u);
          v = fold (\<lambda>c n. 16 * n + xdigit_val c) ds 0
      in if ds = [] then None
         else Some (if neg then (2 ^ 32 - v) mod 2 ^ 32 else v))"

lemma of_char_lt_256: "(of_char c :: nat) < 256"
  by (metis of_char_mod_256 mod_less_divisor zero_less_numeral)

lemma of_char_hex_digit: "n < 16 \<Longrightarrow> of_char (hex_digit n) = (if n < 10 then 48 + n else 87 + n)"
  by (simp add: hex_digit_def of_char_of)

lemma hex_digit_props:
  assumes "n < 16"
  shows "isxdigit (hex_digit n)" "xdigit_val (hex_digit n) = n" "\<not> isspace (hex_digit n)"
    "hex_digit n \<noteq> CHR ''-''" "hex_digit n \<noteq> CHR ''+''"
    "hex_digit n \<noteq> CHR ''x''" "hex_digit n \<noteq> CHR ''X''" "hex_digit n \<noteq> NUL"
proof -
  note v = of_char_hex_digit [OF assms]
  show "isxdigit (hex_digit n)" "xdigit_val (hex_digit n) = n" "\<not> isspace (hex_digit n)"
    using assms by (auto simp: isxdigit_def isdigit_def xdigit_val_def isspace_def Let_def v)
  have neq: "hex_digit n \<noteq> c" if "(of_char c :: nat) < 48 \<or> 57 < (of_char c :: nat) \<and> (of_char c :: nat) < 97
      \<or> 103 < (of_char c :: nat)" for c
    using that v assms by (auto split: if_splits)
  show "hex_digit n \<noteq> CHR ''-''" "hex_digit n \<noteq> CHR ''+''"
    "hex_digit n \<noteq> CHR ''x''" "hex_digit n \<noteq> CHR ''X''" "hex_digit n \<noteq> NUL"
    by (rule neq; simp)+
qed

text \<open>sscanf(3) reads back what snprintf(3) wrote, whatever follows.\<close>

lemma sscanf_hex2_pct_hex:
  "sscanf_hex2 (tl (pct_hex c) @ s) = Some (of_char c)"
proof -
  have lt: "of_char c div 16 < (16 :: nat)" "of_char c mod 16 < (16 :: nat)"
    using of_char_lt_256 [of c] by (simp_all add: less_mult_imp_div_less)
  note p1 = hex_digit_props [OF lt(1)] and p2 = hex_digit_props [OF lt(2)]
  show ?thesis
    by (simp add: sscanf_hex2_def pct_hex_def p1 p2 Let_def)
qed

end
