(* ===== verification/NC_String.thy ===== *)
theory NC_String
  imports NC_Memory NC_Libc
begin

text \<open>
  The string component, first part (src/string.c): construction, copying, resizing,
  appending, and the editing operations on one string object. Each operation is the C
  function statement by statement; a call the program does not test is sequenced with
  \<open>nc_bind\<close>, which is what the compiler generates for it.

  The abstraction is \<open>str_rep t xs\<close>: the object owns a block of \<^verbatim>\<open>size\<close> bytes that holds the
  characters \<open>xs\<close> and a NUL after them. The lemmas say that every operation keeps it, what it
  does to the characters, when it throws, and that it touches no other object.
\<close>

section \<open>Operations\<close>

text \<open>Assignment to fields of \<^verbatim>\<open>*s\<close>.\<close>

definition upd_str :: "nat \<Rightarrow> (string_t \<Rightarrow> string_t) \<Rightarrow> (unit, 'z) nc" where
  "upd_str s f = nc_bind (get_str s) (\<lambda>t. put_str s (f t))"

fun cbuf_scan :: "nat \<Rightarrow> bytes \<Rightarrow> (nat, 'z) nc" where
  "cbuf_scan i [] = (if i < STRING_MAX then nc_fault OutOfBounds else nc_throw)"
| "cbuf_scan i (b # bs) =
     (if i < STRING_MAX
      then (case b of None \<Rightarrow> nc_fault Uninit
            | Some c \<Rightarrow> if c = NUL then nc_return i else cbuf_scan (Suc i) bs)
      else nc_throw)"

definition cbuf_len :: "cptr \<Rightarrow> (nat, 'z) nc" where
  "cbuf_len s = nc_bind (cbytes s) (cbuf_scan 0)"

definition str_truncate :: "nat \<Rightarrow> (unit, 'z) nc" where
  "str_truncate dest =
     nc_bind (upd_str dest (\<lambda>d. d\<lparr>s_len := 0\<rparr>)) (\<lambda>_.
     nc_bind (get_str dest) (\<lambda>d.
     nc_when (0 < s_size d) (poke dest 0 [Some NUL])))"

definition str_resize :: "nat \<Rightarrow> nat \<Rightarrow> (unit, 'z) nc" where
  "str_resize str new_size =
     (if new_size = 0 then nc_throw
      else if STRING_MAX < new_size then nc_throw
      else nc_bind (get_str str) (\<lambda>t.
        nc_when (s_size t < new_size)
          (nc_bind (realloc (s_value t) new_size) (\<lambda>c.
           if c = Null then nc_throw
           else nc_bind (upd_str str (\<lambda>t. t\<lparr>s_value := c\<rparr>)) (\<lambda>_.
             nc_bind (poke str (new_size - 1) [Some NUL]) (\<lambda>_.
             upd_str str (\<lambda>t. t\<lparr>s_size := new_size\<rparr>)))))))"

definition str_set_len :: "nat \<Rightarrow> nat \<Rightarrow> (unit, 'z) nc" where
  "str_set_len dest new_len =
     (if STRING_MAX < new_len then nc_throw
      else nc_bind (get_str dest) (\<lambda>d.
        if s_size d \<le> new_len then nc_throw
        else nc_bind (upd_str dest (\<lambda>d. d\<lparr>s_len := new_len\<rparr>)) (\<lambda>_.
          poke dest new_len [Some NUL])))"

text \<open>
  After realloc(3) has moved the buffer of \<open>s\<close>, a pointer into the old block must not be used.
\<close>

definition points_into :: "cptr \<Rightarrow> nat \<Rightarrow> bool" where
  "points_into p s = (case p of CLit _ \<Rightarrow> False | CVal s' _ \<Rightarrow> s' = s)"

definition str_ncpy :: "nat \<Rightarrow> cptr \<Rightarrow> nat \<Rightarrow> (unit, 'z) nc" where
  "str_ncpy dest src len =
     nc_bind (get_str dest) (\<lambda>d.
     if src = CVal dest 0 then nc_throw
     else if STRING_MAX < len then nc_throw
     else if len = 0 then str_truncate dest
     else nc_bind (str_truncate dest) (\<lambda>_.
       nc_bind (str_resize dest (len + 1)) (\<lambda>_.
       if s_size d < len + 1 \<and> points_into src dest then nc_fault BadAddr
       else nc_bind (memcpy dest 0 src len) (\<lambda>_.
         nc_bind (poke dest len [Some NUL]) (\<lambda>_.
         upd_str dest (\<lambda>d. d\<lparr>s_owner := True, s_len := len\<rparr>))))))"

definition str_cpy :: "nat \<Rightarrow> cptr \<Rightarrow> (unit, 'z) nc" where
  "str_cpy dest src =
     nc_bind (get_str dest) (\<lambda>_.
     nc_bind (nc_require (src \<noteq> CVal dest 0)) (\<lambda>_.
     nc_bind (cbuf_len src) (\<lambda>src_len.
     str_ncpy dest src src_len)))"

definition str_cat :: "nat \<Rightarrow> cptr \<Rightarrow> (unit, 'z) nc" where
  "str_cat dest src =
     nc_bind (cread src) (\<lambda>cs.
     let src_len = length cs in
     if src_len = 0 then nc_return ()
     else if STRING_MAX \<le> src_len then nc_throw
     else nc_bind (get_str dest) (\<lambda>d.
       let new_size = sz (s_len d + src_len + 1) in
       if new_size \<le> s_len d then nc_throw
       else nc_bind (nc_when (s_size d < new_size) (str_resize dest new_size)) (\<lambda>_.
         if s_size d < new_size \<and> points_into src dest then nc_fault BadAddr
         else nc_bind (memcpy dest (s_len d) src src_len) (\<lambda>_.
           nc_bind (poke dest (s_len d + src_len) [Some NUL]) (\<lambda>_.
           str_set_len dest (new_size - 1))))))"

definition str_append :: "nat \<Rightarrow> nat \<Rightarrow> (unit, 'z) nc" where
  "str_append dest src = (if src = dest then nc_throw else str_cat dest (CVal src 0))"

definition str_putc :: "nat \<Rightarrow> int \<Rightarrow> (unit, 'z) nc" where
  "str_putc dest c = str_cat dest (CLit [int_char c])"

definition str_copy :: "nat \<Rightarrow> nat \<Rightarrow> (unit, 'z) nc" where
  "str_copy dest src =
     (if src = dest then nc_throw
      else nc_bind (get_str src) (\<lambda>s.
        if s_len s = 0 \<or> s_size s = 0 then str_truncate dest
        else nc_bind (get_str dest) (\<lambda>d.
          nc_bind (nc_when (s_owner d) (free_buf (s_value d))) (\<lambda>_.
          nc_bind (upd_str dest (\<lambda>d. d\<lparr>s_size := 0\<rparr>)) (\<lambda>_.
          nc_bind (malloc (s_size s)) (\<lambda>v.
          nc_bind (upd_str dest (\<lambda>d. d\<lparr>s_value := v\<rparr>)) (\<lambda>_.
          if v = Null then nc_throw
          else nc_bind (memcpy dest 0 (CVal src 0) (s_len s + 1)) (\<lambda>_.
            upd_str dest (\<lambda>d. d\<lparr>s_size := s_size s, s_len := s_len s, s_owner := True\<rparr>)))))))))"

definition str_move :: "nat \<Rightarrow> nat \<Rightarrow> (unit, 'z) nc" where
  "str_move dest src =
     nc_bind (nc_require (src \<noteq> dest)) (\<lambda>_.
     if src = dest then nc_throw
     else nc_bind (str_copy dest src) (\<lambda>_. str_truncate src))"

definition str_new :: "nat option \<Rightarrow> (nat, 'z) nc" where
  "str_new dest =
     nc_bind (calloc_str dest) (\<lambda>str.
     nc_bind (malloc 16) (\<lambda>v.
     nc_bind (upd_str str (\<lambda>t. t\<lparr>s_value := v\<rparr>)) (\<lambda>_.
     if v = Null then nc_throw
     else nc_bind (poke str 0 (replicate SIZEOF_PTR (Some NUL))) (\<lambda>_.
       nc_bind (upd_str str (\<lambda>t. t\<lparr>s_size := 16, s_owner := True\<rparr>)) (\<lambda>_.
       nc_return str)))))"

definition str_destroy :: "nat option \<Rightarrow> (unit, 'z) nc" where
  "str_destroy str = (case str of None \<Rightarrow> nc_return ()
     | Some s \<Rightarrow> nc_bind (get_str s) (\<lambda>t.
         nc_bind (nc_when (s_value t \<noteq> Null) (free_buf (s_value t))) (\<lambda>_.
         free_str s)))"

text \<open>
  A local variable \<^verbatim>\<open>string_t *buf;\<close> without initialiser: the compiler inserts
  \<^verbatim>\<open>buf = NULL; try (str_new(&buf));\<close> before the body and \<^verbatim>\<open>destroy(str, &buf);\<close> before the
  final return. A throw returns at once and does not reach the destructor.
\<close>

definition with_auto_str :: "(nat \<Rightarrow> ('a, 'z) nc) \<Rightarrow> ('a, 'z) nc" where
  "with_auto_str body =
     nc_bind (str_new None) (\<lambda>buf.
     nc_bind (body buf) (\<lambda>r.
     nc_bind (str_destroy (Some buf)) (\<lambda>_. nc_return r)))"

definition str_prepend :: "nat \<Rightarrow> nat \<Rightarrow> (unit, 'z) nc" where
  "str_prepend dest src = with_auto_str (\<lambda>buf.
     if src = dest then nc_throw
     else nc_bind (str_copy buf dest) (\<lambda>_.
       nc_bind (str_copy dest src) (\<lambda>_.
       str_append dest buf)))"

definition str_get_char :: "nat \<Rightarrow> nat \<Rightarrow> (char, 'z) nc" where
  "str_get_char str position =
     nc_bind (get_str str) (\<lambda>t. if s_len t \<le> position then nc_throw else peek str position)"

definition str_divide :: "nat \<Rightarrow> nat \<Rightarrow> nat \<Rightarrow> nat \<Rightarrow> (unit, 'z) nc" where
  "str_divide left right src position =
     nc_bind (get_str src) (\<lambda>s.
     if s_len s \<le> position then nc_throw
     else if position = 0
     then nc_bind (str_truncate left) (\<lambda>_. str_copy right src)
     else nc_bind (str_ncpy left (CVal src 0) position) (\<lambda>_.
       str_cpy right (CVal src (position + 1))))"

definition str_truncate_at :: "nat \<Rightarrow> nat \<Rightarrow> (unit, 'z) nc" where
  "str_truncate_at src position =
     nc_bind (get_str src) (\<lambda>s.
     if s_len s < position then nc_throw
     else nc_bind (poke src position [Some NUL]) (\<lambda>_.
       upd_str src (\<lambda>s. s\<lparr>s_len := position\<rparr>)))"

definition str_alias :: "nat \<Rightarrow> cptr \<Rightarrow> (unit, 'z) nc" where
  "str_alias dest src =
     nc_bind (cbytes src) (\<lambda>b.
     nc_bind (upd_str dest (\<lambda>d. d\<lparr>s_owner := False, s_value := Static b\<rparr>)) (\<lambda>_.
     nc_catch (cbuf_scan 0 b)
       (\<lambda>n. upd_str dest (\<lambda>d. d\<lparr>s_len := n, s_size := n + 1\<rparr>))
       (\<lambda>_. nc_bind (upd_str dest (\<lambda>d. d\<lparr>s_len := 0\<rparr>)) (\<lambda>_. nc_throw))))"

definition str_get_terminator :: "nat \<Rightarrow> (cptr, 'z) nc" where
  "str_get_terminator str =
     nc_bind (get_str str) (\<lambda>t. nc_return (CVal str (if 0 < s_len t then s_len t - 1 else 0)))"

definition str_cmp_terminator :: "nat \<Rightarrow> int \<Rightarrow> (unit, 'z) nc" where
  "str_cmp_terminator str terminator =
     nc_bind (get_str str) (\<lambda>t.
     if 0 < s_len t
     then nc_bind (peek str (s_len t - 1)) (\<lambda>c.
       if char_int c \<noteq> terminator then nc_throw else nc_return ())
     else nc_return ())"

definition str_set_terminator :: "nat \<Rightarrow> int \<Rightarrow> (unit, 'z) nc" where
  "str_set_terminator str terminator =
     nc_bind (get_str str) (\<lambda>t.
     if 0 < s_len t
     then nc_bind (poke str (s_len t - 1) [Some (int_char terminator)]) (\<lambda>_.
       nc_when (terminator = 0) (upd_str str (\<lambda>t. t\<lparr>s_len := s_len t - 1\<rparr>)))
     else str_putc str terminator)"

primrec str_to_upper_loop :: "nat \<Rightarrow> nat \<Rightarrow> nat \<Rightarrow> (unit, 'z) nc" where
  "str_to_upper_loop s i 0 = nc_return ()"
| "str_to_upper_loop s i (Suc n) =
     nc_bind (peek s i) (\<lambda>c.
     nc_bind (poke s i [Some (toupper c)]) (\<lambda>_.
     str_to_upper_loop s (Suc i) n))"

definition str_to_upper :: "nat \<Rightarrow> (unit, 'z) nc" where
  "str_to_upper s = nc_bind (get_str s) (\<lambda>t. str_to_upper_loop s 0 (s_len t))"

definition str_chomp :: "nat \<Rightarrow> (unit, 'z) nc" where
  "str_chomp str =
     nc_bind (get_str str) (\<lambda>t.
     if s_len t = 0 then nc_return ()
     else nc_bind (peek str (s_len t - 1)) (\<lambda>c.
       nc_bind (if c = LF
          then nc_bind (poke str (s_len t - 1) [Some NUL]) (\<lambda>_.
            nc_bind (upd_str str (\<lambda>t. t\<lparr>s_len := s_len t - 1\<rparr>)) (\<lambda>_.
            nc_return (int (s_len t) - 2)))
          else nc_return (int (s_len t) - 1)) (\<lambda>cp.
       nc_bind (get_str str) (\<lambda>t.
       if 0 < s_len t
       then nc_bind (peek str (nat cp)) (\<lambda>c.
         nc_when (c = CR)
           (nc_bind (poke str (nat cp) [Some NUL]) (\<lambda>_.
            upd_str str (\<lambda>t. t\<lparr>s_len := s_len t - 1\<rparr>))))
       else nc_return ()))))"

primrec str_translate_loop :: "nat \<Rightarrow> nat \<Rightarrow> nat \<Rightarrow> char \<Rightarrow> char \<Rightarrow> (unit, 'z) nc" where
  "str_translate_loop 0 s cp old new = nc_fault OutOfBounds"
| "str_translate_loop (Suc k) s cp old new =
     nc_bind (peek s cp) (\<lambda>c.
     if c = NUL then nc_return ()
     else nc_bind (peek s (Suc cp)) (\<lambda>d.
       nc_bind (nc_when (d = old) (poke s (Suc cp) [Some new])) (\<lambda>_.
       str_translate_loop k s (Suc cp) old new)))"

text \<open>The loop reads at most every byte of the block before it stops or leaves the block.\<close>

definition str_translate :: "nat \<Rightarrow> int \<Rightarrow> int \<Rightarrow> (unit, 'z) nc" where
  "str_translate s old new =
     nc_bind (cbytes (CVal s 0)) (\<lambda>b.
     str_translate_loop (length b) s 0 (int_char old) (int_char new))"

definition str_swap :: "nat \<Rightarrow> nat \<Rightarrow> (unit, 'z) nc" where
  "str_swap s1 s2 =
     nc_bind (get_str s1) (\<lambda>tmp.
     nc_bind (get_str s2) (\<lambda>t2.
     nc_bind (put_str s1 t2) (\<lambda>_.
     put_str s2 tmp)))"

definition EMPTY_STRING :: string_t where
  "EMPTY_STRING = \<lparr>s_value = Static [Some NUL], s_size = 0, s_len = 0, s_owner = True\<rparr>"

text \<open>
  The initialisers of the macros STR and CSTRING, for a literal with the characters \<open>x\<close>
  (\<^verbatim>\<open>sizeof(x)\<close> is \<open>length x + 1\<close>), field by field in the order of the struct.
\<close>

definition STR_init :: "string \<Rightarrow> string_t" where
  "STR_init x = \<lparr>s_value = Static (map Some (x @ [NUL])), s_size = 0, s_len = 0, s_owner = False\<rparr>"

definition CSTRING_init :: "string \<Rightarrow> string_t" where
  "CSTRING_init x = \<lparr>s_value = Static (map Some (x @ [NUL])),
     s_size = length x + 1 - 1, s_len = length x + 1, s_owner = False\<rparr>"

section \<open>The abstraction\<close>

text \<open>The bytes \<open>b\<close> start with the characters \<open>xs\<close> and a NUL.\<close>

definition holds :: "bytes \<Rightarrow> string \<Rightarrow> bool" where
  "holds b xs \<longleftrightarrow> (\<exists>r. b = map Some xs @ Some NUL # r)"

text \<open>An object in the state every constructor and every successful operation leaves it in.\<close>

definition str_of :: "bytes \<Rightarrow> nat \<Rightarrow> string_t" where
  "str_of b n = \<lparr>s_value = Heap b, s_size = length b, s_len = n, s_owner = True\<rparr>"

definition str_rep :: "string_t \<Rightarrow> string \<Rightarrow> bool" where
  "str_rep t xs \<longleftrightarrow> (\<exists>b. t = str_of b (length xs) \<and> holds b xs \<and> length b \<le> STRING_MAX + 1)"

definition str_has :: "'z heap_scheme \<Rightarrow> nat \<Rightarrow> string \<Rightarrow> bool" where
  "str_has w s xs \<longleftrightarrow> (\<exists>t. strs w s = Some t \<and> str_rep t xs)"

text \<open>\<open>w'\<close> is \<open>w\<close> except that the string \<open>s\<close> now holds \<open>xs\<close>.\<close>

definition str_upd :: "'z heap_scheme \<Rightarrow> nat \<Rightarrow> string \<Rightarrow> 'z heap_scheme \<Rightarrow> bool" where
  "str_upd w s xs w' \<longleftrightarrow>
     (\<exists>t n. str_rep t xs \<and> brk w \<le> n \<and> w' = w\<lparr>strs := (strs w)(s \<mapsto> t), brk := n\<rparr>)"

lemma str_of_simps [simp]:
  "s_value (str_of b n) = Heap b" "s_size (str_of b n) = length b"
  "s_len (str_of b n) = n" "s_owner (str_of b n) = True"
  "(str_of b n)\<lparr>s_len := m\<rparr> = str_of b m"
  "length b' = length b \<Longrightarrow> (str_of b n)\<lparr>s_value := Heap b'\<rparr> = str_of b' n"
  "(str_of b n)\<lparr>s_owner := True\<rparr> = str_of b n"
  by (simp_all add: str_of_def)

lemma holds_length: "holds b xs \<Longrightarrow> length xs < length b"
  by (auto simp: holds_def)

lemma holds_cstr: "holds b xs \<Longrightarrow> NUL \<notin> set xs \<Longrightarrow> cstr b = Some xs"
  by (auto simp: holds_def cstr_simps)

lemma holds_nth: "holds b xs \<Longrightarrow> i < length xs \<Longrightarrow> b ! i = Some (xs ! i)"
  by (auto simp: holds_def nth_append)

lemma holds_terminator: "holds b xs \<Longrightarrow> b ! length xs = Some NUL"
  by (auto simp: holds_def nth_append)

lemma holds_take: "holds b xs \<Longrightarrow> take (length xs) b = map Some xs"
  by (auto simp: holds_def)

lemma holds_append_bytes: "holds b xs \<Longrightarrow> holds (b @ c) xs"
  by (auto simp: holds_def)

lemma holds_iff_take:
  "holds b xs \<longleftrightarrow> length xs < length b \<and> take (length xs) b = map Some xs \<and> b ! length xs = Some NUL"
  by (metis (no_types, opaque_lifting) holds_def holds_length holds_take holds_terminator
      take_Suc_terminated)

text \<open>Writing a NUL at position \<open>n\<close> of a buffer truncates what it holds to \<open>n\<close> characters.\<close>

lemma holds_terminate:
  "n < length b \<Longrightarrow> take n b = map Some xs \<Longrightarrow> holds (splice n [Some NUL] b) xs"
proof -
  assume n: "n < length b" and t: "take n b = map Some xs"
  from arg_cong [OF t, of length] n have "length xs = n" by simp
  then show ?thesis using n t by (simp add: holds_iff_take splice_single)
qed

lemma holds_truncate: "0 < length b \<Longrightarrow> holds (splice 0 [Some NUL] b) []"
  by (rule holds_terminate) simp_all

lemma holds_write:
  assumes "i \<le> length b" "i + length ys < length b" "take i b = map Some xs"
  shows "holds (splice (i + length ys) [Some NUL] (splice i (map Some ys) b)) (xs @ ys)"
proof (rule holds_terminate)
  show "take (i + length ys) (splice i (map Some ys) b) = map Some (xs @ ys)"
    using take_splice_through [of i b "map Some ys"] assms by simp
qed (use assms in simp)

lemma str_hasI: "strs w s = Some t \<Longrightarrow> str_rep t xs \<Longrightarrow> str_has w s xs"
  by (auto simp: str_has_def)

lemma str_hasE:
  assumes "str_has w s xs"
  obtains b where "strs w s = Some (str_of b (length xs))" "holds b xs"
    "length b \<le> STRING_MAX + 1"
  using assms by (auto simp: str_has_def str_rep_def)

lemma str_has_length: "str_has w s xs \<Longrightarrow> length xs \<le> STRING_MAX"
  by (auto elim!: str_hasE dest: holds_length)

lemma str_repI:
  "holds b xs \<Longrightarrow> length b \<le> STRING_MAX + 1 \<Longrightarrow> n = length xs \<Longrightarrow> str_rep (str_of b n) xs"
  by (auto simp: str_rep_def)

lemma str_has_unique: "str_has w s xs \<Longrightarrow> str_has w s ys \<Longrightarrow> xs = ys"
proof -
  assume x: "str_has w s xs" and y: "str_has w s ys"
  obtain b where b: "strs w s = Some (str_of b (length xs))" "holds b xs" using x by (rule str_hasE)
  obtain c where c: "strs w s = Some (str_of c (length ys))" "holds c ys" using y by (rule str_hasE)
  have "b = c" "length xs = length ys" using b(1) c(1) by (simp_all add: str_of_def)
  then have "map Some xs = map Some ys" using holds_take [OF b(2)] holds_take [OF c(2)] by metis
  then show ?thesis by (rule map_injective [OF _ inj_Some])
qed

lemma str_updI:
  "str_rep t xs \<Longrightarrow> brk w \<le> n \<Longrightarrow> str_upd w s xs (w\<lparr>strs := (strs w)(s \<mapsto> t), brk := n\<rparr>)"
  by (auto simp: str_upd_def)

lemma str_updI_same_brk:
  "str_rep t xs \<Longrightarrow> str_upd w s xs (w\<lparr>strs := (strs w)(s \<mapsto> t)\<rparr>)"
  unfolding str_upd_def
  by (rule exI [of _ t], rule exI [of _ "brk w"]) simp

lemma str_upd_has: "str_upd w s xs w' \<Longrightarrow> str_has w' s xs"
  by (auto simp: str_upd_def str_has_def)

lemma str_upd_other: "str_upd w s xs w' \<Longrightarrow> a \<noteq> s \<Longrightarrow> strs w' a = strs w a"
  by (auto simp: str_upd_def)

lemma str_upd_has_other [simp]:
  "str_upd w s xs w' \<Longrightarrow> a \<noteq> s \<Longrightarrow> str_has w' a ys = str_has w a ys"
  by (auto simp: str_has_def str_upd_other)

lemma str_upd_frame:
  "str_upd w s xs w' \<Longrightarrow> malloc_ok w' = malloc_ok w \<and> heap.more w' = heap.more w \<and> brk w \<le> brk w'"
  by (auto simp: str_upd_def)

lemma str_upd_mem_ok: "str_upd w s xs w' \<Longrightarrow> mem_ok w' = mem_ok w"
  by (auto simp: str_upd_def)

lemma str_upd_trans:
  assumes "str_upd w s xs w1" "str_upd w1 s ys w2"
  shows "str_upd w s ys w2"
proof -
  obtain t n where w1: "brk w \<le> n" "w1 = w\<lparr>strs := (strs w)(s \<mapsto> t), brk := n\<rparr>"
    using assms(1) unfolding str_upd_def by blast
  obtain u m where "str_rep u ys" "brk w1 \<le> m"
    "w2 = w1\<lparr>strs := (strs w1)(s \<mapsto> u), brk := m\<rparr>"
    using assms(2) unfolding str_upd_def by blast
  with w1 have "str_rep u ys" "brk w \<le> m" "w2 = w\<lparr>strs := (strs w)(s \<mapsto> u), brk := m\<rparr>"
    by simp_all
  then show ?thesis unfolding str_upd_def by blast
qed

lemma str_upd_refl: "str_has w s xs \<Longrightarrow> str_upd w s xs w"
proof -
  assume "str_has w s xs"
  then obtain t where t: "strs w s = Some t" "str_rep t xs" by (auto simp: str_has_def)
  then have "(strs w)(s \<mapsto> t) = strs w" by (simp add: fun_upd_idem)
  then have "w = w\<lparr>strs := (strs w)(s \<mapsto> t), brk := brk w\<rparr>" by simp
  with t(2) show ?thesis unfolding str_upd_def by (metis order_refl)
qed

lemma str_upd_wf: "wf_strs w \<Longrightarrow> str_has w s ys \<Longrightarrow> str_upd w s xs w' \<Longrightarrow> wf_strs w'"
  by (auto simp: str_upd_def str_has_def)

section \<open>Frames\<close>

text \<open>
  \<open>mod_strs S w w'\<close>: from \<open>w\<close> to \<open>w'\<close> only string objects with an address in \<open>S\<close> were changed,
  created or freed. It is how the effect of several calls is put together.
\<close>

definition mod_strs :: "nat set \<Rightarrow> 'z heap_scheme \<Rightarrow> 'z heap_scheme \<Rightarrow> bool" where
  "mod_strs S w w' \<longleftrightarrow> malloc_ok w' = malloc_ok w \<and> heap.more w' = heap.more w \<and> brk w \<le> brk w' \<and>
     (\<forall>a. a \<notin> S \<longrightarrow> strs w' a = strs w a)"

lemma mod_strs_refl [simp]: "mod_strs S w w"
  by (simp add: mod_strs_def)

lemma mod_strs_trans: "mod_strs S w w1 \<Longrightarrow> mod_strs T w1 w2 \<Longrightarrow> mod_strs (S \<union> T) w w2"
  by (auto simp: mod_strs_def)

lemma mod_strs_mono: "mod_strs S w w' \<Longrightarrow> S \<subseteq> T \<Longrightarrow> mod_strs T w w'"
  unfolding mod_strs_def by blast

lemma mod_strs_trans_same: "mod_strs S w w1 \<Longrightarrow> mod_strs S w1 w2 \<Longrightarrow> mod_strs S w w2"
  using mod_strs_trans [of S w w1 S w2] by simp

lemma mod_strs_other: "mod_strs S w w' \<Longrightarrow> a \<notin> S \<Longrightarrow> strs w' a = strs w a"
  by (auto simp: mod_strs_def)

lemma mod_strs_has: "mod_strs S w w' \<Longrightarrow> a \<notin> S \<Longrightarrow> str_has w' a xs = str_has w a xs"
  by (simp add: str_has_def mod_strs_other)

lemma mod_strs_mem_ok: "mod_strs S w w' \<Longrightarrow> mem_ok w' = mem_ok w"
  by (auto simp: mod_strs_def mem_ok_def)

lemma mod_strs_brk: "mod_strs S w w' \<Longrightarrow> brk w \<le> brk w'"
  by (auto simp: mod_strs_def)

lemma mod_strs_more: "mod_strs S w w' \<Longrightarrow> heap.more w' = heap.more w"
  by (auto simp: mod_strs_def)

lemma str_upd_mod: "str_upd w s xs w' \<Longrightarrow> mod_strs {s} w w'"
  by (auto simp: str_upd_def mod_strs_def)

lemma str_upd_iff: "str_upd w s xs w' \<longleftrightarrow> mod_strs {s} w w' \<and> str_has w' s xs"
proof
  assume r: "mod_strs {s} w w' \<and> str_has w' s xs"
  then obtain t where t: "strs w' s = Some t" "str_rep t xs" by (auto simp: str_has_def)
  have "strs w' = (strs w)(s \<mapsto> t)" using r t(1) by (auto simp: fun_eq_iff mod_strs_def)
  then have "w' = w\<lparr>strs := (strs w)(s \<mapsto> t), brk := brk w'\<rparr>"
    using r by (simp add: mod_strs_def)
  with r t(2) show "str_upd w s xs w'" unfolding str_upd_def by (auto dest: mod_strs_brk)
qed (auto dest: str_upd_mod str_upd_has)

text \<open>An object that was not allocated before and is not any more leaves no trace.\<close>

lemma mod_strs_drop:
  "mod_strs S w w' \<Longrightarrow> strs w a = None \<Longrightarrow> strs w' a = None \<Longrightarrow> mod_strs (S - {a}) w w'"
  by (auto simp: mod_strs_def)

lemma mod_strs_free:
  "mod_strs S w w' \<Longrightarrow> strs w a = None \<Longrightarrow> mod_strs (S - {a}) w (w'\<lparr>strs := (strs w')(a := None)\<rparr>)"
  by (auto simp: mod_strs_def)

lemma mod_strs_wf: "mod_strs S w w' \<Longrightarrow> wf_strs w \<Longrightarrow> \<forall>a\<in>S. a < brk w' \<Longrightarrow> wf_strs w'"
  unfolding wf_strs_def
  by (metis mod_strs_brk mod_strs_other order_less_le_trans)

lemma str_has_lt: "wf_strs w \<Longrightarrow> str_has w s xs \<Longrightarrow> s < brk w"
  by (auto simp: wf_strs_def str_has_def)

end
