(* ===== verification/NC_String_Laws.thy ===== *)
theory NC_String_Laws
  imports NC_String
begin

text \<open>
  What the string operations of \<open>NC_String\<close> do. For each operation there is an evaluation lemma
  (its exact result on an object in the normal state), a success lemma under \<open>mem_ok\<close> (no
  allocation fails) and, where allocation matters, a safety lemma that holds whatever the
  allocator does.
\<close>

lemmas run_simps = nc_simps mem_simps upd_str_def Suc_le_eq

section \<open>Evaluation of the operations on one object\<close>

lemma str_truncate_eval:
  "strs w d = Some (str_of b n) \<Longrightarrow> 0 < length b \<Longrightarrow>
     str_truncate d w = Ok () (w\<lparr>strs := (strs w)(d \<mapsto> str_of (splice 0 [Some NUL] b) 0)\<rparr>)"
  by (simp add: str_truncate_def run_simps)

definition grow :: "bytes \<Rightarrow> nat \<Rightarrow> bytes" where
  "grow b n = splice (n - 1) [Some NUL] (b @ replicate (n - length b) None)"

lemma length_grow [simp]: "length b < n \<Longrightarrow> length (grow b n) = n"
  by (simp add: grow_def)

lemma take_grow [simp]: "m \<le> length b \<Longrightarrow> length b < n \<Longrightarrow> take m (grow b n) = take m b"
  by (simp add: grow_def)

lemma holds_grow: "length b < n \<Longrightarrow> holds b xs \<Longrightarrow> holds (grow b n) xs"
proof -
  assume n: "length b < n" and h: "holds b xs"
  have l: "length xs < length b" using h by (rule holds_length)
  have "grow b n ! length xs = b ! length xs"
    using n l by (simp add: grow_def splice_single nth_append)
  with n h l show ?thesis by (simp add: holds_iff_take)
qed

lemma str_resize_eval:
  "strs w d = Some (str_of b m) \<Longrightarrow>
     str_resize d n w =
       (if n = 0 \<or> STRING_MAX < n then Fail (-1) w
        else if n \<le> length b then Ok () w
        else if malloc_ok w (brk w) n
        then Ok () (w\<lparr>strs := (strs w)(d \<mapsto> str_of (grow b n) m), brk := Suc (brk w)\<rparr>)
        else Fail (-1) (w\<lparr>brk := Suc (brk w)\<rparr>))"
  by (simp add: str_resize_def run_simps grow_def str_of_def)

lemma str_set_len_eval:
  "strs w d = Some (str_of b m) \<Longrightarrow>
     str_set_len d n w =
       (if STRING_MAX < n \<or> length b \<le> n then Fail (-1) w
        else Ok () (w\<lparr>strs := (strs w)(d \<mapsto> str_of (splice n [Some NUL] b) n)\<rparr>))"
  by (simp add: str_set_len_def run_simps)

lemma poke_eval:
  "strs w d = Some (str_of b n) \<Longrightarrow> i + length c \<le> length b \<Longrightarrow>
     poke d i c w = Ok () (w\<lparr>strs := (strs w)(d \<mapsto> str_of (splice i c b) n)\<rparr>)"
  by (simp add: run_simps)

lemma peek_eval:
  "strs w d = Some (str_of b n) \<Longrightarrow> i < length b \<Longrightarrow> b ! i = Some c \<Longrightarrow> peek d i w = Ok c w"
  by (simp add: run_simps Cons_nth_drop_Suc [symmetric])

text \<open>
  A readable source: a C string that lies outside the object being written. Its first \<open>n\<close> bytes
  are the characters of the string.
\<close>

lemma cread_Ok:
  "cread p w = Ok cs w' \<Longrightarrow> w' = w \<and> (\<exists>r. cbytes p w = Ok (map Some cs @ Some NUL # r) w)"
proof -
  assume a: "cread p w = Ok cs w'"
  have same: "cbytes p w = Ok b w'' \<Longrightarrow> w'' = w" for b w''
    by (cases p) (auto split: option.splits if_splits)
  from a obtain b w'' where b: "cbytes p w = Ok b w''" "cstr b = Some cs" "w'' = w'"
    by (auto simp: cread_def nc_simps split: outcome.splits option.splits)
  with cstr_split [of b cs] same [OF b(1)] show ?thesis by auto
qed

lemma cread_no_NUL: "cread p w = Ok cs w' \<Longrightarrow> NUL \<notin> set cs"
  by (auto simp: cread_def nc_simps split: outcome.splits option.splits dest: cstr_no_NUL)

lemma cread_CLit [simp]: "NUL \<notin> set cs \<Longrightarrow> cread (CLit cs) w = Ok cs w"
  using cstr_terminated [of cs "[]"] by (simp add: cread_def nc_simps)

lemma cread_str_has:
  "str_has w s xs \<Longrightarrow> NUL \<notin> set xs \<Longrightarrow> cread (CVal s 0) w = Ok xs w"
  by (auto elim!: str_hasE simp: cread_def nc_simps mem_simps holds_cstr)

text \<open>Bytes of another object are not touched by a write to \<open>d\<close>.\<close>

lemma cbytes_frame:
  "\<not> points_into p d \<Longrightarrow> cbytes p w = Ok b w \<Longrightarrow>
     cbytes p (w\<lparr>strs := (strs w)(d \<mapsto> t), brk := n\<rparr>) = Ok b (w\<lparr>strs := (strs w)(d \<mapsto> t), brk := n\<rparr>)"
  by (cases p) (auto simp: points_into_def split: option.splits if_splits)

lemma cbytes_frame_strs:
  "\<not> points_into p d \<Longrightarrow> cbytes p w = Ok b w \<Longrightarrow>
     cbytes p (w\<lparr>strs := (strs w)(d \<mapsto> t)\<rparr>) = Ok b (w\<lparr>strs := (strs w)(d \<mapsto> t)\<rparr>)"
  by (cases p) (auto simp: points_into_def split: option.splits if_splits)

lemma not_points_into_overlaps: "\<not> points_into p d \<Longrightarrow> \<not> overlaps d i p n"
  by (cases p) (auto simp: points_into_def overlaps_def)

lemma not_points_into_neq: "\<not> points_into p d \<Longrightarrow> p \<noteq> CVal d i"
  by (auto simp: points_into_def)

lemma points_into_simps [simp]:
  "\<not> points_into (CLit cs) d" "points_into (CVal s i) d \<longleftrightarrow> s = d"
  by (simp_all add: points_into_def)

lemma memcpy_eval:
  "strs w d = Some (str_of b m) \<Longrightarrow> cbytes p w = Ok c w \<Longrightarrow> n \<le> length c \<Longrightarrow>
     \<not> points_into p d \<Longrightarrow> i + n \<le> length b \<Longrightarrow>
     memcpy d i p n w = Ok () (w\<lparr>strs := (strs w)(d \<mapsto> str_of (splice i (take n c) b) m)\<rparr>)"
  by (simp add: memcpy_def nc_simps not_points_into_overlaps poke_eval min_def)

section \<open>Truncation, resizing, length\<close>

lemma str_truncate_ok:
  assumes "str_has w d xs"
  shows "\<exists>w'. str_truncate d w = Ok () w' \<and> str_upd w d [] w'"
proof -
  obtain b where b: "strs w d = Some (str_of b (length xs))" "holds b xs" "length b \<le> STRING_MAX + 1"
    using assms by (rule str_hasE)
  then have "0 < length b" using holds_length [OF b(2)] by linarith
  moreover have "str_rep (str_of (splice 0 [Some NUL] b) 0) []"
    using \<open>0 < length b\<close> b(3) by (intro str_repI holds_truncate) simp_all
  ultimately show ?thesis
    using str_truncate_eval [OF b(1)] by (auto intro!: str_updI_same_brk)
qed

text \<open>
  Growing a string either succeeds and gives at least the requested room, or an allocation
  failed and the string is as before.
\<close>

lemma str_resize_cases:
  assumes "str_has w d xs" "0 < n" "n \<le> STRING_MAX"
  obtains w' b where "str_resize d n w = Ok () w'" "str_upd w d xs w'"
      "strs w' d = Some (str_of b (length xs))" "holds b xs" "n \<le> length b"
      "length b \<le> STRING_MAX + 1"
    | w' where "\<not> mem_ok w" "str_resize d n w = Fail (-1) w'" "str_upd w d xs w'"
proof -
  obtain b where b: "strs w d = Some (str_of b (length xs))" "holds b xs" "length b \<le> STRING_MAX + 1"
    using assms(1) by (rule str_hasE)
  consider "n \<le> length b" | "length b < n" "malloc_ok w (brk w) n" | "length b < n" "\<not> malloc_ok w (brk w) n"
    by fastforce
  then show ?thesis
  proof cases
    case 1
    then show ?thesis
      using b assms str_resize_eval [OF b(1), of n] str_upd_refl [OF assms(1)]
      by (intro that(1) [of w b]) simp_all
  next
    case 2
    then have r: "str_rep (str_of (grow b n) (length xs)) xs"
      using b assms by (intro str_repI holds_grow) simp_all
    show ?thesis
      using b assms 2 str_resize_eval [OF b(1), of n]
      by (intro that(1) [of "w\<lparr>strs := (strs w)(d \<mapsto> str_of (grow b n) (length xs)), brk := Suc (brk w)\<rparr>"
            "grow b n"]) (simp_all add: str_updI [OF r] holds_grow)
  next
    case 3
    have "str_upd w d xs (w\<lparr>brk := Suc (brk w)\<rparr>)"
      using assms(1) by (auto simp: str_upd_iff mod_strs_def str_has_def)
    with 3 show ?thesis
      using assms str_resize_eval [OF b(1), of n] by (intro that(2)) auto
  qed
qed

lemma str_resize_ok:
  assumes "str_has w d xs" "0 < n" "n \<le> STRING_MAX" "mem_ok w"
  shows "\<exists>w' b. str_resize d n w = Ok () w' \<and> str_upd w d xs w' \<and>
           strs w' d = Some (str_of b (length xs)) \<and> holds b xs \<and> n \<le> length b
           \<and> length b \<le> STRING_MAX + 1"
  using str_resize_cases [OF assms(1-3)] assms(4) by metis

lemma str_set_len_ok:
  assumes "str_has w d xs" "n \<le> length xs"
  shows "\<exists>w'. str_set_len d n w = Ok () w' \<and> str_upd w d (take n xs) w'"
proof -
  obtain b where b: "strs w d = Some (str_of b (length xs))" "holds b xs" "length b \<le> STRING_MAX + 1"
    using assms(1) by (rule str_hasE)
  have l: "length xs < length b" "length xs \<le> STRING_MAX"
    using holds_length [OF b(2)] b(3) by auto
  have "take n b = take n (take (length xs) b)" using assms(2) by simp
  also have "\<dots> = map Some (take n xs)" using holds_take [OF b(2)] by (simp add: take_map)
  finally have "take n b = map Some (take n xs)" .
  then have "str_rep (str_of (splice n [Some NUL] b) n) (take n xs)"
    using l assms(2) b(3) by (intro str_repI holds_terminate) simp_all
  with l assms(2) show ?thesis
    using str_set_len_eval [OF b(1), of n] by (auto intro!: str_updI_same_brk)
qed

section \<open>Copying from a character pointer\<close>

lemma cbuf_scan_Ok:
  "NUL \<notin> set xs \<Longrightarrow> i + length xs < STRING_MAX \<Longrightarrow>
     cbuf_scan i (map Some xs @ Some NUL # r) w = Ok (i + length xs) w"
  by (induction xs arbitrary: i) (auto simp: nc_simps)

lemma cbuf_scan_too_long:
  "NUL \<notin> set xs \<Longrightarrow> STRING_MAX \<le> i + length xs \<Longrightarrow>
     cbuf_scan i (map Some xs @ r) w = Fail (-1) w"
proof (induction xs arbitrary: i)
  case Nil
  then show ?case by (cases r) (auto simp: nc_simps)
qed (auto simp: nc_simps)

lemma cbuf_len_ok:
  assumes "cread p w = Ok cs w'" "length cs < STRING_MAX"
  shows "cbuf_len p w = Ok (length cs) w"
proof -
  obtain r where "cbytes p w = Ok (map Some cs @ Some NUL # r) w"
    using cread_Ok [OF assms(1)] by blast
  then show ?thesis
    using cbuf_scan_Ok [of cs 0 r w] cread_no_NUL [OF assms(1)] assms(2)
    by (simp add: cbuf_len_def nc_simps)
qed

lemma cbuf_len_too_long:
  assumes "cread p w = Ok cs w'" "STRING_MAX \<le> length cs"
  shows "cbuf_len p w = Fail (-1) w"
proof -
  obtain r where "cbytes p w = Ok (map Some cs @ Some NUL # r) w"
    using cread_Ok [OF assms(1)] by blast
  then show ?thesis
    using cbuf_scan_too_long [of cs 0 "Some NUL # r" w] cread_no_NUL [OF assms(1)] assms(2)
    by (simp add: cbuf_len_def nc_simps)
qed

text \<open>
  The core of every copy: \<^verbatim>\<open>memcpy\<close> of \<open>n\<close> bytes at the end of the first \<open>i\<close> characters, then a
  NUL.
\<close>

lemma write_tail_ok:
  assumes "strs w d = Some (str_of b m)" "take i b = map Some xs" "i + length ys < length b"
    "cbytes p w = Ok (map Some ys @ r) w" "\<not> points_into p d" "length b \<le> STRING_MAX + 1"
  shows "\<exists>w1 b'. memcpy d i p (length ys) w = Ok () w1
           \<and> poke d (i + length ys) [Some NUL] w1 = Ok () (w\<lparr>strs := (strs w)(d \<mapsto> str_of b' m)\<rparr>)
           \<and> holds b' (xs @ ys) \<and> length b' = length b"
proof -
  let ?b1 = "splice i (map Some ys) b"
  let ?b2 = "splice (i + length ys) [Some NUL] ?b1"
  have mc: "memcpy d i p (length ys) w = Ok () (w\<lparr>strs := (strs w)(d \<mapsto> str_of ?b1 m)\<rparr>)"
    using memcpy_eval [OF assms(1,4) _ assms(5), of "length ys" i] assms(3) by simp
  have "holds ?b2 (xs @ ys)" using assms by (intro holds_write) simp_all
  moreover have "length ?b2 = length b" using assms(3) by simp
  moreover have "poke d (i + length ys) [Some NUL] (w\<lparr>strs := (strs w)(d \<mapsto> str_of ?b1 m)\<rparr>)
      = Ok () (w\<lparr>strs := (strs w)(d \<mapsto> str_of ?b2 m)\<rparr>)"
    using assms(3) by (simp add: poke_eval [of _ d ?b1 m])
  ultimately show ?thesis using mc by blast
qed

lemma str_ncpy_cases:
  assumes "str_has w d xs" "cbytes p w = Ok (map Some ys @ r) w" "\<not> points_into p d"
    "length ys < STRING_MAX"
  obtains w' where "str_ncpy d p (length ys) w = Ok () w'" "str_upd w d ys w'"
    | w' where "\<not> mem_ok w" "str_ncpy d p (length ys) w = Fail (-1) w'" "str_upd w d [] w'"
proof (cases "ys = []")
  case True
  obtain t where "strs w d = Some t" using assms(1) by (auto simp: str_has_def)
  with True have "str_ncpy d p (length ys) w = str_truncate d w"
    using not_points_into_neq [OF assms(3)] by (simp add: str_ncpy_def nc_simps get_str_def)
  with True that(1) show ?thesis using str_truncate_ok [OF assms(1)] by auto
next
  case False
  obtain t where t: "strs w d = Some t" using assms(1) by (auto simp: str_has_def)
  obtain w1 where w1: "str_truncate d w = Ok () w1" "str_upd w d [] w1"
    using str_truncate_ok [OF assms(1)] by blast
  then have h1: "str_has w1 d []" "mem_ok w1 = mem_ok w"
    by (auto dest: str_upd_has str_upd_mem_ok)
  have ne: "p \<noteq> CVal d 0" using assms(3) by (rule not_points_into_neq)
  show ?thesis
  proof (cases rule: str_resize_cases [OF h1(1), of "length ys + 1", case_names a b ok no])
    case (ok w2 b)
    have u2: "str_upd w d [] w2" using w1(2) ok(2) by (rule str_upd_trans)
    then have c2: "cbytes p w2 = Ok (map Some ys @ r) w2"
      using assms(2,3) by (auto simp: str_upd_def cbytes_frame)
    obtain w3 b' where b': "memcpy d 0 p (length ys) w2 = Ok () w3"
        "poke d (0 + length ys) [Some NUL] w3 = Ok () (w2\<lparr>strs := (strs w2)(d \<mapsto> str_of b' 0)\<rparr>)"
        "holds b' ([] @ ys)" "length b' = length b"
      using write_tail_ok [OF ok(3) _ _ c2 assms(3) ok(6), of 0 "[]"] ok(5) by auto
    have rep: "str_rep (str_of b' (length ys)) ys" using b' ok(6) by (intro str_repI) simp_all
    have "str_ncpy d p (length ys) w = Ok () (w2\<lparr>strs := (strs w2)(d \<mapsto> str_of b' (length ys))\<rparr>)"
      using t w1(1) ok(1) False assms(3,4) b'(1,2) ne
      by (simp add: str_ncpy_def upd_str_def nc_simps get_str_def put_str_def)
    then show ?thesis by (rule that(1)) (rule str_upd_trans [OF u2 str_updI_same_brk [OF rep]])
  next
    case (no w2)
    have "str_ncpy d p (length ys) w = Fail (-1) w2"
      using t w1(1) no(2) False assms(4) ne by (simp add: str_ncpy_def nc_simps get_str_def)
    moreover have "str_upd w d [] w2" using w1(2) no(3) by (rule str_upd_trans)
    ultimately show ?thesis using no(1) h1(2) that(2) by blast
  qed (use assms(4) in simp_all)
qed

lemma str_ncpy_ok:
  assumes "str_has w d xs" "cbytes p w = Ok (map Some ys @ r) w" "\<not> points_into p d"
    "length ys < STRING_MAX" "mem_ok w"
  shows "\<exists>w'. str_ncpy d p (length ys) w = Ok () w' \<and> str_upd w d ys w'"
  using str_ncpy_cases [OF assms(1-4)] assms(5) by metis

lemma str_cpy_ok:
  assumes "str_has w d xs" "cread p w = Ok ys w" "\<not> points_into p d"
    "length ys < STRING_MAX" "mem_ok w"
  shows "\<exists>w'. str_cpy d p w = Ok () w' \<and> str_upd w d ys w'"
proof -
  obtain r where r: "cbytes p w = Ok (map Some ys @ Some NUL # r) w" using cread_Ok [OF assms(2)] by blast
  obtain t where "strs w d = Some t" using assms(1) by (auto simp: str_has_def)
  then show ?thesis
    using str_ncpy_ok [OF assms(1) r assms(3,4,5)] cbuf_len_ok [OF assms(2,4)]
      not_points_into_neq [OF assms(3)]
    by (simp add: str_cpy_def nc_simps get_str_def)
qed

section \<open>Appending\<close>

text \<open>
  \<^verbatim>\<open>str_cat\<close> appends, or an allocation failed and the string is as before; nothing else can
  happen, whatever the allocator does.
\<close>

lemma str_cat_cases:
  assumes "str_has w d xs" "cread p w = Ok ys w" "\<not> points_into p d"
    "length xs + length ys < STRING_MAX"
  obtains w' where "str_cat d p w = Ok () w'" "str_upd w d (xs @ ys) w'"
    | w' where "\<not> mem_ok w" "str_cat d p w = Fail (-1) w'" "str_upd w d xs w'"
proof (cases "ys = []")
  case True
  then show ?thesis
    using assms str_upd_refl [OF assms(1)] by (intro that(1) [of w]) (simp_all add: str_cat_def nc_simps)
next
  case False
  note done_ok = that(1)
  let ?n = "length xs + length ys + 1"
  obtain r where r: "cbytes p w = Ok (map Some ys @ Some NUL # r) w" using cread_Ok [OF assms(2)] by blast
  obtain t where t: "strs w d = Some t" "s_len t = length xs"
    using assms(1) by (auto elim: str_hasE)
  have sz: "sz ?n = ?n" using assms(4) STRING_MAX_small by (intro sz_id) simp
  have grown: ?thesis if w2: "nc_when (s_size t < ?n) (str_resize d ?n) w = Ok () w2" "str_upd w d xs w2"
    "strs w2 d = Some (str_of b (length xs))" "holds b xs" "?n \<le> length b" "length b \<le> STRING_MAX + 1"
    for w2 b
  proof -
    have c2: "cbytes p w2 = Ok (map Some ys @ Some NUL # r) w2"
      using r w2(2) assms(3) by (auto simp: str_upd_def cbytes_frame)
    obtain w3 b' where b'1: "memcpy d (length xs) p (length ys) w2 = Ok () w3"
        "poke d (length xs + length ys) [Some NUL] w3
          = Ok () (w2\<lparr>strs := (strs w2)(d \<mapsto> str_of b' (length xs))\<rparr>)"
      and b': "holds b' (xs @ ys)" "length b' = length b"
      using write_tail_ok [OF w2(3) holds_take [OF w2(4)] _ c2 assms(3) w2(6)] w2(5) by auto
    let ?w3 = "w2\<lparr>strs := (strs w2)(d \<mapsto> str_of b' (length xs))\<rparr>"
    have rep: "str_rep (str_of (splice (length (xs @ ys)) [Some NUL] b') (length (xs @ ys))) (xs @ ys)"
      using holds_take [OF b'(1)] holds_length [OF b'(1)] b'(2) w2(6)
      by (intro str_repI holds_terminate) simp_all
    have "str_cat d p w = str_set_len d (length (xs @ ys)) ?w3"
      using t w2(1) False assms(2,3,4) sz b'1 by (simp add: str_cat_def nc_simps get_str_def Let_def)
    then have "str_cat d p w = Ok () (w2\<lparr>strs := (strs w2)(d \<mapsto>
        str_of (splice (length (xs @ ys)) [Some NUL] b') (length (xs @ ys)))\<rparr>)"
      using str_set_len_eval [of ?w3 d b' "length xs" "length (xs @ ys)"] assms(4)
        holds_length [OF b'(1)] by simp
    then show ?thesis by (rule done_ok) (rule str_upd_trans [OF w2(2) str_updI_same_brk [OF rep]])
  qed
  show ?thesis
  proof (cases "s_size t < ?n")
    case True
    from assms(4) have "?n \<le> STRING_MAX" by simp
    then show ?thesis
    proof (cases rule: str_resize_cases [OF assms(1), of ?n, case_names a b ok no])
      case (ok w2 b)
      with True grown [of w2 b] show ?thesis by (simp add: nc_when_def)
    next
      case (no w')
      then show ?thesis
        using True \<open>ys \<noteq> []\<close> t sz assms(2,4)
        by (intro that(2) [of w']) (simp_all add: str_cat_def nc_simps get_str_def Let_def)
    qed (use assms(4) in simp_all)
  next
    case False
    then show ?thesis
      using grown str_upd_refl [OF assms(1)] t assms(1) by (fastforce simp: nc_when_def elim: str_hasE)
  qed
qed

lemma str_cat_ok:
  assumes "str_has w d xs" "cread p w = Ok ys w" "\<not> points_into p d"
    "length xs + length ys < STRING_MAX" "mem_ok w"
  shows "\<exists>w'. str_cat d p w = Ok () w' \<and> str_upd w d (xs @ ys) w'"
  using str_cat_cases [OF assms(1-4)] assms(5) by metis

lemma str_putc_ok:
  assumes "str_has w d xs" "int_char c \<noteq> NUL" "length xs + 1 < STRING_MAX" "mem_ok w"
  shows "\<exists>w'. str_putc d c w = Ok () w' \<and> str_upd w d (xs @ [int_char c]) w'"
  using str_cat_ok [of w d xs "CLit [int_char c]" "[int_char c]"] assms
  by (simp add: str_putc_def)

lemma str_append_ok:
  assumes "str_has w d xs" "str_has w s ys" "d \<noteq> s" "NUL \<notin> set ys"
    "length xs + length ys < STRING_MAX" "mem_ok w"
  shows "\<exists>w'. str_append d s w = Ok () w' \<and> str_upd w d (xs @ ys) w'"
  using str_cat_ok [OF assms(1) cread_str_has [OF assms(2,4)] _ assms(5,6)] assms(3)
  by (simp add: str_append_def)

section \<open>Construction and destruction\<close>

definition fresh_buf :: bytes where
  "fresh_buf = replicate 8 (Some NUL) @ replicate 8 None"

lemma str_new_eval:
  "malloc_ok w (brk w) SIZEOF_STRING_T \<Longrightarrow>
     str_new None w =
       (if malloc_ok w (Suc (brk w)) 16
        then Ok (brk w) (w\<lparr>strs := (strs w)(brk w \<mapsto> str_of fresh_buf 0), brk := Suc (Suc (brk w))\<rparr>)
        else Fail (-1) (w\<lparr>strs := (strs w)(brk w \<mapsto> zero_string), brk := Suc (Suc (brk w))\<rparr>))"
  by (simp add: str_new_def run_simps zero_string_def str_of_def fresh_buf_def SIZEOF_PTR_def
      splice_def)

lemma str_new_double: "str_new (Some a) w = Fail (-1) w"
  by (simp add: str_new_def run_simps)

lemma holds_fresh_buf: "holds fresh_buf []"
  by (simp add: holds_def fresh_buf_def numeral_eq_Suc)

lemma str_rep_fresh: "str_rep (str_of fresh_buf 0) []"
  by (intro str_repI holds_fresh_buf) (simp_all add: fresh_buf_def STRING_MAX_def)

lemma str_new_ok:
  assumes "mem_ok w"
  shows "\<exists>w'. str_new None w = Ok (brk w) w' \<and> str_upd w (brk w) [] w' \<and> brk w < brk w'"
proof -
  let ?w = "w\<lparr>strs := (strs w)(brk w \<mapsto> str_of fresh_buf 0), brk := Suc (Suc (brk w))\<rparr>"
  have "str_new None w = Ok (brk w) ?w" using assms by (simp add: str_new_eval)
  moreover have "str_upd w (brk w) [] ?w" by (rule str_updI [OF str_rep_fresh]) simp
  ultimately show ?thesis by auto
qed

lemma str_destroy_ok:
  assumes "str_has w s xs"
  shows "str_destroy (Some s) w = Ok () (w\<lparr>strs := (strs w)(s := None)\<rparr>)"
  using assms by (auto elim!: str_hasE simp: str_destroy_def run_simps)

lemma str_destroy_None [simp]: "str_destroy None w = Ok () w"
  by (simp add: str_destroy_def nc_simps)

text \<open>
  An automatic string: the body runs on a fresh empty string, which is gone afterwards.
\<close>

lemma with_auto_str_ok:
  assumes "mem_ok w" "wf_strs w"
    and body: "\<And>w1. str_upd w (brk w) [] w1 \<Longrightarrow> brk w < brk w1 \<Longrightarrow>
      \<exists>w2 ys. body (brk w) w1 = Ok r w2 \<and> mod_strs (insert (brk w) S) w1 w2 \<and> str_has w2 (brk w) ys \<and> P w2"
    and P: "\<And>w2. mod_strs (insert (brk w) S) w w2 \<Longrightarrow> P w2 \<Longrightarrow> Q (w2\<lparr>strs := (strs w2)(brk w := None)\<rparr>)"
  shows "\<exists>w'. with_auto_str body w = Ok r w' \<and> mod_strs (S - {brk w}) w w' \<and> Q w'"
proof -
  obtain w1 where w1: "str_new None w = Ok (brk w) w1" "str_upd w (brk w) [] w1" "brk w < brk w1"
    using str_new_ok [OF assms(1)] by blast
  obtain w2 ys where w2: "body (brk w) w1 = Ok r w2" "mod_strs (insert (brk w) S) w1 w2"
      "str_has w2 (brk w) ys" "P w2"
    using body [OF w1(2,3)] by blast
  have m: "mod_strs (insert (brk w) S) w w2"
    using mod_strs_trans [OF str_upd_mod [OF w1(2)] w2(2)] by simp
  have "strs w (brk w) = None" using assms(2) by (rule wf_strs_fresh) simp
  from mod_strs_free [OF m this]
  have "mod_strs (S - {brk w}) w (w2\<lparr>strs := (strs w2)(brk w := None)\<rparr>)" by simp
  moreover have "with_auto_str body w = Ok r (w2\<lparr>strs := (strs w2)(brk w := None)\<rparr>)"
    using w1(1) w2(1) str_destroy_ok [OF w2(3)] by (simp add: with_auto_str_def nc_simps)
  ultimately show ?thesis using P [OF m w2(4)] by blast
qed

section \<open>Copying between string objects\<close>

text \<open>
  A string that can be copied from: it need not own its buffer, so strings made by \<^verbatim>\<open>str_alias\<close>
  are included.
\<close>

definition str_src :: "'z heap_scheme \<Rightarrow> nat \<Rightarrow> string \<Rightarrow> bool" where
  "str_src w s xs \<longleftrightarrow> (\<exists>t b. strs w s = Some t \<and> buf_bytes (s_value t) = Some b \<and> holds b xs \<and>
     s_len t = length xs \<and> length xs < s_size t \<and> s_size t \<le> STRING_MAX + 1)"

lemma str_has_src: "str_has w s xs \<Longrightarrow> str_src w s xs"
  by (auto elim!: str_hasE simp: str_src_def buf_bytes_def dest: holds_length)

lemma str_src_lt: "wf_strs w \<Longrightarrow> str_src w s xs \<Longrightarrow> s < brk w"
  by (auto simp: wf_strs_def str_src_def)

lemma str_src_frame: "strs w' s = strs w s \<Longrightarrow> str_src w' s xs = str_src w s xs"
  by (simp add: str_src_def)

lemma str_copy_eval:
  assumes "strs w s = Some t" "buf_bytes (s_value t) = Some b" "strs w d = Some (str_of b0 m)" "d \<noteq> s"
    "0 < s_len t" "s_len t < length b" "s_len t < s_size t"
  shows "str_copy d s w =
    (if malloc_ok w (brk w) (s_size t)
     then Ok () (w\<lparr>strs := (strs w)(d \<mapsto> str_of (take (Suc (s_len t)) b @ replicate (s_size t - Suc (s_len t)) None) (s_len t)),
       brk := Suc (brk w)\<rparr>)
     else Fail (-1) (w\<lparr>strs := (strs w)(d \<mapsto> \<lparr>s_value = Null, s_size = 0, s_len = m, s_owner = True\<rparr>),
       brk := Suc (brk w)\<rparr>))"
proof -
  have "splice 0 (take (Suc (s_len t)) b) (replicate (s_size t) None)
      = take (Suc (s_len t)) b @ replicate (s_size t - Suc (s_len t)) None"
    using assms(6) by (simp add: splice_def min_absorb2 Suc_leI)
  moreover have "s_size t \<noteq> 0" "min (length b) (Suc (s_len t)) = Suc (s_len t)" "Suc (s_len t) \<le> s_size t"
    using assms by (auto simp: min_absorb2)
  ultimately show ?thesis
    using assms by (simp add: str_copy_def run_simps str_of_def)
qed

lemma str_copy_src_ok:
  assumes "str_src w s xs" "str_has w d ys" "d \<noteq> s" "mem_ok w"
  shows "\<exists>w'. str_copy d s w = Ok () w' \<and> str_upd w d xs w'"
proof -
  obtain t b where t: "strs w s = Some t" "buf_bytes (s_value t) = Some b" "holds b xs"
      "s_len t = length xs" "length xs < s_size t" "s_size t \<le> STRING_MAX + 1"
    using assms(1) by (auto simp: str_src_def)
  obtain c where c: "strs w d = Some (str_of c (length ys))" using assms(2) by (rule str_hasE)
  have l: "length xs < length b" using t(3) by (rule holds_length)
  show ?thesis
  proof (cases "xs = []")
    case True
    then have "str_copy d s w = str_truncate d w" using t assms(3) by (simp add: str_copy_def run_simps)
    then show ?thesis using str_truncate_ok [OF assms(2)] True by simp
  next
    case False
    let ?b = "take (Suc (length xs)) b @ replicate (s_size t - Suc (length xs)) None"
    have "holds ?b xs" using t(3) by (auto simp: holds_def)
    then have "str_rep (str_of ?b (length xs)) xs"
      using t l by (intro str_repI) simp_all
    then show ?thesis
      using str_copy_eval [OF t(1,2) c assms(3)] t l False assms(4) by (auto intro!: str_updI)
  qed
qed

lemma str_copy_ok:
  assumes "str_has w s xs" "str_has w d ys" "d \<noteq> s" "mem_ok w"
  shows "\<exists>w'. str_copy d s w = Ok () w' \<and> str_upd w d xs w'"
  using str_copy_src_ok [OF str_has_src [OF assms(1)] assms(2-4)] .

lemma str_copy_same: "str_copy d d w = Fail (-1) w"
  by (simp add: str_copy_def nc_simps)

lemma str_move_ok:
  assumes "str_has w s xs" "str_has w d ys" "d \<noteq> s" "mem_ok w"
  shows "\<exists>w'. str_move d s w = Ok () w' \<and> mod_strs {d, s} w w' \<and> str_has w' d xs \<and> str_has w' s []"
proof -
  obtain w1 where w1: "str_copy d s w = Ok () w1" "str_upd w d xs w1"
    using str_copy_ok [OF assms] by blast
  have "str_has w1 s xs" using assms(1,3) w1(2) by simp
  from str_truncate_ok [OF this]
  obtain w2 where w2: "str_truncate s w1 = Ok () w2" "str_upd w1 s [] w2" by blast
  have "str_move d s w = Ok () w2" using w1(1) w2(1) assms(3) by (simp add: str_move_def nc_simps)
  moreover have "mod_strs {d, s} w w2"
    using mod_strs_trans [OF str_upd_mod [OF w1(2)] str_upd_mod [OF w2(2)]] by (simp add: insert_commute)
  moreover have "str_has w2 d xs" using w2(2) str_upd_has [OF w1(2)] assms(3) by simp
  ultimately show ?thesis using str_upd_has [OF w2(2)] by blast
qed

lemma str_prepend_ok:
  assumes "str_has w d xs" "str_has w s ys" "d \<noteq> s" "NUL \<notin> set xs"
    "length ys + length xs < STRING_MAX" "mem_ok w" "wf_strs w"
  shows "\<exists>w'. str_prepend d s w = Ok () w' \<and> str_upd w d (ys @ xs) w'"
proof -
  let ?a = "brk w"
  have ne: "d \<noteq> ?a" "s \<noteq> ?a" using str_has_lt [OF assms(7)] assms(1,2) by auto
  have "\<exists>w'. str_prepend d s w = Ok () w' \<and> mod_strs ({d} - {?a}) w w' \<and> str_has w' d (ys @ xs)"
    unfolding str_prepend_def
  proof (rule with_auto_str_ok [OF assms(6,7), where P = "\<lambda>w2. str_has w2 d (ys @ xs)"])
    fix w1 assume u: "str_upd w ?a [] w1"
    have h: "str_has w1 d xs" "str_has w1 s ys" "str_has w1 ?a []" "mem_ok w1"
      using u assms ne by (simp_all add: str_upd_has str_upd_mem_ok)
    obtain w2 where w2: "str_copy ?a d w1 = Ok () w2" "str_upd w1 ?a xs w2"
      using str_copy_ok [OF h(1,3) _ h(4)] ne by metis
    have h2: "str_has w2 d xs" "str_has w2 s ys" "str_has w2 ?a xs" "mem_ok w2"
      using w2 h ne by (simp_all add: str_upd_has str_upd_mem_ok)
    obtain w3 where w3: "str_copy d s w2 = Ok () w3" "str_upd w2 d ys w3"
      using str_copy_ok [OF h2(2,1) assms(3) h2(4)] by metis
    have h3: "str_has w3 d ys" "str_has w3 ?a xs" "mem_ok w3"
      using w3 h2 ne by (simp_all add: str_upd_has str_upd_mem_ok)
    obtain w4 where w4: "str_append d ?a w3 = Ok () w4" "str_upd w3 d (ys @ xs) w4"
      using str_append_ok [OF h3(1,2) ne(1) assms(4,5) h3(3)] by metis
    have "mod_strs (insert ?a {d}) w1 w4"
      using mod_strs_trans [OF str_upd_mod [OF w2(2)] mod_strs_trans [OF str_upd_mod [OF w3(2)] str_upd_mod [OF w4(2)]]]
      by (simp add: insert_commute)
    moreover have "str_has w4 ?a xs" using w4(2) h3(2) ne by simp
    ultimately show "\<exists>w4 zs. (if s = d then nc_throw else nc_bind (str_copy ?a d) (\<lambda>_. nc_bind (str_copy d s) (\<lambda>_. str_append d ?a))) w1
        = Ok () w4 \<and> mod_strs (insert ?a {d}) w1 w4 \<and> str_has w4 ?a zs \<and> str_has w4 d (ys @ xs)"
      using w2(1) w3(1) w4(1) assms(3) str_upd_has [OF w4(2)] by (auto simp: nc_simps)
  next
    fix w2 assume "str_has w2 d (ys @ xs)"
    then show "str_has (w2\<lparr>strs := (strs w2)(?a := None)\<rparr>) d (ys @ xs)"
      using ne by (simp add: str_has_def)
  qed
  then show ?thesis using ne by (auto simp: str_upd_iff)
qed

section \<open>Parts of a string\<close>

lemma str_get_char_eval:
  assumes "str_has w s xs"
  shows "str_get_char s i w = (if i < length xs then Ok (xs ! i) w else Fail (-1) w)"
proof -
  obtain b where b: "strs w s = Some (str_of b (length xs))" "holds b xs" using assms by (rule str_hasE)
  have "peek s i w = Ok (xs ! i) w" if "i < length xs"
    using that b holds_length [OF b(2)] holds_nth [OF b(2)] by (intro peek_eval [of w s b]) simp_all
  with b(1) show ?thesis by (simp add: str_get_char_def nc_simps get_str_def)
qed

lemma cbytes_str_has:
  assumes "str_has w s xs" "i \<le> length xs"
  obtains r where "cbytes (CVal s i) w = Ok (map Some (drop i xs) @ Some NUL # r) w"
proof -
  obtain b where b: "strs w s = Some (str_of b (length xs))" "holds b xs" using assms(1) by (rule str_hasE)
  then obtain r where "b = map Some xs @ Some NUL # r" by (auto simp: holds_def)
  with b assms(2) that [of r] show ?thesis by (simp add: buf_bytes_def drop_map)
qed

lemma cread_suffix:
  assumes "str_has w s xs" "i \<le> length xs" "NUL \<notin> set xs"
  shows "cread (CVal s i) w = Ok (drop i xs) w"
proof -
  obtain r where r: "cbytes (CVal s i) w = Ok (map Some (drop i xs) @ Some NUL # r) w"
    using cbytes_str_has [OF assms(1,2)] .
  have "NUL \<notin> set (drop i xs)" using assms(3) by (meson in_set_dropD)
  with r show ?thesis by (simp add: cread_def nc_simps cstr_terminated)
qed

text \<open>\<^verbatim>\<open>str_divide\<close> drops the character at the position, except at position 0.\<close>

lemma str_divide_ok:
  assumes "str_has w s xs" "str_has w l ls" "str_has w r rs" "distinct [l, r, s]"
    "i < length xs" "NUL \<notin> set xs" "length xs < STRING_MAX" "mem_ok w"
  shows "\<exists>w'. str_divide l r s i w = Ok () w' \<and> mod_strs {l, r} w w' \<and>
           str_has w' l (take i xs) \<and> str_has w' r (if i = 0 then xs else drop (i + 1) xs)"
proof -
  obtain b where b: "strs w s = Some (str_of b (length xs))" using assms(1) by (rule str_hasE)
  have ne: "l \<noteq> r" "l \<noteq> s" "r \<noteq> s" using assms(4) by auto
  define ys where "ys = (if i = 0 then xs else drop (i + 1) xs)"
  obtain w1 where w1: "(if i = 0 then str_truncate l else str_ncpy l (CVal s 0) i) w = Ok () w1"
      "str_upd w l (take i xs) w1"
  proof (cases "i = 0")
    case False
    obtain u where "cbytes (CVal s 0) w = Ok (map Some (take i xs) @ map Some (drop i xs) @ Some NUL # u) w"
      using cbytes_str_has [OF assms(1), of 0] by (metis append.assoc append_take_drop_id drop0 le0 map_append)
    from str_ncpy_ok [OF assms(2) this] False show ?thesis
      using that assms(5,7,8) ne by auto
  qed (use str_truncate_ok [OF assms(2)] that in auto)
  have h: "str_has w1 s xs" "str_has w1 r rs" "mem_ok w1"
    using w1(2) assms ne by (simp_all add: str_upd_mem_ok)
  obtain w2 where w2: "(if i = 0 then str_copy r s else str_cpy r (CVal s (i + 1))) w1 = Ok () w2"
      "str_upd w1 r ys w2"
  proof (cases "i = 0")
    case True
    then show ?thesis using str_copy_ok [OF h(1,2) ne(3) h(3)] that by (auto simp: ys_def)
  next
    case False
    have pi: "\<not> points_into (CVal s (i + 1)) r" and le: "i + 1 \<le> length xs"
      and lt: "length (drop (i + 1) xs) < STRING_MAX"
      using ne assms(5,7) by auto
    from str_cpy_ok [OF h(2) cread_suffix [OF h(1) le assms(6)] pi lt h(3)] False show ?thesis
      using that by (auto simp: ys_def)
  qed
  have "str_divide l r s i w = Ok () w2"
    using b assms(5) w1(1) w2(1) by (simp add: str_divide_def nc_simps get_str_def split: if_splits)
  moreover have "mod_strs {l, r} w w2"
    using mod_strs_trans [OF str_upd_mod [OF w1(2)] str_upd_mod [OF w2(2)]] by (simp add: insert_commute)
  moreover have "str_has w2 l (take i xs)" using w2(2) str_upd_has [OF w1(2)] ne by simp
  ultimately show ?thesis using str_upd_has [OF w2(2)] unfolding ys_def by blast
qed

lemma str_divide_range:
  "str_has w s xs \<Longrightarrow> length xs \<le> i \<Longrightarrow> str_divide l r s i w = Fail (-1) w"
  by (auto elim!: str_hasE simp: str_divide_def nc_simps get_str_def)

lemma str_truncate_at_ok:
  assumes "str_has w s xs" "n \<le> length xs"
  shows "\<exists>w'. str_truncate_at s n w = Ok () w' \<and> str_upd w s (take n xs) w'"
proof -
  obtain b where b: "strs w s = Some (str_of b (length xs))" "holds b xs" "length b \<le> STRING_MAX + 1"
    using assms(1) by (rule str_hasE)
  have l: "n < length b" "n \<le> STRING_MAX" using holds_length [OF b(2)] b(3) assms(2) by auto
  have "str_truncate_at s n w = str_set_len s n w"
    using b(1) l assms(2) str_set_len_eval [OF b(1), of n]
    by (simp add: str_truncate_at_def nc_simps get_str_def poke_eval [OF b(1)] upd_str_def put_str_def)
  then show ?thesis using str_set_len_ok [OF assms] by simp
qed

lemma str_truncate_at_range:
  "str_has w s xs \<Longrightarrow> length xs < n \<Longrightarrow> str_truncate_at s n w = Fail (-1) w"
  by (auto elim!: str_hasE simp: str_truncate_at_def nc_simps get_str_def)

section \<open>Editing in place\<close>

lemma peek_char:
  assumes "str_has w s xs"
  shows "i < length xs \<Longrightarrow> peek s i w = Ok (xs ! i) w" "peek s (length xs) w = Ok NUL w"
proof -
  obtain b where b: "strs w s = Some (str_of b (length xs))" "holds b xs" using assms by (rule str_hasE)
  note l = holds_length [OF b(2)]
  show "i < length xs \<Longrightarrow> peek s i w = Ok (xs ! i) w"
    using l holds_nth [OF b(2)] by (intro peek_eval [OF b(1)]) simp_all
  show "peek s (length xs) w = Ok NUL w"
    using l holds_terminator [OF b(2)] by (intro peek_eval [OF b(1)]) simp_all
qed

lemma poke_char:
  assumes "str_has w s xs" "i < length xs"
  shows "\<exists>w'. poke s i [Some c] w = Ok () w' \<and> str_upd w s (xs[i := c]) w'"
proof -
  obtain b where b: "strs w s = Some (str_of b (length xs))" "holds b xs" "length b \<le> STRING_MAX + 1"
    using assms(1) by (rule str_hasE)
  then obtain r where r: "b = map Some xs @ Some NUL # r" by (auto simp: holds_def)
  have "splice i [Some c] b = map Some (xs[i := c]) @ Some NUL # r"
    using assms(2) r by (simp add: splice_single list_update_append map_update)
  then have "holds (splice i [Some c] b) (xs[i := c])" by (auto simp: holds_def)
  then have "str_rep (str_of (splice i [Some c] b) (length xs)) (xs[i := c])"
    using b(3) holds_length [OF b(2)] assms(2) by (intro str_repI) simp_all
  then show ?thesis
    using poke_eval [OF b(1), of i "[Some c]"] holds_length [OF b(2)] assms(2)
    by (auto intro!: str_updI_same_brk)
qed

text \<open>Overwriting the last character with NUL and counting it out.\<close>

lemma cut_last:
  assumes "str_has w s xs" "xs \<noteq> []"
  shows "\<exists>w1 w'. poke s (length xs - 1) [Some NUL] w = Ok () w1 \<and>
           upd_str s (\<lambda>t. t\<lparr>s_len := s_len t - Suc 0\<rparr>) w1 = Ok () w' \<and> str_upd w s (butlast xs) w'"
proof -
  obtain b where b: "strs w s = Some (str_of b (length xs))" using assms(1) by (rule str_hasE)
  obtain w1 where w1: "poke s (length xs - 1) [Some NUL] w = Ok () w1"
      "str_upd w s (xs[length xs - 1 := NUL]) w1"
    using poke_char [OF assms(1), of "length xs - 1" NUL] assms(2) by auto
  obtain t where t: "strs w1 s = Some t" "s_len t = length xs"
    using str_upd_has [OF w1(2)] by (auto elim!: str_hasE)
  obtain w' where w': "str_truncate_at s (length xs - 1) w = Ok () w'" "str_upd w s (butlast xs) w'"
    using str_truncate_at_ok [OF assms(1), of "length xs - 1"] by (auto simp: butlast_conv_take)
  have "\<not> length xs < length xs - 1" by simp
  then have "upd_str s (\<lambda>t. t\<lparr>s_len := s_len t - Suc 0\<rparr>) w1 = Ok () w'"
    using w'(1) w1(1) b t by (simp add: str_truncate_at_def nc_simps upd_str_def get_str_def put_str_def)
  with w1(1) w'(2) show ?thesis by blast
qed

definition set_last :: "string \<Rightarrow> int \<Rightarrow> string" where
  "set_last xs c = (if xs = [] then (if int_char c = NUL then [] else [int_char c])
     else if c = 0 then butlast xs else butlast xs @ [int_char c])"

lemma list_update_last: "xs \<noteq> [] \<Longrightarrow> xs[length xs - 1 := c] = butlast xs @ [c]"
  by (metis append_butlast_last_id length_butlast list_update_length)

lemma str_set_terminator_ok:
  assumes "str_has w s xs" "mem_ok w"
  shows "\<exists>w'. str_set_terminator s c w = Ok () w' \<and> str_upd w s (set_last xs c) w'"
proof -
  obtain b where b: "strs w s = Some (str_of b (length xs))" using assms(1) by (rule str_hasE)
  consider "xs = []" "int_char c = NUL" | "xs = []" "int_char c \<noteq> NUL" | "xs \<noteq> []" "c = 0" | "xs \<noteq> []" "c \<noteq> 0"
    by blast
  then show ?thesis
  proof cases
    case 1
    then have "str_putc s c w = Ok () w" by (simp add: str_putc_def str_cat_def nc_simps cread_def)
    with 1 b assms(1) show ?thesis
      by (auto simp: str_set_terminator_def nc_simps get_str_def set_last_def intro: str_upd_refl)
  next
    case 2
    have "length xs + 1 < STRING_MAX" using 2 by (simp add: STRING_MAX_def)
    from str_putc_ok [OF assms(1) 2(2) this assms(2)] 2 b show ?thesis
      by (auto simp: str_set_terminator_def nc_simps get_str_def set_last_def)
  next
    case 3
    have "int_char 0 = NUL" using int_char_char_int [of NUL] by (simp add: char_int_def)
    with 3 b show ?thesis
      using cut_last [OF assms(1) 3(1)]
      by (auto simp: str_set_terminator_def nc_simps get_str_def set_last_def)
  next
    case 4
    then obtain w1 where "poke s (length xs - 1) [Some (int_char c)] w = Ok () w1"
        "str_upd w s (butlast xs @ [int_char c]) w1"
      using poke_char [OF assms(1), of "length xs - 1" "int_char c"] list_update_last [OF 4(1)] by auto
    with 4 b show ?thesis
      by (auto simp: str_set_terminator_def nc_simps get_str_def set_last_def)
  qed
qed

lemma str_cmp_terminator_eval:
  assumes "str_has w s xs"
  shows "str_cmp_terminator s c w =
    (if xs \<noteq> [] \<and> char_int (last xs) \<noteq> c then Fail (-1) w else Ok () w)"
proof -
  obtain b where b: "strs w s = Some (str_of b (length xs))" using assms(1) by (rule str_hasE)
  then show ?thesis
    using peek_char(1) [OF assms, of "length xs - 1"]
    by (simp add: str_cmp_terminator_def nc_simps get_str_def last_conv_nth)
qed

text \<open>Upper case.\<close>

lemma str_to_upper_loop_ok:
  assumes "str_has w s xs" "i + n = length xs"
  shows "\<exists>w'. str_to_upper_loop s i n w = Ok () w' \<and> str_upd w s (take i xs @ map toupper (drop i xs)) w'"
  using assms
proof (induction n arbitrary: i w xs)
  case 0
  then show ?case by (auto simp: nc_simps intro: str_upd_refl)
next
  case (Suc n)
  let ?ys = "xs[i := toupper (xs ! i)]"
  obtain w1 where w1: "poke s i [Some (toupper (xs ! i))] w = Ok () w1" "str_upd w s ?ys w1"
    using poke_char [OF Suc.prems(1), of i "toupper (xs ! i)"] Suc.prems(2) by auto
  obtain w2 where w2: "str_to_upper_loop s (Suc i) n w1 = Ok () w2"
      "str_upd w1 s (take (Suc i) ?ys @ map toupper (drop (Suc i) ?ys)) w2"
    using Suc.IH [OF str_upd_has [OF w1(2)], of "Suc i"] Suc.prems(2) by auto
  have "take (Suc i) ?ys @ map toupper (drop (Suc i) ?ys) = take i xs @ map toupper (drop i xs)"
    using Suc.prems(2) by (simp add: take_Suc_conv_app_nth Cons_nth_drop_Suc [symmetric])
  with w2 str_upd_trans [OF w1(2)] show ?case
    using w1(1) peek_char(1) [OF Suc.prems(1), of i] Suc.prems(2) by (auto simp: nc_simps)
qed

lemma str_to_upper_ok:
  assumes "str_has w s xs"
  shows "\<exists>w'. str_to_upper s w = Ok () w' \<and> str_upd w s (map toupper xs) w'"
  using str_to_upper_loop_ok [OF assms, of 0 "length xs"] assms
  by (auto simp: str_to_upper_def nc_simps get_str_def elim!: str_hasE)

text \<open>Removing the end of line: one LF if there is one, then one CR if there is one.\<close>

definition chomp1 :: "char \<Rightarrow> string \<Rightarrow> string" where
  "chomp1 c xs = (if xs \<noteq> [] \<and> last xs = c then butlast xs else xs)"

definition chomp :: "string \<Rightarrow> string" where
  "chomp xs = chomp1 CR (chomp1 LF xs)"

lemma chomp_CRLF: "chomp (xs @ [CR, LF]) = xs"
  by (simp add: chomp_def chomp1_def butlast_append)

lemma chomp_plain: "xs = [] \<or> last xs \<notin> {CR, LF} \<Longrightarrow> chomp xs = xs"
  by (auto simp: chomp_def chomp1_def)

lemma str_chomp_ok:
  assumes "str_has w s xs"
  shows "\<exists>w'. str_chomp s w = Ok () w' \<and> str_upd w s (chomp xs) w'"
proof (cases "xs = []")
  case True
  then show ?thesis
    using assms str_upd_refl [OF assms]
    by (auto simp: str_chomp_def nc_simps get_str_def chomp_def chomp1_def elim!: str_hasE)
next
  case False
  obtain b where b: "strs w s = Some (str_of b (length xs))" using assms by (rule str_hasE)
  have p: "peek s (length xs - 1) w = Ok (last xs) w"
    using peek_char(1) [OF assms, of "length xs - 1"] False by (simp add: last_conv_nth)
  let ?ys = "chomp1 LF xs"
  let ?lf = "if last xs = LF
      then nc_bind (poke s (length xs - 1) [Some NUL]) (\<lambda>_.
        nc_bind (upd_str s (\<lambda>t. t\<lparr>s_len := s_len t - 1\<rparr>)) (\<lambda>_. nc_return (int (length xs) - 2)))
      else nc_return (int (length xs) - 1)"
  obtain w1 where w1: "?lf w = Ok (int (length ?ys) - 1) w1" "str_upd w s ?ys w1"
  proof (cases "last xs = LF")
    case True
    obtain v w1 where "poke s (length xs - 1) [Some NUL] w = Ok () v"
        "upd_str s (\<lambda>t. t\<lparr>s_len := s_len t - Suc 0\<rparr>) v = Ok () w1" "str_upd w s (butlast xs) w1"
      using cut_last [OF assms False] by blast
    with True False that [of w1] show ?thesis
      by (auto simp: nc_simps chomp1_def of_nat_diff Suc_le_eq)
  qed (use that [of w] str_upd_refl [OF assms] in \<open>simp add: nc_simps chomp1_def\<close>)
  obtain c where c: "strs w1 s = Some (str_of c (length ?ys))"
    using str_upd_has [OF w1(2)] by (rule str_hasE)
  note h = str_upd_has [OF w1(2)]
  have n: "nat (int (length ?ys) - 1) = length ?ys - 1" by simp
  show ?thesis
  proof (cases "?ys = []")
    case True
    then show ?thesis
      using b p c w1 False by (auto simp: str_chomp_def nc_simps get_str_def chomp_def chomp1_def [of CR])
  next
    case nonempty: False
    have q: "peek s (length ?ys - 1) w1 = Ok (last ?ys) w1"
      using peek_char(1) [OF h, of "length ?ys - 1"] nonempty by (simp add: last_conv_nth)
    show ?thesis
    proof (cases "last ?ys = CR")
      case True
      obtain v w2 where "poke s (length ?ys - 1) [Some NUL] w1 = Ok () v"
          "upd_str s (\<lambda>t. t\<lparr>s_len := s_len t - Suc 0\<rparr>) v = Ok () w2" "str_upd w1 s (butlast ?ys) w2"
        using cut_last [OF h nonempty] by blast
      with True nonempty show ?thesis
        using b p c w1 q False str_upd_trans [OF w1(2)]
        by (auto simp: str_chomp_def nc_bind_def nc_when_def get_str_def chomp_def chomp1_def [of CR] n)
    next
      case False
      with nonempty show ?thesis
        using b p c w1 q \<open>xs \<noteq> []\<close>
        by (auto simp: str_chomp_def nc_bind_def nc_when_def get_str_def chomp_def chomp1_def [of CR] n)
    qed
  qed
qed

end
