(* ===== verification/NC_String_Text.thy ===== *)
theory NC_String_Text
  imports NC_String_Laws
begin

text \<open>
  The string component, second part (src/string.c): comparison and search, numbers, formatted
  output, URI escaping, reading from a descriptor, dates and addresses. What the C library and
  the operating system answer (read(2), strftime(3), inet_addr(3)) are arguments of the
  definitions.
\<close>

section \<open>Comparison and search\<close>

text \<open>\<^verbatim>\<open>return rc;\<close>\<close>

definition nc_rc :: "int \<Rightarrow> (unit, 'z) nc" where
  "nc_rc rc w = (if rc = 0 then Ok () w else Fail rc w)"

definition str_contains :: "nat \<Rightarrow> cptr \<Rightarrow> (bool, 'z) nc" where
  "str_contains haystack needle =
     nc_bind (cread (CVal haystack 0)) (\<lambda>h.
     nc_bind (cread needle) (\<lambda>n. nc_return (strstr h n \<noteq> None)))"

definition str_cmp :: "nat \<Rightarrow> cptr \<Rightarrow> (unit, 'z) nc" where
  "str_cmp s1 s2 =
     nc_bind (cread (CVal s1 0)) (\<lambda>x. nc_bind (cread s2) (\<lambda>y. nc_rc (strcmp x y)))"

definition str_casecmp :: "nat \<Rightarrow> cptr \<Rightarrow> (unit, 'z) nc" where
  "str_casecmp s1 s2 =
     nc_bind (cread (CVal s1 0)) (\<lambda>x. nc_bind (cread s2) (\<lambda>y.
     nc_rc (if strcasecmp x y = 0 then 0 else -1)))"

text \<open>The loop of \<^verbatim>\<open>str_compare\<close>, on the bytes from \<^verbatim>\<open>c1\<close> and from \<^verbatim>\<open>c2\<close> on.\<close>

fun str_compare_loop :: "bytes \<Rightarrow> bytes \<Rightarrow> (unit, 'z) nc" where
  "str_compare_loop (Some x # b1) (Some y # b2) =
     (if x \<noteq> NUL \<and> y \<noteq> NUL
      then (if x \<noteq> y then nc_rc (-1) else str_compare_loop b1 b2)
      else if x \<noteq> y then nc_rc (-1) else nc_return ())"
| "str_compare_loop _ _ = nc_fault OutOfBounds"

text \<open>
  \<^verbatim>\<open>s1->value != s2->value\<close> for two different objects: their blocks are different, so the
  pointers are equal only when both are NULL.
\<close>

definition str_compare :: "nat \<Rightarrow> nat \<Rightarrow> (unit, 'z) nc" where
  "str_compare s1 s2 =
     nc_bind (get_str s1) (\<lambda>t1. nc_bind (get_str s2) (\<lambda>t2.
     nc_bind (nc_require (s1 \<noteq> s2 \<and> \<not> (s_value t1 = Null \<and> s_value t2 = Null))) (\<lambda>_.
     nc_bind (cbytes (CVal s1 0)) (\<lambda>b1. nc_bind (cbytes (CVal s2 0)) (\<lambda>b2.
     str_compare_loop b1 b2)))))"

definition str_case_compare :: "nat \<Rightarrow> nat \<Rightarrow> (unit, 'z) nc" where
  "str_case_compare s1 s2 =
     nc_bind (get_str s1) (\<lambda>t1. nc_bind (get_str s2) (\<lambda>t2.
     nc_bind (nc_require (s1 \<noteq> s2 \<and> \<not> (s_value t1 = Null \<and> s_value t2 = Null))) (\<lambda>_.
     nc_bind (cread (CVal s1 0)) (\<lambda>x. nc_bind (cread (CVal s2 0)) (\<lambda>y.
     if strcasecmp x y \<noteq> 0 then nc_rc (-1) else nc_return ())))))"

text \<open>Reading at most \<open>n\<close> characters, as strncmp(3) does.\<close>

definition cread_n :: "cptr \<Rightarrow> nat \<Rightarrow> (string, 'z) nc" where
  "cread_n p n = nc_bind (cbytes p) (\<lambda>b.
     case cstr (if length b < n then b else take n b @ [Some NUL]) of
       None \<Rightarrow> nc_fault OutOfBounds | Some cs \<Rightarrow> nc_return cs)"

definition str_ncmp :: "nat \<Rightarrow> cptr \<Rightarrow> nat \<Rightarrow> (unit, 'z) nc" where
  "str_ncmp s c len =
     nc_bind (nc_require (0 < len \<and> len < STRING_MAX)) (\<lambda>_.
     nc_bind (cread_n (CVal s 0) len) (\<lambda>x. nc_bind (cread_n c len) (\<lambda>y.
     nc_rc (strncmp x y len))))"

fun str_count_loop :: "bytes \<Rightarrow> char \<Rightarrow> nat \<Rightarrow> (nat, 'z) nc" where
  "str_count_loop [] c n = nc_fault OutOfBounds"
| "str_count_loop (None # b) c n = nc_fault Uninit"
| "str_count_loop (Some x # b) c n =
     (if x = NUL then nc_return n else str_count_loop b c (if x = c then sz (n + 1) else n))"

definition str_count :: "nat \<Rightarrow> int \<Rightarrow> (nat, 'z) nc" where
  "str_count s c = nc_bind (cbytes (CVal s 0)) (\<lambda>b. str_count_loop b (int_char c) 0)"

section \<open>Numbers\<close>

text \<open>The conversion of a \<^verbatim>\<open>long\<close> to a 32-bit \<^verbatim>\<open>int\<close>, which keeps the low 32 bits.\<close>

definition to_int32 :: "int \<Rightarrow> int" where
  "to_int32 l = (l + 2 ^ 31) mod 2 ^ 32 - 2 ^ 31"

definition str_to_int :: "nat \<Rightarrow> (int, 'z) nc" where
  "str_to_int src =
     nc_bind (cread (CVal src 0)) (\<lambda>cs.
     case strtol cs of (l, err) \<Rightarrow>
       if err then nc_throw else if l > INT_MAX then nc_throw else nc_return (to_int32 l))"

definition str_to_int32 :: "nat \<Rightarrow> (int, 'z) nc" where
  "str_to_int32 src =
     nc_bind (cread (CVal src 0)) (\<lambda>cs.
     case strtol cs of (l, err) \<Rightarrow>
       if err then nc_throw else if l > INT_MAX then nc_throw else nc_return (to_int32 l))"

definition str_to_ulong :: "nat \<Rightarrow> (nat, 'z) nc" where
  "str_to_ulong src =
     nc_bind (cread (CVal src 0)) (\<lambda>cs.
     case strtoul cs of (v, err, ep) \<Rightarrow>
       if cs = [] \<or> ep \<noteq> [] then nc_throw
       else if err \<and> v = ULONG_MAX then nc_throw
       else nc_return v)"

definition str_to_uint32 :: "nat \<Rightarrow> (nat, 'z) nc" where
  "str_to_uint32 src =
     nc_catch (str_to_ulong src)
       (\<lambda>ul. if UINT_MAX < ul then nc_throw else nc_return ul)
       (\<lambda>rc. if rc < 0 then nc_throw else nc_fault Uninit)"

section \<open>Formatted output\<close>

text \<open>The arguments of a format, and vasprintf(3) for the conversions that the library uses.\<close>

datatype fmt_arg = PStr cptr | PInt int | PChr int

fun dec_nat :: "nat \<Rightarrow> string" where
  "dec_nat n = (if n < 10 then [char_of (48 + n)] else dec_nat (n div 10) @ [char_of (48 + n mod 10)])"

declare dec_nat.simps [simp del]

definition dec_int :: "int \<Rightarrow> string" where
  "dec_int i = (if i < 0 then CHR ''-'' # dec_nat (nat (- i)) else dec_nat (nat i))"

fun vformat :: "string \<Rightarrow> fmt_arg list \<Rightarrow> (string, 'z) nc" where
  "vformat [] args = nc_return []"
| "vformat [c] args = (if c = CHR ''%'' then nc_fault OutOfBounds else nc_return [c])"
| "vformat (c # d # fs) args =
     (if c \<noteq> CHR ''%'' then nc_bind (vformat (d # fs) args) (\<lambda>r. nc_return (c # r))
      else if d = CHR ''%'' then nc_bind (vformat fs args) (\<lambda>r. nc_return (CHR ''%'' # r))
      else (case args of
          PStr p # as \<Rightarrow> if d = CHR ''s''
            then nc_bind (cread p) (\<lambda>x. nc_bind (vformat fs as) (\<lambda>r. nc_return (x @ r)))
            else nc_fault BadAddr
        | PInt i # as \<Rightarrow> if d = CHR ''d''
            then nc_bind (vformat fs as) (\<lambda>r. nc_return (dec_int i @ r))
            else if d = CHR ''u'' then nc_bind (vformat fs as) (\<lambda>r. nc_return (dec_nat (nat (i mod 2 ^ 32)) @ r))
            else nc_fault BadAddr
        | PChr i # as \<Rightarrow> if d = CHR ''c''
            then nc_bind (vformat fs as) (\<lambda>r. nc_return (int_char i # r))
            else nc_fault BadAddr
        | [] \<Rightarrow> nc_fault BadAddr))"

definition str_vprintf :: "nat \<Rightarrow> string \<Rightarrow> fmt_arg list \<Rightarrow> (unit, 'z) nc" where
  "str_vprintf dest format argv =
     nc_bind (get_str dest) (\<lambda>d.
     nc_bind (nc_when (0 < s_size d)
       (nc_bind (free_buf (s_value d)) (\<lambda>_.
        upd_str dest (\<lambda>d. d\<lparr>s_value := Null, s_size := 0, s_len := 0\<rparr>)))) (\<lambda>_.
     nc_bind (vformat format argv) (\<lambda>out.
     nc_bind (malloc (length out + 1)) (\<lambda>v.
     if v = Null then nc_throw
     else let len = length (takeWhile (\<lambda>c. c \<noteq> NUL) out) in
       nc_bind (upd_str dest (\<lambda>d. d\<lparr>s_value := Heap (map Some (out @ [NUL])), s_len := len\<rparr>)) (\<lambda>_.
       if STRING_MAX < len
       then nc_bind (upd_str dest (\<lambda>d. d\<lparr>s_value := Null, s_size := 0, s_len := 0\<rparr>)) (\<lambda>_. nc_throw)
       else upd_str dest (\<lambda>d. d\<lparr>s_size := len + 1\<rparr>))))))"

definition str_sprintf :: "nat \<Rightarrow> string \<Rightarrow> fmt_arg list \<Rightarrow> (unit, 'z) nc" where
  "str_sprintf dest format argv = nc_bind (str_vprintf dest format argv) nc_return"

definition str_set_path :: "nat \<Rightarrow> nat \<Rightarrow> cptr \<Rightarrow> (unit, 'z) nc" where
  "str_set_path path prefix filename = 
     nc_bind (str_sprintf path ''%s/%s'' [PStr (CVal prefix 0), PStr filename]) nc_return"

section \<open>URI escaping\<close>

definition uri_plain :: "char \<Rightarrow> bool" where
  "uri_plain c \<longleftrightarrow> isalnum c \<or> strchr ''/_.-~'' c"

primrec str_escape_loop :: "nat \<Rightarrow> nat \<Rightarrow> nat \<Rightarrow> nat \<Rightarrow> (unit, 'z) nc" where
  "str_escape_loop buf src i 0 = nc_return ()"
| "str_escape_loop buf src i (Suc n) =
     nc_bind (peek src i) (\<lambda>c.
     nc_bind (if uri_plain c then str_putc buf (char_int c) else str_cat buf (CLit (pct_hex c))) (\<lambda>_.
     str_escape_loop buf src (Suc i) n))"

definition str_escape :: "nat \<Rightarrow> nat \<Rightarrow> (unit, 'z) nc" where
  "str_escape dest src = with_auto_str (\<lambda>buf.
     nc_bind (str_truncate dest) (\<lambda>_.
     nc_bind (get_str src) (\<lambda>t.
     if s_len t = 0 then nc_return ()
     else nc_bind (str_escape_loop buf src 0 (s_len t)) (\<lambda>_.
       str_move dest buf))))"

text \<open>
  The loop of \<^verbatim>\<open>str_unescape\<close> moves forward through the block of \<^verbatim>\<open>src\<close>; the first argument
  bounds its iterations by the bytes of the block.
\<close>

primrec str_unescape_loop :: "nat \<Rightarrow> nat \<Rightarrow> nat \<Rightarrow> nat \<Rightarrow> (unit, 'z) nc" where
  "str_unescape_loop 0 buf src i = nc_fault Diverge"
| "str_unescape_loop (Suc k) buf src i =
     nc_bind (peek src i) (\<lambda>c.
     if c = NUL then nc_return ()
     else nc_bind (cread (CVal src i)) (\<lambda>cs.
       case (if c = CHR ''%'' then sscanf_hex2 (tl cs) else None) of
         Some code \<Rightarrow> nc_bind (str_putc buf (int code)) (\<lambda>_. str_unescape_loop k buf src (i + 3))
       | None \<Rightarrow> nc_bind (str_putc buf (char_int c)) (\<lambda>_. str_unescape_loop k buf src (i + 1))))"

definition str_unescape :: "nat \<Rightarrow> nat \<Rightarrow> (unit, 'z) nc" where
  "str_unescape dest src = with_auto_str (\<lambda>buf.
     nc_bind (get_str src) (\<lambda>t.
     if s_len t = 0 then nc_return ()
     else nc_bind (cbytes (CVal src 0)) (\<lambda>b.
       nc_bind (str_unescape_loop (Suc (length b)) buf src 0) (\<lambda>_.
       str_move dest buf))))"

section \<open>Reading, dates, addresses\<close>

text \<open>What read(2) answers to a request for \<open>n\<close> bytes.\<close>

datatype read_result = ReadData string | ReadAgain | ReadError

definition str_read :: "(nat \<Rightarrow> read_result) \<Rightarrow> nat \<Rightarrow> nat \<Rightarrow> (unit, 'z) nc" where
  "str_read read dest n =
     (if STRING_MAX < n then nc_throw
      else nc_bind (str_truncate dest) (\<lambda>_.
        nc_bind (str_resize dest (n + 1)) (\<lambda>_.
        case read n of
          ReadAgain \<Rightarrow> nc_rc 1
        | ReadError \<Rightarrow> nc_throw
        | ReadData xs \<Rightarrow> nc_bind (poke dest 0 (map Some xs)) (\<lambda>_. str_set_len dest (length xs)))))"

text \<open>
  strftime(3) is given 229 bytes; it returns 0 when the text and its NUL do not fit (or the text is
  empty). \<open>now\<close> is time(2), \<open>localtime\<close> is localtime_r(3).
\<close>

definition str_time :: "int \<Rightarrow> (int \<Rightarrow> 'tm) \<Rightarrow> (string \<Rightarrow> 'tm \<Rightarrow> string) \<Rightarrow> nat \<Rightarrow> int option \<Rightarrow> string \<Rightarrow> (unit, 'z) nc" where
  "str_time now localtime strftime dest tloc format =
     (let timeval = localtime (case tloc of None \<Rightarrow> now | Some t \<Rightarrow> t);
          out = strftime format timeval
      in if out = [] \<or> 229 < length out + 1 then nc_throw
         else nc_bind (str_cpy dest (CLit out)) nc_return)"

definition str_from_localtime :: "int \<Rightarrow> (int \<Rightarrow> 'tm) \<Rightarrow> (string \<Rightarrow> 'tm \<Rightarrow> string) \<Rightarrow> nat \<Rightarrow> int option \<Rightarrow> (unit, 'z) nc" where
  "str_from_localtime now localtime strftime dest tloc =
     nc_bind (str_time now localtime strftime dest tloc ''%d %b %Y %r'') nc_return"

definition str_from_time :: "int \<Rightarrow> (int \<Rightarrow> 'tm) \<Rightarrow> (string \<Rightarrow> 'tm \<Rightarrow> string) \<Rightarrow> nat \<Rightarrow> int option \<Rightarrow> (unit, 'z) nc" where
  "str_from_time now localtime strftime dest tloc =
     nc_bind (str_time now localtime strftime dest tloc ''%d %b %Y %T %z'') nc_return"

text \<open>An IPv4 address is its four bytes in network order; inet_ntop(3) prints them in decimal.\<close>

type_synonym in_addr = "nat \<times> nat \<times> nat \<times> nat"

fun dotted :: "in_addr \<Rightarrow> string" where
  "dotted (a, b, c, d) = dec_nat a @ ''.'' @ dec_nat b @ ''.'' @ dec_nat c @ ''.'' @ dec_nat d"

definition str_from_inet :: "nat \<Rightarrow> in_addr \<Rightarrow> (unit, 'z) nc" where
  "str_from_inet dest addr = nc_bind (str_cpy dest (CLit (dotted addr))) nc_return"

text \<open>
  inet_addr(3) returns (in_addr_t) -1, which is 255.255.255.255, for text that is not an address.
\<close>

definition str_to_inet :: "(string \<Rightarrow> in_addr) \<Rightarrow> nat \<Rightarrow> (in_addr, 'z) nc" where
  "str_to_inet inet_addr src =
     nc_bind (cread (CVal src 0)) (\<lambda>cs.
     let a = inet_addr cs in
     if a = (255, 255, 255, 255)
     then nc_catch (str_cmp src (CLit ''255.255.255.255'')) (\<lambda>_. nc_return a) (\<lambda>_. nc_throw)
     else nc_return a)"

end
