(* ===== verification/NC_String_Text_Laws.thy ===== *)
theory NC_String_Text_Laws
  imports NC_String_Text
begin

text \<open>
  What the operations of \<open>NC_String_Text\<close> compute: each is evaluated on strings in the normal
  state, and escaping, number printing and parsing are shown to be inverse to each other.
\<close>

section \<open>Comparison and search\<close>

lemma str_has_bytes:
  assumes "str_has w s xs"
  obtains t r where "strs w s = Some t" "s_value t \<noteq> Null" "s_len t = length xs"
    "cbytes (CVal s 0) w = Ok (map Some xs @ Some NUL # r) w"
proof -
  obtain b where b: "strs w s = Some (str_of b (length xs))" "holds b xs" using assms by (rule str_hasE)
  then obtain r where "b = map Some xs @ Some NUL # r" by (auto simp: holds_def)
  with b(1) that show ?thesis by (auto simp: buf_bytes_def)
qed

lemma str_compare_loop_eval:
  "NUL \<notin> set xs \<Longrightarrow> NUL \<notin> set ys \<Longrightarrow>
     str_compare_loop (map Some xs @ Some NUL # r) (map Some ys @ Some NUL # r') w
       = (if xs = ys then Ok () w else Fail (-1) w)"
proof (induction xs arbitrary: ys)
  case Nil
  then show ?case by (cases ys) (auto simp: nc_rc_def nc_simps)
next
  case (Cons x xs)
  then show ?case by (cases ys) (auto simp: nc_rc_def nc_simps)
qed

lemma str_compare_eval:
  assumes "str_has w s1 xs" "str_has w s2 ys" "s1 \<noteq> s2" "NUL \<notin> set xs" "NUL \<notin> set ys"
  shows "str_compare s1 s2 w = (if xs = ys then Ok () w else Fail (-1) w)"
proof -
  obtain t r where t: "strs w s1 = Some t" "s_value t \<noteq> Null" "cbytes (CVal s1 0) w = Ok (map Some xs @ Some NUL # r) w"
    using str_has_bytes [OF assms(1)] by metis
  obtain u r' where u: "strs w s2 = Some u" "s_value u \<noteq> Null" "cbytes (CVal s2 0) w = Ok (map Some ys @ Some NUL # r') w"
    using str_has_bytes [OF assms(2)] by metis
  note [simp del] = cbytes.simps
  show ?thesis
    using t u assms(3) str_compare_loop_eval [OF assms(4,5), of r r' w]
    by (simp add: str_compare_def nc_simps get_str_def)
qed

lemma str_compare_same: "strs w s = Some t \<Longrightarrow> str_compare s s w = Fail (-1) w"
  by (simp add: str_compare_def nc_simps get_str_def)

lemma str_cmp_eval:
  assumes "str_has w s xs" "NUL \<notin> set xs" "cread p w = Ok ys w"
  shows "str_cmp s p w = (if xs = ys then Ok () w else Fail (strcmp xs ys) w)"
  using cread_str_has [OF assms(1,2)] assms(3) by (simp add: str_cmp_def nc_bind_def nc_rc_def)

lemma str_contains_eval:
  assumes "str_has w s xs" "NUL \<notin> set xs" "cread p w = Ok ys w"
  shows "str_contains s p w = Ok (\<exists>us vs. xs = us @ ys @ vs) w"
  using cread_str_has [OF assms(1,2)] assms(3)
  by (simp add: str_contains_def nc_bind_def nc_return_def strstr_iff [symmetric])

lemma str_count_loop_eval:
  "NUL \<notin> set xs \<Longrightarrow> n + length xs < 2 ^ 64 \<Longrightarrow>
     str_count_loop (map Some xs @ Some NUL # r) c n w = Ok (n + count_list xs c) w"
proof (induction xs arbitrary: n)
  case (Cons x xs)
  then have "sz (n + 1) = n + 1" by (intro sz_id) simp
  with Cons show ?case by (auto simp: nc_simps)
qed (simp add: nc_simps)

lemma str_count_eval:
  assumes "str_has w s xs" "NUL \<notin> set xs"
  shows "str_count s c w = Ok (count_list xs (int_char c)) w"
proof -
  obtain r where r: "cbytes (CVal s 0) w = Ok (map Some xs @ Some NUL # r) w"
    using str_has_bytes [OF assms(1)] by metis
  have "0 + length xs < 2 ^ 64" using str_has_length [OF assms(1)] STRING_MAX_small by simp
  from str_count_loop_eval [OF assms(2) this] r show ?thesis
    by (simp add: str_count_def nc_bind_def del: cbytes.simps)
qed

section \<open>Numbers\<close>

lemma isdigit_digit: "n < 10 \<Longrightarrow> isdigit (char_of (48 + n :: nat))"
  by (simp add: isdigit_def of_char_of)

lemma digit_val_digit: "n < 10 \<Longrightarrow> digit_val (char_of (48 + n :: nat)) = n"
  by (simp add: digit_val_def of_char_of)

lemma dec_nat_digits: "list_all isdigit (dec_nat n)"
proof (induction n rule: dec_nat.induct)
  case (1 n)
  then show ?case
    by (subst dec_nat.simps) (simp add: isdigit_digit)
qed

lemma dec_nat_nonempty [simp]: "dec_nat n \<noteq> []"
  by (subst dec_nat.simps) simp

lemma dec_val_dec_nat: "dec_val (dec_nat n) = n"
proof (induction n rule: dec_nat.induct)
  case (1 n)
  then show ?case
    by (subst dec_nat.simps) (simp add: dec_val_def digit_val_digit)
qed

lemma isdigit_props:
  assumes "isdigit c"
  shows "\<not> isspace c" "c \<noteq> CHR ''-''" "c \<noteq> CHR ''+''" "c \<noteq> NUL"
  using assms by (auto simp: isdigit_def isspace_def Let_def)

lemma dec_nat_no_NUL: "NUL \<notin> set (dec_nat n)"
  using dec_nat_digits [of n] isdigit_props(4) by (auto simp only: list_all_iff)

lemma num_parts_digits:
  assumes "list_all isdigit ds" "ds \<noteq> []"
  shows "num_parts ds = (False, ds, [])"
proof -
  obtain c cs where ds: "ds = c # cs" using assms(2) by (cases ds) auto
  then have "isdigit c" using assms(1) by simp
  note p = isdigit_props [OF this]
  have "takeWhile isdigit ds = ds" "dropWhile isdigit ds = []"
    using assms(1) by (simp_all add: list_all_iff)
  with ds p show ?thesis by (simp add: num_parts_def Let_def)
qed

lemma strtoul_dec_nat: "n \<le> ULONG_MAX \<Longrightarrow> strtoul (dec_nat n) = (n, False, [])"
  by (simp add: strtoul_def num_parts_digits [OF dec_nat_digits] dec_val_dec_nat)

lemma str_to_ulong_dec:
  assumes "str_has w s (dec_nat n)" "n \<le> ULONG_MAX"
  shows "str_to_ulong s w = Ok n w"
  using cread_str_has [OF assms(1) dec_nat_no_NUL] strtoul_dec_nat [OF assms(2)]
  by (simp add: str_to_ulong_def nc_simps)

text \<open>Every number \<^verbatim>\<open>str_to_uint32\<close> accepts fits 32 bits, and it accepts exactly those numerals.\<close>

lemma str_to_uint32_dec:
  assumes "str_has w s (dec_nat n)" "n \<le> ULONG_MAX"
  shows "str_to_uint32 s w = (if n \<le> UINT_MAX then Ok n w else Fail (-1) w)"
  using str_to_ulong_dec [OF assms] by (simp add: str_to_uint32_def nc_simps)

lemma str_to_uint32_bound: "str_to_uint32 s w = Ok n w' \<Longrightarrow> n \<le> UINT_MAX"
  by (auto simp: str_to_uint32_def nc_simps split: outcome.splits if_splits)

lemma to_int32_range: "- (2 ^ 31) \<le> to_int32 l \<and> to_int32 l < 2 ^ 31"
  by (simp add: to_int32_def)

lemma to_int32_id: "- (2 ^ 31) \<le> l \<Longrightarrow> l < 2 ^ 31 \<Longrightarrow> to_int32 l = l"
  by (simp add: to_int32_def)

lemma strtol_dec_int: "\<bar>i\<bar> \<le> LONG_MAX \<Longrightarrow> strtol (dec_int i) = (i, False)"
proof (cases "i < 0")
  case True
  assume i: "\<bar>i\<bar> \<le> LONG_MAX"
  note ds = dec_nat_digits [of "nat (- i)"]
  have tw: "takeWhile isdigit (dec_nat (nat (- i))) = dec_nat (nat (- i))"
    "dropWhile isdigit (dec_nat (nat (- i))) = []"
    using ds by (simp_all add: list_all_iff)
  have sp: "\<not> isspace CHR ''-''" by (simp add: isspace_def)
  have "num_parts (dec_int i) = (True, dec_nat (nat (- i)), [])"
    using True sp by (simp add: dec_int_def num_parts_def Let_def tw [unfolded One_nat_def])
  with True i show ?thesis by (simp add: strtol_def dec_val_dec_nat LONG_MAX_def LONG_MIN_def)
next
  case False
  assume i: "\<bar>i\<bar> \<le> LONG_MAX"
  with False show ?thesis
    by (simp add: strtol_def dec_int_def num_parts_digits [OF dec_nat_digits] dec_val_dec_nat LONG_MIN_def)
qed

lemma dec_int_no_NUL: "NUL \<notin> set (dec_int i)"
  by (auto simp: dec_int_def dec_nat_no_NUL)

text \<open>
  The result of \<^verbatim>\<open>str_to_int\<close> on a numeral: the upper bound is checked, the lower one is not, so a
  number below INT_MIN is reduced modulo 2^32.
\<close>

lemma str_to_int_dec:
  assumes "str_has w s (dec_int i)" "\<bar>i\<bar> \<le> LONG_MAX"
  shows "str_to_int s w = (if i \<le> INT_MAX then Ok (to_int32 i) w else Fail (-1) w)"
  using cread_str_has [OF assms(1) dec_int_no_NUL] strtol_dec_int [OF assms(2)]
  by (simp add: str_to_int_def nc_simps)

section \<open>Formatted output\<close>

lemma str_vprintf_ok:
  assumes "str_has w d xs"
    and fmt: "\<And>v. mod_strs {d} w v \<Longrightarrow> vformat f args v = Ok out v"
    and "length out < STRING_MAX" "NUL \<notin> set out" "mem_ok w"
  shows "\<exists>w'. str_vprintf d f args w = Ok () w' \<and> str_upd w d out w'"
proof -
  obtain b where b: "strs w d = Some (str_of b (length xs))" "holds b xs" using assms(1) by (rule str_hasE)
  let ?w1 = "w\<lparr>strs := (strs w)(d \<mapsto> (str_of b (length xs))\<lparr>s_value := Null, s_size := 0, s_len := 0\<rparr>)\<rparr>"
  have f: "vformat f args ?w1 = Ok out ?w1" by (rule fmt) (simp add: mod_strs_def)
  have tw [simp]: "takeWhile (\<lambda>c. c \<noteq> NUL) out = out" using assms(4) by (auto simp: takeWhile_eq_all_conv)
  have ne: "b \<noteq> []" using holds_length [OF b(2)] by auto
  let ?t = "str_of (map Some (out @ [NUL])) (length out)"
  have rep: "str_rep ?t out" using assms(3) by (intro str_repI) (auto simp: holds_def)
  have "str_vprintf d f args w = Ok () (w\<lparr>strs := (strs w)(d \<mapsto> ?t), brk := Suc (brk w)\<rparr>)"
    using b(1) ne f assms(3,5)
    by (simp add: str_vprintf_def run_simps str_of_def Let_def)
  then show ?thesis using str_updI [OF rep, of w "Suc (brk w)" d] by auto
qed

section \<open>URI escaping\<close>

definition uri_escape :: "string \<Rightarrow> string" where
  "uri_escape xs = concat (map (\<lambda>c. if uri_plain c then [c] else pct_hex c) xs)"

lemma uri_escape_simps [simp]:
  "uri_escape [] = []"
  "uri_escape (c # xs) = (if uri_plain c then c # uri_escape xs else pct_hex c @ uri_escape xs)"
  "uri_escape (xs @ ys) = uri_escape xs @ uri_escape ys"
  by (simp_all add: uri_escape_def)

lemma hex_digit_no_NUL: "n < 16 \<Longrightarrow> hex_digit n \<noteq> NUL"
  by (rule hex_digit_props)

lemma pct_hex_no_NUL: "NUL \<notin> set (pct_hex c)"
proof -
  have lt: "of_char c div 16 < (16 :: nat)" "of_char c mod 16 < (16 :: nat)"
    using of_char_lt_256 [of c] by (simp_all add: less_mult_imp_div_less)
  from hex_digit_no_NUL [OF lt(1)] hex_digit_no_NUL [OF lt(2)] show ?thesis
    by (auto simp: pct_hex_def)
qed

lemma uri_escape_no_NUL: "NUL \<notin> set xs \<Longrightarrow> NUL \<notin> set (uri_escape xs)"
  by (induction xs) (auto simp: pct_hex_no_NUL)

lemma length_pct_hex [simp]: "length (pct_hex c) = 3"
  by (simp add: pct_hex_def)

lemma length_uri_escape: "length (uri_escape xs) \<le> 3 * length xs"
  by (induction xs) auto

lemma uri_escape_Nil_iff [simp]: "uri_escape xs = [] \<longleftrightarrow> xs = []"
  by (cases xs) (auto simp: pct_hex_def)

lemma str_escape_loop_ok:
  assumes "str_has w buf ys" "str_has w src xs" "buf \<noteq> src" "i + n = length xs" "NUL \<notin> set xs"
    "length ys + 3 * n < STRING_MAX" "mem_ok w"
  shows "\<exists>w'. str_escape_loop buf src i n w = Ok () w' \<and> str_upd w buf (ys @ uri_escape (drop i xs)) w'"
  using assms
proof (induction n arbitrary: i w ys)
  case 0
  then show ?case by (auto simp: nc_simps intro: str_upd_refl)
next
  case (Suc n)
  let ?c = "xs ! i"
  let ?e = "if uri_plain ?c then [?c] else pct_hex ?c"
  have c: "?c \<noteq> NUL" using Suc.prems(4,5) by (metis add_Suc_right le_add1 less_Suc_eq_le nth_mem)
  have e: "NUL \<notin> set ?e" "length ?e \<le> 3" using c pct_hex_no_NUL by auto
  let ?m = "if uri_plain ?c then str_putc buf (char_int ?c) else str_cat buf (CLit (pct_hex ?c))"
  have m: "?m = str_cat buf (CLit ?e)" by (simp add: str_putc_def fun_eq_iff)
  have "length ys + length ?e < STRING_MAX"
    using le_less_trans [OF add_left_mono [OF e(2)], of "length ys"] Suc.prems(6) by simp
  from str_cat_ok [OF Suc.prems(1) cread_CLit [OF e(1)] points_into_simps(1) this Suc.prems(7)]
  obtain w1 where w1: "?m w = Ok () w1" "str_upd w buf (ys @ ?e) w1"
    unfolding m by blast
  have "length (ys @ ?e) + 3 * n < STRING_MAX" using e(2) Suc.prems(6) by simp
  then obtain w2 where w2: "str_escape_loop buf src (Suc i) n w1 = Ok () w2"
      "str_upd w1 buf ((ys @ ?e) @ uri_escape (drop (Suc i) xs)) w2"
    using Suc.IH [OF str_upd_has [OF w1(2)], of "Suc i"] Suc.prems w1(2) str_upd_mem_ok [OF w1(2)] by auto
  have d: "drop i xs = ?c # drop (Suc i) xs" using Suc.prems(4) by (simp add: Cons_nth_drop_Suc)
  have p: "peek src i w = Ok ?c w" using peek_char(1) [OF Suc.prems(2)] Suc.prems(4) by simp
  have "(ys @ ?e) @ uri_escape (drop (Suc i) xs) = ys @ uri_escape (drop i xs)" unfolding d by simp
  then have "str_upd w buf (ys @ uri_escape (drop i xs)) w2"
    using str_upd_trans [OF w1(2) w2(2)] by simp
  with p w1(1) w2(1) show ?case by (auto simp: nc_bind_def split: if_splits)
qed

lemma str_escape_ok:
  assumes "str_has w dest zs" "str_has w src xs" "dest \<noteq> src" "NUL \<notin> set xs"
    "3 * length xs < STRING_MAX" "mem_ok w" "wf_strs w"
  shows "\<exists>w'. str_escape dest src w = Ok () w' \<and> str_upd w dest (uri_escape xs) w'"
proof -
  let ?a = "brk w"
  have ne: "dest \<noteq> ?a" "src \<noteq> ?a" using str_has_lt [OF assms(7)] assms(1,2) by auto
  have "\<exists>w'. str_escape dest src w = Ok () w' \<and> mod_strs ({dest} - {?a}) w w' \<and> str_has w' dest (uri_escape xs)"
    unfolding str_escape_def
  proof (rule with_auto_str_ok [OF assms(6,7), where P = "\<lambda>w2. str_has w2 dest (uri_escape xs)"])
    fix w1 assume u: "str_upd w ?a [] w1"
    have h: "str_has w1 dest zs" "str_has w1 src xs" "str_has w1 ?a []" "mem_ok w1"
      using u assms ne by (simp_all add: str_upd_has str_upd_mem_ok)
    obtain w2 where w2: "str_truncate dest w1 = Ok () w2" "str_upd w1 dest [] w2"
      using str_truncate_ok [OF h(1)] by blast
    have h2: "str_has w2 dest []" "str_has w2 src xs" "str_has w2 ?a []" "mem_ok w2"
      using w2 h ne assms(3) by (simp_all add: str_upd_has str_upd_mem_ok)
    obtain t where t: "strs w2 src = Some t" "s_len t = length xs"
      using str_has_bytes [OF h2(2)] by metis
    have m2: "mod_strs (insert ?a {dest}) w1 w2" by (rule mod_strs_mono [OF str_upd_mod [OF w2(2)]]) auto
    show "\<exists>w5 ys. nc_bind (str_truncate dest) (\<lambda>_. nc_bind (get_str src) (\<lambda>t.
        if s_len t = 0 then nc_return () else nc_bind (str_escape_loop ?a src 0 (s_len t)) (\<lambda>_. str_move dest ?a))) w1
        = Ok () w5 \<and> mod_strs (insert ?a {dest}) w1 w5 \<and> str_has w5 ?a ys \<and> str_has w5 dest (uri_escape xs)"
    proof (cases "xs = []")
      case True
      with t w2(1) m2 h2 show ?thesis by (auto simp: nc_simps get_str_def)
    next
      case False
      obtain w3 where w3: "str_escape_loop ?a src 0 (length xs) w2 = Ok () w3" "str_upd w2 ?a (uri_escape xs) w3"
        using str_escape_loop_ok [OF h2(3,2) _ _ assms(4) _ h2(4), of 0 "length xs"] ne assms(5) by auto
      have h3: "str_has w3 ?a (uri_escape xs)" "str_has w3 dest []" "mem_ok w3"
        using w3 h2 ne by (simp_all add: str_upd_has str_upd_mem_ok)
      obtain w4 where w4: "str_move dest ?a w3 = Ok () w4" "mod_strs {dest, ?a} w3 w4"
          "str_has w4 dest (uri_escape xs)" "str_has w4 ?a []"
        using str_move_ok [OF h3(1,2) ne(1) h3(3)] by blast
      have "mod_strs (insert ?a {dest}) w1 w4"
        using mod_strs_trans [OF m2 mod_strs_trans [OF str_upd_mod [OF w3(2)] w4(2)]] by (simp add: insert_commute)
      with False t w2(1) w3(1) w4 show ?thesis by (auto simp: nc_simps get_str_def)
    qed
  next
    fix w2 assume "str_has w2 dest (uri_escape xs)"
    then show "str_has (w2\<lparr>strs := (strs w2)(?a := None)\<rparr>) dest (uri_escape xs)"
      using ne by (simp add: str_has_def)
  qed
  then show ?thesis using ne by (auto simp: str_upd_iff)
qed

lemma uri_plain_not_pct: "uri_plain c \<Longrightarrow> c \<noteq> CHR ''%''"
  by (auto simp: uri_plain_def isalnum_def isupper_def islower_def isdigit_def strchr_def Let_def)

text \<open>
  From the start of an escaped part on, the loop of \<^verbatim>\<open>str_unescape\<close> appends the original
  characters.
\<close>

text \<open>
  \<^verbatim>\<open>str_unescape\<close> on arbitrary text, not only on text that \<^verbatim>\<open>str_escape\<close> produced, computes the function \<open>unescaped\<close>. A
  percent sign without a hexadecimal digit behind it stands for itself. \<open>None\<close> marks the two cases outside the function: a
  sequence that is cut off by the end of the text, and one for NUL.
\<close>

fun unescaped :: "string \<Rightarrow> string option" where
  "unescaped [] = Some []"
| "unescaped (c # cs) =
     (case (if c = CHR ''%'' then sscanf_hex2 cs else None) of
        None \<Rightarrow> map_option ((#) c) (unescaped cs)
      | Some code \<Rightarrow> if length cs < 2 \<or> int_char (int code) = NUL then None
          else map_option ((#) (int_char (int code))) (unescaped (drop 2 cs)))"

lemma unescaped_escape: "NUL \<notin> set xs \<Longrightarrow> unescaped (uri_escape xs) = Some xs"
proof (induction xs)
  case (Cons z zs)
  show ?case
  proof (cases "uri_plain z")
    case True
    then show ?thesis using Cons uri_plain_not_pct [OF True] by simp
  next
    case False
    have "int_char (int (of_char z)) = z" using of_char_lt_256 [of z] by (simp add: int_char_def)
    moreover have "sscanf_hex2 (tl (pct_hex z) @ uri_escape zs) = Some (of_char z)" by (rule sscanf_hex2_pct_hex)
    ultimately show ?thesis using Cons False by (auto simp: pct_hex_def)
  qed
qed simp

lemma unescaped_length: "unescaped zs = Some vs \<Longrightarrow> length vs \<le> length zs"
proof (induction zs arbitrary: vs rule: unescaped.induct)
  case (2 c cs)
  then show ?case by (fastforce split: option.splits if_splits)
qed simp

lemma unescaped_Nil: "unescaped zs = Some [] \<Longrightarrow> zs = []"
  by (cases zs) (auto split: option.splits if_splits)

lemma unescaped_no_NUL: "NUL \<notin> set zs \<Longrightarrow> unescaped zs = Some vs \<Longrightarrow> NUL \<notin> set vs"
proof (induction zs arbitrary: vs rule: unescaped.induct)
  case (2 c cs)
  then show ?case by (fastforce split: option.splits if_splits dest: in_set_dropD)
qed simp

lemma str_unescape_loop_ok:
  fixes w :: "'z heap_scheme"
  assumes "str_has w buf ys" "str_has w src (us @ zs)" "buf \<noteq> src" "NUL \<notin> set (us @ zs)" "unescaped zs = Some vs"
    "length zs < k" "length ys + length vs < STRING_MAX" "mem_ok w"
  shows "\<exists>w'. str_unescape_loop k buf src (length us) w = Ok () w' \<and> str_upd w buf (ys @ vs) w'"
  using assms
proof (induction zs arbitrary: us ys vs w k rule: unescaped.induct)
  case 1
  obtain k' where k: "k = Suc k'" using 1(6) by (cases k) auto
  have "peek src (length us) w = Ok NUL w" using peek_char(2) [OF 1(2)] by simp
  then have "str_unescape_loop k buf src (length us) w = Ok () w" by (simp add: k nc_simps)
  then show ?case using str_upd_refl [OF 1(1)] 1(5) by auto
next
  case (2 c cs)
  note pr = 2(3-)
  obtain k' where k: "k = Suc k'" using pr(6) by (cases k) auto
  have c: "c \<noteq> NUL" using pr(4) by auto
  have p: "peek src (length us) w = Ok c w" using peek_char(1) [OF pr(2), of "length us"] by (simp add: nth_append)
  have r: "cread (CVal src (length us)) w = Ok (c # cs) w" using cread_suffix [OF pr(2), of "length us"] pr(4) by simp
  have step: "\<exists>w'. nc_bind (str_putc buf i) (\<lambda>_. str_unescape_loop k' buf src j) w = Ok () w' \<and> str_upd w buf (ys @ int_char i # us') w'"
    if i: "int_char i \<noteq> NUL" "length ys + length (int_char i # us') < STRING_MAX"
      and IH: "\<And>w1 :: 'z heap_scheme. str_has w1 buf (ys @ [int_char i]) \<Longrightarrow> str_has w1 src (us @ c # cs) \<Longrightarrow> mem_ok w1 \<Longrightarrow>
        \<exists>w'. str_unescape_loop k' buf src j w1 = Ok () w' \<and> str_upd w1 buf ((ys @ [int_char i]) @ us') w'" for i j us'
  proof -
    obtain w1 where w1: "str_putc buf i w = Ok () w1" "str_upd w buf (ys @ [int_char i]) w1"
      using str_putc_ok [OF pr(1), of i] i pr(8) by auto
    have "str_has w1 src (us @ c # cs)" "mem_ok w1" using w1(2) pr(2,3,8) by (simp_all add: str_upd_mem_ok)
    then obtain w' where w': "str_unescape_loop k' buf src j w1 = Ok () w'" "str_upd w1 buf ((ys @ [int_char i]) @ us') w'"
      using IH [OF str_upd_has [OF w1(2)]] by blast
    then show ?thesis using w1 str_upd_trans [OF w1(2) w'(2)] by (simp add: nc_bind_def)
  qed
  have ev: "str_unescape_loop k buf src (length us) w = (case (if c = CHR ''%'' then sscanf_hex2 cs else None) of
      Some code \<Rightarrow> nc_bind (str_putc buf (int code)) (\<lambda>_. str_unescape_loop k' buf src (length us + 3))
    | None \<Rightarrow> nc_bind (str_putc buf (char_int c)) (\<lambda>_. str_unescape_loop k' buf src (length us + 1))) w"
    using p r c k by (simp add: nc_bind_def)
  show ?case
  proof (cases "if c = CHR ''%'' then sscanf_hex2 cs else None")
    case None
    obtain us' where us': "unescaped cs = Some us'" "vs = c # us'" using pr(5) None by auto
    have "\<exists>w'. str_unescape_loop k' buf src (length (us @ [c])) w1 = Ok () w' \<and> str_upd w1 buf ((ys @ [c]) @ us') w'"
      if "str_has w1 buf (ys @ [c])" "str_has w1 src (us @ c # cs)" "mem_ok w1" for w1 :: "'z heap_scheme"
      using 2(1) [OF None that(1), of "us @ [c]" us' k'] that pr us' k by simp
    then show ?thesis using step [of "char_int c" us' "length us + 1"] us' pr(7) c unfolding ev None by simp
  next
    case (Some code)
    have code: "2 \<le> length cs" "int_char (int code) \<noteq> NUL" using pr(5) Some by (auto split: if_splits)
    obtain us' where us': "unescaped (drop 2 cs) = Some us'" "vs = int_char (int code) # us'" using pr(5) Some code by auto
    have cs: "c # cs = (c # take 2 cs) @ drop 2 cs" by simp
    have "\<exists>w'. str_unescape_loop k' buf src (length (us @ c # take 2 cs)) w1 = Ok () w' \<and> str_upd w1 buf ((ys @ [int_char (int code)]) @ us') w'"
      if "str_has w1 buf (ys @ [int_char (int code)])" "str_has w1 src (us @ c # cs)" "mem_ok w1" for w1 :: "'z heap_scheme"
      using 2(2) [OF Some _ that(1), of "us @ c # take 2 cs" us' k'] that pr us' k code by (auto dest: in_set_dropD)
    then show ?thesis using step [of "int code" us' "length us + 3"] us' pr(7) code unfolding ev Some by simp
  qed
qed

lemma str_unescape_gen:
  assumes "str_has w dest ys" "str_has w src zs" "dest \<noteq> src" "NUL \<notin> set zs" "unescaped zs = Some vs" "zs \<noteq> []"
    "length vs < STRING_MAX" "mem_ok w" "wf_strs w"
  shows "\<exists>w'. str_unescape dest src w = Ok () w' \<and> str_upd w dest vs w'"
proof -
  let ?a = "brk w"
  have ne: "dest \<noteq> ?a" "src \<noteq> ?a" using str_has_lt [OF assms(9)] assms(1,2) by auto
  have "\<exists>w'. str_unescape dest src w = Ok () w' \<and> mod_strs ({dest} - {?a}) w w' \<and> str_has w' dest vs"
    unfolding str_unescape_def
  proof (rule with_auto_str_ok [OF assms(8,9), where P = "\<lambda>w2. str_has w2 dest vs"])
    fix w1 assume u: "str_upd w ?a [] w1"
    have h: "str_has w1 dest ys" "str_has w1 src zs" "str_has w1 ?a []" "mem_ok w1"
      using u assms ne by (simp_all add: str_upd_has str_upd_mem_ok)
    obtain t r where t: "strs w1 src = Some t" "s_len t = length zs" "cbytes (CVal src 0) w1 = Ok (map Some zs @ Some NUL # r) w1"
      using str_has_bytes [OF h(2)] by metis
    let ?k = "Suc (length (map Some zs @ Some NUL # r))"
    obtain w2 where w2: "str_unescape_loop ?k ?a src 0 w1 = Ok () w2" "str_upd w1 ?a vs w2"
      using str_unescape_loop_ok [OF h(3), of src "[]" zs vs ?k] h(2,4) ne assms(4,5,7) by auto
    have h2: "str_has w2 ?a vs" "str_has w2 dest ys" "mem_ok w2"
      using w2 h ne by (simp_all add: str_upd_has str_upd_mem_ok)
    obtain w3 where w3: "str_move dest ?a w2 = Ok () w3" "mod_strs {dest, ?a} w2 w3" "str_has w3 dest vs" "str_has w3 ?a []"
      using str_move_ok [OF h2(1,2) ne(1) h2(3)] by blast
    have "mod_strs (insert ?a {dest}) w1 w3"
      using mod_strs_trans [OF str_upd_mod [OF w2(2)] w3(2)] by (simp add: insert_commute)
    moreover have "nc_bind (get_str src) (\<lambda>t. if s_len t = 0 then nc_return ()
        else nc_bind (cbytes (CVal src 0)) (\<lambda>b. nc_bind (str_unescape_loop (Suc (length b)) ?a src 0) (\<lambda>_. str_move dest ?a))) w1
        = Ok () w3"
      using t w2(1) w3(1) assms(6) by (simp add: nc_bind_def get_str_def del: cbytes.simps str_unescape_loop.simps)
    ultimately show "\<exists>w3 us. nc_bind (get_str src) (\<lambda>t. if s_len t = 0 then nc_return ()
        else nc_bind (cbytes (CVal src 0)) (\<lambda>b. nc_bind (str_unescape_loop (Suc (length b)) ?a src 0) (\<lambda>_. str_move dest ?a))) w1
        = Ok () w3 \<and> mod_strs (insert ?a {dest}) w1 w3 \<and> str_has w3 ?a us \<and> str_has w3 dest vs"
      using w3(3,4) by blast
  next
    fix w2 assume "str_has w2 dest vs"
    then show "str_has (w2\<lparr>strs := (strs w2)(?a := None)\<rparr>) dest vs" using ne by (simp add: str_has_def)
  qed
  then show ?thesis using ne by (auto simp: str_upd_iff)
qed

lemma str_unescape_ok:
  assumes "str_has w dest ys" "str_has w src (uri_escape xs)" "dest \<noteq> src" "NUL \<notin> set xs" "xs \<noteq> []"
    "length xs < STRING_MAX" "mem_ok w" "wf_strs w"
  shows "\<exists>w'. str_unescape dest src w = Ok () w' \<and> str_upd w dest xs w'"
  by (rule str_unescape_gen [OF assms(1-3) uri_escape_no_NUL [OF assms(4)] unescaped_escape [OF assms(4)] _ assms(6-8)]) (use assms(5) in simp)

section \<open>Substitution of characters\<close>

text \<open>The loop tests the character after the one it has just checked, so the first one is never changed.\<close>

lemma str_translate_loop_ok:
  assumes "str_has w s xs" "cp \<le> length xs" "length xs - cp < k" "NUL \<notin> set xs" "old \<noteq> NUL" "new \<noteq> NUL"
  shows "\<exists>w'. str_translate_loop k s cp old new w = Ok () w' \<and>
    str_upd w s (take (Suc cp) xs @ map (\<lambda>c. if c = old then new else c) (drop (Suc cp) xs)) w'"
  using assms
proof (induction k arbitrary: cp xs w)
  case 0
  from 0(3) show ?case by blast
next
  case (Suc k)
  let ?f = "\<lambda>c. if c = old then new else c"
  consider "cp = length xs" | "Suc cp = length xs" | "Suc cp < length xs" using Suc.prems(2) by linarith
  then show ?case
  proof cases
    case 1
    then show ?thesis
      using peek_char(2) [OF Suc.prems(1)] str_upd_refl [OF Suc.prems(1)] by (auto simp: nc_simps)
  next
    case 2
    have n: "xs ! cp \<noteq> NUL" using 2 Suc.prems(4) by (metis lessI nth_mem)
    have k: "Suc cp \<le> length xs" "length xs - Suc cp < k" using 2 Suc.prems(3) by arith+
    obtain w' where "str_translate_loop k s (Suc cp) old new w = Ok () w'" "str_upd w s xs w'"
      using Suc.IH [OF Suc.prems(1) k Suc.prems(4-6)] 2 by auto
    then show ?thesis
      using 2 n peek_char(1) [OF Suc.prems(1), of cp] peek_char(2) [OF Suc.prems(1)] Suc.prems(5)
      by (auto simp: nc_simps)
  next
    case 3
    have n: "xs ! cp \<noteq> NUL" using 3 Suc.prems(4) by (metis Suc_lessD nth_mem)
    let ?ys = "xs[Suc cp := ?f (xs ! Suc cp)]"
    obtain w1 where w1: "nc_when (xs ! Suc cp = old) (poke s (Suc cp) [Some new]) w = Ok () w1"
        "str_upd w s ?ys w1"
      using poke_char [OF Suc.prems(1) 3, of new] str_upd_refl [OF Suc.prems(1)]
      by (cases "xs ! Suc cp = old") (auto simp: nc_simps)
    have k: "Suc cp \<le> length ?ys" "length ?ys - Suc cp < k" using 3 Suc.prems(3) by simp_all
    have nn: "NUL \<notin> set ?ys"
      using Suc.prems(4,6) 3 by (auto dest!: set_update_subset_insert [THEN subsetD])
    obtain w2 where w2: "str_translate_loop k s (Suc cp) old new w1 = Ok () w2"
        "str_upd w1 s (take (Suc (Suc cp)) ?ys @ map ?f (drop (Suc (Suc cp)) ?ys)) w2"
      using Suc.IH [OF str_upd_has [OF w1(2)] k nn Suc.prems(5,6)] by blast
    have "take (Suc (Suc cp)) ?ys @ map ?f (drop (Suc (Suc cp)) ?ys) = take (Suc cp) xs @ map ?f (drop (Suc cp) xs)"
      using 3 by (simp add: take_Suc_conv_app_nth [of "Suc cp"] Cons_nth_drop_Suc [of "Suc cp", symmetric])
    with w2 str_upd_trans [OF w1(2)] have "str_upd w s (take (Suc cp) xs @ map ?f (drop (Suc cp) xs)) w2" by metis
    with w2(1) w1(1) n 3 peek_char(1) [OF Suc.prems(1)] show ?thesis
      by (auto simp: nc_bind_def)
  qed
qed

lemma str_translate_ok:
  assumes "str_has w s xs" "NUL \<notin> set xs" "int_char old \<noteq> NUL" "int_char new \<noteq> NUL"
  shows "\<exists>w'. str_translate s old new w = Ok () w' \<and>
    str_upd w s (take 1 xs @ map (\<lambda>c. if c = int_char old then int_char new else c) (drop 1 xs)) w'"
proof -
  obtain r where r: "cbytes (CVal s 0) w = Ok (map Some xs @ Some NUL # r) w"
    using str_has_bytes [OF assms(1)] by metis
  show ?thesis
    using str_translate_loop_ok [OF assms(1), of 0 "length (map Some xs @ Some NUL # r)"] assms(2-4) r
    by (auto simp: str_translate_def nc_bind_def simp del: cbytes.simps)
qed

section \<open>Reading from a descriptor\<close>

lemma str_read_ok:
  assumes "str_has w d xs" "n < STRING_MAX" "read n = ReadData ys" "length ys \<le> n" "mem_ok w"
  shows "\<exists>w'. str_read read d n w = Ok () w' \<and> str_upd w d ys w'"
proof -
  obtain w1 where w1: "str_truncate d w = Ok () w1" "str_upd w d [] w1"
    using str_truncate_ok [OF assms(1)] by blast
  have "mem_ok w1" using w1(2) assms(5) by (simp add: str_upd_mem_ok)
  from str_resize_ok [OF str_upd_has [OF w1(2)] _ _ this, of "n + 1"] assms(2)
  obtain w2 b where w2: "str_resize d (n + 1) w1 = Ok () w2" "str_upd w1 d [] w2"
      "strs w2 d = Some (str_of b 0)" "n + 1 \<le> length b" "length b \<le> STRING_MAX + 1" by auto
  let ?b1 = "splice 0 (map Some ys) b"
  let ?b2 = "splice (length ys) [Some NUL] ?b1"
  have l: "length ?b1 = length b" using w2(4) assms(4) by simp
  have p: "poke d 0 (map Some ys) w2 = Ok () (w2\<lparr>strs := (strs w2)(d \<mapsto> str_of ?b1 0)\<rparr>)"
    using poke_eval [OF w2(3), of 0 "map Some ys"] w2(4) assms(4) by simp
  have s: "str_set_len d (length ys) (w2\<lparr>strs := (strs w2)(d \<mapsto> str_of ?b1 0)\<rparr>)
      = Ok () (w2\<lparr>strs := (strs w2)(d \<mapsto> str_of ?b2 (length ys))\<rparr>)"
    using str_set_len_eval [of "w2\<lparr>strs := (strs w2)(d \<mapsto> str_of ?b1 0)\<rparr>" d ?b1 0 "length ys"] l w2(4) assms(2,4)
    by simp
  have "holds ?b2 ys" using holds_write [of 0 b ys "[]"] w2(4) assms(4) by simp
  then have rep: "str_rep (str_of ?b2 (length ys)) ys"
    using l w2(4,5) assms(4) by (intro str_repI) simp_all
  have "str_read read d n w = Ok () (w2\<lparr>strs := (strs w2)(d \<mapsto> str_of ?b2 (length ys))\<rparr>)"
    using w1(1) w2(1) p s assms(2,3) by (simp add: str_read_def nc_bind_def)
  then show ?thesis
    using str_upd_trans [OF w1(2) str_upd_trans [OF w2(2) str_updI_same_brk [OF rep]]] by blast
qed

lemma str_swap_eval:
  "strs w s1 = Some t1 \<Longrightarrow> strs w s2 = Some t2 \<Longrightarrow>
     str_swap s1 s2 w = Ok () (w\<lparr>strs := (strs w)(s1 \<mapsto> t2, s2 \<mapsto> t1)\<rparr>)"
  by (simp add: str_swap_def run_simps)

lemma str_sprintf_ok:
  assumes "str_has w d xs" "\<And>v. mod_strs {d} w v \<Longrightarrow> vformat f args v = Ok out v" "length out < STRING_MAX" "NUL \<notin> set out" "mem_ok w"
  shows "\<exists>w'. str_sprintf d f args w = Ok () w' \<and> str_upd w d out w'"
  using str_vprintf_ok [OF assms] by (auto simp: str_sprintf_def nc_simps)

lemma mod_strs_cread:
  assumes "mod_strs {d} w v" "str_has w s xs" "s \<noteq> d" "NUL \<notin> set xs"
  shows "cread (CVal s 0) v = Ok xs v"
  using assms by (intro cread_str_has) (simp_all add: mod_strs_def str_has_def)

end
