(* ===== verification/NC_List.thy ===== *)
theory NC_List
  imports NC_String_Text_Laws
begin

text \<open>
  The list component (src/list.c, src/nc_list.h): doubly linked lists of strings, with every
  pointer of the C structures. The heap is extended by two more kinds of objects, list entries and
  list headers. Loops over the entries follow the \<^verbatim>\<open>next\<close> pointers; the number of iterations is
  bounded by the number of objects ever allocated, which no chain of distinct entries exceeds, and
  running beyond it (a cyclic chain, on which the C code does not end) is the fault \<open>Diverge\<close>.
\<close>

section \<open>Objects\<close>

record list_entry_t =
  e_value :: "nat option"
  e_next :: "nat option"
  e_prev :: "nat option"

record list_t =
  l_count :: nat
  l_head :: "nat option"
  l_tail :: "nat option"

record list_heap = heap +
  ents :: "nat \<Rightarrow> list_entry_t option"
  lists :: "nat \<Rightarrow> list_t option"

type_synonym ('a, 'z) lnc = "'z list_heap_scheme \<Rightarrow> ('a, 'z list_heap_scheme) outcome"

definition SIZEOF_LIST_ENTRY_T :: nat where "SIZEOF_LIST_ENTRY_T = 24"
definition SIZEOF_LIST_T :: nat where "SIZEOF_LIST_T = 24"

definition deref :: "nat option \<Rightarrow> (nat, 'z) nc" where
  "deref p = (case p of None \<Rightarrow> nc_fault NullDeref | Some a \<Rightarrow> nc_return a)"

definition get_ent :: "nat \<Rightarrow> (list_entry_t, 'z) lnc" where
  "get_ent a w = (case ents w a of None \<Rightarrow> Fault BadAddr | Some e \<Rightarrow> Ok e w)"

definition upd_ent :: "nat \<Rightarrow> (list_entry_t \<Rightarrow> list_entry_t) \<Rightarrow> (unit, 'z) lnc" where
  "upd_ent a f w = (case ents w a of None \<Rightarrow> Fault BadAddr
     | Some e \<Rightarrow> Ok () (w\<lparr>ents := (ents w)(a \<mapsto> f e)\<rparr>))"

definition free_ent :: "nat \<Rightarrow> (unit, 'z) lnc" where
  "free_ent a w = (case ents w a of None \<Rightarrow> Fault BadFree
     | Some _ \<Rightarrow> Ok () (w\<lparr>ents := (ents w)(a := None)\<rparr>))"

definition calloc_ent :: "nat option \<Rightarrow> (nat, 'z) lnc" where
  "calloc_ent dest w =
     (if dest \<noteq> None then Fail (-1) w
      else if malloc_ok w (brk w) SIZEOF_LIST_ENTRY_T
      then Ok (brk w) (w\<lparr>ents := (ents w)(brk w \<mapsto> \<lparr>e_value = None, e_next = None, e_prev = None\<rparr>),
        brk := Suc (brk w)\<rparr>)
      else Fail (-1) (w\<lparr>brk := Suc (brk w)\<rparr>))"

definition get_list :: "nat \<Rightarrow> (list_t, 'z) lnc" where
  "get_list l w = (case lists w l of None \<Rightarrow> Fault BadAddr | Some h \<Rightarrow> Ok h w)"

definition upd_list :: "nat \<Rightarrow> (list_t \<Rightarrow> list_t) \<Rightarrow> (unit, 'z) lnc" where
  "upd_list l f w = (case lists w l of None \<Rightarrow> Fault BadAddr
     | Some h \<Rightarrow> Ok () (w\<lparr>lists := (lists w)(l \<mapsto> f h)\<rparr>))"

definition free_list :: "nat \<Rightarrow> (unit, 'z) lnc" where
  "free_list l w = (case lists w l of None \<Rightarrow> Fault BadFree
     | Some _ \<Rightarrow> Ok () (w\<lparr>lists := (lists w)(l := None)\<rparr>))"

definition empty_list :: list_t where
  "empty_list = \<lparr>l_count = 0, l_head = None, l_tail = None\<rparr>"

definition calloc_list :: "nat option \<Rightarrow> (nat, 'z) lnc" where
  "calloc_list dest w =
     (if dest \<noteq> None then Fail (-1) w
      else if malloc_ok w (brk w) SIZEOF_LIST_T
      then Ok (brk w) (w\<lparr>lists := (lists w)(brk w \<mapsto> empty_list), brk := Suc (brk w)\<rparr>)
      else Fail (-1) (w\<lparr>brk := Suc (brk w)\<rparr>))"

text \<open>
  \<^verbatim>\<open>for (cur = start; cur; cur = cur->next) body\<close> with an accumulator for the variables that the
  body assigns. The body says whether to go on (\<open>True\<close>) or to break (\<open>False\<close>).
\<close>

primrec foreach_ent ::
    "nat \<Rightarrow> nat option \<Rightarrow> (nat \<Rightarrow> 's \<Rightarrow> ('s \<times> bool, 'z) lnc) \<Rightarrow> 's \<Rightarrow> ('s, 'z) lnc" where
  "foreach_ent 0 cur body acc = nc_fault Diverge"
| "foreach_ent (Suc k) cur body acc =
     (case cur of None \<Rightarrow> nc_return acc
      | Some a \<Rightarrow> nc_bind (body a acc) (\<lambda>(acc', go).
          if go then nc_bind (get_ent a) (\<lambda>e. foreach_ent k (e_next e) body acc')
          else nc_return acc'))"

definition for_each :: "nat \<Rightarrow> (nat \<Rightarrow> 's \<Rightarrow> ('s \<times> bool, 'z) lnc) \<Rightarrow> 's \<Rightarrow> ('s, 'z) lnc" where
  "for_each l body acc w =
     nc_bind (get_list l) (\<lambda>h. foreach_ent (Suc (brk w)) (l_head h) body acc) w"

section \<open>Construction and destruction\<close>

definition list_new :: "nat option \<Rightarrow> (nat, 'z) lnc" where
  "list_new dest = calloc_list dest"

definition list_entry_destroy :: "nat \<Rightarrow> (unit, 'z) lnc" where
  "list_entry_destroy ent =
     nc_bind (get_ent ent) (\<lambda>e.
     nc_catch (str_destroy (e_value e)) (\<lambda>_. free_ent ent) (\<lambda>_. nc_fault Abort))"

definition list_entry_append :: "nat \<Rightarrow> nat \<Rightarrow> (unit, 'z) lnc" where
  "list_entry_append dest n =
     nc_bind (get_list dest) (\<lambda>h.
     nc_bind (upd_ent n (\<lambda>e. e\<lparr>e_next := None, e_prev := l_tail h\<rparr>)) (\<lambda>_.
     nc_bind (case l_tail h of None \<Rightarrow> nc_return () | Some t \<Rightarrow> upd_ent t (\<lambda>e. e\<lparr>e_next := Some n\<rparr>)) (\<lambda>_.
     nc_bind (nc_when (l_head h = None) (upd_list dest (\<lambda>h. h\<lparr>l_head := Some n\<rparr>))) (\<lambda>_.
     upd_list dest (\<lambda>h. h\<lparr>l_tail := Some n, l_count := sz (l_count h + 1)\<rparr>)))))"

primrec list_truncate_loop :: "nat \<Rightarrow> nat option \<Rightarrow> (unit, 'z) lnc" where
  "list_truncate_loop 0 x = nc_fault Diverge"
| "list_truncate_loop (Suc k) x =
     (case x of None \<Rightarrow> nc_return ()
      | Some a \<Rightarrow> nc_bind (get_ent a) (\<lambda>e.
          nc_bind (list_entry_destroy a) (\<lambda>_. list_truncate_loop k (e_next e))))"

definition list_truncate :: "nat \<Rightarrow> (unit, 'z) lnc" where
  "list_truncate l w =
     nc_bind (get_list l) (\<lambda>h.
     nc_bind (list_truncate_loop (Suc (brk w)) (l_head h)) (\<lambda>_.
     upd_list l (\<lambda>h. h\<lparr>l_head := None, l_tail := None, l_count := 0\<rparr>))) w"

definition list_destroy :: "nat option \<Rightarrow> (unit, 'z) lnc" where
  "list_destroy dest = (case dest of None \<Rightarrow> nc_return ()
     | Some l \<Rightarrow> nc_bind (list_truncate l) (\<lambda>_. free_list l))"

definition with_auto_list :: "(nat \<Rightarrow> ('a, 'z) lnc) \<Rightarrow> ('a, 'z) lnc" where
  "with_auto_list body =
     nc_bind (list_new None) (\<lambda>l.
     nc_bind (body l) (\<lambda>r.
     nc_bind (list_destroy (Some l)) (\<lambda>_. nc_return r)))"

definition list_entry_new :: "nat option \<Rightarrow> nat \<Rightarrow> (nat, 'z) lnc" where
  "list_entry_new dest value =
     nc_bind (calloc_ent dest) (\<lambda>n.
     nc_bind (get_ent n) (\<lambda>e.
     nc_bind (str_new (e_value e)) (\<lambda>s.
     nc_bind (upd_ent n (\<lambda>e. e\<lparr>e_value := Some s\<rparr>)) (\<lambda>_.
     nc_bind (str_copy s value) (\<lambda>_.
     nc_bind (upd_ent n (\<lambda>e. e\<lparr>e_next := None, e_prev := None\<rparr>)) (\<lambda>_.
     nc_return n))))))"

section \<open>Adding and removing elements\<close>

definition list_unshift :: "nat \<Rightarrow> nat \<Rightarrow> (unit, 'z) lnc" where
  "list_unshift dest value =
     nc_bind (list_entry_new None value) (\<lambda>n.
     nc_bind (get_list dest) (\<lambda>h.
     nc_bind (if l_count h \<noteq> 0 then upd_ent n (\<lambda>e. e\<lparr>e_next := l_head h\<rparr>)
              else upd_list dest (\<lambda>h. h\<lparr>l_tail := Some n\<rparr>)) (\<lambda>_.
     upd_list dest (\<lambda>h. h\<lparr>l_head := Some n, l_count := sz (l_count h + 1)\<rparr>))))"

definition list_push :: "nat \<Rightarrow> nat \<Rightarrow> (unit, 'z) lnc" where
  "list_push l item = nc_bind (list_entry_new None item) (\<lambda>n. list_entry_append l n)"

definition list_entry_delete :: "nat \<Rightarrow> nat \<Rightarrow> (unit, 'z) lnc" where
  "list_entry_delete l ent =
     nc_bind (get_ent ent) (\<lambda>e.
     nc_bind (case e_next e of None \<Rightarrow> nc_return ()
              | Some n \<Rightarrow> upd_ent n (\<lambda>x. x\<lparr>e_prev := e_prev e\<rparr>)) (\<lambda>_.
     nc_bind (get_ent ent) (\<lambda>e.
     nc_bind (case e_prev e of None \<Rightarrow> nc_return ()
              | Some p \<Rightarrow> upd_ent p (\<lambda>x. x\<lparr>e_next := e_next e\<rparr>)) (\<lambda>_.
     nc_bind (get_ent ent) (\<lambda>e.
     nc_bind (get_list l) (\<lambda>h.
     nc_bind (nc_when (l_head h = Some ent) (upd_list l (\<lambda>h. h\<lparr>l_head := e_next e\<rparr>))) (\<lambda>_.
     nc_bind (nc_when (l_tail h = Some ent) (upd_list l (\<lambda>h. h\<lparr>l_tail := e_prev e\<rparr>))) (\<lambda>_.
     nc_bind (upd_list l (\<lambda>h. h\<lparr>l_count := sz_dec (l_count h)\<rparr>)) (\<lambda>_.
     list_entry_destroy ent)))))))))"

definition list_pop :: "nat \<Rightarrow> nat \<Rightarrow> (unit, 'z) lnc" where
  "list_pop dest l =
     nc_bind (get_list l) (\<lambda>h.
     case l_tail h of None \<Rightarrow> nc_throw
     | Some t \<Rightarrow> nc_bind (get_ent t) (\<lambda>e.
         nc_bind (deref (e_value e)) (\<lambda>v.
         nc_bind (str_move dest v) (\<lambda>_.
         list_entry_delete l t))))"

definition list_cat :: "nat \<Rightarrow> cptr \<Rightarrow> (unit, 'z) lnc" where
  "list_cat dest value = with_auto_str (\<lambda>str.
     nc_bind (str_cpy str value) (\<lambda>_. list_push dest str))"

definition list_putc :: "nat \<Rightarrow> int \<Rightarrow> (unit, 'z) lnc" where
  "list_putc dest value = with_auto_str (\<lambda>str.
     nc_bind (str_putc str value) (\<lambda>_. list_push dest str))"

text \<open>
  The position counter is a \<^verbatim>\<open>uint32_t\<close>, the requested offset a \<^verbatim>\<open>size_t\<close>. Not finding the entry is
  \<^verbatim>\<open>throw_fatal\<close>.
\<close>

primrec list_entry_get_loop :: "nat \<Rightarrow> nat option \<Rightarrow> nat \<Rightarrow> nat \<Rightarrow> (nat, 'z) lnc" where
  "list_entry_get_loop 0 cur count offset = nc_fault Diverge"
| "list_entry_get_loop (Suc k) cur count offset =
     (case cur of None \<Rightarrow> nc_fault Abort
      | Some a \<Rightarrow> if count = offset then nc_return a
          else nc_bind (get_ent a) (\<lambda>e. list_entry_get_loop k (e_next e) ((count + 1) mod 2 ^ 32) offset))"

definition list_entry_get :: "nat \<Rightarrow> nat \<Rightarrow> (nat, 'z) lnc" where
  "list_entry_get src offset w =
     nc_bind (get_list src) (\<lambda>h.
     if l_count h \<le> offset then nc_throw
     else list_entry_get_loop (Suc (brk w)) (l_head h) 0 offset) w"

definition list_get :: "nat \<Rightarrow> nat \<Rightarrow> nat \<Rightarrow> (unit, 'z) lnc" where
  "list_get dest src offset =
     nc_bind (list_entry_get src offset) (\<lambda>ent.
     nc_bind (get_ent ent) (\<lambda>e.
     nc_bind (deref (e_value e)) (\<lambda>v. str_copy dest v)))"

definition list_shift :: "nat \<Rightarrow> nat \<Rightarrow> (unit, 'z) lnc" where
  "list_shift dest l =
     nc_bind (get_list l) (\<lambda>h.
     if l_count h = 0 then nc_throw
     else nc_bind (list_entry_get l 0) (\<lambda>ent.
       nc_bind (get_ent ent) (\<lambda>e.
       nc_bind (deref (e_value e)) (\<lambda>v.
       nc_bind (str_move dest v) (\<lambda>_.
       list_entry_delete l ent)))))"

definition list_delete :: "nat \<Rightarrow> nat \<Rightarrow> (unit, 'z) lnc" where
  "list_delete l offset =
     nc_bind (get_list l) (\<lambda>h.
     if l_count h < offset then nc_throw
     else nc_bind (for_each l (\<lambda>ent n.
         if n = offset then nc_bind (list_entry_delete l ent) (\<lambda>_. nc_return (sz (n + 1), False))
         else nc_return (sz (n + 1), True)) 0) (\<lambda>_. nc_return ()))"

primrec list_from_char_loop :: "cptr list \<Rightarrow> nat \<Rightarrow> (unit, 'z) lnc" where
  "list_from_char_loop [] l = nc_return ()"
| "list_from_char_loop (cp # cps) l = nc_bind (list_cat l cp) (\<lambda>_. list_from_char_loop cps l)"

definition list_from_char :: "nat \<Rightarrow> cptr list \<Rightarrow> (unit, 'z) lnc" where
  "list_from_char l args = nc_bind (list_truncate l) (\<lambda>_. list_from_char_loop args l)"

section \<open>Searching and comparing\<close>

definition list_find_substr :: "nat \<Rightarrow> cptr \<Rightarrow> (unit, 'z) lnc" where
  "list_find_substr l substring =
     nc_bind (for_each l (\<lambda>cur _.
         nc_bind (get_ent cur) (\<lambda>e.
         nc_bind (deref (e_value e)) (\<lambda>v.
         nc_bind (str_contains v substring) (\<lambda>found. nc_return (found, \<not> found))))) False) (\<lambda>found.
     if \<not> found then nc_throw else nc_return ())"

definition list_find :: "nat \<Rightarrow> cptr \<Rightarrow> (bool, 'z) lnc" where
  "list_find l string =
     for_each l (\<lambda>cur _.
       nc_bind (get_ent cur) (\<lambda>e.
       nc_bind (deref (e_value e)) (\<lambda>v.
       nc_catch (str_cmp v string) (\<lambda>_. nc_return (True, False)) (\<lambda>_. nc_return (False, True))))) False"

text \<open>
  The loop of \<^verbatim>\<open>list_compare\<close>, with \<^verbatim>\<open>s1\<close> holding an element and the arguments that are left:
  \<open>None\<close> when two elements differ, otherwise the value of \<^verbatim>\<open>count\<close> at the end.
\<close>

primrec list_compare_loop :: "cptr list \<Rightarrow> nat \<Rightarrow> nat \<Rightarrow> nat \<Rightarrow> (nat option, 'z) lnc" where
  "list_compare_loop [] s1 l count = nc_return (Some count)"
| "list_compare_loop (s2 # args) s1 l count =
     nc_catch (str_cmp s1 s2)
       (\<lambda>_. if args = [] then nc_return (Some count)
            else nc_bind (list_get s1 l count) (\<lambda>_. list_compare_loop args s1 l (sz (count + 1))))
       (\<lambda>_. nc_return None)"

definition list_compare :: "nat \<Rightarrow> cptr list \<Rightarrow> (unit, 'z) lnc" where
  "list_compare l args =
     nc_bind (with_auto_str (\<lambda>s1.
       nc_bind (get_list l) (\<lambda>h.
       if args = [] \<and> l_count h \<noteq> 0 then nc_return (-1)
       else nc_bind (list_get s1 l 0) (\<lambda>_.
         nc_bind (list_compare_loop args s1 l 1) (\<lambda>r.
         nc_return (if r = Some (l_count h) then 0 else -1)))))) nc_rc"

section \<open>Whole lists\<close>

definition list_copy :: "nat \<Rightarrow> nat \<Rightarrow> (unit, 'z) lnc" where
  "list_copy dest src =
     nc_bind (list_truncate dest) (\<lambda>_.
     for_each src (\<lambda>cur _.
       nc_bind (get_ent cur) (\<lambda>e.
       nc_bind (deref (e_value e)) (\<lambda>v.
       nc_bind (list_push dest v) (\<lambda>_. nc_return ((), True))))) ())"

definition list_merge :: "nat \<Rightarrow> nat \<Rightarrow> (unit, 'z) lnc" where
  "list_merge dest src =
     nc_bind (get_list dest) (\<lambda>d.
     nc_bind (get_list src) (\<lambda>s.
     nc_bind (if l_count d = 0 then upd_list dest (\<lambda>d. d\<lparr>l_head := l_head s\<rparr>)
              else nc_bind (deref (l_tail d)) (\<lambda>t. upd_ent t (\<lambda>e. e\<lparr>e_next := l_head s\<rparr>))) (\<lambda>_.
     nc_bind (get_list src) (\<lambda>s.
     nc_bind (upd_list dest (\<lambda>d. d\<lparr>l_tail := l_tail s, l_count := sz (l_count d + l_count s)\<rparr>)) (\<lambda>_.
     upd_list src (\<lambda>s. s\<lparr>l_count := 0, l_head := None, l_tail := None\<rparr>))))))"

definition list_move :: "nat \<Rightarrow> nat \<Rightarrow> (unit, 'z) lnc" where
  "list_move dest src =
     nc_bind (list_truncate dest) (\<lambda>_.
     nc_bind (get_list src) (\<lambda>s.
     nc_bind (upd_list dest (\<lambda>d. d\<lparr>l_head := l_head s, l_tail := l_tail s, l_count := l_count s\<rparr>)) (\<lambda>_.
     upd_list src (\<lambda>s. s\<lparr>l_head := None, l_tail := None, l_count := 0\<rparr>))))"

definition list_reverse :: "nat \<Rightarrow> (unit, 'z) lnc" where
  "list_reverse l =
     nc_bind (get_list l) (\<lambda>h.
     nc_bind (upd_list l (\<lambda>h'. h'\<lparr>l_head := l_tail h, l_tail := l_head h\<rparr>)) (\<lambda>_.
     for_each l (\<lambda>ptr _.
       nc_bind (upd_ent ptr (\<lambda>e. e\<lparr>e_prev := e_next e, e_next := e_prev e\<rparr>)) (\<lambda>_.
       nc_return ((), True))) ()))"

section \<open>Sorting\<close>

definition SORT_DESCENDING :: nat where "SORT_DESCENDING = 1"
definition SORT_NUMERIC :: nat where "SORT_NUMERIC = 16"

definition sort_compare :: "bool \<Rightarrow> nat \<Rightarrow> nat \<Rightarrow> (int, 'z) nc" where
  "sort_compare lexicographical str1 str2 =
     (if lexicographical
      then nc_bind (cread (CVal str1 0)) (\<lambda>x. nc_bind (cread (CVal str2 0)) (\<lambda>y. nc_return (strcmp x y)))
      else nc_bind (str_to_uint32 str1) (\<lambda>i. nc_bind (str_to_uint32 str2) (\<lambda>j.
        nc_return (if i > j then 1 else if i < j then -1 else 0))))"

text \<open>
  The inner loop. \<^verbatim>\<open>str1\<close> and \<^verbatim>\<open>str2\<close> are assigned before it, from the first two entries, and not
  in it. Result: whether two elements were swapped (\<^verbatim>\<open>found\<close>).
\<close>

primrec list_sort_pass ::
    "nat \<Rightarrow> nat option \<Rightarrow> nat option \<Rightarrow> nat \<Rightarrow> nat \<Rightarrow> bool \<Rightarrow> bool \<Rightarrow> bool \<Rightarrow> (bool, 'z) lnc" where
  "list_sort_pass 0 ent1 ent2 str1 str2 ascending lexicographical found = nc_fault Diverge"
| "list_sort_pass (Suc k) ent1 ent2 str1 str2 ascending lexicographical found =
     (case (ent1, ent2) of
        (Some a1, Some a2) \<Rightarrow>
          nc_bind (sort_compare lexicographical str1 str2) (\<lambda>rc.
          let swap = (ascending \<and> rc > 0 \<or> \<not> ascending \<and> rc < 0) in
          nc_bind (get_ent a1) (\<lambda>e1. nc_bind (get_ent a2) (\<lambda>e2.
          nc_bind (nc_when swap (nc_bind (upd_ent a1 (\<lambda>e. e\<lparr>e_value := e_value e2\<rparr>)) (\<lambda>_.
             upd_ent a2 (\<lambda>e. e\<lparr>e_value := e_value e1\<rparr>)))) (\<lambda>_.
          list_sort_pass k (e_next e1) (e_next e2) str1 str2 ascending lexicographical (found \<or> swap)))))
      | _ \<Rightarrow> nc_return found)"

primrec list_sort_loop :: "nat \<Rightarrow> nat \<Rightarrow> bool \<Rightarrow> bool \<Rightarrow> (unit, 'z) lnc" where
  "list_sort_loop 0 l ascending lexicographical = nc_fault Diverge"
| "list_sort_loop (Suc k) l ascending lexicographical = (\<lambda>w.
     nc_bind (get_list l) (\<lambda>h.
     nc_bind (deref (l_head h)) (\<lambda>a1.
     nc_bind (get_ent a1) (\<lambda>e1.
     nc_bind (deref (e_next e1)) (\<lambda>a2.
     nc_bind (get_ent a2) (\<lambda>e2.
     nc_bind (deref (e_value e1)) (\<lambda>str1. nc_bind (deref (e_value e2)) (\<lambda>str2.
     nc_bind (list_sort_pass (Suc (brk w)) (Some a1) (Some a2) str1 str2 ascending lexicographical False) (\<lambda>found.
     if found then list_sort_loop k l ascending lexicographical else nc_return ())))))))) w)"

text \<open>
  The outer loop ends after at most as many passes as the list has entries (shown below), so
  the number of allocations bounds it, too.
\<close>

definition list_sort :: "nat \<Rightarrow> nat \<Rightarrow> (unit, 'z) lnc" where
  "list_sort l flags w = with_auto_str (\<lambda>buf.
     nc_bind (get_list l) (\<lambda>h.
     if l_count h < 2 then nc_return ()
     else list_sort_loop (Suc (brk w)) l (\<not> odd (flags div SORT_DESCENDING)) (\<not> odd (flags div SORT_NUMERIC)))) w"

section \<open>Output\<close>

text \<open>
  \<^verbatim>\<open>list_write\<close> hands chunks to write(2), one after the other; \<open>write\<close> says for every chunk whether
  it is accepted. The result is what was written.
\<close>

definition list_write :: "(string \<Rightarrow> bool) \<Rightarrow> nat \<Rightarrow> cptr \<Rightarrow> (string, 'z) lnc" where
  "list_write write l eol =
     nc_bind (cread eol) (\<lambda>nl.
     for_each l (\<lambda>cur out.
       nc_bind (get_ent cur) (\<lambda>e.
       nc_bind (deref (e_value e)) (\<lambda>v.
       nc_bind (get_str v) (\<lambda>t.
       nc_bind (cbytes (CVal v 0)) (\<lambda>b.
       if length b < s_len t then nc_fault OutOfBounds
       else if None \<in> set (take (s_len t) b) then nc_fault Uninit
       else let line = map the (take (s_len t) b) in
         if \<not> write line then nc_throw
         else if \<not> write nl then nc_throw
         else nc_return (out @ line @ nl, True)))))) [])"

definition list_print :: "nat \<Rightarrow> (string, 'z) lnc" where
  "list_print l =
     nc_bind (get_list l) (\<lambda>h.
     nc_bind (for_each l (\<lambda>ent out.
       nc_bind (get_ent ent) (\<lambda>e.
       nc_bind (deref (e_value e)) (\<lambda>v.
       nc_bind (cread (CVal v 0)) (\<lambda>xs.
       nc_return (out @ ''  `'' @ xs @ [CHR 0x27, LF], True)))))
       (''dumping list of '' @ dec_nat (l_count h) @ '' entries..'' @ [LF])) (\<lambda>out.
     nc_return (out @ ''done.'')))"

end
