(* ===== verification/NC_List_Laws.thy ===== *)
theory NC_List_Laws
  imports NC_List
begin

text \<open>
  The representation of a sequence of strings by a doubly linked list, and what every list
  operation does to it. \<open>list_at w l cs xss\<close> says that the header \<open>l\<close> owns the chain of cells \<open>cs\<close>
  (entry address, string address) and the strings hold \<open>xss\<close>; \<open>mod_lh\<close> is the frame of an operation.
\<close>

section \<open>Frames\<close>

definition mod_lh :: "nat set \<Rightarrow> nat set \<Rightarrow> nat set \<Rightarrow> 'z list_heap_scheme \<Rightarrow> 'z list_heap_scheme \<Rightarrow> bool" where
  "mod_lh S E L w w' \<longleftrightarrow> malloc_ok w' = malloc_ok w \<and> list_heap.more w' = list_heap.more w \<and> brk w \<le> brk w' \<and>
     (\<forall>a. a \<notin> S \<longrightarrow> strs w' a = strs w a) \<and> (\<forall>a. a \<notin> E \<longrightarrow> ents w' a = ents w a) \<and>
     (\<forall>a. a \<notin> L \<longrightarrow> lists w' a = lists w a)"

lemma mod_lh_refl [simp]: "mod_lh S E L w w"
  by (simp add: mod_lh_def)

lemma mod_lh_trans:
  "mod_lh S E L w w1 \<Longrightarrow> mod_lh S' E' L' w1 w2 \<Longrightarrow> mod_lh (S \<union> S') (E \<union> E') (L \<union> L') w w2"
  by (auto simp: mod_lh_def)

lemma mod_lh_trans_same:
  "mod_lh S E L w w1 \<Longrightarrow> mod_lh S E L w1 w2 \<Longrightarrow> mod_lh S E L w w2"
  by (auto simp: mod_lh_def)

lemma mod_lh_mono: "mod_lh S E L w w' \<Longrightarrow> S \<subseteq> S' \<Longrightarrow> E \<subseteq> E' \<Longrightarrow> L \<subseteq> L' \<Longrightarrow> mod_lh S' E' L' w w'"
  unfolding mod_lh_def by blast

lemma more_ents: "heap.more w' = heap.more w \<Longrightarrow> ents w' = ents w \<and> lists w' = lists w \<and> list_heap.more w' = list_heap.more w"
  by (cases w, cases w') simp

lemma mod_strs_lh: "mod_strs S w w' \<Longrightarrow> mod_lh S {} {} w w'"
  using more_ents [of w' w] by (simp add: mod_strs_def mod_lh_def)

lemma mod_strs_ents: "mod_strs S w w' \<Longrightarrow> ents w' = ents w"
  using mod_strs_lh [of S w w'] by (simp add: mod_lh_def fun_eq_iff)

lemma mod_strs_lists: "mod_strs S w w' \<Longrightarrow> lists w' = lists w"
  using mod_strs_lh [of S w w'] by (simp add: mod_lh_def fun_eq_iff)

lemma str_upd_ents: "str_upd w s xs w' \<Longrightarrow> ents w' = ents w"
  by (auto dest: str_upd_mod mod_strs_ents)

lemma str_upd_lists: "str_upd w s xs w' \<Longrightarrow> lists w' = lists w"
  by (auto dest: str_upd_mod mod_strs_lists)

lemma mod_lh_strs: "mod_lh S E L w w' \<Longrightarrow> a \<notin> S \<Longrightarrow> strs w' a = strs w a"
  by (simp add: mod_lh_def)

lemma mod_lh_ents: "mod_lh S E L w w' \<Longrightarrow> a \<notin> E \<Longrightarrow> ents w' a = ents w a"
  by (simp add: mod_lh_def)

lemma mod_lh_lists: "mod_lh S E L w w' \<Longrightarrow> a \<notin> L \<Longrightarrow> lists w' a = lists w a"
  by (simp add: mod_lh_def)

lemma mod_lh_has: "mod_lh S E L w w' \<Longrightarrow> a \<notin> S \<Longrightarrow> str_has w' a xs = str_has w a xs"
  by (simp add: mod_lh_def str_has_def)

lemma mod_lh_mem_ok: "mod_lh S E L w w' \<Longrightarrow> mem_ok w' = mem_ok w"
  by (simp add: mod_lh_def mem_ok_def)

lemma mod_lh_brk: "mod_lh S E L w w' \<Longrightarrow> brk w \<le> brk w'"
  by (simp add: mod_lh_def)

text \<open>Every allocated object has an address below \<open>brk\<close>.\<close>

definition wf_lh :: "'z list_heap_scheme \<Rightarrow> bool" where
  "wf_lh w \<longleftrightarrow> wf_strs w \<and> (\<forall>a. ents w a \<noteq> None \<longrightarrow> a < brk w) \<and> (\<forall>a. lists w a \<noteq> None \<longrightarrow> a < brk w)"

lemma wf_lh_strs [simp]: "wf_lh w \<Longrightarrow> wf_strs w"
  by (simp add: wf_lh_def)

lemma mod_lh_wf:
  assumes "mod_lh S E L w w'" "wf_lh w" "\<forall>a\<in>S \<union> E \<union> L. a < brk w'"
  shows "wf_lh w'"
  unfolding wf_lh_def wf_strs_def
  by (metis (no_types, lifting) UnCI assms mod_lh_brk mod_lh_ents mod_lh_lists mod_lh_strs
      order_less_le_trans wf_lh_def wf_strs_def)

section \<open>Chains of entries\<close>

definition hd_addr :: "(nat \<times> nat) list \<Rightarrow> nat option \<Rightarrow> nat option" where
  "hd_addr cs n = (case cs of [] \<Rightarrow> n | c # _ \<Rightarrow> Some (fst c))"

definition last_addr :: "nat option \<Rightarrow> (nat \<times> nat) list \<Rightarrow> nat option" where
  "last_addr p cs = (if cs = [] then p else Some (fst (last cs)))"

fun dseg :: "(nat \<Rightarrow> list_entry_t option) \<Rightarrow> nat option \<Rightarrow> (nat \<times> nat) list \<Rightarrow> nat option \<Rightarrow> bool" where
  "dseg E p [] n = True"
| "dseg E p ((a, s) # cs) n =
     (E a = Some \<lparr>e_value = Some s, e_next = hd_addr cs n, e_prev = p\<rparr> \<and> dseg E (Some a) cs n)"

lemma addr_simps [simp]:
  "hd_addr [] n = n" "hd_addr (c # cs) n = Some (fst c)"
  "last_addr p [] = p" "last_addr p (cs @ [c]) = Some (fst c)"
  "last_addr p (c # cs) = last_addr (Some (fst c)) cs"
  by (auto simp: hd_addr_def last_addr_def)

lemma hd_addr_append [simp]: "hd_addr (cs @ ds) n = hd_addr cs (hd_addr ds n)"
  by (cases cs) auto

lemma last_addr_append [simp]: "last_addr p (cs @ ds) = last_addr (last_addr p cs) ds"
  by (induction cs arbitrary: p) auto

lemma hd_addr_rev: "hd_addr (rev cs) n = last_addr n cs"
  by (induction cs arbitrary: n) auto

lemma last_addr_rev: "last_addr n (rev cs) = hd_addr cs n"
  by (cases cs) auto

lemma hd_addr_None [simp]: "hd_addr cs None = None \<longleftrightarrow> cs = []"
  by (cases cs) auto

lemma addr_Some [simp]: "hd_addr cs (Some x) \<noteq> None" "last_addr (Some x) cs \<noteq> None"
  by (cases cs, auto simp: last_addr_def)

lemma last_addr_None [simp]: "last_addr None cs = None \<longleftrightarrow> cs = []"
  by (simp add: last_addr_def)

lemma dseg_append [simp]:
  "dseg E p (cs @ ds) n \<longleftrightarrow> dseg E p cs (hd_addr ds n) \<and> dseg E (last_addr p cs) ds n"
proof (induction cs arbitrary: p)
  case (Cons c cs)
  then show ?case by (cases c) simp
qed simp

lemma dseg_frame: "\<forall>a\<in>fst ` set cs. E' a = E a \<Longrightarrow> dseg E' p cs n = dseg E p cs n"
  by (induction cs arbitrary: p) auto

lemma dseg_upd_other [simp]: "a \<notin> fst ` set cs \<Longrightarrow> dseg (E(a := x)) p cs n = dseg E p cs n"
  by (rule dseg_frame) auto

lemma dseg_ents: "dseg E p cs n \<Longrightarrow> a \<in> fst ` set cs \<Longrightarrow> E a \<noteq> None"
proof (induction cs arbitrary: p)
  case (Cons c cs)
  then show ?case by (cases c) auto
qed simp

lemma dseg_length:
  assumes "dseg (ents w) p cs n" "distinct (map fst cs)" "wf_lh w"
  shows "length cs \<le> brk w"
proof -
  have "fst ` set cs \<subseteq> {..<brk w}" using dseg_ents [OF assms(1)] assms(3) by (auto simp: wf_lh_def)
  then have "card (fst ` set cs) \<le> brk w" using card_mono [of "{..<brk w}"] by fastforce
  moreover have "card (fst ` set cs) = length cs"
    using distinct_card [OF assms(2)] by simp
  ultimately show ?thesis by simp
qed

section \<open>Lists\<close>

definition header :: "(nat \<times> nat) list \<Rightarrow> list_t" where
  "header cs = \<lparr>l_count = length cs, l_head = hd_addr cs None, l_tail = last_addr None cs\<rparr>"

definition list_cells :: "'z list_heap_scheme \<Rightarrow> nat \<Rightarrow> (nat \<times> nat) list \<Rightarrow> bool" where
  "list_cells w l cs \<longleftrightarrow> lists w l = Some (header cs) \<and> dseg (ents w) None cs None \<and>
     distinct (map fst cs) \<and> distinct (map snd cs)"

definition vals :: "'z list_heap_scheme \<Rightarrow> (nat \<times> nat) list \<Rightarrow> string list \<Rightarrow> bool" where
  "vals w cs xss \<longleftrightarrow> list_all2 (\<lambda>c xs. str_has w (snd c) xs) cs xss"

definition list_at :: "'z list_heap_scheme \<Rightarrow> nat \<Rightarrow> (nat \<times> nat) list \<Rightarrow> string list \<Rightarrow> bool" where
  "list_at w l cs xss \<longleftrightarrow> list_cells w l cs \<and> vals w cs xss"

lemma header_simps [simp]:
  "l_count (header cs) = length cs" "l_head (header cs) = hd_addr cs None"
  "l_tail (header cs) = last_addr None cs"
  by (simp_all add: header_def)

lemma header_Nil: "header [] = empty_list"
  by (simp add: header_def empty_list_def)

lemma vals_simps [simp]:
  "vals w [] xss \<longleftrightarrow> xss = []"
  "vals w cs [] \<longleftrightarrow> cs = []"
  "vals w (c # cs) (xs # xss) \<longleftrightarrow> str_has w (snd c) xs \<and> vals w cs xss"
  by (auto simp: vals_def)

lemma vals_Cons: "vals w (c # cs) xss \<longleftrightarrow> (\<exists>x xss'. xss = x # xss' \<and> str_has w (snd c) x \<and> vals w cs xss')"
  by (auto simp: vals_def list_all2_Cons1)

lemma vals_length: "vals w cs xss \<Longrightarrow> length cs = length xss"
  by (simp add: vals_def list_all2_lengthD)

lemma vals_append:
  "length cs = length xss \<Longrightarrow> vals w (cs @ ds) (xss @ yss) \<longleftrightarrow> vals w cs xss \<and> vals w ds yss"
  by (simp add: vals_def list_all2_append)

lemma vals_frame: "\<forall>s\<in>snd ` set cs. strs w' s = strs w s \<Longrightarrow> vals w' cs xss = vals w cs xss"
  unfolding vals_def by (rule list.rel_cong) (auto simp: str_has_def)

lemma vals_lt: "vals w cs xss \<Longrightarrow> wf_strs w \<Longrightarrow> s \<in> snd ` set cs \<Longrightarrow> s < brk w"
  unfolding vals_def
  by (induction cs xss rule: list_all2_induct) (auto dest: str_has_lt)

lemma list_cells_lt:
  assumes "list_cells w l cs" "wf_lh w"
  shows "l < brk w" "a \<in> fst ` set cs \<Longrightarrow> a < brk w" "length cs \<le> brk w"
  using assms dseg_ents [of "ents w" None cs None a] dseg_length [of w None cs None]
  by (auto simp: list_cells_def wf_lh_def)

lemma list_at_frame:
  assumes "list_at w l cs xss" "mod_lh S E L w w'" "l \<notin> L" "fst ` set cs \<inter> E = {}" "snd ` set cs \<inter> S = {}"
  shows "list_at w' l cs xss"
proof -
  have "vals w' cs xss = vals w cs xss" using assms(2,5) by (intro vals_frame) (auto simp: mod_lh_def)
  moreover have "dseg (ents w') None cs None = dseg (ents w) None cs None"
    using assms(2,4) by (intro dseg_frame) (auto simp: mod_lh_def)
  ultimately show ?thesis using assms(1-3) by (simp add: list_at_def list_cells_def mod_lh_def)
qed

lemma list_cells_eval:
  assumes "list_cells w l cs"
  shows "lists w l = Some (header cs)" "get_list l w = Ok (header cs) w"
  using assms by (simp_all add: list_cells_def get_list_def)

lemmas list_run = nc_simps get_ent_def upd_ent_def free_ent_def get_list_def upd_list_def free_list_def
  deref_def

lemma str_has_ext [simp]:
  "str_has (w\<lparr>ents := x\<rparr>) s xs = str_has w s xs"
  "str_has (w\<lparr>lists := y\<rparr>) s xs = str_has w s xs"
  "str_has (w\<lparr>brk := n\<rparr>) s xs = str_has w s xs"
  by (simp_all add: str_has_def)

lemma mem_ok_ext [simp]: "mem_ok (w\<lparr>ents := x\<rparr>) = mem_ok w" "mem_ok (w\<lparr>lists := y\<rparr>) = mem_ok w"
  by (simp_all add: mem_ok_def)

section \<open>Entries\<close>

lemma list_entry_new_ok:
  assumes "str_src w v xs" "mem_ok w" "wf_lh w"
  shows "\<exists>w'. list_entry_new None v w = Ok (brk w) w' \<and> mod_lh {Suc (brk w)} {brk w} {} w w' \<and>
    ents w' (brk w) = Some \<lparr>e_value = Some (Suc (brk w)), e_next = None, e_prev = None\<rparr> \<and>
    str_has w' (Suc (brk w)) xs \<and> Suc (brk w) < brk w'"
proof -
  let ?a = "brk w" and ?s = "Suc (brk w)"
  let ?w1 = "w\<lparr>ents := (ents w)(?a \<mapsto> \<lparr>e_value = None, e_next = None, e_prev = None\<rparr>), brk := ?s\<rparr>"
  have v: "v < ?a" using str_src_lt [of w v xs] assms(1,3) by simp
  obtain w2 where w2: "str_new None ?w1 = Ok ?s w2" "str_upd ?w1 ?s [] w2" "?s < brk w2"
    using str_new_ok [of ?w1] assms(2) by auto
  note e2 = str_upd_ents [OF w2(2)]
  let ?w3 = "w2\<lparr>ents := (ents w2)(?a \<mapsto> \<lparr>e_value = Some ?s, e_next = None, e_prev = None\<rparr>)\<rparr>"
  have "strs ?w3 v = strs w v" using v str_upd_other [OF w2(2), of v] by simp
  then have h1: "str_src ?w3 v xs" using str_src_frame [of ?w3 v w xs] assms(1) by blast
  have h: "str_has ?w3 ?s []" "mem_ok ?w3" "?s \<noteq> v"
    using w2(2) assms(2) v by (simp_all add: str_upd_has str_upd_mem_ok)
  obtain w4 where w4: "str_copy ?s v ?w3 = Ok () w4" "str_upd ?w3 ?s xs w4"
    using str_copy_src_ok [OF h1 h(1,3,2)] by blast
  have e4: "ents w4 ?a = Some \<lparr>e_value = Some ?s, e_next = None, e_prev = None\<rparr>"
    using str_upd_ents [OF w4(2)] by simp
  let ?w5 = "w4\<lparr>ents := (ents w4)(?a \<mapsto> \<lparr>e_value = Some ?s, e_next = None, e_prev = None\<rparr>)\<rparr>"
  have "list_entry_new None v w = Ok ?a ?w5"
    using w2(1) w4(1) e2 e4 assms(2)
    by (simp add: list_entry_new_def calloc_ent_def nc_simps get_ent_def upd_ent_def)
  moreover have "mod_lh {?s} {?a} {} w ?w5"
  proof -
    have "mod_lh {} {?a} {} w ?w1" "mod_lh {} {?a} {} w2 ?w3" "mod_lh {} {?a} {} w4 ?w5"
      by (simp_all add: mod_lh_def)
    note m = this mod_strs_lh [OF str_upd_mod [OF w2(2)]] mod_strs_lh [OF str_upd_mod [OF w4(2)]]
    show ?thesis
      using mod_lh_trans [OF m(1) mod_lh_trans [OF m(4) mod_lh_trans [OF m(2) mod_lh_trans [OF m(5) m(3)]]]]
      by simp
  qed
  moreover have "str_has ?w5 ?s xs" "?s < brk ?w5"
    using str_upd_has [OF w4(2)] w2(3) str_upd_frame [OF w4(2)] by auto
  ultimately show ?thesis by auto
qed

lemma list_entry_destroy_ok:
  assumes "ents w a = Some e" "e_value e = Some s" "str_has w s xs"
  shows "list_entry_destroy a w = Ok () (w\<lparr>strs := (strs w)(s := None), ents := (ents w)(a := None)\<rparr>)"
  using assms str_destroy_ok [OF assms(3)]
  by (simp add: list_entry_destroy_def nc_simps get_ent_def free_ent_def)

text \<open>Linking a detached entry behind the last one.\<close>

lemma list_entry_append_ok:
  assumes "list_cells w l cs" "ents w n = Some e" "e_value e = Some s" "n \<notin> fst ` set cs" "s \<notin> snd ` set cs"
    "length cs + 1 < 2 ^ 64"
  shows "\<exists>w'. list_entry_append l n w = Ok () w' \<and> list_cells w' l (cs @ [(n, s)]) \<and>
    mod_lh {} (insert n (fst ` set cs)) {l} w w' \<and> brk w' = brk w"
proof -
  have c: "lists w l = Some (header cs)" "dseg (ents w) None cs None" "distinct (map fst cs)" "distinct (map snd cs)"
    using assms(1) by (simp_all add: list_cells_def)
  have sz: "sz (length cs + 1) = length cs + 1" using assms(6) by (rule sz_id)
  show ?thesis
  proof (cases cs rule: rev_cases)
    case Nil
    have "header [(n, s)] = \<lparr>l_count = 1, l_head = Some n, l_tail = Some n\<rparr>" by (simp add: header_def)
    moreover have "sz (Suc 0) = Suc 0" by (simp add: sz_def)
    ultimately show ?thesis
      using Nil c(1) assms(2,3)
      by (simp add: list_entry_append_def list_run list_cells_def header_def [of "[]"] mod_lh_def)
  next
    case (snoc ds d)
    obtain t u where d: "d = (t, u)" by (cases d)
    have t: "ents w t = Some \<lparr>e_value = Some u, e_next = None, e_prev = last_addr None ds\<rparr>"
        "dseg (ents w) None ds (Some t)" "t \<notin> fst ` set ds"
      using c(2,3) snoc d by auto
    have n: "n \<noteq> t" "n \<notin> fst ` set ds" using assms(4) snoc d by auto
    let ?E = "(ents w)(n \<mapsto> e\<lparr>e_next := None, e_prev := Some t\<rparr>,
      t \<mapsto> \<lparr>e_value = Some u, e_next = Some n, e_prev = last_addr None ds\<rparr>)"
    have hd: "hd_addr cs None \<noteq> None" using snoc by (simp del: not_None_eq)
    have "list_entry_append l n w = Ok () (w\<lparr>ents := ?E,
        lists := (lists w)(l \<mapsto> header (cs @ [(n, s)]))\<rparr>)"
      using c(1) snoc d t n assms(2) hd sz
      by (simp add: list_entry_append_def list_run header_def del: not_None_eq)
    moreover have "dseg ?E None (cs @ [(n, s)]) None"
      using snoc d t n assms(3) by simp
    moreover have "distinct (map fst (cs @ [(n, s)]))" "distinct (map snd (cs @ [(n, s)]))"
      using c assms(4,5) by auto
    ultimately show ?thesis
      using snoc d by (auto simp: list_cells_def mod_lh_def)
  qed
qed

text \<open>Unlinking and freeing an entry.\<close>

lemma list_entry_delete_ok:
  assumes "list_cells w l (cs @ (a, s) # ds)" "str_has w s xs" "length cs + length ds < 2 ^ 64 - 1"
  shows "\<exists>w'. list_entry_delete l a w = Ok () w' \<and> list_cells w' l (cs @ ds) \<and>
    mod_lh {s} (insert a (fst ` set (cs @ ds))) {l} w w' \<and> brk w' = brk w \<and> strs w' s = None \<and> ents w' a = None"
proof -
  have c: "lists w l = Some (header (cs @ (a, s) # ds))" "dseg (ents w) None (cs @ (a, s) # ds) None"
      "distinct (map fst (cs @ (a, s) # ds))" "distinct (map snd (cs @ (a, s) # ds))"
    using assms(1) by (simp_all add: list_cells_def)
  have a: "ents w a = Some \<lparr>e_value = Some s, e_next = hd_addr ds None, e_prev = last_addr None cs\<rparr>"
      "dseg (ents w) None cs (Some a)" "dseg (ents w) (Some a) ds None"
    using c(2) by simp_all
  have sz: "sz_dec (Suc (length cs + length ds)) = length cs + length ds"
    using sz_dec_pos [of "Suc (length cs + length ds)"] assms(3) by simp
  have hd: "hd_addr cs (Some a) = Some a \<longleftrightarrow> cs = []"
    using c(3) by (cases cs) auto
  have tl: "last_addr (Some a) ds = Some a \<longleftrightarrow> ds = []"
    using c(3) by (cases ds rule: rev_cases) auto
  have fin: "w'\<lparr>strs := (strs w')(s := None), ents := (ents w')(a := None)\<rparr> = w''
      \<Longrightarrow> ents w' a = Some e \<Longrightarrow> e_value e = Some s \<Longrightarrow> strs w' = strs w
      \<Longrightarrow> list_entry_destroy a w' = Ok () w''" for w' w'' e
    using list_entry_destroy_ok [of w' a e s xs] assms(2) by (simp add: str_has_def)
  define E1 where "E1 = (case hd_addr ds None of None \<Rightarrow> ents w
     | Some n \<Rightarrow> (ents w)(n \<mapsto> (the (ents w n))\<lparr>e_prev := last_addr None cs\<rparr>))"
  define E2 where "E2 = (case last_addr None cs of None \<Rightarrow> E1
     | Some p \<Rightarrow> E1(p \<mapsto> (the (E1 p))\<lparr>e_next := hd_addr ds None\<rparr>))"
  let ?w' = "w\<lparr>strs := (strs w)(s := None), ents := E2(a := None), lists := (lists w)(l \<mapsto> header (cs @ ds))\<rparr>"
  have "list_entry_delete l a w = Ok () ?w' \<and> dseg (E2(a := None)) None (cs @ ds) None
      \<and> (\<forall>x. x \<notin> insert a (fst ` set (cs @ ds)) \<longrightarrow> E2 x = ents w x)"
  proof (cases cs rule: rev_cases; cases ds)
    assume cs: "cs = []" and ds: "ds = []"
    show ?thesis
      using a c(1) sz by (simp add: cs ds list_entry_delete_def list_run header_def E1_def E2_def fin)
  next
    fix d ds' assume cs: "cs = []" and ds: "ds = d # ds'"
    obtain n v where d: "d = (n, v)" by (cases d)
    have n: "n \<noteq> a" "n \<notin> fst ` set ds'" "a \<notin> fst ` set ds'" using c(3) ds d by auto
    show ?thesis
      using a c(1) sz n tl by (simp add: cs ds d list_entry_delete_def list_run header_def E1_def E2_def fin)
  next
    fix cs' e assume cs: "cs = cs' @ [e]" and ds: "ds = []"
    obtain p u where e: "e = (p, u)" by (cases e)
    have p: "p \<noteq> a" "a \<notin> fst ` set cs'" "p \<notin> fst ` set cs'" using c(3) cs e by auto
    show ?thesis
      using a c(1) sz p hd by (simp add: cs ds e list_entry_delete_def list_run header_def E1_def E2_def fin)
  next
    fix cs' e d ds' assume cs: "cs = cs' @ [e]" and ds: "ds = d # ds'"
    obtain n v where d: "d = (n, v)" by (cases d)
    obtain p u where e: "e = (p, u)" by (cases e)
    have p: "p \<noteq> a" "n \<noteq> a" "p \<noteq> n" "a \<notin> fst ` set cs'" "p \<notin> fst ` set cs'" "n \<notin> fst ` set cs'"
        "a \<notin> fst ` set ds'" "p \<notin> fst ` set ds'" "n \<notin> fst ` set ds'"
      using c(3) cs ds d e by auto
    show ?thesis
      using a c(1) sz p hd tl by (simp add: cs ds d e list_entry_delete_def list_run header_def E1_def E2_def fin)
  qed
  moreover have "distinct (map fst (cs @ ds))" "distinct (map snd (cs @ ds))" using c(3,4) by auto
  ultimately show ?thesis by (auto simp: list_cells_def mod_lh_def)
qed

section \<open>Adding and removing elements\<close>

lemma list_push_ok:
  assumes "list_at w l cs xss" "str_src w v xs" "length cs + 1 < 2 ^ 64" "mem_ok w" "wf_lh w"
  shows "\<exists>w' a s. list_push l v w = Ok () w' \<and> list_at w' l (cs @ [(a, s)]) (xss @ [xs]) \<and>
    mod_lh {s} (insert a (fst ` set cs)) {l} w w' \<and> brk w \<le> a \<and> brk w \<le> s \<and> a < brk w' \<and> s < brk w'"
proof -
  let ?a = "brk w" and ?s = "Suc (brk w)"
  have c: "list_cells w l cs" "vals w cs xss" using assms(1) by (auto simp: list_at_def)
  obtain w1 where w1: "list_entry_new None v w = Ok ?a w1" "mod_lh {?s} {?a} {} w w1"
      "ents w1 ?a = Some \<lparr>e_value = Some ?s, e_next = None, e_prev = None\<rparr>"
      "str_has w1 ?s xs" "?s < brk w1"
    using list_entry_new_ok [OF assms(2,4,5)] by blast
  have fresh: "?a \<notin> fst ` set cs" "?s \<notin> snd ` set cs"
    using list_cells_lt(2) [OF c(1) assms(5)] vals_lt [OF c(2)] assms(5) by fastforce+
  have l1: "list_at w1 l cs xss" by (rule list_at_frame [OF assms(1) w1(2)]) (use fresh in auto)
  obtain w2 where w2: "list_entry_append l ?a w1 = Ok () w2" "list_cells w2 l (cs @ [(?a, ?s)])"
      "mod_lh {} (insert ?a (fst ` set cs)) {l} w1 w2" "brk w2 = brk w1"
    using list_entry_append_ok [of w1 l cs ?a _ ?s] l1 w1(3) fresh assms(3) by (auto simp: list_at_def)
  have m: "mod_lh {?s} (insert ?a (fst ` set cs)) {l} w w2"
    using mod_lh_trans [OF w1(2) w2(3)] by simp
  have "vals w2 cs xss" "str_has w2 ?s xs"
    using vals_frame [of cs w2 w1] mod_lh_strs [OF w2(3)] l1 mod_lh_has [OF w2(3)] w1(4) by (auto simp: list_at_def)
  then have "vals w2 (cs @ [(?a, ?s)]) (xss @ [xs])"
    using vals_append [OF vals_length [OF c(2)], of w2 "[(?a, ?s)]" "[xs]"] by simp
  moreover have "list_push l v w = Ok () w2" using w1(1) w2(1) by (simp add: list_push_def nc_simps)
  ultimately have "list_push l v w = Ok () w2 \<and> list_at w2 l (cs @ [(?a, ?s)]) (xss @ [xs]) \<and>
      mod_lh {?s} (insert ?a (fst ` set cs)) {l} w w2 \<and> brk w \<le> ?a \<and> brk w \<le> ?s \<and> ?a < brk w2 \<and> ?s < brk w2"
    using w2(2,4) m w1(5) by (simp add: list_at_def)
  then show ?thesis by blast
qed

lemma list_at_split:
  assumes "list_at w l (cs @ (a, s) # ds) xss"
  obtains yss x zss where "xss = yss @ x # zss" "length yss = length cs" "vals w cs yss" "str_has w s x" "vals w ds zss"
proof -
  have v: "vals w (cs @ (a, s) # ds) xss" using assms by (simp add: list_at_def)
  have len: "length xss = length cs + Suc (length ds)" using vals_length [OF v] by simp
  let ?y = "take (length cs) xss" and ?z = "drop (Suc (length cs)) xss"
  have xss: "xss = ?y @ xss ! length cs # ?z" using len by (simp add: id_take_nth_drop)
  have "vals w (cs @ (a, s) # ds) (?y @ xss ! length cs # ?z)" using v xss by simp
  then have "vals w cs ?y \<and> vals w ((a, s) # ds) (xss ! length cs # ?z)"
    using vals_append [of cs ?y w] len by simp
  with that [OF xss] len show ?thesis by simp
qed

text \<open>The common end of \<^verbatim>\<open>list_pop\<close> and \<^verbatim>\<open>list_shift\<close>: hand over the string, delete the entry.\<close>

lemma take_entry_ok:
  assumes "list_at w l (cs @ (a, s) # ds) (yss @ x # zss)" "length yss = length cs"
    "str_has w d y" "d \<notin> snd ` set (cs @ (a, s) # ds)" "mem_ok w" "length cs + length ds < 2 ^ 64 - 1"
  shows "\<exists>w1 w'. str_move d s w = Ok () w1 \<and> list_entry_delete l a w1 = Ok () w' \<and>
    list_at w' l (cs @ ds) (yss @ zss) \<and> str_has w' d x \<and>
    mod_lh {d, s} (insert a (fst ` set (cs @ ds))) {l} w w' \<and> strs w' s = None \<and> ents w' a = None"
proof -
  have c: "list_cells w l (cs @ (a, s) # ds)" and v: "vals w (cs @ (a, s) # ds) (yss @ x # zss)"
    using assms(1) by (auto simp: list_at_def)
  have vs: "vals w cs yss" "str_has w s x" "vals w ds zss"
    using v vals_append [of cs yss w] assms(2) by auto
  have ne: "d \<noteq> s" using assms(4) by auto
  obtain w1 where w1: "str_move d s w = Ok () w1" "mod_strs {d, s} w w1" "str_has w1 d x" "str_has w1 s []"
    using str_move_ok [OF vs(2) assms(3) ne assms(5)] by blast
  have c1: "list_cells w1 l (cs @ (a, s) # ds)"
    using c mod_strs_ents [OF w1(2)] mod_strs_lists [OF w1(2)] by (simp add: list_cells_def)
  obtain w' where w': "list_entry_delete l a w1 = Ok () w'" "list_cells w' l (cs @ ds)"
      "mod_lh {s} (insert a (fst ` set (cs @ ds))) {l} w1 w'" "strs w' s = None" "ents w' a = None"
    using list_entry_delete_ok [OF c1 w1(4) assms(6)] by blast
  have m: "mod_lh {d, s} (insert a (fst ` set (cs @ ds))) {l} w w'"
    using mod_lh_trans [OF mod_strs_lh [OF w1(2)] w'(3)] by (simp add: insert_commute)
  have dis: "s \<notin> snd ` set (cs @ ds)" "d \<notin> snd ` set (cs @ ds)"
    using c assms(4) by (auto simp: list_cells_def)
  have same: "t \<in> snd ` set (cs @ ds) \<Longrightarrow> strs w' t = strs w t" for t
    using dis mod_lh_strs [OF m, of t] by auto
  have "vals w' cs yss" "vals w' ds zss"
    using vs same vals_frame [of cs w' w yss] vals_frame [of ds w' w zss] by auto
  then have "vals w' (cs @ ds) (yss @ zss)" using vals_append [of cs yss w'] assms(2) by simp
  moreover have "str_has w' d x" using w1(3) mod_lh_has [OF w'(3), of d x] ne by simp
  ultimately show ?thesis using w1(1) w' m by (auto simp: list_at_def)
qed

lemma list_pop_ok:
  assumes "list_at w l cs (xss @ [x])" "str_has w d y" "d \<notin> snd ` set cs" "mem_ok w" "length cs < 2 ^ 64"
  shows "\<exists>w'. list_pop d l w = Ok () w' \<and> list_at w' l (butlast cs) xss \<and> str_has w' d x \<and>
    mod_lh {d, snd (last cs)} (fst ` set cs) {l} w w'"
proof -
  have "cs \<noteq> []" using assms(1) vals_length [of w cs "xss @ [x]"] by (auto simp: list_at_def)
  then obtain ds a s where cs: "cs = ds @ [(a, s)]" by (metis rev_exhaust surj_pair)
  have len: "length xss = length ds" using assms(1) cs vals_length [of w cs "xss @ [x]"] by (simp add: list_at_def)
  have e: "ents w a = Some \<lparr>e_value = Some s, e_next = None, e_prev = last_addr None ds\<rparr>"
    and l: "lists w l = Some (header cs)" using assms(1) cs by (auto simp: list_at_def list_cells_def)
  obtain w1 w' where "str_move d s w = Ok () w1" "list_entry_delete l a w1 = Ok () w'"
      "list_at w' l ds xss" "str_has w' d x" "mod_lh {d, s} (insert a (fst ` set ds)) {l} w w'"
    using take_entry_ok [of w l ds a s "[]" xss x "[]" d y] assms cs len by auto
  then show ?thesis
    using e l cs by (auto simp: list_pop_def list_run)
qed

lemma list_pop_empty: "list_at w l [] [] \<Longrightarrow> list_pop d l w = Fail (-1) w"
  by (simp add: list_at_def list_cells_def list_pop_def list_run)

section \<open>Access by position\<close>

lemma list_entry_get_loop_ok:
  "dseg (ents w) p cs None \<Longrightarrow> i < length cs \<Longrightarrow> length cs < k \<Longrightarrow> count + i < 2 ^ 32 \<Longrightarrow>
     list_entry_get_loop k (hd_addr cs None) count (count + i) w = Ok (fst (cs ! i)) w"
proof (induction k arbitrary: p cs i count)
  case (Suc k)
  then obtain a s ds where cs: "cs = (a, s) # ds" by (cases cs) auto
  show ?case
  proof (cases i)
    case 0
    then show ?thesis using cs by (simp add: nc_simps)
  next
    case (Suc j)
    have "list_entry_get_loop k (hd_addr ds None) (Suc count) (Suc count + j) w = Ok (fst (ds ! j)) w"
      using Suc Suc.prems cs by (intro Suc.IH [of "Some a"]) auto
    with Suc cs Suc.prems show ?thesis by (simp add: list_run)
  qed
qed simp

lemma list_entry_get_ok:
  assumes "list_cells w l cs" "i < length cs" "i < 2 ^ 32" "wf_lh w"
  shows "list_entry_get l i w = Ok (fst (cs ! i)) w"
  using list_entry_get_loop_ok [of w None cs i "Suc (brk w)" 0] list_cells_lt(3) [OF assms(1,4)] assms
  by (simp add: list_entry_get_def list_cells_def list_run)

lemma list_entry_get_range:
  "list_cells w l cs \<Longrightarrow> length cs \<le> i \<Longrightarrow> list_entry_get l i w = Fail (-1) w"
  by (simp add: list_entry_get_def list_cells_def list_run)

lemma dseg_nth:
  "dseg E p cs n \<Longrightarrow> i < length cs \<Longrightarrow>
     \<exists>e. E (fst (cs ! i)) = Some e \<and> e_value e = Some (snd (cs ! i))"
proof (induction cs arbitrary: p i)
  case (Cons c cs)
  obtain a s where c: "c = (a, s)" by (cases c)
  show ?case
  proof (cases i)
    case 0
    then show ?thesis using Cons.prems(1) c by simp
  next
    case (Suc j)
    then show ?thesis using Cons.IH [of "Some a" j] Cons.prems c by simp
  qed
qed simp

lemma vals_nth: "vals w cs xss \<Longrightarrow> i < length xss \<Longrightarrow> str_has w (snd (cs ! i)) (xss ! i)"
  by (auto simp: vals_def list_all2_conv_all_nth)

lemma list_get_eval:
  assumes "list_at w l cs xss" "i < length xss" "i < 2 ^ 32" "wf_lh w"
  shows "list_get d l i w = str_copy d (snd (cs ! i)) w"
proof -
  have c: "list_cells w l cs" "vals w cs xss" using assms(1) by (auto simp: list_at_def)
  have i: "i < length cs" using vals_length [OF c(2)] assms(2) by simp
  obtain e where "ents w (fst (cs ! i)) = Some e" "e_value e = Some (snd (cs ! i))"
    using dseg_nth [of "ents w" None cs None i] c(1) i by (auto simp: list_cells_def)
  with list_entry_get_ok [OF c(1) i assms(3,4)] show ?thesis by (simp add: list_get_def list_run)
qed

lemma list_get_ok:
  assumes "list_at w l cs xss" "i < length xss" "i < 2 ^ 32" "str_has w d y" "d \<notin> snd ` set cs" "mem_ok w" "wf_lh w"
  shows "\<exists>w'. list_get d l i w = Ok () w' \<and> str_upd w d (xss ! i) w'"
proof -
  have c: "vals w cs xss" using assms(1) by (simp add: list_at_def)
  have h: "str_has w (snd (cs ! i)) (xss ! i)" using vals_nth [OF c assms(2)] .
  have "d \<noteq> snd (cs ! i)" using assms(2,5) vals_length [OF c] by auto
  from str_copy_ok [OF h assms(4) this assms(6)] list_get_eval [OF assms(1-3,7)] show ?thesis by simp
qed

lemma list_get_range:
  assumes "list_at w l cs xss" "length xss \<le> i"
  shows "list_get d l i w = Fail (-1) w"
  using list_entry_get_range [of w l cs i] assms vals_length [of w cs xss]
  by (simp add: list_get_def nc_bind_def list_at_def)

lemma list_shift_ok:
  assumes "list_at w l cs (x # xss)" "str_has w d y" "d \<notin> snd ` set cs" "mem_ok w" "length cs < 2 ^ 64" "wf_lh w"
  shows "\<exists>w'. list_shift d l w = Ok () w' \<and> list_at w' l (tl cs) xss \<and> str_has w' d x \<and>
    mod_lh {d, snd (hd cs)} (fst ` set cs) {l} w w'"
proof -
  obtain a s ds where cs: "cs = (a, s) # ds" using assms(1) by (cases cs) (auto simp: list_at_def)
  have c: "list_cells w l cs" using assms(1) by (simp add: list_at_def)
  have e: "ents w a = Some \<lparr>e_value = Some s, e_next = hd_addr ds None, e_prev = None\<rparr>"
    and l: "lists w l = Some (header cs)" using c cs by (auto simp: list_cells_def)
  obtain w1 w' where "str_move d s w = Ok () w1" "list_entry_delete l a w1 = Ok () w'"
      "list_at w' l ds xss" "str_has w' d x" "mod_lh {d, s} (insert a (fst ` set ds)) {l} w w'"
    using take_entry_ok [of w l "[]" a s ds "[]" x xss d y] assms cs by auto
  then show ?thesis
    using e l cs list_entry_get_ok [OF c _ _ assms(6), of 0] by (auto simp: list_shift_def list_run)
qed

lemma list_shift_empty: "list_at w l [] [] \<Longrightarrow> list_shift d l w = Fail (-1) w"
  by (simp add: list_at_def list_cells_def list_shift_def list_run)

end
