(* ===== verification/NC_List_Whole.thy ===== *)
theory NC_List_Whole
  imports NC_List_Laws
begin

text \<open>
  The operations on whole lists: truncation and destruction, search, deletion by position, reversal,
  moving, copying, and building from character strings.
\<close>

declare foreach_ent.simps [simp del] list_truncate_loop.simps [simp del]

lemma foreach_ent_None: "foreach_ent (Suc k) None body acc w = Ok acc w"
  by (simp add: foreach_ent.simps nc_simps)

lemma foreach_ent_next:
  "body a acc w = Ok (acc', True) w' \<Longrightarrow> ents w' a = Some e \<Longrightarrow>
     foreach_ent (Suc k) (Some a) body acc w = foreach_ent k (e_next e) body acc' w'"
  by (simp add: foreach_ent.simps nc_simps get_ent_def)

lemma foreach_ent_break:
  "body a acc w = Ok (acc', False) w' \<Longrightarrow> foreach_ent (Suc k) (Some a) body acc w = Ok acc' w'"
  by (simp add: foreach_ent.simps nc_simps)

lemma foreach_ent_fault:
  "body a acc w = Fail rc w' \<Longrightarrow> foreach_ent (Suc k) (Some a) body acc w = Fail (-1) w'"
  by (simp add: foreach_ent.simps nc_simps)

lemma for_each_eval:
  "list_cells w l cs \<Longrightarrow> for_each l body acc w = foreach_ent (Suc (brk w)) (hd_addr cs None) body acc w"
  by (simp add: for_each_def nc_bind_def get_list_def list_cells_def)

section \<open>Truncation and destruction\<close>

lemma list_truncate_loop_ok:
  "dseg (ents w) p cs None \<Longrightarrow> vals w cs xss \<Longrightarrow> distinct (map fst cs) \<Longrightarrow> distinct (map snd cs) \<Longrightarrow>
     length cs < k \<Longrightarrow>
     list_truncate_loop k (hd_addr cs None) w =
       Ok () (w\<lparr>strs := strs w |` (- snd ` set cs), ents := ents w |` (- fst ` set cs)\<rparr>)"
proof (induction k arbitrary: p cs xss w)
  case (Suc k)
  show ?case
  proof (cases cs)
    case Nil
    then show ?thesis by (simp add: nc_simps list_truncate_loop.simps)
  next
    case (Cons c ds)
    obtain a s where c: "c = (a, s)" by (cases c)
    obtain x yss where xss: "xss = x # yss" "str_has w s x" "vals w ds yss"
      using Suc.prems(2) Cons c by (auto simp: vals_Cons)
    have dis: "a \<notin> fst ` set ds" "s \<notin> snd ` set ds" using Suc.prems(3,4) Cons c by auto
    let ?w1 = "w\<lparr>strs := (strs w)(s := None), ents := (ents w)(a := None)\<rparr>"
    have e: "ents w a = Some \<lparr>e_value = Some s, e_next = hd_addr ds None, e_prev = p\<rparr>"
      using Suc.prems(1) Cons c by simp
    have "list_entry_destroy a w = Ok () ?w1" using list_entry_destroy_ok [OF e _ xss(2)] by simp
    moreover have ds1: "dseg (ents ?w1) (Some a) ds None" using Suc.prems(1) Cons c dis by simp
    have "\<forall>t\<in>snd ` set ds. strs ?w1 t = strs w t" using dis(2) by auto
    then have v1: "vals ?w1 ds yss" using xss(3) vals_frame [of ds ?w1 w yss] by blast
    have "list_truncate_loop k (hd_addr ds None) ?w1 =
        Ok () (?w1\<lparr>strs := strs ?w1 |` (- snd ` set ds), ents := ents ?w1 |` (- fst ` set ds)\<rparr>)"
      by (rule Suc.IH [OF ds1 v1]) (use Suc.prems(3-5) Cons c in simp_all)
    moreover have "(strs w)(s := None) |` (- snd ` set ds) = strs w |` (- snd ` set cs)"
      "(ents w)(a := None) |` (- fst ` set ds) = ents w |` (- fst ` set cs)"
      using Cons c by (auto simp: restrict_map_def fun_eq_iff)
    ultimately show ?thesis using Cons c e by (simp add: list_run list_truncate_loop.simps)
  qed
qed simp

definition cleared :: "nat \<Rightarrow> (nat \<times> nat) list \<Rightarrow> 'z list_heap_scheme \<Rightarrow> 'z list_heap_scheme" where
  "cleared l cs w = w\<lparr>strs := strs w |` (- snd ` set cs), ents := ents w |` (- fst ` set cs),
     lists := (lists w)(l \<mapsto> empty_list)\<rparr>"

lemma list_truncate_ok:
  assumes "list_at w l cs xss" "wf_lh w"
  shows "list_truncate l w = Ok () (cleared l cs w)"
proof -
  have c: "list_cells w l cs" "vals w cs xss" using assms(1) by (auto simp: list_at_def)
  have "list_truncate_loop (Suc (brk w)) (hd_addr cs None) w =
      Ok () (w\<lparr>strs := strs w |` (- snd ` set cs), ents := ents w |` (- fst ` set cs)\<rparr>)"
    using c list_cells_lt(3) [OF c(1) assms(2)] by (intro list_truncate_loop_ok [of w None cs xss]) (auto simp: list_cells_def)
  then show ?thesis
    using c(1) by (simp add: list_truncate_def list_run list_cells_def cleared_def empty_list_def header_def)
qed

lemma cleared_mod: "mod_lh (snd ` set cs) (fst ` set cs) {l} w (cleared l cs w)"
  by (auto simp: mod_lh_def cleared_def)

lemma cleared_empty: "list_at (cleared l cs w) l [] []"
  by (simp add: list_at_def list_cells_def cleared_def header_Nil)

lemma cleared_simps [simp]:
  "brk (cleared l cs w) = brk w" "mem_ok (cleared l cs w) = mem_ok w" 
  by (simp_all add: cleared_def mem_ok_def)

lemma cleared_wf: "wf_lh w \<Longrightarrow> l < brk w \<Longrightarrow> wf_lh (cleared l cs w)"
  by (auto simp: wf_lh_def wf_strs_def cleared_def restrict_map_def)

lemma list_destroy_ok:
  assumes "list_at w l cs xss" "wf_lh w"
  shows "list_destroy (Some l) w = Ok () (w\<lparr>strs := strs w |` (- snd ` set cs),
      ents := ents w |` (- fst ` set cs), lists := (lists w)(l := None)\<rparr>)"
  using list_truncate_ok [OF assms]
  by (simp add: list_destroy_def nc_bind_def free_list_def cleared_def)

lemma list_new_ok:
  assumes "mem_ok w"
  shows "list_new None w = Ok (brk w) (w\<lparr>lists := (lists w)(brk w \<mapsto> empty_list), brk := Suc (brk w)\<rparr>)"
  using assms by (simp add: list_new_def calloc_list_def)

section \<open>Walking over a list\<close>

definition find_body :: "cptr \<Rightarrow> nat \<Rightarrow> bool \<Rightarrow> (bool \<times> bool, 'z) lnc" where
  "find_body p cur acc =
     nc_bind (get_ent cur) (\<lambda>e. nc_bind (deref (e_value e)) (\<lambda>v.
     nc_catch (str_cmp v p) (\<lambda>_. nc_return (True, False)) (\<lambda>_. nc_return (False, True))))"

lemma list_find_loop:
  assumes "cread p w = Ok ys w"
  shows "dseg (ents w) q cs None \<Longrightarrow> vals w cs xss \<Longrightarrow> length cs < k \<Longrightarrow> \<forall>xs\<in>set xss. NUL \<notin> set xs \<Longrightarrow>
     foreach_ent k (hd_addr cs None) (find_body p) False w = Ok (ys \<in> set xss) w"
proof (induction k arbitrary: q cs xss)
  case (Suc k)
  show ?case
  proof (cases cs)
    case Nil
    then show ?thesis using Suc.prems by (simp add: foreach_ent_None)
  next
    case (Cons c ds)
    obtain a s where c: "c = (a, s)" by (cases c)
    obtain x yss where xss: "xss = x # yss" "str_has w s x" "vals w ds yss"
      using Suc.prems(2) Cons c by (auto simp: vals_Cons)
    have e: "ents w a = Some \<lparr>e_value = Some s, e_next = hd_addr ds None, e_prev = q\<rparr>"
      using Suc.prems(1) Cons c by simp
    have "NUL \<notin> set x" using Suc.prems(4) xss(1) by simp
    note cmp = str_cmp_eval [OF xss(2) this assms]
    have b: "find_body p a False w = Ok (x = ys, x \<noteq> ys) w"
      using e cmp by (simp add: find_body_def list_run)
    show ?thesis
    proof (cases "x = ys")
      case True
      then show ?thesis using b Cons c xss(1) by (simp add: foreach_ent_break)
    next
      case False
      then have "foreach_ent (Suc k) (Some a) (find_body p) False w = foreach_ent k (hd_addr ds None) (find_body p) False w"
        using foreach_ent_next [OF _ e, of "find_body p" False w False k] b by simp
      also have "\<dots> = Ok (ys \<in> set yss) w"
        using Suc.prems Cons c xss by (intro Suc.IH [of "Some a"]) auto
      finally show ?thesis using False Cons c xss(1) by simp
    qed
  qed
qed simp

lemma list_find_ok:
  assumes "list_at w l cs xss" "cread p w = Ok ys w" "\<forall>xs\<in>set xss. NUL \<notin> set xs" "wf_lh w"
  shows "list_find l p w = Ok (ys \<in> set xss) w"
proof -
  have c: "list_cells w l cs" "vals w cs xss" using assms(1) by (auto simp: list_at_def)
  have "length cs < Suc (brk w)" using list_cells_lt(3) [OF c(1) assms(4)] by simp
  moreover have "dseg (ents w) None cs None" using c(1) by (simp add: list_cells_def)
  ultimately have "for_each l (find_body p) False w = Ok (ys \<in> set xss) w"
    using list_find_loop [OF assms(2) _ c(2) _ assms(3), of None "Suc (brk w)"]
      for_each_eval [OF c(1), of "find_body p" False] by simp
  then show ?thesis by (simp add: list_find_def find_body_def [abs_def])
qed

text \<open>Deletion by position: the loop counts to the offset, deletes the entry and leaves.\<close>

definition delete_body :: "nat \<Rightarrow> nat \<Rightarrow> nat \<Rightarrow> nat \<Rightarrow> (nat \<times> bool, 'z) lnc" where
  "delete_body l offset ent n =
     (if n = offset then nc_bind (list_entry_delete l ent) (\<lambda>_. nc_return (sz (n + 1), False))
      else nc_return (sz (n + 1), True))"

lemma list_delete_loop:
  assumes "dseg (ents w) q cs None" "i < length cs" "length cs < k" "n + length cs < 2 ^ 64"
    "list_entry_delete l (fst (cs ! i)) w = Ok () w'"
  shows "foreach_ent k (hd_addr cs None) (delete_body l (n + i)) n w = Ok (n + i + 1) w'"
  using assms
proof (induction k arbitrary: q cs n i)
  case (Suc k)
  then obtain a s ds where cs: "cs = (a, s) # ds" by (cases cs) auto
  have e: "ents w a = Some \<lparr>e_value = Some s, e_next = hd_addr ds None, e_prev = q\<rparr>"
    using Suc.prems(1) cs by simp
  have sz: "sz (Suc n) = Suc n" using Suc.prems(4) cs by (intro sz_id) simp
  show ?case
  proof (cases i)
    case 0
    then have "delete_body l (n + i) a n w = Ok (Suc n, False) w'"
      using Suc.prems(5) cs sz by (simp add: delete_body_def nc_simps)
    then show ?thesis using 0 cs by (simp add: foreach_ent_break)
  next
    case (Suc j)
    have b: "delete_body l (n + i) a n w = Ok (Suc n, True) w"
      using Suc sz by (simp add: delete_body_def nc_simps)
    have "foreach_ent k (hd_addr ds None) (delete_body l (Suc n + j)) (Suc n) w = Ok (Suc n + j + 1) w'"
      using Suc Suc.prems cs by (intro Suc.IH [of "Some a"]) auto
    then show ?thesis using Suc cs foreach_ent_next [where body = "delete_body l (n + i)", OF b e, of k] by simp
  qed
qed simp

lemma list_delete_ok:
  assumes "list_at w l cs xss" "i < length xss" "length cs < 2 ^ 64" "wf_lh w"
  shows "\<exists>w'. list_delete l i w = Ok () w' \<and> list_at w' l (take i cs @ drop (Suc i) cs) (take i xss @ drop (Suc i) xss) \<and>
    mod_lh {snd (cs ! i)} (fst ` set cs) {l} w w'"
proof -
  have c: "list_cells w l cs" "vals w cs xss" using assms(1) by (auto simp: list_at_def)
  have len: "length cs = length xss" using vals_length [OF c(2)] .
  obtain a s where as: "cs ! i = (a, s)" by (cases "cs ! i")
  let ?c = "take i cs" and ?d = "drop (Suc i) cs"
  have cs: "cs = ?c @ (a, s) # ?d" using as assms(2) len by (metis id_take_nth_drop)
  have h: "str_has w s (xss ! i)" using vals_nth [OF c(2) assms(2)] as by simp
  have "length ?c + length ?d < 2 ^ 64 - 1" using assms(2,3) len by simp
  from list_entry_delete_ok [OF _ h this] c(1) cs
  obtain w' where w': "list_entry_delete l a w = Ok () w'" "list_cells w' l (?c @ ?d)"
      "mod_lh {s} (insert a (fst ` set (?c @ ?d))) {l} w w'" by metis
  have "insert a (fst ` set (?c @ ?d)) = fst ` set cs" by (subst (3) cs) auto
  with w'(3) have m: "mod_lh {s} (fst ` set cs) {l} w w'" by metis
  have dis: "s \<notin> snd ` set (?c @ ?d)"
    using c(1) unfolding list_cells_def by (subst (asm) (4) cs) auto
  have "vals w' ?c (take i xss)" "vals w' ?d (drop (Suc i) xss)"
  proof -
    have "vals w ?c (take i xss)" "vals w ?d (drop (Suc i) xss)"
      using c(2) by (simp_all add: vals_def list_all2_takeI list_all2_dropI)
    moreover have "strs w' t = strs w t" if "t \<in> snd ` set (?c @ ?d)" for t
      using mod_lh_strs [OF m, of t] dis that by auto
    ultimately show "vals w' ?c (take i xss)" "vals w' ?d (drop (Suc i) xss)"
      using vals_frame [of ?c w' w] vals_frame [of ?d w' w] by (auto simp del: in_set_conv_nth)
  qed
  then have "list_at w' l (?c @ ?d) (take i xss @ drop (Suc i) xss)"
    using w'(2) len by (simp add: list_at_def vals_append)
  moreover have "list_delete l i w = Ok () w'"
    using list_delete_loop [of w None cs i "Suc (brk w)" 0 l w'] c(1) assms(2,3) len w'(1) as list_cells_lt(3) [OF c(1) assms(4)]
    by (simp add: list_delete_def for_each_eval [OF c(1)] nc_simps list_cells_eval [OF c(1)]
        delete_body_def [abs_def] list_cells_def)
  ultimately show ?thesis using m as by auto
qed

text \<open>An offset equal to the number of elements passes the check, and nothing is deleted.\<close>

lemma foreach_count:
  "dseg (ents w) q cs None \<Longrightarrow> length cs < k \<Longrightarrow> n + length cs \<le> i \<Longrightarrow> i < 2 ^ 64 \<Longrightarrow>
     foreach_ent k (hd_addr cs None) (delete_body l i) n w = Ok (n + length cs) w"
proof (induction k arbitrary: q cs n)
  case (Suc k)
  show ?case
  proof (cases cs)
    case (Cons c ds)
    obtain a s where c: "c = (a, s)" by (cases c)
    have e: "ents w a = Some \<lparr>e_value = Some s, e_next = hd_addr ds None, e_prev = q\<rparr>"
      using Suc.prems(1) Cons c by simp
    have sz: "sz (Suc n) = Suc n" using Suc.prems Cons by (intro sz_id) simp
    have b: "delete_body l i a n w = Ok (Suc n, True) w"
      using Suc.prems(3) Cons sz by (simp add: delete_body_def nc_simps)
    show ?thesis using Suc.IH [of "Some a" ds "Suc n"] Suc.prems Cons c foreach_ent_next [where body = "delete_body l i", OF b e, of k] by simp
  qed (simp add: foreach_ent_None)
qed simp

lemma list_delete_at_count:
  assumes "list_at w l cs xss" "wf_lh w" "length xss < 2 ^ 64"
  shows "list_delete l (length xss) w = Ok () w"
proof -
  have c: "list_cells w l cs" "length cs = length xss"
    using assms(1) vals_length [of w cs xss] by (auto simp: list_at_def)
  with foreach_count [of w None cs "Suc (brk w)" 0 "length xss" l] assms(3) list_cells_lt(3) [OF c(1) assms(2)]
  show ?thesis
    by (simp add: list_delete_def for_each_eval [OF c(1)] nc_simps list_cells_eval [OF c(1)]
        delete_body_def [abs_def] list_cells_def)
qed

end
