(* ===== verification/NC_List_Build.thy ===== *)
theory NC_List_Build
  imports NC_List_Whole
begin

text \<open>
  Reversal, moving, merging, copying of lists, building them from character strings, and the
  sorting routine.
\<close>

section \<open>Reversal\<close>

definition rev_body :: "nat \<Rightarrow> unit \<Rightarrow> (unit \<times> bool, 'z) lnc" where
  "rev_body ptr acc =
     nc_bind (upd_ent ptr (\<lambda>e. e\<lparr>e_prev := e_next e, e_next := e_prev e\<rparr>)) (\<lambda>_. nc_return ((), True))"

lemma list_reverse_loop:
  "dseg (ents w) None cs n \<Longrightarrow> distinct (map fst cs) \<Longrightarrow> length cs < k \<Longrightarrow>
     \<exists>E'. foreach_ent k (last_addr None cs) rev_body () w = Ok () (w\<lparr>ents := E'\<rparr>) \<and>
       dseg E' n (rev cs) None \<and> (\<forall>a. a \<notin> fst ` set cs \<longrightarrow> E' a = ents w a)"
proof (induction k arbitrary: cs n w)
  case (Suc k)
  show ?case
  proof (cases cs rule: rev_cases)
    case Nil
    then show ?thesis by (intro exI [of _ "ents w"]) (simp add: foreach_ent_None)
  next
    case (snoc ds d)
    obtain a s where d: "d = (a, s)" by (cases d)
    have e: "ents w a = Some \<lparr>e_value = Some s, e_next = n, e_prev = last_addr None ds\<rparr>"
      and ds: "dseg (ents w) None ds (Some a)" "a \<notin> fst ` set ds" "distinct (map fst ds)"
      using Suc.prems(1,2) snoc d by auto
    let ?e = "\<lparr>e_value = Some s, e_next = last_addr None ds, e_prev = n\<rparr>"
    let ?w = "w\<lparr>ents := (ents w)(a \<mapsto> ?e)\<rparr>"
    have b: "rev_body a () w = Ok ((), True) ?w" using e by (simp add: rev_body_def list_run)
    have "dseg (ents ?w) None ds (Some a)" using ds by simp
    from Suc.IH [OF this ds(3)] obtain E' where E': "foreach_ent k (last_addr None ds) rev_body () ?w = Ok () (?w\<lparr>ents := E'\<rparr>)"
        "dseg E' (Some a) (rev ds) None" "\<forall>x. x \<notin> fst ` set ds \<longrightarrow> E' x = ents ?w x"
      using Suc.prems(3) snoc by auto
    have a: "E' a = Some ?e" using E'(3) ds(2) by simp
    have "foreach_ent (Suc k) (Some a) rev_body () w = Ok () (w\<lparr>ents := E'\<rparr>)"
      using foreach_ent_next [where body = rev_body, OF b, of ?e k] E'(1) by simp
    moreover have "dseg E' n (rev cs) None" using snoc d a E'(2) by (simp add: hd_addr_rev)
    ultimately show ?thesis using E'(3) snoc d by (intro exI [of _ E']) auto
  qed
qed simp

lemma vals_rev: "vals w cs xss \<Longrightarrow> vals w (rev cs) (rev xss)"
  by (simp add: vals_def)

lemma list_reverse_ok:
  assumes "list_at w l cs xss" "wf_lh w"
  shows "\<exists>w'. list_reverse l w = Ok () w' \<and> list_at w' l (rev cs) (rev xss) \<and> mod_lh {} (fst ` set cs) {l} w w'"
proof -
  have c: "lists w l = Some (header cs)" "dseg (ents w) None cs None" "distinct (map fst cs)"
      "distinct (map snd cs)" "vals w cs xss" "length cs < Suc (brk w)"
    using assms list_cells_lt(3) [of w l cs] by (auto simp: list_at_def list_cells_def)
  let ?w = "w\<lparr>lists := (lists w)(l \<mapsto> header (rev cs))\<rparr>"
  obtain E' where E': "foreach_ent (Suc (brk w)) (last_addr None cs) rev_body () ?w = Ok () (?w\<lparr>ents := E'\<rparr>)"
      "dseg E' None (rev cs) None" "\<forall>a. a \<notin> fst ` set cs \<longrightarrow> E' a = ents w a"
    using list_reverse_loop [of ?w cs None "Suc (brk w)"] c by auto
  let ?w' = "?w\<lparr>ents := E'\<rparr>"
  have h: "(header cs)\<lparr>l_head := last_addr None cs, l_tail := hd_addr cs None\<rparr> = header (rev cs)"
    by (simp add: header_def hd_addr_rev last_addr_rev)
  have "for_each l rev_body () ?w = Ok () ?w'"
    using E'(1) by (simp add: for_each_def nc_bind_def get_list_def hd_addr_rev)
  then have "list_reverse l w = Ok () ?w'"
    using c(1) h by (simp add: list_reverse_def nc_bind_def get_list_def upd_list_def rev_body_def [abs_def])
  moreover have "vals ?w' (rev cs) (rev xss)"
    using vals_rev [OF c(5)] vals_frame [of "rev cs" ?w' w] by simp
  then have "list_at ?w' l (rev cs) (rev xss)"
    using E'(2) c(3,4) by (simp add: list_at_def list_cells_def rev_map [symmetric])
  moreover have "mod_lh {} (fst ` set cs) {l} w ?w'" using E'(3) by (simp add: mod_lh_def)
  ultimately show ?thesis by blast
qed

section \<open>Moving and merging\<close>

lemma list_move_ok:
  assumes "list_at w d ds yss" "list_at w s cs xss" "d \<noteq> s" "fst ` set ds \<inter> fst ` set cs = {}"
    "snd ` set ds \<inter> snd ` set cs = {}" "wf_lh w"
  shows "\<exists>w'. list_move d s w = Ok () w' \<and> list_at w' d cs xss \<and> list_at w' s [] [] \<and>
    mod_lh (snd ` set ds) (fst ` set ds) {d, s} w w'"
proof -
  let ?w = "cleared d ds w"
  have t: "list_truncate d w = Ok () ?w" using assms(1,6) by (rule list_truncate_ok)
  have s: "list_at ?w s cs xss" by (rule list_at_frame [OF assms(2) cleared_mod]) (use assms(3-5) in auto)
  let ?w' = "?w\<lparr>lists := (lists ?w)(d \<mapsto> header cs, s \<mapsto> empty_list)\<rparr>"
  have hd: "lists ?w d = Some empty_list" by (simp add: cleared_def)
  have hs: "lists ?w s = Some (header cs)" using s by (simp add: list_at_def list_cells_def)
  have e: "empty_list\<lparr>l_head := hd_addr cs None, l_tail := last_addr None cs, l_count := length cs\<rparr> = header cs"
    "(header cs)\<lparr>l_head := None, l_tail := None, l_count := 0\<rparr> = empty_list"
    by (simp_all add: header_def empty_list_def)
  have "list_move d s w = Ok () ?w'"
    using t hd hs assms(3) by (simp add: list_move_def nc_bind_def get_list_def upd_list_def e(2))
      (simp add: header_def empty_list_def)
  moreover have "vals ?w' cs xss" "dseg (ents ?w') None cs None"
    using s vals_frame [of cs ?w' ?w xss] by (auto simp: list_at_def list_cells_def)
  then have "list_at ?w' d cs xss" using s assms(3) by (simp add: list_at_def list_cells_def)
  moreover have "list_at ?w' s [] []" by (simp add: list_at_def list_cells_def header_Nil)
  moreover have "mod_lh (snd ` set ds) (fst ` set ds) {d, s} w ?w'"
    using cleared_mod [of ds d w] by (auto simp: mod_lh_def)
  ultimately show ?thesis by blast
qed

text \<open>
  \<^verbatim>\<open>list_merge\<close> into an empty list moves the source. Into a list with elements it links forward only:
  the \<^verbatim>\<open>prev\<close> pointer of the first entry of the source stays NULL.
\<close>

lemma list_merge_empty_ok:
  assumes "list_at w d [] []" "list_at w s cs xss" "d \<noteq> s" "length cs < 2 ^ 64"
  shows "\<exists>w'. list_merge d s w = Ok () w' \<and> list_at w' d cs xss \<and> list_at w' s [] [] \<and> mod_lh {} {} {d, s} w w'"
proof -
  let ?w' = "w\<lparr>lists := (lists w)(d \<mapsto> header cs, s \<mapsto> empty_list)\<rparr>"
  have hd: "lists w d = Some empty_list" using assms(1) by (simp add: list_at_def list_cells_def header_Nil)
  have hs: "lists w s = Some (header cs)" using assms(2) by (simp add: list_at_def list_cells_def)
  have e: "empty_list\<lparr>l_head := hd_addr cs None, l_tail := last_addr None cs, l_count := length cs\<rparr> = header cs"
    "(header cs)\<lparr>l_count := 0, l_head := None, l_tail := None\<rparr> = empty_list"
    by (simp_all add: header_def empty_list_def)
  have "list_merge d s w = Ok () ?w'"
    using hd hs e assms(3) sz_id [OF assms(4)]
    by (simp add: list_merge_def nc_bind_def get_list_def upd_list_def empty_list_def header_def)
  moreover have "vals ?w' cs xss" using assms(2) vals_frame [of cs ?w' w xss] by (simp add: list_at_def)
  then have "list_at ?w' d cs xss" using assms(2,3) by (simp add: list_at_def list_cells_def)
  moreover have "list_at ?w' s [] []" by (simp add: list_at_def list_cells_def header_Nil)
  moreover have "mod_lh {} {} {d, s} w ?w'" by (simp add: mod_lh_def)
  ultimately show ?thesis by blast
qed

section \<open>Copying\<close>

definition copy_body :: "nat \<Rightarrow> nat \<Rightarrow> unit \<Rightarrow> (unit \<times> bool, 'z) lnc" where
  "copy_body dest cur acc =
     nc_bind (get_ent cur) (\<lambda>e. nc_bind (deref (e_value e)) (\<lambda>v.
     nc_bind (list_push dest v) (\<lambda>_. nc_return ((), True))))"

lemma list_push_wf:
  assumes "mod_lh {s} (insert a (fst ` set cs)) {l} w w'" "list_cells w l cs" "wf_lh w" "a < brk w'" "s < brk w'"
  shows "wf_lh w'"
  using assms list_cells_lt [OF assms(2,3)] mod_lh_brk [OF assms(1)]
  by (intro mod_lh_wf [OF assms(1,3)]) fastforce

text \<open>Pushing one string on a list leaves every chain outside of the list as it is.\<close>

lemma push_frame:
  assumes "mod_lh {s} (insert a (fst ` set ds)) {d} w w1" "brk w \<le> a" "brk w \<le> s"
    "fst ` set cs \<inter> fst ` set ds = {}" "snd ` set cs \<subseteq> {..<brk w}" "fst ` set cs \<subseteq> {..<brk w}"
  shows "dseg (ents w1) q cs n = dseg (ents w) q cs n" "vals w1 cs xss = vals w cs xss"
proof -
  have "ents w1 x = ents w x" if "x \<in> fst ` set cs" for x
  proof -
    have "x \<notin> insert a (fst ` set ds)" using that assms(2,4,6) by auto
    then show ?thesis by (rule mod_lh_ents [OF assms(1)])
  qed
  then show "dseg (ents w1) q cs n = dseg (ents w) q cs n" by (intro dseg_frame) blast
  have "strs w1 x = strs w x" if "x \<in> snd ` set cs" for x
  proof -
    have "x \<notin> {s}" using that assms(3,5) by auto
    then show ?thesis by (rule mod_lh_strs [OF assms(1)])
  qed
  then show "vals w1 cs xss = vals w cs xss" by (intro vals_frame) blast
qed

lemma list_copy_loop:
  assumes "list_at w d ds yss" "dseg (ents w) q cs None" "vals w cs xss" "length cs < k"
    "fst ` set cs \<inter> fst ` set ds = {}" "snd ` set cs \<subseteq> {..<brk w}" "fst ` set cs \<subseteq> {..<brk w}"
    "length ds + length cs < 2 ^ 64" "mem_ok w" "wf_lh w"
  shows "\<exists>w' es. foreach_ent k (hd_addr cs None) (copy_body d) () w = Ok () w' \<and> list_at w' d (ds @ es) (yss @ xss) \<and>
    mod_lh {brk w..} ({brk w..} \<union> fst ` set ds) {d} w w' \<and> wf_lh w' \<and> set es \<subseteq> {brk w..} \<times> {brk w..}"
  using assms
proof (induction k arbitrary: w q cs xss ds yss)
  case (Suc k)
  show ?case
  proof (cases cs)
    case Nil
    then have "foreach_ent (Suc k) (hd_addr cs None) (copy_body d) () w = Ok () w" "xss = []"
      using Suc.prems(3) by (simp_all add: foreach_ent_None)
    with Suc.prems show ?thesis by (intro exI [of _ w] exI [of _ "[]"]) simp
  next
    case (Cons c cs')
    obtain b t where c: "c = (b, t)" by (cases c)
    obtain x xss' where xss: "xss = x # xss'" "str_has w t x" "vals w cs' xss'"
      using Suc.prems(3) Cons c by (auto simp: vals_Cons)
    have e: "ents w b = Some \<lparr>e_value = Some t, e_next = hd_addr cs' None, e_prev = q\<rparr>"
      using Suc.prems(2) Cons c by simp
    have len: "length ds + 1 < 2 ^ 64" using Suc.prems(8) Cons by simp
    obtain w1 a s where w1: "list_push d t w = Ok () w1" "list_at w1 d (ds @ [(a, s)]) (yss @ [x])"
        "mod_lh {s} (insert a (fst ` set ds)) {d} w w1" "brk w \<le> a" "brk w \<le> s" "a < brk w1" "s < brk w1"
      using list_push_ok [OF Suc.prems(1) str_has_src [OF xss(2)] len Suc.prems(9,10)] by blast
    have wf1: "wf_lh w1"
      using list_push_wf [OF w1(3) _ Suc.prems(10) w1(6,7)] Suc.prems(1) by (simp add: list_at_def)
    have bl: "b < brk w" "b \<notin> fst ` set ds" "b \<noteq> a" using Suc.prems(5,7) Cons c w1(4) by auto
    have e1: "ents w1 b = Some \<lparr>e_value = Some t, e_next = hd_addr cs' None, e_prev = q\<rparr>"
      using e mod_lh_ents [OF w1(3), of b] bl by simp
    have body: "copy_body d b () w = Ok ((), True) w1" using e w1(1) by (simp add: copy_body_def list_run)
    have sub: "fst ` set cs' \<subseteq> {..<brk w}" "snd ` set cs' \<subseteq> {..<brk w}" "fst ` set cs' \<inter> fst ` set ds = {}"
      using Suc.prems(5-7) Cons by auto
    have "dseg (ents w1) (Some b) cs' None = dseg (ents w) (Some b) cs' None"
    proof (rule dseg_frame, rule ballI)
      fix y assume "y \<in> fst ` set cs'"
      then have "y \<notin> insert a (fst ` set ds)" using sub w1(4) by auto
      then show "ents w1 y = ents w y" by (rule mod_lh_ents [OF w1(3)])
    qed
    then have d1: "dseg (ents w1) (Some b) cs' None" using Suc.prems(2) Cons c by simp
    have "vals w1 cs' xss' = vals w cs' xss'"
    proof (rule vals_frame, rule ballI)
      fix y assume "y \<in> snd ` set cs'"
      then have "y \<notin> {s}" using sub w1(5) by auto
      then show "strs w1 y = strs w y" by (rule mod_lh_strs [OF w1(3)])
    qed
    then have v1: "vals w1 cs' xss'" using xss(3) by simp
    have br: "brk w \<le> brk w1" using mod_lh_brk [OF w1(3)] .
    have "\<exists>w' es. foreach_ent k (hd_addr cs' None) (copy_body d) () w1 = Ok () w' \<and>
        list_at w' d ((ds @ [(a, s)]) @ es) ((yss @ [x]) @ xss') \<and>
        mod_lh {brk w1..} ({brk w1..} \<union> fst ` set (ds @ [(a, s)])) {d} w1 w' \<and> wf_lh w' \<and> set es \<subseteq> {brk w1..} \<times> {brk w1..}"
    proof (rule Suc.IH [OF w1(2) d1 v1])
      show "length cs' < k" "length (ds @ [(a, s)]) + length cs' < 2 ^ 64" using Suc.prems(4,8) Cons by simp_all
      show "fst ` set cs' \<inter> fst ` set (ds @ [(a, s)]) = {}" using sub w1(4) by auto
      show "snd ` set cs' \<subseteq> {..<brk w1}" "fst ` set cs' \<subseteq> {..<brk w1}" using sub br by auto
      show "mem_ok w1" using Suc.prems(9) mod_lh_mem_ok [OF w1(3)] by simp
    qed (rule wf1)
    then obtain w' es where w': "foreach_ent k (hd_addr cs' None) (copy_body d) () w1 = Ok () w'"
        "list_at w' d (ds @ (a, s) # es) (yss @ x # xss')"
        "mod_lh {brk w1..} ({brk w1..} \<union> fst ` set (ds @ [(a, s)])) {d} w1 w'" "wf_lh w'" "set es \<subseteq> {brk w1..} \<times> {brk w1..}"
      by auto
    have "mod_lh {brk w..} ({brk w..} \<union> fst ` set ds) {d} w w'"
      by (rule mod_lh_mono [OF mod_lh_trans [OF w1(3) w'(3)]]) (use br w1(4,5) in auto)
    moreover have "foreach_ent (Suc k) (hd_addr cs None) (copy_body d) () w = Ok () w'"
      using Cons c foreach_ent_next [where body = "copy_body d", OF body e1, of k] w'(1) by simp
    moreover have "set ((a, s) # es) \<subseteq> {brk w..} \<times> {brk w..}" using w'(5) br w1(4,5) by auto
    ultimately show ?thesis using w'(2,4) xss(1) by blast
  qed
qed simp

lemma list_copy_ok:
  assumes "list_at w d ds yss" "list_at w s cs xss" "d \<noteq> s" "fst ` set ds \<inter> fst ` set cs = {}"
    "snd ` set ds \<inter> snd ` set cs = {}" "length cs < 2 ^ 64" "mem_ok w" "wf_lh w"
  shows "\<exists>w' es. list_copy d s w = Ok () w' \<and> list_at w' d es xss \<and> list_at w' s cs xss \<and>
    mod_lh (snd ` set ds \<union> {brk w..}) (fst ` set ds \<union> {brk w..}) {d} w w'"
proof -
  let ?w = "cleared d ds w"
  have t: "list_truncate d w = Ok () ?w" using assms(1,8) by (rule list_truncate_ok)
  have s: "list_at ?w s cs xss" by (rule list_at_frame [OF assms(2) cleared_mod]) (use assms(3-5) in auto)
  have c: "list_cells ?w s cs" "vals ?w cs xss" using s by (auto simp: list_at_def)
  have dl: "d < brk w" using list_cells_lt(1) [of w d ds] assms(1,8) by (auto simp: list_at_def)
  have wf: "wf_lh ?w" using assms(8) dl by (rule cleared_wf)
  have lt: "fst ` set cs \<subseteq> {..<brk ?w}" "snd ` set cs \<subseteq> {..<brk ?w}" "length cs < Suc (brk ?w)"
    using list_cells_lt(2,3) [OF c(1) wf] vals_lt [OF c(2)] wf by auto
  have "\<exists>w' es. foreach_ent (Suc (brk ?w)) (hd_addr cs None) (copy_body d) () ?w = Ok () w' \<and> list_at w' d ([] @ es) ([] @ xss) \<and>
      mod_lh {brk ?w..} ({brk ?w..} \<union> fst ` set ([] :: (nat \<times> nat) list)) {d} ?w w' \<and> wf_lh w' \<and> set es \<subseteq> {brk ?w..} \<times> {brk ?w..}"
    using c(1) lt wf assms(6,7)
    by (intro list_copy_loop [OF cleared_empty _ c(2) lt(3)]) (auto simp: list_cells_def)
  then obtain w' es where w': "foreach_ent (Suc (brk ?w)) (hd_addr cs None) (copy_body d) () ?w = Ok () w'"
      "list_at w' d es xss" "mod_lh {brk w..} {brk w..} {d} ?w w'"
    by auto
  have "list_copy d s w = Ok () w'"
    using t w'(1) for_each_eval [OF c(1), of "copy_body d" "()"] by (simp add: list_copy_def nc_bind_def [of "list_truncate d"] copy_body_def [abs_def])
  moreover have "list_at w' s cs xss"
    by (rule list_at_frame [OF s w'(3)]) (use assms(3) lt in auto)
  moreover have "mod_lh (snd ` set ds \<union> {brk w..}) (fst ` set ds \<union> {brk w..}) {d} w w'"
    using mod_lh_trans [OF cleared_mod w'(3)] by simp
  ultimately show ?thesis using w'(2) by blast
qed

section \<open>Automatic strings in list operations\<close>

lemma with_auto_str_run:
  "str_new None w = Ok a w1 \<Longrightarrow> body a w1 = Ok r w2 \<Longrightarrow> str_has w2 a ys \<Longrightarrow>
     with_auto_str body w = Ok r (w2\<lparr>strs := (strs w2)(a := None)\<rparr>)"
  by (simp add: with_auto_str_def nc_simps str_destroy_ok)

lemma list_cat_ok:
  assumes "list_at w l cs xss" "cread p w = Ok xs w" "length xs < STRING_MAX"
    "length cs + 1 < 2 ^ 64" "mem_ok w" "wf_lh w"
  shows "\<exists>w' a s. list_cat l p w = Ok () w' \<and> list_at w' l (cs @ [(a, s)]) (xss @ [xs]) \<and>
    mod_lh {s} (insert a (fst ` set cs)) {l} w w' \<and> brk w \<le> a \<and> brk w \<le> s \<and> a < brk w' \<and> s < brk w'"
proof -
  let ?t = "brk w"
  obtain w1 where n: "str_new None w = Ok ?t w1" and w1: "str_upd w ?t [] w1" "?t < brk w1"
    using str_new_ok [OF assms(5)] by blast
  have np: "\<not> points_into p ?t"
  proof
    assume "points_into p ?t"
    then obtain i where "p = CVal ?t i" by (cases p) auto
    moreover have "strs w ?t = None" using wf_strs_fresh [of w ?t] assms(6) by simp
    ultimately show False using assms(2) by (simp add: cread_def nc_simps)
  qed
  have "cbytes p w1 = Ok b w1" if "cbytes p w = Ok b w" for b
    using that w1(1) cbytes_frame [OF np, of w b] by (auto simp: str_upd_def)
  then have c1: "cread p w1 = Ok xs w1"
    using assms(2) cread_Ok [OF assms(2)] cread_no_NUL [OF assms(2)]
    by (auto simp: cread_def nc_simps cstr_terminated)
  obtain w2 where w2: "str_cpy ?t p w1 = Ok () w2" "str_upd w1 ?t xs w2"
    using str_cpy_ok [OF str_upd_has [OF w1(1)] c1 np assms(3)] assms(5) str_upd_mem_ok [OF w1(1)] by blast
  have u: "str_upd w ?t xs w2" using w1(1) w2(2) by (rule str_upd_trans)
  have m2: "mod_lh {?t} {} {} w w2" by (rule mod_strs_lh [OF str_upd_mod [OF u]])
  have br: "?t < brk w2" using w1(2) str_upd_frame [OF w2(2)] by simp
  have wf2: "wf_lh w2" by (rule mod_lh_wf [OF m2 assms(6)]) (use br in simp)
  have c: "list_cells w l cs" "vals w cs xss" using assms(1) by (auto simp: list_at_def)
  have sl: "?t \<notin> snd ` set cs" using vals_lt [OF c(2)] assms(6) by fastforce
  have l2: "list_at w2 l cs xss" by (rule list_at_frame [OF assms(1) m2]) (use sl in auto)
  obtain w3 a s where w3: "list_push l ?t w2 = Ok () w3" "list_at w3 l (cs @ [(a, s)]) (xss @ [xs])"
      "mod_lh {s} (insert a (fst ` set cs)) {l} w2 w3" "brk w2 \<le> a" "brk w2 \<le> s" "a < brk w3" "s < brk w3"
    using list_push_ok [OF l2 str_has_src [OF str_upd_has [OF w2(2)]] assms(4) _ wf2] assms(5) str_upd_mem_ok [OF u] by blast
  let ?w = "w3\<lparr>strs := (strs w3)(?t := None)\<rparr>"
  have "str_has w3 ?t xs" using str_upd_has [OF w2(2)] mod_lh_has [OF w3(3), of ?t xs] br w3(5) by simp
  then have "list_cat l p w = Ok () ?w"
    unfolding list_cat_def by (intro with_auto_str_run [OF n]) (simp_all add: nc_simps w2(1) w3(1))
  moreover have fr: "mod_lh {?t} {} {} w3 ?w" by (simp add: mod_lh_def)
  have "list_at ?w l (cs @ [(a, s)]) (xss @ [xs])"
    by (rule list_at_frame [OF w3(2) fr]) (use sl br w3(5) in auto)
  moreover have "mod_lh {s} (insert a (fst ` set cs)) {l} w ?w"
  proof -
    have "strs w ?t = None" using wf_strs_fresh [of w ?t] assms(6) by simp
    with mod_lh_trans [OF m2 mod_lh_trans [OF w3(3) fr]] show ?thesis
      by (simp add: mod_lh_def)
  qed
  ultimately show ?thesis using w3(4-7) br by (intro exI [of _ ?w] exI [of _ a] exI [of _ s]) simp
qed

end
