(* ===== verification/NC_Hash.thy ===== *)
theory NC_Hash
  imports NC_List_Build "HOL-Library.Word"
begin

unbundle bit_operations_syntax

text \<open>
  The hash table component (src/hash.c, src/nc_hash.h): an array of 256 buckets, each NULL or a
  list in which keys and values alternate. The slot of a key is the exclusive or of its bytes, an
  8-bit word.
\<close>

section \<open>Objects\<close>

record hash_t =
  h_bucket :: "nat option list"
  h_count :: nat

record hash_heap = list_heap +
  hashes :: "nat \<Rightarrow> hash_t option"

type_synonym ('a, 'z) hnc = "'z hash_heap_scheme \<Rightarrow> ('a, 'z hash_heap_scheme) outcome"

definition SIZEOF_HASH_T :: nat where "SIZEOF_HASH_T = 2056"

definition get_hash :: "nat \<Rightarrow> (hash_t, 'z) hnc" where
  "get_hash h w = (case hashes w h of None \<Rightarrow> Fault BadAddr | Some x \<Rightarrow> Ok x w)"

definition upd_hash :: "nat \<Rightarrow> (hash_t \<Rightarrow> hash_t) \<Rightarrow> (unit, 'z) hnc" where
  "upd_hash h f w = (case hashes w h of None \<Rightarrow> Fault BadAddr
     | Some x \<Rightarrow> Ok () (w\<lparr>hashes := (hashes w)(h \<mapsto> f x)\<rparr>))"

definition free_hash :: "nat \<Rightarrow> (unit, 'z) hnc" where
  "free_hash h w = (case hashes w h of None \<Rightarrow> Fault BadFree
     | Some _ \<Rightarrow> Ok () (w\<lparr>hashes := (hashes w)(h := None)\<rparr>))"

text \<open>\<^verbatim>\<open>hash->bucket[slot]\<close>\<close>

definition bucket :: "nat \<Rightarrow> nat \<Rightarrow> (nat option, 'z) hnc" where
  "bucket h slot = nc_bind (get_hash h) (\<lambda>x.
     if slot < length (h_bucket x) then nc_return (h_bucket x ! slot) else nc_fault OutOfBounds)"

definition empty_hash :: hash_t where
  "empty_hash = \<lparr>h_bucket = replicate 256 None, h_count = 0\<rparr>"

text \<open>\<^verbatim>\<open>for (i = a; i < a + n; i++) body\<close>\<close>

primrec for_range :: "nat \<Rightarrow> nat \<Rightarrow> (nat \<Rightarrow> (unit, 'z) hnc) \<Rightarrow> (unit, 'z) hnc" where
  "for_range a 0 body = nc_return ()"
| "for_range a (Suc n) body = nc_bind (body a) (\<lambda>_. for_range (Suc a) n body)"

section \<open>The hash function\<close>

definition byte_of :: "char \<Rightarrow> 8 word" where
  "byte_of c = word_of_nat (of_char c)"

fun hash_xor :: "8 word \<Rightarrow> string \<Rightarrow> 8 word" where
  "hash_xor x [] = x"
| "hash_xor x (c # cs) = hash_xor (x XOR byte_of c) cs"

definition hash_function :: "cptr \<Rightarrow> (nat, 'z) nc" where
  "hash_function key = nc_bind (cread key) (\<lambda>cs. nc_return (unat (hash_xor 0 cs)))"

section \<open>Operations\<close>

text \<open>
  The walk over a bucket visits every entry, keys and values alike, and stops at the first whose
  text is the key.
\<close>

definition search_body :: "cptr \<Rightarrow> nat \<Rightarrow> nat option \<Rightarrow> (nat option \<times> bool, 'z) lnc" where
  "search_body key cur acc =
     nc_bind (get_ent cur) (\<lambda>e. nc_bind (deref (e_value e)) (\<lambda>v.
     nc_catch (str_cmp v key) (\<lambda>_. nc_return (Some cur, False)) (\<lambda>_. nc_return (None, True))))"

definition hash_entry_search :: "nat \<Rightarrow> cptr \<Rightarrow> (nat \<times> nat, 'z) hnc" where
  "hash_entry_search hash key =
     nc_bind (hash_function key) (\<lambda>slot.
     nc_bind (bucket hash slot) (\<lambda>b.
     case b of None \<Rightarrow> nc_throw
     | Some l \<Rightarrow> nc_bind (for_each l (search_body key) None) (\<lambda>found.
         case found of None \<Rightarrow> nc_throw | Some ent \<Rightarrow> nc_return (l, ent))))"

definition hash_delete :: "nat \<Rightarrow> cptr \<Rightarrow> (unit, 'z) hnc" where
  "hash_delete hash key =
     nc_catch (hash_entry_search hash key)
       (\<lambda>(l, ent).
          nc_bind (get_ent ent) (\<lambda>e.
          nc_bind (deref (e_next e)) (\<lambda>n.
          nc_bind (list_entry_delete l n) (\<lambda>_.
          nc_bind (list_entry_delete l ent) (\<lambda>_.
          upd_hash hash (\<lambda>x. x\<lparr>h_count := sz_dec (h_count x)\<rparr>))))))
       (\<lambda>_. nc_throw)"

definition hash_get :: "nat \<Rightarrow> nat \<Rightarrow> cptr \<Rightarrow> (unit, 'z) hnc" where
  "hash_get dest hash key =
     nc_catch (hash_entry_search hash key)
       (\<lambda>(l, ent).
          nc_bind (get_ent ent) (\<lambda>e.
          nc_bind (deref (e_next e)) (\<lambda>n.
          nc_bind (get_ent n) (\<lambda>e'.
          nc_bind (deref (e_value e')) (\<lambda>v.
          str_copy dest v)))))
       (\<lambda>_. nc_throw)"

text \<open>\<^verbatim>\<open>hash->bucket[slot]\<close> in \<^verbatim>\<open>hash_set\<close>, created when it is NULL.\<close>

definition hash_set_bucket :: "nat \<Rightarrow> nat \<Rightarrow> (nat, 'z) hnc" where
  "hash_set_bucket hash slot =
     nc_bind (bucket hash slot) (\<lambda>b.
     case b of
       Some l \<Rightarrow> nc_return l
     | None \<Rightarrow> nc_bind (list_new None) (\<lambda>l.
         nc_bind (upd_hash hash (\<lambda>x. x\<lparr>h_bucket := (h_bucket x)[slot := Some l]\<rparr>)) (\<lambda>_.
         nc_return l)))"

definition hash_set :: "nat \<Rightarrow> cptr \<Rightarrow> nat \<Rightarrow> (unit, 'z) hnc" where
  "hash_set hash key value = with_local_str EMPTY_STRING (\<lambda>str.
     nc_bind (hash_function key) (\<lambda>slot.
     nc_bind (hash_set_bucket hash slot) (\<lambda>l.
     nc_bind (for_each l (search_body key) None) (\<lambda>found.
     case found of
       Some cur \<Rightarrow>
         nc_bind (get_ent cur) (\<lambda>e.
         nc_bind (deref (e_next e)) (\<lambda>n.
         nc_bind (get_ent n) (\<lambda>e'.
         nc_bind (deref (e_value e')) (\<lambda>v.
         str_copy v value))))
     | None \<Rightarrow>
         nc_bind (str_alias str key) (\<lambda>_.
         nc_bind (list_push l str) (\<lambda>_.
         nc_catch (list_push l value)
           (\<lambda>_. upd_hash hash (\<lambda>x. x\<lparr>h_count := sz (h_count x + 1)\<rparr>))
           (\<lambda>_. nc_bind (get_list l) (\<lambda>hd.
             nc_bind (deref (l_tail hd)) (\<lambda>t.
             nc_bind (list_entry_delete l t) (\<lambda>_. nc_throw))))))))))"

definition hash_new :: "nat option \<Rightarrow> (nat, 'z) hnc" where
  "hash_new dest w =
     (if dest \<noteq> None then Fail (-1) w
      else if malloc_ok w (brk w) SIZEOF_HASH_T
      then Ok (brk w) (w\<lparr>hashes := (hashes w)(brk w \<mapsto> empty_hash), brk := Suc (brk w)\<rparr>)
      else Fail (-1) (w\<lparr>brk := Suc (brk w)\<rparr>))"

definition hash_truncate :: "nat \<Rightarrow> (unit, 'z) hnc" where
  "hash_truncate hash =
     nc_bind (for_range 0 256 (\<lambda>i. nc_bind (bucket hash i) (\<lambda>b.
       case b of None \<Rightarrow> nc_return () | Some l \<Rightarrow> list_truncate l))) (\<lambda>_.
     upd_hash hash (\<lambda>x. x\<lparr>h_count := 0\<rparr>))"

definition hash_destroy :: "nat option \<Rightarrow> (unit, 'z) hnc" where
  "hash_destroy hash_ref =
     nc_bind (deref hash_ref) (\<lambda>hash.
     nc_bind (for_range 0 256 (\<lambda>i. nc_bind (bucket hash i) (\<lambda>b.
       case b of None \<Rightarrow> nc_return ()
       | Some l \<Rightarrow> nc_bind (list_destroy (Some l)) (\<lambda>_.
           upd_hash hash (\<lambda>x. x\<lparr>h_bucket := (h_bucket x)[i := None]\<rparr>))))) (\<lambda>_.
     free_hash hash))"

definition hash_copy :: "nat \<Rightarrow> nat \<Rightarrow> (unit, 'z) hnc" where
  "hash_copy dest src =
     nc_bind (upd_hash dest (\<lambda>x. x\<lparr>h_bucket := replicate 256 None\<rparr>)) (\<lambda>_.
     nc_bind (for_range 0 256 (\<lambda>i. nc_bind (bucket src i) (\<lambda>b.
       case b of None \<Rightarrow> nc_return ()
       | Some l \<Rightarrow> nc_bind (bucket dest i) (\<lambda>d. nc_bind (deref d) (\<lambda>d. list_copy d l))))) (\<lambda>_.
     nc_bind (get_hash src) (\<lambda>s. upd_hash dest (\<lambda>x. x\<lparr>h_count := h_count s\<rparr>))))"

text \<open>
  \<^verbatim>\<open>for (ent = head; ent; ent = ent->next->next) list_push(dest, ...)\<close>, pushing the entry itself
  (\<open>False\<close>, a key) or the one after it (\<open>True\<close>, a value).
\<close>

primrec hash_pairs_loop :: "bool \<Rightarrow> nat \<Rightarrow> nat option \<Rightarrow> nat \<Rightarrow> (unit, 'z) lnc" where
  "hash_pairs_loop vs 0 ent dest = nc_fault Diverge"
| "hash_pairs_loop vs (Suc k) ent dest =
     (case ent of None \<Rightarrow> nc_return ()
      | Some a \<Rightarrow> nc_bind (get_ent a) (\<lambda>e.
          nc_bind (if vs then nc_bind (deref (e_next e)) get_ent else nc_return e) (\<lambda>x.
          nc_bind (deref (e_value x)) (\<lambda>v.
          nc_bind (list_push dest v) (\<lambda>_.
          nc_bind (get_ent a) (\<lambda>e.
          nc_bind (deref (e_next e)) (\<lambda>n.
          nc_bind (get_ent n) (\<lambda>e'.
          hash_pairs_loop vs k (e_next e') dest))))))))"

definition hash_get_pairs :: "bool \<Rightarrow> nat \<Rightarrow> nat \<Rightarrow> (unit, 'z) hnc" where
  "hash_get_pairs vs dest hash =
     nc_bind (list_truncate dest) (\<lambda>_.
     for_range 0 256 (\<lambda>i. nc_bind (bucket hash i) (\<lambda>b.
       case b of None \<Rightarrow> nc_return ()
       | Some l \<Rightarrow> (\<lambda>w. nc_bind (get_list l) (\<lambda>h. hash_pairs_loop vs (Suc (brk w)) (l_head h) dest) w))))"

definition hash_get_keys :: "nat \<Rightarrow> nat \<Rightarrow> (unit, 'z) hnc" where
  "hash_get_keys dest hash = hash_get_pairs False dest hash"

definition hash_get_values :: "nat \<Rightarrow> nat \<Rightarrow> (unit, 'z) hnc" where
  "hash_get_values dest hash = hash_get_pairs True dest hash"

definition hash_key_exists :: "nat \<Rightarrow> cptr \<Rightarrow> (bool, 'z) hnc" where
  "hash_key_exists hash key = with_auto_str (\<lambda>dest.
     nc_catch (hash_get dest hash key) (\<lambda>_. nc_return True)
       (\<lambda>rc. nc_return (if rc < 0 then False else True)))"

definition hash_value_exists :: "nat \<Rightarrow> cptr \<Rightarrow> (bool, 'z) hnc" where
  "hash_value_exists hash value = with_auto_list (\<lambda>values.
     nc_bind (hash_get_values values hash) (\<lambda>_. list_find values value))"

text \<open>
  \<^verbatim>\<open>hash_from_char\<close>: the arguments up to the terminating NULL. The first value is read twice, before
  the loop and again at its start.
\<close>

fun hash_from_char_loop :: "nat \<Rightarrow> nat \<Rightarrow> cptr \<Rightarrow> cptr list \<Rightarrow> (unit, 'z) hnc" where
  "hash_from_char_loop hash str key [] = nc_throw"
| "hash_from_char_loop hash str key [val] =
     nc_bind (str_alias str val) (\<lambda>_. nc_bind (hash_set hash key str) (\<lambda>_. nc_return ()))"
| "hash_from_char_loop hash str key (val # key' # args) =
     nc_bind (str_alias str val) (\<lambda>_. nc_bind (hash_set hash key str) (\<lambda>_.
     hash_from_char_loop hash str key' args))"

definition hash_from_char :: "nat \<Rightarrow> cptr list \<Rightarrow> (unit, 'z) hnc" where
  "hash_from_char hash args = with_local_str EMPTY_STRING (\<lambda>str.
     nc_bind (hash_truncate hash) (\<lambda>_.
     case args of
       [] \<Rightarrow> nc_throw
     | [_] \<Rightarrow> nc_throw
     | key # val # rest \<Rightarrow> hash_from_char_loop hash str key rest))"

text \<open>
  \<^verbatim>\<open>hash_from_list\<close>: the variable \<^verbatim>\<open>key\<close> is declared without an initialiser, so the compiler
  allocates a string for it on entry and destroys on exit whatever it points to then. The loop
  returns the last value of the variable.
\<close>

primrec hash_from_list_loop :: "nat \<Rightarrow> nat \<Rightarrow> nat option \<Rightarrow> nat option \<Rightarrow> (nat option, 'z) hnc" where
  "hash_from_list_loop 0 hash cur key = nc_fault Diverge"
| "hash_from_list_loop (Suc k) hash cur key =
     (case cur of None \<Rightarrow> nc_return key
      | Some a \<Rightarrow> nc_bind (get_ent a) (\<lambda>e.
          if e_value e = None \<or> e_next e = None then nc_throw
          else nc_bind (deref (e_value e)) (\<lambda>kv.
            nc_bind (deref (e_next e)) (\<lambda>n.
            nc_bind (get_ent n) (\<lambda>e'.
            case e_value e' of None \<Rightarrow> nc_throw
            | Some val \<Rightarrow> nc_bind (hash_set hash (CVal kv 0) val) (\<lambda>_.
                nc_bind (get_ent n) (\<lambda>e''.
                hash_from_list_loop k hash (e_next e'') (Some kv))))))))"

definition hash_from_list :: "nat \<Rightarrow> nat \<Rightarrow> (unit, 'z) hnc" where
  "hash_from_list hash l w =
     nc_bind (str_new None) (\<lambda>key.
     nc_bind (get_list l) (\<lambda>h.
     if l_count h mod 2 \<noteq> 0 then nc_throw
     else nc_bind (hash_from_list_loop (Suc (brk w)) hash (l_head h) (Some key)) (\<lambda>key'.
       str_destroy key'))) w"

end
