(* ===== verification/NC_Hash_Laws.thy ===== *)
theory NC_Hash_Laws
  imports NC_Hash
begin

text \<open>
  The hash table as a finite map. \<open>hash_rep w h B P n\<close> describes the memory: bucket \<open>i\<close> is the list
  \<open>B i\<close> and holds the pairs \<open>P i\<close>, key and value in turn. \<open>pairs_ok\<close> is the invariant under which the
  walk over a bucket finds keys only: every key is in its slot once, and no value has the slot of
  its own key (a value that has it can be taken for a key, see \<open>NC_Hash_Props\<close>).
\<close>

section \<open>Slots and pairs\<close>

definition hslot :: "string \<Rightarrow> nat" where
  "hslot k = unat (hash_xor 0 k)"

lemma hslot_lt [simp]: "hslot k < 256"
  using unsigned_less [of "hash_xor 0 k"] by (simp add: hslot_def)

lemma hash_function_eval: "cread key w = Ok k w \<Longrightarrow> hash_function key w = Ok (hslot k) w"
  by (simp add: hash_function_def nc_simps hslot_def)

fun flat :: "(string \<times> string) list \<Rightarrow> string list" where
  "flat [] = []"
| "flat ((k, v) # ps) = k # v # flat ps"

lemma flat_append [simp]: "flat (ps @ qs) = flat ps @ flat qs"
  by (induction ps rule: flat.induct) auto

lemma length_flat [simp]: "length (flat ps) = 2 * length ps"
  by (induction ps rule: flat.induct) auto

lemma set_flat: "set (flat ps) = fst ` set ps \<union> snd ` set ps"
  by (induction ps rule: flat.induct) auto

definition pairs_ok :: "(nat \<Rightarrow> (string \<times> string) list) \<Rightarrow> bool" where
  "pairs_ok P \<longleftrightarrow> (\<forall>i<256. distinct (map fst (P i)) \<and>
     (\<forall>(k, v)\<in>set (P i). hslot k = i \<and> hslot v \<noteq> i \<and> NUL \<notin> set k \<and> NUL \<notin> set v))"

definition hlookup :: "(nat \<Rightarrow> (string \<times> string) list) \<Rightarrow> string \<Rightarrow> string option" where
  "hlookup P k = map_of (P (hslot k)) k"

lemma pairs_ok_values: "pairs_ok P \<Longrightarrow> i < 256 \<Longrightarrow> x \<in> set (P i) \<Longrightarrow> hslot (snd x) \<noteq> i"
  unfolding pairs_ok_def by (cases x) fastforce

lemma pairs_ok_NUL: "pairs_ok P \<Longrightarrow> i < 256 \<Longrightarrow> xs \<in> set (flat (P i)) \<Longrightarrow> NUL \<notin> set xs"
  by (fastforce simp: pairs_ok_def set_flat)

fun first_idx :: "string \<Rightarrow> string list \<Rightarrow> nat option" where
  "first_idx k [] = None"
| "first_idx k (x # xs) = (if x = k then Some 0 else map_option Suc (first_idx k xs))"

lemma first_idx_append:
  "k \<notin> set xs \<Longrightarrow> first_idx k (xs @ ys) = map_option (\<lambda>i. length xs + i) (first_idx k ys)"
  by (cases "first_idx k ys"; induction xs) auto

lemma first_idx_None: "first_idx k xs = None \<longleftrightarrow> k \<notin> set xs"
  by (induction xs) auto

lemma pairs_ok_slot:
  assumes "pairs_ok P" "hlookup P k = Some v"
  obtains ps qs where "P (hslot k) = ps @ (k, v) # qs" "k \<notin> fst ` set ps" "k \<notin> fst ` set qs"
    "first_idx k (flat (P (hslot k))) = Some (2 * length ps)"
proof -
  have "(k, v) \<in> set (P (hslot k))" using assms(2) by (auto simp: hlookup_def dest: map_of_SomeD)
  then obtain ps qs where p: "P (hslot k) = ps @ (k, v) # qs" by (metis split_list)
  have ok: "distinct (map fst (P (hslot k)))" "\<forall>x\<in>set (P (hslot k)). hslot (snd x) \<noteq> hslot k"
    using assms(1) pairs_ok_values [OF assms(1), of "hslot k"] by (simp_all add: pairs_ok_def)
  have k: "k \<notin> fst ` set ps" "k \<notin> fst ` set qs" using ok(1) p by auto
  have "k \<notin> snd ` set ps" using ok(2) p by force
  with k have "k \<notin> set (flat ps)" by (simp add: set_flat)
  then have "first_idx k (flat (P (hslot k))) = Some (2 * length ps)"
    using p by (simp add: first_idx_append)
  with p k that show ?thesis by blast
qed

lemma pairs_ok_missing:
  assumes "pairs_ok P" "hlookup P k = None"
  shows "first_idx k (flat (P (hslot k))) = None"
proof -
  have "\<forall>x\<in>set (P (hslot k)). hslot (snd x) \<noteq> hslot k" using pairs_ok_values [OF assms(1)] by simp
  then have "k \<notin> snd ` set (P (hslot k))" by auto
  moreover have "k \<notin> fst ` set (P (hslot k))" using assms(2) by (simp add: hlookup_def map_of_eq_None_iff)
  ultimately show ?thesis by (simp add: first_idx_None set_flat)
qed

section \<open>The walk over a bucket\<close>

lemma search_loop:
  assumes "cread key w = Ok k w"
  shows "dseg (ents w) q cs None \<Longrightarrow> vals w cs xss \<Longrightarrow> length cs < n \<Longrightarrow> \<forall>xs\<in>set xss. NUL \<notin> set xs \<Longrightarrow>
     foreach_ent n (hd_addr cs None) (search_body key) None w
       = Ok (map_option (\<lambda>j. fst (cs ! j)) (first_idx k xss)) w"
proof (induction n arbitrary: q cs xss)
  case (Suc n)
  show ?case
  proof (cases cs)
    case Nil
    then show ?thesis using Suc.prems by (simp add: foreach_ent_None)
  next
    case (Cons c ds)
    obtain a s where c: "c = (a, s)" by (cases c)
    obtain x yss where xss: "xss = x # yss" "str_has w s x" "vals w ds yss"
      using Suc.prems(2) Cons c by (auto simp: vals_Cons)
    have e: "ents w a = Some \<lparr>e_value = Some s, e_next = hd_addr ds None, e_prev = q\<rparr>"
      using Suc.prems(1) Cons c by simp
    have "NUL \<notin> set x" using Suc.prems(4) xss(1) by simp
    note cmp = str_cmp_eval [OF xss(2) this assms]
    have b: "search_body key a None w = Ok (if x = k then Some a else None, x \<noteq> k) w"
      using e cmp by (simp add: search_body_def list_run)
    show ?thesis
    proof (cases "x = k")
      case True
      then show ?thesis using b Cons c xss(1) by (simp add: foreach_ent_break)
    next
      case False
      then have "foreach_ent (Suc n) (Some a) (search_body key) None w
          = foreach_ent n (hd_addr ds None) (search_body key) None w"
        using foreach_ent_next [OF _ e, of "search_body key" None w None n] b by simp
      also have "\<dots> = Ok (map_option (\<lambda>j. fst (ds ! j)) (first_idx k yss)) w"
        using Suc.prems Cons c xss by (intro Suc.IH [of "Some a"]) auto
      finally show ?thesis using False Cons c xss(1) by (simp add: option.map_comp comp_def)
    qed
  qed
qed simp

lemma search_ok:
  assumes "list_at w l cs xss" "cread key w = Ok k w" "\<forall>xs\<in>set xss. NUL \<notin> set xs" "wf_lh w"
  shows "for_each l (search_body key) None w = Ok (map_option (\<lambda>j. fst (cs ! j)) (first_idx k xss)) w"
proof -
  have c: "list_cells w l cs" "vals w cs xss" using assms(1) by (auto simp: list_at_def)
  have "length cs < Suc (brk w)" using list_cells_lt(3) [OF c(1) assms(4)] by simp
  moreover have "dseg (ents w) None cs None" using c(1) by (simp add: list_cells_def)
  ultimately show ?thesis
    using search_loop [OF assms(2) _ c(2) _ assms(3), of None "Suc (brk w)"]
      for_each_eval [OF c(1), of "search_body key" None] by simp
qed

section \<open>The table in memory\<close>

definition mod_hh ::
    "nat set \<Rightarrow> nat set \<Rightarrow> nat set \<Rightarrow> nat set \<Rightarrow> 'z hash_heap_scheme \<Rightarrow> 'z hash_heap_scheme \<Rightarrow> bool" where
  "mod_hh S E L H w w' \<longleftrightarrow> malloc_ok w' = malloc_ok w \<and> hash_heap.more w' = hash_heap.more w \<and> brk w \<le> brk w' \<and>
     (\<forall>a. a \<notin> S \<longrightarrow> strs w' a = strs w a) \<and> (\<forall>a. a \<notin> E \<longrightarrow> ents w' a = ents w a) \<and>
     (\<forall>a. a \<notin> L \<longrightarrow> lists w' a = lists w a) \<and> (\<forall>a. a \<notin> H \<longrightarrow> hashes w' a = hashes w a)"

lemma more_hashes: "list_heap.more w' = list_heap.more w \<Longrightarrow> hashes w' = hashes w \<and> hash_heap.more w' = hash_heap.more w"
  by (cases w, cases w') simp

lemma mod_lh_hh: "mod_lh S E L w w' \<Longrightarrow> mod_hh S E L {} w w'"
  using more_hashes [of w' w] by (simp add: mod_lh_def mod_hh_def)

lemma mod_lh_hashes: "mod_lh S E L w w' \<Longrightarrow> hashes w' = hashes w"
  using more_hashes [of w' w] by (simp add: mod_lh_def)

lemma mod_hh_trans:
  "mod_hh S E L H w w1 \<Longrightarrow> mod_hh S' E' L' H' w1 w2 \<Longrightarrow> mod_hh (S \<union> S') (E \<union> E') (L \<union> L') (H \<union> H') w w2"
  by (auto simp: mod_hh_def)

lemma mod_hh_mono:
  "mod_hh S E L H w w' \<Longrightarrow> S \<subseteq> S' \<Longrightarrow> E \<subseteq> E' \<Longrightarrow> L \<subseteq> L' \<Longrightarrow> H \<subseteq> H' \<Longrightarrow> mod_hh S' E' L' H' w w'"
  unfolding mod_hh_def by blast

lemma mod_hh_refl [simp]: "mod_hh S E L H w w"
  by (simp add: mod_hh_def)

type_synonym buckets = "nat \<Rightarrow> (nat \<times> (nat \<times> nat) list) option"

definition slot_lists :: "buckets \<Rightarrow> nat \<Rightarrow> nat set" where
  "slot_lists B i = (case B i of None \<Rightarrow> {} | Some (l, cs) \<Rightarrow> {l})"

definition slot_ents :: "buckets \<Rightarrow> nat \<Rightarrow> nat set" where
  "slot_ents B i = (case B i of None \<Rightarrow> {} | Some (l, cs) \<Rightarrow> fst ` set cs)"

definition slot_strs :: "buckets \<Rightarrow> nat \<Rightarrow> nat set" where
  "slot_strs B i = (case B i of None \<Rightarrow> {} | Some (l, cs) \<Rightarrow> snd ` set cs)"

definition separate :: "buckets \<Rightarrow> bool" where
  "separate B \<longleftrightarrow> (\<forall>i<256. \<forall>j<256. i \<noteq> j \<longrightarrow> slot_lists B i \<inter> slot_lists B j = {} \<and>
     slot_ents B i \<inter> slot_ents B j = {} \<and> slot_strs B i \<inter> slot_strs B j = {})"

definition hash_hdr :: "buckets \<Rightarrow> nat \<Rightarrow> hash_t" where
  "hash_hdr B n = \<lparr>h_bucket = map (\<lambda>i. map_option fst (B i)) [0..<256], h_count = n\<rparr>"

definition slot_at :: "'z list_heap_scheme \<Rightarrow> buckets \<Rightarrow> (nat \<Rightarrow> (string \<times> string) list) \<Rightarrow> nat \<Rightarrow> bool" where
  "slot_at w B P i = (case B i of None \<Rightarrow> P i = [] | Some (l, cs) \<Rightarrow> list_at w l cs (flat (P i)))"

definition hash_rep ::
    "'z hash_heap_scheme \<Rightarrow> nat \<Rightarrow> buckets \<Rightarrow> (nat \<Rightarrow> (string \<times> string) list) \<Rightarrow> nat \<Rightarrow> bool" where
  "hash_rep w h B P n \<longleftrightarrow> hashes w h = Some (hash_hdr B n) \<and> (\<forall>i<256. slot_at w B P i) \<and> separate B"

lemma hash_hdr_simps [simp]:
  "h_count (hash_hdr B n) = n" "length (h_bucket (hash_hdr B n)) = 256"
  "i < 256 \<Longrightarrow> h_bucket (hash_hdr B n) ! i = map_option fst (B i)"
  by (simp_all add: hash_hdr_def)

lemma bucket_eval: "hashes w h = Some (hash_hdr B n) \<Longrightarrow> i < 256 \<Longrightarrow> bucket h i w = Ok (map_option fst (B i)) w"
  by (simp add: bucket_def get_hash_def nc_simps)

lemma slot_at_lt:
  assumes "slot_at w B P i" "wf_lh w"
  shows "slot_lists B i \<subseteq> {..<brk w}" "slot_ents B i \<subseteq> {..<brk w}" "slot_strs B i \<subseteq> {..<brk w}"
proof -
  have c: "list_cells w l cs" "vals w cs (flat (P i))" if "B i = Some (l, cs)" for l cs
    using assms(1) that by (auto simp: slot_at_def list_at_def)
  have v: "s < brk w" if "B i = Some (l, cs)" "s \<in> snd ` set cs" for l cs s
    using vals_lt [OF c(2) [OF that(1)] _ that(2)] assms(2) by simp
  show "slot_lists B i \<subseteq> {..<brk w}" "slot_ents B i \<subseteq> {..<brk w}" "slot_strs B i \<subseteq> {..<brk w}"
    using list_cells_lt(1,2) [OF c(1) assms(2)] v
    by (fastforce simp: slot_lists_def slot_ents_def slot_strs_def split: option.splits)+
qed

lemma slot_at_frame:
  assumes "slot_at w B P i" "mod_hh S E L H w w'" "slot_lists B i \<inter> L = {}" "slot_ents B i \<inter> E = {}"
    "slot_strs B i \<inter> S = {}"
  shows "slot_at w' B P i"
proof (cases "B i")
  case (Some b)
  obtain l cs where b: "b = (l, cs)" by (cases b)
  have l: "list_at w l cs (flat (P i))" using assms(1) Some b by (simp add: slot_at_def)
  have "vals w' cs (flat (P i)) = vals w cs (flat (P i))"
    using assms(2,5) Some b by (intro vals_frame) (auto simp: mod_hh_def slot_strs_def)
  moreover have "dseg (ents w') None cs None = dseg (ents w) None cs None"
    using assms(2,4) Some b by (intro dseg_frame) (auto simp: mod_hh_def slot_ents_def)
  moreover have "lists w' l = lists w l" using assms(2,3) Some b by (auto simp: mod_hh_def slot_lists_def)
  ultimately show ?thesis using l Some b by (simp add: slot_at_def list_at_def list_cells_def)
qed (use assms(1) in \<open>simp add: slot_at_def\<close>)

text \<open>An operation that works on one bucket (and on fresh memory) leaves the other buckets alone.\<close>

lemma hash_rep_update:
  assumes "hash_rep w h B P n" "wf_lh w" "i < 256" "mod_hh S E L {h} w w'"
    and S: "S \<subseteq> slot_strs B i \<union> {brk w..}" and E: "E \<subseteq> slot_ents B i \<union> {brk w..}" and L: "L \<subseteq> slot_lists B i \<union> {brk w..}"
    and B': "B' = B(i \<mapsto> (l, cs))" and P': "P' = P(i := ps)"
    and hdr: "hashes w' h = Some (hash_hdr B' n')" and new: "list_at w' l cs (flat ps)"
    and fp: "l \<in> slot_lists B i \<union> {brk w..}" "fst ` set cs \<subseteq> slot_ents B i \<union> {brk w..}" "snd ` set cs \<subseteq> slot_strs B i \<union> {brk w..}"
  shows "hash_rep w' h B' P' n'"
proof -
  have at: "slot_at w B P j" if "j < 256" for j using assms(1) that by (simp add: hash_rep_def)
  have sep: "slot_lists B i \<inter> slot_lists B j = {}" "slot_ents B i \<inter> slot_ents B j = {}" "slot_strs B i \<inter> slot_strs B j = {}"
    if "j < 256" "j \<noteq> i" for j
    using assms(1,3) that unfolding hash_rep_def separate_def by blast+
  have other: "slot_lists B' j = slot_lists B j" "slot_ents B' j = slot_ents B j" "slot_strs B' j = slot_strs B j" if "j \<noteq> i" for j
    using that by (simp_all add: B' slot_lists_def slot_ents_def slot_strs_def)
  have own: "slot_lists B' i = {l}" "slot_ents B' i = fst ` set cs" "slot_strs B' i = snd ` set cs"
    by (simp_all add: B' slot_lists_def slot_ents_def slot_strs_def)
  have "slot_at w' B' P' j" if j: "j < 256" for j
  proof (cases "j = i")
    case True
    then show ?thesis using new by (simp add: slot_at_def B' P')
  next
    case False
    note lt = slot_at_lt [OF at [OF j] assms(2)]
    have "slot_at w' B P j"
      by (rule slot_at_frame [OF at [OF j] assms(4)]) (use S E L sep [OF j False] lt in fastforce)+
    then show ?thesis using False by (auto simp: slot_at_def B' P' split: option.splits)
  qed
  moreover have dis: "slot_lists B' i \<inter> slot_lists B' j = {} \<and> slot_ents B' i \<inter> slot_ents B' j = {} \<and> slot_strs B' i \<inter> slot_strs B' j = {}"
    if j: "j < 256" "j \<noteq> i" for j
    unfolding own other [OF j(2)] using fp sep [OF j] slot_at_lt [OF at [OF j(1)] assms(2)] by fastforce
  have "separate B'"
    unfolding separate_def
  proof (intro allI impI)
    fix a b :: nat assume a: "a < 256" "b < 256" "a \<noteq> b"
    consider "a = i" | "b = i" | "a \<noteq> i" "b \<noteq> i" by blast
    then show "slot_lists B' a \<inter> slot_lists B' b = {} \<and> slot_ents B' a \<inter> slot_ents B' b = {} \<and> slot_strs B' a \<inter> slot_strs B' b = {}"
    proof cases
      case 3
      have "slot_lists B a \<inter> slot_lists B b = {} \<and> slot_ents B a \<inter> slot_ents B b = {} \<and> slot_strs B a \<inter> slot_strs B b = {}"
        using assms(1) a unfolding hash_rep_def separate_def by blast
      with 3 show ?thesis by (simp add: other)
    qed (use a dis in blast)+
  qed
  ultimately show ?thesis using hdr by (simp add: hash_rep_def)
qed

end
