(* ===== verification/NC_Hash_Ops.thy ===== *)
theory NC_Hash_Ops
  imports NC_Hash_Laws "HOL-Library.AList"
begin

text \<open>
  What \<^verbatim>\<open>hash_get\<close>, \<^verbatim>\<open>hash_set\<close>, \<^verbatim>\<open>hash_delete\<close> and the constructors do to the table, in terms of the
  association lists of the buckets.
\<close>

section \<open>Association lists\<close>

lemma update_present: "k \<notin> fst ` set ps \<Longrightarrow> AList.update k v' (ps @ (k, v) # qs) = ps @ (k, v') # qs"
  by (induction ps) auto

lemma update_absent: "k \<notin> fst ` set ps \<Longrightarrow> AList.update k v ps = ps @ [(k, v)]"
  by (induction ps) auto

lemma delete_present:
  "k \<notin> fst ` set ps \<Longrightarrow> k \<notin> fst ` set qs \<Longrightarrow> AList.delete k (ps @ (k, v) # qs) = ps @ qs"
  by (simp add: AList.delete_eq) (metis AList.delete_eq AList.delete_id)

definition put_pair :: "string \<Rightarrow> string \<Rightarrow> (nat \<Rightarrow> (string \<times> string) list) \<Rightarrow> nat \<Rightarrow> (string \<times> string) list" where
  "put_pair k v P = P(hslot k := AList.update k v (P (hslot k)))"

definition del_pair :: "string \<Rightarrow> (nat \<Rightarrow> (string \<times> string) list) \<Rightarrow> nat \<Rightarrow> (string \<times> string) list" where
  "del_pair k P = P(hslot k := AList.delete k (P (hslot k)))"

lemma hlookup_put: "hlookup (put_pair k v P) = (hlookup P)(k \<mapsto> v)"
  by (auto simp: hlookup_def put_pair_def update_conv fun_eq_iff)

lemma hlookup_del: "hlookup (del_pair k P) = (hlookup P)(k := None)"
  by (auto simp: hlookup_def del_pair_def delete_conv fun_eq_iff)

lemma hlookup_empty: "hlookup (\<lambda>_. []) = Map.empty"
  by (simp add: hlookup_def fun_eq_iff)

lemma pairs_ok_empty: "pairs_ok (\<lambda>_. [])"
  by (simp add: pairs_ok_def)

lemma pairs_ok_put:
  assumes "pairs_ok P" "NUL \<notin> set k" "NUL \<notin> set v" "hslot v \<noteq> hslot k"
  shows "pairs_ok (put_pair k v P)"
  unfolding pairs_ok_def
proof (intro allI impI conjI)
  fix i :: nat assume i: "i < 256"
  have old: "distinct (map fst (P i))" "\<forall>(k, v)\<in>set (P i). hslot k = i \<and> hslot v \<noteq> i \<and> NUL \<notin> set k \<and> NUL \<notin> set v"
    using assms(1) i by (auto simp: pairs_ok_def)
  show "distinct (map fst (put_pair k v P i))"
    using old(1) distinct_update [of "P i" k v] by (auto simp: put_pair_def)
  have sub: "set (AList.update k v ps) \<subseteq> insert (k, v) (set ps)" for ps :: "(string \<times> string) list"
    by (induction ps) auto
  show "\<forall>(k, v)\<in>set (put_pair k v P i). hslot k = i \<and> hslot v \<noteq> i \<and> NUL \<notin> set k \<and> NUL \<notin> set v"
  proof (cases "i = hslot k")
    case True
    then have "set (put_pair k v P i) \<subseteq> insert (k, v) (set (P i))" using sub by (simp add: put_pair_def)
    with old(2) assms(2-4) True show ?thesis by blast
  qed (use old(2) in \<open>simp add: put_pair_def\<close>)
qed

lemma pairs_ok_del: "pairs_ok P \<Longrightarrow> pairs_ok (del_pair k P)"
  by (fastforce simp: pairs_ok_def del_pair_def AList.delete_eq distinct_map_filter)

section \<open>Finding an entry\<close>

lemma hash_search_found:
  assumes "hash_rep w h B P n" "pairs_ok P" "cread key w = Ok k w" "hlookup P k = Some v" "wf_lh w"
  obtains l cs a s b t ds ps qs where "B (hslot k) = Some (l, cs @ (a, s) # (b, t) # ds)"
    "P (hslot k) = ps @ (k, v) # qs" "k \<notin> fst ` set ps" "k \<notin> fst ` set qs" "length cs = 2 * length ps"
    "list_at w l (cs @ (a, s) # (b, t) # ds) (flat ps @ k # v # flat qs)"
    "for_each l (search_body key) None w = Ok (Some a) w" "hash_entry_search h key w = Ok (l, a) w"
proof -
  let ?i = "hslot k"
  obtain ps qs where p: "P ?i = ps @ (k, v) # qs" "k \<notin> fst ` set ps" "k \<notin> fst ` set qs"
      "first_idx k (flat (P ?i)) = Some (2 * length ps)"
    using pairs_ok_slot [OF assms(2,4)] by metis
  have at: "slot_at w B P ?i" using assms(1) by (simp add: hash_rep_def)
  then obtain l xs where B: "B ?i = Some (l, xs)" "list_at w l xs (flat (P ?i))"
    using p(1) by (auto simp: slot_at_def split: option.splits)
  have len: "length xs = 2 * length (P ?i)"
    using vals_length [of w xs "flat (P ?i)"] B(2) by (simp add: list_at_def)
  let ?j = "2 * length ps"
  have j: "Suc ?j < length xs" using len p(1) by simp
  obtain a s b t where ab: "xs ! ?j = (a, s)" "xs ! Suc ?j = (b, t)" by (metis surj_pair)
  have xs: "xs = take ?j xs @ (a, s) # (b, t) # drop (Suc (Suc ?j)) xs"
    using j ab by (metis Cons_nth_drop_Suc Suc_lessD id_take_nth_drop)
  have s: "for_each l (search_body key) None w = Ok (Some a) w"
    using search_ok [OF B(2) assms(3) _ assms(5)] pairs_ok_NUL [OF assms(2), of ?i] p(4) ab by simp
  have "hashes w h = Some (hash_hdr B n)" using assms(1) by (simp add: hash_rep_def)
  then have "hash_entry_search h key w = Ok (l, a) w"
    using hash_function_eval [OF assms(3)] bucket_eval [of w h B n ?i] B(1) s
    by (simp add: hash_entry_search_def nc_bind_def nc_return_def)
  moreover have "flat (P ?i) = flat ps @ k # v # flat qs" using p(1) by simp
  moreover have "length (take ?j xs) = ?j" using j by simp
  ultimately show ?thesis using that [OF _ p(1-3) _ _ s] B xs by metis
qed

lemma hash_search_missing:
  assumes "hash_rep w h B P n" "pairs_ok P" "cread key w = Ok k w" "hlookup P k = None" "wf_lh w"
  shows "hash_entry_search h key w = Fail (-1) w"
    and "B (hslot k) = Some (l, cs) \<Longrightarrow> for_each l (search_body key) None w = Ok None w"
proof -
  let ?i = "hslot k"
  have at: "slot_at w B P ?i" using assms(1) by (simp add: hash_rep_def)
  have s: "for_each l (search_body key) None w = Ok None w" if "B ?i = Some (l, cs)" for l cs
  proof -
    have "list_at w l cs (flat (P ?i))" using at that by (simp add: slot_at_def)
    from search_ok [OF this assms(3) _ assms(5)] show ?thesis
      using pairs_ok_NUL [OF assms(2), of ?i] pairs_ok_missing [OF assms(2,4)] by simp
  qed
  then show "B (hslot k) = Some (l, cs) \<Longrightarrow> for_each l (search_body key) None w = Ok None w" by blast
  have hd: "hashes w h = Some (hash_hdr B n)" using assms(1) by (simp add: hash_rep_def)
  show "hash_entry_search h key w = Fail (-1) w"
    using hash_function_eval [OF assms(3)] bucket_eval [OF hd, of ?i] s
    by (cases "B ?i") (auto simp: hash_entry_search_def nc_simps)
qed

section \<open>Lookup\<close>

lemma hash_get_ok:
  assumes "hash_rep w h B P n" "pairs_ok P" "cread key w = Ok k w" "hlookup P k = Some v" "wf_lh w"
    "str_has w d y" "d \<notin> slot_strs B (hslot k)" "mem_ok w"
  shows "\<exists>w'. hash_get d h key w = Ok () w' \<and> str_upd w d v w'"
proof -
  obtain l cs a s b t ds ps qs where f: "B (hslot k) = Some (l, cs @ (a, s) # (b, t) # ds)" "length cs = 2 * length ps"
      "list_at w l (cs @ (a, s) # (b, t) # ds) (flat ps @ k # v # flat qs)" "hash_entry_search h key w = Ok (l, a) w"
    by (rule hash_search_found [OF assms(1-5)]) blast
  have c: "dseg (ents w) None (cs @ (a, s) # (b, t) # ds) None" and vs: "vals w (cs @ (a, s) # (b, t) # ds) (flat ps @ k # v # flat qs)"
    using f(3) by (auto simp: list_at_def list_cells_def)
  have "str_has w t v" using vs vals_append [of cs "flat ps" w] f(2) by simp
  moreover have "d \<noteq> t" using assms(7) f(1) by (auto simp: slot_strs_def)
  ultimately obtain w' where "str_copy d t w = Ok () w'" "str_upd w d v w'"
    using str_copy_ok [OF _ assms(6) _ assms(8)] by blast
  then show ?thesis using f(4) c by (auto simp: hash_get_def list_run)
qed

lemma hash_get_missing:
  assumes "hash_rep w h B P n" "pairs_ok P" "cread key w = Ok k w" "hlookup P k = None" "wf_lh w"
  shows "hash_get d h key w = Fail (-1) w"
  using hash_search_missing(1) [OF assms] by (simp add: hash_get_def nc_simps)

lemma hash_rep_frame:
  assumes "hash_rep w h B P n" "mod_hh S E L H w w'" "h \<notin> H"
    "\<And>i. i < 256 \<Longrightarrow> slot_lists B i \<inter> L = {} \<and> slot_ents B i \<inter> E = {} \<and> slot_strs B i \<inter> S = {}"
  shows "hash_rep w' h B P n"
  using assms slot_at_frame [OF _ assms(2)] by (auto simp: hash_rep_def mod_hh_def)

lemma hash_rep_lt:
  assumes "hash_rep w h B P n" "wf_lh w" "i < 256"
  shows "slot_lists B i \<subseteq> {..<brk w}" "slot_ents B i \<subseteq> {..<brk w}" "slot_strs B i \<subseteq> {..<brk w}"
  using slot_at_lt [of w B P i] assms by (simp_all add: hash_rep_def)

section \<open>Deletion\<close>

text \<open>The objects of every slot are those it had before, or objects in \<open>N\<close>.\<close>

definition slots_in :: "buckets \<Rightarrow> nat set \<Rightarrow> buckets \<Rightarrow> bool" where
  "slots_in B N B' \<longleftrightarrow> (\<forall>i. slot_strs B' i \<subseteq> slot_strs B i \<union> N \<and> slot_ents B' i \<subseteq> slot_ents B i \<union> N \<and> slot_lists B' i \<subseteq> slot_lists B i \<union> N)"

lemma slots_in_upd:
  assumes "l \<in> slot_lists B i \<union> N" "fst ` set cs \<subseteq> slot_ents B i \<union> N" "snd ` set cs \<subseteq> slot_strs B i \<union> N"
  shows "slots_in B N (B(i \<mapsto> (l, cs)))"
  using assms by (auto simp: slots_in_def slot_strs_def slot_ents_def slot_lists_def)

lemma slots_in_trans: "slots_in B N B' \<Longrightarrow> slots_in B' M B'' \<Longrightarrow> N \<union> M \<subseteq> K \<Longrightarrow> slots_in B K B''"
  unfolding slots_in_def by blast

lemma slots_in_strs: "slots_in B N B' \<Longrightarrow> slot_strs B' i \<subseteq> slot_strs B i \<union> N"
  by (simp add: slots_in_def)

lemma hash_delete_ok:
  assumes "hash_rep w h B P n" "pairs_ok P" "cread key w = Ok k w" "hlookup P k = Some v" "wf_lh w"
    "0 < n" "n < 2 ^ 64" "length (P (hslot k)) < 2 ^ 62"
  shows "\<exists>w' B'. hash_delete h key w = Ok () w' \<and> hash_rep w' h B' (del_pair k P) (n - 1) \<and>
    mod_hh (slot_strs B (hslot k)) (slot_ents B (hslot k)) (slot_lists B (hslot k)) {h} w w' \<and> wf_lh w' \<and>
    slots_in B {} B'"
proof -
  let ?i = "hslot k"
  obtain l cs a s b t ds ps qs where f: "B ?i = Some (l, cs @ (a, s) # (b, t) # ds)"
      "P ?i = ps @ (k, v) # qs" "k \<notin> fst ` set ps" "k \<notin> fst ` set qs" "length cs = 2 * length ps"
      "list_at w l (cs @ (a, s) # (b, t) # ds) (flat ps @ k # v # flat qs)" "hash_entry_search h key w = Ok (l, a) w"
    by (rule hash_search_found [OF assms(1-5)]) blast
  let ?cs = "cs @ (a, s) # (b, t) # ds"
  have c: "list_cells w l ?cs" "vals w ?cs (flat ps @ k # v # flat qs)" using f(6) by (auto simp: list_at_def)
  have vs: "vals w cs (flat ps)" "str_has w s k" "str_has w t v" "vals w ds (flat qs)"
    using c(2) vals_append [of cs "flat ps" w] f(5) by auto
  have e: "ents w a = Some \<lparr>e_value = Some s, e_next = Some b, e_prev = last_addr None cs\<rparr>"
    using c(1) by (simp add: list_cells_def)
  have len: "length ds = 2 * length qs" using vals_length [OF vs(4)] by simp
  have lt: "length (cs @ [(a, s)]) + length ds < 2 ^ 64 - 1" "length cs + length ds < 2 ^ 64 - 1"
    using assms(8) f(2,5) len by simp_all
  have c': "list_cells w l ((cs @ [(a, s)]) @ (b, t) # ds)" using c(1) by simp
  obtain w1 where w1: "list_entry_delete l b w = Ok () w1" "list_cells w1 l ((cs @ [(a, s)]) @ ds)"
      "mod_lh {t} (insert b (fst ` set ((cs @ [(a, s)]) @ ds))) {l} w w1" "brk w1 = brk w"
    using list_entry_delete_ok [OF c' vs(3) lt(1)] by blast
  have ne: "s \<noteq> t" "t \<notin> snd ` set (cs @ ds)" "s \<notin> snd ` set (cs @ ds)" using c(1) by (auto simp: list_cells_def)
  have s1: "str_has w1 s k" using vs(2) mod_lh_has [OF w1(3), of s k] ne by simp
  have c1: "list_cells w1 l (cs @ (a, s) # ds)" using w1(2) by simp
  obtain w2 where w2: "list_entry_delete l a w1 = Ok () w2" "list_cells w2 l (cs @ ds)"
      "mod_lh {s} (insert a (fst ` set (cs @ ds))) {l} w1 w2" "brk w2 = brk w1"
    using list_entry_delete_ok [OF c1 s1 lt(2)] by blast
  have m: "mod_lh {s, t} (fst ` set ?cs) {l} w w2"
    by (rule mod_lh_mono [OF mod_lh_trans [OF w1(3) w2(3)]]) auto
  have "vals w2 (cs @ ds) (flat ps @ flat qs) = vals w (cs @ ds) (flat ps @ flat qs)"
  proof (rule vals_frame, rule ballI)
    fix x assume "x \<in> snd ` set (cs @ ds)"
    then have "x \<notin> {s, t}" using ne by auto
    then show "strs w2 x = strs w x" by (rule mod_lh_strs [OF m])
  qed
  then have l2: "list_at w2 l (cs @ ds) (flat (ps @ qs))"
    using w2(2) vs f(5) by (simp add: list_at_def vals_append)
  have hd: "hashes w2 h = Some (hash_hdr B n)" using mod_lh_hashes [OF m] assms(1) by (simp add: hash_rep_def)
  let ?B = "B(?i \<mapsto> (l, cs @ ds))"
  let ?w = "w2\<lparr>hashes := (hashes w2)(h \<mapsto> hash_hdr ?B (n - 1))\<rparr>"
  have "(hash_hdr B n)\<lparr>h_count := n - 1\<rparr> = hash_hdr ?B (n - 1)" using f(1) by (simp add: hash_hdr_def)
  then have run: "hash_delete h key w = Ok () ?w"
    using f(7) e w1(1) w2(1) hd sz_dec_pos [OF assms(6,7)]
    by (simp add: hash_delete_def list_run upd_hash_def)
  have mh: "mod_hh {s, t} (fst ` set ?cs) {l} {h} w ?w" using mod_lh_hh [OF m] by (simp add: mod_hh_def)
  have fp: "slot_strs B ?i = snd ` set ?cs" "slot_ents B ?i = fst ` set ?cs" "slot_lists B ?i = {l}"
    using f(1) by (simp_all add: slot_strs_def slot_ents_def slot_lists_def)
  have "list_at ?w l (cs @ ds) (flat (ps @ qs)) = list_at w2 l (cs @ ds) (flat (ps @ qs))"
    by (simp add: list_at_def list_cells_def vals_def str_has_def)
  with l2 have l3: "list_at ?w l (cs @ ds) (flat (ps @ qs))" by simp
  have "hash_rep ?w h ?B (P(?i := ps @ qs)) (n - 1)"
    by (rule hash_rep_update [OF assms(1,5) hslot_lt mh _ _ _ refl refl _ l3]) (use fp in \<open>auto\<close>)
  moreover have "P(?i := ps @ qs) = del_pair k P" using f(2-4) delete_present [of k ps qs v] by (simp add: del_pair_def)
  moreover have "mod_hh (slot_strs B ?i) (slot_ents B ?i) (slot_lists B ?i) {h} w ?w"
    by (rule mod_hh_mono [OF mh]) (use fp in auto)
  moreover have "wf_lh w2"
    by (rule mod_lh_wf [OF m assms(5)]) (use hash_rep_lt [OF assms(1,5), of ?i] fp w1(4) w2(4) in auto)
  then have "wf_lh ?w" by (simp add: wf_lh_def wf_strs_def)
  moreover have "slots_in B {} ?B" by (rule slots_in_upd) (use fp in auto)
  ultimately show ?thesis using run by metis
qed

lemma hash_delete_missing:
  assumes "hash_rep w h B P n" "pairs_ok P" "cread key w = Ok k w" "hlookup P k = None" "wf_lh w"
  shows "hash_delete h key w = Fail (-1) w"
  using hash_search_missing(1) [OF assms] by (simp add: hash_delete_def nc_simps)

section \<open>Insertion\<close>

lemma hash_hdr_bucket:
  "i < 256 \<Longrightarrow> (hash_hdr B n)\<lparr>h_bucket := (h_bucket (hash_hdr B n))[i := Some l]\<rparr> = hash_hdr (B(i \<mapsto> (l, cs))) n"
  by (auto simp: hash_hdr_def nth_list_update intro!: nth_equalityI)

lemma list_at_hashes [simp]: "list_at (w\<lparr>hashes := x\<rparr>) l cs xss = list_at w l cs xss"
  by (simp add: list_at_def list_cells_def vals_def str_has_def)

lemma wf_lh_hashes [simp]: "wf_lh (w\<lparr>hashes := x\<rparr>) = wf_lh w"
  by (simp add: wf_lh_def wf_strs_def)

lemma mem_ok_hashes [simp]: "mem_ok (w\<lparr>hashes := x\<rparr>) = mem_ok w"
  by (simp add: mem_ok_def)

lemma slot_fp:
  assumes "B i = Some (l, cs)"
  shows "slot_lists B i = {l}" "slot_ents B i = fst ` set cs" "slot_strs B i = snd ` set cs"
  using assms by (simp_all add: slot_lists_def slot_ents_def slot_strs_def)

lemma hash_set_bucket_ok:
  assumes "hash_rep w h B P n" "wf_lh w" "mem_ok w" "i < 256"
  obtains w' l cs where "hash_set_bucket h i w = Ok l w'" "hash_rep w' h (B(i \<mapsto> (l, cs))) P n"
    "mod_hh {} {} (slot_lists B i \<union> {brk w..}) {h} w w'" "wf_lh w'" "strs w' = strs w"
    "l \<in> slot_lists B i \<union> {brk w..}" "fst ` set cs = slot_ents B i" "snd ` set cs = slot_strs B i"
proof (cases "B i")
  case (Some b)
  obtain l cs where b: "b = (l, cs)" by (cases b)
  have hd: "hashes w h = Some (hash_hdr B n)" using assms(1) by (simp add: hash_rep_def)
  have "B(i \<mapsto> (l, cs)) = B" using Some b by (simp add: fun_upd_idem)
  with Some b assms(1,2) show ?thesis
    using bucket_eval [OF hd assms(4)] slot_fp [of B i l cs]
    by (intro that [of l w cs]) (simp_all add: hash_set_bucket_def nc_simps)
next
  case None
  let ?l = "brk w"
  let ?B = "B(i \<mapsto> (?l, []))"
  let ?w1 = "w\<lparr>lists := (lists w)(?l \<mapsto> empty_list), brk := Suc ?l\<rparr>"
  let ?w = "?w1\<lparr>hashes := (hashes w)(h \<mapsto> hash_hdr ?B n)\<rparr>"
  have hd: "hashes w h = Some (hash_hdr B n)" using assms(1) by (simp add: hash_rep_def)
  have fp: "slot_lists B i = {}" "slot_ents B i = {}" "slot_strs B i = {}" and P: "P i = []"
    using None assms(1,4) by (auto simp: slot_lists_def slot_ents_def slot_strs_def hash_rep_def slot_at_def)
  have run: "hash_set_bucket h i w = Ok ?l ?w"
    using None bucket_eval [OF hd assms(4)] list_new_ok [OF assms(3)] hd hash_hdr_bucket [OF assms(4), of B n ?l "[]"]
    by (simp add: hash_set_bucket_def nc_simps upd_hash_def)
  have m: "mod_hh {} {} {?l} {h} w ?w" by (simp add: mod_hh_def)
  have new: "list_at ?w ?l [] (flat [])" by (simp add: list_at_def list_cells_def header_Nil)
  have "hash_rep ?w h ?B (P(i := [])) n"
    by (rule hash_rep_update [OF assms(1,2,4) m _ _ _ refl refl _ new]) (simp_all add: fp)
  moreover have "P(i := []) = P" using P by auto
  moreover have "wf_lh ?w" using assms(2) by (auto simp: wf_lh_def wf_strs_def less_Suc_eq)
  moreover have "mod_hh {} {} (slot_lists B i \<union> {brk w..}) {h} w ?w" by (rule mod_hh_mono [OF m]) auto
  ultimately show ?thesis using run by (intro that [of ?l ?w "[]"]) (simp_all add: fp)
qed

lemma cread_frame:
  assumes "cread p w = Ok k w" "wf_strs w" "\<forall>a<brk w. strs w' a = strs w a"
  shows "cread p w' = Ok k w'"
proof (cases p)
  case (CLit cs)
  then show ?thesis using assms(1) by (auto simp: cread_def nc_simps split: option.splits)
next
  case (CVal s off)
  then have "strs w s \<noteq> None" using assms(1) by (auto simp: cread_def nc_simps split: option.splits)
  then have "strs w' s = strs w s" using assms(2,3) by (simp add: wf_strs_def)
  then show ?thesis
    using assms(1) CVal by (auto simp: cread_def nc_simps split: option.splits if_splits)
qed

lemma str_alias_ok:
  assumes "cread p w = Ok k w" "strs w d = Some t" "length k < STRING_MAX"
  shows "\<exists>t'. str_alias d p w = Ok () (w\<lparr>strs := (strs w)(d \<mapsto> t')\<rparr>) \<and> str_src (w\<lparr>strs := (strs w)(d \<mapsto> t')\<rparr>) d k"
proof -
  obtain r where r: "cbytes p w = Ok (map Some k @ Some NUL # r) w" using cread_Ok [OF assms(1)] by blast
  let ?b = "map Some k @ Some NUL # r"
  let ?t = "\<lparr>s_value = Static ?b, s_size = length k + 1, s_len = length k, s_owner = False\<rparr>"
  have "str_alias d p w = Ok () (w\<lparr>strs := (strs w)(d \<mapsto> ?t)\<rparr>)"
    using r assms(2,3) cread_no_NUL [OF assms(1)]
    by (cases t) (simp add: str_alias_def run_simps cbuf_scan_Ok del: cbytes.simps)
  moreover have "str_src (w\<lparr>strs := (strs w)(d \<mapsto> ?t)\<rparr>) d k"
    using assms(3) by (auto simp: str_src_def buf_bytes_def holds_def)
  ultimately show ?thesis by blast
qed

text \<open>The body of \<^verbatim>\<open>hash_set\<close> when the key is present: the value of its pair is overwritten.\<close>

lemma hash_set_present:
  assumes "hash_rep w h B P n" "pairs_ok P" "cread key w = Ok k w" "hlookup P k = Some v0" "wf_lh w"
    "str_src w u v" "u \<notin> slot_strs B (hslot k)" "mem_ok w"
  obtains l a b t e e' w' where "B (hslot k) \<noteq> None" "fst (the (B (hslot k))) = l"
    "for_each l (search_body key) None w = Ok (Some a) w"
    "ents w a = Some e" "e_next e = Some b" "ents w b = Some e'" "e_value e' = Some t"
    "str_copy t u w = Ok () w'" "mod_strs {t} w w'" "t \<in> slot_strs B (hslot k)"
    "hash_rep w' h B (put_pair k v P) n"
proof -
  let ?i = "hslot k"
  obtain l cs a s b t ds ps qs where f: "B ?i = Some (l, cs @ (a, s) # (b, t) # ds)"
      "P ?i = ps @ (k, v0) # qs" "k \<notin> fst ` set ps" "length cs = 2 * length ps"
      "list_at w l (cs @ (a, s) # (b, t) # ds) (flat ps @ k # v0 # flat qs)"
      "for_each l (search_body key) None w = Ok (Some a) w"
    by (rule hash_search_found [OF assms(1-5)]) blast
  let ?cs = "cs @ (a, s) # (b, t) # ds"
  have c: "list_cells w l ?cs" "vals w ?cs (flat ps @ k # v0 # flat qs)" using f(5) by (auto simp: list_at_def)
  have vs: "vals w cs (flat ps)" "str_has w s k" "str_has w t v0" "vals w ds (flat qs)"
    using c(2) vals_append [of cs "flat ps" w] f(4) by auto
  have ne: "t \<noteq> u" using assms(7) f(1) by (auto simp: slot_strs_def)
  obtain w' where w': "str_copy t u w = Ok () w'" "str_upd w t v w'"
    using str_copy_src_ok [OF assms(6) vs(3) ne assms(8)] by blast
  have dis: "t \<noteq> s" "t \<notin> snd ` set cs" "t \<notin> snd ` set ds" using c(1) by (auto simp: list_cells_def)
  note o = str_upd_other [OF w'(2)]
  have "vals w' cs (flat ps)" "vals w' ds (flat qs)" "str_has w' s k" "str_has w' t v"
    using vs dis vals_frame [of cs w' w] vals_frame [of ds w' w] o str_upd_has [OF w'(2)] w'(2) by (metis str_upd_has_other)+
  then have "vals w' ?cs (flat ps @ k # v # flat qs)" using vals_append [of cs "flat ps" w'] f(4) by simp
  then have new: "list_at w' l ?cs (flat (ps @ (k, v) # qs))"
    using c(1) str_upd_ents [OF w'(2)] str_upd_lists [OF w'(2)] by (simp add: list_at_def list_cells_def)
  have m: "mod_hh {t} {} {} {h} w w'"
    by (rule mod_hh_mono [OF mod_lh_hh [OF mod_strs_lh [OF str_upd_mod [OF w'(2)]]]]) auto
  have hd: "hashes w' h = Some (hash_hdr B n)"
    using mod_lh_hashes [OF mod_strs_lh [OF str_upd_mod [OF w'(2)]]] assms(1) by (simp add: hash_rep_def)
  have B: "B = B(?i \<mapsto> (l, ?cs))" using f(1) by (simp add: fun_upd_idem)
  have "P(?i := ps @ (k, v) # qs) = put_pair k v P" using f(2,3) update_present [of k ps v v0 qs] by (simp add: put_pair_def)
  then have rep: "hash_rep w' h B (put_pair k v P) n"
    using hash_rep_update [OF assms(1,5) hslot_lt m _ _ _ B refl hd new] slot_fp [of B ?i, OF f(1)] by auto
  have e: "ents w a = Some \<lparr>e_value = Some s, e_next = Some b, e_prev = last_addr None cs\<rparr>"
      "ents w b = Some \<lparr>e_value = Some t, e_next = hd_addr ds None, e_prev = Some a\<rparr>"
    using c(1) by (simp_all add: list_cells_def)
  show ?thesis
    by (rule that [OF _ _ f(6) e(1) _ e(2) _ w'(1) str_upd_mod [OF w'(2)] _ rep]) (use f(1) in \<open>simp_all add: slot_strs_def\<close>)
qed

text \<open>When the key is absent, key and value are pushed onto the bucket.\<close>

definition hash_set_insert :: "nat \<Rightarrow> nat \<Rightarrow> nat \<Rightarrow> nat \<Rightarrow> (unit, 'z) hnc" where
  "hash_set_insert h l str value =
     nc_bind (list_push l str) (\<lambda>_.
     nc_catch (list_push l value)
       (\<lambda>_. upd_hash h (\<lambda>x. x\<lparr>h_count := sz (h_count x + 1)\<rparr>))
       (\<lambda>_. nc_bind (get_list l) (\<lambda>hd.
         nc_bind (deref (l_tail hd)) (\<lambda>t.
         nc_bind (list_entry_delete l t) (\<lambda>_. nc_throw)))))"

lemma hash_insert_ok:
  assumes "hash_rep w h B P n" "hlookup P k = None" "wf_lh w" "mem_ok w" "B (hslot k) = Some (l, cs)"
    "str_src w a k" "str_src w u v" "length (P (hslot k)) < 2 ^ 62" "n + 1 < 2 ^ 64"
  obtains w' B' where "hash_set_insert h l a u w = Ok () w'" "hash_rep w' h B' (put_pair k v P) (n + 1)"
    "mod_hh {brk w..} (slot_ents B (hslot k) \<union> {brk w..}) (slot_lists B (hslot k)) {h} w w'" "wf_lh w'"
    "slots_in B {brk w..} B'"
proof -
  let ?i = "hslot k"
  note fp = slot_fp [of B ?i, OF assms(5)]
  have at: "list_at w l cs (flat (P ?i))" using assms(1,5) by (auto simp: hash_rep_def slot_at_def dest: spec [of _ ?i])
  have len: "length cs = 2 * length (P ?i)" using vals_length [of w cs "flat (P ?i)"] at by (simp add: list_at_def)
  have b1: "length cs + 1 < 2 ^ 64" "length cs + 2 < 2 ^ 64" using len assms(8) by simp_all
  obtain w1 a1 s1 where w1: "list_push l a w = Ok () w1" "list_at w1 l (cs @ [(a1, s1)]) (flat (P ?i) @ [k])"
      "mod_lh {s1} (insert a1 (fst ` set cs)) {l} w w1" "brk w \<le> a1" "brk w \<le> s1" "a1 < brk w1" "s1 < brk w1"
    using list_push_ok [OF at assms(6) b1(1) assms(4,3)] by blast
  have wf1: "wf_lh w1" using list_push_wf [OF w1(3) _ assms(3) w1(6,7)] at by (simp add: list_at_def)
  have "u \<noteq> s1" using str_src_lt [of w u v] assms(3,7) w1(5) by auto
  then have u1: "str_src w1 u v" using assms(7) str_src_frame [of w1 u w v] mod_lh_strs [OF w1(3), of u] by simp
  have m1: "mem_ok w1" using assms(4) mod_lh_mem_ok [OF w1(3)] by simp
  have b2: "length (cs @ [(a1, s1)]) + 1 < 2 ^ 64" using b1(2) by simp
  obtain w2 a2 s2 where w2: "list_push l u w1 = Ok () w2"
      "list_at w2 l ((cs @ [(a1, s1)]) @ [(a2, s2)]) ((flat (P ?i) @ [k]) @ [v])"
      "mod_lh {s2} (insert a2 (fst ` set (cs @ [(a1, s1)]))) {l} w1 w2" "brk w1 \<le> a2" "brk w1 \<le> s2" "a2 < brk w2" "s2 < brk w2"
    using list_push_ok [OF w1(2) u1 b2 m1 wf1] by blast
  have wf2: "wf_lh w2" using list_push_wf [OF w2(3) _ wf1 w2(6,7)] w1(2) by (simp add: list_at_def)
  have br: "brk w \<le> brk w1" using mod_lh_brk [OF w1(3)] .
  have m: "mod_lh {s1, s2} ({a1, a2} \<union> fst ` set cs) {l} w w2"
    by (rule mod_lh_mono [OF mod_lh_trans [OF w1(3) w2(3)]]) auto
  let ?cs = "cs @ [(a1, s1), (a2, s2)]"
  let ?B = "B(?i \<mapsto> (l, ?cs))"
  let ?w = "w2\<lparr>hashes := (hashes w2)(h \<mapsto> hash_hdr ?B (n + 1))\<rparr>"
  have hd: "hashes w2 h = Some (hash_hdr B n)" using mod_lh_hashes [OF m] assms(1) by (simp add: hash_rep_def)
  have "(hash_hdr B n)\<lparr>h_count := n + 1\<rparr> = hash_hdr ?B (n + 1)" using assms(5) by (simp add: hash_hdr_def)
  then have run: "hash_set_insert h l a u w = Ok () ?w"
    using w1(1) w2(1) hd sz_id [OF assms(9)] by (simp add: hash_set_insert_def nc_bind_def nc_catch_def upd_hash_def)
  have mh: "mod_hh {s1, s2} ({a1, a2} \<union> fst ` set cs) {l} {h} w ?w" using mod_lh_hh [OF m] by (simp add: mod_hh_def)
  have new: "list_at ?w l ?cs (flat (P ?i @ [(k, v)]))" using w2(2) by simp
  have "hash_rep ?w h ?B (P(?i := P ?i @ [(k, v)])) (n + 1)"
    by (rule hash_rep_update [OF assms(1,3) hslot_lt mh _ _ _ refl refl _ new]) (use fp br w1(4,5) w2(4,5) in auto)
  moreover have "k \<notin> fst ` set (P ?i)" using assms(2) by (simp add: hlookup_def map_of_eq_None_iff)
  then have "P(?i := P ?i @ [(k, v)]) = put_pair k v P" using update_absent [of k "P ?i" v] by (simp add: put_pair_def)
  moreover have "mod_hh {brk w..} (slot_ents B ?i \<union> {brk w..}) (slot_lists B ?i) {h} w ?w"
    by (rule mod_hh_mono [OF mh]) (use fp br w1(4,5) w2(4,5) in auto)
  moreover have "slots_in B {brk w..} ?B" by (rule slots_in_upd) (use fp br w1(4,5) w2(4,5) in auto)
  moreover have "wf_lh ?w" using wf2 by simp
  ultimately show ?thesis using run that [of ?w ?B] by metis
qed

lemma with_local_str_run:
  "body (brk w) (w\<lparr>strs := (strs w)(brk w \<mapsto> t), brk := Suc (brk w)\<rparr>) = Ok r w' \<Longrightarrow>
     with_local_str t body w = Ok r (w'\<lparr>strs := (strs w')(brk w := None)\<rparr>)"
  by (simp add: with_local_str_def)

text \<open>
  \<^verbatim>\<open>hash_set\<close> on a well-formed table: the pairs of the slot are updated, the count goes up when the
  key is new, and only the bucket of the key and fresh memory are touched.
\<close>

lemma hash_set_ok:
  assumes "hash_rep w h B P n" "pairs_ok P" "cread key w = Ok k w" "length k < STRING_MAX" "str_src w u v"
    "u \<notin> slot_strs B (hslot k)" "wf_lh w" "mem_ok w" "length (P (hslot k)) < 2 ^ 62" "n + 1 < 2 ^ 64"
  shows "\<exists>w' B'. hash_set h key u w = Ok () w' \<and>
    hash_rep w' h B' (put_pair k v P) (if hlookup P k = None then n + 1 else n) \<and>
    mod_hh (slot_strs B (hslot k) \<union> {brk w..}) (slot_ents B (hslot k) \<union> {brk w..}) (slot_lists B (hslot k) \<union> {brk w..}) {h} w w' \<and>
    wf_lh w' \<and> slots_in B {brk w..} B'"
proof -
  let ?i = "hslot k" and ?a = "brk w"
  let ?w0 = "w\<lparr>strs := (strs w)(?a \<mapsto> EMPTY_STRING), brk := Suc ?a\<rparr>"
  have m0: "mod_hh {?a} {} {} {} w ?w0" by (simp add: mod_hh_def)
  have lt: "slot_strs B i \<inter> {?a} = {}" if "i < 256" for i using hash_rep_lt(3) [OF assms(1,7) that] by auto
  have r0: "hash_rep ?w0 h B P n" by (rule hash_rep_frame [OF assms(1) m0]) (use lt in auto)
  have wf0: "wf_lh ?w0" using assms(7) by (auto simp: wf_lh_def wf_strs_def less_Suc_eq)
  obtain w1 l cs where w1: "hash_set_bucket h ?i ?w0 = Ok l w1" "hash_rep w1 h (B(?i \<mapsto> (l, cs))) P n"
      "mod_hh {} {} (slot_lists B ?i \<union> {brk ?w0..}) {h} ?w0 w1" "wf_lh w1" "strs w1 = strs ?w0"
      "l \<in> slot_lists B ?i \<union> {brk ?w0..}" "fst ` set cs = slot_ents B ?i" "snd ` set cs = slot_strs B ?i"
    by (rule hash_set_bucket_ok [OF r0 wf0 _ hslot_lt]) (use assms(8) in auto)
  let ?B = "B(?i \<mapsto> (l, cs))"
  have Bi: "?B ?i = Some (l, cs)" by simp
  note fp = slot_fp [of ?B ?i, OF Bi]
  have same: "\<forall>a<brk w. strs w1 a = strs w a" using w1(5) by simp
  have c0: "cread key ?w0 = Ok k ?w0" by (rule cread_frame [OF assms(3)]) (use assms(7) in simp_all)
  have c1: "cread key w1 = Ok k w1" by (rule cread_frame [OF assms(3) _ same]) (use assms(7) in simp)
  have mem1: "mem_ok w1" using w1(3) assms(8) by (simp add: mod_hh_def mem_ok_def)
  have ul: "u < ?a" using str_src_lt [of w u v] assms(5,7) by simp
  have u1: "str_src w1 u v" using assms(5) str_src_frame [of w1 u w v] same ul by simp
  have br: "Suc ?a \<le> brk w1" using w1(3) by (simp add: mod_hh_def)
  have m1: "mod_hh {?a} {} (slot_lists B ?i \<union> {?a..}) {h} w w1"
    by (rule mod_hh_mono [OF mod_hh_trans [OF m0 w1(3)]]) auto
  have hf: "hash_function key ?w0 = Ok ?i ?w0" using hash_function_eval [OF c0] .
  have finish: ?thesis
    if run: "hash_set h key u w = Ok () (w2\<lparr>strs := (strs w2)(?a := None)\<rparr>)"
      and rep: "hash_rep w2 h B2 (put_pair k v P) (if hlookup P k = None then n + 1 else n)"
      and md: "mod_hh (slot_strs B ?i \<union> {?a..}) (slot_ents B ?i \<union> {?a..}) (slot_lists B ?i \<union> {?a..}) {h} w w2"
      and wf: "wf_lh w2" and no: "\<And>i. i < 256 \<Longrightarrow> ?a \<notin> slot_strs B2 i"
      and sub: "slots_in B {?a..} B2" for w2 B2
  proof -
    let ?w = "w2\<lparr>strs := (strs w2)(?a := None)\<rparr>"
    have d: "mod_hh {?a} {} {} {} w2 ?w" by (simp add: mod_hh_def)
    have "hash_rep ?w h B2 (put_pair k v P) (if hlookup P k = None then n + 1 else n)"
      by (rule hash_rep_frame [OF rep d]) (use no in auto)
    moreover have "mod_hh (slot_strs B ?i \<union> {?a..}) (slot_ents B ?i \<union> {?a..}) (slot_lists B ?i \<union> {?a..}) {h} w ?w"
      by (rule mod_hh_mono [OF mod_hh_trans [OF md d]]) auto
    moreover have "wf_lh ?w" using wf by (auto simp: wf_lh_def wf_strs_def)
    ultimately show ?thesis using run sub by blast
  qed
  have subB: "slots_in B {?a..} ?B" by (rule slots_in_upd) (use w1(6-8) in auto)
  have noB: "?a \<notin> slot_strs ?B i" if "i < 256" for i
    using lt [OF that] fp(3) w1(8) that by (cases "i = ?i") (auto simp: slot_strs_def)
  show ?thesis
  proof (cases "hlookup P k")
    case (Some v0)
    have un: "u \<notin> slot_strs ?B ?i" using assms(6) fp(3) w1(8) by simp
    obtain l' a b t e e' w2 where p: "?B ?i \<noteq> None" "fst (the (?B ?i)) = l'"
        "for_each l' (search_body key) None w1 = Ok (Some a) w1"
        "ents w1 a = Some e" "e_next e = Some b" "ents w1 b = Some e'" "e_value e' = Some t"
        "str_copy t u w1 = Ok () w2" "mod_strs {t} w1 w2" "t \<in> slot_strs ?B ?i" "hash_rep w2 h ?B (put_pair k v P) n"
      by (rule hash_set_present [OF w1(2) assms(2) c1 Some w1(4) u1 un mem1]) blast
    have l': "l' = l" using p(2) by simp
    have run: "hash_set h key u w = Ok () (w2\<lparr>strs := (strs w2)(?a := None)\<rparr>)"
      unfolding hash_set_def
      by (rule with_local_str_run) (use hf w1(1) p l' in \<open>simp add: nc_bind_def get_ent_def deref_def nc_return_def\<close>)
    have tl: "t \<in> slot_strs B ?i" using p(10) fp(3) w1(8) by simp
    have md: "mod_hh (slot_strs B ?i \<union> {?a..}) (slot_ents B ?i \<union> {?a..}) (slot_lists B ?i \<union> {?a..}) {h} w w2"
      by (rule mod_hh_mono [OF mod_hh_trans [OF m1 mod_lh_hh [OF mod_strs_lh [OF p(9)]]]]) (use tl in auto)
    have wf2: "wf_lh w2"
      by (rule mod_lh_wf [OF mod_strs_lh [OF p(9)] w1(4)])
        (use tl hash_rep_lt(3) [OF assms(1,7) hslot_lt, of k] mod_strs_brk [OF p(9)] br in auto)
    show ?thesis using finish [OF run _ md wf2 noB subB] p(11) Some by simp
  next
    case None
    obtain t0 where t0: "strs w1 ?a = Some t0" using w1(5) by simp
    obtain t' where al: "str_alias ?a key w1 = Ok () (w1\<lparr>strs := (strs w1)(?a \<mapsto> t')\<rparr>)"
        "str_src (w1\<lparr>strs := (strs w1)(?a \<mapsto> t')\<rparr>) ?a k"
      using str_alias_ok [OF c1 t0 assms(4)] by blast
    let ?w2 = "w1\<lparr>strs := (strs w1)(?a \<mapsto> t')\<rparr>"
    have d2: "mod_hh {?a} {} {} {} w1 ?w2" by (simp add: mod_hh_def)
    have r2: "hash_rep ?w2 h ?B P n" by (rule hash_rep_frame [OF w1(2) d2]) (use noB in auto)
    have wf2: "wf_lh ?w2" using w1(4) br by (auto simp: wf_lh_def wf_strs_def)
    have mem2: "mem_ok ?w2" using mem1 by simp
    have u2: "str_src ?w2 u v" using u1 str_src_frame [of ?w2 u w1 v] ul by simp
    obtain w3 B3 where w3: "hash_set_insert h l ?a u ?w2 = Ok () w3" "hash_rep w3 h B3 (put_pair k v P) (n + 1)"
        "mod_hh {brk ?w2..} (slot_ents ?B ?i \<union> {brk ?w2..}) (slot_lists ?B ?i) {h} ?w2 w3" "wf_lh w3"
        "slots_in ?B {brk ?w2..} B3"
      by (rule hash_insert_ok [OF r2 None wf2 mem2 Bi al(2) u2 assms(9,10)]) blast
    have s: "for_each l (search_body key) None w1 = Ok None w1"
      using hash_search_missing(2) [OF w1(2) assms(2) c1 None w1(4) Bi] .
    have run: "hash_set h key u w = Ok () (w3\<lparr>strs := (strs w3)(?a := None)\<rparr>)"
      unfolding hash_set_def
      by (rule with_local_str_run) (use hf w1(1) s al(1) w3(1) in \<open>simp add: nc_bind_def [of "hash_function key"]
          nc_bind_def [of "hash_set_bucket h ?i"] nc_bind_def [of "for_each l (search_body key) None"]
          nc_bind_def [of "str_alias ?a key"] hash_set_insert_def\<close>)
    have md: "mod_hh (slot_strs B ?i \<union> {?a..}) (slot_ents B ?i \<union> {?a..}) (slot_lists B ?i \<union> {?a..}) {h} w w3"
      by (rule mod_hh_mono [OF mod_hh_trans [OF m1 mod_hh_trans [OF d2 w3(3)]]]) (use br w1(6,7) fp in auto)
    have no3: "?a \<notin> slot_strs B3 i" if "i < 256" for i using slots_in_strs [OF w3(5), of i] noB [OF that] br by auto
    have sub3: "slots_in B {?a..} B3" by (rule slots_in_trans [OF subB w3(5)]) (use br in auto)
    show ?thesis using finish [OF run _ md w3(4) no3 sub3] w3(2) None by simp
  qed
qed

end
