(* ===== verification/NC_Hash_Map.thy ===== *)
theory NC_Hash_Map
  imports NC_Hash_Ops
begin

text \<open>
  The contract of a string table as a locale, its consequences for a client, and the
  interpretation of the locale on the hash table of the library.
\<close>

section \<open>The count is the number of keys\<close>

lemma hlookup_dom: 
  assumes "pairs_ok P"
  shows "dom (hlookup P) = (\<Union>i\<in>{..<256}. fst ` set (P i))"
proof (rule set_eqI)
  fix k
  have "k \<in> fst ` set (P i) \<Longrightarrow> i < 256 \<Longrightarrow> i = hslot k" for i
    using assms by (fastforce simp: pairs_ok_def)
  then show "k \<in> dom (hlookup P) \<longleftrightarrow> k \<in> (\<Union>i\<in>{..<256}. fst ` set (P i))"
    by (auto simp: hlookup_def dom_map_of_conv_image_fst domIff map_of_eq_None_iff)
qed

lemma hash_count:
  assumes "pairs_ok P"
  shows "card (dom (hlookup P)) = (\<Sum>i<256. length (P i))"
proof -
  have slot: "k \<in> fst ` set (P i) \<Longrightarrow> i < 256 \<Longrightarrow> i = hslot k" for k i
    using assms by (fastforce simp: pairs_ok_def)
  have "card (\<Union>i\<in>{..<256}. fst ` set (P i)) = (\<Sum>i<256. card (fst ` set (P i)))"
    by (rule card_UN_disjoint) (use slot in blast)+
  also have "\<dots> = (\<Sum>i<256. length (P i))"
  proof (rule sum.cong [OF refl])
    fix i :: nat assume "i \<in> {..<256}"
    then have "distinct (map fst (P i))" using assms by (simp add: pairs_ok_def)
    then show "card (fst ` set (P i)) = length (P i)" using distinct_card [of "map fst (P i)"] by simp
  qed
  finally show ?thesis using hlookup_dom [OF assms] by simp
qed

lemma finite_hlookup: "pairs_ok P \<Longrightarrow> finite (dom (hlookup P))"
  by (simp add: hlookup_dom)

section \<open>The table as an object\<close>

definition hash_strs :: "buckets \<Rightarrow> nat set" where
  "hash_strs B = (\<Union>i\<in>{..<256}. slot_strs B i)"

definition hash_ents :: "buckets \<Rightarrow> nat set" where
  "hash_ents B = (\<Union>i\<in>{..<256}. slot_ents B i)"

definition hash_lists :: "buckets \<Rightarrow> nat set" where
  "hash_lists B = (\<Union>i\<in>{..<256}. slot_lists B i)"

text \<open>
  \<open>hash_table w h m F\<close>: the memory \<open>w\<close> is well-formed, no allocation fails, and \<open>h\<close> is a table with
  the contents \<open>m\<close>; \<open>F\<close> are the addresses of the strings it owns.
\<close>

definition hash_table :: "'z hash_heap_scheme \<Rightarrow> nat \<Rightarrow> (string \<rightharpoonup> string) \<Rightarrow> nat set \<Rightarrow> bool" where
  "hash_table w h m F \<longleftrightarrow> wf_lh w \<and> mem_ok w \<and>
     (\<exists>B P. hash_rep w h B P (card (dom m)) \<and> pairs_ok P \<and> m = hlookup P \<and> F = hash_strs B)"

lemma slot_length_le:
  assumes "pairs_ok P" "i < 256"
  shows "length (P i) \<le> card (dom (hlookup P))"
  using member_le_sum [of i "{..<256}" "\<lambda>i. length (P i)"] assms by (simp add: hash_count)

lemma hash_table_lt: "hash_table w h m F \<Longrightarrow> F \<subseteq> {..<brk w}"
  using hash_rep_lt(3) unfolding hash_table_def hash_strs_def by blast

text \<open>What a client sees of a string it keeps outside of the table.\<close>

definition key_at :: "'z hash_heap_scheme \<Rightarrow> cptr \<Rightarrow> string \<Rightarrow> bool" where
  "key_at w p k \<longleftrightarrow> cread p w = Ok k w \<and> length k < STRING_MAX"

definition pair_fits :: "string \<Rightarrow> string \<Rightarrow> bool" where
  "pair_fits k v \<longleftrightarrow> NUL \<notin> set v \<and> hslot v \<noteq> hslot k"

lemma hash_table_set:
  assumes "hash_table w h m F" "key_at w p k" "str_has w u v" "u \<notin> F" "pair_fits k v" "card (dom m) < 2 ^ 62"
  shows "\<exists>w' F'. hash_set h p u w = Ok () w' \<and> hash_table w' h (m(k \<mapsto> v)) F' \<and>
    (\<forall>d y. d \<notin> F \<longrightarrow> str_has w d y \<longrightarrow> d \<notin> F' \<and> str_has w' d y)"
proof -
  obtain B P where r: "hash_rep w h B P (card (dom m))" "pairs_ok P" "m = hlookup P" "F = hash_strs B"
      "wf_lh w" "mem_ok w"
    using assms(1) by (auto simp: hash_table_def)
  have k: "cread p w = Ok k w" "length k < STRING_MAX" "NUL \<notin> set k"
    using assms(2) cread_no_NUL by (auto simp: key_at_def)
  have u: "u \<notin> slot_strs B (hslot k)" using assms(4) r(4) by (auto simp: hash_strs_def)
  have bd: "length (P (hslot k)) < 2 ^ 62" "card (dom m) + 1 < 2 ^ 64"
    using slot_length_le [OF r(2) hslot_lt, of k] assms(6) r(3) by simp_all
  obtain w' B' where w': "hash_set h p u w = Ok () w'"
      "hash_rep w' h B' (put_pair k v P) (if hlookup P k = None then card (dom m) + 1 else card (dom m))"
      "mod_hh (slot_strs B (hslot k) \<union> {brk w..}) (slot_ents B (hslot k) \<union> {brk w..}) (slot_lists B (hslot k) \<union> {brk w..}) {h} w w'"
      "wf_lh w'" "slots_in B {brk w..} B'"
    using hash_set_ok [OF r(1,2) k(1,2) str_has_src [OF assms(3)] u r(5,6) bd] by blast
  have m': "m(k \<mapsto> v) = hlookup (put_pair k v P)" using r(3) by (simp add: hlookup_put)
  have "finite (dom m)" using finite_hlookup [OF r(2)] r(3) by simp
  then have "card (dom (m(k \<mapsto> v))) = (if hlookup P k = None then card (dom m) + 1 else card (dom m))"
    using r(3) by (auto simp: card_insert_if domIff)
  moreover have "pairs_ok (put_pair k v P)" using pairs_ok_put [OF r(2) k(3)] assms(5) by (simp add: pair_fits_def)
  moreover have "mem_ok w'" using r(6) w'(3) by (simp add: mod_hh_def mem_ok_def)
  ultimately have "hash_table w' h (m(k \<mapsto> v)) (hash_strs B')"
    using w'(2,4) m' unfolding hash_table_def by metis
  moreover have "d \<notin> hash_strs B' \<and> str_has w' d y" if d: "d \<notin> F" "str_has w d y" for d y
  proof -
    have "d < brk w" using str_has_lt [of w d y] r(5) d(2) by simp
    then have "d \<notin> slot_strs B (hslot k) \<union> {brk w..}" "d \<notin> hash_strs B'"
      using d(1) r(4) slots_in_strs [OF w'(5)] by (fastforce simp: hash_strs_def)+
    then show ?thesis using d(2) w'(3) by (auto simp: mod_hh_def str_has_def)
  qed
  ultimately show ?thesis using w'(1) by blast
qed

lemma hash_table_str_upd:
  assumes "hash_table w h m F" "d \<notin> F" "str_upd w d v w'" "str_has w d y"
  shows "hash_table w' h m F"
proof -
  obtain B P where r: "hash_rep w h B P (card (dom m))" "pairs_ok P" "m = hlookup P" "F = hash_strs B"
      "wf_lh w" "mem_ok w"
    using assms(1) by (auto simp: hash_table_def)
  have m: "mod_hh {d} {} {} {} w w'" using mod_lh_hh [OF mod_strs_lh [OF str_upd_mod [OF assms(3)]]] .
  have "hash_rep w' h B P (card (dom m))"
    by (rule hash_rep_frame [OF r(1) m]) (use assms(2) r(4) in \<open>auto simp: hash_strs_def\<close>)
  moreover have "wf_lh w'"
    by (rule mod_lh_wf [OF mod_strs_lh [OF str_upd_mod [OF assms(3)]] r(5)])
      (use str_has_lt [of w d y] assms(4) r(5) str_upd_frame [OF assms(3)] in auto)
  ultimately show ?thesis using r str_upd_mem_ok [OF assms(3)] unfolding hash_table_def by metis
qed

lemma hash_table_get:
  assumes "hash_table w h m F" "key_at w p k" "str_has w d y" "d \<notin> F" "m k = Some v"
  shows "\<exists>w'. hash_get d h p w = Ok () w' \<and> hash_table w' h m F \<and> str_has w' d v \<and>
    (\<forall>e z. e \<noteq> d \<longrightarrow> str_has w e z \<longrightarrow> str_has w' e z)"
proof -
  obtain B P where r: "hash_rep w h B P (card (dom m))" "pairs_ok P" "m = hlookup P" "F = hash_strs B"
      "wf_lh w" "mem_ok w"
    using assms(1) by (auto simp: hash_table_def)
  have d: "d \<notin> slot_strs B (hslot k)" using assms(4) r(4) by (auto simp: hash_strs_def)
  have k: "cread p w = Ok k w" "hlookup P k = Some v" using assms(2,5) r(3) by (auto simp: key_at_def)
  obtain w' where w': "hash_get d h p w = Ok () w'" "str_upd w d v w'"
    using hash_get_ok [OF r(1,2) k r(5) assms(3) d r(6)] by blast
  then show ?thesis
    using hash_table_str_upd [OF assms(1,4) w'(2) assms(3)] str_upd_has [OF w'(2)] str_upd_has_other [OF w'(2)] by blast
qed

lemma hash_table_get_none:
  assumes "hash_table w h m F" "key_at w p k" "m k = None"
  shows "hash_get d h p w = Fail (-1) w"
  using assms hash_get_missing by (fastforce simp: hash_table_def key_at_def)

lemma hash_table_delete:
  assumes "hash_table w h m F" "key_at w p k" "m k = Some v" "card (dom m) < 2 ^ 62"
  shows "\<exists>w' F'. hash_delete h p w = Ok () w' \<and> hash_table w' h (m(k := None)) F' \<and>
    (\<forall>d y. d \<notin> F \<longrightarrow> str_has w d y \<longrightarrow> d \<notin> F' \<and> str_has w' d y)"
proof -
  obtain B P where r: "hash_rep w h B P (card (dom m))" "pairs_ok P" "m = hlookup P" "F = hash_strs B"
      "wf_lh w" "mem_ok w"
    using assms(1) by (auto simp: hash_table_def)
  have k: "cread p w = Ok k w" "hlookup P k = Some v" using assms(2,3) r(3) by (auto simp: key_at_def)
  have fin: "finite (dom m)" using finite_hlookup [OF r(2)] r(3) by simp
  have n: "0 < card (dom m)" "card (dom m) < 2 ^ 64" "length (P (hslot k)) < 2 ^ 62"
    using fin assms(3,4) slot_length_le [OF r(2) hslot_lt, of k] r(3) by (auto simp: card_gt_0_iff)
  obtain w' B' where w': "hash_delete h p w = Ok () w'" "hash_rep w' h B' (del_pair k P) (card (dom m) - 1)"
      "mod_hh (slot_strs B (hslot k)) (slot_ents B (hslot k)) (slot_lists B (hslot k)) {h} w w'" "wf_lh w'"
      "slots_in B {} B'"
    using hash_delete_ok [OF r(1,2) k r(5) n] by blast
  have m': "m(k := None) = hlookup (del_pair k P)" using r(3) by (simp add: hlookup_del)
  have "card (dom (m(k := None))) = card (dom m) - 1"
    using fin assms(3) by (simp add: card_Diff_singleton domI)
  moreover have "pairs_ok (del_pair k P)" using r(2) by (rule pairs_ok_del)
  moreover have "mem_ok w'" using r(6) w'(3) by (simp add: mod_hh_def mem_ok_def)
  ultimately have "hash_table w' h (m(k := None)) (hash_strs B')"
    using w'(2,4) m' unfolding hash_table_def by metis
  moreover have "d \<notin> hash_strs B' \<and> str_has w' d y" if d: "d \<notin> F" "str_has w d y" for d y
  proof -
    have "d \<notin> slot_strs B (hslot k)" "d \<notin> hash_strs B'" using d(1) r(4) slots_in_strs [OF w'(5)] by (fastforce simp: hash_strs_def)+
    then show ?thesis using d(2) w'(3) by (auto simp: mod_hh_def str_has_def)
  qed
  ultimately show ?thesis using w'(1) by blast
qed

lemma hash_table_delete_none:
  assumes "hash_table w h m F" "key_at w p k" "m k = None"
  shows "hash_delete h p w = Fail (-1) w"
  using assms hash_delete_missing by (fastforce simp: hash_table_def key_at_def)

section \<open>The interface of a string table\<close>

locale string_table =
  fixes tab :: "'w \<Rightarrow> nat \<Rightarrow> (string \<rightharpoonup> string) \<Rightarrow> nat set \<Rightarrow> bool"
    and val :: "'w \<Rightarrow> nat \<Rightarrow> string \<Rightarrow> bool"
    and valid :: "string \<Rightarrow> bool"
    and fits :: "string \<Rightarrow> string \<Rightarrow> bool"
    and room :: "nat \<Rightarrow> bool"
    and put :: "nat \<Rightarrow> string \<Rightarrow> nat \<Rightarrow> 'w \<Rightarrow> (unit, 'w) outcome"
    and get :: "nat \<Rightarrow> nat \<Rightarrow> string \<Rightarrow> 'w \<Rightarrow> (unit, 'w) outcome"
    and del :: "nat \<Rightarrow> string \<Rightarrow> 'w \<Rightarrow> (unit, 'w) outcome"
  assumes put_law: "tab w h m F \<Longrightarrow> valid k \<Longrightarrow> val w u v \<Longrightarrow> u \<notin> F \<Longrightarrow> fits k v \<Longrightarrow> room (card (dom m)) \<Longrightarrow>
      \<exists>w' F'. put h k u w = Ok () w' \<and> tab w' h (m(k \<mapsto> v)) F' \<and>
        (\<forall>d y. d \<notin> F \<longrightarrow> val w d y \<longrightarrow> d \<notin> F' \<and> val w' d y)"
    and get_law: "tab w h m F \<Longrightarrow> valid k \<Longrightarrow> val w d y \<Longrightarrow> d \<notin> F \<Longrightarrow> m k = Some v \<Longrightarrow>
      \<exists>w'. get d h k w = Ok () w' \<and> tab w' h m F \<and> val w' d v \<and> (\<forall>e z. e \<noteq> d \<longrightarrow> val w e z \<longrightarrow> val w' e z)"
    and get_none: "tab w h m F \<Longrightarrow> valid k \<Longrightarrow> m k = None \<Longrightarrow> get d h k w = Fail (-1) w"
    and del_law: "tab w h m F \<Longrightarrow> valid k \<Longrightarrow> m k = Some v \<Longrightarrow> room (card (dom m)) \<Longrightarrow>
      \<exists>w' F'. del h k w = Ok () w' \<and> tab w' h (m(k := None)) F' \<and>
        (\<forall>d y. d \<notin> F \<longrightarrow> val w d y \<longrightarrow> d \<notin> F' \<and> val w' d y)"
    and del_none: "tab w h m F \<Longrightarrow> valid k \<Longrightarrow> m k = None \<Longrightarrow> del h k w = Fail (-1) w"
    and room_le: "room n \<Longrightarrow> n' \<le> n \<Longrightarrow> room n'"
    and dom_finite: "tab w h m F \<Longrightarrow> finite (dom m)"
begin

text \<open>What is read after a write: the new value for the written key, the old contents for others.\<close>

lemma put_get:
  assumes "tab w h m F" "valid k" "valid k'" "val w u v" "u \<notin> F" "fits k v" "room (card (dom m))" "val w d y" "d \<notin> F"
  shows "\<exists>w1. put h k u w = Ok () w1 \<and>
    (case (m(k \<mapsto> v)) k' of
       Some x \<Rightarrow> \<exists>w2. get d h k' w1 = Ok () w2 \<and> val w2 d x
     | None \<Rightarrow> get d h k' w1 = Fail (-1) w1)"
proof -
  obtain w1 F1 where w1: "put h k u w = Ok () w1" "tab w1 h (m(k \<mapsto> v)) F1" "d \<notin> F1" "val w1 d y"
    using put_law [OF assms(1,2,4-7)] assms(8,9) by blast
  show ?thesis
    using w1(1) get_law [OF w1(2) assms(3) w1(4,3)] get_none [OF w1(2) assms(3)]
    by (auto split: option.split)
qed

lemma put_del_get:
  assumes "tab w h m F" "valid k" "val w u v" "u \<notin> F" "fits k v" "room (Suc (card (dom m)))"
  shows "\<exists>w1 w2 F2. put h k u w = Ok () w1 \<and> del h k w1 = Ok () w2 \<and> tab w2 h (m(k := None)) F2 \<and>
    get d h k w2 = Fail (-1) w2"
proof -
  have r: "room (card (dom m))" using assms(6) by (rule room_le) simp
  obtain w1 F1 where w1: "put h k u w = Ok () w1" "tab w1 h (m(k \<mapsto> v)) F1"
    using put_law [OF assms(1-5) r] by blast
  have "card (dom (m(k \<mapsto> v))) \<le> Suc (card (dom m))" using card_insert_le_m1 [of "Suc (card (dom m))" "dom m" k] by simp
  then have r1: "room (card (dom (m(k \<mapsto> v))))" using assms(6) room_le by blast
  obtain w2 F2 where w2: "del h k w1 = Ok () w2" "tab w2 h ((m(k \<mapsto> v))(k := None)) F2"
    using del_law [OF w1(2) assms(2) _ r1, of v] by auto
  then have "tab w2 h (m(k := None)) F2" by simp
  with w1(1) w2(1) show ?thesis using get_none [OF _ assms(2), of w2 h "m(k := None)" F2 d] by auto
qed

primrec put_all :: "nat \<Rightarrow> (string \<times> nat) list \<Rightarrow> 'w \<Rightarrow> (unit, 'w) outcome" where
  "put_all h [] = nc_return ()"
| "put_all h (p # ps) = nc_bind (put h (fst p) (snd p)) (\<lambda>_. put_all h ps)"

text \<open>A batch of writes leaves the map in which later writes win.\<close>

lemma put_all_ok:
  assumes "tab w h m F" "list_all2 (\<lambda>p (k, v). fst p = k \<and> valid k \<and> fits k v \<and> val w (snd p) v \<and> snd p \<notin> F) ps kvs"
    "room (card (dom m) + length ps)"
  shows "\<exists>w' F'. put_all h ps w = Ok () w' \<and> tab w' h (m ++ map_of (rev kvs)) F'"
  using assms
proof (induction ps arbitrary: w m F kvs)
  case Nil
  then show ?case by (auto simp: nc_return_def)
next
  case (Cons p ps)
  obtain k v kvs' where kvs: "kvs = (k, v) # kvs'" "fst p = k" "valid k" "fits k v" "val w (snd p) v" "snd p \<notin> F"
      "list_all2 (\<lambda>p (k, v). fst p = k \<and> valid k \<and> fits k v \<and> val w (snd p) v \<and> snd p \<notin> F) ps kvs'"
    using Cons.prems(2) by (auto simp: list_all2_Cons1)
  have r: "room (card (dom m))" using Cons.prems(3) by (rule room_le) simp
  obtain w1 F1 where w1: "put h k (snd p) w = Ok () w1" "tab w1 h (m(k \<mapsto> v)) F1"
      "\<forall>d y. d \<notin> F \<longrightarrow> val w d y \<longrightarrow> d \<notin> F1 \<and> val w1 d y"
    using put_law [OF Cons.prems(1) kvs(3,5,6,4) r] by blast
  have "list_all2 (\<lambda>p (k, v). fst p = k \<and> valid k \<and> fits k v \<and> val w1 (snd p) v \<and> snd p \<notin> F1) ps kvs'"
    using kvs(7) w1(3) by (fastforce elim!: list_all2_mono)
  moreover have "card (dom (m(k \<mapsto> v))) + length ps \<le> card (dom m) + length (p # ps)"
    using card_insert_le_m1 [of "Suc (card (dom m))" "dom m" k] by simp
  then have "room (card (dom (m(k \<mapsto> v))) + length ps)" using Cons.prems(3) room_le by blast
  ultimately obtain w2 F2 where "put_all h ps w1 = Ok () w2" "tab w2 h (m(k \<mapsto> v) ++ map_of (rev kvs')) F2"
    using Cons.IH [OF w1(2)] by blast
  moreover have "m(k \<mapsto> v) ++ map_of (rev kvs') = m ++ map_of (rev kvs)"
    using kvs(1) by (auto simp: map_add_def fun_eq_iff split: option.splits)
  ultimately show ?case using w1(1) kvs(2) by (auto simp: nc_bind_def)
qed

end

definition valid_key :: "string \<Rightarrow> bool" where
  "valid_key k \<longleftrightarrow> NUL \<notin> set k \<and> length k < STRING_MAX"

definition hash_room :: "nat \<Rightarrow> bool" where
  "hash_room n \<longleftrightarrow> n < 2 ^ 62"

lemma key_at_lit: "valid_key k \<Longrightarrow> key_at w (CLit k) k"
  by (simp add: key_at_def valid_key_def)

interpretation ht: string_table hash_table str_has valid_key pair_fits hash_room
  "\<lambda>h k u. hash_set h (CLit k) u" "\<lambda>d h k. hash_get d h (CLit k)" "\<lambda>h k. hash_delete h (CLit k)"
proof unfold_locales
  fix w :: "'a hash_heap_scheme" and h m F k u v
  assume "hash_table w h m F" "valid_key k" "str_has w u v" "u \<notin> F" "pair_fits k v" "hash_room (card (dom m))"
  then show "\<exists>w' F'. hash_set h (CLit k) u w = Ok () w' \<and> hash_table w' h (m(k \<mapsto> v)) F' \<and>
      (\<forall>d y. d \<notin> F \<longrightarrow> str_has w d y \<longrightarrow> d \<notin> F' \<and> str_has w' d y)"
    using hash_table_set [OF _ key_at_lit] by (auto simp: hash_room_def)
next
  fix w :: "'a hash_heap_scheme" and h m F k d y v
  assume "hash_table w h m F" "valid_key k" "str_has w d y" "d \<notin> F" "m k = Some v"
  then show "\<exists>w'. hash_get d h (CLit k) w = Ok () w' \<and> hash_table w' h m F \<and> str_has w' d v \<and>
      (\<forall>e z. e \<noteq> d \<longrightarrow> str_has w e z \<longrightarrow> str_has w' e z)"
    using hash_table_get [OF _ key_at_lit] by blast
next
  fix w :: "'a hash_heap_scheme" and h m F k v
  assume "hash_table w h m F" "valid_key k" "m k = Some v" "hash_room (card (dom m))"
  then show "\<exists>w' F'. hash_delete h (CLit k) w = Ok () w' \<and> hash_table w' h (m(k := None)) F' \<and>
      (\<forall>d y. d \<notin> F \<longrightarrow> str_has w d y \<longrightarrow> d \<notin> F' \<and> str_has w' d y)"
    using hash_table_delete [OF _ key_at_lit] by (auto simp: hash_room_def)
qed (auto simp: hash_room_def hash_table_def finite_hlookup
  intro: hash_table_get_none [unfolded hash_table_def, OF _ key_at_lit] hash_table_delete_none [unfolded hash_table_def, OF _ key_at_lit])

end
