(* ===== verification/NC_Hash_Whole.thy ===== *)
theory NC_Hash_Whole
  imports NC_Hash_Map
begin

text \<open>
  Operations on a whole hash table: emptying it, destroying it, listing its keys and values, and the
  test whether a key exists. All of them run over the 256 slots.
\<close>

section \<open>The loop over the slots\<close>

lemma for_range_inv:
  assumes "\<And>i w. a \<le> i \<Longrightarrow> i < a + n \<Longrightarrow> I i w \<Longrightarrow> \<exists>w'. body i w = Ok () w' \<and> I (Suc i) w'" "I a w"
  shows "\<exists>w'. for_range a n body w = Ok () w' \<and> I (a + n) w'"
  using assms
proof (induction n arbitrary: a w)
  case 0
  then show ?case by (simp add: nc_return_def)
next
  case (Suc n)
  obtain w1 where w1: "body a w = Ok () w1" "I (Suc a) w1" using Suc.prems(1) [of a w] Suc.prems(2) by auto
  have "\<exists>w'. for_range (Suc a) n body w1 = Ok () w' \<and> I (Suc a + n) w'"
    by (rule Suc.IH [OF _ w1(2)]) (use Suc.prems(1) in auto)
  with w1(1) show ?case by (auto simp: nc_bind_def)
qed

lemma for_range_fault:
  assumes "\<forall>j<i. body (a + j) w = Ok () w" "body (a + i) w = Fault f" "i < n"
  shows "for_range a n body w = Fault f"
  using assms
proof (induction n arbitrary: a i)
  case (Suc n)
  show ?case
  proof (cases i)
    case 0
    then show ?thesis using Suc.prems(2) by (simp add: nc_bind_def)
  next
    case (Suc j)
    have "for_range (Suc a) n body w = Fault f"
      by (rule Suc.IH [of j]) (use Suc.prems Suc in auto)
    moreover have "body a w = Ok () w" using Suc.prems(1) Suc by (metis add.right_neutral zero_less_Suc)
    ultimately show ?thesis by (simp add: nc_bind_def)
  qed
qed simp

section \<open>Emptying\<close>

definition empty_slots :: "nat \<Rightarrow> buckets \<Rightarrow> buckets" where
  "empty_slots i B j = (if j < i then map_option (\<lambda>(l, cs). (l, [])) (B j) else B j)"

definition drop_pairs :: "nat \<Rightarrow> (nat \<Rightarrow> (string \<times> string) list) \<Rightarrow> nat \<Rightarrow> (string \<times> string) list" where
  "drop_pairs i P j = (if j < i then [] else P j)"

lemma empty_slots_fp: "slot_strs (empty_slots i B) j = (if j < i then {} else slot_strs B j)"
  by (simp add: empty_slots_def slot_strs_def split: option.split)

lemma hash_truncate_step:
  assumes "hash_rep w h (empty_slots i B) (drop_pairs i P) n" "wf_lh w" "i < 256"
  shows "\<exists>w'. nc_bind (bucket h i) (\<lambda>b. case b of None \<Rightarrow> nc_return () | Some l \<Rightarrow> list_truncate l) w = Ok () w' \<and>
    hash_rep w' h (empty_slots (Suc i) B) (drop_pairs (Suc i) P) n \<and> wf_lh w' \<and>
    mod_hh (slot_strs B i) (slot_ents B i) (slot_lists B i) {h} w w'"
proof -
  let ?B = "empty_slots i B" and ?P = "drop_pairs i P"
  have hdr: "hashes w h = Some (hash_hdr ?B n)" and at: "slot_at w ?B ?P i" and sep: "separate ?B"
    using assms(1,3) by (auto simp: hash_rep_def)
  note b = bucket_eval [OF hdr assms(3)]
  show ?thesis
  proof (cases "B i")
    case None
    then have "P i = []" "?B i = None" using at by (simp_all add: slot_at_def empty_slots_def drop_pairs_def)
    moreover have "empty_slots (Suc i) B = ?B" "drop_pairs (Suc i) P = ?P"
      using None \<open>P i = []\<close> by (auto simp: empty_slots_def drop_pairs_def fun_eq_iff less_Suc_eq)
    ultimately show ?thesis using b assms(1,2) by (simp add: nc_simps)
  next
    case (Some x)
    obtain l cs where x: "B i = Some (l, cs)" using Some by (cases x) auto
    have Bi: "?B i = Some (l, cs)" using x by (simp add: empty_slots_def)
    have l: "list_at w l cs (flat (P i))" using at Bi by (simp add: slot_at_def drop_pairs_def)
    have lt: "l < brk w" using list_cells_lt(1) [of w l cs] l assms(2) by (simp add: list_at_def)
    let ?w = "cleared l cs w"
    have run: "list_truncate l w = Ok () ?w" using l assms(2) by (rule list_truncate_ok)
    have m: "mod_hh (snd ` set cs) (fst ` set cs) {l} {h} w ?w"
      by (rule mod_hh_mono [OF mod_lh_hh [OF cleared_mod]]) auto
    have B': "empty_slots (Suc i) B = ?B(i \<mapsto> (l, []))" "drop_pairs (Suc i) P = ?P(i := [])"
      using x by (auto simp: empty_slots_def drop_pairs_def fun_eq_iff less_Suc_eq)
    have hd: "hash_hdr (empty_slots (Suc i) B) n = hash_hdr ?B n"
      using Bi by (auto simp: hash_hdr_def B')
    have "hash_rep ?w h (empty_slots (Suc i) B) (drop_pairs (Suc i) P) n"
      by (rule hash_rep_update [OF assms(1-3) m _ _ _ B'])
        (use Bi hdr hd cleared_empty [of l cs w] mod_lh_hashes [OF cleared_mod, of l cs w] in \<open>auto simp: slot_fp\<close>)
    moreover have "wf_lh ?w" using assms(2) lt by (rule cleared_wf)
    ultimately show ?thesis using b run Bi m by (simp add: nc_bind_def slot_fp [of B i, OF x])
  qed
qed

lemma hash_truncate_ok:
  fixes w :: "'z hash_heap_scheme"
  assumes "hash_rep w h B P n" "wf_lh w"
  shows "\<exists>w'. hash_truncate h w = Ok () w' \<and> hash_rep w' h (empty_slots 256 B) (\<lambda>_. []) 0 \<and> wf_lh w' \<and>
    mod_hh (hash_strs B) (hash_ents B) (hash_lists B) {h} w w'"
proof -
  let ?body = "\<lambda>i. nc_bind (bucket h i) (\<lambda>b. case b of None \<Rightarrow> nc_return () | Some l \<Rightarrow> list_truncate l)"
  define I where "I = (\<lambda>i (w' :: 'z hash_heap_scheme). hash_rep w' h (empty_slots i B) (drop_pairs i P) n \<and> wf_lh w' \<and> mod_hh (hash_strs B) (hash_ents B) (hash_lists B) {h} w w')"
  have "empty_slots 0 B = B" "drop_pairs 0 P = P" by (auto simp: empty_slots_def drop_pairs_def)
  then have I0: "I 0 w" using assms by (simp add: I_def)
  have "\<exists>w'. for_range 0 256 ?body w = Ok () w' \<and> I (0 + 256) w'"
  proof (rule for_range_inv [where I = I, OF _ I0])
    fix i w1 assume i: "i < 0 + 256" and "I i w1"
    then have r: "hash_rep w1 h (empty_slots i B) (drop_pairs i P) n" "wf_lh w1" "mod_hh (hash_strs B) (hash_ents B) (hash_lists B) {h} w w1"
      by (auto simp: I_def)
    obtain w2 where w2: "?body i w1 = Ok () w2" "hash_rep w2 h (empty_slots (Suc i) B) (drop_pairs (Suc i) P) n" "wf_lh w2"
        "mod_hh (slot_strs B i) (slot_ents B i) (slot_lists B i) {h} w1 w2"
      using hash_truncate_step [OF r(1,2)] i by auto
    have "mod_hh (hash_strs B) (hash_ents B) (hash_lists B) {h} w w2"
      by (rule mod_hh_mono [OF mod_hh_trans [OF r(3) w2(4)]]) (use i in \<open>auto simp: hash_strs_def hash_ents_def hash_lists_def\<close>)
    then show "\<exists>w'. ?body i w1 = Ok () w' \<and> I (Suc i) w'" using w2(1-3) by (auto simp: I_def)
  qed
  then obtain w1 where w1: "for_range 0 256 ?body w = Ok () w1" "I 256 w1" by auto
  then have r: "hash_rep w1 h (empty_slots 256 B) (drop_pairs 256 P) n" "wf_lh w1" "mod_hh (hash_strs B) (hash_ents B) (hash_lists B) {h} w w1"
    by (auto simp: I_def)
  let ?w = "w1\<lparr>hashes := (hashes w1)(h \<mapsto> hash_hdr (empty_slots 256 B) 0)\<rparr>"
  have h1: "hashes w1 h = Some (hash_hdr (empty_slots 256 B) n)" using r(1) by (simp add: hash_rep_def)
  have "(hash_hdr (empty_slots 256 B) n)\<lparr>h_count := 0\<rparr> = hash_hdr (empty_slots 256 B) 0" by (simp add: hash_hdr_def)
  then have "hash_truncate h w = Ok () ?w"
    using w1(1) h1 by (simp add: hash_truncate_def nc_bind_def upd_hash_def)
  moreover have "slot_at ?w B' Q i = slot_at w1 B' Q i" for B' Q i by (simp add: slot_at_def split: option.split)
  then have "hash_rep ?w h (empty_slots 256 B) (drop_pairs 256 P) 0" using r(1) by (simp add: hash_rep_def)
  then have "hash_rep ?w h (empty_slots 256 B) (\<lambda>_. []) 0"
    by (auto simp: hash_rep_def slot_at_def drop_pairs_def split: option.splits)
  moreover have "mod_hh (hash_strs B) (hash_ents B) (hash_lists B) {h} w ?w" using r(3) by (simp add: mod_hh_def)
  ultimately show ?thesis using r by (intro exI [of _ ?w]) simp
qed

lemma hash_table_truncate:
  assumes "hash_table w h m F"
  shows "\<exists>w'. hash_truncate h w = Ok () w' \<and> hash_table w' h Map.empty {} \<and>
    (\<forall>d y. d \<notin> F \<longrightarrow> str_has w d y \<longrightarrow> str_has w' d y)"
proof -
  obtain B P where r: "hash_rep w h B P (card (dom m))" "F = hash_strs B" "wf_lh w" "mem_ok w"
    using assms by (auto simp: hash_table_def)
  obtain w' where w': "hash_truncate h w = Ok () w'" "hash_rep w' h (empty_slots 256 B) (\<lambda>_. []) 0" "wf_lh w'"
      "malloc_ok w' = malloc_ok w" "\<forall>a. a \<notin> hash_strs B \<longrightarrow> strs w' a = strs w a"
    using hash_truncate_ok [OF r(1,3)] by (auto simp: mod_hh_def)
  have "hash_strs (empty_slots 256 B) = {}" by (simp add: hash_strs_def empty_slots_fp)
  then have "hash_table w' h Map.empty {}"
    using w'(2-4) r(4) pairs_ok_empty hlookup_empty unfolding hash_table_def mem_ok_def
    by (metis card.empty dom_empty)
  then show ?thesis using w'(1,5) r(2) by (auto simp: str_has_def)
qed

section \<open>Destruction\<close>

definition free_slots :: "nat \<Rightarrow> buckets \<Rightarrow> buckets" where
  "free_slots i B j = (if j < i then None else B j)"

lemma hash_hdr_clear:
  "i < 256 \<Longrightarrow> (hash_hdr B n)\<lparr>h_bucket := (h_bucket (hash_hdr B n))[i := None]\<rparr> = hash_hdr (B(i := None)) n"
  by (auto simp: hash_hdr_def nth_list_update intro!: nth_equalityI)

lemma free_slots_fp:
  "slot_strs (free_slots i B) j = (if j < i then {} else slot_strs B j)"
  "slot_ents (free_slots i B) j = (if j < i then {} else slot_ents B j)"
  "slot_lists (free_slots i B) j = (if j < i then {} else slot_lists B j)"
  by (simp_all add: free_slots_def slot_strs_def slot_ents_def slot_lists_def)

lemma separate_mono:
  assumes "separate B"
    "\<And>j. slot_lists B' j \<subseteq> slot_lists B j \<and> slot_ents B' j \<subseteq> slot_ents B j \<and> slot_strs B' j \<subseteq> slot_strs B j"
  shows "separate B'"
  using assms unfolding separate_def by blast

definition destroy_body :: "nat \<Rightarrow> nat \<Rightarrow> (unit, 'z) hnc" where
  "destroy_body h i = nc_bind (bucket h i) (\<lambda>b.
     case b of None \<Rightarrow> nc_return ()
     | Some l \<Rightarrow> nc_bind (list_destroy (Some l)) (\<lambda>_.
         upd_hash h (\<lambda>x. x\<lparr>h_bucket := (h_bucket x)[i := None]\<rparr>)))"

text \<open>The memory after the strings, entries and lists of the given slots were freed.\<close>

definition freed :: "nat set \<Rightarrow> buckets \<Rightarrow> 'z hash_heap_scheme \<Rightarrow> 'z hash_heap_scheme \<Rightarrow> bool" where
  "freed J B w w' \<longleftrightarrow> strs w' = strs w |` (- (\<Union>j\<in>J. slot_strs B j)) \<and> ents w' = ents w |` (- (\<Union>j\<in>J. slot_ents B j)) \<and>
     lists w' = lists w |` (- (\<Union>j\<in>J. slot_lists B j)) \<and> brk w' = brk w \<and> malloc_ok w' = malloc_ok w"

lemma hash_destroy_step:
  assumes "hash_rep w1 h (free_slots i B) P n" "wf_lh w1" "i < 256" "freed {..<i} B w w1"
  shows "\<exists>w'. destroy_body h i w1 = Ok () w' \<and> hash_rep w' h (free_slots (Suc i) B) (drop_pairs (Suc i) P) n \<and>
    wf_lh w' \<and> freed {..<Suc i} B w w' \<and> mod_hh UNIV UNIV UNIV {h} w1 w'"
proof -
  let ?B = "free_slots i B"
  have hdr: "hashes w1 h = Some (hash_hdr ?B n)" and at: "\<And>j. j < 256 \<Longrightarrow> slot_at w1 ?B P j" and sep: "separate ?B"
    using assms(1) by (auto simp: hash_rep_def)
  note b = bucket_eval [OF hdr assms(3)]
  have B': "free_slots (Suc i) B = ?B(i := None)" by (auto simp: free_slots_def fun_eq_iff less_Suc_eq)
  show ?thesis
  proof (cases "B i")
    case None
    have BB: "free_slots (Suc i) B = ?B" using None by (auto simp: free_slots_def fun_eq_iff less_Suc_eq)
    have "slot_strs B i = {}" "slot_ents B i = {}" "slot_lists B i = {}"
      using None by (simp_all add: slot_strs_def slot_ents_def slot_lists_def)
    then have "freed {..<Suc i} B w w1" using assms(4) by (simp add: freed_def lessThan_Suc)
    moreover have "slot_at w1 ?B (drop_pairs (Suc i) P) j" if "j < 256" for j
      using at [OF that] None by (auto simp: slot_at_def drop_pairs_def free_slots_def less_Suc_eq split: option.splits if_splits)
    then have "hash_rep w1 h (free_slots (Suc i) B) (drop_pairs (Suc i) P) n"
      unfolding BB using hdr sep by (simp add: hash_rep_def)
    moreover have "destroy_body h i w1 = Ok () w1"
      using b None by (simp add: destroy_body_def nc_simps free_slots_def)
    ultimately show ?thesis using assms(2) mod_hh_refl by blast
  next
    case (Some x)
    obtain l cs where x: "B i = Some (l, cs)" using Some by (cases x) auto
    have Bi: "?B i = Some (l, cs)" using x by (simp add: free_slots_def)
    have l: "list_at w1 l cs (flat (P i))" using at [OF assms(3)] Bi by (simp add: slot_at_def)
    let ?w2 = "w1\<lparr>strs := strs w1 |` (- snd ` set cs), ents := ents w1 |` (- fst ` set cs), lists := (lists w1)(l := None)\<rparr>"
    let ?w3 = "?w2\<lparr>hashes := (hashes w1)(h \<mapsto> hash_hdr (free_slots (Suc i) B) n)\<rparr>"
    have "list_destroy (Some l) w1 = Ok () ?w2" using l assms(2) by (rule list_destroy_ok)
    then have run: "destroy_body h i w1 = Ok () ?w3"
      using b Bi hdr hash_hdr_clear [OF assms(3), of ?B n] by (simp add: destroy_body_def nc_bind_def upd_hash_def B')
    have m: "mod_hh (snd ` set cs) (fst ` set cs) {l} {h} w1 ?w3" by (auto simp: mod_hh_def)
    have fp: "slot_lists ?B i = {l}" "slot_ents ?B i = fst ` set cs" "slot_strs ?B i = snd ` set cs" using slot_fp [of ?B i, OF Bi] .
    have "slot_at ?w3 (free_slots (Suc i) B) (drop_pairs (Suc i) P) j" if j: "j < 256" for j
    proof (cases "j \<le> i")
      case True
      then show ?thesis by (simp add: slot_at_def free_slots_def drop_pairs_def)
    next
      case False
      then have "j \<noteq> i" by simp
      then have "slot_lists ?B j \<inter> {l} = {}" "slot_ents ?B j \<inter> fst ` set cs = {}" "slot_strs ?B j \<inter> snd ` set cs = {}"
        using sep j assms(3) unfolding separate_def fp [symmetric] by blast+
      then have "slot_at ?w3 ?B P j" by (rule slot_at_frame [OF at [OF j] m])
      moreover have "drop_pairs (Suc i) P j = P j" "free_slots (Suc i) B j = ?B j"
        using False by (simp_all add: drop_pairs_def free_slots_def)
      ultimately show ?thesis by (auto simp: slot_at_def split: option.splits)
    qed
    moreover have "separate (free_slots (Suc i) B)"
      by (rule separate_mono [OF sep]) (auto simp: free_slots_fp)
    ultimately have "hash_rep ?w3 h (free_slots (Suc i) B) (drop_pairs (Suc i) P) n" by (simp add: hash_rep_def)
    moreover have "wf_lh ?w3"
      using assms(2) by (auto simp: wf_lh_def wf_strs_def restrict_map_def split: if_splits)
    moreover have "mod_hh UNIV UNIV UNIV {h} w1 ?w3" by (rule mod_hh_mono [OF m]) simp_all
    moreover have "freed {..<Suc i} B w ?w3"
      using assms(4) slot_fp [of B i, OF x] by (auto simp: freed_def lessThan_Suc restrict_map_def fun_eq_iff)
    ultimately show ?thesis using run by blast
  qed
qed

lemma hash_destroy_ok:
  fixes w :: "'z hash_heap_scheme"
  assumes "hash_rep w h B P n" "wf_lh w"
  shows "\<exists>w'. hash_destroy (Some h) w = Ok () w' \<and> freed {..<256} B w w' \<and> hashes w' h = None \<and> wf_lh w' \<and> mod_hh UNIV UNIV UNIV {h} w w'"
proof -
  define I where "I = (\<lambda>i (w' :: 'z hash_heap_scheme). (\<exists>P. hash_rep w' h (free_slots i B) P n) \<and> wf_lh w' \<and> freed {..<i} B w w' \<and>
    mod_hh UNIV UNIV UNIV {h} w w')"
  have "free_slots 0 B = B" "freed {..<0} B w w" by (auto simp: free_slots_def freed_def)
  then have I0: "I 0 w" using assms by (auto simp: I_def)
  have "\<exists>w'. for_range 0 256 (destroy_body h) w = Ok () w' \<and> I (0 + 256) w'"
  proof (rule for_range_inv [where I = I, OF _ I0])
    fix i w1 assume i: "i < 0 + 256" and "I i w1"
    then obtain Q where r: "hash_rep w1 h (free_slots i B) Q n" "wf_lh w1" "freed {..<i} B w w1" "mod_hh UNIV UNIV UNIV {h} w w1"
      by (auto simp: I_def)
    obtain w2 where w2: "destroy_body h i w1 = Ok () w2" "hash_rep w2 h (free_slots (Suc i) B) (drop_pairs (Suc i) Q) n" "wf_lh w2"
        "freed {..<Suc i} B w w2" "mod_hh UNIV UNIV UNIV {h} w1 w2"
      using hash_destroy_step [OF r(1,2) _ r(3)] i by auto
    have "mod_hh UNIV UNIV UNIV {h} w w2" by (rule mod_hh_mono [OF mod_hh_trans [OF r(4) w2(5)]]) simp_all
    then show "\<exists>w'. destroy_body h i w1 = Ok () w' \<and> I (Suc i) w'" using w2(1-4) by (auto simp: I_def)
  qed
  then obtain w1 P' where w1: "for_range 0 256 (destroy_body h) w = Ok () w1" "hash_rep w1 h (free_slots 256 B) P' n"
      "wf_lh w1" "freed {..<256} B w w1" "mod_hh UNIV UNIV UNIV {h} w w1"
    by (auto simp: I_def)
  let ?w = "w1\<lparr>hashes := (hashes w1)(h := None)\<rparr>"
  have "hash_destroy (Some h) w = Ok () ?w"
    using w1(1,2)
    by (simp add: hash_destroy_def destroy_body_def [abs_def] nc_bind_def deref_def nc_return_def free_hash_def hash_rep_def)
  moreover have "mod_hh UNIV UNIV UNIV {h} w ?w" using w1(5) by (simp add: mod_hh_def)
  ultimately show ?thesis using w1(3,4) by (auto simp: freed_def)
qed

section \<open>Listing keys and values\<close>

definition sel :: "bool \<Rightarrow> string \<times> string \<Rightarrow> string" where
  "sel vs p = (if vs then snd p else fst p)"

lemma pairs_loop_ok:
  assumes "list_at w d ds yss" "dseg (ents w) q cs None" "vals w cs (flat ps)" "length ps < k"
    "fst ` set cs \<inter> fst ` set ds = {}" "snd ` set cs \<subseteq> {..<brk w}" "fst ` set cs \<subseteq> {..<brk w}"
    "length ds + length ps < 2 ^ 64" "mem_ok w" "wf_lh w"
  shows "\<exists>w' es. hash_pairs_loop vs k (hd_addr cs None) d w = Ok () w' \<and> list_at w' d (ds @ es) (yss @ map (sel vs) ps) \<and>
    mod_lh {brk w..} ({brk w..} \<union> fst ` set ds) {d} w w' \<and> wf_lh w' \<and> set es \<subseteq> {brk w..} \<times> {brk w..}"
  using assms
proof (induction k arbitrary: w q cs ps ds yss)
  case (Suc k)
  show ?case
  proof (cases ps)
    case Nil
    then have "cs = []" using Suc.prems(3) by (simp add: vals_def)
    with Nil Suc.prems show ?thesis by (intro exI [of _ w] exI [of _ "[]"]) (simp add: nc_return_def)
  next
    case (Cons p ps')
    obtain ky vl where p: "p = (ky, vl)" by (cases p)
    obtain b t c u cs' where cs: "cs = (b, t) # (c, u) # cs'" "str_has w t ky" "str_has w u vl" "vals w cs' (flat ps')"
      using Suc.prems(3) Cons p by (auto simp: vals_def list_all2_Cons2)
    have e: "ents w b = Some \<lparr>e_value = Some t, e_next = Some c, e_prev = q\<rparr>"
        "ents w c = Some \<lparr>e_value = Some u, e_next = hd_addr cs' None, e_prev = Some b\<rparr>" "dseg (ents w) (Some c) cs' None"
      using Suc.prems(2) cs(1) by simp_all
    define v where "v = (if vs then u else t)"
    have v: "str_has w v (sel vs p)" using cs(2,3) p by (simp add: v_def sel_def)
    have len: "length ds + 1 < 2 ^ 64" using Suc.prems(8) Cons by simp
    obtain w1 a s where w1: "list_push d v w = Ok () w1" "list_at w1 d (ds @ [(a, s)]) (yss @ [sel vs p])"
        "mod_lh {s} (insert a (fst ` set ds)) {d} w w1" "brk w \<le> a" "brk w \<le> s" "a < brk w1" "s < brk w1"
      using list_push_ok [OF Suc.prems(1) str_has_src [OF v] len Suc.prems(9,10)] by blast
    have wf1: "wf_lh w1"
      using list_push_wf [OF w1(3) _ Suc.prems(10) w1(6,7)] Suc.prems(1) by (simp add: list_at_def)
    have ne: "b \<notin> insert a (fst ` set ds)" "c \<notin> insert a (fst ` set ds)" using Suc.prems(5,7) cs(1) w1(4) by auto
    have e1: "ents w1 b = ents w b" "ents w1 c = ents w c" using mod_lh_ents [OF w1(3)] ne by blast+
    have sub: "fst ` set cs' \<subseteq> {..<brk w}" "snd ` set cs' \<subseteq> {..<brk w}" "fst ` set cs' \<inter> fst ` set ds = {}"
      using Suc.prems(5-7) cs(1) by auto
    note fr = push_frame [OF w1(3-5) sub(3,2,1)]
    have d1: "dseg (ents w1) (Some c) cs' None" using e(3) fr(1) by simp
    have v1: "vals w1 cs' (flat ps')" using cs(4) fr(2) by simp
    have br: "brk w \<le> brk w1" using mod_lh_brk [OF w1(3)] .
    have "\<exists>w' es. hash_pairs_loop vs k (hd_addr cs' None) d w1 = Ok () w' \<and>
        list_at w' d ((ds @ [(a, s)]) @ es) ((yss @ [sel vs p]) @ map (sel vs) ps') \<and>
        mod_lh {brk w1..} ({brk w1..} \<union> fst ` set (ds @ [(a, s)])) {d} w1 w' \<and> wf_lh w' \<and> set es \<subseteq> {brk w1..} \<times> {brk w1..}"
    proof (rule Suc.IH [OF w1(2) d1 v1])
      show "length ps' < k" "length (ds @ [(a, s)]) + length ps' < 2 ^ 64" using Suc.prems(4,8) Cons by simp_all
      show "fst ` set cs' \<inter> fst ` set (ds @ [(a, s)]) = {}" using sub w1(4) by auto
      show "snd ` set cs' \<subseteq> {..<brk w1}" "fst ` set cs' \<subseteq> {..<brk w1}" using sub br by auto
      show "mem_ok w1" using Suc.prems(9) mod_lh_mem_ok [OF w1(3)] by simp
    qed (rule wf1)
    then obtain w' es where w': "hash_pairs_loop vs k (hd_addr cs' None) d w1 = Ok () w'"
        "list_at w' d (ds @ (a, s) # es) (yss @ map (sel vs) ps)"
        "mod_lh {brk w1..} ({brk w1..} \<union> fst ` set (ds @ [(a, s)])) {d} w1 w'" "wf_lh w'" "set es \<subseteq> {brk w1..} \<times> {brk w1..}"
      using Cons by auto
    have "mod_lh {brk w..} ({brk w..} \<union> fst ` set ds) {d} w w'"
      by (rule mod_lh_mono [OF mod_lh_trans [OF w1(3) w'(3)]]) (use br w1(4,5) in auto)
    moreover have "hash_pairs_loop vs (Suc k) (hd_addr cs None) d w = Ok () w'"
      using cs(1) e e1 w1(1) w'(1) v_def by (cases vs) (simp_all add: list_run)
    moreover have "set ((a, s) # es) \<subseteq> {brk w..} \<times> {brk w..}" using w'(5) br w1(4,5) by auto
    ultimately show ?thesis using w'(2,4) by blast
  qed
qed simp

definition pairs_body :: "bool \<Rightarrow> nat \<Rightarrow> nat \<Rightarrow> nat \<Rightarrow> (unit, 'z) hnc" where
  "pairs_body vs dest hash i = nc_bind (bucket hash i) (\<lambda>b.
     case b of None \<Rightarrow> nc_return ()
     | Some l \<Rightarrow> (\<lambda>w. nc_bind (get_list l) (\<lambda>h. hash_pairs_loop vs (Suc (brk w)) (l_head h) dest) w))"

text \<open>The destination list does not share an object with the table.\<close>

definition apart :: "buckets \<Rightarrow> nat \<Rightarrow> (nat \<times> nat) list \<Rightarrow> bool" where
  "apart B d ds \<longleftrightarrow> (\<forall>i<256. d \<notin> slot_lists B i \<and> slot_ents B i \<inter> fst ` set ds = {} \<and> slot_strs B i \<inter> snd ` set ds = {})"

lemma pairs_step:
  assumes "hash_rep w h B P n" "list_at w d ds yss" "apart B d ds" "mem_ok w" "wf_lh w" "i < 256"
    "length ds + length (P i) < 2 ^ 64"
  shows "\<exists>w' es. pairs_body vs d h i w = Ok () w' \<and> hash_rep w' h B P n \<and> list_at w' d (ds @ es) (yss @ map (sel vs) (P i)) \<and>
    mod_lh {brk w..} ({brk w..} \<union> fst ` set ds) {d} w w' \<and> wf_lh w' \<and> apart B d (ds @ es) \<and>
    set es \<subseteq> {brk w..} \<times> {brk w..}"
proof -
  have hdr: "hashes w h = Some (hash_hdr B n)" and at: "slot_at w B P i"
    using assms(1,6) by (auto simp: hash_rep_def)
  note b = bucket_eval [OF hdr assms(6)]
  show ?thesis
  proof (cases "B i")
    case None
    then have "pairs_body vs d h i w = Ok () w" "P i = []" using b at by (simp_all add: pairs_body_def nc_simps slot_at_def)
    with assms show ?thesis by (intro exI [of _ w] exI [of _ "[]"]) simp
  next
    case (Some x)
    obtain l cs where x: "B i = Some (l, cs)" using Some by (cases x) auto
    have l: "list_cells w l cs" "vals w cs (flat (P i))" using at x by (auto simp: slot_at_def list_at_def)
    note fp = slot_fp [of B i, OF x] and lt = slot_at_lt [OF at assms(5)]
    have "length cs = 2 * length (P i)" using vals_length [OF l(2)] by simp
    then have "length (P i) < Suc (brk w)" using list_cells_lt(3) [OF l(1) assms(5)] by simp
    moreover have "dseg (ents w) None cs None" "lists w l = Some (header cs)" using l(1) by (simp_all add: list_cells_def)
    moreover have "fst ` set cs \<inter> fst ` set ds = {}" using assms(3,6) fp(2) unfolding apart_def by metis
    ultimately obtain w' es where w': "hash_pairs_loop vs (Suc (brk w)) (hd_addr cs None) d w = Ok () w'"
        "list_at w' d (ds @ es) (yss @ map (sel vs) (P i))" "mod_lh {brk w..} ({brk w..} \<union> fst ` set ds) {d} w w'" "wf_lh w'"
        "set es \<subseteq> {brk w..} \<times> {brk w..}"
      using pairs_loop_ok [OF assms(2) _ l(2) _ _ _ _ assms(7,4,5), of None "Suc (brk w)" vs] lt fp by auto
    have "pairs_body vs d h i w = Ok () w'"
      using b x w'(1) \<open>lists w l = Some (header cs)\<close> by (simp add: pairs_body_def nc_bind_def get_list_def)
    moreover have "hash_rep w' h B P n"
    proof (rule hash_rep_frame [OF assms(1) mod_lh_hh [OF w'(3)]])
      fix j :: nat assume j: "j < 256"
      have "d \<notin> slot_lists B j" "slot_ents B j \<inter> fst ` set ds = {}" using assms(3) j by (auto simp: apart_def)
      moreover have "slot_ents B j \<inter> {brk w..} = {}" "slot_strs B j \<inter> {brk w..} = {}"
        using hash_rep_lt(2,3) [OF assms(1,5) j] leD by blast+
      ultimately show "slot_lists B j \<inter> {d} = {} \<and> slot_ents B j \<inter> ({brk w..} \<union> fst ` set ds) = {} \<and> slot_strs B j \<inter> {brk w..} = {}"
        by blast
    qed simp
    moreover have "apart B d (ds @ es)"
      unfolding apart_def
    proof (intro allI impI)
      fix j :: nat assume j: "j < 256"
      have "d \<notin> slot_lists B j" "slot_ents B j \<inter> fst ` set ds = {}" "slot_strs B j \<inter> snd ` set ds = {}"
        using assms(3) j by (auto simp: apart_def)
      moreover have "fst ` set es \<subseteq> {brk w..}" "snd ` set es \<subseteq> {brk w..}" using w'(5) by auto
      then have "slot_ents B j \<inter> fst ` set es = {}" "slot_strs B j \<inter> snd ` set es = {}"
        using hash_rep_lt(2,3) [OF assms(1,5) j] leD by blast+
      ultimately show "d \<notin> slot_lists B j \<and> slot_ents B j \<inter> fst ` set (ds @ es) = {} \<and> slot_strs B j \<inter> snd ` set (ds @ es) = {}"
        by (simp add: image_Un Int_Un_distrib)
    qed
    ultimately show ?thesis using w'(2-5) by blast
  qed
qed

definition all_pairs :: "(nat \<Rightarrow> (string \<times> string) list) \<Rightarrow> nat \<Rightarrow> (string \<times> string) list" where
  "all_pairs P i = concat (map P [0..<i])"

lemma all_pairs_Suc: "all_pairs P (Suc i) = all_pairs P i @ P i"
  by (simp add: all_pairs_def)

lemma all_pairs_length: "i \<le> j \<Longrightarrow> length (all_pairs P i) \<le> length (all_pairs P j)"
  by (induction j) (auto simp: all_pairs_Suc le_Suc_eq)

lemma hash_get_pairs_ok:
  fixes w :: "'z hash_heap_scheme"
  assumes "hash_rep w h B P n" "list_at w d ds yss" "apart B d ds" "mem_ok w" "wf_lh w" "length (all_pairs P 256) < 2 ^ 64"
  shows "\<exists>w' es. hash_get_pairs vs d h w = Ok () w' \<and> hash_rep w' h B P n \<and> list_at w' d es (map (sel vs) (all_pairs P 256)) \<and>
    wf_lh w' \<and> mem_ok w' \<and> mod_lh (snd ` set ds \<union> {brk w..}) (fst ` set ds \<union> {brk w..}) {d} w w' \<and> set es \<subseteq> {brk w..} \<times> {brk w..}"
proof -
  let ?w = "cleared d ds w"
  define I where "I = (\<lambda>i (w' :: 'z hash_heap_scheme). \<exists>es. hash_rep w' h B P n \<and> list_at w' d es (map (sel vs) (all_pairs P i)) \<and>
    wf_lh w' \<and> mem_ok w' \<and> apart B d es \<and> mod_lh (snd ` set ds \<union> {brk w..}) (fst ` set ds \<union> {brk w..}) {d} w w' \<and> set es \<subseteq> {brk w..} \<times> {brk w..})"
  have t: "list_truncate d w = Ok () ?w" using assms(2,5) by (rule list_truncate_ok)
  have "d < brk w" using list_cells_lt(1) [of w d ds] assms(2,5) by (simp add: list_at_def)
  then have wf: "wf_lh ?w" using cleared_wf [OF assms(5)] by blast
  have "hash_rep ?w h B P n"
    by (rule hash_rep_frame [OF assms(1) mod_lh_hh [OF cleared_mod]]) (use assms(3) in \<open>auto simp: apart_def\<close>)
  moreover have "apart B d []" "mem_ok ?w" using assms(3,4) mod_lh_mem_ok [OF cleared_mod] by (auto simp: apart_def)
  moreover have "mod_lh (snd ` set ds \<union> {brk w..}) (fst ` set ds \<union> {brk w..}) {d} w ?w" by (rule mod_lh_mono [OF cleared_mod]) auto
  ultimately have I0: "I 0 ?w" using wf cleared_empty [of d ds w] unfolding I_def by (intro exI [of _ "[]"]) (simp add: all_pairs_def)
  have "\<exists>w'. for_range 0 256 (pairs_body vs d h) ?w = Ok () w' \<and> I (0 + 256) w'"
  proof (rule for_range_inv [where I = I, OF _ I0])
    fix i w1 assume i: "i < 0 + 256" and "I i w1"
    then obtain es where r: "hash_rep w1 h B P n" "list_at w1 d es (map (sel vs) (all_pairs P i))" "apart B d es" "mem_ok w1" "wf_lh w1"
        "mod_lh (snd ` set ds \<union> {brk w..}) (fst ` set ds \<union> {brk w..}) {d} w w1" "set es \<subseteq> {brk w..} \<times> {brk w..}"
      by (auto simp: I_def)
    have "length es = length (all_pairs P i)" using vals_length [of w1 es] r(2) by (auto simp: list_at_def)
    then have len: "length es + length (P i) < 2 ^ 64"
      using all_pairs_length [of "Suc i" 256 P] i assms(6) by (simp add: all_pairs_Suc)
    have i': "i < 256" using i by simp
    obtain w' fs where w': "pairs_body vs d h i w1 = Ok () w'" "hash_rep w' h B P n" "wf_lh w'" "apart B d (es @ fs)"
        "list_at w' d (es @ fs) (map (sel vs) (all_pairs P i) @ map (sel vs) (P i))"
        "mod_lh {brk w1..} ({brk w1..} \<union> fst ` set es) {d} w1 w'" "set fs \<subseteq> {brk w1..} \<times> {brk w1..}"
      using pairs_step [OF r(1-5) i' len, of vs] by blast
    have br: "brk w \<le> brk w1" by (rule mod_lh_brk [OF r(6)])
    have "fst ` set es \<subseteq> {brk w..}" using r(7) by auto
    then have "mod_lh (snd ` set ds \<union> {brk w..}) (fst ` set ds \<union> {brk w..}) {d} w w'"
      by (intro mod_lh_mono [OF mod_lh_trans [OF r(6) w'(6)]]) (use br in auto)
    moreover have "set (es @ fs) \<subseteq> {brk w..} \<times> {brk w..}" using r(7) w'(7) br by auto
    ultimately have "I (Suc i) w'"
      using w'(2-5) mod_lh_mem_ok [OF w'(6)] r(4) unfolding I_def all_pairs_Suc map_append by (intro exI [of _ "es @ fs"]) simp
    with w'(1) show "\<exists>w'. pairs_body vs d h i w1 = Ok () w' \<and> I (Suc i) w'" by blast
  qed
  then obtain w' where w': "for_range 0 256 (pairs_body vs d h) ?w = Ok () w'" "I 256 w'" by auto
  then have "hash_get_pairs vs d h w = Ok () w'"
    using t by (simp add: hash_get_pairs_def nc_bind_def [of "list_truncate d"] pairs_body_def [abs_def])
  with w'(2) show ?thesis unfolding I_def by blast
qed

end
