(* ===== verification/NC_String_Props.thy ===== *)
theory NC_String_Props
  imports NC_String_Text_Laws
begin

text \<open>
  The properties of the string component, with witnesses on a small concrete memory.
\<close>

section \<open>A concrete memory\<close>

definition lit_str :: "string \<Rightarrow> string_t" where
  "lit_str xs = str_of (map Some (xs @ [NUL])) (length xs)"

definition mem0 :: heap where
  "mem0 = \<lparr>strs = [0 \<mapsto> lit_str ''ab'', 1 \<mapsto> lit_str ''c d'', 2 \<mapsto> lit_str [], 3 \<mapsto> lit_str ''4294967295'',
     4 \<mapsto> lit_str ''-4294967295'', 5 \<mapsto> lit_str [CHR ''a'', CR, LF], 6 \<mapsto> lit_str ''aba'', 7 \<mapsto> lit_str ''%4'',
     8 \<mapsto> lit_str ''c%20d''], brk = 9, malloc_ok = (\<lambda>_ _. True)\<rparr>"

definition mem_low :: heap where
  "mem_low = mem0\<lparr>malloc_ok := (\<lambda>_ _. False)\<rparr>"

lemma lit_str_has: "strs w s = Some (lit_str xs) \<Longrightarrow> length xs < STRING_MAX \<Longrightarrow> str_has w s xs"
  by (auto simp: str_has_def lit_str_def holds_def intro!: str_repI)

lemma mem0_has:
  "str_has mem0 0 ''ab''" "str_has mem0 1 ''c d''" "str_has mem0 2 []" "str_has mem0 3 ''4294967295''"
  "str_has mem0 4 ''-4294967295''" "str_has mem0 5 [CHR ''a'', CR, LF]" "str_has mem0 6 ''aba''" "str_has mem0 7 ''%4''"
  "str_has mem0 8 ''c%20d''"
  by (rule lit_str_has; simp add: mem0_def STRING_MAX_def)+

lemma mem0_ok: "mem_ok mem0"
  by (simp add: mem0_def mem_ok_def)

lemma mem0_wf: "wf_strs mem0"
  by (auto simp: wf_strs_def mem0_def split: if_splits)

lemma mem_low_has: "str_has mem_low 0 ''ab''" "str_has mem_low 1 ''c d''"
  using mem0_has(1,2) by (simp_all add: mem_low_def str_has_def)

lemma digit_chars:
  "char_of (48 :: nat) = CHR ''0''" "char_of (49 :: nat) = CHR ''1''" "char_of (50 :: nat) = CHR ''2''"
  "char_of (51 :: nat) = CHR ''3''" "char_of (52 :: nat) = CHR ''4''" "char_of (53 :: nat) = CHR ''5''"
  "char_of (54 :: nat) = CHR ''6''" "char_of (55 :: nat) = CHR ''7''" "char_of (56 :: nat) = CHR ''8''"
  "char_of (57 :: nat) = CHR ''9''"
  by code_simp+

lemma sample_numerals:
  "dec_nat 4294967295 = ''4294967295''" "dec_int (-4294967295) = ''-4294967295''"
  by (simp_all add: dec_int_def dec_nat.simps digit_chars)

lemma sample_chars: "int_char 97 = CHR ''a''" "int_char 122 = CHR ''z''"
  by code_simp+

section \<open>Construction\<close>

text \<open>
  Creating a string and destroying it again leaves every string object as it was: nothing is
  leaked and nothing else is touched.
\<close>

theorem str_new_destroy:
  assumes "mem_ok w" "wf_strs w"
  shows "\<exists>s w1 w2. str_new None w = Ok s w1 \<and> str_has w1 s [] \<and> str_destroy (Some s) w1 = Ok () w2 \<and>
    strs w2 = strs w"
proof -
  obtain w1 where w1: "str_new None w = Ok (brk w) w1" "str_upd w (brk w) [] w1"
    using str_new_ok [OF assms(1)] by blast
  have n: "strs w (brk w) = None" using assms(2) by (rule wf_strs_fresh) simp
  have "(strs w1)(brk w := None) = strs w"
    using str_upd_other [OF w1(2)] n by (auto simp: fun_eq_iff)
  with w1(1) show ?thesis
    using str_upd_has [OF w1(2)] str_destroy_ok [OF str_upd_has [OF w1(2)]] by auto
qed

theorem str_new_destroy_witness:
  "\<exists>s w1 w2. str_new None mem0 = Ok s w1 \<and> str_has w1 s [] \<and> str_destroy (Some s) w1 = Ok () w2 \<and>
    strs w2 = strs mem0"
  by (rule str_new_destroy [OF mem0_ok mem0_wf])

section \<open>Writing\<close>



text \<open>
  Copying from a C string: \<^verbatim>\<open>str_cpy\<close> makes the destination equal to the source, or (only when an
  allocation fails) returns -1 and leaves it empty; a source of STRING_MAX characters or more is
  refused and nothing changes.
\<close>

theorem str_cpy_spec:
  assumes "str_has w d xs" "cread p w = Ok ys w" "\<not> points_into p d"
  shows "if length ys < STRING_MAX
    then (\<exists>w'. str_cpy d p w = Ok () w' \<and> str_upd w d ys w') \<or>
      (\<exists>w'. str_cpy d p w = Fail (-1) w' \<and> \<not> mem_ok w \<and> str_upd w d [] w')
    else str_cpy d p w = Fail (-1) w"
proof -
  obtain t where t: "strs w d = Some t" using assms(1) by (auto simp: str_has_def)
  obtain r where r: "cbytes p w = Ok (map Some ys @ Some NUL # r) w" using cread_Ok [OF assms(2)] by blast
  have run: "str_cpy d p w = nc_bind (cbuf_len p) (\<lambda>n. str_ncpy d p n) w"
    using t not_points_into_neq [OF assms(3)] by (simp add: str_cpy_def nc_bind_def get_str_def nc_require_def)
  show ?thesis
  proof (cases "length ys < STRING_MAX")
    case True
    then have "str_cpy d p w = str_ncpy d p (length ys) w"
      using run cbuf_len_ok [OF assms(2)] by (simp add: nc_bind_def)
    with True show ?thesis
      by (cases rule: str_ncpy_cases [OF assms(1) r assms(3) True]) auto
  qed (use run cbuf_len_too_long [OF assms(2)] in \<open>simp add: nc_bind_def\<close>)
qed

theorem str_cpy_spec_witness:
  "(\<exists>w'. str_cpy 0 (CVal 1 2) mem0 = Ok () w' \<and> str_upd mem0 0 ''d'' w') \<or>
      (\<exists>w'. str_cpy 0 (CVal 1 2) mem0 = Fail (-1) w' \<and> \<not> mem_ok mem0 \<and> str_upd mem0 0 [] w')"
  using str_cpy_spec [OF mem0_has(1) cread_suffix [OF mem0_has(2), of 2]] by (simp add: STRING_MAX_def)

text \<open>
  Copying one string object to another and comparing the two: the copy is equal, the source is
  unchanged, and no third object is touched.
\<close>

theorem str_copy_compare:
  assumes "str_has w s xs" "str_has w d ys" "d \<noteq> s" "NUL \<notin> set xs" "mem_ok w"
  shows "\<exists>w'. str_copy d s w = Ok () w' \<and> mod_strs {d} w w' \<and> str_has w' s xs \<and> str_has w' d xs \<and>
    str_compare d s w' = Ok () w'"
proof -
  obtain w' where w': "str_copy d s w = Ok () w'" "str_upd w d xs w'"
    using str_copy_ok [OF assms(1-3,5)] by blast
  have h: "str_has w' s xs" "str_has w' d xs" using w'(2) assms(1,3) str_upd_has by auto
  then show ?thesis
    using w' str_compare_eval [OF h(2,1) assms(3,4,4)] str_upd_mod by auto
qed

theorem str_copy_compare_witness:
  "\<exists>w'. str_copy 0 1 mem0 = Ok () w' \<and> mod_strs {0} mem0 w' \<and> str_has w' 1 ''c d'' \<and> str_has w' 0 ''c d'' \<and>
    str_compare 0 1 w' = Ok () w'"
  using str_copy_compare [OF mem0_has(2,1) _ _ mem0_ok] by simp

text \<open>
  \<^verbatim>\<open>str_prepend\<close> puts the source in front of the destination; its automatic string is gone
  afterwards, so only the destination differs.
\<close>

theorem str_prepend_spec:
  assumes "str_has w d xs" "str_has w s ys" "d \<noteq> s" "NUL \<notin> set xs"
    "length ys + length xs < STRING_MAX" "mem_ok w" "wf_strs w"
  shows "\<exists>w'. str_prepend d s w = Ok () w' \<and> str_upd w d (ys @ xs) w'"
  using assms by (rule str_prepend_ok)

theorem str_prepend_spec_witness:
  "\<exists>w'. str_prepend 0 1 mem0 = Ok () w' \<and> str_upd mem0 0 ''c dab'' w'"
  using str_prepend_spec [OF mem0_has(1,2) _ _ _ mem0_ok mem0_wf] by (simp add: STRING_MAX_def)

text \<open>
  Splitting at a position inside the string: the left part gets the characters before it, the
  right part those after it (the character itself is dropped), except that position 0 hands the whole
  string to the right part; a position outside is an error and changes nothing.
\<close>

theorem str_divide_spec:
  assumes "str_has w s xs" "str_has w l ls" "str_has w r rs" "distinct [l, r, s]" "NUL \<notin> set xs"
    "length xs < STRING_MAX" "mem_ok w"
  shows "if i < length xs
    then \<exists>w'. str_divide l r s i w = Ok () w' \<and> mod_strs {l, r} w w' \<and>
      str_has w' l (take i xs) \<and> str_has w' r (if i = 0 then xs else drop (i + 1) xs)
    else str_divide l r s i w = Fail (-1) w"
  using str_divide_ok [OF assms(1-4) _ assms(5-7)] str_divide_range [OF assms(1)] by auto

theorem str_divide_spec_witness:
  "\<exists>w'. str_divide 0 2 1 1 mem0 = Ok () w' \<and> mod_strs {0, 2} mem0 w' \<and> str_has w' 0 ''c'' \<and> str_has w' 2 ''d''"
  using str_divide_spec [OF mem0_has(2,1,3) _ _ _ mem0_ok, of 1] by (simp add: STRING_MAX_def)

text \<open>
  \<^verbatim>\<open>str_chomp\<close> removes one LF at the end and then one CR, and nothing else.
\<close>

theorem str_chomp_spec:
  assumes "str_has w s xs"
  shows "\<exists>w'. str_chomp s w = Ok () w' \<and> str_upd w s (chomp xs) w'"
  using assms by (rule str_chomp_ok)

theorem str_chomp_spec_witness:
  "\<exists>w'. str_chomp 5 mem0 = Ok () w' \<and> str_upd mem0 5 ''a'' w'"
  using str_chomp_spec [OF mem0_has(6)] by (simp add: chomp_def chomp1_def)

section \<open>Conversions\<close>

text \<open>
  C21. Escaping and unescaping: for a nonempty string, \<^verbatim>\<open>str_unescape\<close> applied to the result of
  \<^verbatim>\<open>str_escape\<close> gives the original characters back.
\<close>

theorem escape_unescape:
  assumes "str_has w s xs" "str_has w e es" "str_has w d ds" "distinct [s, e, d]" "NUL \<notin> set xs" "xs \<noteq> []"
    "3 * length xs < STRING_MAX" "mem_ok w" "wf_strs w"
  shows "\<exists>w1 w2. str_escape e s w = Ok () w1 \<and> str_unescape d e w1 = Ok () w2 \<and>
    str_has w1 e (uri_escape xs) \<and> str_has w2 d xs \<and> mod_strs {e, d} w w2"
proof -
  have ne: "e \<noteq> s" "d \<noteq> e" using assms(4) by auto
  obtain w1 where w1: "str_escape e s w = Ok () w1" "str_upd w e (uri_escape xs) w1"
    using str_escape_ok [OF assms(2,1) ne(1) assms(5,7-9)] by blast
  have h: "str_has w1 d ds" "str_has w1 e (uri_escape xs)" "mem_ok w1" "wf_strs w1"
    using w1(2) assms(3,8) ne str_upd_has [OF w1(2)] str_upd_mem_ok [OF w1(2)] str_upd_wf [OF assms(9,2) w1(2)] by auto
  obtain w2 where w2: "str_unescape d e w1 = Ok () w2" "str_upd w1 d xs w2"
    using str_unescape_ok [OF h(1,2) ne(2) assms(5,6) _ h(3,4)] assms(7) by auto
  have "mod_strs {e, d} w w2"
    using mod_strs_trans [OF str_upd_mod [OF w1(2)] str_upd_mod [OF w2(2)]] by (simp add: insert_commute)
  with w1(1) w2(1) h(2) show ?thesis using str_upd_has [OF w2(2)] by blast
qed

theorem escape_unescape_witness:
  "\<exists>w1 w2. str_escape 0 1 mem0 = Ok () w1 \<and> str_unescape 2 0 w1 = Ok () w2 \<and>
    str_has w1 0 (uri_escape ''c d'') \<and> str_has w2 2 ''c d'' \<and> mod_strs {0, 2} mem0 w2"
  using escape_unescape [OF mem0_has(2,1,3) _ _ _ _ mem0_ok mem0_wf] by (simp add: STRING_MAX_def)

text \<open>
  \<^verbatim>\<open>str_to_uint32\<close> on the decimal numeral of a number: the number when it fits 32 bits, an error when it
  does not.
\<close>

theorem str_to_uint32_spec:
  assumes "str_has w s (dec_nat n)" "n \<le> ULONG_MAX"
  shows "str_to_uint32 s w = (if n \<le> UINT_MAX then Ok n w else Fail (-1) w)"
  using assms by (rule str_to_uint32_dec)

theorem str_to_uint32_spec_witness: "str_to_uint32 3 mem0 = Ok 4294967295 mem0"
  using str_to_uint32_spec [of mem0 3 4294967295] mem0_has(4)
  by (simp add: sample_numerals UINT_MAX_def ULONG_MAX_def)

text \<open>
  \<^verbatim>\<open>str_to_int\<close> checks the upper bound only: a numeral below INT_MIN is accepted and reduced
  modulo 2^32, so that -4294967295 is converted to 1.
\<close>

theorem str_to_int_wraps:
  assumes "str_has w s (dec_int i)" "\<bar>i\<bar> \<le> LONG_MAX"
  shows "str_to_int s w = (if i \<le> INT_MAX then Ok ((i + 2 ^ 31) mod 2 ^ 32 - 2 ^ 31) w else Fail (-1) w)"
  using str_to_int_dec [OF assms] by (simp add: to_int32_def)

theorem str_to_int_wraps_witness: "str_to_int 4 mem0 = Ok 1 mem0"
  using str_to_int_wraps [of mem0 4 "-4294967295"] mem0_has(5)
  by (simp add: sample_numerals LONG_MAX_def INT_MAX_def)

text \<open>
  \<^verbatim>\<open>str_translate\<close> replaces the old character by the new one in every position except the first,
  which it never changes.
\<close>

theorem str_translate_skips_first:
  assumes "str_has w s xs" "NUL \<notin> set xs" "int_char old \<noteq> NUL" "int_char new \<noteq> NUL"
  shows "\<exists>w'. str_translate s old new w = Ok () w' \<and>
    str_upd w s (take 1 xs @ map (\<lambda>c. if c = int_char old then int_char new else c) (drop 1 xs)) w'"
  using assms by (rule str_translate_ok)

theorem str_translate_skips_first_witness:
  "\<exists>w'. str_translate 6 97 122 mem0 = Ok () w' \<and> str_upd mem0 6 ''abz'' w'"
  using str_translate_skips_first [OF mem0_has(7), of 97 122] by (simp add: sample_chars)

text \<open>
  Reading from a descriptor that delivers at most the requested number of bytes: the string holds
  exactly the bytes that were read.
\<close>

theorem str_read_spec:
  assumes "str_has w d xs" "n < STRING_MAX" "read n = ReadData ys" "length ys \<le> n" "mem_ok w"
  shows "\<exists>w'. str_read read d n w = Ok () w' \<and> str_upd w d ys w'"
  using assms by (rule str_read_ok)

theorem str_read_spec_witness:
  "\<exists>w'. str_read (\<lambda>n. ReadData (take n ''hello'')) 0 3 mem0 = Ok () w' \<and> str_upd mem0 0 ''hel'' w'"
  using str_read_spec [OF mem0_has(1), of 3 "\<lambda>n. ReadData (take n ''hello'')" "''hel''"] mem0_ok
  by (simp add: STRING_MAX_def)

section \<open>Error paths\<close>

text \<open>
  When malloc(3) fails in \<^verbatim>\<open>str_copy\<close>, the destination has lost its buffer but keeps its length: the
  call returns -1, and the next access to a character of the destination dereferences NULL.
\<close>

theorem str_copy_failure:
  assumes "str_has w s xs" "xs \<noteq> []" "str_has w d ys" "ys \<noteq> []" "d \<noteq> s" "\<forall>k n. \<not> malloc_ok w k n"
  shows "\<exists>w'. str_copy d s w = Fail (-1) w' \<and> str_get_char d 0 w' = Fault NullDeref"
proof -
  obtain b where b: "strs w s = Some (str_of b (length xs))" "holds b xs" using assms(1) by (rule str_hasE)
  obtain c where c: "strs w d = Some (str_of c (length ys))" using assms(3) by (rule str_hasE)
  have "str_copy d s w = Fail (-1) (w\<lparr>strs := (strs w)(d \<mapsto> \<lparr>s_value = Null, s_size = 0, s_len = length ys,
      s_owner = True\<rparr>), brk := Suc (brk w)\<rparr>)"
    using str_copy_eval [OF b(1) _ c assms(5), of b] holds_length [OF b(2)] assms(2,6) by (simp add: buf_bytes_def)
  then show ?thesis using assms(4) by (auto simp: str_get_char_def run_simps)
qed

theorem str_copy_failure_witness:
  "\<exists>w'. str_copy 0 1 mem_low = Fail (-1) w' \<and> str_get_char 0 0 w' = Fault NullDeref"
  using str_copy_failure [OF mem_low_has(2) _ mem_low_has(1)] by (simp add: mem_low_def)

text \<open>
  The macro CSTRING initialises \<^verbatim>\<open>size\<close> with the length and \<^verbatim>\<open>len\<close> with the size of the literal, so
  \<^verbatim>\<open>str_copy\<close> from a nonempty CSTRING reads behind the literal.
\<close>

theorem cstring_copy_overflow:
  assumes "strs w s = Some (CSTRING_init x)" "x \<noteq> []" "str_has w d ys" "d \<noteq> s" "mem_ok w"
  shows "str_copy d s w = Fault OutOfBounds"
proof -
  obtain c where c: "strs w d = Some (str_of c (length ys))" using assms(3) by (rule str_hasE)
  with assms show ?thesis by (simp add: str_copy_def CSTRING_init_def run_simps str_of_def)
qed

theorem cstring_copy_overflow_witness:
  "str_copy 0 1 (mem0\<lparr>strs := (strs mem0)(1 \<mapsto> CSTRING_init ''abc'')\<rparr>) = Fault OutOfBounds"
  by (rule cstring_copy_overflow [where x = "''abc''" and ys = "''ab''"])
    (use mem0_has(1) mem0_ok in \<open>simp_all add: str_has_def\<close>)

text \<open>
  A \<^verbatim>\<open>throw\<close> returns at once and skips the destructors of automatic variables: the error path of
  \<^verbatim>\<open>str_prepend\<close> (source and destination the same) leaks the string that the compiler allocated on entry.
\<close>

theorem throw_leaks_automatic_string:
  assumes "mem_ok w" "wf_strs w"
  shows "\<exists>w'. str_prepend d d w = Fail (-1) w' \<and> strs w (brk w) = None \<and> str_has w' (brk w) []"
proof -
  obtain w1 where w1: "str_new None w = Ok (brk w) w1" "str_upd w (brk w) [] w1"
    using str_new_ok [OF assms(1)] by blast
  then have "str_prepend d d w = Fail (-1) w1" by (simp add: str_prepend_def with_auto_str_def nc_simps)
  then show ?thesis using str_upd_has [OF w1(2)] wf_strs_fresh [OF assms(2)] by blast
qed

theorem throw_leaks_automatic_string_witness:
  "\<exists>w'. str_prepend 0 0 mem0 = Fail (-1) w' \<and> strs mem0 (brk mem0) = None \<and> str_has w' (brk mem0) []"
  by (rule throw_leaks_automatic_string [OF mem0_ok mem0_wf])

text \<open>
  \<^verbatim>\<open>str_unescape\<close> on a string that ends in a percent sign and one hexadecimal digit steps over the
  terminating NUL and reads behind the string.
\<close>

theorem str_unescape_overrun:
  assumes "strs w s = Some (lit_str [CHR ''%'', c])" "isxdigit c" "mem_ok w" "wf_strs w"
  shows "str_unescape d s w = Fault OutOfBounds"
proof -
  let ?a = "brk w" and ?xs = "[CHR ''%'', c]"
  have cN: "c \<noteq> NUL" "\<not> isspace c" "c \<noteq> CHR ''-''" "c \<noteq> CHR ''+''" "c \<noteq> CHR ''x''" "c \<noteq> CHR ''X''"
    using assms(2) by (auto simp: isxdigit_def isdigit_def isspace_def Let_def)
  have sa: "s \<noteq> ?a" using assms(1,4) by (auto simp: wf_strs_def)
  obtain w1 where w1: "str_new None w = Ok ?a w1" "str_upd w ?a [] w1"
    using str_new_ok [OF assms(3)] by blast
  have s1: "strs w1 s = Some (lit_str ?xs)" using str_upd_other [OF w1(2) sa] assms(1) by simp
  have h1: "str_has w1 s ?xs" by (rule lit_str_has [OF s1]) (simp add: STRING_MAX_def)
  define code where "code = xdigit_val c"
  have sc: "sscanf_hex2 [c] = Some code"
    using cN assms(2) by (simp add: sscanf_hex2_def code_def Let_def)
  have p: "peek s 0 w1 = Ok CHR ''%'' w1" using peek_char(1) [OF h1, of 0] by simp
  have r: "cread (CVal s 0) w1 = Ok ?xs w1" using cread_str_has [OF h1] cN by auto
  obtain w2 where w2: "str_putc ?a (int code) w1 = Ok () w2" "strs w2 s = strs w1 s"
  proof (cases "int_char (int code) = NUL")
    case True
    then have "str_putc ?a (int code) w1 = Ok () w1" by (simp add: str_putc_def str_cat_def cread_def nc_simps)
    with that show ?thesis by blast
  next
    case False
    have "length ([] :: string) + 1 < STRING_MAX" by (simp add: STRING_MAX_def)
    from str_putc_ok [OF str_upd_has [OF w1(2)] False this] assms(3) str_upd_mem_ok [OF w1(2)]
    obtain w2 where "str_putc ?a (int code) w1 = Ok () w2" "str_upd w1 ?a [int_char (int code)] w2" by auto
    with that sa str_upd_other show ?thesis by metis
  qed
  have q: "peek s 3 w2 = Fault OutOfBounds"
    using w2(2) s1 by (simp add: lit_str_def peek_def nc_simps buf_bytes_def)
  have b: "cbytes (CVal s 0) w1 = Ok (map Some (?xs @ [NUL])) w1"
    using s1 by (simp add: lit_str_def buf_bytes_def)
  have "str_unescape_loop (Suc (Suc n)) ?a s 0 w1 = Fault OutOfBounds" for n
    using p r sc w2(1) q by (simp add: nc_simps)
  moreover have "Suc (length (map Some (?xs @ [NUL]))) = Suc (Suc 2)" by simp
  moreover have "s_len (lit_str ?xs) = 2" by (simp add: lit_str_def)
  ultimately show ?thesis
    using w1(1) s1 b
    by (simp add: str_unescape_def with_auto_str_def nc_bind_def get_str_def del: cbytes.simps str_unescape_loop.simps)
qed

theorem str_unescape_overrun_witness: "str_unescape 0 7 mem0 = Fault OutOfBounds"
  by (rule str_unescape_overrun [OF _ _ mem0_ok mem0_wf, of _ "CHR ''4''"])
    (simp_all add: mem0_def isxdigit_def isdigit_def)

end
