(* ===== verification/NC_Hash_Props.thy ===== *)
theory NC_Hash_Props
  imports NC_Hash_Whole NC_String_Props
begin

text \<open>
  The properties of the hash table component, with witnesses on a small concrete memory.
\<close>

section \<open>A concrete memory\<close>

lemma empty_hash_hdr: "empty_hash = hash_hdr (\<lambda>_. None) 0"
  by (simp add: empty_hash_def hash_hdr_def map_replicate_const)

lemma empty_hash_rep: "hashes w h = Some empty_hash \<Longrightarrow> hash_rep w h (\<lambda>_. None) (\<lambda>_. []) 0"
  by (simp add: hash_rep_def empty_hash_hdr slot_at_def separate_def slot_lists_def slot_ents_def slot_strs_def)

lemma empty_hash_table:
  assumes "hashes w h = Some empty_hash" "wf_lh w" "mem_ok w"
  shows "hash_table w h Map.empty {}"
proof -
  have "hash_rep w h (\<lambda>_. None) (\<lambda>_. []) (card (dom (Map.empty :: string \<rightharpoonup> string)))"
    using empty_hash_rep [OF assms(1)] by simp
  moreover have "hash_strs (\<lambda>_. None) = {}" by (simp add: hash_strs_def slot_strs_def)
  ultimately show ?thesis using assms(2,3) pairs_ok_empty hlookup_empty unfolding hash_table_def by metis
qed

definition hmem :: hash_heap where
  "hmem = \<lparr>strs = [0 \<mapsto> lit_str ''one'', 1 \<mapsto> lit_str ''two'', 2 \<mapsto> lit_str [], 6 \<mapsto> lit_str ''k'', 8 \<mapsto> lit_str ''one'',
      9 \<mapsto> lit_str ''ba'', 14 \<mapsto> lit_str ''k'', 16 \<mapsto> lit_str ''two''],
    brk = 17, malloc_ok = (\<lambda>_ _. True),
    ents = [5 \<mapsto> \<lparr>e_value = Some 6, e_next = Some 7, e_prev = None\<rparr>,
      7 \<mapsto> \<lparr>e_value = Some 8, e_next = None, e_prev = Some 5\<rparr>,
      13 \<mapsto> \<lparr>e_value = Some 14, e_next = Some 15, e_prev = None\<rparr>,
      15 \<mapsto> \<lparr>e_value = Some 16, e_next = None, e_prev = Some 13\<rparr>],
    lists = [4 \<mapsto> \<lparr>l_count = 2, l_head = Some 5, l_tail = Some 7\<rparr>,
      12 \<mapsto> \<lparr>l_count = 2, l_head = Some 13, l_tail = Some 15\<rparr>],
    hashes = [3 \<mapsto> empty_hash, 10 \<mapsto> \<lparr>h_bucket = (replicate 256 None)[107 := Some 12], h_count = 1\<rparr>]\<rparr>"

definition hmem_buckets :: buckets where
  "hmem_buckets = (\<lambda>_. None)(107 \<mapsto> (12, [(13, 14), (15, 16)]))"

definition hmem_pairs :: "nat \<Rightarrow> (string \<times> string) list" where
  "hmem_pairs = (\<lambda>_. [])(107 := [(''k'', ''two'')])"

lemma hmem_has:
  "str_has hmem 0 ''one''" "str_has hmem 1 ''two''" "str_has hmem 2 []" "str_has hmem 6 ''k''" "str_has hmem 8 ''one''"
  "str_has hmem 9 ''ba''" "str_has hmem 14 ''k''" "str_has hmem 16 ''two''"
  by (rule lit_str_has; simp add: hmem_def STRING_MAX_def)+

lemma hmem_wf: "wf_lh hmem" "mem_ok hmem"
  by (auto simp: wf_lh_def wf_strs_def hmem_def mem_ok_def split: if_splits)

lemma hmem_table: "hash_table hmem 3 Map.empty {}"
  by (rule empty_hash_table [OF _ hmem_wf]) (simp add: hmem_def)

lemma hmem_list: "list_at hmem 4 [(5, 6), (7, 8)] [''k'', ''one'']" "list_at hmem 12 [(13, 14), (15, 16)] [''k'', ''two'']"
proof -
  have "vals hmem [(5, 6), (7, 8)] [''k'', ''one'']" "vals hmem [(13, 14), (15, 16)] [''k'', ''two'']" using hmem_has by simp_all
  then show "list_at hmem 4 [(5, 6), (7, 8)] [''k'', ''one'']" "list_at hmem 12 [(13, 14), (15, 16)] [''k'', ''two'']"
    by (simp_all add: list_at_def list_cells_def header_def) (simp_all add: hmem_def)
qed

lemma hmem_rep: "hash_rep hmem 10 hmem_buckets hmem_pairs 1"
proof -
  have "(hash_hdr (\<lambda>_. None) 1)\<lparr>h_bucket := (h_bucket (hash_hdr (\<lambda>_. None) 1))[107 := Some 12]\<rparr> = hash_hdr hmem_buckets 1"
    unfolding hmem_buckets_def by (rule hash_hdr_bucket) simp
  moreover have "h_bucket (hash_hdr (\<lambda>_. None) 1) = replicate 256 None" by (simp add: hash_hdr_def map_replicate_const)
  ultimately have "hashes hmem 10 = Some (hash_hdr hmem_buckets 1)" by (simp add: hmem_def hash_hdr_def)
  moreover have "slot_at hmem hmem_buckets hmem_pairs i" for i
    using hmem_list(2) by (simp add: slot_at_def hmem_buckets_def hmem_pairs_def)
  moreover have "separate hmem_buckets"
    by (simp add: separate_def hmem_buckets_def slot_lists_def slot_ents_def slot_strs_def)
  ultimately show ?thesis by (simp add: hash_rep_def)
qed

lemma sample_slots:
  "hslot ''one'' = 100" "hslot ''two'' = 108" "hslot ''k'' = 107" "hslot ''ab'' = 3" "hslot ''ba'' = 3"
  by code_simp+

lemma sample_fits: "pair_fits ''k'' ''one''" "pair_fits ''k'' ''two''" "pair_fits ''ab'' ''one''"
  by (simp_all add: pair_fits_def sample_slots)

lemma sample_keys: "valid_key ''k''" "valid_key ''ab''" "valid_key ''ba''"
  by (simp_all add: valid_key_def STRING_MAX_def)

lemma hmem_pairs_ok: "pairs_ok hmem_pairs"
  by (simp add: pairs_ok_def hmem_pairs_def sample_slots)

section \<open>The table as a map\<close>

text \<open>
  \<^verbatim>\<open>hash_set\<close> followed by \<^verbatim>\<open>hash_get\<close>: reading the written key delivers the written value, reading any
  other key delivers what the table held for it before, and a key that is in the table neither
  before nor after is refused. The pair must fit: the value's hash differs from the key's.
\<close>

theorem hash_set_get:
  assumes "hash_table w h m F" "valid_key k" "valid_key k'" "str_has w u v" "u \<notin> F" "pair_fits k v"
    "card (dom m) < 2 ^ 62" "str_has w d y" "d \<notin> F"
  shows "\<exists>w1. hash_set h (CLit k) u w = Ok () w1 \<and>
    (case (m(k \<mapsto> v)) k' of
       Some x \<Rightarrow> \<exists>w2. hash_get d h (CLit k') w1 = Ok () w2 \<and> str_has w2 d x
     | None \<Rightarrow> hash_get d h (CLit k') w1 = Fail (-1) w1)"
  using ht.put_get [OF assms(1-6) _ assms(8,9)] assms(7) by (simp add: hash_room_def)

theorem hash_set_get_witness:
  "(\<exists>w1. hash_set 3 (CLit ''k'') 0 hmem = Ok () w1 \<and> (\<exists>w2. hash_get 2 3 (CLit ''k'') w1 = Ok () w2 \<and> str_has w2 2 ''one'')) \<and>
   (\<exists>w1. hash_set 3 (CLit ''k'') 0 hmem = Ok () w1 \<and> hash_get 2 3 (CLit ''ab'') w1 = Fail (-1) w1)"
  using hash_set_get [OF hmem_table sample_keys(1,1) hmem_has(1) _ sample_fits(1) _ hmem_has(3)]
    hash_set_get [OF hmem_table sample_keys(1,2) hmem_has(1) _ sample_fits(1) _ hmem_has(3)] by simp

text \<open>
  Deleting a key that was just set removes exactly that key: the table holds what it held for
  all others, and a further \<^verbatim>\<open>hash_get\<close> of the key is refused.
\<close>

theorem hash_set_delete:
  assumes "hash_table w h m F" "valid_key k" "str_has w u v" "u \<notin> F" "pair_fits k v" "card (dom m) + 1 < 2 ^ 62"
  shows "\<exists>w1 w2 F2. hash_set h (CLit k) u w = Ok () w1 \<and> hash_delete h (CLit k) w1 = Ok () w2 \<and>
    hash_table w2 h (m(k := None)) F2 \<and> hash_get d h (CLit k) w2 = Fail (-1) w2"
  using ht.put_del_get [OF assms(1-5)] assms(6) by (simp add: hash_room_def)

theorem hash_set_delete_witness:
  "\<exists>w1 w2 F2. hash_set 3 (CLit ''k'') 0 hmem = Ok () w1 \<and> hash_delete 3 (CLit ''k'') w1 = Ok () w2 \<and>
    hash_table w2 3 (Map.empty(''k'' := None)) F2 \<and> hash_get 2 3 (CLit ''k'') w2 = Fail (-1) w2"
  by (rule hash_set_delete [OF hmem_table sample_keys(1) hmem_has(1) _ sample_fits(1)]) simp_all

text \<open>
  Any sequence of \<^verbatim>\<open>hash_set\<close> calls succeeds and leaves the map in which the last value written for
  a key wins; the table's counter is the number of different keys (it is part of \<open>hash_table\<close>).
\<close>

theorem hash_set_sequence:
  assumes "hash_table w h m F" "list_all2 (\<lambda>p (k, v). fst p = k \<and> valid_key k \<and> pair_fits k v \<and> str_has w (snd p) v \<and> snd p \<notin> F) ps kvs"
    "card (dom m) + length ps < 2 ^ 62"
  shows "\<exists>w' F' x. ht.put_all h ps w = Ok () w' \<and> hash_table w' h (m ++ map_of (rev kvs)) F' \<and>
    hashes w' h = Some x \<and> h_count x = card (dom (m ++ map_of (rev kvs)))"
proof -
  obtain w' F' where w': "ht.put_all h ps w = Ok () w'" "hash_table w' h (m ++ map_of (rev kvs)) F'"
    using ht.put_all_ok [OF assms(1,2)] assms(3) by (auto simp: hash_room_def)
  then show ?thesis by (auto simp: hash_table_def hash_rep_def)
qed

theorem hash_set_sequence_witness:
  "\<exists>w' F' x. ht.put_all 3 [(''k'', 0), (''ab'', 0), (''k'', 1)] hmem = Ok () w' \<and>
    hash_table w' 3 (Map.empty ++ map_of (rev [(''k'', ''one''), (''ab'', ''one''), (''k'', ''two'')])) F' \<and>
    hashes w' 3 = Some x \<and> h_count x = card (dom (Map.empty ++ map_of (rev [(''k'', ''one''), (''ab'', ''one''), (''k'', ''two'')])))"
  by (rule hash_set_sequence [OF hmem_table]) (use hmem_has sample_keys sample_fits in simp_all)

section \<open>Whole tables\<close>

lemma all_pairs_map:
  assumes "pairs_ok P"
  shows "distinct (map fst (all_pairs P 256))" "set (map fst (all_pairs P 256)) = dom (hlookup P)"
    "\<forall>(k, v)\<in>set (all_pairs P 256). hlookup P k = Some v"
proof -
  have slot: "k \<in> fst ` set (P i) \<Longrightarrow> i < 256 \<Longrightarrow> i = hslot k" for k i
    using assms by (fastforce simp: pairs_ok_def)
  have keys_of: "fst ` set (all_pairs P n) = (\<Union>i<n. fst ` set (P i))" for n
    by (auto simp: all_pairs_def image_UN atLeast0LessThan)
  have "distinct (map fst (all_pairs P n))" if "n \<le> 256" for n
    using that
  proof (induction n)
    case (Suc n)
    have "k \<notin> fst ` set (P n)" if kn: "k \<in> fst ` set (all_pairs P n)" for k
    proof -
      obtain i where i: "i < n" "k \<in> fst ` set (P i)" using kn keys_of by auto
      then have "i = hslot k" using slot [of k i] Suc.prems by simp
      then show ?thesis using slot [of k n] i(1) Suc.prems by auto
    qed
    moreover have "distinct (map fst (P n))" using assms Suc.prems by (simp add: pairs_ok_def)
    ultimately show ?case using Suc by (auto simp: all_pairs_Suc)
  qed (simp add: all_pairs_def)
  then show "distinct (map fst (all_pairs P 256))" by simp
  show "set (map fst (all_pairs P 256)) = dom (hlookup P)"
    using hlookup_dom [OF assms] keys_of [of 256] by simp
  show "\<forall>(k, v)\<in>set (all_pairs P 256). hlookup P k = Some v"
  proof clarify
    fix k v assume "(k, v) \<in> set (all_pairs P 256)"
    then obtain i where i: "i < 256" "(k, v) \<in> set (P i)" by (auto simp: all_pairs_def)
    then have "i = hslot k" using slot [of k i] by force
    moreover have "distinct (map fst (P i))" using assms i(1) by (simp add: pairs_ok_def)
    ultimately show "hlookup P k = Some v" using i(2) by (simp add: hlookup_def)
  qed
qed

text \<open>
  C40. \<^verbatim>\<open>hash_get_keys\<close> fills the destination list with every key of the table, each once, and
  \<^verbatim>\<open>hash_get_values\<close> with the values of these keys in the same order; neither changes the table.
\<close>

theorem hash_keys_values:
  assumes "hash_rep w h B P n" "pairs_ok P" "list_at w d ds yss" "apart B d ds" "mem_ok w" "wf_lh w" "card (dom (hlookup P)) < 2 ^ 64"
  shows "\<exists>ks w1 es w2 fs. distinct ks \<and> set ks = dom (hlookup P) \<and>
    hash_get_keys d h w = Ok () w1 \<and> list_at w1 d es ks \<and> hash_rep w1 h B P n \<and>
    hash_get_values d h w = Ok () w2 \<and> list_at w2 d fs (map (the \<circ> hlookup P) ks) \<and> hash_rep w2 h B P n"
proof -
  note ap = all_pairs_map [OF assms(2)]
  let ?ks = "map fst (all_pairs P 256)"
  have "length (all_pairs P 256) = card (dom (hlookup P))" using ap(1,2) distinct_card [of ?ks] by simp
  then have len: "length (all_pairs P 256) < 2 ^ 64" using assms(7) by simp
  have vs: "map (sel True) (all_pairs P 256) = map (the \<circ> hlookup P) ?ks"
    using ap(3) by (auto simp: sel_def)
  have ks: "map (sel False) (all_pairs P 256) = ?ks" by (auto simp: sel_def)
  show ?thesis
    using hash_get_pairs_ok [OF assms(1,3-6) len, of False] hash_get_pairs_ok [OF assms(1,3-6) len, of True] ap(1,2)
    unfolding hash_get_keys_def hash_get_values_def vs ks by blast
qed

theorem hash_keys_values_witness:
  "\<exists>ks w1 es w2 fs. distinct ks \<and> set ks = dom (hlookup hmem_pairs) \<and>
    hash_get_keys 4 10 hmem = Ok () w1 \<and> list_at w1 4 es ks \<and> hash_rep w1 10 hmem_buckets hmem_pairs 1 \<and>
    hash_get_values 4 10 hmem = Ok () w2 \<and> list_at w2 4 fs (map (the \<circ> hlookup hmem_pairs) ks) \<and> hash_rep w2 10 hmem_buckets hmem_pairs 1"
proof (rule hash_keys_values [OF hmem_rep hmem_pairs_ok hmem_list(1) _ hmem_wf(2,1)])
  show "apart hmem_buckets 4 [(5, 6), (7, 8)]"
    by (simp add: apart_def hmem_buckets_def slot_lists_def slot_ents_def slot_strs_def)
  have "dom (hlookup hmem_pairs) \<subseteq> {''k''}" by (auto simp: hlookup_def hmem_pairs_def split: if_splits)
  then have "card (dom (hlookup hmem_pairs)) \<le> card {''k''}" by (intro card_mono) auto
  then show "card (dom (hlookup hmem_pairs)) < 2 ^ 64" by simp
qed

text \<open>
  C39. \<^verbatim>\<open>hash_destroy\<close> frees the table, all its bucket lists, their entries and all key and value
  strings, and nothing else.
\<close>

theorem hash_destroy_spec:
  assumes "hash_rep w h B P n" "wf_lh w"
  shows "\<exists>w'. hash_destroy (Some h) w = Ok () w' \<and> hashes w' h = None \<and>
    strs w' = strs w |` (- (\<Union>j<256. slot_strs B j)) \<and> ents w' = ents w |` (- (\<Union>j<256. slot_ents B j)) \<and>
    lists w' = lists w |` (- (\<Union>j<256. slot_lists B j))"
  using hash_destroy_ok [OF assms] by (auto simp: freed_def)

theorem hash_destroy_spec_witness:
  "\<exists>w'. hash_destroy (Some 10) hmem = Ok () w' \<and> hashes w' 10 = None \<and>
    strs w' = strs hmem |` (- (\<Union>j<256. slot_strs hmem_buckets j)) \<and> ents w' = ents hmem |` (- (\<Union>j<256. slot_ents hmem_buckets j)) \<and>
    lists w' = lists hmem |` (- (\<Union>j<256. slot_lists hmem_buckets j))"
  by (rule hash_destroy_spec [OF hmem_rep hmem_wf(1)])

section \<open>Values, copies and conversions\<close>

text \<open>
  The walk over a bucket does not tell keys from values: when the value stored for a key has the
  key's hash, looking the value up as if it were a key finds the value's entry and reads the entry
  behind it, which is a NULL pointer.
\<close>

theorem hash_value_taken_for_key:
  assumes "hashes w h = Some empty_hash" "wf_lh w" "mem_ok w" "valid_key k" "str_has w u v" "NUL \<notin> set v" "v \<noteq> k"
    "hslot v = hslot k"
  shows "\<exists>w1. hash_set h (CLit k) u w = Ok () w1 \<and> hash_get d h (CLit v) w1 = Fault NullDeref"
proof -
  let ?B = "(\<lambda>_. None) :: buckets"
  have k: "cread (CLit k) w = Ok k w" "length k < STRING_MAX" using assms(4) by (simp_all add: valid_key_def)
  have "u \<notin> slot_strs ?B (hslot k)" by (simp add: slot_strs_def)
  then obtain w1 B where w1: "hash_set h (CLit k) u w = Ok () w1"
      "hash_rep w1 h B (put_pair k v (\<lambda>_. [])) (if hlookup (\<lambda>_. []) k = None then 0 + 1 else 0)" "wf_lh w1"
    using hash_set_ok [OF empty_hash_rep [OF assms(1)] pairs_ok_empty k str_has_src [OF assms(5)] _ assms(2,3)] by auto
  have pp: "put_pair k v (\<lambda>_. []) (hslot v) = [(k, v)]" using assms(8) by (simp add: put_pair_def)
  have s: "slot_at w1 B (put_pair k v (\<lambda>_. [])) (hslot v)" "bucket h (hslot v) w1 = Ok (map_option fst (B (hslot v))) w1"
    using w1(2) bucket_eval [of w1 h B _ "hslot v"] by (auto simp: hash_rep_def)
  then obtain l cs where l: "B (hslot v) = Some (l, cs)" "list_at w1 l cs [k, v]"
    using pp by (auto simp: slot_at_def split: option.splits)
  obtain a s b t where cs: "cs = [(a, s), (b, t)]"
    using l(2) by (auto simp: list_at_def vals_def list_all2_Cons2)
  have e: "ents w1 b = Some \<lparr>e_value = Some t, e_next = None, e_prev = Some a\<rparr>"
    using l(2) cs by (simp add: list_at_def list_cells_def)
  have v: "cread (CLit v) w1 = Ok v w1" using assms(6) by simp
  have "for_each l (search_body (CLit v)) None w1 = Ok (Some b) w1"
    using search_ok [OF l(2) v _ w1(3)] assms(4,6,7) cs by (simp add: valid_key_def)
  then have "hash_entry_search h (CLit v) w1 = Ok (l, b) w1"
    using s(2) l(1) hash_function_eval [OF v] by (simp add: hash_entry_search_def nc_simps)
  then have "hash_get d h (CLit v) w1 = Fault NullDeref"
    using e by (simp add: hash_get_def nc_simps get_ent_def deref_def)
  with w1(1) show ?thesis by blast
qed

theorem hash_value_taken_for_key_witness:
  "\<exists>w1. hash_set 3 (CLit ''ab'') 9 hmem = Ok () w1 \<and> hash_get 2 3 (CLit ''ba'') w1 = Fault NullDeref"
  by (rule hash_value_taken_for_key [OF _ hmem_wf sample_keys(2) hmem_has(6)])
    (simp_all add: hmem_def sample_slots)

text \<open>
  \<^verbatim>\<open>hash_copy\<close> clears the destination's buckets and then copies lists into them: as soon as the
  source has one bucket, it dereferences a NULL pointer.
\<close>

theorem hash_copy_null:
  assumes "hash_rep w h B P n" "i < 256" "B i \<noteq> None" "hashes w d = Some x" "d \<noteq> h"
  shows "hash_copy d h w = Fault NullDeref"
proof -
  let ?w = "w\<lparr>hashes := (hashes w)(d \<mapsto> x\<lparr>h_bucket := replicate 256 None\<rparr>)\<rparr>"
  let ?body = "\<lambda>i. nc_bind (bucket h i) (\<lambda>b. case b of None \<Rightarrow> nc_return ()
     | Some l \<Rightarrow> nc_bind (bucket d i) (\<lambda>d. nc_bind (deref d) (\<lambda>d. list_copy d l)))"
  let ?Q = "\<lambda>i. i < 256 \<and> B i \<noteq> None"
  define j where "j = (LEAST i. ?Q i)"
  have ex: "?Q i" using assms(2,3) by blast
  have j: "?Q j" unfolding j_def by (rule LeastI [of ?Q, OF ex])
  have min: "B i = None" if "i < j" for i using not_less_Least [of i ?Q, folded j_def, OF that] that j by (cases "B i") simp_all
  have hdr: "hashes ?w h = Some (hash_hdr B n)" using assms(1,5) by (auto simp: hash_rep_def)
  have b: "bucket h i ?w = Ok (map_option fst (B i)) ?w" if "i < 256" for i using bucket_eval [OF hdr that] .
  have "\<forall>i<j. ?body (0 + i) ?w = Ok () ?w" using b min j by (simp add: nc_simps)
  moreover have "bucket d j ?w = Ok None ?w" using j by (simp add: bucket_def get_hash_def nc_simps)
  then have "?body (0 + j) ?w = Fault NullDeref" using b [of j] j by (auto simp: nc_simps deref_def)
  ultimately have "for_range 0 256 ?body ?w = Fault NullDeref" by (rule for_range_fault) (use j in simp)
  moreover have "upd_hash d (\<lambda>x. x\<lparr>h_bucket := replicate 256 None\<rparr>) w = Ok () ?w" using assms(4) by (simp add: upd_hash_def)
  ultimately show ?thesis by (simp add: hash_copy_def nc_bind_def)
qed

theorem hash_copy_null_witness: "hash_copy 3 10 hmem = Fault NullDeref"
  by (rule hash_copy_null [OF hmem_rep, of 107]) (simp_all add: hmem_buckets_def hmem_def)

lemma hash_from_char_loop_even:
  "even (length args) \<Longrightarrow> hash_from_char_loop h s key args w \<noteq> Ok () w'"
proof (induction h s key args arbitrary: w rule: hash_from_char_loop.induct)
  case (3 hash str key val key' args)
  then have "hash_from_char_loop hash str key' args w2 \<noteq> Ok () w'" for w2 by simp
  then show ?case by (auto simp: nc_bind_Ok_iff)
qed (simp_all add: nc_throw_def)

text \<open>
  \<^verbatim>\<open>hash_from_char\<close> reads the first value twice, so it never succeeds for a proper argument list of
  keys with their values.
\<close>

theorem hash_from_char_never:
  assumes "even (length args)"
  shows "hash_from_char h args w \<noteq> Ok () w'"
proof -
  have body: "(nc_bind (hash_truncate h) (\<lambda>_. case args of [] \<Rightarrow> nc_throw | [_] \<Rightarrow> nc_throw
      | key # val # rest \<Rightarrow> hash_from_char_loop h s key rest)) w1 \<noteq> Ok () w2" for s w1 w2
  proof -
    have "(case args of [] \<Rightarrow> nc_throw | [_] \<Rightarrow> nc_throw
      | key # val # rest \<Rightarrow> hash_from_char_loop h s key rest) w3 \<noteq> Ok () w2" for w3
      using assms by (auto simp: nc_throw_def hash_from_char_loop_even split: list.splits)
    then show ?thesis by (simp add: nc_bind_Ok_iff)
  qed
  show ?thesis
    using body unfolding hash_from_char_def with_local_str_def by (auto split: outcome.splits simp: Let_def)
qed

theorem hash_from_char_never_witness:
  "hash_from_char 3 [CLit ''k'', CLit ''one''] hmem \<noteq> Ok () hmem"
  by (rule hash_from_char_never) simp

text \<open>
  \<^verbatim>\<open>hash_from_list\<close> destroys the string its variable \<^verbatim>\<open>key\<close> points to when it returns: the last key
  string of the source list is freed, while the list's entry still points to it.
\<close>

theorem hash_from_list_frees_key:
  assumes "hashes w h = Some empty_hash" "list_at w l [(a, s), (b, t)] [k, v]" "valid_key k" "wf_lh w" "mem_ok w"
  shows "\<exists>w' e. hash_from_list h l w = Ok () w' \<and> ents w' a = Some e \<and> e_value e = Some s \<and> strs w' s = None"
proof -
  let ?n = "brk w"
  have c: "lists w l = Some (header [(a, s), (b, t)])" "str_has w s k" "str_has w t v"
      "ents w a = Some \<lparr>e_value = Some s, e_next = Some b, e_prev = None\<rparr>"
      "ents w b = Some \<lparr>e_value = Some t, e_next = None, e_prev = Some a\<rparr>"
    using assms(2) by (auto simp: list_at_def list_cells_def)
  have lt: "s < ?n" "t < ?n" "a < ?n" "b < ?n"
    using str_has_lt [of w s k] str_has_lt [of w t v] c assms(4) by (auto simp: wf_lh_def)
  obtain w1 where w1: "str_new None w = Ok ?n w1" "str_upd w ?n [] w1" "?n < brk w1"
    using str_new_ok [OF assms(5)] by blast
  have m1: "mod_lh {?n} {} {} w w1" by (rule mod_strs_lh [OF str_upd_mod [OF w1(2)]])
  have k1: "ents w1 = ents w" "lists w1 = lists w" "hashes w1 h = Some empty_hash" "str_has w1 s k" "str_has w1 t v"
      "mem_ok w1" "length k < STRING_MAX" "NUL \<notin> set k"
    using str_upd_ents [OF w1(2)] str_upd_lists [OF w1(2)] mod_lh_hashes [OF m1] c lt assms(1,5)
      mod_lh_has [OF m1, of s k] mod_lh_has [OF m1, of t v] mod_lh_mem_ok [OF m1] assms(3) by (auto simp: valid_key_def)
  have wf1: "wf_lh w1" by (rule mod_lh_wf [OF m1 assms(4)]) (use w1(3) in simp)
  have r: "cread (CVal s 0) w1 = Ok k w1" using cread_str_has [OF k1(4,8)] .
  have t: "t \<notin> slot_strs (\<lambda>_. None) (hslot k)" by (simp add: slot_strs_def)
  obtain w2 where w2: "hash_set h (CVal s 0) t w1 = Ok () w2" "mod_hh {brk w1..} {brk w1..} {brk w1..} {h} w1 w2"
    using hash_set_ok [OF empty_hash_rep [OF k1(3)] pairs_ok_empty r k1(7) str_has_src [OF k1(5)] t wf1 k1(6)]
    by (auto simp: slot_strs_def slot_ents_def slot_lists_def)
  have e2: "ents w2 a = ents w a" "ents w2 b = ents w b" "str_has w2 s k"
    using w2(2) lt w1(3) k1(1,4) by (auto simp: mod_hh_def str_has_def)
  obtain m where m: "?n = Suc m" using lt by (cases ?n) auto
  have "hash_from_list_loop (Suc ?n) h (Some a) (Some ?n) w1 = Ok (Some s) w2"
    using k1(1) c(4,5) e2(1,2) w2(1) by (simp add: m list_run)
  then have "hash_from_list h l w = Ok () (w2\<lparr>strs := (strs w2)(s := None)\<rparr>)"
    using w1(1) k1(2) c(1) str_destroy_ok [OF e2(3)]
    by (simp add: hash_from_list_def nc_bind_def get_list_def del: hash_from_list_loop.simps)
  then show ?thesis using e2(1) c(4) by auto
qed

theorem hash_from_list_frees_key_witness:
  "\<exists>w' e. hash_from_list 3 4 hmem = Ok () w' \<and> ents w' 5 = Some e \<and> e_value e = Some 6 \<and> strs w' 6 = None"
  by (rule hash_from_list_frees_key [OF _ hmem_list(1) sample_keys(1) hmem_wf]) (simp add: hmem_def)

end
