(* ===== verification/NC_List_Seq.thy ===== *)
theory NC_List_Seq
  imports NC_List_Build
begin

text \<open>
  The contract of a list of strings as an object: a locale for sequences (pushing and indexed
  access), extended to stacks (\<^verbatim>\<open>list_pop\<close>) and queues (\<^verbatim>\<open>list_shift\<close>), the consequences for a client,
  and the interpretation on the lists of the library.
\<close>

section \<open>Interfaces\<close>

text \<open>
  \<open>seq w l xss F\<close>: the object \<open>l\<close> holds the strings \<open>xss\<close> and owns the string objects \<open>F\<close>; \<open>val w d y\<close>: the
  client's string object \<open>d\<close> holds \<open>y\<close>; \<open>room n\<close>: an object with \<open>n\<close> elements can take one more.
\<close>

locale string_seq =
  fixes seq :: "'w \<Rightarrow> nat \<Rightarrow> string list \<Rightarrow> nat set \<Rightarrow> bool"
    and val :: "'w \<Rightarrow> nat \<Rightarrow> string \<Rightarrow> bool"
    and room :: "nat \<Rightarrow> bool"
    and push :: "nat \<Rightarrow> nat \<Rightarrow> 'w \<Rightarrow> (unit, 'w) outcome"
    and fetch :: "nat \<Rightarrow> nat \<Rightarrow> nat \<Rightarrow> 'w \<Rightarrow> (unit, 'w) outcome"
  assumes push_law: "seq w l xss F \<Longrightarrow> val w v x \<Longrightarrow> v \<notin> F \<Longrightarrow> room (length xss) \<Longrightarrow>
      \<exists>w' F'. push l v w = Ok () w' \<and> seq w' l (xss @ [x]) F' \<and> 
        (\<forall>d y. d \<notin> F \<longrightarrow> val w d y \<longrightarrow> d \<notin> F' \<and> val w' d y)"
    and fetch_law: "seq w l xss F \<Longrightarrow> i < length xss \<Longrightarrow> room i \<Longrightarrow> val w d y \<Longrightarrow> d \<notin> F \<Longrightarrow>
      \<exists>w'. fetch d l i w = Ok () w' \<and> seq w' l xss F \<and> val w' d (xss ! i) \<and> (\<forall>e z. e \<noteq> d \<longrightarrow> val w e z \<longrightarrow> val w' e z)"
    and fetch_range: "seq w l xss F \<Longrightarrow> length xss \<le> i \<Longrightarrow> fetch d l i w = Fail (-1) w"
begin

primrec push_all :: "nat \<Rightarrow> nat list \<Rightarrow> 'w \<Rightarrow> (unit, 'w) outcome" where
  "push_all l [] = nc_return ()"
| "push_all l (v # vs) = nc_bind (push l v) (\<lambda>_. push_all l vs)"

lemma push_all_ok:
  assumes "seq w l xss F" "list_all2 (\<lambda>v x. val w v x \<and> v \<notin> F) vs ys" "\<And>n. n < length xss + length vs \<Longrightarrow> room n"
  shows "\<exists>w' F'. push_all l vs w = Ok () w' \<and> seq w' l (xss @ ys) F' \<and>
    (\<forall>d y. d \<notin> F \<longrightarrow> val w d y \<longrightarrow> d \<notin> F' \<and> val w' d y)"
  using assms
proof (induction vs arbitrary: w xss ys F)
  case (Cons v vs)
  then obtain y ys' where ys: "ys = y # ys'" "val w v y" "v \<notin> F" "list_all2 (\<lambda>v x. val w v x \<and> v \<notin> F) vs ys'"
    by (auto simp: list_all2_Cons1)
  have "room (length xss)" using Cons.prems(3) by simp
  from push_law [OF Cons.prems(1) ys(2,3) this]
  obtain w1 F1 where w1: "push l v w = Ok () w1" "seq w1 l (xss @ [y]) F1"
      "\<forall>d y. d \<notin> F \<longrightarrow> val w d y \<longrightarrow> d \<notin> F1 \<and> val w1 d y" by auto
  have "list_all2 (\<lambda>v x. val w1 v x \<and> v \<notin> F1) vs ys'"
    using ys(4) w1(3) by (auto elim!: list_all2_mono)
  then obtain w2 F2 where w2: "push_all l vs w1 = Ok () w2" "seq w2 l ((xss @ [y]) @ ys') F2"
      "\<forall>d y. d \<notin> F1 \<longrightarrow> val w1 d y \<longrightarrow> d \<notin> F2 \<and> val w2 d y"
    using Cons.IH [OF w1(2), of ys'] Cons.prems(3) by auto
  then have "push_all l (v # vs) w = Ok () w2" "seq w2 l (xss @ ys) F2"
    using w1(1) ys(1) by (simp_all add: nc_bind_def)
  with w1(3) w2(3) show ?case by blast
qed (auto simp: nc_return_def)

end

locale string_queue = string_seq +
  fixes shift :: "nat \<Rightarrow> nat \<Rightarrow> 'a \<Rightarrow> (unit, 'a) outcome"
  assumes shift_law: "seq w l (x # xss) F \<Longrightarrow> val w d y \<Longrightarrow> d \<notin> F \<Longrightarrow> room (length xss) \<Longrightarrow>
      \<exists>w' F'. shift d l w = Ok () w' \<and> seq w' l xss F' \<and> val w' d x \<and> d \<notin> F' \<and>
        (\<forall>e z. e \<noteq> d \<longrightarrow> e \<notin> F \<longrightarrow> val w e z \<longrightarrow> e \<notin> F' \<and> val w' e z)"
    and shift_empty: "seq w l [] F \<Longrightarrow> shift d l w = Fail (-1) w"
begin

primrec shift_all :: "nat list \<Rightarrow> nat \<Rightarrow> 'a \<Rightarrow> (unit, 'a) outcome" where
  "shift_all [] l = nc_return ()"
| "shift_all (d # ds) l = nc_bind (shift d l) (\<lambda>_. shift_all ds l)"

text \<open>Elements come out in the order in which they are in the sequence.\<close>

lemma shift_all_ok:
  assumes "seq w l (xss @ yss) F" "length ds = length xss" "distinct ds" "\<forall>d\<in>set ds. d \<notin> F \<and> (\<exists>y. val w d y)"
    "\<And>n. n < length xss + length yss \<Longrightarrow> room n"
  shows "\<exists>w' F'. shift_all ds l w = Ok () w' \<and> seq w' l yss F' \<and> list_all2 (val w') ds xss \<and>
    (\<forall>e z. e \<notin> set ds \<longrightarrow> e \<notin> F \<longrightarrow> val w e z \<longrightarrow> e \<notin> F' \<and> val w' e z)"
  using assms
proof (induction ds arbitrary: w xss F)
  case Nil
  then show ?case by (auto simp: nc_return_def)
next
  case (Cons d ds)
  obtain x xss' where xss: "xss = x # xss'" using Cons.prems(2) by (cases xss) auto
  obtain y where y: "val w d y" "d \<notin> F" using Cons.prems(4) by auto
  have "room (length (xss' @ yss))" using Cons.prems(5) xss by simp
  from shift_law [of w l x "xss' @ yss" F d y] Cons.prems(1) xss y this
  obtain w1 F1 where w1: "shift d l w = Ok () w1" "seq w1 l (xss' @ yss) F1" "val w1 d x" "d \<notin> F1"
      "\<forall>e z. e \<noteq> d \<longrightarrow> e \<notin> F \<longrightarrow> val w e z \<longrightarrow> e \<notin> F1 \<and> val w1 e z" by auto
  have "\<forall>e\<in>set ds. e \<notin> F1 \<and> (\<exists>y. val w1 e y)" using Cons.prems(3,4) w1(5) by fastforce
  then obtain w2 F2 where w2: "shift_all ds l w1 = Ok () w2" "seq w2 l yss F2" "list_all2 (val w2) ds xss'"
      "\<forall>e z. e \<notin> set ds \<longrightarrow> e \<notin> F1 \<longrightarrow> val w1 e z \<longrightarrow> e \<notin> F2 \<and> val w2 e z"
    using Cons.IH [OF w1(2)] Cons.prems(2,3,5) xss by auto
  have d: "val w2 d x" "d \<notin> F2" using w2(4) w1(3,4) Cons.prems(3) by auto
  have "shift_all (d # ds) l w = Ok () w2" using w1(1) w2(1) by (simp add: nc_bind_def)
  moreover have "\<forall>e z. e \<notin> set (d # ds) \<longrightarrow> e \<notin> F \<longrightarrow> val w e z \<longrightarrow> e \<notin> F2 \<and> val w2 e z" using w1(5) w2(4)
    by (metis list.set_intros)
  ultimately show ?case using w2(2,3) d(1) xss by auto
qed

text \<open>First in, first out.\<close>

lemma fifo:
  assumes "seq w l [] F" "list_all2 (\<lambda>v x. val w v x \<and> v \<notin> F) vs xss" "length ds = length vs" "distinct ds"
    "\<forall>d\<in>set ds. d \<notin> F \<and> (\<exists>y. val w d y)" "\<And>n. n < length vs \<Longrightarrow> room n"
  shows "\<exists>w' F'. nc_bind (push_all l vs) (\<lambda>_. shift_all ds l) w = Ok () w' \<and> seq w' l [] F' \<and> list_all2 (val w') ds xss"
proof -
  obtain w1 F1 where w1: "push_all l vs w = Ok () w1" "seq w1 l xss F1"
      "\<forall>d y. d \<notin> F \<longrightarrow> val w d y \<longrightarrow> d \<notin> F1 \<and> val w1 d y"
    using push_all_ok [OF assms(1,2)] assms(6) by auto
  have len: "length vs = length xss" using assms(2) by (rule list_all2_lengthD)
  have "\<forall>d\<in>set ds. d \<notin> F1 \<and> (\<exists>y. val w1 d y)" using assms(5) w1(3) by blast
  then obtain w2 F2 where "shift_all ds l w1 = Ok () w2" "seq w2 l [] F2" "list_all2 (val w2) ds xss"
    using shift_all_ok [of w1 l xss "[]" F1 ds] w1(2) assms(3,4,6) len by auto
  with w1(1) show ?thesis by (auto simp: nc_bind_def)
qed

end

locale string_stack = string_seq +
  fixes pop :: "nat \<Rightarrow> nat \<Rightarrow> 'a \<Rightarrow> (unit, 'a) outcome"
  assumes pop_law: "seq w l (xss @ [x]) F \<Longrightarrow> val w d y \<Longrightarrow> d \<notin> F \<Longrightarrow> room (length xss) \<Longrightarrow>
      \<exists>w' F'. pop d l w = Ok () w' \<and> seq w' l xss F' \<and> val w' d x \<and> d \<notin> F' \<and>
        (\<forall>e z. e \<noteq> d \<longrightarrow> e \<notin> F \<longrightarrow> val w e z \<longrightarrow> e \<notin> F' \<and> val w' e z)"
    and pop_empty: "seq w l [] F \<Longrightarrow> pop d l w = Fail (-1) w"
begin

text \<open>Popping undoes a push.\<close>

lemma push_pop:
  assumes "seq w l xss F" "val w v x" "v \<notin> F" "val w d y" "d \<notin> F" "room (length xss)"
  shows "\<exists>w' F'. nc_bind (push l v) (\<lambda>_. pop d l) w = Ok () w' \<and> seq w' l xss F' \<and> val w' d x"
proof -
  obtain w1 F1 where w1: "push l v w = Ok () w1" "seq w1 l (xss @ [x]) F1" "d \<notin> F1" "val w1 d y"
    using push_law [OF assms(1,2,3,6)] assms(4,5) by blast
  from pop_law [OF w1(2,4,3) assms(6)] w1(1) show ?thesis by (auto simp: nc_bind_def)
qed

end

section \<open>The lists of the library\<close>

definition list_obj :: "'z list_heap_scheme \<Rightarrow> nat \<Rightarrow> string list \<Rightarrow> nat set \<Rightarrow> bool" where
  "list_obj w l xss F \<longleftrightarrow> wf_lh w \<and> mem_ok w \<and> (\<exists>cs. list_at w l cs xss \<and> F = snd ` set cs)"

definition list_room :: "nat \<Rightarrow> bool" where
  "list_room n \<longleftrightarrow> n + 1 < 2 ^ 32"

lemma list_obj_frame:
  assumes "list_at w' l cs xss" "mod_lh S E {l} w w'" "wf_lh w" "mem_ok w" "\<forall>a\<in>S \<union> E \<union> {l}. a < brk w'"
  shows "list_obj w' l xss (snd ` set cs)"
  using assms mod_lh_wf [OF assms(2,3)] mod_lh_mem_ok [OF assms(2)] by (auto simp: list_obj_def)

lemma list_obj_push:
  assumes "list_obj w l xss F" "str_has w v x" "v \<notin> F" "list_room (length xss)"
  shows "\<exists>w' F'. list_push l v w = Ok () w' \<and> list_obj w' l (xss @ [x]) F' \<and>
    (\<forall>d y. d \<notin> F \<longrightarrow> str_has w d y \<longrightarrow> d \<notin> F' \<and> str_has w' d y)"
proof -
  obtain cs where c: "list_at w l cs xss" "F = snd ` set cs" "wf_lh w" "mem_ok w"
    using assms(1) by (auto simp: list_obj_def)
  have len: "length cs + 1 < 2 ^ 64"
    using assms(4) vals_length [of w cs xss] c(1) by (simp add: list_room_def list_at_def)
  obtain w' a s where w': "list_push l v w = Ok () w'" "list_at w' l (cs @ [(a, s)]) (xss @ [x])"
      "mod_lh {s} (insert a (fst ` set cs)) {l} w w'" "brk w \<le> s" "a < brk w'" "s < brk w'"
    using list_push_ok [OF c(1) str_has_src [OF assms(2)] len c(4,3)] by blast
  have "wf_lh w'" using list_push_wf [OF w'(3) _ c(3) w'(5,6)] c(1) by (simp add: list_at_def)
  then have "list_obj w' l (xss @ [x]) (insert s F)"
    using w'(2) c(2,4) mod_lh_mem_ok [OF w'(3)] by (auto simp: list_obj_def intro!: exI [of _ "cs @ [(a, s)]"])
  moreover have "d \<noteq> s" if "str_has w d y" for d y using str_has_lt [of w d y] that c(3) w'(4) by auto
  ultimately show ?thesis using w'(1) mod_lh_has [OF w'(3)] by blast
qed

lemma list_obj_get:
  assumes "list_obj w l xss F" "i < length xss" "list_room i" "str_has w d y" "d \<notin> F"
  shows "\<exists>w'. list_get d l i w = Ok () w' \<and> list_obj w' l xss F \<and> str_has w' d (xss ! i) \<and>
    (\<forall>e z. e \<noteq> d \<longrightarrow> str_has w e z \<longrightarrow> str_has w' e z)"
proof -
  obtain cs where c: "list_at w l cs xss" "F = snd ` set cs" "wf_lh w" "mem_ok w"
    using assms(1) by (auto simp: list_obj_def)
  obtain w' where w': "list_get d l i w = Ok () w'" "str_upd w d (xss ! i) w'"
    using list_get_ok [OF c(1) assms(2) _ assms(4) _ c(4,3)] assms(3,5) c(2) by (auto simp: list_room_def)
  have m: "mod_lh {d} {} {l} w w'"
    by (rule mod_lh_mono [OF mod_strs_lh [OF str_upd_mod [OF w'(2)]]]) auto
  have "list_at w' l cs xss"
    by (rule list_at_frame [OF c(1) mod_strs_lh [OF str_upd_mod [OF w'(2)]]]) (use assms(5) c(2) in auto)
  moreover have "l < brk w" "d < brk w" using list_cells_lt(1) [of w l cs] str_has_lt [of w d y] c(1,3) assms(4) by (auto simp: list_at_def)
  ultimately have "list_obj w' l xss F"
    using list_obj_frame [OF _ m c(3,4)] mod_lh_brk [OF m] c(2) by auto
  with w' show ?thesis using str_upd_has [OF w'(2)] str_upd_has_other [OF w'(2)] by blast
qed

lemma list_obj_take:
  assumes "list_at w' l ds yss" "mod_lh {d, s} (fst ` set cs) {l} w w'" "set ds \<subseteq> set cs" "s \<in> snd ` set cs"
    "list_at w l cs xss" "wf_lh w" "mem_ok w" "str_has w d y" "d \<notin> snd ` set cs"
  shows "\<exists>F'. list_obj w' l yss F' \<and> d \<notin> F' \<and>
    (\<forall>e z. e \<noteq> d \<longrightarrow> e \<notin> snd ` set cs \<longrightarrow> str_has w e z \<longrightarrow> e \<notin> F' \<and> str_has w' e z)"
proof -
  have lt: "l < brk w" "d < brk w" "s < brk w" "fst ` set cs \<subseteq> {..<brk w}"
    using list_cells_lt(1,2) [of w l cs] vals_lt [of w cs xss s] str_has_lt [of w d y] assms(4-6,8) by (auto simp: list_at_def)
  have "list_obj w' l yss (snd ` set ds)"
    by (rule list_obj_frame [OF assms(1,2,6,7)]) (use lt mod_lh_brk [OF assms(2)] in auto)
  moreover have "snd ` set ds \<subseteq> snd ` set cs" using assms(3) by auto
  moreover have "str_has w' e z" if "e \<noteq> d" "e \<notin> snd ` set cs" "str_has w e z" for e z
    using mod_lh_has [OF assms(2), of e z] that assms(4) by auto
  ultimately show ?thesis using assms(9) by blast
qed

lemma list_obj_shift:
  assumes "list_obj w l (x # xss) F" "str_has w d y" "d \<notin> F" "list_room (length xss)"
  shows "\<exists>w' F'. list_shift d l w = Ok () w' \<and> list_obj w' l xss F' \<and> str_has w' d x \<and> d \<notin> F' \<and>
    (\<forall>e z. e \<noteq> d \<longrightarrow> e \<notin> F \<longrightarrow> str_has w e z \<longrightarrow> e \<notin> F' \<and> str_has w' e z)"
proof -
  obtain cs where c: "list_at w l cs (x # xss)" "F = snd ` set cs" "wf_lh w" "mem_ok w"
    using assms(1) by (auto simp: list_obj_def)
  have len: "length cs = Suc (length xss)" using vals_length [of w cs "x # xss"] c(1) by (simp add: list_at_def)
  then have ne: "cs \<noteq> []" "length cs < 2 ^ 64" using assms(4) by (auto simp: list_room_def)
  obtain w' where w': "list_shift d l w = Ok () w'" "list_at w' l (tl cs) xss" "str_has w' d x"
      "mod_lh {d, snd (hd cs)} (fst ` set cs) {l} w w'"
    using list_shift_ok [OF c(1) assms(2) _ c(4) ne(2) c(3)] assms(3) c(2) by auto
  have "set (tl cs) \<subseteq> set cs" "snd (hd cs) \<in> snd ` set cs" using ne(1) by (auto dest: list.set_sel)
  from list_obj_take [OF w'(2,4) this c(1,3,4) assms(2)] w'(1,3) assms(3) c(2) show ?thesis by blast
qed

lemma list_obj_pop:
  assumes "list_obj w l (xss @ [x]) F" "str_has w d y" "d \<notin> F" "list_room (length xss)"
  shows "\<exists>w' F'. list_pop d l w = Ok () w' \<and> list_obj w' l xss F' \<and> str_has w' d x \<and> d \<notin> F' \<and>
    (\<forall>e z. e \<noteq> d \<longrightarrow> e \<notin> F \<longrightarrow> str_has w e z \<longrightarrow> e \<notin> F' \<and> str_has w' e z)"
proof -
  obtain cs where c: "list_at w l cs (xss @ [x])" "F = snd ` set cs" "wf_lh w" "mem_ok w"
    using assms(1) by (auto simp: list_obj_def)
  have len: "length cs = Suc (length xss)" using vals_length [of w cs "xss @ [x]"] c(1) by (simp add: list_at_def)
  then have ne: "cs \<noteq> []" "length cs < 2 ^ 64" using assms(4) by (auto simp: list_room_def)
  obtain w' where w': "list_pop d l w = Ok () w'" "list_at w' l (butlast cs) xss" "str_has w' d x"
      "mod_lh {d, snd (last cs)} (fst ` set cs) {l} w w'"
    using list_pop_ok [OF c(1) assms(2) _ c(4) ne(2)] assms(3) c(2) by auto
  have "set (butlast cs) \<subseteq> set cs" "snd (last cs) \<in> snd ` set cs" using ne(1) by (auto dest: in_set_butlastD)
  from list_obj_take [OF w'(2,4) this c(1,3,4) assms(2)] w'(1,3) assms(3) c(2) show ?thesis by blast
qed

lemma list_obj_empty:
  assumes "list_obj w l [] F"
  shows "list_shift d l w = Fail (-1) w" "list_pop d l w = Fail (-1) w"
  using assms list_shift_empty list_pop_empty by (auto simp: list_obj_def list_at_def vals_def)

lemma list_obj_range: "list_obj w l xss F \<Longrightarrow> length xss \<le> i \<Longrightarrow> list_get d l i w = Fail (-1) w"
  using list_get_range by (auto simp: list_obj_def)

interpretation ls: string_seq list_obj str_has list_room list_push list_get
  by unfold_locales (rule list_obj_push list_obj_get list_obj_range; assumption)+

interpretation lq: string_queue list_obj str_has list_room list_push list_get list_shift
  by unfold_locales (rule list_obj_shift list_obj_empty; assumption)+

interpretation lk: string_stack list_obj str_has list_room list_push list_get list_pop
  by unfold_locales (rule list_obj_pop list_obj_empty; assumption)+

end
