(* ===== verification/NC_List_Text.thy ===== *)
theory NC_List_Text
  imports NC_List_Seq
begin

text \<open>
  Conversions between strings and lists: \<^verbatim>\<open>str_split\<close> (src/string.c), \<^verbatim>\<open>str_join\<close>, \<^verbatim>\<open>list_serialize\<close> and
  \<^verbatim>\<open>list_deserialize\<close> (src/list.c). Nested automatic strings are freed from the innermost outwards here and
  in the order of their declarations in C; the frees are independent of each other.
\<close>

section \<open>Splitting\<close>

text \<open>
  strsep(3) at the offset \<open>off\<close> of the buffer of \<open>s\<close>: the token ends at the first of the delimiters, which is
  overwritten by a NUL, and the scan goes on behind it; without one, the pointer becomes NULL.
\<close>

definition strsep :: "nat \<Rightarrow> nat \<Rightarrow> string \<Rightarrow> (nat option, 'z) nc" where
  "strsep s off delims =
     nc_bind (cread (CVal s off)) (\<lambda>cs.
     let n = length (takeWhile (\<lambda>c. c \<notin> set delims) cs) in
     if n < length cs then nc_bind (poke s (off + n) [Some NUL]) (\<lambda>_. nc_return (Some (off + n + 1)))
     else nc_return None)"

text \<open>
  The loop over the tokens. Each iteration moves on by at least one byte, so the size of the
  block bounds them.
\<close>

primrec str_split_loop :: "nat \<Rightarrow> nat \<Rightarrow> nat \<Rightarrow> nat \<Rightarrow> int \<Rightarrow> nat option \<Rightarrow> (unit, 'z) lnc" where
  "str_split_loop 0 dest src_copy delim delimiter cp = nc_fault Diverge"
| "str_split_loop (Suc k) dest src_copy delim delimiter cp =
     (case cp of None \<Rightarrow> nc_return ()
      | Some tok \<Rightarrow> nc_bind (cread (CVal delim 0)) (\<lambda>delims.
          nc_bind (strsep src_copy tok delims) (\<lambda>cp'.
          nc_bind (list_cat dest (CVal src_copy tok)) (\<lambda>_.
          nc_bind (nc_when (delimiter = 10)
            (nc_bind (get_list dest) (\<lambda>h. nc_bind (deref (l_tail h)) (\<lambda>t.
             nc_bind (get_ent t) (\<lambda>e. nc_bind (deref (e_value e)) str_chomp))))) (\<lambda>_.
          str_split_loop k dest src_copy delim delimiter cp')))))"

definition str_split :: "nat \<Rightarrow> nat \<Rightarrow> int \<Rightarrow> (unit, 'z) lnc" where
  "str_split dest src delimiter =
     with_auto_str (\<lambda>buf. with_auto_str (\<lambda>src_copy. with_auto_str (\<lambda>delim.
       nc_bind (get_str src) (\<lambda>t.
       if s_len t = 0 then nc_return ()
       else nc_bind (str_copy src_copy src) (\<lambda>_.
         nc_bind (str_sprintf delim ''%c'' [PChr delimiter]) (\<lambda>_.
         nc_bind (list_truncate dest) (\<lambda>_.
         nc_bind (str_chomp src_copy) (\<lambda>_.
         nc_bind (cbytes (CVal src_copy 0)) (\<lambda>b.
         str_split_loop (Suc (Suc (length b))) dest src_copy delim delimiter (Some 0))))))))))"

section \<open>Joining\<close>

definition str_join :: "nat \<Rightarrow> nat \<Rightarrow> int \<Rightarrow> (unit, 'z) lnc" where
  "str_join dest src delimiter =
     nc_bind (str_truncate dest) (\<lambda>_.
     nc_bind (for_each src (\<lambda>cur i.
       nc_bind (get_ent cur) (\<lambda>e. nc_bind (deref (e_value e)) (\<lambda>v.
       nc_bind (str_append dest v) (\<lambda>_.
       nc_bind (get_list src) (\<lambda>h.
       nc_bind (nc_when (sz (i + 1) < l_count h) (str_putc dest delimiter)) (\<lambda>_.
       nc_return (sz (i + 1), True))))))) 0) (\<lambda>_.
     nc_when (delimiter = 10) (str_putc dest delimiter)))"

section \<open>Serialisation\<close>

definition serialize_body :: "nat \<Rightarrow> nat \<Rightarrow> nat \<Rightarrow> nat \<Rightarrow> (nat \<times> bool, 'z) lnc" where
  "serialize_body dest buf cur i =
     nc_bind (get_ent cur) (\<lambda>e. nc_bind (deref (e_value e)) (\<lambda>v.
     nc_bind (str_escape buf v) (\<lambda>_.
     nc_bind (nc_when (i \<noteq> 0) (str_putc dest 32)) (\<lambda>_.
     nc_bind (str_append dest buf) (\<lambda>_. nc_return (sz (i + 1), True))))))"

definition list_serialize :: "nat \<Rightarrow> nat \<Rightarrow> (unit, 'z) lnc" where
  "list_serialize dest src = with_auto_str (\<lambda>buf.
     nc_bind (str_truncate dest) (\<lambda>_.
     nc_bind (for_each src (serialize_body dest buf) 0) (\<lambda>_. nc_return ())))"

definition deserialize_body :: "nat \<Rightarrow> nat \<Rightarrow> nat \<Rightarrow> unit \<Rightarrow> (unit \<times> bool, 'z) lnc" where
  "deserialize_body dest buf cur acc =
     nc_bind (get_ent cur) (\<lambda>e. nc_bind (deref (e_value e)) (\<lambda>v.
     nc_bind (str_unescape buf v) (\<lambda>_.
     nc_bind (list_push dest buf) (\<lambda>_. nc_return ((), True)))))"

text \<open>The automatic variables are destroyed in the order of their declaration, \<^verbatim>\<open>tok\<close> first.\<close>

definition list_deserialize :: "nat \<Rightarrow> nat \<Rightarrow> (unit, 'z) lnc" where
  "list_deserialize dest src =
     nc_bind (list_new None) (\<lambda>tok.
     nc_bind (str_new None) (\<lambda>buf.
     nc_bind (list_truncate dest) (\<lambda>_.
     nc_bind (str_split tok src 32) (\<lambda>_.
     nc_bind (for_each tok (deserialize_body dest buf) ()) (\<lambda>_.
     nc_bind (list_destroy (Some tok)) (\<lambda>_.
     str_destroy (Some buf)))))))"

end
