(* ===== verification/NC_List_Text_Laws.thy ===== *)
theory NC_List_Text_Laws
  imports NC_List_Text
begin

text \<open>
  What splitting, joining and (de)serialising lists compute, and that deserialisation undoes
  serialisation.
\<close>

section \<open>Tokens\<close>

fun split_on :: "char \<Rightarrow> string \<Rightarrow> string list" where
  "split_on d [] = [[]]"
| "split_on d (c # cs) = (if c = d then [] # split_on d cs else (c # hd (split_on d cs)) # tl (split_on d cs))"

lemma split_on_ne [simp]: "split_on d xs \<noteq> []"
  by (cases xs) auto

lemma split_on_plain: "d \<notin> set xs \<Longrightarrow> split_on d xs = [xs]"
  by (induction xs) auto

lemma split_on_append: "d \<notin> set xs \<Longrightarrow> split_on d (xs @ d # ys) = xs # split_on d ys"
  by (induction xs) auto

lemma split_on_length: "length (split_on d xs) \<le> Suc (length xs)"
  by (induction xs) (auto simp: Suc_le_eq)

primrec join :: "char \<Rightarrow> string list \<Rightarrow> string" where
  "join d [] = []"
| "join d (x # xss) = x @ (if xss = [] then [] else d # join d xss)"

lemma join_simps: "join d [x] = x" "xss \<noteq> [] \<Longrightarrow> join d (x # xss) = x @ d # join d xss"
  by simp_all

lemma join_snoc: "xss \<noteq> [] \<Longrightarrow> join d (xss @ [x]) = join d xss @ d # x"
  by (induction xss) auto

text \<open>Splitting undoes joining when no element contains the delimiter.\<close>

lemma split_join: "xss \<noteq> [] \<Longrightarrow> \<forall>x\<in>set xss. d \<notin> set x \<Longrightarrow> split_on d (join d xss) = xss"
proof (induction xss)
  case (Cons x xss)
  then show ?case by (cases "xss = []") (simp_all add: split_on_plain split_on_append)
qed simp

definition token_post :: "int \<Rightarrow> string \<Rightarrow> string" where
  "token_post delimiter x = (if delimiter = 10 then chomp x else x)"

lemma cread_inner:
  assumes "str_has w s xs" "i \<le> length xs"
  shows "cread (CVal s i) w = Ok (takeWhile (\<lambda>c. c \<noteq> NUL) (drop i xs)) w"
proof -
  obtain r where "cbytes (CVal s i) w = Ok (map Some (drop i xs) @ Some NUL # r) w"
    using cbytes_str_has [OF assms] .
  then show ?thesis by (simp add: cread_def nc_simps cstr_takeWhile)
qed

lemma cread_tail:
  assumes "str_has w s xs" "i \<le> length xs" "NUL \<notin> set (drop i xs)"
  shows "cread (CVal s i) w = Ok (drop i xs) w"
proof -
  have "takeWhile (\<lambda>c. c \<noteq> NUL) (drop i xs) = drop i xs" using assms(3) by (auto simp: takeWhile_eq_all_conv)
  with cread_inner [OF assms(1,2)] show ?thesis by simp
qed

lemma strsep_ok:
  assumes "str_has w s xs" "i \<le> length xs" "NUL \<notin> set (drop i xs)" "c \<noteq> NUL"
  shows "\<exists>w' ys. strsep s i [c] w = Ok (if c \<in> set (drop i xs) then Some (i + length (hd (split_on c (drop i xs))) + 1) else None) w' \<and>
    str_upd w s ys w' \<and> length ys = length xs \<and> cread (CVal s i) w' = Ok (hd (split_on c (drop i xs))) w' \<and>
    (c \<in> set (drop i xs) \<longrightarrow> (let j = i + length (hd (split_on c (drop i xs))) + 1 in
       j \<le> length xs \<and> drop j ys = drop j xs \<and> split_on c (drop i xs) = hd (split_on c (drop i xs)) # split_on c (drop j xs)))"
proof (cases "c \<in> set (drop i xs)")
  case False
  have r: "cread (CVal s i) w = Ok (drop i xs) w" by (rule cread_tail [OF assms(1-3)])
  have tw: "takeWhile (\<lambda>x. x \<noteq> c) (drop i xs) = drop i xs" using False by (auto simp: takeWhile_eq_all_conv)
  have "strsep s i [c] w = Ok None w" using r by (simp add: strsep_def nc_simps Let_def tw)
  then show ?thesis using False r assms(1) str_upd_refl [OF assms(1)] split_on_plain [OF False] by auto
next
  case True
  obtain as bs where ab: "drop i xs = as @ c # bs" "c \<notin> set as" using True by (metis split_list_first)
  have hd: "hd (split_on c (drop i xs)) = as" using ab by (simp add: split_on_append)
  have tw: "takeWhile (\<lambda>x. x \<notin> set [c]) (drop i xs) = as" using ab by (simp add: takeWhile_append)
  have r: "cread (CVal s i) w = Ok (drop i xs) w" by (rule cread_tail [OF assms(1-3)])
  have len: "i + length as < length xs" using arg_cong [OF ab(1), of length] by simp
  obtain w' where w': "poke s (i + length as) [Some NUL] w = Ok () w'" "str_upd w s (xs[i + length as := NUL]) w'"
    using poke_char [OF assms(1) len, of NUL] by blast
  let ?ys = "xs[i + length as := NUL]"
  have "strsep s i [c] w = Ok (Some (i + length as + 1)) w'"
    using r tw w'(1) ab(1) by (simp add: strsep_def nc_simps Let_def)
  moreover have "drop i ?ys = as @ NUL # bs"
    using ab(1) len by (simp add: drop_update_swap list_update_append)
  then have "cread (CVal s i) w' = Ok as w'"
    using cread_inner [OF str_upd_has [OF w'(2)], of i] len assms(3) ab(1) by (simp add: takeWhile_append)
  moreover have "drop (i + length as + 1) xs = bs"
    using arg_cong [OF ab(1), of "drop (length as + 1)"] by (simp add: add.commute)
  moreover have "drop (i + length as + 1) ?ys = drop (i + length as + 1) xs" by simp
  ultimately show ?thesis
    using True hd w'(2) len ab by (intro exI [of _ w'] exI [of _ ?ys]) (simp add: Let_def split_on_append)
qed

section \<open>Splitting\<close>

definition split_post :: "nat \<Rightarrow> int \<Rightarrow> (unit, 'z) lnc" where
  "split_post dest delimiter = nc_when (delimiter = 10)
     (nc_bind (get_list dest) (\<lambda>h. nc_bind (deref (l_tail h)) (\<lambda>t.
      nc_bind (get_ent t) (\<lambda>e. nc_bind (deref (e_value e)) str_chomp))))"

lemma split_post_ok:
  assumes "list_at w l (ds @ [(a, s)]) (yss @ [x])" "length yss = length ds"
  shows "\<exists>w'. split_post l d w = Ok () w' \<and> list_at w' l (ds @ [(a, s)]) (yss @ [token_post d x]) \<and> mod_lh {s} {} {} w w'"
proof (cases "d = 10")
  case True
  have c: "lists w l = Some (header (ds @ [(a, s)]))" "vals w (ds @ [(a, s)]) (yss @ [x])"
      "ents w a = Some \<lparr>e_value = Some s, e_next = None, e_prev = last_addr None ds\<rparr>" "s \<notin> snd ` set ds"
    using assms(1) by (auto simp: list_at_def list_cells_def)
  then have v: "vals w ds yss" "str_has w s x" using vals_append [of ds yss w] assms(2) by auto
  obtain w' where w': "str_chomp s w = Ok () w'" "str_upd w s (chomp x) w'" using str_chomp_ok [OF v(2)] by blast
  have m: "mod_lh {s} {} {} w w'" by (rule mod_strs_lh [OF str_upd_mod [OF w'(2)]])
  have "vals w' ds yss = vals w ds yss"
    by (rule vals_frame) (use c(4) mod_lh_strs [OF m] in force)
  then have "vals w' (ds @ [(a, s)]) (yss @ [chomp x])"
    using v(1) vals_append [of ds yss w'] assms(2) str_upd_has [OF w'(2)] by auto
  then have "list_at w' l (ds @ [(a, s)]) (yss @ [chomp x])"
    using assms(1) str_upd_ents [OF w'(2)] str_upd_lists [OF w'(2)] by (simp add: list_at_def list_cells_def)
  moreover have "split_post l d w = Ok () w'"
    using True c(1,3) w'(1) by (simp add: split_post_def list_run header_def)
  ultimately show ?thesis using True m by (auto simp: token_post_def)
next
  case False
  then show ?thesis using assms(1) by (simp add: split_post_def token_post_def nc_simps)
qed

lemma str_split_loop_ok:
  assumes "str_has w sc xs" "i \<le> length xs" "NUL \<notin> set (drop i xs)" "str_has w dl [c]" "c \<noteq> NUL" "sc \<noteq> dl"
    "list_at w l ds yss" "sc \<notin> snd ` set ds" "dl \<notin> snd ` set ds" "length xs < STRING_MAX"
    "length ds + length (drop i xs) + 1 < 2 ^ 64" "length (drop i xs) + 1 < k" "mem_ok w" "wf_lh w"
  shows "\<exists>w' es zs. str_split_loop k l sc dl d (Some i) w = Ok () w' \<and>
    list_at w' l es (yss @ map (token_post d) (split_on c (drop i xs))) \<and> str_has w' sc zs \<and>
    mod_lh (insert sc {brk w..}) (fst ` set ds \<union> {brk w..}) {l} w w' \<and> wf_lh w' \<and>
    set es \<subseteq> set ds \<union> {brk w..} \<times> {brk w..}"
  using assms
proof (induction k arbitrary: w xs i ds yss)
  case 0
  from 0(12) show ?case by simp
next
  case (Suc k)
  let ?tok = "hd (split_on c (drop i xs))" and ?in = "c \<in> set (drop i xs)"
  have len: "length yss = length ds" using Suc.prems(7) vals_length [of w ds yss] by (simp add: list_at_def)
  obtain w1 ys where w1: "strsep sc i [c] w = Ok (if ?in then Some (i + length ?tok + 1) else None) w1"
      "str_upd w sc ys w1" "length ys = length xs" "cread (CVal sc i) w1 = Ok ?tok w1"
      and inn: "?in \<Longrightarrow> i + length ?tok + 1 \<le> length xs \<and> drop (i + length ?tok + 1) ys = drop (i + length ?tok + 1) xs \<and>
        split_on c (drop i xs) = ?tok # split_on c (drop (i + length ?tok + 1) xs)"
    using strsep_ok [OF Suc.prems(1-3,5)] by (auto simp: Let_def)
  have m1: "mod_lh {sc} {} {} w w1" by (rule mod_strs_lh [OF str_upd_mod [OF w1(2)]])
  have scl: "sc < brk w" "dl < brk w" using str_has_lt [of w sc xs] str_has_lt [of w dl "[c]"] Suc.prems(1,4,14) by simp_all
  have b1: "brk w \<le> brk w1" using mod_lh_brk [OF m1] .
  have wf1: "wf_lh w1" by (rule mod_lh_wf [OF m1 Suc.prems(14)]) (use scl b1 in simp)
  have l1: "list_at w1 l ds yss" by (rule list_at_frame [OF Suc.prems(7) m1]) (use Suc.prems(8) in auto)
  have ok1: "mem_ok w1" using mod_lh_mem_ok [OF m1] Suc.prems(13) by simp
  have "length ?tok \<le> length (drop i xs)"
  proof (cases ?in)
    case True
    then have "i + length ?tok + 1 \<le> length xs" using inn by blast
    then show ?thesis by simp
  qed (simp add: split_on_plain)
  then have tl: "length ?tok < STRING_MAX" using Suc.prems(10) by simp
  obtain w2 a s where w2: "list_cat l (CVal sc i) w1 = Ok () w2" "list_at w2 l (ds @ [(a, s)]) (yss @ [?tok])"
      "mod_lh {s} (insert a (fst ` set ds)) {l} w1 w2" "brk w1 \<le> a" "brk w1 \<le> s" "a < brk w2" "s < brk w2"
    using list_cat_ok [OF l1 w1(4) tl _ ok1 wf1] Suc.prems(11) by auto
  have wf2: "wf_lh w2" using list_push_wf [OF w2(3) _ wf1 w2(6,7)] l1 by (simp add: list_at_def)
  obtain w3 where w3: "split_post l d w2 = Ok () w3" "list_at w3 l (ds @ [(a, s)]) (yss @ [token_post d ?tok])" "mod_lh {s} {} {} w2 w3"
    using split_post_ok [OF w2(2) len] by blast
  have b3: "brk w1 \<le> brk w3" "s < brk w3" using mod_lh_brk [OF w2(3)] mod_lh_brk [OF w3(3)] w2(7) by simp_all
  have wf3: "wf_lh w3" by (rule mod_lh_wf [OF w3(3) wf2]) (use b3 in simp)
  have m13: "mod_lh {s} (insert a (fst ` set ds)) {l} w1 w3"
    by (rule mod_lh_mono [OF mod_lh_trans [OF w2(3) w3(3)]]) auto
  have m3: "mod_lh {sc, s} (insert a (fst ` set ds)) {l} w w3"
    by (rule mod_lh_mono [OF mod_lh_trans [OF m1 m13]]) auto
  have ne: "sc \<noteq> s" "dl \<noteq> s" using scl w2(5) b1 by auto
  have h3: "str_has w3 sc ys" "str_has w3 dl [c]" "mem_ok w3"
    using mod_lh_has [OF m13, of sc ys] str_upd_has [OF w1(2)] ne mod_lh_has [OF m3, of dl "[c]"] Suc.prems(4,6,13) mod_lh_mem_ok [OF m3]
    by auto
  have dr: "cread (CVal dl 0) w = Ok [c] w" using cread_inner [OF Suc.prems(4), of 0] Suc.prems(5) by simp
  have step: "str_split_loop (Suc k) l sc dl d (Some i) w
      = str_split_loop k l sc dl d (if ?in then Some (i + length ?tok + 1) else None) w3"
    using dr w1(1) w2(1) w3(1) by (simp add: nc_bind_def split_post_def)
  show ?case
  proof (cases ?in)
    case False
    obtain k' where "k = Suc k'" using Suc.prems(12) by (cases k) auto
    then have "str_split_loop (Suc k) l sc dl d (Some i) w = Ok () w3" using step False by (simp add: nc_return_def)
    moreover have "split_on c (drop i xs) = [?tok]" using False by (simp add: split_on_plain)
    then have "list_at w3 l (ds @ [(a, s)]) (yss @ map (token_post d) (split_on c (drop i xs)))" using w3(2) by (metis list.simps(8,9))
    moreover have "mod_lh (insert sc {brk w..}) (fst ` set ds \<union> {brk w..}) {l} w w3"
      by (rule mod_lh_mono [OF m3]) (use w2(4,5) b1 in auto)
    moreover have "set (ds @ [(a, s)]) \<subseteq> set ds \<union> {brk w..} \<times> {brk w..}" using w2(4,5) b1 by auto
    ultimately show ?thesis using h3(1) wf3 by blast
  next
    case True
    let ?j = "i + length ?tok + 1"
    note j = inn [OF True]
    have "set (drop ?j xs) \<subseteq> set (drop i xs)" by (rule set_drop_subset_set_drop) simp
    then have nul: "NUL \<notin> set (drop ?j ys)" using j Suc.prems(3) by auto
    have p: "?j \<le> length ys" "length ys < STRING_MAX"
        "length (ds @ [(a, s)]) + length (drop ?j ys) + 1 < 2 ^ 64" "length (drop ?j ys) + 1 < k"
        "sc \<notin> snd ` set (ds @ [(a, s)])" "dl \<notin> snd ` set (ds @ [(a, s)])"
      using j w1(3) Suc.prems(8-12) ne by auto
    obtain w' es zs where w': "str_split_loop k l sc dl d (Some ?j) w3 = Ok () w'"
        "list_at w' l es ((yss @ [token_post d ?tok]) @ map (token_post d) (split_on c (drop ?j ys)))" "str_has w' sc zs"
        "mod_lh (insert sc {brk w3..}) (fst ` set (ds @ [(a, s)]) \<union> {brk w3..}) {l} w3 w'" "wf_lh w'"
        "set es \<subseteq> set (ds @ [(a, s)]) \<union> {brk w3..} \<times> {brk w3..}"
      using Suc.IH [OF h3(1) p(1) nul h3(2) Suc.prems(5,6) w3(2) p(5,6,2,3,4) h3(3) wf3] by blast
    have "map (token_post d) (split_on c (drop i xs)) = token_post d ?tok # map (token_post d) (split_on c (drop ?j ys))"
      using j by (metis list.simps(9))
    then have "list_at w' l es (yss @ map (token_post d) (split_on c (drop i xs)))" using w'(2) by simp
    moreover have "mod_lh (insert sc {brk w..}) (fst ` set ds \<union> {brk w..}) {l} w w'"
      by (rule mod_lh_mono [OF mod_lh_trans [OF m3 w'(4)]]) (use w2(4,5) b1 b3 in auto)
    moreover have "str_split_loop (Suc k) l sc dl d (Some i) w = Ok () w'" using step w'(1) True by simp
    moreover have "set es \<subseteq> set ds \<union> {brk w..} \<times> {brk w..}" using w'(6) w2(4,5) b1 b3 by auto
    ultimately show ?thesis using w'(3,5) by blast
  qed
qed

lemma str_new_lh:
  assumes "mem_ok w" "wf_lh w"
  obtains w1 where "str_new None w = Ok (brk w) w1" "mod_lh {brk w} {} {} w w1" "str_has w1 (brk w) []" "brk w < brk w1"
    "wf_lh w1" "mem_ok w1"
proof -
  obtain w1 where w1: "str_new None w = Ok (brk w) w1" "str_upd w (brk w) [] w1" "brk w < brk w1"
    using str_new_ok [OF assms(1)] by blast
  have m: "mod_lh {brk w} {} {} w w1" by (rule mod_strs_lh [OF str_upd_mod [OF w1(2)]])
  have "wf_lh w1" by (rule mod_lh_wf [OF m assms(2)]) (use w1(3) in simp)
  with w1 m that show ?thesis using str_upd_has [OF w1(2)] assms(1) mod_lh_mem_ok [OF m] by blast
qed

lemma str_upd_lh:
  assumes "str_upd w s xs w'" "str_has w s ys" "wf_lh w"
  shows "mod_lh {s} {} {} w w'" "wf_lh w'" "str_has w' s xs" "mem_ok w' = mem_ok w"
proof -
  show m: "mod_lh {s} {} {} w w'" by (rule mod_strs_lh [OF str_upd_mod [OF assms(1)]])
  show "wf_lh w'" by (rule mod_lh_wf [OF m assms(3)]) (use str_has_lt [of w s ys] assms mod_lh_brk [OF m] in simp)
  show "str_has w' s xs" "mem_ok w' = mem_ok w" using str_upd_has [OF assms(1)] mod_lh_mem_ok [OF m] by auto
qed

lemma free_lh: "mod_lh {s} {} {} w (w\<lparr>strs := (strs w)(s := None)\<rparr>)"
  by (simp add: mod_lh_def)

lemma free_wf: "wf_lh w \<Longrightarrow> wf_lh (w\<lparr>strs := (strs w)(s := None)\<rparr>)"
  by (auto simp: wf_lh_def wf_strs_def)

definition split_body :: "nat \<Rightarrow> nat \<Rightarrow> int \<Rightarrow> nat \<Rightarrow> nat \<Rightarrow> (unit, 'z) lnc" where
  "split_body dest src delimiter src_copy delim =
     nc_bind (get_str src) (\<lambda>t.
     if s_len t = 0 then nc_return ()
     else nc_bind (str_copy src_copy src) (\<lambda>_.
       nc_bind (str_sprintf delim ''%c'' [PChr delimiter]) (\<lambda>_.
       nc_bind (list_truncate dest) (\<lambda>_.
       nc_bind (str_chomp src_copy) (\<lambda>_.
       nc_bind (cbytes (CVal src_copy 0)) (\<lambda>b.
       str_split_loop (Suc (Suc (length b))) dest src_copy delim delimiter (Some 0)))))))"

lemma chomp_no_NUL: "NUL \<notin> set xs \<Longrightarrow> NUL \<notin> set (chomp xs)"
  by (auto simp: chomp_def chomp1_def dest: in_set_butlastD)

lemma chomp_length: "length (chomp xs) \<le> length xs"
  by (simp add: chomp_def chomp1_def)

lemma split_body_ok:
  assumes "str_has w src xs" "NUL \<notin> set xs" "xs \<noteq> []" "length xs < STRING_MAX" "int_char d \<noteq> NUL"
    "list_at w l ds yss" "str_has w sc []" "str_has w dl []" "distinct [src, sc, dl]"
    "{src, sc, dl} \<inter> snd ` set ds = {}" "mem_ok w" "wf_lh w"
  shows "\<exists>w' es zs. split_body l src d sc dl w = Ok () w' \<and>
    list_at w' l es (map (token_post d) (split_on (int_char d) (chomp xs))) \<and> str_has w' sc zs \<and> str_has w' dl [int_char d] \<and>
    mod_lh ({sc, dl} \<union> snd ` set ds \<union> {brk w..}) (fst ` set ds \<union> {brk w..}) {l} w w' \<and> wf_lh w' \<and>
    set es \<subseteq> {brk w..} \<times> {brk w..}"
proof -
  let ?c = "int_char d"
  obtain w1 where w1: "str_copy sc src w = Ok () w1" "str_upd w sc xs w1"
    using str_copy_ok [OF assms(1,7) _ assms(11)] assms(9) by auto
  note u1 = str_upd_lh [OF w1(2) assms(7,12)]
  have h1: "str_has w1 dl []" "list_at w1 l ds yss"
    using mod_lh_has [OF u1(1), of dl "[]"] assms(8-10) list_at_frame [OF assms(6) u1(1)] by auto
  obtain w2 where w2: "str_vprintf dl ''%c'' [PChr d] w1 = Ok () w2" "str_upd w1 dl [?c] w2"
    using str_vprintf_ok [OF h1(1), of "''%c''" "[PChr d]" "[?c]"] assms(5,11) u1(4) by (auto simp: nc_simps STRING_MAX_def)
  note u2 = str_upd_lh [OF w2(2) h1(1) u1(2)]
  have h2: "str_has w2 sc xs" "list_at w2 l ds yss"
    using mod_lh_has [OF u2(1), of sc xs] u1(3) assms(9,10) list_at_frame [OF h1(2) u2(1)] by auto
  let ?w3 = "cleared l ds w2"
  have t: "list_truncate l w2 = Ok () ?w3" using h2(2) u2(2) by (rule list_truncate_ok)
  have "l < brk w2" using list_cells_lt(1) [of w2 l ds] h2(2) u2(2) by (simp add: list_at_def)
  then have wf3: "wf_lh ?w3" using cleared_wf [OF u2(2)] by blast
  have m3: "mod_lh (snd ` set ds) (fst ` set ds) {l} w2 ?w3" by (rule cleared_mod)
  have h3: "str_has ?w3 sc xs" "str_has ?w3 dl [?c]"
    using mod_lh_has [OF m3, of sc xs] mod_lh_has [OF m3, of dl "[?c]"] h2(1) u2(3) assms(10) by auto
  obtain w4 where w4: "str_chomp sc ?w3 = Ok () w4" "str_upd ?w3 sc (chomp xs) w4" using str_chomp_ok [OF h3(1)] by blast
  note u4 = str_upd_lh [OF w4(2) h3(1) wf3]
  have l4: "list_at w4 l [] []" by (rule list_at_frame [OF cleared_empty u4(1)]) simp_all
  have h4: "str_has w4 dl [?c]" "mem_ok w4"
    using mod_lh_has [OF u4(1), of dl "[?c]"] h3(2) assms(9,11) u1(4) u2(4) u4(4) mod_lh_mem_ok [OF m3] by auto
  obtain b where b: "cbytes (CVal sc 0) w4 = Ok (map Some (chomp xs) @ Some NUL # b) w4"
    using cbytes_str_has [OF u4(3), of 0] by auto
  have cl: "length (chomp xs) < STRING_MAX" using chomp_length [of xs] assms(4) by linarith
  then have k: "length (drop 0 (chomp xs)) + 1 < Suc (Suc (length (map Some (chomp xs) @ Some NUL # b)))"
      "length [] + length (drop 0 (chomp xs)) + 1 < 2 ^ 64" by (simp_all add: STRING_MAX_def)
  obtain w5 es zs where w5: "str_split_loop (Suc (Suc (length (map Some (chomp xs) @ Some NUL # b)))) l sc dl d (Some 0) w4 = Ok () w5"
      "list_at w5 l es (map (token_post d) (split_on ?c (chomp xs)))" "str_has w5 sc zs"
      "mod_lh (insert sc {brk w4..}) {brk w4..} {l} w4 w5" "wf_lh w5" "set es \<subseteq> {brk w4..} \<times> {brk w4..}"
    using str_split_loop_ok [OF u4(3) _ _ h4(1) assms(5) _ l4 _ _ cl k(2,1) h4(2) u4(2), of d] chomp_no_NUL [OF assms(2)] assms(9)
    by auto
  have br: "brk w \<le> brk w4"
    using mod_lh_brk [OF u1(1)] mod_lh_brk [OF u2(1)] mod_lh_brk [OF m3] mod_lh_brk [OF u4(1)] by linarith
  have "mod_lh ({sc, dl} \<union> snd ` set ds \<union> {brk w..}) (fst ` set ds \<union> {brk w..}) {l} w w5"
    by (rule mod_lh_mono [OF mod_lh_trans [OF u1(1) mod_lh_trans [OF u2(1) mod_lh_trans [OF m3 mod_lh_trans [OF u4(1) w5(4)]]]]])
      (use br in auto)
  moreover have "dl < brk w4" using str_has_lt [of w4 dl "[?c]"] h4(1) u4(2) by simp
  then have "str_has w5 dl [?c]" using mod_lh_has [OF w5(4), of dl "[?c]"] h4(1) assms(9) by auto
  moreover have "get_str src w = Ok (the (strs w src)) w" "s_len (the (strs w src)) = length xs"
    using assms(1) by (auto elim!: str_hasE simp: get_str_def)
  then have "split_body l src d sc dl w = Ok () w5"
    using assms(3) w1(1) w2(1) t w4(1) b w5(1)
    by (simp add: split_body_def str_sprintf_def nc_bind_def nc_return_def del: cbytes.simps str_split_loop.simps)
  moreover have "set es \<subseteq> {brk w..} \<times> {brk w..}" using w5(6) br by auto
  ultimately show ?thesis using w5(2,3,5) by blast
qed

lemma str_split_ok:
  assumes "str_has w src xs" "NUL \<notin> set xs" "xs \<noteq> []" "length xs < STRING_MAX" "int_char d \<noteq> NUL"
    "list_at w l ds yss" "src \<notin> snd ` set ds" "mem_ok w" "wf_lh w"
  shows "\<exists>w' es. str_split l src d w = Ok () w' \<and>
    list_at w' l es (map (token_post d) (split_on (int_char d) (chomp xs))) \<and>
    mod_lh (snd ` set ds \<union> {brk w..}) (fst ` set ds \<union> {brk w..}) {l} w w' \<and> wf_lh w' \<and> set es \<subseteq> {brk w..} \<times> {brk w..}"
proof -
  let ?a = "brk w"
  obtain w1 where w1: "str_new None w = Ok ?a w1" "mod_lh {?a} {} {} w w1" "str_has w1 ?a []" "?a < brk w1" "wf_lh w1" "mem_ok w1"
    using str_new_lh [OF assms(8,9)] .
  let ?b = "brk w1"
  obtain w2 where w2: "str_new None w1 = Ok ?b w2" "mod_lh {?b} {} {} w1 w2" "str_has w2 ?b []" "?b < brk w2" "wf_lh w2" "mem_ok w2"
    using str_new_lh [OF w1(6,5)] .
  let ?c = "brk w2"
  obtain w3 where w3: "str_new None w2 = Ok ?c w3" "mod_lh {?c} {} {} w2 w3" "str_has w3 ?c []" "?c < brk w3" "wf_lh w3" "mem_ok w3"
    using str_new_lh [OF w2(6,5)] .
  have m3: "mod_lh {?a, ?b, ?c} {} {} w w3"
    using mod_lh_trans [OF w1(2) mod_lh_trans [OF w2(2) w3(2)]] by (simp add: insert_commute)
  have src: "src < ?a" using str_has_lt [of w src xs] assms(1,9) by simp
  have lt: "snd ` set ds \<subseteq> {..<?a}" using vals_lt [of w ds yss] assms(6,9) by (auto simp: list_at_def)
  have h3: "str_has w3 src xs" "str_has w3 ?a []" "str_has w3 ?b []"
    using mod_lh_has [OF m3, of src xs] assms(1) src w1(3,4) w2(3,4) mod_lh_has [OF w2(2), of ?a "[]"]
      mod_lh_has [OF w3(2), of ?a "[]"] mod_lh_has [OF w3(2), of ?b "[]"] by simp_all
  have fresh: "{?a, ?b, ?c} \<inter> snd ` set ds = {}" using lt w1(4) w2(4) by auto
  have l3: "list_at w3 l ds yss" by (rule list_at_frame [OF assms(6) m3]) (use fresh in auto)
  have "distinct [src, ?b, ?c]" "{src, ?b, ?c} \<inter> snd ` set ds = {}" using src w1(4) w2(4) fresh assms(7) by auto
  from split_body_ok [OF h3(1) assms(2-5) l3 h3(3) w3(3) this w3(6,5)]
  obtain w4 es zs where w4: "split_body l src d ?b ?c w3 = Ok () w4"
      "list_at w4 l es (map (token_post d) (split_on (int_char d) (chomp xs)))" "str_has w4 ?b zs" "str_has w4 ?c [int_char d]"
      "mod_lh ({?b, ?c} \<union> snd ` set ds \<union> {brk w3..}) (fst ` set ds \<union> {brk w3..}) {l} w3 w4" "wf_lh w4"
      "set es \<subseteq> {brk w3..} \<times> {brk w3..}"
    by blast
  have es: "?a \<notin> snd ` set es" "?b \<notin> snd ` set es" "?c \<notin> snd ` set es"
    using w4(7) w1(4) w2(4) w3(4) by auto
  let ?w5 = "w4\<lparr>strs := (strs w4)(?c := None)\<rparr>"
  let ?w6 = "?w5\<lparr>strs := (strs ?w5)(?b := None)\<rparr>"
  let ?w7 = "?w6\<lparr>strs := (strs ?w6)(?a := None)\<rparr>"
  have a4: "str_has w4 ?a []" using mod_lh_has [OF w4(5), of ?a "[]"] h3(2) w1(4) w2(4) w3(4) fresh by auto
  have h: "str_has ?w5 ?b zs" "str_has ?w6 ?a []" using w4(3) a4 w1(4) w2(4) by (simp_all add: str_has_def)
  let ?f = "\<lambda>sc. with_auto_str (\<lambda>dl. split_body l src d sc dl)"
  have f5: "?f ?b w2 = Ok () ?w5"
    by (rule with_auto_str_run [where body = "\<lambda>dl. split_body l src d ?b dl", OF w3(1) w4(1,4)])
  have f6: "with_auto_str ?f w1 = Ok () ?w6" by (rule with_auto_str_run [where body = ?f, OF w2(1) f5 h(1)])
  have "str_split l src d w = Ok () ?w7"
    unfolding str_split_def split_body_def [symmetric]
    by (rule with_auto_str_run [where body = "\<lambda>_. with_auto_str ?f", OF w1(1) f6 h(2)])
  moreover have m47: "mod_lh {?a, ?b, ?c} {} {} w4 ?w7" by (simp add: mod_lh_def)
  have "list_at ?w7 l es (map (token_post d) (split_on (int_char d) (chomp xs)))"
    by (rule list_at_frame [OF w4(2) m47]) (use es in auto)
  moreover have "wf_lh ?w7" using free_wf [OF free_wf [OF free_wf [OF w4(6)]]] .
  moreover have "mod_lh (snd ` set ds \<union> {brk w..}) (fst ` set ds \<union> {brk w..}) {l} w ?w7"
    by (rule mod_lh_mono [OF mod_lh_trans [OF m3 mod_lh_trans [OF w4(5) m47]]]) (use w1(4) w2(4) w3(4) in auto)
  moreover have "set es \<subseteq> {brk w..} \<times> {brk w..}" using w4(7) w1(4) w2(4) w3(4) by fastforce
  ultimately show ?thesis by blast
qed

section \<open>Serialisation\<close>

definition escaped :: "string list \<Rightarrow> string" where
  "escaped xss = join (CHR '' '') (map uri_escape xss)"

lemma uri_plain_not_space: "uri_plain c \<Longrightarrow> \<not> isspace c"
proof -
  have "\<not> isspace NUL" "\<forall>d\<in>set ''/_.-~''. \<not> isspace d" by (simp_all add: isspace_def)
  then show "uri_plain c \<Longrightarrow> \<not> isspace c"
    by (auto simp: uri_plain_def strchr_def isalnum_def isupper_def islower_def isdigit_def isspace_def Let_def)
qed

lemma uri_escape_chars: "c \<in> set (uri_escape xs) \<Longrightarrow> \<not> isspace c"
proof (induction xs)
  case (Cons x xs)
  have lt: "of_char x div 16 < (16 :: nat)" "of_char x mod 16 < (16 :: nat)"
    using of_char_lt_256 [of x] by (simp_all add: less_mult_imp_div_less)
  have "\<not> isspace c" if "c \<in> set (pct_hex x)"
    using that hex_digit_props(3) [OF lt(1)] hex_digit_props(3) [OF lt(2)] by (auto simp: pct_hex_def isspace_def)
  then show ?case using Cons uri_plain_not_space by (auto split: if_splits)
qed simp

lemma uri_escape_no_space: "CHR '' '' \<notin> set (uri_escape xs)" "LF \<notin> set (uri_escape xs)" "CR \<notin> set (uri_escape xs)"
  using uri_escape_chars [of "CHR '' ''" xs] uri_escape_chars [of LF xs] uri_escape_chars [of CR xs]
  by (auto simp: isspace_def)

lemma join_set: "set (join d xss) \<subseteq> insert d (\<Union> (set ` set xss))"
  by (induction xss) auto

lemma escaped_set: "c \<in> set (escaped xss) \<Longrightarrow> c = CHR '' '' \<or> (\<exists>xs\<in>set xss. c \<in> set (uri_escape xs))"
  using join_set [of "CHR '' ''" "map uri_escape xss"] by (auto simp: escaped_def)

lemma chomp_escaped: "chomp (escaped xss) = escaped xss"
proof -
  have "LF \<notin> set (escaped xss)" "CR \<notin> set (escaped xss)"
    using escaped_set [of LF xss] escaped_set [of CR xss] uri_escape_no_space by auto
  then show ?thesis by (auto simp: chomp_def chomp1_def dest: last_in_set)
qed

lemma escaped_no_NUL: "\<forall>xs\<in>set xss. NUL \<notin> set xs \<Longrightarrow> NUL \<notin> set (escaped xss)"
  using escaped_set [of NUL xss] uri_escape_no_NUL by auto

lemma split_escaped: "xss \<noteq> [] \<Longrightarrow> split_on (CHR '' '') (escaped xss) = map uri_escape xss"
  unfolding escaped_def by (rule split_join) (auto simp: uri_escape_no_space)

lemma length_join: "length (join d (x # xss)) = length x + (if xss = [] then 0 else 1 + length (join d xss))"
  by simp

lemma serialize_loop_ok:
  assumes "dseg (ents w) q cs None" "vals w cs xss" "length cs < k" "str_has w d ys" "str_has w b bs" "d \<noteq> b"
    "{d, b} \<inter> snd ` set cs = {}" "\<forall>xs\<in>set xss. NUL \<notin> set xs \<and> 3 * length xs < STRING_MAX"
    "xss \<noteq> [] \<longrightarrow> length ys + 1 + length (escaped xss) < STRING_MAX" "i + length cs < 2 ^ 64" "mem_ok w" "wf_lh w"
  shows "\<exists>w' i' bs'. foreach_ent k (hd_addr cs None) (serialize_body d b) i w = Ok i' w' \<and>
    str_has w' d (ys @ (if xss = [] \<or> i = 0 then [] else '' '') @ escaped xss) \<and> str_has w' b bs' \<and> mod_lh {d, b} {} {} w w' \<and> wf_lh w'"
  using assms
proof (induction k arbitrary: w q cs xss ys bs i)
  case (Suc k)
  show ?case
  proof (cases cs)
    case Nil
    then have "xss = []" using Suc.prems(2) by simp
    then show ?thesis using Nil Suc.prems(4,5,12)
      by (intro exI [of _ w] exI [of _ i] exI [of _ bs]) (simp add: foreach_ent_None escaped_def)
  next
    case (Cons c cs')
    obtain a s where c: "c = (a, s)" by (cases c)
    obtain x xss' where xss: "xss = x # xss'" "str_has w s x" "vals w cs' xss'"
      using Suc.prems(2) Cons c by (auto simp: vals_Cons)
    have e: "ents w a = Some \<lparr>e_value = Some s, e_next = hd_addr cs' None, e_prev = q\<rparr>" "dseg (ents w) (Some a) cs' None"
      using Suc.prems(1) Cons c by simp_all
    have ne: "b \<noteq> s" "d \<noteq> s" "{d, b} \<inter> snd ` set cs' = {}" using Suc.prems(7) Cons c by auto
    have x: "NUL \<notin> set x" "3 * length x < STRING_MAX" using Suc.prems(8) xss(1) by auto
    obtain w1 where w1: "str_escape b s w = Ok () w1" "str_upd w b (uri_escape x) w1"
      using str_escape_ok [OF Suc.prems(5) xss(2) ne(1) x Suc.prems(11)] Suc.prems(12) by auto
    note u1 = str_upd_lh [OF w1(2) Suc.prems(5,12)]
    have d1: "str_has w1 d ys" using mod_lh_has [OF u1(1), of d ys] Suc.prems(4,6) by simp
    let ?ys = "ys @ (if i = 0 then [] else '' '')"
    have len: "length ys + 1 + length (uri_escape x) < STRING_MAX"
      using Suc.prems(9) xss(1) by (simp add: escaped_def split: if_splits)
    obtain w2 where w2: "nc_when (i \<noteq> 0) (str_putc d 32) w1 = Ok () w2" "str_upd w1 d ?ys w2"
    proof (cases "i = 0")
      case True
      then show ?thesis using that [of w1] str_upd_refl [OF d1] by (simp add: nc_simps)
    next
      case False
      have "int_char 32 = CHR '' ''" by code_simp
      then show ?thesis using that str_putc_ok [OF d1, of 32] len Suc.prems(11) u1(4) False by (auto simp: nc_when_def)
    qed
    note u2 = str_upd_lh [OF w2(2) d1 u1(2)]
    have b2: "str_has w2 b (uri_escape x)" using mod_lh_has [OF u2(1), of b "uri_escape x"] u1(3) Suc.prems(6) by simp
    have n2: "NUL \<notin> set (uri_escape x)" "length ?ys + length (uri_escape x) < STRING_MAX" "mem_ok w2"
      using uri_escape_no_NUL [OF x(1)] len Suc.prems(11) u1(4) u2(4) by simp_all
    obtain w3 where w3: "str_append d b w2 = Ok () w3" "str_upd w2 d (?ys @ uri_escape x) w3"
      using str_append_ok [OF u2(3) b2 Suc.prems(6) n2] by blast
    note u3 = str_upd_lh [OF w3(2) u2(3) u2(2)]
    have m3: "mod_lh {d, b} {} {} w w3"
      by (rule mod_lh_mono [OF mod_lh_trans [OF u1(1) mod_lh_trans [OF u2(1) u3(1)]]]) auto
    have h3: "dseg (ents w3) (Some a) cs' None" "ents w3 a = Some \<lparr>e_value = Some s, e_next = hd_addr cs' None, e_prev = q\<rparr>"
        "str_has w3 b (uri_escape x)" "mem_ok w3"
      using e m3 b2 mod_lh_has [OF u3(1), of b "uri_escape x"] Suc.prems(6,11) n2(3) u3(4)
        dseg_frame [of cs' "ents w3" "ents w" "Some a" None] by (auto simp: mod_lh_def)
    have "vals w3 cs' xss' = vals w cs' xss'"
    proof (rule vals_frame, rule ballI)
      fix y assume "y \<in> snd ` set cs'"
      then have "y \<notin> {d, b}" using ne(3) by blast
      then show "strs w3 y = strs w y" by (rule mod_lh_strs [OF m3])
    qed
    then have v3: "vals w3 cs' xss'" using xss(3) by simp
    have sz: "sz (i + 1) = i + 1" using Suc.prems(10) Cons by (simp add: sz_def)
    have body: "serialize_body d b a i w = Ok (i + 1, True) w3"
      using e(1) w1(1) w2(1) w3(1) sz by (simp add: serialize_body_def list_run)
    have len3: "xss' \<noteq> [] \<longrightarrow> length (?ys @ uri_escape x) + 1 + length (escaped xss') < STRING_MAX"
      using Suc.prems(9) xss(1) by (auto simp: escaped_def)
    have side: "length cs' < k" "\<forall>xs\<in>set xss'. NUL \<notin> set xs \<and> 3 * length xs < STRING_MAX" "(i + 1) + length cs' < 2 ^ 64"
      using Suc.prems(3,8,10) Cons xss(1) by auto
    obtain w' i' bs' where w': "foreach_ent k (hd_addr cs' None) (serialize_body d b) (i + 1) w3 = Ok i' w'"
        "str_has w' d ((?ys @ uri_escape x) @ (if xss' = [] \<or> i + 1 = 0 then [] else '' '') @ escaped xss')" "str_has w' b bs'"
        "mod_lh {d, b} {} {} w3 w'" "wf_lh w'"
      using Suc.IH [OF h3(1) v3 side(1) u3(3) h3(3) Suc.prems(6) ne(3) side(2) len3 side(3) h3(4) u3(2)] by blast
    have "(?ys @ uri_escape x) @ (if xss' = [] \<or> i + 1 = 0 then [] else '' '') @ escaped xss'
        = ys @ (if xss = [] \<or> i = 0 then [] else '' '') @ escaped xss"
      using xss(1) by (simp add: escaped_def)
    then have "str_has w' d (ys @ (if xss = [] \<or> i = 0 then [] else '' '') @ escaped xss)" using w'(2) by simp
    moreover have "foreach_ent (Suc k) (hd_addr cs None) (serialize_body d b) i w = Ok i' w'"
      using Cons c foreach_ent_next [where body = "serialize_body d b", OF body h3(2), of k] w'(1) by simp
    moreover have "mod_lh {d, b} {} {} w w'" using mod_lh_trans [OF m3 w'(4)] by simp
    ultimately show ?thesis using w'(3,5) by blast
  qed
qed simp

lemma list_serialize_ok:
  assumes "list_at w l cs xss" "str_has w d ys" "d \<notin> snd ` set cs"
    "\<forall>xs\<in>set xss. NUL \<notin> set xs \<and> 3 * length xs < STRING_MAX" "length (escaped xss) + 1 < STRING_MAX"
    "length xss < 2 ^ 64" "mem_ok w" "wf_lh w"
  shows "\<exists>w'. list_serialize d l w = Ok () w' \<and> mod_lh {d} {} {} w w' \<and> str_has w' d (escaped xss) \<and> wf_lh w' \<and> mem_ok w'"
proof -
  let ?a = "brk w"
  have c: "list_cells w l cs" "vals w cs xss" using assms(1) by (auto simp: list_at_def)
  obtain w1 where w1: "str_new None w = Ok ?a w1" "mod_lh {?a} {} {} w w1" "str_has w1 ?a []" "?a < brk w1" "wf_lh w1" "mem_ok w1"
    using str_new_lh [OF assms(7,8)] .
  have lt: "snd ` set cs \<subseteq> {..<?a}" "d < ?a" using vals_lt [OF c(2)] str_has_lt [of w d ys] assms(2,8) by auto
  have d1: "str_has w1 d ys" using mod_lh_has [OF w1(2), of d ys] assms(2) lt(2) by simp
  obtain w2 where w2: "str_truncate d w1 = Ok () w2" "str_upd w1 d [] w2" using str_truncate_ok [OF d1] by blast
  note u2 = str_upd_lh [OF w2(2) d1 w1(5)]
  have a2: "str_has w2 ?a []" using mod_lh_has [OF u2(1), of ?a "[]"] w1(3) lt(2) by simp
  have m2: "mod_lh {?a, d} {} {} w w2" using mod_lh_trans [OF w1(2) u2(1)] by (simp add: insert_commute)
  have l2: "list_at w2 l cs xss" by (rule list_at_frame [OF assms(1) m2]) (use lt assms(3) in auto)
  then have c2: "list_cells w2 l cs" "vals w2 cs xss" by (auto simp: list_at_def)
  have k: "length cs < Suc (brk w2)" "0 + length cs < 2 ^ 64"
    using list_cells_lt(3) [OF c2(1) u2(2)] vals_length [OF c(2)] assms(6) by simp_all
  have side: "{d, ?a} \<inter> snd ` set cs = {}" "d \<noteq> ?a" "xss \<noteq> [] \<longrightarrow> length [] + 1 + length (escaped xss) < STRING_MAX" "mem_ok w2"
    using lt assms(3,5) w1(6) u2(4) by auto
  have "dseg (ents w2) None cs None" using c2(1) by (simp add: list_cells_def)
  from serialize_loop_ok [OF this c2(2) k(1) u2(3) a2 side(2,1) assms(4) side(3) k(2) side(4) u2(2)]
  obtain w3 i' bs where w3: "foreach_ent (Suc (brk w2)) (hd_addr cs None) (serialize_body d ?a) 0 w2 = Ok i' w3"
      "str_has w3 d (escaped xss)" "str_has w3 ?a bs" "mod_lh {d, ?a} {} {} w2 w3" "wf_lh w3"
    by auto
  let ?w = "w3\<lparr>strs := (strs w3)(?a := None)\<rparr>"
  have "list_serialize d l w = Ok () ?w"
    unfolding list_serialize_def
    by (rule with_auto_str_run [OF w1(1) _ w3(3)])
      (use w2(1) w3(1) for_each_eval [OF c2(1), of "serialize_body d ?a" 0] in \<open>simp add: nc_bind_def nc_return_def\<close>)
  moreover have "mod_lh {d} {} {} w ?w"
  proof -
    have fr: "strs w ?a = None" using assms(8) by (intro wf_strs_fresh) simp_all
    have "mod_lh {?a, d} {} {} w ?w"
      by (rule mod_lh_mono [OF mod_lh_trans [OF m2 mod_lh_trans [OF w3(4) free_lh [of ?a]]]]) auto
    then show ?thesis using fr by (auto simp: mod_lh_def)
  qed
  moreover have "str_has ?w d (escaped xss)" using w3(2) lt(2) by (simp add: str_has_def)
  moreover have "mem_ok ?w" using side(4) mod_lh_mem_ok [OF w3(4)] by (simp add: mem_ok_def)
  ultimately show ?thesis using free_wf [OF w3(5)] by blast
qed

section \<open>Deserialisation\<close>

text \<open>
  \<^verbatim>\<open>str_unescape\<close> leaves its destination alone when the source is empty, so an empty element is
  replaced by the element before it.
\<close>

fun carry :: "string \<Rightarrow> string list \<Rightarrow> string list" where
  "carry prev [] = []"
| "carry prev (x # xss) = (let y = (if x = [] then prev else x) in y # carry y xss)"

lemma carry_nonempty: "[] \<notin> set xss \<Longrightarrow> carry prev xss = xss"
  by (induction xss arbitrary: prev) auto

lemma length_carry [simp]: "length (carry prev xss) = length xss"
  by (induction xss arbitrary: prev) (auto simp: Let_def)

lemma str_unescape_any:
  assumes "str_has w d ys" "str_has w s (uri_escape xs)" "d \<noteq> s" "NUL \<notin> set xs" "length xs < STRING_MAX" "mem_ok w" "wf_lh w"
  shows "\<exists>w'. str_unescape d s w = Ok () w' \<and> str_upd w d (if xs = [] then ys else xs) w'"
proof (cases "xs = []")
  case True
  let ?a = "brk w"
  obtain w1 where w1: "str_new None w = Ok ?a w1" "mod_lh {?a} {} {} w w1" "str_has w1 ?a []" "wf_lh w1"
    using str_new_lh [OF assms(6,7)] by blast
  have sl: "s < ?a" "d < ?a" using str_has_lt [of w s "uri_escape xs"] str_has_lt [of w d ys] assms(1,2,7) by simp_all
  have s1: "str_has w1 s []" using mod_lh_has [OF w1(2), of s "[]"] assms(2) sl(1) True by simp
  let ?w = "w1\<lparr>strs := (strs w1)(?a := None)\<rparr>"
  have "s_len (the (strs w1 s)) = 0" "get_str s w1 = Ok (the (strs w1 s)) w1"
    using s1 by (auto elim!: str_hasE simp: get_str_def)
  then have "str_unescape d s w = Ok () ?w"
    unfolding str_unescape_def by (intro with_auto_str_run [OF w1(1) _ w1(3)]) (simp add: nc_bind_def nc_return_def)
  moreover have "strs ?w = strs w"
    using w1(2) wf_strs_fresh [of w ?a] assms(7) by (auto simp: mod_lh_def fun_eq_iff)
  then have "mod_strs {d} w ?w" "str_has ?w d ys"
    using w1(1,2) assms(1) str_new_ok [OF assms(6)] str_upd_frame by (auto simp: mod_strs_def str_has_def)
  ultimately show ?thesis using True by (auto simp: str_upd_iff)
next
  case False
  with str_unescape_ok [OF assms(1-4) False assms(5,6)] assms(7) show ?thesis by simp
qed

lemma deserialize_loop_ok:
  assumes "list_at w d ds yss" "dseg (ents w) q cs None" "vals w cs (map uri_escape xss)" "length cs < k"
    "fst ` set cs \<inter> fst ` set ds = {}" "snd ` set cs \<subseteq> {..<brk w}" "fst ` set cs \<subseteq> {..<brk w}"
    "str_has w b bs" "b \<notin> snd ` set cs" "b \<notin> snd ` set ds"
    "length ds + length cs < 2 ^ 64" "mem_ok w" "wf_lh w" "\<forall>xs\<in>set xss. NUL \<notin> set xs \<and> length xs < STRING_MAX"
  shows "\<exists>w' es bs'. foreach_ent k (hd_addr cs None) (deserialize_body d b) () w = Ok () w' \<and>
    list_at w' d (ds @ es) (yss @ carry bs xss) \<and> str_has w' b bs' \<and>
    mod_lh (insert b {brk w..}) ({brk w..} \<union> fst ` set ds) {d} w w' \<and> wf_lh w' \<and> set es \<subseteq> {brk w..} \<times> {brk w..}"
  using assms
proof (induction k arbitrary: w q cs xss ds yss bs)
  case (Suc k)
  show ?case
  proof (cases cs)
    case Nil
    then have "foreach_ent (Suc k) (hd_addr cs None) (deserialize_body d b) () w = Ok () w" "xss = []"
      using Suc.prems(3) by (simp_all add: foreach_ent_None)
    with Suc.prems show ?thesis by (intro exI [of _ w] exI [of _ "[]"] exI [of _ bs]) simp
  next
    case (Cons c cs')
    obtain a s where c: "c = (a, s)" by (cases c)
    obtain x xss' where xss: "xss = x # xss'" "str_has w s (uri_escape x)" "vals w cs' (map uri_escape xss')"
      using Suc.prems(3) Cons c by (auto simp: vals_Cons)
    have e: "ents w a = Some \<lparr>e_value = Some s, e_next = hd_addr cs' None, e_prev = q\<rparr>" "dseg (ents w) (Some a) cs' None"
      using Suc.prems(2) Cons c by simp_all
    have x: "NUL \<notin> set x" "length x < STRING_MAX" "b \<noteq> s" using Suc.prems(9,14) xss(1) Cons c by auto
    let ?y = "if x = [] then bs else x"
    obtain w1 where w1: "str_unescape b s w = Ok () w1" "str_upd w b ?y w1"
      using str_unescape_any [OF Suc.prems(8) xss(2) x(3,1,2) Suc.prems(12,13)] by blast
    note u1 = str_upd_lh [OF w1(2) Suc.prems(8,13)]
    have l1: "list_at w1 d ds yss" by (rule list_at_frame [OF Suc.prems(1) u1(1)]) (use Suc.prems(10) in auto)
    have len: "length ds + 1 < 2 ^ 64" "mem_ok w1" using Suc.prems(11,12) Cons u1(4) by simp_all
    obtain w2 t u where w2: "list_push d b w1 = Ok () w2" "list_at w2 d (ds @ [(t, u)]) (yss @ [?y])"
        "mod_lh {u} (insert t (fst ` set ds)) {d} w1 w2" "brk w1 \<le> t" "brk w1 \<le> u" "t < brk w2" "u < brk w2"
      using list_push_ok [OF l1 str_has_src [OF u1(3)] len u1(2)] by blast
    have wf2: "wf_lh w2" using list_push_wf [OF w2(3) _ u1(2) w2(6,7)] l1 by (simp add: list_at_def)
    have br: "brk w \<le> brk w1" "brk w1 \<le> brk w2" using mod_lh_brk [OF u1(1)] mod_lh_brk [OF w2(3)] by simp_all
    have bl: "b < brk w" using str_has_lt [of w b bs] Suc.prems(8,13) by simp
    have sub: "fst ` set cs' \<subseteq> {..<brk w1}" "snd ` set cs' \<subseteq> {..<brk w1}" "fst ` set cs' \<inter> fst ` set ds = {}" "a \<notin> fst ` set ds" "a < brk w"
        "b \<notin> snd ` set cs'"
      using Suc.prems(5-7,9) Cons c br by auto
    note fr = push_frame [OF w2(3-5) sub(3,2,1)]
    have d2: "dseg (ents w2) (Some a) cs' None" using e(2) fr(1) str_upd_ents [OF w1(2)] by simp
    have "vals w1 cs' (map uri_escape xss') = vals w cs' (map uri_escape xss')"
      by (rule vals_frame) (use sub(6) mod_lh_strs [OF u1(1)] in force)
    then have v2: "vals w2 cs' (map uri_escape xss')" using xss(3) fr(2) by simp
    have b2: "str_has w2 b ?y" "mem_ok w2" using mod_lh_has [OF w2(3), of b ?y] u1(3) bl br w2(5) len(2) mod_lh_mem_ok [OF w2(3)] by auto
    have e2: "ents w2 a = Some \<lparr>e_value = Some s, e_next = hd_addr cs' None, e_prev = q\<rparr>"
      using e(1) str_upd_ents [OF w1(2)] mod_lh_ents [OF w2(3), of a] sub(4,5) w2(4) br by auto
    have body: "deserialize_body d b a () w = Ok ((), True) w2"
      using e(1) w1(1) w2(1) by (simp add: deserialize_body_def list_run)
    have "\<exists>w' es bs'. foreach_ent k (hd_addr cs' None) (deserialize_body d b) () w2 = Ok () w' \<and>
        list_at w' d ((ds @ [(t, u)]) @ es) ((yss @ [?y]) @ carry ?y xss') \<and> str_has w' b bs' \<and>
        mod_lh (insert b {brk w2..}) ({brk w2..} \<union> fst ` set (ds @ [(t, u)])) {d} w2 w' \<and> wf_lh w' \<and> set es \<subseteq> {brk w2..} \<times> {brk w2..}"
    proof (rule Suc.IH [OF w2(2) d2 v2])
      show "length cs' < k" "length (ds @ [(t, u)]) + length cs' < 2 ^ 64" using Suc.prems(4,11) Cons by simp_all
      show "fst ` set cs' \<inter> fst ` set (ds @ [(t, u)]) = {}" using sub w2(4) by auto
      show "snd ` set cs' \<subseteq> {..<brk w2}" "fst ` set cs' \<subseteq> {..<brk w2}" using sub br by auto
      show "b \<notin> snd ` set (ds @ [(t, u)])" using Suc.prems(10) bl br w2(5) by auto
      show "\<forall>xs\<in>set xss'. NUL \<notin> set xs \<and> length xs < STRING_MAX" using Suc.prems(14) xss(1) by simp
    qed (use b2 wf2 sub in auto)
    then obtain w' es bs' where w': "foreach_ent k (hd_addr cs' None) (deserialize_body d b) () w2 = Ok () w'"
        "list_at w' d (ds @ (t, u) # es) (yss @ carry bs xss)" "str_has w' b bs'"
        "mod_lh (insert b {brk w2..}) ({brk w2..} \<union> fst ` set (ds @ [(t, u)])) {d} w2 w'" "wf_lh w'" "set es \<subseteq> {brk w2..} \<times> {brk w2..}"
      using xss(1) by (auto simp: Let_def)
    have "mod_lh (insert b {brk w..}) ({brk w..} \<union> fst ` set ds) {d} w w'"
      by (rule mod_lh_mono [OF mod_lh_trans [OF u1(1) mod_lh_trans [OF w2(3) w'(4)]]]) (use br w2(4,5) in auto)
    moreover have "foreach_ent (Suc k) (hd_addr cs None) (deserialize_body d b) () w = Ok () w'"
      using Cons c foreach_ent_next [where body = "deserialize_body d b", OF body e2, of k] w'(1) by simp
    moreover have "set ((t, u) # es) \<subseteq> {brk w..} \<times> {brk w..}" using w'(6) br w2(4,5) by auto
    ultimately show ?thesis using w'(2,3,5) by blast
  qed
qed simp

lemma list_deserialize_ok:
  assumes "str_has w src (escaped xss)" "src \<notin> snd ` set ds" "list_at w d ds yss" "escaped xss \<noteq> []"
    "\<forall>xs\<in>set xss. NUL \<notin> set xs \<and> length xs < STRING_MAX" "length (escaped xss) < STRING_MAX" "length xss < 2 ^ 64"
    "mem_ok w" "wf_lh w"
  shows "\<exists>w' es. list_deserialize d src w = Ok () w' \<and> list_at w' d es (carry [] xss) \<and>
    mod_lh (snd ` set ds \<union> {brk w..}) (fst ` set ds \<union> {brk w..}) (insert d {brk w..}) w w' \<and> wf_lh w' \<and> set es \<subseteq> {brk w..} \<times> {brk w..}"
proof -
  let ?t = "brk w" and ?w1 = "w\<lparr>lists := (lists w)(brk w \<mapsto> empty_list), brk := Suc (brk w)\<rparr>"
  have n1: "list_new None w = Ok ?t ?w1" by (rule list_new_ok [OF assms(8)])
  have m1: "mod_lh {} {} {?t} w ?w1" by (simp add: mod_lh_def)
  have wf1: "wf_lh ?w1" "mem_ok ?w1" using assms(8,9) by (auto simp: wf_lh_def wf_strs_def less_Suc_eq mem_ok_def)
  have dl: "d < ?t" "snd ` set ds \<subseteq> {..<?t}" "src < ?t"
    using list_cells_lt(1) [of w d ds] vals_lt [of w ds yss] str_has_lt [of w src "escaped xss"] assms(1,3,9) by (auto simp: list_at_def)
  let ?b = "brk ?w1"
  obtain w2 where w2: "str_new None ?w1 = Ok ?b w2" "mod_lh {?b} {} {} ?w1 w2" "str_has w2 ?b []" "?b < brk w2" "wf_lh w2" "mem_ok w2"
    using str_new_lh [OF wf1(2,1)] .
  have m2: "mod_lh {?b} {} {?t} w w2" using mod_lh_trans [OF m1 w2(2)] by simp
  have l2: "list_at w2 d ds yss" by (rule list_at_frame [OF assms(3) m2]) (use dl in auto)
  have t2: "list_at w2 ?t [] []"
    by (rule list_at_frame [OF _ w2(2)]) (simp_all add: list_at_def list_cells_def header_Nil)
  let ?w3 = "cleared d ds w2"
  have tr: "list_truncate d w2 = Ok () ?w3" using l2 w2(5) by (rule list_truncate_ok)
  have m3: "mod_lh (snd ` set ds) (fst ` set ds) {d} w2 ?w3" by (rule cleared_mod)
  have wf3: "wf_lh ?w3" "mem_ok ?w3" using cleared_wf [OF w2(5), of d ds] dl w2(4,6) mod_lh_mem_ok [OF m3] by auto
  have t3: "list_at ?w3 ?t [] []" by (rule list_at_frame [OF t2 m3]) (use dl in auto)
  have bd: "?b \<notin> snd ` set ds" using dl(2) by force
  have h3: "str_has ?w3 src (escaped xss)" "str_has ?w3 ?b []"
    using mod_lh_has [OF m3, of src] mod_lh_has [OF m2, of src] mod_lh_has [OF m3, of ?b "[]"] assms(1,2) dl w2(3) bd by auto
  have ne: "xss \<noteq> []" using assms(4) by (auto simp: escaped_def)
  have sp: "int_char 32 = CHR '' ''" by code_simp
  have toks: "map (token_post 32) (split_on (int_char 32) (chomp (escaped xss))) = map uri_escape xss"
    using ne by (simp add: sp chomp_escaped split_escaped token_post_def)
  have nul: "NUL \<notin> set (escaped xss)" using escaped_no_NUL assms(5) by blast
  have "int_char 32 \<noteq> NUL" by (simp add: sp)
  from str_split_ok [OF h3(1) nul assms(4,6) this t3 _ wf3(2,1)]
  obtain w4 ts where w4: "str_split ?t src 32 ?w3 = Ok () w4" "list_at w4 ?t ts (map uri_escape xss)"
      "mod_lh {brk ?w3..} {brk ?w3..} {?t} ?w3 w4" "wf_lh w4" "set ts \<subseteq> {brk ?w3..} \<times> {brk ?w3..}"
    unfolding toks by auto
  have b3: "?b < brk ?w3" "?t < brk ?w3" using w2(4) by auto
  have ts: "fst ` set ts \<subseteq> {brk ?w3..}" "snd ` set ts \<subseteq> {brk ?w3..}" using w4(5) by auto
  have c4: "list_cells w4 ?t ts" "vals w4 ts (map uri_escape xss)" using w4(2) by (auto simp: list_at_def)
  have lt4: "fst ` set ts \<subseteq> {..<brk w4}" "snd ` set ts \<subseteq> {..<brk w4}" "length ts < Suc (brk w4)"
    using list_cells_lt(2,3) [OF c4(1) w4(4)] vals_lt [OF c4(2)] w4(4) by auto
  have d4: "list_at w4 d [] []" by (rule list_at_frame [OF cleared_empty w4(3)]) (use dl in auto)
  have h4: "str_has w4 ?b []" "mem_ok w4" using mod_lh_has [OF w4(3), of ?b "[]"] h3(2) b3 wf3(2) mod_lh_mem_ok [OF w4(3)] by auto
  have bt: "?b \<notin> snd ` set ts" using ts(2) b3(1) by auto
  have ll: "length ([] :: (nat \<times> nat) list) + length ts < 2 ^ 64" using vals_length [OF c4(2)] assms(7) by simp
  have ds4: "dseg (ents w4) None ts None" using c4(1) by (simp add: list_cells_def)
  obtain w5 es bs where w5: "foreach_ent (Suc (brk w4)) (hd_addr ts None) (deserialize_body d ?b) () w4 = Ok () w5"
      "list_at w5 d es (carry [] xss)" "str_has w5 ?b bs" "mod_lh (insert ?b {brk w4..}) {brk w4..} {d} w4 w5" "wf_lh w5"
      "set es \<subseteq> {brk w4..} \<times> {brk w4..}"
    using deserialize_loop_ok [OF d4 ds4 c4(2) lt4(3) _ lt4(2,1) h4(1) bt _ ll h4(2) w4(4) assms(5)] by auto
  have t5: "list_at w5 ?t ts (map uri_escape xss)"
    by (rule list_at_frame [OF w4(2) w5(4)]) (use lt4 bt dl in auto)
  let ?w6 = "w5\<lparr>strs := strs w5 |` (- snd ` set ts), ents := ents w5 |` (- fst ` set ts), lists := (lists w5)(?t := None)\<rparr>"
  have de: "list_destroy (Some ?t) w5 = Ok () ?w6" using t5 w5(5) by (rule list_destroy_ok)
  have b6: "str_has ?w6 ?b bs" using w5(3) bt by (simp add: str_has_def)
  let ?w7 = "?w6\<lparr>strs := (strs ?w6)(?b := None)\<rparr>"
  have "for_each ?t (deserialize_body d ?b) () w4 = Ok () w5" using for_each_eval [OF c4(1), of "deserialize_body d ?b" "()"] w5(1) by simp
  then have "list_deserialize d src w = Ok () ?w7"
    using n1 w2(1) tr w4(1) de str_destroy_ok [OF b6] by (simp add: list_deserialize_def nc_bind_def)
  moreover have "list_at ?w7 d es (carry [] xss)"
  proof (rule list_at_frame [OF w5(2), of "insert ?b (snd ` set ts)" "fst ` set ts" "{?t}"])
    show "mod_lh (insert ?b (snd ` set ts)) (fst ` set ts) {?t} w5 ?w7" by (auto simp: mod_lh_def)
    have "fst ` set es \<subseteq> {brk w4..}" "snd ` set es \<subseteq> {brk w4..}" using w5(6) by auto
    moreover have "?b < brk w4" using b3 mod_lh_brk [OF w4(3)] by simp
    ultimately show "fst ` set es \<inter> fst ` set ts = {}" "snd ` set es \<inter> insert ?b (snd ` set ts) = {}"
      using lt4 by fastforce+
  qed (use dl in simp)
  moreover have "mod_lh (snd ` set ds \<union> {?t..}) (fst ` set ds \<union> {?t..}) (insert d {?t..}) w ?w7"
  proof -
    have b: "?t \<le> brk ?w3" "?t \<le> brk w4" using b3 mod_lh_brk [OF w4(3)] by simp_all
    have "mod_lh ({?b} \<union> snd ` set ds) (fst ` set ds) {?t, d} w ?w3" using mod_lh_trans [OF m2 m3] by (simp add: insert_commute)
    moreover have "mod_lh ({brk ?w3..} \<union> insert ?b {brk w4..}) ({brk ?w3..} \<union> {brk w4..}) ({?t} \<union> {d}) ?w3 w5"
      by (rule mod_lh_trans [OF w4(3) w5(4)])
    moreover have "mod_lh (insert ?b (snd ` set ts)) (fst ` set ts) {?t} w5 ?w7" by (auto simp: mod_lh_def)
    ultimately show ?thesis
      by (rule mod_lh_mono [OF mod_lh_trans [OF _ mod_lh_trans]]) (use ts b in auto)
  qed
  moreover have "wf_lh ?w7" using w5(5) by (auto simp: wf_lh_def wf_strs_def restrict_map_def)
  moreover have "set es \<subseteq> {?t..} \<times> {?t..}" using w5(6) b3(2) mod_lh_brk [OF w4(3)] by force
  ultimately show ?thesis by blast
qed

section \<open>Joining\<close>

definition join_body :: "nat \<Rightarrow> nat \<Rightarrow> int \<Rightarrow> nat \<Rightarrow> nat \<Rightarrow> (nat \<times> bool, 'z) lnc" where
  "join_body dest src delimiter cur i =
     nc_bind (get_ent cur) (\<lambda>e. nc_bind (deref (e_value e)) (\<lambda>v.
     nc_bind (str_append dest v) (\<lambda>_.
     nc_bind (get_list src) (\<lambda>h.
     nc_bind (nc_when (sz (i + 1) < l_count h) (str_putc dest delimiter)) (\<lambda>_.
     nc_return (sz (i + 1), True))))))"

lemma join_loop_ok:
  assumes "dseg (ents w) q cs None" "vals w cs xss" "length cs < k" "str_has w d ys" "d \<notin> snd ` set cs"
    "lists w l = Some h" "l_count h = i + length cs" "i + length cs < 2 ^ 64" "\<forall>xs\<in>set xss. NUL \<notin> set xs" "int_char c \<noteq> NUL"
    "length ys + length (join (int_char c) xss) < STRING_MAX" "mem_ok w" "wf_lh w"
  shows "\<exists>w' i'. foreach_ent k (hd_addr cs None) (join_body d l c) i w = Ok i' w' \<and> str_upd w d (ys @ join (int_char c) xss) w'"
  using assms
proof (induction k arbitrary: w q cs xss ys i)
  case (Suc k)
  show ?case
  proof (cases cs)
    case Nil
    then have "xss = []" using Suc.prems(2) by simp
    then show ?thesis using Nil str_upd_refl [OF Suc.prems(4)] by (auto simp: foreach_ent_None)
  next
    case (Cons p cs')
    obtain a s where p: "p = (a, s)" by (cases p)
    obtain x xss' where xss: "xss = x # xss'" "str_has w s x" "vals w cs' xss'"
      using Suc.prems(2) Cons p by (auto simp: vals_Cons)
    have e: "ents w a = Some \<lparr>e_value = Some s, e_next = hd_addr cs' None, e_prev = q\<rparr>" "dseg (ents w) (Some a) cs' None"
      using Suc.prems(1) Cons p by simp_all
    have ne: "d \<noteq> s" "d \<notin> snd ` set cs'" "NUL \<notin> set x" using Suc.prems(5,9) Cons p xss(1) by auto
    have len: "length ys + length x < STRING_MAX" using Suc.prems(11) xss(1) by simp
    obtain w1 where w1: "str_append d s w = Ok () w1" "str_upd w d (ys @ x) w1"
      using str_append_ok [OF Suc.prems(4) xss(2) ne(1,3) len Suc.prems(12)] by blast
    have last: "(sz (i + 1) < l_count h) = (xss' \<noteq> [])" "sz (i + 1) = i + 1"
      using Suc.prems(7,8) Cons vals_length [OF xss(3)] by (auto simp: sz_def)
    let ?z = "if xss' = [] then [] else [int_char c]"
    obtain w2 where w2: "nc_when (sz (i + 1) < l_count h) (str_putc d c) w1 = Ok () w2" "str_upd w1 d ((ys @ x) @ ?z) w2"
    proof (cases "xss' = []")
      case True
      then show ?thesis using that [of w1] str_upd_refl [OF str_upd_has [OF w1(2)]] last(1) by (simp add: nc_simps)
    next
      case False
      then have "length (ys @ x) + 1 < STRING_MAX" using Suc.prems(11) xss(1) by simp
      from str_putc_ok [OF str_upd_has [OF w1(2)] Suc.prems(10) this] Suc.prems(12) str_upd_mem_ok [OF w1(2)] False last(1) that
      show ?thesis by (auto simp: nc_when_def)
    qed
    have u2: "str_upd w d ((ys @ x) @ ?z) w2" by (rule str_upd_trans [OF w1(2) w2(2)])
    note lh = str_upd_lh [OF u2 Suc.prems(4,13)]
    have same: "ents w2 = ents w" "lists w2 = lists w" "lists w1 = lists w"
      using str_upd_ents [OF u2] str_upd_lists [OF u2] str_upd_lists [OF w1(2)] .
    have "vals w2 cs' xss' = vals w cs' xss'" by (rule vals_frame) (use ne(2) mod_lh_strs [OF lh(1)] in force)
    then have v2: "vals w2 cs' xss'" using xss(3) by simp
    have side: "dseg (ents w2) (Some a) cs' None" "length cs' < k" "lists w2 l = Some h" "l_count h = (i + 1) + length cs'"
        "(i + 1) + length cs' < 2 ^ 64" "\<forall>xs\<in>set xss'. NUL \<notin> set xs"
        "length ((ys @ x) @ ?z) + length (join (int_char c) xss') < STRING_MAX" "mem_ok w2"
      using Suc.prems(3,6-9,11,12) Cons xss(1) same e(2) lh(4) by auto
    obtain w' i' where w': "foreach_ent k (hd_addr cs' None) (join_body d l c) (i + 1) w2 = Ok i' w'"
        "str_upd w2 d (((ys @ x) @ ?z) @ join (int_char c) xss') w'"
      using Suc.IH [OF side(1) v2 side(2) lh(3) ne(2) side(3-6) Suc.prems(10) side(7,8) lh(2)] by blast
    have body: "join_body d l c a i w = Ok (i + 1, True) w2"
      using e(1) w1(1) w2(1) Suc.prems(6) same(3) last(2) by (simp add: join_body_def list_run)
    have e2: "ents w2 a = Some \<lparr>e_value = Some s, e_next = hd_addr cs' None, e_prev = q\<rparr>" using e(1) same(1) by simp
    have "foreach_ent (Suc k) (hd_addr cs None) (join_body d l c) i w = Ok i' w'"
      using Cons p foreach_ent_next [where body = "join_body d l c", OF body e2, of k] w'(1) by simp
    moreover have "((ys @ x) @ ?z) @ join (int_char c) xss' = ys @ join (int_char c) xss" using xss(1) by simp
    then have "str_upd w d (ys @ join (int_char c) xss) w'" using str_upd_trans [OF u2 w'(2)] by simp
    ultimately show ?thesis by blast
  qed
qed simp

lemma str_join_ok:
  assumes "list_at w l cs xss" "str_has w d ys" "d \<notin> snd ` set cs" "\<forall>xs\<in>set xss. NUL \<notin> set xs" "int_char c \<noteq> NUL"
    "length (join (int_char c) xss) + 1 < STRING_MAX" "length xss < 2 ^ 64" "mem_ok w" "wf_lh w"
  shows "\<exists>w'. str_join d l c w = Ok () w' \<and> str_upd w d (join (int_char c) xss @ (if c = 10 then [LF] else [])) w'"
proof -
  obtain w1 where w1: "str_truncate d w = Ok () w1" "str_upd w d [] w1" using str_truncate_ok [OF assms(2)] by blast
  note u1 = str_upd_lh [OF w1(2) assms(2,9)]
  have l1: "list_at w1 l cs xss" by (rule list_at_frame [OF assms(1) u1(1)]) (use assms(3) in auto)
  then have c1: "list_cells w1 l cs" "vals w1 cs xss" by (auto simp: list_at_def)
  have side: "dseg (ents w1) None cs None" "lists w1 l = Some (header cs)" "l_count (header cs) = 0 + length cs" "0 + length cs < 2 ^ 64"
      "length cs < Suc (brk w1)" "length [] + length (join (int_char c) xss) < STRING_MAX" "mem_ok w1"
    using c1(1) list_cells_lt(3) [OF c1(1) u1(2)] vals_length [OF c1(2)] assms(6,7,8) u1(4) by (auto simp: list_cells_def)
  obtain w2 i where w2: "foreach_ent (Suc (brk w1)) (hd_addr cs None) (join_body d l c) 0 w1 = Ok i w2"
      "str_upd w1 d (join (int_char c) xss) w2"
    using join_loop_ok [OF side(1) c1(2) side(5) u1(3) assms(3) side(2-4) assms(4,5) side(6,7) u1(2)] by auto
  have "for_each l (join_body d l c) 0 w1 = Ok i w2" using for_each_eval [OF c1(1), of "join_body d l c" 0] w2(1) by simp
  then have run: "str_join d l c w = nc_when (c = 10) (str_putc d c) w2"
    using w1(1) by (simp add: str_join_def join_body_def [abs_def] nc_bind_def)
  have u: "str_upd w d (join (int_char c) xss) w2" by (rule str_upd_trans [OF w1(2) w2(2)])
  show ?thesis
  proof (cases "c = 10")
    case True
    have "int_char 10 = LF" by code_simp
    then show ?thesis
      using True run str_putc_ok [OF str_upd_has [OF u] assms(5,6)] str_upd_mem_ok [OF u] assms(8) str_upd_trans [OF u]
      by (auto simp: nc_when_def)
  qed (use run u in \<open>auto simp: nc_simps\<close>)
qed

end
