(* ===== verification/NC_Regex.thy ===== *)
theory NC_Regex
  imports NC_String_Text_Laws
begin

text \<open>
  The regular expression functions of src/string.c, and \<^verbatim>\<open>str_to_time\<close>, which uses them. The matcher
  itself is the C library's: a record of functions, on which every definition depends. Memory that
  regcomp(3) allocates for a pattern is not part of the model.
\<close>

section \<open>The matcher\<close>

text \<open>
  What regexec(3) answers: the positions of the match and of its groups (-1 for a group that took no
  part), no match, or an error code.
\<close>

datatype rx_result = RxMatch "(int \<times> int) list" | RxNoMatch | RxError int

record 'r regex_lib =
  rx_comp :: "string \<Rightarrow> bool \<Rightarrow> int + 'r"
  rx_nsub :: "'r \<Rightarrow> nat"
  rx_exec :: "'r \<Rightarrow> string \<Rightarrow> rx_result"

section \<open>Operations\<close>

definition regex_error :: "int \<Rightarrow> ('a, 'z) nc" where
  "regex_error regex_errno = nc_throw"

definition regex_compile :: "'r regex_lib \<Rightarrow> string \<Rightarrow> bool \<Rightarrow> ('r, 'z) nc" where
  "regex_compile rx pattern nosub =
     (case rx_comp rx pattern nosub of Inl i \<Rightarrow> regex_error i | Inr preg \<Rightarrow> nc_return preg)"

text \<open>
  The body says what \<^verbatim>\<open>regex_replace_all\<close> returns; a \<^verbatim>\<open>return\<close> passes through \<^verbatim>\<open>finally\<close>, so the automatic
  string is destroyed before the result is tested.
\<close>

definition regex_replace_all :: "'r regex_lib \<Rightarrow> 'r \<Rightarrow> nat \<Rightarrow> cptr \<Rightarrow> (unit, 'z) nc" where
  "regex_replace_all rx preg buf replacement =
     nc_bind (with_auto_str (\<lambda>result.
       nc_bind (cread (CVal buf 0)) (\<lambda>cs.
       case rx_exec rx preg cs of
         RxNoMatch \<Rightarrow> nc_return 0
       | RxError i \<Rightarrow> nc_return (-1)
       | RxMatch [] \<Rightarrow> nc_fault Uninit
       | RxMatch ((so, eo) # _) \<Rightarrow>
           nc_bind (str_ncpy result (CVal buf 0) (nat (so mod 2 ^ 64))) (\<lambda>_.
           nc_bind (str_cat result replacement) (\<lambda>_.
           nc_bind (str_cat result (CVal buf (nat (eo mod 2 ^ 64)))) (\<lambda>_.
           nc_bind (str_move buf result) (\<lambda>_. nc_return 0))))))) nc_rc"

definition str_match_regex :: "'r regex_lib \<Rightarrow> nat \<Rightarrow> string \<Rightarrow> (bool, 'z) nc" where
  "str_match_regex rx src pattern =
     nc_catch (regex_compile rx pattern True)
       (\<lambda>preg. nc_bind (cread (CVal src 0)) (\<lambda>cs.
          case rx_exec rx preg cs of
            RxNoMatch \<Rightarrow> nc_return False
          | RxError i \<Rightarrow> nc_throw
          | RxMatch _ \<Rightarrow> nc_return True))
       (\<lambda>_. nc_throw)"

definition str_subst_regex :: "'r regex_lib \<Rightarrow> nat \<Rightarrow> string \<Rightarrow> cptr \<Rightarrow> (unit, 'z) nc" where
  "str_subst_regex rx src pattern replacement =
     nc_catch (regex_compile rx pattern False)
       (\<lambda>preg. nc_bind (regex_replace_all rx preg src replacement) (\<lambda>_.
          nc_bind (cread (CVal src 0)) (\<lambda>cs. upd_str src (\<lambda>t. t\<lparr>s_len := length cs\<rparr>))))
       (\<lambda>_. nc_throw)"

text \<open>
  The loop over the groups \<open>i\<close>, \<open>i + 1\<close>, \dots. \<^verbatim>\<open>pmatch\<close> has 16 elements. The destinations are the variadic
  arguments; taking more than there are has no defined result.
\<close>

primrec str_str_regex_loop :: "nat \<Rightarrow> nat \<Rightarrow> nat \<Rightarrow> (int \<times> int) list \<Rightarrow> nat list \<Rightarrow> (unit, 'z) nc" where
  "str_str_regex_loop 0 i src pm dests = nc_return ()"
| "str_str_regex_loop (Suc n) i src pm dests =
     (case dests of [] \<Rightarrow> nc_fault Uninit
      | buf # dests' \<Rightarrow>
          if 16 \<le> i then nc_fault OutOfBounds
          else if length pm \<le> i then nc_fault Uninit
          else (case pm ! i of (so, eo) \<Rightarrow>
            nc_bind (str_ncpy buf (CVal src (nat so)) (nat ((eo - so) mod 2 ^ 64))) (\<lambda>_.
            str_str_regex_loop n (Suc i) src pm dests')))"

definition str_str_regex :: "'r regex_lib \<Rightarrow> nat \<Rightarrow> string \<Rightarrow> nat list \<Rightarrow> (unit, 'z) nc" where
  "str_str_regex rx src pattern dests =
     nc_catch (regex_compile rx pattern False)
       (\<lambda>preg. if 16 < rx_nsub rx preg then nc_throw
          else nc_bind (cread (CVal src 0)) (\<lambda>cs.
            case rx_exec rx preg cs of
              RxNoMatch \<Rightarrow> nc_throw
            | RxError i \<Rightarrow> regex_error i
            | RxMatch pm \<Rightarrow> str_str_regex_loop (rx_nsub rx preg) 1 src pm dests))
       (\<lambda>rc. regex_error rc)"

section \<open>Time\<close>

definition atoi :: "string \<Rightarrow> int" where
  "atoi cs = to_int32 (fst (strtol cs))"

definition TIME_PATTERN :: string where
  "TIME_PATTERN = ''^([0-9]{1,2} [A-Za-z]{3} [0-9]{4} [0-9]{2}:[0-9]{2}:[0-9]{2}) ([+-][0-9][0-9])([0-9][0-9])$''"

text \<open>
  \<^verbatim>\<open>strptime\<close> and \<^verbatim>\<open>mktime\<close> are the C library's. The time zone offset is computed into a local variable
  and not used.
\<close>

definition str_to_time :: "'r regex_lib \<Rightarrow> (string \<Rightarrow> string \<Rightarrow> 'tm option) \<Rightarrow> ('tm \<Rightarrow> int) \<Rightarrow> nat \<Rightarrow> (int, 'z) nc" where
  "str_to_time rx strptime mktime src =
     with_auto_str (\<lambda>buf. with_auto_str (\<lambda>offset_hours. with_auto_str (\<lambda>offset_mins.
       nc_catch (str_str_regex rx src TIME_PATTERN [buf, offset_hours, offset_mins])
         (\<lambda>_. nc_bind (cread (CVal buf 0)) (\<lambda>cs.
            case strptime cs ''%d %b %Y %T'' of None \<Rightarrow> nc_throw
            | Some tm \<Rightarrow> nc_bind (cread (CVal offset_hours 0)) (\<lambda>hs.
                nc_bind (cread (CVal offset_mins 0)) (\<lambda>ms.
                let offset = atoi hs * 60 * 60;
                    offset' = (if offset < 0 then offset - atoi ms * 60 else offset + atoi ms * 60)
                in nc_return (mktime tm)))))
         (\<lambda>rc. if rc < 0 then nc_throw else nc_fault Uninit))))"

section \<open>Laws\<close>

text \<open>A match inside the text.\<close>

definition rx_within :: "string \<Rightarrow> int \<times> int \<Rightarrow> bool" where
  "rx_within cs m \<longleftrightarrow> 0 \<le> fst m \<and> fst m \<le> snd m \<and> snd m \<le> int (length cs)"

lemma str_match_regex_ok:
  assumes "str_has w s xs" "NUL \<notin> set xs" "rx_comp rx pat True = Inr preg"
  shows "str_match_regex rx s pat w = (case rx_exec rx preg xs of
    RxMatch _ \<Rightarrow> Ok True w | RxNoMatch \<Rightarrow> Ok False w | RxError _ \<Rightarrow> Fail (-1) w)"
  using cread_str_has [OF assms(1,2)] assms(3)
  by (simp add: str_match_regex_def regex_compile_def nc_simps split: rx_result.split)

lemma nat_mod_id: "0 \<le> i \<Longrightarrow> i \<le> int n \<Longrightarrow> n < 2 ^ 64 \<Longrightarrow> nat (i mod 2 ^ 64) = nat i"
  by simp

lemma str_ncpy_part:
  assumes "str_has w d ys" "str_has w s xs" "d \<noteq> s" "i + n \<le> length xs" "length xs < STRING_MAX" "mem_ok w"
  shows "\<exists>w'. str_ncpy d (CVal s i) n w = Ok () w' \<and> str_upd w d (take n (drop i xs)) w'"
proof -
  obtain r where r: "cbytes (CVal s i) w = Ok (map Some (drop i xs) @ Some NUL # r) w"
    using cbytes_str_has [OF assms(2), of i] assms(4) by auto
  have "map Some (drop i xs) @ Some NUL # r = map Some (take n (drop i xs)) @ (map Some (drop n (drop i xs)) @ Some NUL # r)"
    by (metis append.assoc append_take_drop_id map_append)
  then have "cbytes (CVal s i) w = Ok (map Some (take n (drop i xs)) @ (map Some (drop n (drop i xs)) @ Some NUL # r)) w"
    using r by simp
  moreover have "length (take n (drop i xs)) = n" "n < STRING_MAX" using assms(4,5) by simp_all
  ultimately show ?thesis using str_ncpy_ok [OF assms(1), of "CVal s i" "take n (drop i xs)"] assms(3,6) by auto
qed

lemma regex_replace_all_ok:
  assumes "str_has w s xs" "NUL \<notin> set xs" "length xs < STRING_MAX" "mem_ok w" "wf_strs w" "NUL \<notin> set rep"
    "rx_exec rx preg xs = RxMatch ((so, eo) # ms)" "rx_within xs (so, eo)" "length xs + length rep < STRING_MAX"
  shows "\<exists>w'. regex_replace_all rx preg s (CLit rep) w = Ok () w' \<and> str_upd w s (take (nat so) xs @ rep @ drop (nat eo) xs) w'"
proof -
  let ?a = "brk w" and ?i = "nat so" and ?j = "nat eo"
  have ij: "?i \<le> ?j" "?j \<le> length xs" "nat (so mod 2 ^ 64) = ?i" "nat (eo mod 2 ^ 64) = ?j"
    using assms(3,8) nat_mod_id [of so "length xs"] nat_mod_id [of eo "length xs"] by (auto simp: rx_within_def STRING_MAX_def)
  obtain w1 where w1: "str_new None w = Ok ?a w1" "str_upd w ?a [] w1" using str_new_ok [OF assms(4)] by blast
  have ne: "?a \<noteq> s" using str_has_lt [OF assms(5,1)] by simp
  have h1: "str_has w1 s xs" "mem_ok w1" using assms(1,4) ne w1(2) by (simp_all add: str_upd_mem_ok)
  obtain w2 where w2: "str_ncpy ?a (CVal s 0) ?i w1 = Ok () w2" "str_upd w1 ?a (take ?i xs) w2"
    using str_ncpy_part [OF str_upd_has [OF w1(2)] h1(1) ne _ assms(3) h1(2), of 0 ?i] ij by auto
  have h2: "str_has w2 s xs" "mem_ok w2" using h1 ne w2(2) by (simp_all add: str_upd_mem_ok)
  have l2: "length (take ?i xs) + length rep < STRING_MAX" "cread (CLit rep) w2 = Ok rep w2" "\<not> points_into (CLit rep) ?a"
    using assms(6,9) ij by simp_all
  obtain w3 where w3: "str_cat ?a (CLit rep) w2 = Ok () w3" "str_upd w2 ?a (take ?i xs @ rep) w3"
    using str_cat_ok [OF str_upd_has [OF w2(2)] l2(2,3,1) h2(2)] by blast
  have h3: "str_has w3 s xs" "mem_ok w3" using h2 ne w3(2) by (simp_all add: str_upd_mem_ok)
  have l3: "cread (CVal s ?j) w3 = Ok (drop ?j xs) w3" "\<not> points_into (CVal s ?j) ?a"
    using cread_suffix [OF h3(1) ij(2) assms(2)] ne by simp_all
  have len3: "length (take ?i xs @ rep) + length (drop ?j xs) < STRING_MAX" 
  proof -
    have "length (take ?i xs @ rep) + length (drop ?j xs) = ?i + length rep + (length xs - ?j)" using ij(1,2) by simp
    then show ?thesis using ij(1,2) assms(9) by linarith
  qed
  let ?r = "(take ?i xs @ rep) @ drop ?j xs"
  obtain w4 where w4: "str_cat ?a (CVal s ?j) w3 = Ok () w4" "str_upd w3 ?a ?r w4"
    using str_cat_ok [OF str_upd_has [OF w3(2)] l3 len3 h3(2)] by blast
  have h4: "str_has w4 s xs" "mem_ok w4" using h3 ne w4(2) by (simp_all add: str_upd_mem_ok)
  obtain w5 where w5: "str_move s ?a w4 = Ok () w5" "mod_strs {s, ?a} w4 w5" "str_has w5 s ?r" "str_has w5 ?a []"
    using str_move_ok [OF str_upd_has [OF w4(2)] h4(1) ne [symmetric] h4(2)] by blast
  let ?w = "w5\<lparr>strs := (strs w5)(?a := None)\<rparr>"
  have r1: "cread (CVal s 0) w1 = Ok xs w1" using cread_str_has [OF h1(1) assms(2)] .
  have "regex_replace_all rx preg s (CLit rep) w = Ok () ?w"
    using w1(1) r1 assms(7) ij(3,4) w2(1) w3(1) w4(1) w5(1) str_destroy_ok [OF w5(4)]
    by (simp add: regex_replace_all_def with_auto_str_def nc_bind_def nc_return_def nc_rc_def)
  moreover have "mod_strs {s} w ?w"
  proof -
    have "mod_strs {?a} w w4"
      using mod_strs_trans [OF str_upd_mod [OF w1(2)] mod_strs_trans [OF str_upd_mod [OF w2(2)]
        mod_strs_trans [OF str_upd_mod [OF w3(2)] str_upd_mod [OF w4(2)]]]] by simp
    then have "mod_strs {s, ?a} w w5" using mod_strs_trans [OF _ w5(2), of "{?a}" w] by (simp add: insert_commute)
    then show ?thesis using wf_strs_fresh [OF assms(5), of ?a] by (auto simp: mod_strs_def)
  qed
  moreover have "str_has ?w s ?r" using w5(3) ne by (simp add: str_has_def)
  ultimately show ?thesis by (auto simp: str_upd_iff)
qed

lemma str_subst_regex_ok:
  assumes "str_has w s xs" "NUL \<notin> set xs" "length xs < STRING_MAX" "mem_ok w" "wf_strs w" "NUL \<notin> set rep"
    "rx_comp rx pat False = Inr preg" "rx_exec rx preg xs = RxMatch ((so, eo) # ms)" "rx_within xs (so, eo)" "length xs + length rep < STRING_MAX"
  shows "\<exists>w'. str_subst_regex rx s pat (CLit rep) w = Ok () w' \<and> str_upd w s (take (nat so) xs @ rep @ drop (nat eo) xs) w'"
proof -
  let ?r = "take (nat so) xs @ rep @ drop (nat eo) xs"
  obtain w' where w': "regex_replace_all rx preg s (CLit rep) w = Ok () w'" "str_upd w s ?r w'"
    using regex_replace_all_ok [OF assms(1-6,8-10)] by blast
  have nul: "NUL \<notin> set ?r" using assms(2,6) by (auto dest: in_set_takeD in_set_dropD)
  obtain b where b: "strs w' s = Some (str_of b (length ?r))" using str_upd_has [OF w'(2)] by (rule str_hasE)
  have "w'\<lparr>strs := (strs w')(s \<mapsto> str_of b (length ?r))\<rparr> = w'" using b by (simp add: fun_upd_idem)
  then have "upd_str s (\<lambda>t. t\<lparr>s_len := length ?r\<rparr>) w' = Ok () w'"
    using b by (simp add: upd_str_def nc_simps get_str_def put_str_def)
  then show ?thesis
    using w' cread_str_has [OF str_upd_has [OF w'(2)] nul] assms(7)
    by (auto simp: str_subst_regex_def regex_compile_def nc_simps)
qed

section \<open>Groups\<close>

definition rx_group :: "string \<Rightarrow> int \<times> int \<Rightarrow> string" where
  "rx_group xs m = take (nat (snd m - fst m)) (drop (nat (fst m)) xs)"

lemma group_copy:
  assumes "str_has w d ys" "str_has w s xs" "d \<noteq> s" "rx_within xs (so, eo)" "length xs < STRING_MAX" "mem_ok w"
  shows "\<exists>w'. str_ncpy d (CVal s (nat so)) (nat ((eo - so) mod 2 ^ 64)) w = Ok () w' \<and> str_upd w d (rx_group xs (so, eo)) w'"
proof -
  have b: "0 \<le> so" "so \<le> eo" "eo \<le> int (length xs)" using assms(4) by (simp_all add: rx_within_def)
  have "nat ((eo - so) mod 2 ^ 64) = nat (eo - so)"
    by (rule nat_mod_id [of _ "length xs"]) (use b assms(5) in \<open>auto simp: STRING_MAX_def\<close>)
  moreover have "nat so + nat (eo - so) \<le> length xs" using b by linarith
  ultimately show ?thesis using str_ncpy_part [OF assms(1-3) _ assms(5,6)] by (simp add: rx_group_def)
qed

lemma str_str_regex_loop_ok:
  assumes "str_has w src xs" "length xs < STRING_MAX" "mem_ok w" "length dests = n" "i + n \<le> 16" "i + n \<le> length pm"
    "distinct dests" "src \<notin> set dests" "\<forall>d\<in>set dests. \<exists>y. str_has w d y" "\<forall>j\<in>{i..<i + n}. rx_within xs (pm ! j)"
  shows "\<exists>w'. str_str_regex_loop n i src pm dests w = Ok () w' \<and> mod_strs (set dests) w w' \<and>
    list_all2 (\<lambda>d j. str_has w' d (rx_group xs (pm ! j))) dests [i..<i + n]"
  using assms
proof (induction n arbitrary: i dests w)
  case 0
  then show ?case by (simp add: nc_return_def)
next
  case (Suc n)
  obtain d ds where ds: "dests = d # ds" using Suc.prems(4) by (cases dests) auto
  obtain so eo where m: "pm ! i = (so, eo)" by (cases "pm ! i")
  have wi: "rx_within xs (so, eo)" using Suc.prems(10) m by (metis atLeastLessThan_iff le_refl less_add_Suc1 add_Suc_right le_imp_less_Suc le_add1)
  obtain y where y: "str_has w d y" "d \<noteq> src" using Suc.prems(8,9) ds by auto
  obtain w1 where w1: "str_ncpy d (CVal src (nat so)) (nat ((eo - so) mod 2 ^ 64)) w = Ok () w1" "str_upd w d (rx_group xs (so, eo)) w1"
    using group_copy [OF y(1) Suc.prems(1) y(2) wi Suc.prems(2,3)] by blast
  have h1: "str_has w1 src xs" "mem_ok w1" using Suc.prems(1,3) y(2) w1(2) by (simp_all add: str_upd_mem_ok)
  have r1: "\<forall>e\<in>set ds. \<exists>y. str_has w1 e y"
  proof
    fix e assume "e \<in> set ds"
    then have "e \<noteq> d" "\<exists>y. str_has w e y" using Suc.prems(7,9) ds by auto
    then show "\<exists>y. str_has w1 e y" using w1(2) by auto
  qed
  have side: "length ds = n" "Suc i + n \<le> 16" "Suc i + n \<le> length pm" "distinct ds" "src \<notin> set ds"
      "\<forall>j\<in>{Suc i..<Suc i + n}. rx_within xs (pm ! j)"
    using Suc.prems(4-8,10) ds by auto
  obtain w' where w': "str_str_regex_loop n (Suc i) src pm ds w1 = Ok () w'" "mod_strs (set ds) w1 w'"
      "list_all2 (\<lambda>d j. str_has w' d (rx_group xs (pm ! j))) ds [Suc i..<Suc i + n]"
    using Suc.IH [OF h1(1) Suc.prems(2) h1(2) side(1-5) r1 side(6)] by blast
  have "d \<notin> set ds" using Suc.prems(7) ds by simp
  then have "str_has w' d (rx_group xs (pm ! i))"
    using str_upd_has [OF w1(2)] w'(2) m by (simp add: mod_strs_def str_has_def)
  moreover have "[i..<i + Suc n] = i # [Suc i..<Suc i + n]" by (simp add: upt_conv_Cons)
  moreover have "mod_strs (set dests) w w'"
    using mod_strs_trans [OF str_upd_mod [OF w1(2)] w'(2)] ds by simp
  ultimately show ?case using w1(1) w'(1,3) ds m Suc.prems(5,6) by (simp add: nc_bind_def)
qed

text \<open>The array of match positions is one too short for a pattern with 16 groups.\<close>

lemma str_str_regex_loop_overrun:
  assumes "str_has w src xs" "length xs < STRING_MAX" "mem_ok w" "length dests = n" "i + n = 17" "0 < n" "length pm = 16"
    "distinct dests" "src \<notin> set dests" "\<forall>d\<in>set dests. \<exists>y. str_has w d y" "\<forall>m\<in>set pm. rx_within xs m"
  shows "str_str_regex_loop n i src pm dests w = Fault OutOfBounds"
proof -
  obtain n' where n: "n = Suc n'" using assms(6) by (cases n) auto
  obtain ds d where ds: "dests = ds @ [d]" using assms(4) n by (cases dests rule: rev_cases) auto
  have step: "str_str_regex_loop (length ds + 1) i src pm (ds @ [d]) w = Fault OutOfBounds"
    if "str_has w src xs" "mem_ok w" "i + length ds = 16" "distinct ds" "src \<notin> set ds" "\<forall>d\<in>set ds. \<exists>y. str_has w d y" for i ds w
    using that
  proof (induction ds arbitrary: i w)
    case Nil
    then show ?case by (simp add: nc_fault_def)
  next
    case (Cons e ds)
    obtain so eo where m: "pm ! i = (so, eo)" by (cases "pm ! i")
    have i: "i < 16" using Cons.prems(3) by simp
    then have wi: "rx_within xs (so, eo)" using assms(7,11) m by (metis nth_mem)
    obtain y where y: "str_has w e y" "e \<noteq> src" using Cons.prems(5,6) by auto
    obtain w1 where w1: "str_ncpy e (CVal src (nat so)) (nat ((eo - so) mod 2 ^ 64)) w = Ok () w1" "str_upd w e (rx_group xs (so, eo)) w1"
      using group_copy [OF y(1) Cons.prems(1) y(2) wi assms(2) Cons.prems(2)] by blast
    have h1: "str_has w1 src xs" "mem_ok w1" using Cons.prems(1,2) y(2) w1(2) by (simp_all add: str_upd_mem_ok)
    have "\<exists>y. str_has w1 f y" if "f \<in> set ds" for f
    proof -
      have "f \<noteq> e" "\<exists>y. str_has w f y" using that Cons.prems(4,6) by auto
      then show ?thesis using w1(2) by auto
    qed
    then have "str_str_regex_loop (length ds + 1) (Suc i) src pm (ds @ [d]) w1 = Fault OutOfBounds"
      using Cons.IH [OF h1, of "Suc i"] Cons.prems(3-5) by simp
    then show ?case using w1(1) m i assms(7) by (simp add: nc_bind_def)
  qed
  have "length ds + 1 = n" using assms(4) ds by simp
  with step [OF assms(1,3), of i ds] assms(4,5,8-10) ds show ?thesis by auto
qed

lemma str_str_regex_eval:
  assumes "str_has w src xs" "NUL \<notin> set xs" "rx_comp rx pat False = Inr preg" "rx_nsub rx preg \<le> 16" "rx_exec rx preg xs = RxMatch pm"
  shows "str_str_regex rx src pat dests w = str_str_regex_loop (rx_nsub rx preg) 1 src pm dests w"
  using cread_str_has [OF assms(1,2)] assms(3-5) by (simp add: str_str_regex_def regex_compile_def nc_simps)

end
