(* ===== verification/NC_Hash_Text.thy ===== *)
theory NC_Hash_Text
  imports NC_Hash_Whole NC_List_Text_Laws NC_Regex
begin

text \<open>
  Serialising and printing hash tables (src/hash.c). The operations use the regular expression
  functions, so they take the matcher as an argument.
\<close>

section \<open>Printing\<close>

text \<open>\<^verbatim>\<open>for (i = a; i < a + n; i++) body\<close> with an accumulator\<close>

primrec for_fold :: "nat \<Rightarrow> nat \<Rightarrow> (nat \<Rightarrow> 's \<Rightarrow> ('s, 'z) hnc) \<Rightarrow> 's \<Rightarrow> ('s, 'z) hnc" where
  "for_fold a 0 body s = nc_return s"
| "for_fold a (Suc n) body s = nc_bind (body a s) (\<lambda>s'. for_fold (Suc a) n body s')"

text \<open>
  \<^verbatim>\<open>hash_print\<close>: the lines that go to the log after the first one (which shows the address of the
  table).
\<close>

definition hash_print :: "nat \<Rightarrow> (string list, 'z) hnc" where
  "hash_print hash =
     nc_bind (list_new None) (\<lambda>keys.
     nc_bind (str_new None) (\<lambda>key.
     nc_bind (str_new None) (\<lambda>item.
     nc_bind (hash_get_keys keys hash) (\<lambda>_.
     nc_bind (get_list keys) (\<lambda>l.
     nc_bind (for_fold 0 (l_count l) (\<lambda>i out.
       nc_bind (list_get key keys i) (\<lambda>_.
       nc_bind (hash_get item hash (CVal key 0)) (\<lambda>_.
       nc_bind (cread (CVal key 0)) (\<lambda>k. nc_bind (cread (CVal item 0)) (\<lambda>v.
       nc_return (out @ [''   ['' @ k @ ''] -> `'' @ v @ [CHR 0x27]])))))) []) (\<lambda>out.
     nc_bind (list_destroy (Some keys)) (\<lambda>_.
     nc_bind (str_destroy (Some key)) (\<lambda>_.
     nc_bind (str_destroy (Some item)) (\<lambda>_.
     nc_return (out @ [''done; hash contains '' @ dec_nat (l_count l) @ '' elements'']))))))))))"

section \<open>Serialising\<close>

text \<open>
  The loop over one bucket. The variable \<^verbatim>\<open>ptr\<close> points to the key and then to the value of the pair that
  is written; its last value is returned, since the compiler destroys on exit what it points to.
\<close>

primrec hash_serialize_loop ::
    "'r regex_lib \<Rightarrow> nat \<Rightarrow> nat option \<Rightarrow> nat \<Rightarrow> nat \<Rightarrow> nat \<Rightarrow> nat option \<Rightarrow> (nat option, 'z) lnc" where
  "hash_serialize_loop rx 0 ent str buf val ptr = nc_fault Diverge"
| "hash_serialize_loop rx (Suc k) ent str buf val ptr =
     (case ent of None \<Rightarrow> nc_return ptr
      | Some a \<Rightarrow>
          nc_bind (get_ent a) (\<lambda>e.
          nc_bind (deref (e_value e)) (\<lambda>key.
          nc_bind (str_sprintf buf ''%s: '' [PStr (CVal key 0)]) (\<lambda>_.
          nc_bind (deref (e_next e)) (\<lambda>n.
          nc_bind (get_ent n) (\<lambda>e'.
          nc_bind (deref (e_value e')) (\<lambda>p.
          nc_bind (cread (CVal p 0)) (\<lambda>cs.
          nc_bind (if LF \<in> set cs
            then nc_bind (str_copy val p) (\<lambda>_.
              nc_bind (str_subst_regex rx val [LF] (CLit [CHR 0x5C, LF])) (\<lambda>_.
              str_append buf val))
            else str_append buf p) (\<lambda>_.
          nc_bind (str_putc buf 10) (\<lambda>_.
          nc_bind (str_append str buf) (\<lambda>_.
          nc_bind (get_ent n) (\<lambda>e'.
          hash_serialize_loop rx k (e_next e') str buf val (Some p)))))))))))))"

definition hash_serialize :: "'r regex_lib \<Rightarrow> nat \<Rightarrow> nat \<Rightarrow> (unit, 'z) hnc" where
  "hash_serialize rx str hash =
     nc_bind (str_new None) (\<lambda>buf.
     nc_bind (str_new None) (\<lambda>val.
     nc_bind (str_new None) (\<lambda>ptr.
     nc_bind (for_fold 0 256 (\<lambda>i p. nc_bind (bucket hash i) (\<lambda>b.
       case b of None \<Rightarrow> nc_return p
       | Some l \<Rightarrow> (\<lambda>w. nc_bind (get_list l) (\<lambda>h.
           hash_serialize_loop rx (Suc (brk w)) (l_head h) str buf val p) w))) (Some ptr)) (\<lambda>p.
     nc_bind (str_destroy (Some buf)) (\<lambda>_.
     nc_bind (str_destroy (Some val)) (\<lambda>_.
     str_destroy p))))))"

section \<open>Deserialising\<close>

definition KEY_PATTERN :: string where
  "KEY_PATTERN = ''([A-Za-z0-9._-]+): (.*)''"

definition hash_deserialize_line ::
    "'r regex_lib \<Rightarrow> nat \<Rightarrow> nat \<Rightarrow> nat \<Rightarrow> nat \<Rightarrow> bool \<Rightarrow> (bool \<times> bool, 'z) hnc" where
  "hash_deserialize_line rx hash key val cur multiline =
     nc_bind (get_ent cur) (\<lambda>e.
     nc_bind (deref (e_value e)) (\<lambda>line.
     nc_bind (get_str line) (\<lambda>t.
     if s_len t = 0 then nc_return (multiline, True)
     else nc_bind (get_str key) (\<lambda>kt.
       nc_bind (if s_len kt = 0 then str_str_regex rx line KEY_PATTERN [key, val] else str_append val line) (\<lambda>_.
       nc_bind (str_get_terminator val) (\<lambda>eol.
       nc_bind (case eol of CVal s off \<Rightarrow> peek s off | CLit cs \<Rightarrow> nc_fault BadAddr) (\<lambda>c.
       if c = CHR 0x5C
       then nc_bind (str_set_terminator val 10) (\<lambda>_. nc_return (True, True))
       else nc_bind (nc_when multiline (str_putc val 10)) (\<lambda>_.
         nc_bind (hash_set hash (CVal key 0) val) (\<lambda>_.
         nc_bind (str_truncate key) (\<lambda>_.
         nc_bind (str_truncate val) (\<lambda>_. nc_return (False, True))))))))))))"

definition hash_deserialize :: "'r regex_lib \<Rightarrow> nat \<Rightarrow> nat \<Rightarrow> (unit, 'z) hnc" where
  "hash_deserialize rx hash str =
     nc_bind (str_new None) (\<lambda>key.
     nc_bind (str_new None) (\<lambda>val.
     nc_bind (list_new None) (\<lambda>lines.
     nc_bind (str_split lines str 10) (\<lambda>_.
     nc_bind (for_each lines (hash_deserialize_line rx hash key val) False) (\<lambda>_.
     nc_bind (get_str key) (\<lambda>kt.
     if 0 < s_len kt then nc_throw
     else nc_bind (str_destroy (Some key)) (\<lambda>_.
       nc_bind (str_destroy (Some val)) (\<lambda>_.
       list_destroy (Some lines)))))))))"

end
