(* ===== verification/NC_List_Sort.thy ===== *)
theory NC_List_Sort
  imports NC_List_Seq
begin

text \<open>
  What \<^verbatim>\<open>list_sort\<close> computes. The inner loop compares the two strings that were first when the pass
  began, again and again, and swaps neighbours when these two are out of order: a pass either does
  nothing, or moves the first string to the end. The routine ends, and its result is the first
  rotation of the list whose first two elements are in order.
\<close>

definition out_of_order :: "bool \<Rightarrow> int \<Rightarrow> bool" where
  "out_of_order ascending rc \<longleftrightarrow> ascending \<and> rc > 0 \<or> \<not> ascending \<and> rc < 0"

lemma sort_pass_still:
  assumes "dseg (ents w) p ((a, v) # ds) None" "length ds < k" "sort_compare lx s1 s2 w = Ok rc w"
    "\<not> out_of_order asc rc"
  shows "list_sort_pass k (Some a) (hd_addr ds None) s1 s2 asc lx f w = Ok f w"
  using assms
proof (induction k arbitrary: p a v ds)
  case (Suc k)
  show ?case
  proof (cases ds)
    case (Cons c ds')
    obtain b u where c: "c = (b, u)" by (cases c)
    have "list_sort_pass k (Some b) (hd_addr ds' None) s1 s2 asc lx f w = Ok f w"
      using Suc.prems Cons c by (intro Suc.IH) auto
    then show ?thesis
      using Suc.prems Cons c by (simp add: list_run Let_def out_of_order_def [symmetric])
  qed (simp add: nc_simps)
qed simp

lemma sort_pass_rotate:
  assumes "dseg (ents w) p ((a, v) # ds) None" "length ds < k" "distinct (a # map fst ds)"
    "\<And>E. sort_compare lx s1 s2 (w\<lparr>ents := E\<rparr>) = Ok rc (w\<lparr>ents := E\<rparr>)" "out_of_order asc rc"
  shows "\<exists>E'. list_sort_pass k (Some a) (hd_addr ds None) s1 s2 asc lx f w = Ok (f \<or> ds \<noteq> []) (w\<lparr>ents := E'\<rparr>) \<and>
    dseg E' p (zip (a # map fst ds) (map snd ds @ [v])) None \<and> (\<forall>x. x \<notin> set (a # map fst ds) \<longrightarrow> E' x = ents w x)"
  using assms
proof (induction k arbitrary: p a v ds w f)
  case (Suc k)
  show ?case
  proof (cases ds)
    case Nil
    then show ?thesis using Suc.prems(1) by (intro exI [of _ "ents w"]) (simp add: nc_simps)
  next
    case (Cons c ds')
    obtain b u where c: "c = (b, u)" by (cases c)
    let ?ea = "\<lparr>e_value = Some u, e_next = Some b, e_prev = p\<rparr>"
    let ?eb = "\<lparr>e_value = Some v, e_next = hd_addr ds' None, e_prev = Some a\<rparr>"
    let ?w = "w\<lparr>ents := (ents w)(a \<mapsto> ?ea, b \<mapsto> ?eb)\<rparr>"
    have e: "ents w a = Some \<lparr>e_value = Some v, e_next = Some b, e_prev = p\<rparr>"
      "ents w b = Some \<lparr>e_value = Some u, e_next = hd_addr ds' None, e_prev = Some a\<rparr>"
      "dseg (ents w) (Some b) ds' None"
      using Suc.prems(1) Cons c by auto
    have ne: "a \<noteq> b" "b \<notin> fst ` set ds'" "a \<notin> fst ` set ds'" using Suc.prems(3) Cons c by auto
    have "sort_compare lx s1 s2 w = Ok rc w" using Suc.prems(4) [of "ents w"] by simp
    then have step: "list_sort_pass (Suc k) (Some a) (hd_addr ds None) s1 s2 asc lx f w
        = list_sort_pass k (Some b) (hd_addr ds' None) s1 s2 asc lx True ?w"
      using Suc.prems(5) Cons c e ne by (simp add: list_run Let_def out_of_order_def [symmetric])
    have i1: "dseg (ents ?w) (Some a) ((b, v) # ds') None" using e ne by simp
    have i2: "length ds' < k" "distinct (b # map fst ds')" using Suc.prems(2,3) Cons c by auto
    have i3: "sort_compare lx s1 s2 (?w\<lparr>ents := E\<rparr>) = Ok rc (?w\<lparr>ents := E\<rparr>)" for E
      using Suc.prems(4) [of E] by simp
    obtain E' where E': "list_sort_pass k (Some b) (hd_addr ds' None) s1 s2 asc lx True ?w = Ok True (?w\<lparr>ents := E'\<rparr>)"
        "dseg E' (Some a) (zip (b # map fst ds') (map snd ds' @ [v])) None" "\<forall>x. x \<notin> set (b # map fst ds') \<longrightarrow> E' x = ents ?w x"
      using Suc.IH [OF i1 i2 i3 Suc.prems(5), of True] by auto
    have "E' a = Some ?ea" using E'(3) ne by auto
    moreover have "hd_addr (zip (b # map fst ds') (map snd ds' @ [v])) None = Some b"
      by (cases "map snd ds' @ [v]") auto
    ultimately have "dseg E' p (zip (a # map fst ds) (map snd ds @ [v])) None" using E'(2) Cons c by simp
    moreover have "\<forall>x. x \<notin> set (a # map fst ds) \<longrightarrow> E' x = ents w x" using E'(3) Cons c by auto
    ultimately show ?thesis using E'(1) step Cons by (intro exI [of _ E']) simp
  qed
qed simp

text \<open>The strings behind the cells, rotated by one.\<close>

definition rot_cells :: "(nat \<times> nat) list \<Rightarrow> (nat \<times> nat) list" where
  "rot_cells cs = zip (map fst cs) (rotate1 (map snd cs))"

lemma rot_cells_simps [simp]:
  "map fst (rot_cells cs) = map fst cs" "map snd (rot_cells cs) = rotate1 (map snd cs)" "length (rot_cells cs) = length cs"
  by (simp_all add: rot_cells_def)

lemma vals_map: "vals w cs xss \<longleftrightarrow> list_all2 (str_has w) (map snd cs) xss"
  by (simp add: vals_def list_all2_map1)

lemma vals_rot: "vals w cs xss \<Longrightarrow> vals w (rot_cells cs) (rotate1 xss)"
  by (cases cs; cases xss) (auto simp: vals_map intro!: list_all2_appendI)

definition gt_str :: "bool \<Rightarrow> string \<Rightarrow> string \<Rightarrow> bool" where
  "gt_str asc x y \<longleftrightarrow> out_of_order asc (strcmp x y)"

lemma sort_compare_lex:
  assumes "str_has w s x" "str_has w t y" "NUL \<notin> set x" "NUL \<notin> set y"
  shows "sort_compare True s t w = Ok (strcmp x y) w"
  using cread_str_has [OF assms(1,3)] cread_str_has [OF assms(2,4)] by (simp add: sort_compare_def nc_simps)

text \<open>One pass over a list with at least two elements.\<close>

lemma sort_pass_list:
  assumes "list_at w l ((a, s) # (b, t) # ds) (x # y # xss)" "NUL \<notin> set x" "NUL \<notin> set y" "wf_lh w"
  shows "\<exists>w'. list_sort_pass (Suc (brk w)) (Some a) (Some b) s t asc True False w = Ok (gt_str asc x y) w' \<and>
    mod_lh {} (fst ` set ((a, s) # (b, t) # ds)) {} w w' \<and> brk w' = brk w \<and> wf_lh w' \<and>
    (if gt_str asc x y then list_at w' l (rot_cells ((a, s) # (b, t) # ds)) (rotate1 (x # y # xss)) else w' = w)"
proof -
  let ?cs = "(a, s) # (b, t) # ds"
  have c: "list_cells w l ?cs" "vals w ?cs (x # y # xss)" using assms(1) by (auto simp: list_at_def)
  have d: "dseg (ents w) None ?cs None" "distinct (map fst ?cs)" "distinct (map snd ?cs)" "lists w l = Some (header ?cs)"
    using c(1) by (auto simp: list_cells_def)
  have st: "str_has w s x" "str_has w t y" using c(2) by auto
  have len: "length ((b, t) # ds) < Suc (brk w)" using list_cells_lt(3) [OF c(1) assms(4)] by simp
  have cmp: "sort_compare True s t (w\<lparr>ents := E\<rparr>) = Ok (strcmp x y) (w\<lparr>ents := E\<rparr>)" for E
    using st assms(2,3) by (intro sort_compare_lex) simp_all
  show ?thesis
  proof (cases "gt_str asc x y")
    case True
    then have oo: "out_of_order asc (strcmp x y)" by (simp add: gt_str_def)
    obtain E' where E': "list_sort_pass (Suc (brk w)) (Some a) (hd_addr ((b, t) # ds) None) s t asc True False w = Ok True (w\<lparr>ents := E'\<rparr>)"
        "dseg E' None (rot_cells ?cs) None" "\<forall>z. z \<notin> set (map fst ?cs) \<longrightarrow> E' z = ents w z"
      using sort_pass_rotate [OF d(1) len _ cmp oo, of False] d(2) by (auto simp: rot_cells_def)
    let ?w = "w\<lparr>ents := E'\<rparr>"
    have "vals ?w (rot_cells ?cs) (rotate1 (x # y # xss)) = vals w (rot_cells ?cs) (rotate1 (x # y # xss))"
      by (rule vals_frame) simp
    then have v: "vals ?w (rot_cells ?cs) (rotate1 (x # y # xss))" using vals_rot [OF c(2)] by simp
    have "header (rot_cells ?cs) = header ?cs"
    proof -
      have hd: "hd_addr us n = hd_addr us' n" if "map fst us = map fst us'" for us us' :: "(nat \<times> nat) list" and n
        using that by (cases us; cases us') auto
      have la: "last_addr p us = last_addr p us'" if "map fst us = map fst us'" for us us' :: "(nat \<times> nat) list" and p
        using that by (metis last_addr_def last_map list.map_disc_iff)
      show ?thesis
        unfolding header_def using hd [OF rot_cells_simps(1)] la [OF rot_cells_simps(1)] rot_cells_simps(3) by metis
    qed
    then have "list_at ?w l (rot_cells ?cs) (rotate1 (x # y # xss))"
      using E'(2) d(2-4) v unfolding list_at_def list_cells_def rot_cells_simps by simp
    moreover have "wf_lh ?w"
    proof -
      have "z < brk w" if "E' z \<noteq> None" for z
      proof (cases "z \<in> fst ` set ?cs")
        case True
        then show ?thesis by (rule list_cells_lt(2) [OF c(1) assms(4)])
      next
        case False
        then have "E' z = ents w z" using E'(3) by simp
        with that show ?thesis using assms(4) by (auto simp: wf_lh_def)
      qed
      then show ?thesis using assms(4) by (auto simp: wf_lh_def wf_strs_def)
    qed
    moreover have "mod_lh {} (fst ` set ?cs) {} w ?w" using E'(3) by (simp add: mod_lh_def)
    ultimately show ?thesis using E'(1) True by (intro exI [of _ ?w]) simp
  next
    case False
    then have "\<not> out_of_order asc (strcmp x y)" by (simp add: gt_str_def)
    moreover have "sort_compare True s t w = Ok (strcmp x y) w" using cmp [of "ents w"] by simp
    ultimately have "list_sort_pass (Suc (brk w)) (Some a) (hd_addr ((b, t) # ds) None) s t asc True False w = Ok False w"
      using sort_pass_still [OF d(1) len] by blast
    with False assms(4) show ?thesis by (intro exI [of _ w]) (simp del: list_sort_pass.simps)
  qed
qed

lemma list_sort_loop_ok:
  assumes "list_at w l cs xss" "2 \<le> length xss" "\<forall>xs\<in>set xss. NUL \<notin> set xs" "wf_lh w" "m < k"
    "\<forall>i<m. gt_str asc (rotate i xss ! 0) (rotate i xss ! 1)" "\<not> gt_str asc (rotate m xss ! 0) (rotate m xss ! 1)"
  shows "\<exists>w' cs'. list_sort_loop k l asc True w = Ok () w' \<and> list_at w' l cs' (rotate m xss) \<and>
    map fst cs' = map fst cs \<and> mod_lh {} (fst ` set cs) {} w w' \<and> wf_lh w' \<and> snd ` set cs' = snd ` set cs"
  using assms
proof (induction k arbitrary: w cs xss m)
  case (Suc k)
  obtain x y xss' where xss: "xss = x # y # xss'"
    using Suc.prems(2) by (metis Suc_le_length_iff numeral_2_eq_2)
  obtain a s b t ds where cs: "cs = (a, s) # (b, t) # ds"
    using Suc.prems(1) xss by (auto simp: list_at_def vals_def list_all2_Cons2)
  have at: "list_at w l ((a, s) # (b, t) # ds) (x # y # xss')" using Suc.prems(1) xss cs by simp
  have NULs: "NUL \<notin> set x" "NUL \<notin> set y" using Suc.prems(3) xss by auto
  have c: "lists w l = Some (header ((a, s) # (b, t) # ds))"
      "ents w a = Some \<lparr>e_value = Some s, e_next = Some b, e_prev = None\<rparr>"
      "ents w b = Some \<lparr>e_value = Some t, e_next = hd_addr ds None, e_prev = Some a\<rparr>"
    using at by (auto simp: list_at_def list_cells_def)
  obtain w1 where w1: "list_sort_pass (Suc (brk w)) (Some a) (Some b) s t asc True False w = Ok (gt_str asc x y) w1"
      "mod_lh {} (fst ` set ((a, s) # (b, t) # ds)) {} w w1" "wf_lh w1"
      "if gt_str asc x y then list_at w1 l (rot_cells ((a, s) # (b, t) # ds)) (rotate1 (x # y # xss')) else w1 = w"
    using sort_pass_list [OF at NULs Suc.prems(4), of asc] by blast
  have step: "list_sort_loop (Suc k) l asc True w = (if gt_str asc x y then list_sort_loop k l asc True w1 else Ok () w1)"
    using c w1(1) by (simp add: list_run del: list_sort_pass.simps)
  show ?case
  proof (cases m)
    case 0
    then have "\<not> gt_str asc x y" using Suc.prems(7) xss by simp
    with step w1(4) Suc.prems(1,4) 0 show ?thesis by (intro exI [of _ w] exI [of _ cs]) simp
  next
    case (Suc j)
    then have gt: "gt_str asc x y" using Suc.prems(6) xss by (metis One_nat_def nth_Cons_0 nth_Cons_Suc rotate0 id_apply zero_less_Suc)
    have rot: "rotate i (rotate1 xss) = rotate (Suc i) xss" for i by (simp add: rotate1_rotate_swap)
    have "list_at w1 l (rot_cells cs) (rotate1 xss)" using w1(4) gt xss cs by simp
    moreover have "\<forall>i<j. gt_str asc (rotate i (rotate1 xss) ! 0) (rotate i (rotate1 xss) ! 1)"
      using Suc.prems(6) \<open>m = Suc j\<close> unfolding rot by blast
    moreover have "\<not> gt_str asc (rotate j (rotate1 xss) ! 0) (rotate j (rotate1 xss) ! 1)"
      using Suc.prems(7) \<open>m = Suc j\<close> unfolding rot by blast
    ultimately obtain w2 cs' where w2: "list_sort_loop k l asc True w1 = Ok () w2"
        "list_at w2 l cs' (rotate j (rotate1 xss))" "map fst cs' = map fst (rot_cells cs)"
        "mod_lh {} (fst ` set (rot_cells cs)) {} w1 w2" "wf_lh w2" "snd ` set cs' = snd ` set (rot_cells cs)"
      using Suc.IH [of w1 "rot_cells cs" "rotate1 xss" j] Suc.prems(2,3,5) w1(3) \<open>m = Suc j\<close> by (auto simp del: rotate_Suc)
    have fs: "fst ` set (rot_cells cs) = fst ` set cs" "snd ` set (rot_cells cs) = snd ` set cs"
      by (metis list.set_map rot_cells_simps(1)) (metis list.set_map rot_cells_simps(2) set_rotate1)
    have "mod_lh {} (fst ` set cs) {} w w2"
      using mod_lh_trans [OF w1(2) w2(4)] fs cs by (simp add: insert_commute)
    with step gt w2 fs show ?thesis
      by (intro exI [of _ w2] exI [of _ cs']) (simp add: rot \<open>m = Suc j\<close>)
  qed
qed simp

text \<open>A cyclic sequence is not strictly decreasing all the way round, so the loop ends.\<close>

lemma gt_str_trans: "gt_str asc x y \<Longrightarrow> gt_str asc y z \<Longrightarrow> gt_str asc x z"
proof -
  have "strcmp z x < 0" if "strcmp y x < 0" "strcmp z y < 0" for x y z
    using strcmp_trans_less [of z y x] strcmp_trans_less [of y z x] strcmp_eq_0 [of z x] that strcmp_sym [of z y]
    by (metis less_eq_neg_nonpos less_le linorder_not_less neg_less_0_iff_less order.asym strcmp_eq_0 order_less_imp_le)
  then show "gt_str asc x y \<Longrightarrow> gt_str asc y z \<Longrightarrow> gt_str asc x z"
    unfolding gt_str_def out_of_order_def using strcmp_sym [of x y] strcmp_sym [of y z] strcmp_sym [of x z]
    by (metis neg_0_less_iff_less)
qed

lemma gt_str_irrefl: "\<not> gt_str asc x x"
  by (simp add: gt_str_def out_of_order_def)

lemma rotation_in_order:
  assumes "2 \<le> length xss"
  shows "\<exists>m<length xss. \<not> gt_str asc (rotate m xss ! 0) (rotate m xss ! 1)"
proof (rule ccontr)
  let ?n = "length xss"
  assume "\<not> ?thesis"
  then have all: "gt_str asc (xss ! m) (xss ! (Suc m mod ?n))" if "m < ?n" for m
  proof -
    have "0 < ?n" "1 < ?n" using assms by linarith+
    then have "rotate m xss ! 0 = xss ! m" "rotate m xss ! 1 = xss ! (Suc m mod ?n)"
      using that nth_rotate [of 0 xss m] nth_rotate [of 1 xss m] by simp_all
    moreover have "gt_str asc (rotate m xss ! 0) (rotate m xss ! 1)" using that \<open>\<not> _\<close> by blast
    ultimately show ?thesis by simp
  qed
  have "gt_str asc (xss ! 0) (xss ! (Suc j mod ?n))" if "j < ?n" for j
    using that
  proof (induction j)
    case (Suc j)
    then have "gt_str asc (xss ! 0) (xss ! Suc j)" by simp
    then show ?case using all [OF Suc.prems] by (rule gt_str_trans)
  qed (use all [of 0] in simp)
  moreover have "?n - 1 < ?n" "Suc (?n - 1) = ?n" using assms by linarith+
  ultimately show False using gt_str_irrefl by (metis mod_self)
qed

lemma list_sort_ok:
  assumes "list_at w l cs xss" "\<forall>xs\<in>set xss. NUL \<notin> set xs" "wf_lh w" "mem_ok w" "\<not> odd (flags div 16)" "2 \<le> length xss"
    and asc: "asc = (\<not> odd flags)"
  shows "\<exists>w' cs' m. list_sort l flags w = Ok () w' \<and> list_at w' l cs' (rotate m xss) \<and> m < length xss \<and>
    (\<forall>i<m. gt_str asc (rotate i xss ! 0) (rotate i xss ! 1)) \<and> \<not> gt_str asc (rotate m xss ! 0) (rotate m xss ! 1) \<and>
    mod_lh {brk w..} (fst ` set cs) {} w w' \<and> wf_lh w' \<and> fst ` set cs' = fst ` set cs \<and> snd ` set cs' = snd ` set cs"
proof -
  let ?Q = "\<lambda>m. m < length xss \<and> \<not> gt_str asc (rotate m xss ! 0) (rotate m xss ! 1)"
  define m where "m = (LEAST m. ?Q m)"
  have ex: "\<exists>m. ?Q m" using rotation_in_order [OF assms(6)] by blast
  have m: "?Q m" unfolding m_def using LeastI_ex [OF ex] .
  have min: "\<forall>i<m. gt_str asc (rotate i xss ! 0) (rotate i xss ! 1)"
    using not_less_Least [of _ ?Q] m unfolding m_def by fastforce
  have c: "list_cells w l cs" "vals w cs xss" using assms(1) by (auto simp: list_at_def)
  have len: "length cs = length xss" using vals_length [OF c(2)] .
  let ?t = "brk w"
  obtain w1 where n: "str_new None w = Ok ?t w1" and w1: "str_upd w ?t [] w1" "?t < brk w1"
    using str_new_ok [OF assms(4)] by blast
  have m1: "mod_lh {?t} {} {} w w1" by (rule mod_strs_lh [OF str_upd_mod [OF w1(1)]])
  have wf1: "wf_lh w1" by (rule mod_lh_wf [OF m1 assms(3)]) (use w1(2) in simp)
  have sl: "?t \<notin> snd ` set cs" using vals_lt [OF c(2)] assms(3) by fastforce
  have l1: "list_at w1 l cs xss" by (rule list_at_frame [OF assms(1) m1]) (use sl in auto)
  have mk: "m < Suc (brk w)" using m len list_cells_lt(3) [OF c(1) assms(3)] by simp
  obtain w2 cs' where w2: "list_sort_loop (Suc (brk w)) l asc True w1 = Ok () w2" "list_at w2 l cs' (rotate m xss)"
      "mod_lh {} (fst ` set cs) {} w1 w2" "snd ` set cs' = snd ` set cs" "map fst cs' = map fst cs" "wf_lh w2"
    using list_sort_loop_ok [OF l1 assms(6,2) wf1 mk min] m by blast
  let ?w = "w2\<lparr>strs := (strs w2)(?t := None)\<rparr>"
  have "str_has w2 ?t []" using str_upd_has [OF w1(1)] mod_lh_has [OF w2(3), of ?t "[]"] by simp
  moreover have "lists w1 l = Some (header cs)" using l1 by (simp add: list_at_def list_cells_def)
  ultimately have "list_sort l flags w = Ok () ?w"
    unfolding list_sort_def using w2(1) asc assms(5,6) len
    by (intro with_auto_str_run [OF n]) (simp_all add: nc_bind_def get_list_def SORT_DESCENDING_def SORT_NUMERIC_def)
  moreover have "list_at ?w l cs' (rotate m xss)"
    by (rule list_at_frame [OF w2(2), of "{?t}" "{}" "{}"]) (use sl w2(4) in \<open>auto simp: mod_lh_def\<close>)
  moreover have "mod_lh {?t..} (fst ` set cs) {} w ?w"
    using mod_lh_trans [OF m1 w2(3)] by (auto simp: mod_lh_def)
  moreover have "wf_lh ?w" using w2(6) by (auto simp: wf_lh_def wf_strs_def)
  moreover have "fst ` set cs' = fst ` set cs" using w2(5) by (metis list.set_map)
  ultimately show ?thesis using m min w2(4) by blast
qed

end
