(* ===== verification/NC_List_Props.thy ===== *)
theory NC_List_Props
  imports NC_List_Sort NC_String_Props
begin

text \<open>
  The properties of the list component, with witnesses on a small concrete memory.
\<close>

section \<open>A concrete memory\<close>

definition lmem :: list_heap where
  "lmem = \<lparr>strs = [0 \<mapsto> lit_str ''one'', 1 \<mapsto> lit_str ''two'', 2 \<mapsto> lit_str [], 3 \<mapsto> lit_str [],
      6 \<mapsto> lit_str ''b'', 8 \<mapsto> lit_str ''a'', 10 \<mapsto> lit_str ''c'', 14 \<mapsto> lit_str ''z''],
    brk = 15, malloc_ok = (\<lambda>_ _. True),
    ents = [5 \<mapsto> \<lparr>e_value = Some 6, e_next = Some 7, e_prev = None\<rparr>,
      7 \<mapsto> \<lparr>e_value = Some 8, e_next = Some 9, e_prev = Some 5\<rparr>,
      9 \<mapsto> \<lparr>e_value = Some 10, e_next = None, e_prev = Some 7\<rparr>,
      13 \<mapsto> \<lparr>e_value = Some 14, e_next = None, e_prev = None\<rparr>],
    lists = [4 \<mapsto> \<lparr>l_count = 3, l_head = Some 5, l_tail = Some 9\<rparr>,
      11 \<mapsto> empty_list, 12 \<mapsto> \<lparr>l_count = 1, l_head = Some 13, l_tail = Some 13\<rparr>]\<rparr>"

lemma lmem_has:
  "str_has lmem 0 ''one''" "str_has lmem 1 ''two''" "str_has lmem 2 []" "str_has lmem 3 []"
  "str_has lmem 6 ''b''" "str_has lmem 8 ''a''" "str_has lmem 10 ''c''" "str_has lmem 14 ''z''"
  by (rule lit_str_has; simp add: lmem_def STRING_MAX_def)+

lemma lmem_wf: "wf_lh lmem" "mem_ok lmem"
  by (auto simp: wf_lh_def wf_strs_def lmem_def mem_ok_def split: if_splits)

lemma lmem_at:
  "list_at lmem 4 [(5, 6), (7, 8), (9, 10)] [''b'', ''a'', ''c'']"
  "list_at lmem 11 [] []"
  "list_at lmem 12 [(13, 14)] [''z'']"
proof -
  have v: "vals lmem [(5, 6), (7, 8), (9, 10)] [''b'', ''a'', ''c'']" "vals lmem [(13, 14)] [''z'']"
    using lmem_has by simp_all
  show "list_at lmem 4 [(5, 6), (7, 8), (9, 10)] [''b'', ''a'', ''c'']"
    using v(1) by (simp add: list_at_def list_cells_def header_def) (simp add: lmem_def)
  show "list_at lmem 12 [(13, 14)] [''z'']"
    using v(2) by (simp add: list_at_def list_cells_def header_def) (simp add: lmem_def)
  show "list_at lmem 11 [] []"
    by (simp add: list_at_def list_cells_def header_Nil) (simp add: lmem_def)
qed

lemma lmem_obj:
  "list_obj lmem 4 [''b'', ''a'', ''c''] {6, 8, 10}" "list_obj lmem 11 [] {}" "list_obj lmem 12 [''z''] {14}"
  using lmem_wf lmem_at by (auto simp: list_obj_def intro!: exI)

section \<open>Queue, stack and indexed access\<close>

text \<open>
  First in, first out: pushing any number of strings on an empty list and shifting as many off
  it delivers them in the order in which they were pushed, and the list is empty again.
\<close>

theorem list_fifo:
  assumes "list_obj w l [] F" "list_all2 (\<lambda>v x. str_has w v x \<and> v \<notin> F) vs xss" "length ds = length vs" "distinct ds"
    "\<forall>d\<in>set ds. d \<notin> F \<and> (\<exists>y. str_has w d y)" "length vs < 2 ^ 32"
  shows "\<exists>w' F'. nc_bind (ls.push_all l vs) (\<lambda>_. lq.shift_all ds l) w = Ok () w' \<and> list_obj w' l [] F' \<and>
    list_all2 (str_has w') ds xss"
  using lq.fifo [OF assms(1-5)] assms(6) by (auto simp: list_room_def)

theorem list_fifo_witness:
  "\<exists>w' F'. nc_bind (ls.push_all 11 [0, 1]) (\<lambda>_. lq.shift_all [2, 3] 11) lmem = Ok () w' \<and> list_obj w' 11 [] F' \<and>
    list_all2 (str_has w') [2, 3] [''one'', ''two'']"
  by (rule list_fifo [OF lmem_obj(2)]) (use lmem_has in auto)

text \<open>
  Last in, first out: popping right after a push delivers the pushed string and leaves the list
  as it was before the push.
\<close>

theorem list_push_pop:
  assumes "list_obj w l xss F" "str_has w v x" "v \<notin> F" "str_has w d y" "d \<notin> F" "length xss + 1 < 2 ^ 32"
  shows "\<exists>w' F'. nc_bind (list_push l v) (\<lambda>_. list_pop d l) w = Ok () w' \<and> list_obj w' l xss F' \<and> str_has w' d x"
  using lk.push_pop [OF assms(1-5)] assms(6) by (simp add: list_room_def)

theorem list_push_pop_witness:
  "\<exists>w' F'. nc_bind (list_push 4 0) (\<lambda>_. list_pop 2 4) lmem = Ok () w' \<and>
    list_obj w' 4 [''b'', ''a'', ''c''] F' \<and> str_has w' 2 ''one''"
  by (rule list_push_pop [OF lmem_obj(1) lmem_has(1) _ lmem_has(3)]) simp_all

text \<open>
  \<^verbatim>\<open>list_get\<close> copies the element at the given position, counted from 0, and leaves the list as it
  is; a position that is not in the list is refused and nothing changes.
\<close>

theorem list_get_spec:
  assumes "list_obj w l xss F" "length xss < 2 ^ 32" "str_has w d y" "d \<notin> F"
  shows "if i < length xss
    then \<exists>w'. list_get d l i w = Ok () w' \<and> list_obj w' l xss F \<and> str_has w' d (xss ! i)
    else list_get d l i w = Fail (-1) w"
proof (cases "i < length xss")
  case True
  then have "list_room i" using assms(2) by (simp add: list_room_def)
  from ls.fetch_law [OF assms(1) True this assms(3,4)] show ?thesis using True by auto
qed (use ls.fetch_range [OF assms(1)] in simp)

theorem list_get_spec_witness:
  "(\<exists>w'. list_get 2 4 1 lmem = Ok () w' \<and> list_obj w' 4 [''b'', ''a'', ''c''] {6, 8, 10} \<and> str_has w' 2 ''a'') \<and>
    list_get 2 4 7 lmem = Fail (-1) lmem"
  using list_get_spec [OF lmem_obj(1) _ lmem_has(3), of 1] list_get_spec [OF lmem_obj(1) _ lmem_has(3), of 7] by simp

section \<open>Lifetime\<close>

lemma push_all_fresh:
  assumes "list_at w1 l cs xss" "list_all2 (\<lambda>v x. str_has w v x) vs yss" "mem_ok w1" "wf_lh w1" "wf_lh w"
    "length cs + length vs < 2 ^ 64" "brk w \<le> brk w1" "\<forall>a\<in>fst ` set cs \<union> snd ` set cs. brk w \<le> a"
    "mod_lh (snd ` set cs) (fst ` set cs) {l} w w1"
  shows "\<exists>w' ds. ls.push_all l vs w1 = Ok () w' \<and> list_at w' l ds (xss @ yss) \<and> wf_lh w' \<and>
    (\<forall>a\<in>fst ` set ds \<union> snd ` set ds. brk w \<le> a) \<and> mod_lh (snd ` set ds) (fst ` set ds) {l} w w'"
  using assms
proof (induction vs arbitrary: w1 cs xss yss)
  case Nil
  then show ?case by (auto simp: nc_return_def)
next
  case (Cons v vs)
  obtain y yss' where ys: "yss = y # yss'" "str_has w v y" "list_all2 (\<lambda>v x. str_has w v x) vs yss'"
    using Cons.prems(2) by (auto simp: list_all2_Cons1)
  have "v < brk w" using str_has_lt [of w v y] ys(2) Cons.prems(5) by simp
  then have "v \<notin> snd ` set cs" using Cons.prems(8) leD by blast
  then have v: "str_has w1 v y" using mod_lh_has [OF Cons.prems(9), of v y] ys(2) by simp
  have len: "length cs + 1 < 2 ^ 64" using Cons.prems(6) by simp
  obtain w2 a s where w2: "list_push l v w1 = Ok () w2" "list_at w2 l (cs @ [(a, s)]) (xss @ [y])"
      "mod_lh {s} (insert a (fst ` set cs)) {l} w1 w2" "brk w1 \<le> a" "brk w1 \<le> s" "a < brk w2" "s < brk w2"
    using list_push_ok [OF Cons.prems(1) str_has_src [OF v] len Cons.prems(3,4)] by blast
  have wf: "wf_lh w2" "mem_ok w2" "brk w \<le> brk w2"
    using list_push_wf [OF w2(3) _ Cons.prems(4) w2(6,7)] Cons.prems(1,3,7) mod_lh_mem_ok [OF w2(3)] mod_lh_brk [OF w2(3)]
    by (auto simp: list_at_def)
  have m: "mod_lh (snd ` set (cs @ [(a, s)])) (fst ` set (cs @ [(a, s)])) {l} w w2"
    by (rule mod_lh_mono [OF mod_lh_trans [OF Cons.prems(9) w2(3)]]) auto
  have "\<forall>c\<in>fst ` set (cs @ [(a, s)]) \<union> snd ` set (cs @ [(a, s)]). brk w \<le> c"
    using Cons.prems(7,8) w2(4,5) by auto
  from Cons.IH [OF w2(2) ys(3) wf(2,1) Cons.prems(5) _ wf(3) this m] Cons.prems(6)
  obtain w' ds where "ls.push_all l vs w2 = Ok () w'" "list_at w' l ds ((xss @ [y]) @ yss')" "wf_lh w'"
      "\<forall>a\<in>fst ` set ds \<union> snd ` set ds. brk w \<le> a" "mod_lh (snd ` set ds) (fst ` set ds) {l} w w'"
    by auto
  then show ?case using w2(1) ys(1) by (auto simp: nc_bind_def)
qed

text \<open>
  A list gives back everything it allocates: creating a list, pushing any number of strings on
  it and destroying it leaves all strings, entries and lists as they were, without a leak.
\<close>

theorem list_lifetime:
  assumes "wf_lh w" "mem_ok w" "list_all2 (str_has w) vs xss" "length vs < 2 ^ 64"
  shows "\<exists>l w1 w2 w3. list_new None w = Ok l w1 \<and> ls.push_all l vs w1 = Ok () w2 \<and>
    (\<exists>cs. list_at w2 l cs xss) \<and> list_destroy (Some l) w2 = Ok () w3 \<and>
    strs w3 = strs w \<and> ents w3 = ents w \<and> lists w3 = lists w"
proof -
  let ?l = "brk w" and ?w1 = "w\<lparr>lists := (lists w)(brk w \<mapsto> empty_list), brk := Suc (brk w)\<rparr>"
  have at: "list_at ?w1 ?l [] []" by (simp add: list_at_def list_cells_def header_Nil)
  have wf: "wf_lh ?w1" using assms(1) by (auto simp: wf_lh_def wf_strs_def less_Suc_eq)
  have ok: "mem_ok ?w1" using assms(2) by (simp add: mem_ok_def)
  have m: "mod_lh (snd ` set []) (fst ` set []) {?l} w ?w1" by (simp add: mod_lh_def)
  obtain w2 cs where w2: "ls.push_all ?l vs ?w1 = Ok () w2" "list_at w2 ?l cs xss" "wf_lh w2"
      "\<forall>a\<in>fst ` set cs \<union> snd ` set cs. brk w \<le> a" "mod_lh (snd ` set cs) (fst ` set cs) {?l} w w2"
    using push_all_fresh [OF at assms(3) ok wf assms(1) _ _ _ m] assms(4) by auto
  have n: "strs w a = None" "ents w a = None" "lists w a = None" if "brk w \<le> a" for a
    using assms(1) that by (auto simp: wf_lh_def wf_strs_def)
  let ?w3 = "w2\<lparr>strs := strs w2 |` (- snd ` set cs), ents := ents w2 |` (- fst ` set cs), lists := (lists w2)(?l := None)\<rparr>"
  have d: "list_destroy (Some ?l) w2 = Ok () ?w3" by (rule list_destroy_ok [OF w2(2,3)])
  have "strs ?w3 a = strs w a" "ents ?w3 a = ents w a" "lists ?w3 a = lists w a" for a
    using w2(4,5) n [of a] by (auto simp: mod_lh_def restrict_map_def)
  then have "strs ?w3 = strs w" "ents ?w3 = ents w" "lists ?w3 = lists w" by blast+
  moreover have "list_new None w = Ok ?l ?w1" by (rule list_new_ok [OF assms(2)])
  ultimately show ?thesis using w2(1,2) d by blast
qed

theorem list_lifetime_witness:
  "\<exists>l w1 w2 w3. list_new None lmem = Ok l w1 \<and> ls.push_all l [0, 1] w1 = Ok () w2 \<and>
    (\<exists>cs. list_at w2 l cs [''one'', ''two'']) \<and> list_destroy (Some l) w2 = Ok () w3 \<and>
    strs w3 = strs lmem \<and> ents w3 = ents lmem \<and> lists w3 = lists lmem"
  by (rule list_lifetime [OF lmem_wf]) (use lmem_has in auto)

section \<open>Operations on whole lists\<close>

text \<open>
  \<^verbatim>\<open>list_delete\<close> removes the element at a position of the list and nothing else. The position equal
  to the number of elements, which is not in the list, is accepted and nothing happens; every larger
  one is refused.
\<close>

theorem list_delete_spec:
  assumes "list_at w l cs xss" "wf_lh w" "length xss < 2 ^ 64"
  shows "if i < length xss
    then \<exists>w'. list_delete l i w = Ok () w' \<and>
      list_at w' l (take i cs @ drop (Suc i) cs) (take i xss @ drop (Suc i) xss) \<and>
      mod_lh {snd (cs ! i)} (fst ` set cs) {l} w w'
    else list_delete l i w = (if i = length xss then Ok () w else Fail (-1) w)"
proof -
  have c: "lists w l = Some (header cs)" "length cs = length xss"
    using assms(1) vals_length [of w cs xss] by (auto simp: list_at_def list_cells_def)
  consider "i < length xss" | "i = length xss" | "length xss < i" by linarith
  then show ?thesis
  proof cases
    case 1
    then show ?thesis using list_delete_ok [OF assms(1) 1 _ assms(2)] assms(3) c(2) by simp
  next
    case 2
    then show ?thesis using list_delete_at_count [OF assms] by simp
  next
    case 3
    then show ?thesis using c by (simp add: list_delete_def list_run)
  qed
qed

theorem list_delete_spec_witness:
  "(\<exists>w'. list_delete 4 1 lmem = Ok () w' \<and> list_at w' 4 [(5, 6), (9, 10)] [''b'', ''c''] \<and>
      mod_lh {8} {5, 7, 9} {4} lmem w') \<and>
    list_delete 4 3 lmem = Ok () lmem \<and> list_delete 4 4 lmem = Fail (-1) lmem"
  using list_delete_spec [OF lmem_at(1) lmem_wf(1), of 1] list_delete_spec [OF lmem_at(1) lmem_wf(1), of 3]
    list_delete_spec [OF lmem_at(1) lmem_wf(1), of 4] by simp

text \<open>
  \<^verbatim>\<open>list_reverse\<close> reverses the list in place, moving no string, and a second call restores the
  original order of the same entries.
\<close>

theorem list_reverse_involution:
  assumes "list_at w l cs xss" "wf_lh w"
  shows "\<exists>w1 w2. list_reverse l w = Ok () w1 \<and> list_at w1 l (rev cs) (rev xss) \<and> strs w1 = strs w \<and>
    list_reverse l w1 = Ok () w2 \<and> list_at w2 l cs xss"
proof -
  obtain w1 where w1: "list_reverse l w = Ok () w1" "list_at w1 l (rev cs) (rev xss)" "mod_lh {} (fst ` set cs) {l} w w1"
    using list_reverse_ok [OF assms] by blast
  have "\<forall>a\<in>{} \<union> fst ` set cs \<union> {l}. a < brk w1"
    using list_cells_lt(1,2) [of w l cs] assms mod_lh_brk [OF w1(3)] by (fastforce simp: list_at_def)
  then have "wf_lh w1" by (rule mod_lh_wf [OF w1(3) assms(2)])
  from list_reverse_ok [OF w1(2) this] w1 show ?thesis by (auto simp: mod_lh_def)
qed

theorem list_reverse_involution_witness:
  "\<exists>w1 w2. list_reverse 4 lmem = Ok () w1 \<and> list_at w1 4 [(9, 10), (7, 8), (5, 6)] [''c'', ''a'', ''b''] \<and>
    strs w1 = strs lmem \<and> list_reverse 4 w1 = Ok () w2 \<and> list_at w2 4 [(5, 6), (7, 8), (9, 10)] [''b'', ''a'', ''c'']"
  using list_reverse_involution [OF lmem_at(1) lmem_wf(1)] by simp

text \<open>
  \<^verbatim>\<open>list_copy\<close> replaces the contents of the destination by copies of all elements of the source;
  the source and everything outside of the destination stay as they are, and the two lists share no
  string afterwards.
\<close>

theorem list_copy_spec:
  assumes "list_at w d ds yss" "list_at w s cs xss" "d \<noteq> s" "fst ` set ds \<inter> fst ` set cs = {}"
    "snd ` set ds \<inter> snd ` set cs = {}" "length cs < 2 ^ 64" "mem_ok w" "wf_lh w"
  shows "\<exists>w' es. list_copy d s w = Ok () w' \<and> list_at w' d es xss \<and> list_at w' s cs xss \<and>
    (\<forall>u z. u \<notin> snd ` set ds \<longrightarrow> str_has w u z \<longrightarrow> str_has w' u z)"
proof -
  obtain w' es where w': "list_copy d s w = Ok () w'" "list_at w' d es xss" "list_at w' s cs xss"
      "mod_lh (snd ` set ds \<union> {brk w..}) (fst ` set ds \<union> {brk w..}) {d} w w'"
    using list_copy_ok [OF assms] by blast
  have "u < brk w" if "str_has w u z" for u z using str_has_lt [of w u z] that assms(8) by simp
  then have "\<forall>u z. u \<notin> snd ` set ds \<longrightarrow> str_has w u z \<longrightarrow> str_has w' u z"
    using mod_lh_has [OF w'(4)] by fastforce
  with w' show ?thesis by blast
qed

theorem list_copy_spec_witness:
  "\<exists>w' es. list_copy 12 4 lmem = Ok () w' \<and> list_at w' 12 es [''b'', ''a'', ''c''] \<and>
    list_at w' 4 [(5, 6), (7, 8), (9, 10)] [''b'', ''a'', ''c''] \<and>
    (\<forall>u z. u \<notin> snd ` set [(13 :: nat, 14)] \<longrightarrow> str_has lmem u z \<longrightarrow> str_has w' u z)"
  by (rule list_copy_spec [OF lmem_at(3,1) _ _ _ _ lmem_wf(2,1)]) auto

text \<open>
  \<^verbatim>\<open>list_find\<close> finds exactly the strings that are in the list, and changes nothing.
\<close>

theorem list_find_spec:
  assumes "list_at w l cs xss" "cread p w = Ok ys w" "\<forall>xs\<in>set xss. NUL \<notin> set xs" "wf_lh w"
  shows "list_find l p w = Ok (ys \<in> set xss) w"
  by (rule list_find_ok [OF assms])

theorem list_find_spec_witness:
  "list_find 4 (CVal 8 0) lmem = Ok True lmem \<and> list_find 4 (CLit ''z'') lmem = Ok False lmem"
  using list_find_spec [OF lmem_at(1) cread_str_has [OF lmem_has(6)] _ lmem_wf(1)]
    list_find_spec [OF lmem_at(1) _ _ lmem_wf(1), of "CLit ''z''" "''z''"] by simp

section \<open>Sorting\<close>

text \<open>
  \<^verbatim>\<open>list_sort\<close> ends, and what it leaves is not the sorted list but a rotation of it: the first
  rotation in which the first two elements are in order.
\<close>

theorem list_sort_rotates:
  assumes "list_at w l cs xss" "\<forall>xs\<in>set xss. NUL \<notin> set xs" "wf_lh w" "mem_ok w" "2 \<le> length xss"
  shows "\<exists>w' cs' m. list_sort l 0 w = Ok () w' \<and> list_at w' l cs' (rotate m xss) \<and> m < length xss \<and>
    (\<forall>i<m. strcmp (rotate i xss ! 0) (rotate i xss ! 1) > 0) \<and> strcmp (rotate m xss ! 0) (rotate m xss ! 1) \<le> 0"
proof -
  obtain w' cs' m where "list_sort l 0 w = Ok () w'" "list_at w' l cs' (rotate m xss)" "m < length xss"
      "\<forall>i<m. gt_str True (rotate i xss ! 0) (rotate i xss ! 1)" "\<not> gt_str True (rotate m xss ! 0) (rotate m xss ! 1)"
    using list_sort_ok [OF assms(1-4) _ assms(5), of 0 True] by auto
  then show ?thesis by (intro exI [of _ w'] exI [of _ cs'] exI [of _ m]) (simp add: gt_str_def out_of_order_def not_less)
qed

theorem list_sort_rotates_witness:
  "\<exists>w' cs'. list_sort 4 0 lmem = Ok () w' \<and> list_at w' 4 cs' [''a'', ''c'', ''b'']"
proof -
  let ?xss = "[''b'', ''a'', ''c'']"
  obtain w' cs' m where w': "list_sort 4 0 lmem = Ok () w'" "list_at w' 4 cs' (rotate m ?xss)" "m < 3"
      "\<forall>i<m. strcmp (rotate i ?xss ! 0) (rotate i ?xss ! 1) > 0" "strcmp (rotate m ?xss ! 0) (rotate m ?xss ! 1) \<le> 0"
  proof -
    have n: "\<forall>xs\<in>set ?xss. NUL \<notin> set xs" "2 \<le> length ?xss" "length ?xss = 3" by simp_all
    from list_sort_rotates [OF lmem_at(1) n(1) lmem_wf n(2)] that show thesis unfolding n(3) by blast
  qed
  have gt: "strcmp ''b'' ''a'' > 0" "\<not> strcmp ''a'' ''c'' > 0" by code_simp+
  have "m \<noteq> 0"
  proof
    assume "m = 0"
    with w'(5) gt(1) show False by simp
  qed
  moreover have "m \<noteq> 2"
  proof
    assume "m = 2"
    then have "strcmp (rotate 1 ?xss ! 0) (rotate 1 ?xss ! 1) > 0" using w'(4) by (metis one_less_numeral_iff semiring_norm(76))
    with gt(2) show False by simp
  qed
  ultimately have "m = 1" using w'(3) by linarith
  with w'(1,2) show ?thesis by auto
qed

section \<open>Broken links\<close>

text \<open>
  \<^verbatim>\<open>list_unshift\<close> does not set the back link of the old first entry. After one \<^verbatim>\<open>list_unshift\<close> on a
  list with one element, popping that element loses the other one: the list still counts one
  element, but the next \<^verbatim>\<open>list_pop\<close> reports an empty list.
\<close>

theorem list_unshift_pop_loses:
  assumes "list_at w l [(a, s)] [x]" "str_has w v y" "v \<noteq> s" "str_has w d z" "d \<noteq> s" "wf_lh w" "mem_ok w"
  shows "\<exists>w1 w2 h. list_unshift l v w = Ok () w1 \<and> list_pop d l w1 = Ok () w2 \<and> str_has w2 d x \<and>
    lists w2 l = Some h \<and> l_count h = 1 \<and> list_pop d l w2 = Fail (-1) w2"
proof -
  have c: "lists w l = Some \<lparr>l_count = 1, l_head = Some a, l_tail = Some a\<rparr>"
      "ents w a = Some \<lparr>e_value = Some s, e_next = None, e_prev = None\<rparr>" "str_has w s x"
    using assms(1) by (auto simp: list_at_def list_cells_def header_def)
  have lt: "s < brk w" "d < brk w" "a < brk w" "l < brk w"
    using str_has_lt [of w s x] str_has_lt [of w d z] c assms(4,6) by (auto simp: wf_lh_def)
  let ?n = "brk w"
  obtain w1 where w1: "list_entry_new None v w = Ok ?n w1" "mod_lh {Suc ?n} {?n} {} w w1"
      "ents w1 ?n = Some \<lparr>e_value = Some (Suc ?n), e_next = None, e_prev = None\<rparr>"
    using list_entry_new_ok [OF str_has_src [OF assms(2)] assms(7,6)] by blast
  have k: "lists w1 l = lists w l" "ents w1 a = ents w a" "str_has w1 s x" "str_has w1 d z" "mem_ok w1"
    using lt c(3) assms(4,7) mod_lh_lists [OF w1(2), of l] mod_lh_ents [OF w1(2), of a] mod_lh_has [OF w1(2), of s x]
      mod_lh_has [OF w1(2), of d z] mod_lh_mem_ok [OF w1(2)] by simp_all
  let ?w1 = "w1\<lparr>ents := (ents w1)(?n \<mapsto> \<lparr>e_value = Some (Suc ?n), e_next = Some a, e_prev = None\<rparr>),
    lists := (lists w1)(l \<mapsto> \<lparr>l_count = 2, l_head = Some ?n, l_tail = Some a\<rparr>)\<rparr>"
  have sz2: "sz 2 = 2" "sz_dec 2 = 1" by (simp_all add: sz_def sz_dec_def)
  have u: "list_unshift l v w = Ok () ?w1"
    using w1(1,3) k(1) c(1) sz2 by (simp add: list_unshift_def list_run numeral_2_eq_2 [symmetric])
  obtain w2 where w2: "str_move d s ?w1 = Ok () w2" "mod_strs {d, s} ?w1 w2" "str_has w2 d x" "str_has w2 s []"
    using str_move_ok [of ?w1 s x d z] k(3-5) assms(5) by auto
  have e2: "ents w2 = ents ?w1" "lists w2 = lists ?w1" using mod_strs_ents [OF w2(2)] mod_strs_lists [OF w2(2)] .
  have a2: "ents w2 a = Some \<lparr>e_value = Some s, e_next = None, e_prev = None\<rparr>" using e2 k(2) c(2) lt by simp
  let ?w3 = "w2\<lparr>lists := (lists w2)(l \<mapsto> \<lparr>l_count = 1, l_head = Some ?n, l_tail = None\<rparr>)\<rparr>"
  let ?w4 = "?w3\<lparr>strs := (strs ?w3)(s := None), ents := (ents ?w3)(a := None)\<rparr>"
  have "list_entry_destroy a ?w3 = Ok () ?w4"
    by (rule list_entry_destroy_ok [of _ _ "\<lparr>e_value = Some s, e_next = None, e_prev = None\<rparr>" s "[]"]) (use a2 w2(4) in simp_all)
  then have "list_entry_delete l a w2 = Ok () ?w4"
    using a2 e2 sz2 lt by (simp add: list_entry_delete_def list_run)
  then have p: "list_pop d l ?w1 = Ok () ?w4"
    using w2(1) k(2) c(2) lt by (simp add: list_pop_def list_run deref_def)
  have "str_has ?w4 d x" using w2(3) assms(5) by (simp add: str_has_def)
  with u p show ?thesis
    by (intro exI [of _ ?w1] exI [of _ ?w4]) (simp add: list_pop_def list_run)
qed

theorem list_unshift_pop_loses_witness:
  "\<exists>w1 w2 h. list_unshift 12 0 lmem = Ok () w1 \<and> list_pop 2 12 w1 = Ok () w2 \<and> str_has w2 2 ''z'' \<and>
    lists w2 12 = Some h \<and> l_count h = 1 \<and> list_pop 2 12 w2 = Fail (-1) w2"
  by (rule list_unshift_pop_loses [OF lmem_at(3) lmem_has(1) _ lmem_has(3) _ lmem_wf]) simp_all

text \<open>
  Merging an empty list into a list that has elements clears the destination's tail pointer:
  the elements are still counted, but \<^verbatim>\<open>list_pop\<close> reports an empty list.
\<close>

theorem list_merge_empty_source:
  assumes "list_at w d cs xss" "xss \<noteq> []" "list_at w s [] []" "d \<noteq> s" "length xss < 2 ^ 64"
  shows "\<exists>w' h. list_merge d s w = Ok () w' \<and> lists w' d = Some h \<and> l_count h = length xss \<and> l_tail h = None \<and>
    list_pop v d w' = Fail (-1) w'"
proof -
  have c: "lists w d = Some (header cs)" "dseg (ents w) None cs None" "length cs = length xss"
    using assms(1) vals_length [of w cs xss] by (auto simp: list_at_def list_cells_def)
  have s: "lists w s = Some empty_list" using assms(3) by (simp add: list_at_def list_cells_def header_Nil)
  have ne: "cs \<noteq> []" using assms(2) c(3) by auto
  obtain ds t u where cs: "cs = ds @ [(t, u)]" using ne by (metis prod.exhaust rev_exhaust)
  have t: "ents w t = Some \<lparr>e_value = Some u, e_next = None, e_prev = last_addr None ds\<rparr>" using c(2) cs by simp
  have z: "sz (length cs) = length cs" using assms(5) c(3) by (simp add: sz_def)
  moreover have "sz 0 = 0" by (simp add: sz_def)
  ultimately show ?thesis
    using c s t ne assms(4) cs
    by (simp add: list_merge_def list_run header_def empty_list_def deref_def list_pop_def)
qed

theorem list_merge_empty_source_witness:
  "\<exists>w' h. list_merge 4 11 lmem = Ok () w' \<and> lists w' 4 = Some h \<and> l_count h = 3 \<and> l_tail h = None \<and>
    list_pop 2 4 w' = Fail (-1) w'"
  using list_merge_empty_source [OF lmem_at(1) _ lmem_at(2), of 2] by (simp add: numeral_3_eq_3)

end
