(* ===== verification/NC_List_Text_Props.thy ===== *)
theory NC_List_Text_Props
  imports NC_List_Text_Laws NC_List_Props
begin

text \<open>
  The properties of the conversions between lists and strings, with witnesses.
\<close>

section \<open>Serialisation\<close>

text \<open>
  C17. Deserialising what \<^verbatim>\<open>list_serialize\<close> wrote gives the list back, for every list of nonempty strings:
  spaces, line breaks and percent signs in the elements are preserved.
\<close>

theorem list_serialize_roundtrip:
  assumes "list_at w l cs xss" "str_has w s ys" "list_at w d ds zss" "s \<notin> snd ` set cs" "s \<notin> snd ` set ds" "d \<noteq> l"
    "xss \<noteq> []" "\<forall>xs\<in>set xss. xs \<noteq> [] \<and> NUL \<notin> set xs \<and> 3 * length xs < STRING_MAX"
    "length (escaped xss) + 1 < STRING_MAX" "length xss < 2 ^ 64" "mem_ok w" "wf_lh w"
  shows "\<exists>w1 w2 es. list_serialize s l w = Ok () w1 \<and> list_deserialize d s w1 = Ok () w2 \<and> list_at w2 d es xss"
proof -
  have "\<forall>xs\<in>set xss. NUL \<notin> set xs \<and> 3 * length xs < STRING_MAX" using assms(8) by blast
  then obtain w1 where w1: "list_serialize s l w = Ok () w1" "mod_lh {s} {} {} w w1" "str_has w1 s (escaped xss)" "wf_lh w1" "mem_ok w1"
    using list_serialize_ok [OF assms(1,2,4) _ assms(9-12)] by blast
  have d1: "list_at w1 d ds zss" by (rule list_at_frame [OF assms(3) w1(2)]) (use assms(5) in auto)
  have ne: "escaped xss \<noteq> []" using assms(7,8) by (cases xss) (auto simp: escaped_def)
  have ok: "\<forall>xs\<in>set xss. NUL \<notin> set xs \<and> length xs < STRING_MAX" "length (escaped xss) < STRING_MAX"
    using assms(8,9) by auto
  have "carry [] xss = xss" using assms(8) by (intro carry_nonempty) blast
  with list_deserialize_ok [OF w1(3) assms(5) d1 ne ok assms(10) w1(5,4)] w1(1) show ?thesis by auto
qed

theorem list_serialize_roundtrip_witness:
  "\<exists>w1 w2 es. list_serialize 2 4 lmem = Ok () w1 \<and> list_deserialize 12 2 w1 = Ok () w2 \<and> list_at w2 12 es [''b'', ''a'', ''c'']"
proof (rule list_serialize_roundtrip [OF lmem_at(1) lmem_has(3) lmem_at(3) _ _ _ _ _ _ _ lmem_wf(2,1)])
  have "length (escaped [''b'', ''a'', ''c'']) \<le> 11" by code_simp
  then show "length (escaped [''b'', ''a'', ''c'']) + 1 < STRING_MAX" by (simp add: STRING_MAX_def)
qed (simp_all add: STRING_MAX_def)

text \<open>
  An empty element does not survive the round trip: \<^verbatim>\<open>str_unescape\<close> leaves its destination alone when
  its source is empty, so \<^verbatim>\<open>list_deserialize\<close> repeats the element before it.
\<close>

theorem list_deserialize_repeats:
  assumes "str_has w s (escaped [x, []])" "s \<notin> snd ` set ds" "list_at w d ds yss" "x \<noteq> []" "NUL \<notin> set x"
    "length (escaped [x, []]) < STRING_MAX" "mem_ok w" "wf_lh w"
  shows "\<exists>w' es. list_deserialize d s w = Ok () w' \<and> list_at w' d es [x, x]"
proof -
  have "length x \<le> length (uri_escape x)" by (induction x) (simp_all add: pct_hex_def)
  then have len: "length x < STRING_MAX" using assms(6) by (simp add: escaped_def)
  have ok: "\<forall>xs\<in>set [x, []]. NUL \<notin> set xs \<and> length xs < STRING_MAX" "escaped [x, []] \<noteq> []" "length [x, []] < 2 ^ 64"
    using assms(5) len by (simp_all add: escaped_def STRING_MAX_def)
  have "carry [] [x, []] = [x, x]" using assms(4) by simp
  with list_deserialize_ok [OF assms(1-3) ok(2,1) assms(6) ok(3) assms(7,8)] show ?thesis by auto
qed

definition smem :: list_heap where
  "smem = lmem\<lparr>strs := (strs lmem)(2 \<mapsto> lit_str ''one '')\<rparr>"

theorem list_deserialize_repeats_witness:
  "\<exists>w' es. list_deserialize 12 2 smem = Ok () w' \<and> list_at w' 12 es [''one'', ''one'']"
proof (rule list_deserialize_repeats)
  have e: "escaped [''one'', []] = ''one ''" by code_simp
  show "str_has smem 2 (escaped [''one'', []])"
    unfolding e by (rule lit_str_has) (simp_all add: smem_def STRING_MAX_def)
  show "list_at smem 12 [(13, 14)] [''z'']"
    by (rule list_at_frame [OF lmem_at(3), of "{2}" "{}" "{}"]) (simp_all add: smem_def mod_lh_def)
  show "length (escaped [''one'', []]) < STRING_MAX" unfolding e by (simp add: STRING_MAX_def)
  show "mem_ok smem" "wf_lh smem"
    using lmem_wf by (auto simp: smem_def mem_ok_def wf_lh_def wf_strs_def lmem_def split: if_splits)
qed simp_all

section \<open>Splitting and joining\<close>





end
