(* ===== verification/NC_Regex_Props.thy ===== *)
theory NC_Regex_Props
  imports NC_Regex NC_String_Props
begin

text \<open>
  The properties of the regular expression functions, with witnesses that use a matcher for a single
  literal.
\<close>

section \<open>A concrete matcher and memory\<close>

text \<open>
  \<open>find_at\<close> is the position of the first occurrence of a text. The matcher takes the pattern literally and
  reports the whole match \<open>n\<close> times more, as the groups of a pattern with \<open>n\<close> pairs of parentheses around
  it would be (sixteen positions at most, the size of the array it is given).
\<close>

fun find_at :: "string \<Rightarrow> string \<Rightarrow> nat option" where
  "find_at p [] = (if p = [] then Some 0 else None)"
| "find_at p (x # xs) = (if is_prefix p (x # xs) then Some 0 else map_option Suc (find_at p xs))"

definition lit_rx :: "nat \<Rightarrow> string regex_lib" where
  "lit_rx n = \<lparr>rx_comp = (\<lambda>p nosub. Inr p), rx_nsub = (\<lambda>p. n),
     rx_exec = (\<lambda>p cs. case find_at p cs of None \<Rightarrow> RxNoMatch
       | Some i \<Rightarrow> RxMatch (replicate (min 16 (n + 1)) (int i, int (i + length p))))\<rparr>"

definition rmem :: heap where
  "rmem = \<lparr>strs = (\<lambda>a. if a = 0 then Some (lit_str ''a-b-c'') else if a < 20 then Some (lit_str []) else None),
     brk = 20, malloc_ok = (\<lambda>_ _. True)\<rparr>"

lemma rmem_has: "str_has rmem 0 ''a-b-c''" "0 < a \<Longrightarrow> a < 20 \<Longrightarrow> str_has rmem a []"
  by (rule lit_str_has; simp add: rmem_def STRING_MAX_def)+

lemma rmem_wf: "wf_strs rmem" "mem_ok rmem"
  by (auto simp: wf_strs_def rmem_def mem_ok_def split: if_splits)

section \<open>Substitution\<close>

text \<open>
  \<^verbatim>\<open>str_subst_regex\<close> replaces the first match and nothing else: later matches of the pattern stay in the
  text, although the function that does the work is called \<^verbatim>\<open>regex_replace_all\<close>.
\<close>

theorem str_subst_regex_first:
  assumes "str_has w s xs" "NUL \<notin> set xs" "mem_ok w" "wf_strs w" "NUL \<notin> set rep"
    "rx_comp rx pat False = Inr preg" "rx_exec rx preg xs = RxMatch ((so, eo) # ms)" "rx_within xs (so, eo)"
    "length xs + length rep < STRING_MAX"
  shows "\<exists>w'. str_subst_regex rx s pat (CLit rep) w = Ok () w' \<and> str_has w' s (take (nat so) xs @ rep @ drop (nat eo) xs)"
proof -
  have "length xs < STRING_MAX" using assms(9) by simp
  from str_subst_regex_ok [OF assms(1,2) this assms(3-9)] show ?thesis using str_upd_has by blast
qed

theorem str_subst_regex_first_witness:
  "\<exists>w'. str_subst_regex (lit_rx 0) 0 ''-'' (CLit ''+'') rmem = Ok () w' \<and>
    str_has w' 0 (take (nat (int 1)) ''a-b-c'' @ ''+'' @ drop (nat (int 2)) ''a-b-c'')"
  by (rule str_subst_regex_first [OF rmem_has(1) _ rmem_wf(2,1), where preg = "''-''" and ms = "[]"]) (simp_all add: lit_rx_def rx_within_def STRING_MAX_def)

section \<open>Groups\<close>

text \<open>
  On a match, \<^verbatim>\<open>str_str_regex\<close> copies the text of every group, in order, into the strings it is given, for
  patterns with at most fifteen groups.
\<close>

theorem str_str_regex_groups:
  assumes "str_has w src xs" "NUL \<notin> set xs" "length xs < STRING_MAX" "mem_ok w" "rx_comp rx pat False = Inr preg"
    "rx_exec rx preg xs = RxMatch pm" "length dests = rx_nsub rx preg" "rx_nsub rx preg < 16" "rx_nsub rx preg < length pm"
    "distinct dests" "src \<notin> set dests" "\<forall>d\<in>set dests. \<exists>y. str_has w d y" "\<forall>m\<in>set (tl pm). rx_within xs m"
  shows "\<exists>w'. str_str_regex rx src pat dests w = Ok () w' \<and>
    list_all2 (str_has w') dests (map (rx_group xs) (take (rx_nsub rx preg) (tl pm)))"
proof -
  let ?n = "rx_nsub rx preg"
  have in_tl: "pm ! j = tl pm ! (j - 1)" if "1 \<le> j" "j < length pm" for j using that by (cases pm) (auto simp: nth_Cons')
  have "rx_within xs (pm ! j)" if j: "j \<in> {1..<1 + ?n}" for j
  proof -
    have "j - 1 < length (tl pm)" using j assms(9) by auto
    then have "tl pm ! (j - 1) \<in> set (tl pm)" by (rule nth_mem)
    then show ?thesis using in_tl [of j] j assms(9,13) by simp
  qed
  then have wi: "\<forall>j\<in>{1..<1 + ?n}. rx_within xs (pm ! j)" by blast
  have sz: "1 + ?n \<le> 16" "1 + ?n \<le> length pm" using assms(8,9) by simp_all
  obtain w' where w': "str_str_regex_loop ?n 1 src pm dests w = Ok () w'"
      "list_all2 (\<lambda>d j. str_has w' d (rx_group xs (pm ! j))) dests [1..<1 + ?n]"
    using str_str_regex_loop_ok [OF assms(1,3,4,7) sz assms(10-12) wi] by blast
  have "str_has w' (dests ! i) (map (rx_group xs) (take ?n (tl pm)) ! i)" if "i < ?n" for i
  proof -
    have "[1..<1 + ?n] ! i = Suc i" using that by (simp add: nth_upt del: upt_Suc)
    then have "str_has w' (dests ! i) (rx_group xs (pm ! Suc i))" using list_all2_nthD [OF w'(2), of i] that assms(7) by (simp del: upt_Suc)
    then show ?thesis using in_tl [of "Suc i"] that assms(9) by simp
  qed
  then have "list_all2 (str_has w') dests (map (rx_group xs) (take ?n (tl pm)))"
    using assms(7,9) by (auto simp: list_all2_conv_all_nth)
  moreover have "str_str_regex rx src pat dests w = Ok () w'"
    using str_str_regex_eval [OF assms(1,2,5) _ assms(6)] assms(8) w'(1) by simp
  ultimately show ?thesis by blast
qed

theorem str_str_regex_groups_witness:
  "\<exists>w'. str_str_regex (lit_rx 1) 0 ''b'' [1] rmem = Ok () w' \<and>
    list_all2 (str_has w') [1] (map (rx_group ''a-b-c'') (take (rx_nsub (lit_rx 1) ''b'') (tl [(2, 3), (2, 3)])))"
  by (rule str_str_regex_groups [OF rmem_has(1) _ _ rmem_wf(2)])
    (use rmem_has(2) [of 1] in \<open>auto simp: lit_rx_def rx_within_def STRING_MAX_def\<close>)

text \<open>
  A pattern with sixteen groups passes the limit that \<^verbatim>\<open>str_str_regex\<close> checks, but the array of positions has
  sixteen elements, one of which is the whole match: the last group is read behind the end of the array.
\<close>

theorem str_str_regex_overrun:
  assumes "str_has w src xs" "NUL \<notin> set xs" "length xs < STRING_MAX" "mem_ok w" "rx_comp rx pat False = Inr preg"
    "rx_exec rx preg xs = RxMatch pm" "rx_nsub rx preg = 16" "length dests = 16" "length pm = 16"
    "distinct dests" "src \<notin> set dests" "\<forall>d\<in>set dests. \<exists>y. str_has w d y" "\<forall>m\<in>set pm. rx_within xs m"
  shows "str_str_regex rx src pat dests w = Fault OutOfBounds"
  using str_str_regex_eval [OF assms(1,2,5) _ assms(6), of dests] assms(7)
    str_str_regex_loop_overrun [of w src xs dests 16 1 pm] assms(1,3,4,8-13) by simp

theorem str_str_regex_overrun_witness:
  "str_str_regex (lit_rx 16) 0 ''b'' [1..<17] rmem = Fault OutOfBounds"
proof (rule str_str_regex_overrun [OF rmem_has(1) _ _ rmem_wf(2), where pm = "replicate 16 (2, 3)" and preg = "''b''"])
  show "\<forall>d\<in>set [1..<17]. \<exists>y. str_has rmem d y"
  proof
    fix d assume "d \<in> set [1..<17 :: nat]"
    then have "str_has rmem d []" by (intro rmem_has(2)) auto
    then show "\<exists>y. str_has rmem d y" by blast
  qed
qed (auto simp: lit_rx_def rx_within_def STRING_MAX_def)

end
