(* ===== verification/NC_System.thy ===== *)
theory NC_System
  imports NC_List_Text_Laws NC_Hash
begin

text \<open>
  The operating system as the library sees it, and the components that only wrap its calls:
  the queries of the user database (src/passwd.c) and the file operations that the sockets use
  (src/file.c). The system calls are a parameter of the model, the record \<open>os\<close>: each takes and
  returns the state of the system, of an arbitrary type, and answers with a result or with the
  value of \<^verbatim>\<open>errno\<close>. The heap is extended by the state of the system.
\<close>

section \<open>The operating system\<close>

datatype errno = EINTR | EAGAIN | EBADF | EINPROGRESS | ECONNABORTED | EADDRINUSE | ENOENT | Errno nat

record socket_addr_t =
  sa_family :: nat
  sin_port :: nat
  sin_addr :: in_addr
  sun_path :: string

text \<open>The fields of \<^verbatim>\<open>struct stat\<close> that the library reads\<close>

record statbuf =
  b_uid :: nat
  b_gid :: nat
  b_size :: int
  b_mode :: nat
  b_mtime :: int

type_synonym ('r, 'k) syscall = "'k \<Rightarrow> (errno + 'r) \<times> 'k"

text \<open>
  \<open>sys_select\<close> gets which of the three sets contain the descriptor, and the timeout; it answers \<open>None\<close>
  when the time is over, and otherwise in which of the sets the descriptor is ready. \<open>sys_timeo\<close> is
  \<^verbatim>\<open>setsockopt\<close> with \<^verbatim>\<open>SO_RCVTIMEO\<close> (\<open>True\<close>) or \<^verbatim>\<open>SO_SNDTIMEO\<close>, \<open>sys_reuse\<close> with \<^verbatim>\<open>SO_REUSEADDR\<close>,
  \<open>sys_peercred\<close> is \<^verbatim>\<open>getsockopt\<close> with \<^verbatim>\<open>SO_PEERCRED\<close>. The queries of the user database
  (getpwnam_r(3), getpwuid_r(3), getgrnam_r(3), getgrgid_r(3)) answer \<open>None\<close> when there is no such
  entry; after an error their result pointer is NULL as well.
\<close>

record 'k os =
  sys_read :: "int \<Rightarrow> nat \<Rightarrow> (string, 'k) syscall"
  sys_write :: "int \<Rightarrow> string \<Rightarrow> (nat, 'k) syscall"
  sys_close :: "int \<Rightarrow> (unit, 'k) syscall"
  sys_socket :: "int \<Rightarrow> (int, 'k) syscall"
  sys_timeo :: "int \<Rightarrow> bool \<Rightarrow> int \<Rightarrow> (unit, 'k) syscall"
  sys_reuse :: "int \<Rightarrow> (unit, 'k) syscall"
  sys_nonblock :: "int \<Rightarrow> bool \<Rightarrow> (unit, 'k) syscall"
  sys_bind :: "int \<Rightarrow> socket_addr_t \<Rightarrow> (unit, 'k) syscall"
  sys_connect :: "int \<Rightarrow> socket_addr_t \<Rightarrow> (unit, 'k) syscall"
  sys_listen :: "int \<Rightarrow> nat \<Rightarrow> (unit, 'k) syscall"
  sys_accept :: "int \<Rightarrow> (int, 'k) syscall"
  sys_getpeername :: "int \<Rightarrow> (socket_addr_t, 'k) syscall"
  sys_select :: "int \<Rightarrow> bool \<times> bool \<times> bool \<Rightarrow> int option \<Rightarrow> ((bool \<times> bool \<times> bool) option, 'k) syscall"
  sys_peercred :: "int \<Rightarrow> (nat \<times> nat, 'k) syscall"
  sys_stat :: "string \<Rightarrow> (statbuf, 'k) syscall"
  sys_unlink :: "string \<Rightarrow> (unit, 'k) syscall"
  sys_chmod :: "string \<Rightarrow> nat \<Rightarrow> (unit, 'k) syscall"
  sys_chown :: "string \<Rightarrow> nat \<Rightarrow> nat \<Rightarrow> (unit, 'k) syscall"
  sys_getuid :: nat
  inet_addr :: "string \<Rightarrow> in_addr"
  getpwnam :: "string \<Rightarrow> (nat option, 'k) syscall"
  getpwuid :: "nat \<Rightarrow> (string option, 'k) syscall"
  getgrnam :: "string \<Rightarrow> (nat option, 'k) syscall"
  getgrgid :: "nat \<Rightarrow> (string option, 'k) syscall"

definition PF_LOCAL :: int where "PF_LOCAL = 1"
definition PF_INET :: int where "PF_INET = 2"

section \<open>System calls\<close>

record 'k sys_heap = hash_heap +
  kern :: 'k

type_synonym ('a, 'k, 'z) ync = "('k, 'z) sys_heap_scheme \<Rightarrow> ('a, ('k, 'z) sys_heap_scheme) outcome"

text \<open>A system call: the result, and the new state of the system.\<close>

definition syscall :: "('r, 'k) syscall \<Rightarrow> (errno + 'r, 'k, 'z) ync" where
  "syscall f w = (case f (kern w) of (r, k) \<Rightarrow> Ok r (w\<lparr>kern := k\<rparr>))"

text \<open>\<^verbatim>\<open>if (call < 0) throw\<close>, in functions without automatic variables\<close>

definition sys_try :: "('r, 'k) syscall \<Rightarrow> ('r, 'k, 'z) ync" where
  "sys_try f = nc_bind (syscall f) (\<lambda>r. case r of Inl e \<Rightarrow> nc_throw | Inr x \<Rightarrow> nc_return x)"

text \<open>\<^verbatim>\<open>throw_errno\<close> in a function with one automatic string\<close>

definition throw_destroy :: "nat \<Rightarrow> ('a, 'z) nc" where
  "throw_destroy s = nc_bind (str_destroy (Some s)) (\<lambda>_. nc_throw)"

section \<open>Files\<close>

definition file_chmod :: "'k os \<Rightarrow> nat \<Rightarrow> nat \<Rightarrow> (unit, 'k, 'z) ync" where
  "file_chmod os path mode = nc_bind (cread (CVal path 0)) (\<lambda>p. sys_try (sys_chmod os p mode))"

definition file_exists :: "'k os \<Rightarrow> nat \<Rightarrow> (bool, 'k, 'z) ync" where
  "file_exists os path =
     nc_bind (cread (CVal path 0)) (\<lambda>p.
     nc_bind (syscall (sys_stat os p)) (\<lambda>r. case r of
       Inl e \<Rightarrow> if e = ENOENT then nc_return False else nc_throw
     | Inr _ \<Rightarrow> nc_return True))"

definition file_unlink :: "'k os \<Rightarrow> nat \<Rightarrow> (unit, 'k, 'z) ync" where
  "file_unlink os path = nc_bind (cread (CVal path 0)) (\<lambda>p. sys_try (sys_unlink os p))"

section \<open>Users and groups\<close>

text \<open>
  The functions getpwnam_r(3) and the others return a positive number for an error, so the tests
  \<^verbatim>\<open>< 0\<close> of the callers never hold; the result pointer tells whether there was an entry.
\<close>

definition sys_query :: "('r option, 'k) syscall \<Rightarrow> ('r option, 'k, 'z) ync" where
  "sys_query f = nc_bind (syscall f) (\<lambda>r. nc_return (case r of Inl e \<Rightarrow> None | Inr x \<Rightarrow> x))"

definition passwd_get_id_by_name :: "'k os \<Rightarrow> nat \<Rightarrow> (nat, 'k, 'z) ync" where
  "passwd_get_id_by_name os name =
     nc_bind (cread (CVal name 0)) (\<lambda>n.
     nc_bind (sys_query (getpwnam os n)) (\<lambda>r. case r of None \<Rightarrow> nc_throw | Some uid \<Rightarrow> nc_return uid))"

definition passwd_exists :: "'k os \<Rightarrow> nat \<Rightarrow> (bool, 'k, 'z) ync" where
  "passwd_exists os name =
     nc_catch (passwd_get_id_by_name os name) (\<lambda>_. nc_return True) (\<lambda>_. nc_return False)"

text \<open>The result is the new value of \<^verbatim>\<open>*gid\<close>.\<close>

definition group_get_gev :: "'k os \<Rightarrow> bool \<Rightarrow> nat \<Rightarrow> nat \<Rightarrow> (nat, 'k, 'z) ync" where
  "group_get_gev os by_name gid name =
     nc_catch (str_cmp name (CLit ''root'')) (\<lambda>_. nc_return 0) (\<lambda>_.
     nc_catch (str_cmp name (CLit ''wheel'')) (\<lambda>_. nc_return 0) (\<lambda>_.
     if by_name
     then nc_bind (cread (CVal name 0)) (\<lambda>n.
       nc_bind (sys_query (getgrnam os n)) (\<lambda>r. case r of None \<Rightarrow> nc_throw | Some g \<Rightarrow> nc_return g))
     else nc_bind (sys_query (getgrgid os gid)) (\<lambda>r. case r of None \<Rightarrow> nc_throw
       | Some n \<Rightarrow> nc_bind (str_cpy name (CLit n)) (\<lambda>_. nc_return gid))))"

definition group_get_id_by_name :: "'k os \<Rightarrow> nat \<Rightarrow> (nat, 'k, 'z) ync" where
  "group_get_id_by_name os name = nc_catch (group_get_gev os True 0 name) nc_return (\<lambda>_. nc_throw)"

definition group_get_name_by_id :: "'k os \<Rightarrow> nat \<Rightarrow> nat \<Rightarrow> (unit, 'k, 'z) ync" where
  "group_get_name_by_id os name gid = nc_bind (group_get_gev os False gid name) (\<lambda>_. nc_return ())"

definition group_exists :: "'k os \<Rightarrow> nat \<Rightarrow> (bool, 'k, 'z) ync" where
  "group_exists os name =
     nc_catch (group_get_id_by_name os name) (\<lambda>_. nc_return True) (\<lambda>_. nc_return False)"

text \<open>The result pointer is used without a test.\<close>

definition passwd_get_name_by_id :: "'k os \<Rightarrow> nat \<Rightarrow> nat \<Rightarrow> (unit, 'k, 'z) ync" where
  "passwd_get_name_by_id os name uid =
     nc_bind (sys_query (getpwuid os uid)) (\<lambda>r. case r of None \<Rightarrow> nc_fault NullDeref
       | Some n \<Rightarrow> str_cpy name (CLit n))"

text \<open>So the name of an unknown user identifier is an access through a NULL pointer.\<close>

lemma passwd_get_name_by_id_unknown:
  assumes "fst (getpwuid os uid (kern w)) = Inr None"
  shows "passwd_get_name_by_id os name uid w = Fault NullDeref"
  using assms by (cases "getpwuid os uid (kern w)") (simp add: passwd_get_name_by_id_def sys_query_def syscall_def nc_simps)

definition passwd_get_symbolic_uid :: "nat \<Rightarrow> nat \<Rightarrow> nat \<Rightarrow> (unit, 'z) hnc" where
  "passwd_get_symbolic_uid dest tab uid =
     nc_bind (str_new None) (\<lambda>uid_str.
     nc_bind (str_new None) (\<lambda>result.
     nc_bind (str_sprintf uid_str ''%u'' [PInt (int uid)]) (\<lambda>_.
     nc_bind (hash_get result tab (CVal uid_str 0)) (\<lambda>_.
     nc_bind (str_copy dest result) (\<lambda>_.
     nc_bind (str_destroy (Some uid_str)) (\<lambda>_.
     str_destroy (Some result)))))))"

end
