(* ===== verification/NC_Socket.thy ===== *)
theory NC_Socket
  imports NC_System
begin

text \<open>
  The socket component (src/socket.c, src/nc_socket.h), compiled without OpenSSL. The heap is
  extended by socket objects.

  The flags of \<^verbatim>\<open>status\<close> are signed one-bit fields, so a flag that is set reads as -1; the code
  only tests them, except in \<open>socket_set_blocking_mode\<close>. No code writes one member of the union
  \<^verbatim>\<open>socket_addr_t\<close> and reads another (except the family, which all members share), so the members
  are separate fields here. Functions that call a constructor on a field store the address
  when the constructor succeeds; after a failure they return at once.
\<close>

unbundle bit_operations_syntax

section \<open>Objects\<close>

datatype direction = UNKNOWN | LISTEN | CONNECT

record socket_t =
  so_local :: socket_addr_t
  so_remote :: socket_addr_t
  so_direction :: direction
  so_connected :: bool
  so_non_blocking :: bool
  so_fragmented :: bool
  so_read :: bool
  so_write :: bool
  so_exception :: bool
  so_timeout :: bool
  so_fd :: int
  so_family :: int
  so_uid :: nat
  so_gid :: nat
  so_mode :: nat
  so_read_buf :: "nat option"

definition zero_addr :: socket_addr_t where
  "zero_addr = \<lparr>sa_family = 0, sin_port = 0, sin_addr = (0, 0, 0, 0), sun_path = []\<rparr>"

definition zero_socket :: socket_t where
  "zero_socket = \<lparr>so_local = zero_addr, so_remote = zero_addr, so_direction = UNKNOWN, so_connected = False,
     so_non_blocking = False, so_fragmented = False, so_read = False, so_write = False, so_exception = False,
     so_timeout = False, so_fd = 0, so_family = 0, so_uid = 0, so_gid = 0, so_mode = 0, so_read_buf = None\<rparr>"

record 'k sock_heap = "'k sys_heap" +
  socks :: "nat \<Rightarrow> socket_t option"

type_synonym ('a, 'k, 'z) snc = "('k, 'z) sock_heap_scheme \<Rightarrow> ('a, ('k, 'z) sock_heap_scheme) outcome"

definition SIZEOF_SOCKET_T :: nat where "SIZEOF_SOCKET_T = 264"

definition get_sock :: "nat \<Rightarrow> (socket_t, 'k, 'z) snc" where
  "get_sock a w = (case socks w a of None \<Rightarrow> Fault BadAddr | Some s \<Rightarrow> Ok s w)"

definition upd_sock :: "nat \<Rightarrow> (socket_t \<Rightarrow> socket_t) \<Rightarrow> (unit, 'k, 'z) snc" where
  "upd_sock a f w = (case socks w a of None \<Rightarrow> Fault BadAddr
     | Some s \<Rightarrow> Ok () (w\<lparr>socks := (socks w)(a \<mapsto> f s)\<rparr>))"

definition free_sock :: "nat \<Rightarrow> (unit, 'k, 'z) snc" where
  "free_sock a w = (case socks w a of None \<Rightarrow> Fault BadFree
     | Some _ \<Rightarrow> Ok () (w\<lparr>socks := (socks w)(a := None)\<rparr>))"

definition calloc_sock :: "nat option \<Rightarrow> (nat, 'k, 'z) snc" where
  "calloc_sock dest w =
     (if dest \<noteq> None then Fail (-1) w
      else if malloc_ok w (brk w) SIZEOF_SOCKET_T
      then Ok (brk w) (w\<lparr>socks := (socks w)(brk w \<mapsto> zero_socket), brk := Suc (brk w)\<rparr>)
      else Fail (-1) (w\<lparr>brk := Suc (brk w)\<rparr>))"

section \<open>Construction and destruction\<close>

definition socket_new :: "nat option \<Rightarrow> (nat, 'k, 'z) snc" where
  "socket_new dest =
     nc_bind (calloc_sock dest) (\<lambda>s.
     nc_bind (get_sock s) (\<lambda>t.
     nc_bind (list_new (so_read_buf t)) (\<lambda>l.
     nc_bind (upd_sock s (\<lambda>t. t\<lparr>so_read_buf := Some l, so_fd := -1, so_direction := UNKNOWN, so_family := -1,
       so_local := (so_local t)\<lparr>sa_family := 65535\<rparr>\<rparr>)) (\<lambda>_. nc_return s))))"

definition socket_destroy :: "nat option \<Rightarrow> (unit, 'k, 'z) snc" where
  "socket_destroy s = (case s of None \<Rightarrow> nc_return ()
     | Some cur \<Rightarrow> nc_bind (get_sock cur) (\<lambda>t.
         nc_bind (list_destroy (so_read_buf t)) (\<lambda>_.
         nc_bind (upd_sock cur (\<lambda>t. t\<lparr>so_read_buf := None\<rparr>)) (\<lambda>_. free_sock cur))))"

text \<open>\<^verbatim>\<open>sa_family\<close> is an unsigned 16-bit integer.\<close>

definition socket_set_family :: "nat \<Rightarrow> int \<Rightarrow> (unit, 'k, 'z) snc" where
  "socket_set_family sock family =
     nc_bind (get_sock sock) (\<lambda>s.
     if 0 \<le> so_family s then nc_throw
     else upd_sock sock (\<lambda>s. s\<lparr>so_family := family, so_local := (so_local s)\<lparr>sa_family := nat (family mod 65536)\<rparr>\<rparr>))"

text \<open>Without OpenSSL the function always throws.\<close>

definition socket_starttls :: "nat \<Rightarrow> (unit, 'k, 'z) snc" where
  "socket_starttls s = nc_throw"

section \<open>Ports and binding\<close>

text \<open>htons(3) on a little-endian machine\<close>

definition htons :: "nat \<Rightarrow> nat" where
  "htons n = (n mod 256) * 256 + (n div 256) mod 256"

definition socket_new_inet :: "'k os \<Rightarrow> nat \<Rightarrow> nat \<Rightarrow> int \<Rightarrow> (unit, 'k, 'z) snc" where
  "socket_new_inet os s address port =
     (let port' = (if port \<le> 1024 \<and> 0 < sys_getuid os then port + 10000 else port) in
      nc_bind (upd_sock s (\<lambda>t. t\<lparr>so_local := (so_local t)\<lparr>sin_port := htons (nat (port' mod 65536))\<rparr>,
        so_direction := UNKNOWN, so_family := PF_INET\<rparr>)) (\<lambda>_.
      nc_bind (str_to_inet (inet_addr os) address) (\<lambda>a.
      upd_sock s (\<lambda>t. t\<lparr>so_local := (so_local t)\<lparr>sin_addr := a\<rparr>\<rparr>))))"

definition socket_bind_inet :: "'k os \<Rightarrow> nat \<Rightarrow> (unit, 'k, 'z) snc" where
  "socket_bind_inet os s =
     nc_bind (get_sock s) (\<lambda>t.
     nc_bind (nc_when (0 < sys_getuid os \<and> sin_port (so_local t) \<le> 1024)
       (upd_sock s (\<lambda>t. t\<lparr>so_local := (so_local t)\<lparr>sin_port := (sin_port (so_local t) + 1000) mod 65536\<rparr>\<rparr>))) (\<lambda>_.
     nc_bind (get_sock s) (\<lambda>t. sys_try (sys_bind os (so_fd t) (so_local t)))))"

text \<open>\<^verbatim>\<open>if ((s->fd = socket(s->family, SOCK_STREAM, 0)) < 0) throw\<close>\<close>

definition open_socket :: "'k os \<Rightarrow> nat \<Rightarrow> (unit, 'k, 'z) snc" where
  "open_socket os s =
     nc_bind (get_sock s) (\<lambda>t.
     nc_bind (syscall (sys_socket os (so_family t))) (\<lambda>r. case r of
       Inl e \<Rightarrow> nc_bind (upd_sock s (\<lambda>t. t\<lparr>so_fd := -1\<rparr>)) (\<lambda>_. nc_throw)
     | Inr fd \<Rightarrow> upd_sock s (\<lambda>t. t\<lparr>so_fd := fd\<rparr>)))"

definition socket_local_operation :: "'k os \<Rightarrow> nat \<Rightarrow> (unit, 'k, 'z) snc" where
  "socket_local_operation os s = with_local_str EMPTY_STRING (\<lambda>path.
     nc_bind (open_socket os s) (\<lambda>_.
     nc_bind (get_sock s) (\<lambda>t.
     case so_direction t of
       LISTEN \<Rightarrow>
         nc_bind (str_alias path (CLit (sun_path (so_local t)))) (\<lambda>_.
         nc_bind (file_exists os path) (\<lambda>exists.
         nc_bind (nc_when exists (file_unlink os path)) (\<lambda>_.
         nc_bind (sys_try (sys_bind os (so_fd t) (so_local t))) (\<lambda>_.
         nc_bind (sys_try (sys_chown os (sun_path (so_local t)) (so_uid t) (so_gid t))) (\<lambda>_.
         file_chmod os path (so_mode t))))))
     | CONNECT \<Rightarrow>
         nc_bind (sys_try (sys_connect os (so_fd t) (so_local t))) (\<lambda>_.
         upd_sock s (\<lambda>t. t\<lparr>so_connected := True\<rparr>))
     | UNKNOWN \<Rightarrow> nc_throw)))"

text \<open>\<^verbatim>\<open>sun_path\<close> has 108 bytes; strncpy(3) copies 107 of them at most.\<close>

definition socket_bind :: "'k os \<Rightarrow> nat \<Rightarrow> nat \<Rightarrow> int \<Rightarrow> (unit, 'k, 'z) snc" where
  "socket_bind os s address port =
     nc_bind (get_sock s) (\<lambda>t.
     nc_bind (if so_family t = PF_INET then socket_new_inet os s address port
       else if so_family t = PF_LOCAL
       then nc_bind (cread (CVal address 0)) (\<lambda>p.
         upd_sock s (\<lambda>t. t\<lparr>so_local := (so_local t)\<lparr>sun_path := take 107 p\<rparr>\<rparr>))
       else nc_throw) (\<lambda>_.
     nc_bind (upd_sock s (\<lambda>t. t\<lparr>so_direction := LISTEN\<rparr>)) (\<lambda>_.
     nc_bind (open_socket os s) (\<lambda>_.
     nc_bind (get_sock s) (\<lambda>t.
     nc_bind (syscall (sys_reuse os (so_fd t))) (\<lambda>_.
     nc_bind (if so_family t = PF_INET then socket_bind_inet os s
       else if so_family t = PF_LOCAL then socket_local_operation os s
       else nc_throw) (\<lambda>_.
     nc_bind (get_sock s) (\<lambda>t. sys_try (sys_listen os (so_fd t) 300)))))))))"

section \<open>Options\<close>

definition socket_set_timeout :: "'k os \<Rightarrow> nat \<Rightarrow> int \<Rightarrow> int \<Rightarrow> (unit, 'k, 'z) snc" where
  "socket_set_timeout os sock read_sec write_sec =
     nc_bind (get_sock sock) (\<lambda>s.
     nc_bind (sys_try (sys_timeo os (so_fd s) True read_sec)) (\<lambda>_.
     sys_try (sys_timeo os (so_fd s) False write_sec)))"

definition socket_set_credentials :: "'k os \<Rightarrow> nat \<Rightarrow> nat \<Rightarrow> nat \<Rightarrow> nat \<Rightarrow> (unit, 'k, 'z) snc" where
  "socket_set_credentials os sock user grp mode =
     nc_bind (get_sock sock) (\<lambda>s.
     if so_family s \<noteq> PF_LOCAL then nc_throw
     else if so_direction s = CONNECT then nc_throw
     else if so_connected s then nc_throw
     else nc_bind (passwd_get_id_by_name os user) (\<lambda>uid.
       nc_bind (upd_sock sock (\<lambda>s. s\<lparr>so_uid := uid\<rparr>)) (\<lambda>_.
       nc_bind (group_get_id_by_name os grp) (\<lambda>gid.
       upd_sock sock (\<lambda>s. s\<lparr>so_gid := gid, so_mode := mode\<rparr>)))))"

text \<open>The field, a signed bit, is compared with the parameter, which is 0 or 1.\<close>

definition socket_set_blocking_mode :: "'k os \<Rightarrow> nat \<Rightarrow> bool \<Rightarrow> (unit, 'k, 'z) snc" where
  "socket_set_blocking_mode os sock enabled =
     nc_bind (get_sock sock) (\<lambda>s.
     nc_when ((if so_non_blocking s then -1 else 0 :: int) \<noteq> (if enabled then 1 else 0))
       (nc_bind (sys_try (sys_nonblock os (so_fd s) enabled)) (\<lambda>_.
        upd_sock sock (\<lambda>s. s\<lparr>so_non_blocking := enabled\<rparr>))))"

section \<open>Accepting and waiting\<close>

text \<open>
  The call is repeated while signals interrupt it; \<open>n\<close> bounds the number of calls. The result is \<open>None\<close>
  for an error, and otherwise whether there is a connection.
\<close>

primrec accept_loop :: "nat \<Rightarrow> 'k os \<Rightarrow> nat \<Rightarrow> nat \<Rightarrow> (bool option, 'k, 'z) snc" where
  "accept_loop 0 os dest src = nc_fault Diverge"
| "accept_loop (Suc n) os dest src =
     nc_bind (get_sock src) (\<lambda>t.
     nc_bind (syscall (sys_accept os (so_fd t))) (\<lambda>r. case r of
       Inr fd \<Rightarrow> nc_bind (upd_sock dest (\<lambda>t. t\<lparr>so_fd := fd\<rparr>)) (\<lambda>_. nc_return (Some True))
     | Inl e \<Rightarrow> nc_bind (upd_sock dest (\<lambda>t. t\<lparr>so_fd := -1\<rparr>)) (\<lambda>_.
         if e = EINTR then accept_loop n os dest src
         else if e = ECONNABORTED
         then nc_bind (upd_sock dest (\<lambda>t. t\<lparr>so_connected := False\<rparr>)) (\<lambda>_. nc_return (Some False))
         else nc_return None)))"

definition socket_accept :: "'k os \<Rightarrow> nat \<Rightarrow> nat \<Rightarrow> nat \<Rightarrow> (unit, 'k, 'z) snc" where
  "socket_accept os n dest src =
     nc_bind (str_new None) (\<lambda>buf.
     nc_bind (accept_loop n os dest src) (\<lambda>r. case r of
       None \<Rightarrow> nc_bind (str_destroy (Some buf)) (\<lambda>_. nc_throw)
     | Some False \<Rightarrow> str_destroy (Some buf)
     | Some True \<Rightarrow>
         nc_bind (get_sock src) (\<lambda>t.
         nc_bind (upd_sock dest (\<lambda>d. d\<lparr>so_connected := True, so_direction := CONNECT, so_family := so_family t\<rparr>)) (\<lambda>_.
         if so_family t = PF_INET
         then nc_bind (get_sock dest) (\<lambda>d.
           nc_bind (syscall (sys_getpeername os (so_fd d))) (\<lambda>p. case p of
             Inl e \<Rightarrow> nc_bind (str_destroy (Some buf)) (\<lambda>_. nc_throw)
           | Inr a \<Rightarrow> nc_bind (upd_sock dest (\<lambda>d. d\<lparr>so_remote := a\<rparr>)) (\<lambda>_.
               nc_bind (str_from_inet buf (sin_addr a)) (\<lambda>_. str_destroy (Some buf)))))
         else str_destroy (Some buf)))))"

text \<open>
  \<^verbatim>\<open>FD_SET\<close> is defined for descriptors from 0 to \<^verbatim>\<open>FD_SETSIZE - 1\<close>. The flags are bit masks; the call
  is repeated while signals interrupt it.
\<close>

definition SOCK_READ :: nat where "SOCK_READ = 1"
definition SOCK_WRITE :: nat where "SOCK_WRITE = 16"
definition SOCK_EXCEPTION :: nat where "SOCK_EXCEPTION = 256"
definition FD_SETSIZE :: int where "FD_SETSIZE = 1024"

primrec select_loop :: "nat \<Rightarrow> 'k os \<Rightarrow> nat \<Rightarrow> bool \<times> bool \<times> bool \<Rightarrow> int \<Rightarrow> (unit, 'k, 'z) snc" where
  "select_loop 0 os s want timeout = nc_fault Diverge"
| "select_loop (Suc n) os s want timeout =
     nc_bind (get_sock s) (\<lambda>t.
     nc_bind (syscall (sys_select os (so_fd t) want (if 0 \<le> timeout then Some timeout else None))) (\<lambda>r. case r of
       Inl e \<Rightarrow> if e = EINTR then select_loop n os s want timeout else nc_throw
     | Inr None \<Rightarrow> upd_sock s (\<lambda>t. t\<lparr>so_timeout := True\<rparr>)
     | Inr (Some (rd, wr, ex)) \<Rightarrow> (case want of (wrd, wwr, wex) \<Rightarrow>
         upd_sock s (\<lambda>t. t\<lparr>so_read := so_read t \<or> wrd \<and> rd, so_write := so_write t \<or> wwr \<and> wr,
           so_exception := so_exception t \<or> wex \<and> ex\<rparr>))))"

definition socket_select :: "'k os \<Rightarrow> nat \<Rightarrow> nat \<Rightarrow> nat \<Rightarrow> int \<Rightarrow> (unit, 'k, 'z) snc" where
  "socket_select os n s flags timeout =
     nc_bind (get_sock s) (\<lambda>t.
     if 0 < timeout \<and> \<not> so_connected t then nc_throw
     else if so_fd t < 0 \<or> FD_SETSIZE \<le> so_fd t then nc_fault OutOfBounds
     else select_loop n os s (flags AND SOCK_READ \<noteq> 0, flags AND SOCK_WRITE \<noteq> 0, flags AND SOCK_EXCEPTION \<noteq> 0) timeout)"

section \<open>Writing and closing\<close>

definition socket_write :: "'k os \<Rightarrow> nat \<Rightarrow> cptr \<Rightarrow> nat \<Rightarrow> (unit, 'k, 'z) snc" where
  "socket_write os sock src len =
     (if len = 0 then nc_return ()
      else nc_bind (get_sock sock) (\<lambda>s.
        nc_bind (cbytes src) (\<lambda>b.
        if length b < len then nc_fault OutOfBounds
        else if None \<in> set (take len b) then nc_fault Uninit
        else nc_bind (syscall (sys_write os (so_fd s) (map the (take len b)))) (\<lambda>r. case r of
            Inl e \<Rightarrow> nc_throw
          | Inr bytes \<Rightarrow> if bytes = 0 then nc_throw else if bytes \<noteq> len then nc_throw else nc_return ()))))"

text \<open>The first byte of the \<^verbatim>\<open>int\<close>, on a little-endian machine\<close>

definition socket_putc :: "'k os \<Rightarrow> nat \<Rightarrow> int \<Rightarrow> (unit, 'k, 'z) snc" where
  "socket_putc os sock c = socket_write os sock (CLit [int_char c]) 1"

definition socket_puts :: "'k os \<Rightarrow> nat \<Rightarrow> cptr \<Rightarrow> (unit, 'k, 'z) snc" where
  "socket_puts os sock cptr = nc_bind (cread cptr) (\<lambda>cs. socket_write os sock cptr (length cs))"

definition socket_put_str :: "'k os \<Rightarrow> nat \<Rightarrow> nat \<Rightarrow> (unit, 'k, 'z) snc" where
  "socket_put_str os sock src = nc_bind (get_str src) (\<lambda>t. socket_write os sock (CVal src 0) (s_len t))"

text \<open>
  vasprintf(3) allocates the result; when it fails, the buffer pointer is indeterminate. Its result is
  stored in a \<^verbatim>\<open>size_t\<close>, so the test \<^verbatim>\<open>< 0\<close> never holds and the pointer is used.
\<close>

definition socket_vprintf :: "'k os \<Rightarrow> nat \<Rightarrow> string \<Rightarrow> fmt_arg list \<Rightarrow> (unit, 'k, 'z) snc" where
  "socket_vprintf os sock format ap =
     nc_bind (vformat format ap) (\<lambda>out.
     nc_bind (malloc (length out + 1)) (\<lambda>v.
     if v = Null then nc_fault Uninit else socket_write os sock (CLit out) (length out)))"

definition socket_printf :: "'k os \<Rightarrow> nat \<Rightarrow> string \<Rightarrow> fmt_arg list \<Rightarrow> (unit, 'k, 'z) snc" where
  "socket_printf os sock format ap = nc_bind (socket_vprintf os sock format ap) nc_return"

definition socket_close :: "'k os \<Rightarrow> nat \<Rightarrow> (unit, 'k, 'z) snc" where
  "socket_close os sock =
     nc_bind (get_sock sock) (\<lambda>s.
     if so_fd s < 0 then nc_return ()
     else nc_bind (sys_try (sys_close os (so_fd s))) (\<lambda>_. upd_sock sock (\<lambda>s. s\<lparr>so_fd := -1\<rparr>)))"

section \<open>The peer\<close>

definition getpeereid :: "'k os \<Rightarrow> int \<Rightarrow> (nat \<times> nat, 'k, 'z) snc" where
  "getpeereid os fd = sys_try (sys_peercred os fd)"

definition socket_get_credentials :: "'k os \<Rightarrow> nat \<Rightarrow> (nat \<times> nat, 'k, 'z) snc" where
  "socket_get_credentials os sock =
     nc_bind (get_sock sock) (\<lambda>s.
     if so_family s \<noteq> PF_LOCAL then nc_throw
     else nc_catch (getpeereid os (so_fd s)) nc_return (\<lambda>_. nc_throw))"

definition socket_get_peer_addr :: "nat \<Rightarrow> nat \<Rightarrow> (unit, 'k, 'z) snc" where
  "socket_get_peer_addr dest src =
     nc_bind (get_sock src) (\<lambda>s.
     if so_family s = PF_INET then str_from_inet dest (sin_addr (so_remote s))
     else if so_family s = PF_LOCAL then str_cpy dest (CLit ''127.0.0.1'')
     else nc_throw)"

text \<open>inet_ntop(3) cannot fail here: the family is valid and the buffer long enough.\<close>

definition socket_get_peer_name :: "nat \<Rightarrow> nat \<Rightarrow> (unit, 'k, 'z) snc" where
  "socket_get_peer_name result sock =
     nc_bind (get_sock sock) (\<lambda>s.
     if \<not> so_connected s then nc_throw
     else if so_family s = PF_LOCAL then str_cpy result (CLit ''localhost'')
     else str_cpy result (CLit (dotted (sin_addr (so_remote s)))))"

section \<open>Reading lines\<close>

text \<open>
  The loop that calls read(2) with room for 16383 bytes until there is a line. It ends with a line
  (\<open>GotLine\<close>), because the time is over (\<open>GotTimeout\<close>), or with an error of read(2) (\<open>GotError\<close>); it
  throws when nothing was read before the end of the input. The buffer is cleared before each call, so
  what is added is the data up to the first NUL. \<open>n\<close> bounds the number of calls.
\<close>

datatype got = GotLine | GotTimeout | GotError

definition RECV_BUF_SIZE :: nat where "RECV_BUF_SIZE = 16 * 1024"

definition readline_check :: "nat \<Rightarrow> nat \<Rightarrow> (got, 'k, 'z) snc \<Rightarrow> (got, 'k, 'z) snc" where
  "readline_check line sock again =
     nc_bind (get_str line) (\<lambda>t. nc_bind (get_sock sock) (\<lambda>s.
     if s_len t = 0 \<and> so_connected s then again
     else if s_len t = 0 then nc_bind (upd_sock sock (\<lambda>s. s\<lparr>so_connected := False\<rparr>)) (\<lambda>_. nc_throw)
     else nc_bind (cread (CVal line 0)) (\<lambda>cs.
       if so_connected s \<and> \<not> strchr cs LF then again else nc_return GotLine)))"

primrec readline_loop :: "nat \<Rightarrow> 'k os \<Rightarrow> nat \<Rightarrow> nat \<Rightarrow> (got, 'k, 'z) snc" where
  "readline_loop 0 os line sock = nc_fault Diverge"
| "readline_loop (Suc n) os line sock =
     nc_bind (get_sock sock) (\<lambda>s.
     nc_bind (syscall (sys_read os (so_fd s) (RECV_BUF_SIZE - 1))) (\<lambda>r. case r of
       Inl e \<Rightarrow>
         if e = EINTR then readline_loop n os line sock
         else if e = EAGAIN
         then nc_bind (upd_sock sock (\<lambda>s. s\<lparr>so_timeout := True\<rparr>)) (\<lambda>_. nc_return GotTimeout)
         else if e = EBADF
         then nc_bind (upd_sock sock (\<lambda>s. s\<lparr>so_connected := False, so_fd := -1\<rparr>)) (\<lambda>_.
           readline_check line sock (readline_loop n os line sock))
         else nc_return GotError
     | Inr data \<Rightarrow>
         if RECV_BUF_SIZE \<le> length data then nc_fault OutOfBounds
         else if data = []
         then nc_bind (upd_sock sock (\<lambda>s. s\<lparr>so_connected := False\<rparr>)) (\<lambda>_.
           readline_check line sock (readline_loop n os line sock))
         else nc_bind (str_cat line (CLit (takeWhile (\<lambda>c. c \<noteq> NUL) data))) (\<lambda>_.
           readline_check line sock (readline_loop n os line sock))))"

text \<open>The destructors of the automatic variables\<close>

definition readline_exit :: "nat \<Rightarrow> nat \<Rightarrow> nat \<Rightarrow> (unit, 'k, 'z) snc" where
  "readline_exit line fragment tok =
     nc_bind (str_destroy (Some line)) (\<lambda>_.
     nc_bind (str_destroy (Some fragment)) (\<lambda>_.
     list_destroy (Some tok)))"

text \<open>The new lines are added to the buffer; a fragment at its end is completed first.\<close>

definition readline_store :: "nat \<Rightarrow> nat \<Rightarrow> nat \<Rightarrow> nat \<Rightarrow> (unit, 'k, 'z) snc" where
  "readline_store line fragment tok sock =
     nc_bind (str_split tok line 10) (\<lambda>_.
     nc_bind (get_sock sock) (\<lambda>s.
     nc_bind (deref (so_read_buf s)) (\<lambda>rb.
     nc_bind (nc_when (so_fragmented s)
       (nc_bind (get_list rb) (\<lambda>h. nc_bind (get_list tok) (\<lambda>g.
        case l_tail h of None \<Rightarrow> nc_throw | Some t \<Rightarrow> (case l_head g of None \<Rightarrow> nc_throw
        | Some u \<Rightarrow> nc_bind (get_ent t) (\<lambda>e. nc_bind (get_ent u) (\<lambda>f.
            nc_bind (deref (e_value e)) (\<lambda>x. nc_bind (deref (e_value f)) (\<lambda>y.
            nc_bind (str_append x y) (\<lambda>_.
            list_shift fragment tok)))))))))) (\<lambda>_.
     nc_bind (list_merge rb tok) (\<lambda>_.
     nc_catch (str_cmp_terminator line 10)
       (\<lambda>_. upd_sock sock (\<lambda>s. s\<lparr>so_fragmented := False\<rparr>))
       (\<lambda>_. upd_sock sock (\<lambda>s. s\<lparr>so_fragmented := True\<rparr>)))))))"

definition socket_readline :: "'k os \<Rightarrow> nat \<Rightarrow> nat \<Rightarrow> nat \<Rightarrow> (unit, 'k, 'z) snc" where
  "socket_readline os n dest sock =
     nc_bind (str_new None) (\<lambda>line.
     nc_bind (str_new None) (\<lambda>fragment.
     nc_bind (list_new None) (\<lambda>tok.
     nc_bind (get_sock sock) (\<lambda>s.
     nc_bind (deref (so_read_buf s)) (\<lambda>rb.
     nc_bind (get_list rb) (\<lambda>h.
     if 0 < l_count h \<and> \<not> so_fragmented s
     then nc_bind (list_shift dest rb) (\<lambda>_. readline_exit line fragment tok)
     else nc_bind (readline_loop n os line sock) (\<lambda>r. case r of
         GotTimeout \<Rightarrow> readline_exit line fragment tok
       | GotError \<Rightarrow> nc_bind (readline_exit line fragment tok) (\<lambda>_. nc_throw)
       | GotLine \<Rightarrow> nc_bind (readline_store line fragment tok sock) (\<lambda>_.
           nc_bind (get_sock sock) (\<lambda>s. nc_bind (deref (so_read_buf s)) (\<lambda>rb.
           nc_bind (list_shift dest rb) (\<lambda>_. readline_exit line fragment tok)))))))))))"

end
