(* ===== verification/NC_Session.thy ===== *)
theory NC_Session
  imports NC_Socket
begin

text \<open>
  The session component (src/session.c, src/nc_session.h): the table of session controllers and
  the handler that serves a connection line by line. The heap is extended by session and server
  objects and by the controller table. The hooks of a controller are functions of the application; a
  controller is a value of an arbitrary type, and the parameter \<open>app\<close> gives the function pointers it
  has (\<open>None\<close> is a NULL pointer). A hook may change the whole memory; \<open>Fail rc\<close> means that it returned \<open>rc\<close>.
\<close>

section \<open>Objects\<close>

record session_t =
  ss_user :: "nat option"
  ss_groups :: "nat option"
  ss_srv :: "nat option"
  ss_sock :: "nat option"
  ss_start_time :: int
  ss_expire_time :: int
  ss_state :: int
  ss_protocol_state :: int
  ss_error_count :: int
  ss_argv :: "nat option"
  ss_context :: "nat option"
  ss_code :: int
  ss_header :: "nat option"
  ss_body :: "nat option"
  ss_asis :: bool
  ss_data :: "nat option"
  ss_controller_handle :: nat

record server_t =
  sv_uid :: "nat option"
  sv_gid :: "nat option"
  sv_service :: "nat option"
  sv_family :: int
  sv_address :: "nat option"
  sv_port :: int
  sv_mode :: nat
  sv_use_tls :: bool
  sv_timeout :: int
  sv_sock :: "nat option"
  sv_controller :: "nat option"
  sv_controller_handle :: nat

text \<open>The states of a session, and the hooks in the order of their numbers\<close>

definition SESSION_UNDEF :: int where "SESSION_UNDEF = 0"
definition SESSION_GREETING :: int where "SESSION_GREETING = 1"
definition SESSION_OPEN :: int where "SESSION_OPEN = 2"
definition SESSION_READ :: int where "SESSION_READ = 3"
definition SESSION_IDLE :: int where "SESSION_IDLE = 4"
definition SESSION_WRITE :: int where "SESSION_WRITE = 5"
definition SESSION_CLOSED :: int where "SESSION_CLOSED = 6"

lemmas session_states = SESSION_UNDEF_def SESSION_GREETING_def SESSION_OPEN_def SESSION_READ_def
  SESSION_IDLE_def SESSION_WRITE_def SESSION_CLOSED_def

datatype session_hook_t = SESSION_REQUEST_HANDLER | SESSION_RESPONSE_HANDLER | SESSION_INIT | SESSION_RESET
  | SESSION_TIMEOUT | SESSION_OVERLOAD | SESSION_DESTROY | SESSION_HOOK_MAX

fun hook_num :: "session_hook_t \<Rightarrow> int" where
  "hook_num SESSION_REQUEST_HANDLER = 0"
| "hook_num SESSION_RESPONSE_HANDLER = 1"
| "hook_num SESSION_INIT = 2"
| "hook_num SESSION_RESET = 3"
| "hook_num SESSION_TIMEOUT = 4"
| "hook_num SESSION_OVERLOAD = 5"
| "hook_num SESSION_DESTROY = 6"
| "hook_num SESSION_HOOK_MAX = 7"

record ('k, 'c) sess_heap = "'k sock_heap" +
  sessions :: "nat \<Rightarrow> session_t option"
  servers :: "nat \<Rightarrow> server_t option"
  controllers :: "nat \<Rightarrow> 'c option"
  controller_count :: nat

type_synonym ('a, 'k, 'c, 'z) enc =
  "('k, 'c, 'z) sess_heap_scheme \<Rightarrow> ('a, ('k, 'c, 'z) sess_heap_scheme) outcome"

text \<open>The argument of a hook: a \<^verbatim>\<open>void *\<close> that holds a string object, plain characters, or a number\<close>

datatype hook_arg = ANull | AStr nat | AChars cptr | ANum int

record ('c, 'w) app =
  request_handler_func :: "'c \<Rightarrow> (nat \<Rightarrow> hook_arg \<Rightarrow> 'w \<Rightarrow> (unit, 'w) outcome) option"
  response_handler_func :: "'c \<Rightarrow> (nat \<Rightarrow> int \<Rightarrow> 'w \<Rightarrow> (unit, 'w) outcome) option"
  timeout_handler_func :: "'c \<Rightarrow> (nat \<Rightarrow> 'w \<Rightarrow> (unit, 'w) outcome) option"
  overload_handler_func :: "'c \<Rightarrow> (nat \<Rightarrow> 'w \<Rightarrow> (unit, 'w) outcome) option"
  session_init_func :: "'c \<Rightarrow> (nat \<Rightarrow> 'w \<Rightarrow> (unit, 'w) outcome) option"
  session_reset_func :: "'c \<Rightarrow> (nat \<Rightarrow> 'w \<Rightarrow> (unit, 'w) outcome) option"
  session_destroy_func :: "'c \<Rightarrow> (nat \<Rightarrow> 'w \<Rightarrow> (unit, 'w) outcome) option"

definition CONTROLLER_MAX :: nat where "CONTROLLER_MAX = 10"
definition SIZEOF_SESSION_T :: nat where "SIZEOF_SESSION_T = 128"

definition get_sess :: "nat \<Rightarrow> (session_t, 'k, 'c, 'z) enc" where
  "get_sess a w = (case sessions w a of None \<Rightarrow> Fault BadAddr | Some s \<Rightarrow> Ok s w)"

definition upd_sess :: "nat \<Rightarrow> (session_t \<Rightarrow> session_t) \<Rightarrow> (unit, 'k, 'c, 'z) enc" where
  "upd_sess a f w = (case sessions w a of None \<Rightarrow> Fault BadAddr
     | Some s \<Rightarrow> Ok () (w\<lparr>sessions := (sessions w)(a \<mapsto> f s)\<rparr>))"

definition free_sess :: "nat \<Rightarrow> (unit, 'k, 'c, 'z) enc" where
  "free_sess a w = (case sessions w a of None \<Rightarrow> Fault BadFree
     | Some _ \<Rightarrow> Ok () (w\<lparr>sessions := (sessions w)(a := None)\<rparr>))"

definition zero_session :: session_t where
  "zero_session = \<lparr>ss_user = None, ss_groups = None, ss_srv = None, ss_sock = None, ss_start_time = 0,
     ss_expire_time = 0, ss_state = 0, ss_protocol_state = 0, ss_error_count = 0, ss_argv = None, ss_context = None, ss_code = 0,
     ss_header = None, ss_body = None, ss_asis = False, ss_data = None, ss_controller_handle = 0\<rparr>"

definition calloc_sess :: "nat option \<Rightarrow> (nat, 'k, 'c, 'z) enc" where
  "calloc_sess dest w =
     (if dest \<noteq> None then Fail (-1) w
      else if malloc_ok w (brk w) SIZEOF_SESSION_T
      then Ok (brk w) (w\<lparr>sessions := (sessions w)(brk w \<mapsto> zero_session), brk := Suc (brk w)\<rparr>)
      else Fail (-1) (w\<lparr>brk := Suc (brk w)\<rparr>))"

definition get_srv :: "nat \<Rightarrow> (server_t, 'k, 'c, 'z) enc" where
  "get_srv a w = (case servers w a of None \<Rightarrow> Fault BadAddr | Some s \<Rightarrow> Ok s w)"

section \<open>Controllers\<close>

text \<open>A hook that may be undefined; the request and response handlers are called without a test.\<close>

definition hook_optional :: "(nat \<Rightarrow> 'w \<Rightarrow> (unit, 'w) outcome) option \<Rightarrow> nat \<Rightarrow> 'w \<Rightarrow> (unit, 'w) outcome" where
  "hook_optional f s = (case f of None \<Rightarrow> nc_return () | Some g \<Rightarrow> g s)"

definition hook_call :: "('c, 'w) app \<Rightarrow> 'c \<Rightarrow> nat \<Rightarrow> session_hook_t \<Rightarrow> hook_arg \<Rightarrow> 'w \<Rightarrow> (unit, 'w) outcome" where
  "hook_call app c s func_num arg =
     (case func_num of
        SESSION_REQUEST_HANDLER \<Rightarrow> (case request_handler_func app c of None \<Rightarrow> nc_fault NullDeref | Some g \<Rightarrow> g s arg)
      | SESSION_RESPONSE_HANDLER \<Rightarrow> (case response_handler_func app c of None \<Rightarrow> nc_fault NullDeref
          | Some g \<Rightarrow> (case arg of ANum i \<Rightarrow> g s i | ANull \<Rightarrow> g s 0 | _ \<Rightarrow> nc_fault Uninit))
      | SESSION_INIT \<Rightarrow> hook_optional (session_init_func app c) s
      | SESSION_RESET \<Rightarrow> hook_optional (session_reset_func app c) s
      | SESSION_TIMEOUT \<Rightarrow> hook_optional (timeout_handler_func app c) s
      | SESSION_OVERLOAD \<Rightarrow> hook_optional (overload_handler_func app c) s
      | SESSION_DESTROY \<Rightarrow> hook_optional (session_destroy_func app c) s
      | SESSION_HOOK_MAX \<Rightarrow> nc_throw)"

definition session_controller_invoke ::
    "('c, ('k, 'c, 'z) sess_heap_scheme) app \<Rightarrow> nat \<Rightarrow> session_hook_t \<Rightarrow> hook_arg \<Rightarrow> (unit, 'k, 'c, 'z) enc" where
  "session_controller_invoke app s func_num arg w =
     nc_bind (get_sess s) (\<lambda>t.
     if ss_controller_handle t = 0 then nc_return ()
     else if controller_count w \<le> ss_controller_handle t then nc_throw
     else if func_num = SESSION_HOOK_MAX then nc_throw
     else (case controllers w (ss_controller_handle t) of None \<Rightarrow> nc_fault NullDeref
       | Some c \<Rightarrow> nc_bind (hook_call app c s func_num arg) nc_return)) w"

definition session_controller_register :: "'c \<Rightarrow> (nat, 'k, 'c, 'z) enc" where
  "session_controller_register ctl w =
     (if CONTROLLER_MAX \<le> controller_count w then Fail (-1) w
      else Ok (controller_count w) (w\<lparr>controllers := (controllers w)(controller_count w \<mapsto> ctl),
        controller_count := controller_count w + 1\<rparr>))"

definition session_greeting :: "('c, ('k, 'c, 'z) sess_heap_scheme) app \<Rightarrow> nat \<Rightarrow> (unit, 'k, 'c, 'z) enc" where
  "session_greeting app s =
     nc_catch (session_controller_invoke app s SESSION_RESPONSE_HANDLER (ANum 1))
       (\<lambda>_. upd_sess s (\<lambda>t. t\<lparr>ss_state := SESSION_READ\<rparr>)) (\<lambda>_. nc_throw)"

section \<open>Responses\<close>

definition response_reset :: "nat \<Rightarrow> (unit, 'k, 'c, 'z) enc" where
  "response_reset s =
     nc_bind (get_sess s) (\<lambda>t.
     nc_bind (deref (ss_header t)) (\<lambda>h. nc_bind (str_truncate h) (\<lambda>_.
     nc_bind (deref (ss_body t)) (\<lambda>b. nc_bind (str_truncate b) (\<lambda>_.
     upd_sess s (\<lambda>t. t\<lparr>ss_asis := False, ss_code := 0\<rparr>))))))"

definition response_set :: "nat \<Rightarrow> int \<Rightarrow> cptr \<Rightarrow> cptr \<Rightarrow> (unit, 'k, 'c, 'z) enc" where
  "response_set s code hdr body =
     nc_bind (upd_sess s (\<lambda>t. t\<lparr>ss_code := code\<rparr>)) (\<lambda>_.
     nc_bind (get_sess s) (\<lambda>t.
     nc_bind (deref (ss_header t)) (\<lambda>h. nc_bind (str_cpy h hdr) (\<lambda>_.
     nc_bind (deref (ss_body t)) (\<lambda>b. str_cpy b body)))))"

section \<open>Life of a session\<close>

text \<open>\<open>now\<close> is the result of time(2).\<close>

definition session_new :: "int \<Rightarrow> nat option \<Rightarrow> (nat, 'k, 'c, 'z) enc" where
  "session_new now dest =
     nc_bind (calloc_sess dest) (\<lambda>s.
     nc_bind (list_new None) (\<lambda>argv. nc_bind (upd_sess s (\<lambda>t. t\<lparr>ss_argv := Some argv\<rparr>)) (\<lambda>_.
     nc_bind (list_new None) (\<lambda>context. nc_bind (upd_sess s (\<lambda>t. t\<lparr>ss_context := Some context\<rparr>)) (\<lambda>_.
     nc_bind (list_new None) (\<lambda>groups. nc_bind (upd_sess s (\<lambda>t. t\<lparr>ss_groups := Some groups\<rparr>)) (\<lambda>_.
     nc_bind (str_new None) (\<lambda>body. nc_bind (upd_sess s (\<lambda>t. t\<lparr>ss_body := Some body\<rparr>)) (\<lambda>_.
     nc_bind (str_new None) (\<lambda>header. nc_bind (upd_sess s (\<lambda>t. t\<lparr>ss_header := Some header\<rparr>)) (\<lambda>_.
     nc_bind (str_new None) (\<lambda>user. nc_bind (upd_sess s (\<lambda>t. t\<lparr>ss_user := Some user\<rparr>)) (\<lambda>_.
     nc_bind (upd_sess s (\<lambda>t. t\<lparr>ss_code := 0, ss_asis := False, ss_state := SESSION_OPEN, ss_start_time := now,
       ss_controller_handle := UINT_MAX\<rparr>)) (\<lambda>_. nc_return s))))))))))))))"

definition session_close :: "'k os \<Rightarrow> nat \<Rightarrow> (unit, 'k, 'c, 'z) enc" where
  "session_close os s =
     nc_bind (get_sess s) (\<lambda>t.
     if ss_state t = SESSION_UNDEF then nc_throw
     else if ss_state t = SESSION_CLOSED then nc_return ()
     else nc_bind (deref (ss_user t)) (\<lambda>u. nc_bind (str_truncate u) (\<lambda>_.
       nc_bind (deref (ss_groups t)) (\<lambda>g. nc_bind (list_truncate g) (\<lambda>_.
       nc_bind (deref (ss_sock t)) (\<lambda>k. nc_bind (socket_close os k) (\<lambda>_.
       upd_sess s (\<lambda>t. t\<lparr>ss_state := SESSION_CLOSED\<rparr>))))))))"

text \<open>\<^verbatim>\<open>X_destroy(&s->field)\<close>: the object is freed and the field becomes NULL.\<close>

definition destroy_field ::
    "nat \<Rightarrow> (session_t \<Rightarrow> nat option) \<Rightarrow> ((nat option \<Rightarrow> nat option) \<Rightarrow> session_t \<Rightarrow> session_t)
      \<Rightarrow> (nat option \<Rightarrow> (unit, 'k, 'c, 'z) enc) \<Rightarrow> (unit, 'k, 'c, 'z) enc" where
  "destroy_field s field field_update des =
     nc_bind (get_sess s) (\<lambda>t. nc_bind (des (field t)) (\<lambda>_. upd_sess s (field_update (\<lambda>_. None))))"

definition session_destroy ::
    "('c, ('k, 'c, 'z) sess_heap_scheme) app \<Rightarrow> nat \<Rightarrow> (unit, 'k, 'c, 'z) enc" where
  "session_destroy app s =
     nc_bind (destroy_field s ss_argv ss_argv_update list_destroy) (\<lambda>_.
     nc_bind (destroy_field s ss_context ss_context_update list_destroy) (\<lambda>_.
     nc_bind (destroy_field s ss_groups ss_groups_update list_destroy) (\<lambda>_.
     nc_bind (destroy_field s ss_body ss_body_update str_destroy) (\<lambda>_.
     nc_bind (destroy_field s ss_header ss_header_update str_destroy) (\<lambda>_.
     nc_bind (destroy_field s ss_user ss_user_update str_destroy) (\<lambda>_.
     nc_bind (session_controller_invoke app s SESSION_DESTROY ANull) (\<lambda>_.
     nc_bind (destroy_field s ss_sock ss_sock_update socket_destroy) (\<lambda>_.
     free_sess s))))))))"

definition session_reset :: "('c, ('k, 'c, 'z) sess_heap_scheme) app \<Rightarrow> nat \<Rightarrow> (unit, 'k, 'c, 'z) enc" where
  "session_reset app s =
     nc_bind (upd_sess s (\<lambda>t. t\<lparr>ss_error_count := 0\<rparr>)) (\<lambda>_.
     session_controller_invoke app s SESSION_RESET ANull)"

definition session_accept :: "'k os \<Rightarrow> nat \<Rightarrow> nat \<Rightarrow> nat \<Rightarrow> (unit, 'k, 'c, 'z) enc" where
  "session_accept os n s srv =
     nc_bind (get_sess s) (\<lambda>t.
     nc_bind (socket_new (ss_sock t)) (\<lambda>k.
     nc_bind (upd_sess s (\<lambda>t. t\<lparr>ss_sock := Some k\<rparr>)) (\<lambda>_.
     nc_bind (get_srv srv) (\<lambda>v.
     nc_bind (socket_set_family k (sv_family v)) (\<lambda>_.
     nc_bind (upd_sess s (\<lambda>t. t\<lparr>ss_srv := Some srv, ss_controller_handle := sv_controller_handle v\<rparr>)) (\<lambda>_.
     nc_bind (deref (sv_sock v)) (\<lambda>l.
     nc_bind (socket_accept os n k l) (\<lambda>_.
     socket_set_timeout os k (sv_timeout v) 60))))))))"

section \<open>Serving requests\<close>

definition session_process_request ::
    "'k os \<Rightarrow> ('c, ('k, 'c, 'z) sess_heap_scheme) app \<Rightarrow> nat \<Rightarrow> nat \<Rightarrow> (unit, 'k, 'c, 'z) enc" where
  "session_process_request os app n s =
     nc_bind (str_new None) (\<lambda>line.
     nc_bind (get_sess s) (\<lambda>t.
     nc_bind (deref (ss_sock t)) (\<lambda>k.
     nc_bind (socket_readline os n line k) (\<lambda>_.
     nc_bind (get_sock k) (\<lambda>so.
     if so_timeout so
     then nc_bind (upd_sess s (\<lambda>t. t\<lparr>ss_state := hook_num SESSION_TIMEOUT\<rparr>)) (\<lambda>_. str_destroy (Some line))
     else nc_bind (response_reset s) (\<lambda>_.
       nc_bind (nc_catch (session_controller_invoke app s SESSION_REQUEST_HANDLER (AStr line))
         (\<lambda>_. nc_return 0) (\<lambda>rc. nc_return rc)) (\<lambda>rc.
       nc_bind (session_controller_invoke app s SESSION_RESPONSE_HANDLER (ANum rc)) (\<lambda>_.
       str_destroy (Some line)))))))))"

text \<open>
  The loop of \<^verbatim>\<open>session_handler\<close>. \<open>m\<close> bounds the number of requests, \<open>n\<close> the calls of read(2) for each of them.
\<close>

primrec session_loop ::
    "'k os \<Rightarrow> ('c, ('k, 'c, 'z) sess_heap_scheme) app \<Rightarrow> nat \<Rightarrow> nat \<Rightarrow> nat \<Rightarrow> (unit, 'k, 'c, 'z) enc" where
  "session_loop os app n 0 s = nc_fault Diverge"
| "session_loop os app n (Suc m) s =
     nc_bind (get_sess s) (\<lambda>t.
     if ss_state t = SESSION_READ
     then nc_catch (session_process_request os app n s) (\<lambda>_. session_loop os app n m s) (\<lambda>_. session_loop os app n m s)
     else nc_return ())"

definition session_handler ::
    "'k os \<Rightarrow> ('c, ('k, 'c, 'z) sess_heap_scheme) app \<Rightarrow> nat \<Rightarrow> nat \<Rightarrow> nat \<Rightarrow> (unit, 'k, 'c, 'z) enc" where
  "session_handler os app n m s =
     nc_bind (upd_sess s (\<lambda>t. t\<lparr>ss_state := SESSION_GREETING\<rparr>)) (\<lambda>_.
     nc_bind (session_greeting app s) (\<lambda>_.
     nc_bind (session_loop os app n m s) (\<lambda>_.
     nc_bind (get_sess s) (\<lambda>t.
     nc_bind (if ss_state t = hook_num SESSION_TIMEOUT
       then nc_bind (deref (ss_sock t)) (\<lambda>k. nc_bind (get_sock k) (\<lambda>so.
         if so_connected so
         then nc_catch (session_controller_invoke app s SESSION_TIMEOUT ANull) nc_return (\<lambda>_. nc_return ())
         else nc_return ()))
       else nc_return ()) (\<lambda>_.
     nc_bind (session_close os s) (\<lambda>_. session_destroy app s))))))"

definition session_is_loopback :: "nat \<Rightarrow> (unit, 'k, 'c, 'z) enc" where
  "session_is_loopback s =
     nc_bind (str_new None) (\<lambda>buf.
     nc_bind (get_sess s) (\<lambda>t.
     nc_bind (deref (ss_sock t)) (\<lambda>k.
     nc_bind (get_sock k) (\<lambda>so.
     nc_bind (str_from_inet buf (sin_addr (so_remote so))) (\<lambda>_.
     nc_catch (str_cmp buf (CLit ''127.0.0.1'')) (\<lambda>_. str_destroy (Some buf))
       (\<lambda>rc. if rc < 0 then nc_bind (str_destroy (Some buf)) (\<lambda>_. nc_throw) else str_destroy (Some buf)))))))"

definition session_test ::
    "('c, ('k, 'c, 'z) sess_heap_scheme) app \<Rightarrow> nat \<Rightarrow> cptr \<Rightarrow> int \<Rightarrow> (unit, 'k, 'c, 'z) enc" where
  "session_test app s line expected_response =
     nc_bind (str_new None) (\<lambda>buf.
     nc_bind (str_cpy buf line) (\<lambda>_.
     nc_bind (str_putc buf 10) (\<lambda>_.
     nc_catch (session_controller_invoke app s SESSION_REQUEST_HANDLER (AChars line))
       (\<lambda>_. nc_bind (get_sess s) (\<lambda>t.
          if ss_code t \<noteq> expected_response then nc_throw else str_destroy (Some buf)))
       (\<lambda>_. nc_throw))))"

end
