(* ===== verification/NC_Socket_Laws.thy ===== *)
theory NC_Socket_Laws
  imports NC_Socket
begin

text \<open>
  What reading lines from a socket computes: the lines of the input come out in order, whatever the
  pieces in which read(2) delivers it.
\<close>

section \<open>Memory behind sockets\<close>

text \<open>Updates of sockets and of the system state do not touch strings and lists, and conversely.\<close>

lemma sock_upd_simps [simp]:
  fixes w :: "('k, 'z) sock_heap_scheme"
  shows "str_has (w\<lparr>socks := x\<rparr>) a xs = str_has w a xs" "str_has (w\<lparr>kern := k\<rparr>) a xs = str_has w a xs"
    "list_at (w\<lparr>socks := x\<rparr>) l cs xss = list_at w l cs xss" "list_at (w\<lparr>kern := k\<rparr>) l cs xss = list_at w l cs xss"
    "wf_lh (w\<lparr>socks := x\<rparr>) = wf_lh w" "wf_lh (w\<lparr>kern := k\<rparr>) = wf_lh w"
    "mem_ok (w\<lparr>socks := x\<rparr>) = mem_ok w" "mem_ok (w\<lparr>kern := k\<rparr>) = mem_ok w"
  by (simp_all add: str_has_def list_at_def list_cells_def vals_def wf_lh_def wf_strs_def mem_ok_def)

lemma mod_lh_socks:
  fixes w :: "('k, 'z) sock_heap_scheme"
  assumes "mod_lh S E L w w'"
  shows "socks w' = socks w" "kern w' = kern w"
  using assms by (cases w; cases w'; simp add: mod_lh_def)+

lemma str_upd_socks:
  fixes w :: "('k, 'z) sock_heap_scheme"
  assumes "str_upd w s xs w'"
  shows "socks w' = socks w" "kern w' = kern w"
  using mod_lh_socks [OF mod_strs_lh [OF str_upd_mod [OF assms]]] by blast+

text \<open>The frame of operations that change sockets or the state of the system as well\<close>

definition mod_mem :: "nat set \<Rightarrow> nat set \<Rightarrow> nat set \<Rightarrow> 'z list_heap_scheme \<Rightarrow> 'z list_heap_scheme \<Rightarrow> bool" where
  "mod_mem S E L w w' \<longleftrightarrow> malloc_ok w' = malloc_ok w \<and> brk w \<le> brk w' \<and> (\<forall>a. a \<notin> S \<longrightarrow> strs w' a = strs w a) \<and>
     (\<forall>a. a \<notin> E \<longrightarrow> ents w' a = ents w a) \<and> (\<forall>a. a \<notin> L \<longrightarrow> lists w' a = lists w a)"

lemma mod_lh_mem: "mod_lh S E L w w' \<Longrightarrow> mod_mem S E L w w'"
  by (simp add: mod_lh_def mod_mem_def)

lemma mod_mem_trans:
  "mod_mem S E L w w1 \<Longrightarrow> mod_mem S' E' L' w1 w2 \<Longrightarrow> mod_mem (S \<union> S') (E \<union> E') (L \<union> L') w w2"
  by (auto simp: mod_mem_def)

lemma mod_mem_mono: "mod_mem S E L w w' \<Longrightarrow> S \<subseteq> S' \<Longrightarrow> E \<subseteq> E' \<Longrightarrow> L \<subseteq> L' \<Longrightarrow> mod_mem S' E' L' w w'"
  unfolding mod_mem_def by blast

lemma mod_mem_upd [simp]:
  fixes w :: "('k, 'z) sock_heap_scheme"
  shows "mod_mem S E L (w\<lparr>socks := x\<rparr>) w' = mod_mem S E L w w'" "mod_mem S E L w (w'\<lparr>socks := x\<rparr>) = mod_mem S E L w w'"
    "mod_mem S E L (w\<lparr>kern := k\<rparr>) w' = mod_mem S E L w w'" "mod_mem S E L w (w'\<lparr>kern := k\<rparr>) = mod_mem S E L w w'"
  by (simp_all add: mod_mem_def)

lemma mod_mem_has: "mod_mem S E L w w' \<Longrightarrow> a \<notin> S \<Longrightarrow> str_has w' a xs = str_has w a xs"
  by (simp add: mod_mem_def str_has_def)

lemma mod_mem_ok: "mod_mem S E L w w' \<Longrightarrow> mem_ok w' = mem_ok w"
  by (simp add: mod_mem_def mem_ok_def)

lemma mod_mem_list_at:
  assumes "list_at w l cs xss" "mod_mem S E L w w'" "l \<notin> L" "fst ` set cs \<inter> E = {}" "snd ` set cs \<inter> S = {}"
  shows "list_at w' l cs xss"
proof -
  have "vals w' cs xss = vals w cs xss" using assms(2,5) by (intro vals_frame) (auto simp: mod_mem_def)
  moreover have "dseg (ents w') None cs None = dseg (ents w) None cs None"
    using assms(2,4) by (intro dseg_frame) (auto simp: mod_mem_def)
  ultimately show ?thesis using assms(1-3) by (simp add: list_at_def list_cells_def mod_mem_def)
qed

lemma str_upd_kern:
  fixes w :: "('k, 'z) sock_heap_scheme"
  shows "str_upd w s xs w' \<Longrightarrow> str_upd (w\<lparr>kern := k\<rparr>) s xs (w'\<lparr>kern := k\<rparr>)"
  by (cases w; cases w'; auto simp: str_upd_def mod_strs_def)

lemmas sock_run = list_run get_sock_def upd_sock_def syscall_def

lemma below_notin: "(x :: nat) < b \<Longrightarrow> S \<subseteq> {b..} \<Longrightarrow> x \<notin> S"
  using not_le by blast

lemma below_disjoint: "S \<subseteq> {..<(b :: nat)} \<Longrightarrow> S \<inter> {b..} = {}"
  using not_le by blast

lemma restrict_UNIV [simp]: "m |` UNIV = m"
  by (simp add: restrict_map_def)

section \<open>Automatic variables of readline\<close>

lemma readline_enter:
  fixes w :: "'z list_heap_scheme" and B :: "nat \<Rightarrow> nat \<Rightarrow> nat \<Rightarrow> ('b, 'z) lnc"
  assumes "mem_ok w" "wf_lh w"
  obtains l f t w3 where
    "nc_bind (str_new None) (\<lambda>a. nc_bind (str_new None) (\<lambda>b. nc_bind (list_new None) (B a b))) w = B l f t w3"
    "mod_lh {l, f} {} {t} w w3" "str_has w3 l []" "str_has w3 f []" "list_at w3 t [] []" "wf_lh w3" "mem_ok w3"
    "brk w \<le> l" "l < f" "f < t" "t < brk w3"
proof -
  let ?l = "brk w"
  obtain w1 where w1: "str_new None w = Ok ?l w1" "mod_lh {?l} {} {} w w1" "str_has w1 ?l []" "?l < brk w1" "wf_lh w1" "mem_ok w1"
    using str_new_lh [OF assms] .
  let ?f = "brk w1"
  obtain w2 where w2: "str_new None w1 = Ok ?f w2" "mod_lh {?f} {} {} w1 w2" "str_has w2 ?f []" "?f < brk w2" "wf_lh w2" "mem_ok w2"
    using str_new_lh [OF w1(6,5)] .
  let ?t = "brk w2" and ?w3 = "w2\<lparr>lists := (lists w2)(brk w2 \<mapsto> empty_list), brk := Suc (brk w2)\<rparr>"
  have n3: "list_new None w2 = Ok ?t ?w3" by (rule list_new_ok [OF w2(6)])
  have m3: "mod_lh {} {} {?t} w2 ?w3" by (simp add: mod_lh_def)
  have "mod_lh ({?l} \<union> ({?f} \<union> {})) ({} \<union> ({} \<union> {})) ({} \<union> ({} \<union> {?t})) w ?w3"
    by (rule mod_lh_trans [OF w1(2) mod_lh_trans [OF w2(2) m3]])
  then have m: "mod_lh {?l, ?f} {} {?t} w ?w3" by (simp add: insert_commute)
  have h: "str_has ?w3 ?l []" using mod_lh_has [OF mod_lh_trans [OF w2(2) m3], of ?l "[]"] w1(3,4) by simp
  have "list_at ?w3 ?t [] []" by (simp add: list_at_def list_cells_def header_Nil)
  moreover have "wf_lh ?w3" by (rule mod_lh_wf [OF m3 w2(5)]) simp
  moreover have "mem_ok ?w3" using w2(6) mod_lh_mem_ok [OF m3] by simp
  moreover have "str_has ?w3 ?f []" using w2(3) mod_lh_has [OF m3, of ?f "[]"] by simp
  ultimately show ?thesis
    using that [of ?l ?f ?t ?w3] w1(1,4) w2(1,4) n3 m h by (simp add: nc_bind_def)
qed

definition readline_body :: "'k os \<Rightarrow> nat \<Rightarrow> nat \<Rightarrow> nat \<Rightarrow> nat \<Rightarrow> nat \<Rightarrow> nat \<Rightarrow> (unit, 'k, 'z) snc" where
  "readline_body os n dest sock line fragment tok =
     nc_bind (get_sock sock) (\<lambda>s.
     nc_bind (deref (so_read_buf s)) (\<lambda>rb.
     nc_bind (get_list rb) (\<lambda>h.
     if 0 < l_count h \<and> \<not> so_fragmented s
     then nc_bind (list_shift dest rb) (\<lambda>_. readline_exit line fragment tok)
     else nc_bind (readline_loop n os line sock) (\<lambda>r. case r of
         GotTimeout \<Rightarrow> readline_exit line fragment tok
       | GotError \<Rightarrow> nc_bind (readline_exit line fragment tok) (\<lambda>_. nc_throw)
       | GotLine \<Rightarrow> nc_bind (readline_store line fragment tok sock) (\<lambda>_.
           nc_bind (get_sock sock) (\<lambda>s. nc_bind (deref (so_read_buf s)) (\<lambda>rb.
           nc_bind (list_shift dest rb) (\<lambda>_. readline_exit line fragment tok))))))))"

lemma socket_readline_body:
  "socket_readline os n dest sock = nc_bind (str_new None) (\<lambda>line. nc_bind (str_new None) (\<lambda>fragment.
     nc_bind (list_new None) (readline_body os n dest sock line fragment)))"
  by (simp add: socket_readline_def readline_body_def [abs_def])

lemma wf_lh_restrict:
  assumes "wf_lh w" "brk w' = brk w" "\<And>a. strs w' a = None \<or> strs w' a = strs w a"
    "\<And>a. ents w' a = None \<or> ents w' a = ents w a" "\<And>a. lists w' a = None \<or> lists w' a = lists w a"
  shows "wf_lh w'"
  unfolding wf_lh_def wf_strs_def by (metis assms wf_lh_def wf_strs_def)

lemma readline_exit_ok:
  fixes w :: "('k, 'z) sock_heap_scheme"
  assumes "str_has w l a" "str_has w f b" "list_at w t ts zss" "l \<noteq> f" "l \<notin> snd ` set ts" "f \<notin> snd ` set ts" "wf_lh w"
  obtains w' where "readline_exit l f t w = Ok () w'" "mod_lh ({l, f} \<union> snd ` set ts) (fst ` set ts) {t} w w'" "wf_lh w'"
proof -
  let ?w1 = "w\<lparr>strs := (strs w)(l := None)\<rparr>"
  let ?w2 = "?w1\<lparr>strs := (strs ?w1)(f := None)\<rparr>"
  have f1: "str_has ?w1 f b" using assms(2,4) by (simp add: str_has_def)
  have m2: "mod_lh {l, f} {} {} w ?w2" by (simp add: mod_lh_def)
  have t2: "list_at ?w2 t ts zss" by (rule list_at_frame [OF assms(3) m2]) (use assms(5,6) in auto)
  have wf2: "wf_lh ?w2" by (rule wf_lh_restrict [OF assms(7)]) auto
  let ?w3 = "?w2\<lparr>strs := strs ?w2 |` (- snd ` set ts), ents := ents ?w2 |` (- fst ` set ts), lists := (lists ?w2)(t := None)\<rparr>"
  have d: "list_destroy (Some t) ?w2 = Ok () ?w3" by (rule list_destroy_ok [OF t2 wf2])
  have "readline_exit l f t w = Ok () ?w3"
    using str_destroy_ok [OF assms(1)] str_destroy_ok [OF f1] d by (simp add: readline_exit_def nc_bind_def)
  moreover have "mod_lh (snd ` set ts) (fst ` set ts) {t} ?w2 ?w3" by (simp add: mod_lh_def)
  from mod_lh_trans [OF m2 this] have "mod_lh ({l, f} \<union> snd ` set ts) (fst ` set ts) {t} w ?w3" by simp
  moreover have "wf_lh ?w3"
    by (rule wf_lh_restrict [OF wf2]) (auto simp: restrict_map_def)
  ultimately show ?thesis by (rule that)
qed

text \<open>The last steps: the first line of the buffer is moved to the caller.\<close>

lemma readline_return:
  fixes w :: "('k, 'z) sock_heap_scheme"
  assumes "list_at w rb cs (x # xss)" "str_has w d y" "length cs < 2 ^ 64" "str_has w l a" "str_has w f b" "list_at w t [] []"
    "d \<notin> snd ` set cs" "l \<notin> snd ` set cs" "f \<notin> snd ` set cs" "l \<noteq> f" "d \<noteq> l" "d \<noteq> f" "t \<noteq> rb" "mem_ok w" "wf_lh w"
  obtains w' where "nc_bind (list_shift d rb) (\<lambda>_. readline_exit l f t) w = Ok () w'" "list_at w' rb (tl cs) xss" "str_has w' d x"
    "mod_lh (insert d ({l, f} \<union> snd ` set cs)) (fst ` set cs) {rb, t} w w'" "wf_lh w'"
proof -
  obtain w1 where w1: "list_shift d rb w = Ok () w1" "list_at w1 rb (tl cs) xss" "str_has w1 d x"
      "mod_lh {d, snd (hd cs)} (fst ` set cs) {rb} w w1"
    using list_shift_ok [OF assms(1,2,7,14,3,15)] by blast
  have cs: "cs \<noteq> []" using assms(1) by (auto simp: list_at_def)
  then have hd: "snd (hd cs) \<in> snd ` set cs" "snd ` set (tl cs) \<subseteq> snd ` set cs" by (auto dest: list.set_sel)
  have lt: "rb < brk w" "d < brk w" "snd ` set cs \<subseteq> {..<brk w}" "fst ` set cs \<subseteq> {..<brk w}"
    using list_cells_lt(1,2) [of w rb cs] vals_lt [of w cs "x # xss"] str_has_lt [OF _ assms(2)] assms(1,15) by (auto simp: list_at_def)
  have wf1: "wf_lh w1" by (rule mod_lh_wf [OF w1(4) assms(15)]) (use lt hd mod_lh_brk [OF w1(4)] in auto)
  have "l \<noteq> snd (hd cs)" "f \<noteq> snd (hd cs)" using hd(1) assms(8,9) by metis+
  then have h1: "str_has w1 l a" "str_has w1 f b" using mod_lh_has [OF w1(4)] assms(4,5,11,12) by auto
  have t1: "list_at w1 t [] []" by (rule list_at_frame [OF assms(6) w1(4)]) (use assms(13) in auto)
  obtain w2 where w2: "readline_exit l f t w1 = Ok () w2" "mod_lh ({l, f} \<union> snd ` set []) (fst ` set []) {t} w1 w2" "wf_lh w2"
    using readline_exit_ok [OF h1 t1 assms(10) _ _ wf1] by auto
  have m2: "mod_lh {l, f} {} {t} w1 w2" using w2(2) by simp
  have r2: "list_at w2 rb (tl cs) xss" by (rule list_at_frame [OF w1(2) m2]) (use assms(8,9,13) hd(2) in auto)
  have d2: "str_has w2 d x" using mod_lh_has [OF m2] w1(3) assms(11,12) by auto
  have m: "mod_lh (insert d ({l, f} \<union> snd ` set cs)) (fst ` set cs) {rb, t} w w2"
    by (rule mod_lh_mono [OF mod_lh_trans [OF w1(4) m2]]) (use hd(1) in auto)
  have "nc_bind (list_shift d rb) (\<lambda>_. readline_exit l f t) w = Ok () w2" using w1(1) w2(1) by (simp add: nc_bind_def)
  then show ?thesis using r2 d2 m w2(3) by (rule that)
qed

section \<open>Lines that are already buffered\<close>

text \<open>
  A socket whose buffer is a list of strings: \<open>sock_at w k so rb cs xss\<close>.
\<close>

definition sock_at ::
    "('k, 'z) sock_heap_scheme \<Rightarrow> nat \<Rightarrow> socket_t \<Rightarrow> nat \<Rightarrow> (nat \<times> nat) list \<Rightarrow> string list \<Rightarrow> bool" where
  "sock_at w k so rb cs xss \<longleftrightarrow> socks w k = Some so \<and> so_read_buf so = Some rb \<and> list_at w rb cs xss"

lemma sock_at_lt:
  assumes "sock_at w k so rb cs xss" "wf_lh w"
  shows "rb < brk w" "fst ` set cs \<subseteq> {..<brk w}" "snd ` set cs \<subseteq> {..<brk w}"
  using assms list_cells_lt(1,2) [of w rb cs] vals_lt [of w cs xss] by (auto simp: sock_at_def list_at_def)

lemma readline_buffered:
  assumes "sock_at w k so rb cs (x # xss)" "\<not> so_fragmented so" "str_has w d y" "d \<notin> snd ` set cs"
    "length cs < 2 ^ 64" "mem_ok w" "wf_lh w"
  obtains w' where "socket_readline os n d k w = Ok () w'" "sock_at w' k so rb (tl cs) xss" "str_has w' d x"
    "mod_lh (insert d (snd ` set cs \<union> {brk w..})) (fst ` set cs) (insert rb {brk w..}) w w'" "wf_lh w'"
proof -
  have at: "socks w k = Some so" "so_read_buf so = Some rb" "list_at w rb cs (x # xss)" using assms(1) by (auto simp: sock_at_def)
  note lt = sock_at_lt [OF assms(1,7)]
  have dl: "d < brk w" using str_has_lt [OF _ assms(3)] assms(7) by simp
  obtain l f t w3 where e: "socket_readline os n d k w = readline_body os n d k l f t w3"
      "mod_lh {l, f} {} {t} w w3" "str_has w3 l []" "str_has w3 f []" "list_at w3 t [] []" "wf_lh w3" "mem_ok w3"
      "brk w \<le> l" "l < f" "f < t" "t < brk w3"
    using readline_enter [OF assms(6,7), of "readline_body os n d k"] unfolding socket_readline_body by blast
  have ne: "t \<noteq> rb" "l \<notin> snd ` set cs" "f \<notin> snd ` set cs" "d \<noteq> l" "d \<noteq> f" using lt dl e(8-10) by auto
  have l3: "list_at w3 rb cs (x # xss)" by (rule list_at_frame [OF at(3) e(2)]) (use ne in auto)
  have d3: "str_has w3 d y" using mod_lh_has [OF e(2), of d y] assms(3) ne by simp
  obtain w5 where w5: "nc_bind (list_shift d rb) (\<lambda>_. readline_exit l f t) w3 = Ok () w5" "list_at w5 rb (tl cs) xss" "str_has w5 d x"
      "mod_lh (insert d ({l, f} \<union> snd ` set cs)) (fst ` set cs) {rb, t} w3 w5" "wf_lh w5"
    using readline_return [OF l3 d3 assms(5) e(3-5) assms(4) ne(2,3) _ ne(4,5,1) e(7,6)] e(9) by auto
  have cs: "cs \<noteq> []" using l3 by (auto simp: list_at_def)
  have m: "mod_lh (insert d (snd ` set cs \<union> {brk w..})) (fst ` set cs) (insert rb {brk w..}) w w5"
    by (rule mod_lh_mono [OF mod_lh_trans [OF e(2) w5(4)]]) (use e(8-10) in auto)
  have "socks w3 k = Some so" using mod_lh_socks [OF e(2)] at(1) by simp
  moreover have "0 < l_count (header cs)" "lists w3 rb = Some (header cs)" using cs l3 by (auto simp: list_at_def list_cells_def)
  ultimately have run: "socket_readline os n d k w = Ok () w5"
    using e(1) at(2) assms(2) w5(1) by (simp add: readline_body_def sock_run)
  have "sock_at w5 k so rb (tl cs) xss" using w5(2) at(1,2) mod_lh_socks [OF m] by (simp add: sock_at_def)
  then show ?thesis using that run w5(3,5) m by blast
qed

section \<open>Lines from the system\<close>

text \<open>
  \<open>answers os fd k rs k'\<close>: in state \<open>k\<close>, the next calls of read(2) on the descriptor answer \<open>rs\<close> and leave
  the state \<open>k'\<close>. \<open>payload\<close> is the data in the answers.
\<close>

primrec answers :: "'k os \<Rightarrow> int \<Rightarrow> 'k \<Rightarrow> (errno + string) list \<Rightarrow> 'k \<Rightarrow> bool" where
  "answers os fd k [] k' = (k' = k)"
| "answers os fd k (r # rs) k' =
     (case sys_read os fd (RECV_BUF_SIZE - 1) k of (r1, k1) \<Rightarrow> r1 = r \<and> answers os fd k1 rs k')"

definition payload :: "(errno + string) list \<Rightarrow> string" where
  "payload rs = concat (map (\<lambda>r. case r of Inl _ \<Rightarrow> [] | Inr c \<Rightarrow> c) rs)"

text \<open>Interruptions, and pieces without a line break\<close>

definition partial_answer :: "errno + string \<Rightarrow> bool" where
  "partial_answer r = (case r of Inl e \<Rightarrow> e = EINTR
     | Inr c \<Rightarrow> c \<noteq> [] \<and> length c < RECV_BUF_SIZE \<and> NUL \<notin> set c \<and> LF \<notin> set c)"

definition line_answer :: "errno + string \<Rightarrow> bool" where
  "line_answer r = (case r of Inl e \<Rightarrow> False | Inr c \<Rightarrow> length c < RECV_BUF_SIZE \<and> NUL \<notin> set c \<and> LF \<in> set c)"

lemma readline_loop_step:
  fixes w :: "('k, 'z) sock_heap_scheme"
  assumes "socks w s = Some so" "sys_read os (so_fd so) (RECV_BUF_SIZE - 1) (kern w) = (Inr c, k1)" "c \<noteq> []"
    "length c < RECV_BUF_SIZE" "NUL \<notin> set c" "str_has w l xs" "length xs + length c < STRING_MAX" "mem_ok w"
  shows "\<exists>w1. readline_loop (Suc n) os l s w = readline_check l s (readline_loop n os l s) w1 \<and>
    str_upd (w\<lparr>kern := k1\<rparr>) l (xs @ c) w1"
proof -
  have tw: "takeWhile (\<lambda>x. x \<noteq> NUL) c = c" using assms(5) by (auto simp: takeWhile_eq_all_conv)
  have "cread (CLit c) (w\<lparr>kern := k1\<rparr>) = Ok c (w\<lparr>kern := k1\<rparr>)"
    using assms(5) by (simp add: cread_def nc_simps cstr_terminated)
  then obtain w1 where w1: "str_cat l (CLit c) (w\<lparr>kern := k1\<rparr>) = Ok () w1" "str_upd (w\<lparr>kern := k1\<rparr>) l (xs @ c) w1"
    using str_cat_ok [of "w\<lparr>kern := k1\<rparr>" l xs "CLit c" c] assms(6-8) by auto
  have "readline_loop (Suc n) os l s w = readline_check l s (readline_loop n os l s) w1"
    using assms(1-4) w1(1) by (simp add: tw nc_bind_def get_sock_def syscall_def)
  with w1(2) show ?thesis by blast
qed

lemma readline_check_eval:
  fixes w :: "('k, 'z) sock_heap_scheme"
  assumes "str_has w l xs" "NUL \<notin> set xs" "socks w s = Some so"
  shows "readline_check l s again w =
    (if xs = [] then (if so_connected so then again w else Fail (-1) (w\<lparr>socks := (socks w)(s \<mapsto> so\<lparr>so_connected := False\<rparr>)\<rparr>))
     else if so_connected so \<and> LF \<notin> set xs then again w else Ok GotLine w)"
proof -
  obtain b where "strs w l = Some (str_of b (length xs))" using assms(1) by (rule str_hasE)
  then show ?thesis
    using cread_str_has [OF assms(1,2)] assms(3) by (simp add: readline_check_def sock_run get_str_def str_of_def strchr_def)
qed

lemma readline_loop_ok:
  fixes w :: "('k, 'z) sock_heap_scheme"
  assumes "answers os (so_fd so) (kern w) (rs @ [r]) k'" "\<forall>r\<in>set rs. partial_answer r" "line_answer r"
    "socks w s = Some so" "so_connected so" "str_has w l xs" "NUL \<notin> set xs" "LF \<notin> set xs"
    "length xs + length (payload (rs @ [r])) < STRING_MAX" "length rs < n" "mem_ok w" "wf_lh w"
  shows "\<exists>w'. readline_loop n os l s w = Ok GotLine w' \<and> str_upd (w\<lparr>kern := k'\<rparr>) l (xs @ payload (rs @ [r])) w'"
  using assms
proof (induction rs arbitrary: w xs n)
  case Nil
  obtain c where c: "r = Inr c" "length c < RECV_BUF_SIZE" "NUL \<notin> set c" "LF \<in> set c"
    using Nil.prems(3) by (cases r) (auto simp: line_answer_def)
  then have ne: "c \<noteq> []" by auto
  have rd: "sys_read os (so_fd so) (RECV_BUF_SIZE - 1) (kern w) = (Inr c, k')"
    using Nil.prems(1) c(1) by (auto split: prod.splits)
  have pl: "payload ([] @ [r]) = c" using c(1) by (simp add: payload_def)
  have len: "length xs + length c < STRING_MAX" using Nil.prems(9) pl by simp
  obtain m where n: "n = Suc m" using Nil.prems(10) by (cases n) auto
  obtain w1 where w1: "readline_loop n os l s w = readline_check l s (readline_loop m os l s) w1"
      "str_upd (w\<lparr>kern := k'\<rparr>) l (xs @ c) w1"
    using readline_loop_step [OF Nil.prems(4) rd ne c(2,3) Nil.prems(6) len Nil.prems(11), of m] n by auto
  have so: "socks w1 s = Some so" using str_upd_socks [OF w1(2)] Nil.prems(4) by simp
  have "readline_check l s (readline_loop m os l s) w1 = Ok GotLine w1"
    using readline_check_eval [OF str_upd_has [OF w1(2)] _ so, of "readline_loop m os l s"] c ne Nil.prems(7) by simp
  then show ?case using w1 unfolding pl by auto
next
  case (Cons q rs)
  obtain m where n: "n = Suc m" "length rs < m" using Cons.prems(10) by (cases n) auto
  obtain k1 where k1: "sys_read os (so_fd so) (RECV_BUF_SIZE - 1) (kern w) = (q, k1)" "answers os (so_fd so) k1 (rs @ [r]) k'"
    using Cons.prems(1) by (auto split: prod.splits)
  have ps: "\<forall>r\<in>set rs. partial_answer r" "partial_answer q" using Cons.prems(2) by auto
  show ?case
  proof (cases q)
    case (Inl e)
    then have e: "e = EINTR" using ps(2) by (simp add: partial_answer_def)
    have pl: "payload ((q # rs) @ [r]) = payload (rs @ [r])" using Inl by (simp add: payload_def)
    have "readline_loop n os l s w = readline_loop m os l s (w\<lparr>kern := k1\<rparr>)"
      using n(1) k1(1) Inl e Cons.prems(4) by (simp add: sock_run)
    moreover have "\<exists>w'. readline_loop m os l s (w\<lparr>kern := k1\<rparr>) = Ok GotLine w' \<and>
        str_upd ((w\<lparr>kern := k1\<rparr>)\<lparr>kern := k'\<rparr>) l (xs @ payload (rs @ [r])) w'"
      by (rule Cons.IH) (use k1(2) ps Cons.prems n(2) pl in auto)
    ultimately show ?thesis unfolding pl by simp
  next
    case (Inr c)
    then have c: "c \<noteq> []" "length c < RECV_BUF_SIZE" "NUL \<notin> set c" "LF \<notin> set c" using ps(2) by (auto simp: partial_answer_def)
    have pl: "payload ((q # rs) @ [r]) = c @ payload (rs @ [r])" using Inr by (simp add: payload_def)
    have len: "length xs + length c < STRING_MAX" using Cons.prems(9) pl by simp
    obtain w1 where w1: "readline_loop n os l s w = readline_check l s (readline_loop m os l s) w1"
        "str_upd (w\<lparr>kern := k1\<rparr>) l (xs @ c) w1"
      using readline_loop_step [OF Cons.prems(4) k1(1) [unfolded Inr] c(1-3) Cons.prems(6) len Cons.prems(11), of m] n(1) by auto
    have so: "socks w1 s = Some so" "kern w1 = k1" using str_upd_socks [OF w1(2)] Cons.prems(4) by simp_all
    have up: "wf_lh w1" "str_has w1 l (xs @ c)" "mem_ok w1"
      using str_upd_lh [OF w1(2), of xs] Cons.prems(6,11,12) by auto
    have "readline_check l s (readline_loop m os l s) w1 = readline_loop m os l s w1"
      using readline_check_eval [OF up(2) _ so(1), of "readline_loop m os l s"] c Cons.prems(5,7,8) by simp
    moreover have "\<exists>w'. readline_loop m os l s w1 = Ok GotLine w' \<and>
        str_upd (w1\<lparr>kern := k'\<rparr>) l ((xs @ c) @ payload (rs @ [r])) w'"
      by (rule Cons.IH) (use k1(2) ps Cons.prems(3,5,7-9) c so up n(2) pl in auto)
    ultimately obtain w' where w': "readline_loop n os l s w = Ok GotLine w'"
        "str_upd (w1\<lparr>kern := k'\<rparr>) l ((xs @ c) @ payload (rs @ [r])) w'" using w1(1) by auto
    have "str_upd (w\<lparr>kern := k'\<rparr>) l ((xs @ c) @ payload (rs @ [r])) w'"
      by (rule str_upd_trans [OF str_upd_kern [OF w1(2), of k', simplified] w'(2)])
    then show ?thesis using w'(1) unfolding pl by auto
  qed
qed

section \<open>Storing and returning lines\<close>

text \<open>The lines of a text: cut at the line feeds, without line ends\<close>

definition text_lines :: "string \<Rightarrow> string list" where
  "text_lines xs = map chomp (split_on LF (chomp xs))"

lemma text_lines_ne [simp]: "text_lines xs \<noteq> []"
  by (simp add: text_lines_def)

lemma LF_int: "int_char 10 = LF" "char_int c = 10 \<longleftrightarrow> c = LF"
proof -
  show "int_char 10 = LF" by code_simp
  have "char_int LF = 10" by code_simp
  then show "char_int c = 10 \<longleftrightarrow> c = LF" by (metis int_char_char_int)
qed

lemma readline_store_ok:
  fixes w :: "('k, 'z) sock_heap_scheme"
  assumes "sock_at w k so rb [] []" "\<not> so_fragmented so" "str_has w l xs" "xs \<noteq> []" "NUL \<notin> set xs" "length xs < STRING_MAX"
    "list_at w t [] []" "t \<noteq> rb" "mem_ok w" "wf_lh w"
  obtains w' es where "readline_store l f t k w = Ok () w'"
    "sock_at w' k (so\<lparr>so_fragmented := last xs \<noteq> LF\<rparr>) rb es (text_lines xs)"
    "list_at w' t [] []" "mod_mem {brk w..} {brk w..} {t, rb} w w'" "wf_lh w'" "set es \<subseteq> {brk w..} \<times> {brk w..}" "kern w' = kern w"
    "length es < 2 ^ 64"
proof -
  have at: "socks w k = Some so" "so_read_buf so = Some rb" "list_at w rb [] []" using assms(1) by (auto simp: sock_at_def)
  have tp: "map (token_post 10) (split_on (int_char 10) (chomp xs)) = text_lines xs"
    by (simp add: token_post_def [abs_def] text_lines_def LF_int)
  have nn: "int_char 10 \<noteq> NUL" by (simp add: LF_int)
  from str_split_ok [OF assms(3,5,4,6) nn assms(7) _ assms(9,10)]
  obtain w1 es where w1: "str_split t l 10 w = Ok () w1" "list_at w1 t es (text_lines xs)"
      "mod_lh {brk w..} {brk w..} {t} w w1" "wf_lh w1" "set es \<subseteq> {brk w..} \<times> {brk w..}"
    unfolding tp by auto
  have r1: "list_at w1 rb [] []" by (rule list_at_frame [OF at(3) w1(3)]) (use assms(8) in auto)
  have "length (text_lines xs) \<le> Suc (length (chomp xs))" using split_on_length [of LF "chomp xs"] by (simp add: text_lines_def)
  moreover have "length (chomp xs) \<le> length xs" by (simp add: chomp_def chomp1_def)
  moreover have "length es = length (text_lines xs)" using w1(2) vals_length [of w1 es "text_lines xs"] by (simp add: list_at_def)
  moreover have "Suc STRING_MAX < 2 ^ 64" by (simp add: STRING_MAX_def)
  ultimately have len: "length es < 2 ^ 64" using assms(6) by linarith
  obtain w2 where w2: "list_merge rb t w1 = Ok () w2" "list_at w2 rb es (text_lines xs)" "list_at w2 t [] []" "mod_lh {} {} {rb, t} w1 w2"
    using list_merge_empty_ok [OF r1 w1(2) _ len] assms(8) by auto
  have b: "brk w \<le> brk w1" "brk w1 \<le> brk w2" using mod_lh_brk [OF w1(3)] mod_lh_brk [OF w2(4)] by auto
  have tl: "rb < brk w1" "t < brk w1" using list_cells_lt(1) [of w1 rb "[]"] list_cells_lt(1) [of w1 t es] r1 w1(2,4) by (auto simp: list_at_def)
  have wf2: "wf_lh w2" by (rule mod_lh_wf [OF w2(4) w1(4)]) (use tl b in auto)
  have "l < brk w" using str_has_lt [OF _ assms(3)] assms(10) by simp
  then have h2: "str_has w2 l xs" using mod_lh_has [OF w1(3), of l xs] mod_lh_has [OF w2(4), of l xs] assms(3) by simp
  let ?so = "so\<lparr>so_fragmented := last xs \<noteq> LF\<rparr>"
  let ?w3 = "w2\<lparr>socks := (socks w2)(k \<mapsto> ?so)\<rparr>"
  have so: "socks w1 k = Some so" "socks w2 k = Some so" "kern w2 = kern w"
    using mod_lh_socks [OF w1(3)] mod_lh_socks [OF w2(4)] at(1) by simp_all
  have "readline_store l f t k w = nc_catch (str_cmp_terminator l 10) (\<lambda>_. upd_sock k (\<lambda>s. s\<lparr>so_fragmented := False\<rparr>))
      (\<lambda>_. upd_sock k (\<lambda>s. s\<lparr>so_fragmented := True\<rparr>)) w2"
    using w1(1) w2(1) so(1) at(2) assms(2) by (simp add: readline_store_def nc_bind_def get_sock_def deref_def nc_return_def nc_when_def)
  also have "\<dots> = Ok () ?w3"
    using str_cmp_terminator_eval [OF h2, of 10] so(2) assms(4) by (simp add: nc_catch_def upd_sock_def LF_int)
  finally have run: "readline_store l f t k w = Ok () ?w3" .
  have s3: "sock_at ?w3 k ?so rb es (text_lines xs)" using at(2) w2(2) by (simp add: sock_at_def)
  have m3: "mod_mem {brk w..} {brk w..} {t, rb} w ?w3"
    using mod_mem_mono [OF mod_mem_trans [OF mod_lh_mem [OF w1(3)] mod_lh_mem [OF w2(4)]], of "{brk w..}" "{brk w..}" "{t, rb}"] by auto
  show ?thesis
    by (rule that [of ?w3 es]) (use run s3 m3 w2(3) wf2 w1(5) so(3) len in auto)
qed

text \<open>A line from the system: the first one is returned, the others are kept.\<close>

lemma readline_fresh:
  fixes w :: "('k, 'z) sock_heap_scheme"
  assumes "sock_at w k so rb [] []" "\<not> so_fragmented so" "so_connected so" "str_has w d y"
    "answers os (so_fd so) (kern w) (rs @ [r]) k'" "\<forall>r\<in>set rs. partial_answer r" "line_answer r"
    "length (payload (rs @ [r])) < STRING_MAX" "length rs < n" "mem_ok w" "wf_lh w"
  obtains w' es where "socket_readline os n d k w = Ok () w'" "str_has w' d (hd (text_lines (payload (rs @ [r]))))"
    "sock_at w' k (so\<lparr>so_fragmented := last (payload (rs @ [r])) \<noteq> LF\<rparr>) rb es (tl (text_lines (payload (rs @ [r]))))"
    "kern w' = k'" "mod_mem (insert d {brk w..}) {brk w..} (insert rb {brk w..}) w w'" "wf_lh w'"
    "set es \<subseteq> {brk w..} \<times> {brk w..}" "length es < 2 ^ 64"
proof -
  let ?P = "payload (rs @ [r])"
  obtain c where c: "r = Inr c" "NUL \<notin> set c" "LF \<in> set c" using assms(7) by (cases r) (auto simp: line_answer_def)
  have P: "?P \<noteq> []" "NUL \<notin> set ?P"
    using c assms(6) by (auto simp: payload_def partial_answer_def split: sum.splits)
  have at: "socks w k = Some so" "so_read_buf so = Some rb" "list_at w rb [] []" using assms(1) by (auto simp: sock_at_def)
  have lt: "rb < brk w" "d < brk w" using sock_at_lt [OF assms(1,11)] str_has_lt [OF _ assms(4)] assms(11) by auto
  obtain l f t w3 where e: "socket_readline os n d k w = readline_body os n d k l f t w3"
      "mod_lh {l, f} {} {t} w w3" "str_has w3 l []" "str_has w3 f []" "list_at w3 t [] []" "wf_lh w3" "mem_ok w3"
      "brk w \<le> l" "l < f" "f < t" "t < brk w3"
    using readline_enter [OF assms(10,11), of "readline_body os n d k"] unfolding socket_readline_body by blast
  have s3: "socks w3 k = Some so" "kern w3 = kern w" using mod_lh_socks [OF e(2)] at(1) by simp_all
  have r3: "list_at w3 rb [] []" by (rule list_at_frame [OF at(3) e(2)]) (use lt e(8-10) in auto)
  have an: "answers os (so_fd so) (kern w3) (rs @ [r]) k'" using assms(5) s3(2) by simp
  have len: "length [] + length ?P < STRING_MAX" using assms(8) by simp
  obtain w4 where w4: "readline_loop n os l k w3 = Ok GotLine w4" "str_upd (w3\<lparr>kern := k'\<rparr>) l ?P w4"
    using readline_loop_ok [OF an assms(6,7) s3(1) assms(3) e(3) _ _ len assms(9) e(7,6)] by auto
  have h3: "str_has (w3\<lparr>kern := k'\<rparr>) l []" "wf_lh (w3\<lparr>kern := k'\<rparr>)" using e(3,6) by simp_all
  note u4 = str_upd_lh [OF w4(2) h3]
  have m4: "mod_mem {l} {} {} w3 w4" using mod_lh_mem [OF u4(1)] by simp
  have "list_at w4 t [] []" "list_at w4 rb [] []"
    by (rule mod_mem_list_at [OF e(5) m4]; simp) (rule mod_mem_list_at [OF r3 m4]; simp)
  moreover have "socks w4 k = Some so" "kern w4 = k'" using str_upd_socks [OF w4(2)] s3(1) by simp_all
  ultimately have a4: "sock_at w4 k so rb [] []" "list_at w4 t [] []" "kern w4 = k'" using at(2) by (simp_all add: sock_at_def)
  have m4': "mem_ok w4" using u4(4) e(7) by simp
  have tr: "t \<noteq> rb" using lt e(8-10) by simp
  obtain w5 es where w5: "readline_store l f t k w4 = Ok () w5" "sock_at w5 k (so\<lparr>so_fragmented := last ?P \<noteq> LF\<rparr>) rb es (text_lines ?P)"
      "list_at w5 t [] []" "mod_mem {brk w4..} {brk w4..} {t, rb} w4 w5" "wf_lh w5" "set es \<subseteq> {brk w4..} \<times> {brk w4..}" "kern w5 = kern w4"
      "length es < 2 ^ 64"
    using readline_store_ok [OF a4(1) assms(2) u4(3) P assms(8) a4(2) tr m4' u4(2)] by blast
  let ?so = "so\<lparr>so_fragmented := last ?P \<noteq> LF\<rparr>"
  have b: "brk w \<le> brk w3" "brk w3 \<le> brk w4" "brk w4 \<le> brk w5"
    using mod_lh_brk [OF e(2)] m4 w5(4) by (simp_all add: mod_mem_def)
  have m5: "mod_mem ({l, f} \<union> ({l} \<union> {brk w4..})) ({} \<union> ({} \<union> {brk w4..})) ({t} \<union> ({} \<union> {t, rb})) w w5"
    by (rule mod_mem_trans [OF mod_lh_mem [OF e(2)] mod_mem_trans [OF m4 w5(4)]])
  have es: "snd ` set es \<subseteq> {brk w4..}" "fst ` set es \<subseteq> {brk w4..}" using w5(6) by auto
  have nd: "d \<notin> snd ` set es" "l \<notin> snd ` set es" "f \<notin> snd ` set es" "d \<noteq> l" "d \<noteq> f"
    using es(1) lt b e(8-11) by auto
  have d5: "str_has w5 d y" using mod_mem_has [OF m5, of d y] assms(4) nd lt b by auto
  have h5: "str_has w5 l ?P" "str_has w5 f []"
    using mod_mem_has [OF w5(4), of l ?P] u4(3) mod_mem_has [OF w5(4), of f "[]"] mod_mem_has [OF m4, of f "[]"] e(4,9-11) b by auto
  have ok5: "mem_ok w5" using mod_mem_ok [OF w5(4)] m4' by simp
  have L: "text_lines ?P = hd (text_lines ?P) # tl (text_lines ?P)" by simp
  have a5: "socks w5 k = Some ?so" "list_at w5 rb es (hd (text_lines ?P) # tl (text_lines ?P))"
    using w5(2) L by (auto simp: sock_at_def)
  obtain w7 where w7: "nc_bind (list_shift d rb) (\<lambda>_. readline_exit l f t) w5 = Ok () w7" "list_at w7 rb (tl es) (tl (text_lines ?P))"
      "str_has w7 d (hd (text_lines ?P))" "mod_lh (insert d ({l, f} \<union> snd ` set es)) (fst ` set es) {rb, t} w5 w7" "wf_lh w7"
    using readline_return [OF a5(2) d5 w5(8) h5 w5(3) nd(1-3) _ nd(4,5) tr ok5 w5(5)] e(9) by auto
  have k7: "socks w7 = socks w5" "kern w7 = k'" using mod_lh_socks [OF w7(4)] w5(7) a4(3) by simp_all
  have run: "socket_readline os n d k w = Ok () w7"
    using e(1) s3(1) at(2) r3 assms(2) w4(1) w5(1) w7(1) a5(1)
    by (simp add: readline_body_def nc_bind_def get_sock_def deref_def nc_return_def get_list_def list_at_def list_cells_def header_Nil empty_list_def)
  have m: "mod_mem (insert d {brk w..}) {brk w..} (insert rb {brk w..}) w w7"
    by (rule mod_mem_mono [OF mod_mem_trans [OF m5 mod_lh_mem [OF w7(4)]]]) (use es b e(8-11) in auto)
  show ?thesis
  proof (rule that [of w7 "tl es"])
    show "sock_at w7 k ?so rb (tl es) (tl (text_lines ?P))" using w7(2) k7(1) a5(1) at(2) by (simp add: sock_at_def)
    show "set (tl es) \<subseteq> {brk w..} \<times> {brk w..}" using w5(6) b by (cases es) auto
    show "length (tl es) < 2 ^ 64" using w5(8) by simp
  qed (use run k7(2) m w7(3,5) in auto)
qed

section \<open>A whole text\<close>

text \<open>Lines that each end with \<open>pre @ [LF]\<close>, where \<open>pre\<close> is empty or a carriage return\<close>

lemma split_on_lines:
  "\<forall>x\<in>set xss. LF \<notin> set x \<Longrightarrow> LF \<notin> set pre \<Longrightarrow> LF \<notin> set y \<Longrightarrow>
     split_on LF (concat (map (\<lambda>x. x @ pre @ [LF]) xss) @ y) = map (\<lambda>x. x @ pre) xss @ [y]"
proof (induction xss)
  case (Cons x xss)
  then show ?case using split_on_append [of LF "x @ pre" "concat (map (\<lambda>x. x @ pre @ [LF]) xss) @ y"] by simp
qed (simp add: split_on_plain)

lemma chomp_last_line:
  assumes "pre = [] \<or> pre = [CR]" "CR \<notin> set y" "xs = [] \<or> last xs = LF"
  shows "chomp (xs @ y @ pre @ [LF]) = xs @ y"
proof (cases "pre = []")
  case True
  have "xs @ y = [] \<or> last (xs @ y) \<noteq> CR" using assms(2,3) by (cases y rule: rev_cases) auto
  then have "chomp1 CR (xs @ y) = xs @ y" by (auto simp: chomp1_def)
  moreover have "chomp1 LF ((xs @ y) @ [LF]) = xs @ y" by (simp add: chomp1_def del: append_assoc)
  ultimately show ?thesis using True by (simp add: chomp_def)
next
  case False
  then show ?thesis using assms(1) chomp_CRLF [of "xs @ y"] by simp
qed

lemma text_lines_lines:
  assumes "pre = [] \<or> pre = [CR]" "xss \<noteq> []" "\<forall>x\<in>set xss. LF \<notin> set x \<and> CR \<notin> set x"
  shows "text_lines (concat (map (\<lambda>x. x @ pre @ [LF]) xss)) = xss"
proof -
  obtain yss y where xss: "xss = yss @ [y]" using assms(2) by (metis rev_exhaust)
  let ?A = "concat (map (\<lambda>x. x @ pre @ [LF]) yss)"
  have "?A = [] \<or> last ?A = LF" by (cases yss rule: rev_cases) auto
  then have "chomp (?A @ y @ pre @ [LF]) = ?A @ y" using chomp_last_line [OF assms(1)] assms(3) xss by simp
  moreover have "LF \<notin> set pre" using assms(1) by auto
  then have "split_on LF (?A @ y) = map (\<lambda>x. x @ pre) yss @ [y]" using split_on_lines assms(3) xss by simp
  moreover have pl: "chomp x = x" if "x \<in> set xss" for x using that assms(3) by (intro chomp_plain) (metis insert_iff empty_iff last_in_set)
  have "map (\<lambda>x. chomp (x @ pre)) yss = yss"
  proof (rule map_idI)
    fix x assume "x \<in> set yss"
    then have x: "x \<in> set xss" using xss by simp
    have "chomp (x @ [CR]) = x" by (simp add: chomp_def chomp1_def)
    then show "chomp (x @ pre) = x" using assms(1) pl [OF x] by auto
  qed
  ultimately show ?thesis using xss pl [of y] by (simp add: text_lines_def comp_def)
qed

primrec readlines :: "'k os \<Rightarrow> nat \<Rightarrow> nat list \<Rightarrow> nat \<Rightarrow> (unit, 'k, 'z) snc" where
  "readlines os n [] k = nc_return ()"
| "readlines os n (d # ds) k = nc_bind (socket_readline os n d k) (\<lambda>_. readlines os n ds k)"

lemma readlines_buffered:
  fixes w :: "('k, 'z) sock_heap_scheme"
  assumes "sock_at w k so rb cs (xss @ yss)" "\<not> so_fragmented so" "length ds = length xss" "distinct ds"
    "\<forall>d\<in>set ds. d \<notin> snd ` set cs \<and> (\<exists>y. str_has w d y)" "length cs < 2 ^ 64" "mem_ok w" "wf_lh w"
  shows "\<exists>w' cs'. readlines os n ds k w = Ok () w' \<and> list_all2 (str_has w') ds xss \<and> sock_at w' k so rb cs' yss \<and> kern w' = kern w \<and>
    (\<forall>e z. e \<notin> set ds \<longrightarrow> e \<notin> snd ` set cs \<longrightarrow> str_has w e z \<longrightarrow> str_has w' e z)"
  using assms
proof (induction ds arbitrary: w xss cs)
  case Nil
  then show ?case by (auto simp: nc_return_def)
next
  case (Cons d ds)
  obtain x xs where xss: "xss = x # xs" using Cons.prems(3) by (cases xss) auto
  obtain y where d: "str_has w d y" "d \<notin> snd ` set cs" using Cons.prems(5) by auto
  obtain w1 where w1: "socket_readline os n d k w = Ok () w1" "sock_at w1 k so rb (tl cs) (xs @ yss)" "str_has w1 d x"
      "mod_lh (insert d (snd ` set cs \<union> {brk w..})) (fst ` set cs) (insert rb {brk w..}) w w1" "wf_lh w1"
    using readline_buffered [of w k so rb cs x "xs @ yss", OF _ Cons.prems(2) d Cons.prems(6-8)] Cons.prems(1) xss by auto
  have keep: "str_has w1 e z" if "e \<noteq> d" "e \<notin> snd ` set cs" "str_has w e z" for e z
    using mod_lh_has [OF w1(4), of e z] str_has_lt [OF _ that(3)] Cons.prems(8) that by auto
  have tl: "snd ` set (tl cs) \<subseteq> snd ` set cs" by (cases cs) auto
  have len: "length ds = length xs" using Cons.prems(3) xss by simp
  have tll: "length (tl cs) < 2 ^ 64" using Cons.prems(6) by (rule le_less_trans [rotated]) simp
  have pre: "\<forall>e\<in>set ds. e \<notin> snd ` set (tl cs) \<and> (\<exists>y. str_has w1 e y)"
  proof
    fix e assume e: "e \<in> set ds"
    then have "e \<noteq> d" "e \<notin> snd ` set cs" using Cons.prems(4,5) by auto
    moreover obtain z where "str_has w e z" using e Cons.prems(5) by auto
    ultimately show "e \<notin> snd ` set (tl cs) \<and> (\<exists>y. str_has w1 e y)" using keep tl by blast
  qed
  obtain w2 cs' where w2: "readlines os n ds k w1 = Ok () w2" "list_all2 (str_has w2) ds xs" "sock_at w2 k so rb cs' yss" "kern w2 = kern w1"
      "\<forall>e z. e \<notin> set ds \<longrightarrow> e \<notin> snd ` set (tl cs) \<longrightarrow> str_has w1 e z \<longrightarrow> str_has w2 e z"
    using Cons.IH [OF w1(2) Cons.prems(2) len _ pre tll _ w1(5)] Cons.prems(4,7) mod_lh_mem_ok [OF w1(4)] by auto
  have "d \<notin> set ds" "d \<notin> snd ` set (tl cs)" using Cons.prems(4) d(2) tl by auto
  then have dx: "str_has w2 d x" using w2(5) w1(3) by blast
  have "\<forall>e z. e \<notin> set (d # ds) \<longrightarrow> e \<notin> snd ` set cs \<longrightarrow> str_has w e z \<longrightarrow> str_has w2 e z"
  proof (intro allI impI)
    fix e z assume e: "e \<notin> set (d # ds)" "e \<notin> snd ` set cs" "str_has w e z"
    then have "str_has w1 e z" using keep by simp
    then show "str_has w2 e z" using w2(5) e(1,2) tl by (meson list.set_intros(2) subsetD)
  qed
  moreover have "readlines os n (d # ds) k w = Ok () w2" using w1(1) w2(1) by (simp add: nc_bind_def)
  moreover have "list_all2 (str_has w2) (d # ds) xss" "kern w2 = kern w" using w2(2,4) dx xss mod_lh_socks [OF w1(4)] by simp_all
  ultimately show ?case using w2(3) by blast
qed

section \<open>Timeout\<close>

lemma mod_lh_sock_more:
  fixes w :: "('k, 'z) sock_heap_scheme"
  assumes "mod_lh S E L w w'"
  shows "sock_heap.more w' = sock_heap.more w"
  using assms by (cases w; cases w'; simp add: mod_lh_def)

lemma readline_timeout:
  fixes w :: "('k, 'z) sock_heap_scheme"
  assumes "sock_at w k so rb cs xss" "so_fragmented so \<or> xss = []"
    "sys_read os (so_fd so) (RECV_BUF_SIZE - 1) (kern w) = (Inl EAGAIN, k')" "mem_ok w" "wf_lh w"
  obtains w' where "socket_readline os (Suc n) d k w = Ok () w'" "mod_mem {brk w..} {} {brk w..} w w'" "wf_lh w'" "kern w' = k'"
    "socks w' = (socks w)(k \<mapsto> so\<lparr>so_timeout := True\<rparr>)" "sock_heap.more w' = sock_heap.more w"
proof -
  have at: "socks w k = Some so" "so_read_buf so = Some rb" "list_at w rb cs xss" using assms(1) by (auto simp: sock_at_def)
  note lt = sock_at_lt [OF assms(1,5)]
  obtain l f t w3 where e: "socket_readline os (Suc n) d k w = readline_body os (Suc n) d k l f t w3"
      "mod_lh {l, f} {} {t} w w3" "str_has w3 l []" "str_has w3 f []" "list_at w3 t [] []" "wf_lh w3" "mem_ok w3"
      "brk w \<le> l" "l < f" "f < t" "t < brk w3"
    using readline_enter [OF assms(4,5), of "readline_body os (Suc n) d k"] unfolding socket_readline_body by blast
  have s3: "socks w3 = socks w" "kern w3 = kern w" using mod_lh_socks [OF e(2)] by simp_all
  have r3: "list_at w3 rb cs xss" by (rule list_at_frame [OF at(3) e(2)]) (use lt e(8-10) in auto)
  let ?w4 = "w3\<lparr>kern := k', socks := (socks w)(k \<mapsto> so\<lparr>so_timeout := True\<rparr>)\<rparr>"
  have h4: "str_has ?w4 l []" "str_has ?w4 f []" "list_at ?w4 t [] []" "wf_lh ?w4" using e(3-6) by simp_all
  obtain w5 where w5: "readline_exit l f t ?w4 = Ok () w5" "mod_lh ({l, f} \<union> snd ` set []) (fst ` set []) {t} ?w4 w5" "wf_lh w5"
    using readline_exit_ok [OF h4(1-3) _ _ _ h4(4)] e(9) by auto
  have m5: "mod_lh {l, f} {} {t} ?w4 w5" using w5(2) by simp
  have hd: "lists w3 rb = Some (header cs)" "xss = [] \<Longrightarrow> cs = []" using r3 by (auto simp: list_at_def list_cells_def)
  then have "\<not> (0 < l_count (header cs) \<and> \<not> so_fragmented so)" using assms(2) by auto
  then have "socket_readline os (Suc n) d k w = Ok () w5"
    using e(1) s3 at(1,2) hd(1) assms(3) w5(1)
    by (cases "so_fragmented so") (simp_all add: readline_body_def nc_bind_def get_sock_def deref_def nc_return_def get_list_def syscall_def upd_sock_def)
  moreover have "mod_mem ({l, f} \<union> {l, f}) ({} \<union> {}) ({t} \<union> {t}) w w5"
    using mod_mem_trans [OF mod_lh_mem [OF e(2)], of "{l, f}" "{}" "{t}" w5] mod_lh_mem [OF m5] by simp
  then have "mod_mem {brk w..} {} {brk w..} w w5" by (rule mod_mem_mono) (use e(8-10) in auto)
  moreover have "sock_heap.more w5 = sock_heap.more w" using mod_lh_sock_more [OF m5] mod_lh_sock_more [OF e(2)] by simp
  ultimately show ?thesis using that [of w5] w5(3) mod_lh_socks [OF m5] by simp
qed

end
