(* ===== verification/NC_Socket_Props.thy ===== *)
theory NC_Socket_Props
  imports NC_Socket_Laws NC_String_Props
begin

text \<open>
  The properties of sockets, with witnesses on a concrete memory and a system that answers read(2)
  from a list.
\<close>

section \<open>A concrete system and memory\<close>

type_synonym script = "(errno + string) list"

definition script_read :: "(string, script) syscall" where
  "script_read k = (case k of [] \<Rightarrow> (Inr [], []) | r # rs \<Rightarrow> (r, rs))"

definition script_os :: "script os" where
  "script_os = \<lparr>sys_read = (\<lambda>fd n. script_read), sys_write = (\<lambda>fd cs k. (Inr (length cs), k)), sys_close = (\<lambda>fd k. (Inr (), k)),
     sys_socket = (\<lambda>family k. (Inr 3, k)), sys_timeo = (\<lambda>fd rd sec k. (Inr (), k)), sys_reuse = (\<lambda>fd k. (Inr (), k)),
     sys_nonblock = (\<lambda>fd b k. (Inr (), k)), sys_bind = (\<lambda>fd a k. (Inr (), k)), sys_connect = (\<lambda>fd a k. (Inr (), k)),
     sys_listen = (\<lambda>fd n k. (Inr (), k)), sys_accept = (\<lambda>fd k. (Inr 4, k)), sys_getpeername = (\<lambda>fd k. (Inr zero_addr, k)),
     sys_select = (\<lambda>fd want t k. (Inr None, k)), sys_peercred = (\<lambda>fd k. (Inr (0, 0), k)), sys_stat = (\<lambda>p k. (Inl ENOENT, k)),
     sys_unlink = (\<lambda>p k. (Inr (), k)), sys_chmod = (\<lambda>p m k. (Inr (), k)), sys_chown = (\<lambda>p u g k. (Inr (), k)),
     sys_getuid = 1000, inet_addr = (\<lambda>cs. (0, 0, 0, 0)), getpwnam = (\<lambda>n k. (Inr None, k)), getpwuid = (\<lambda>n k. (Inr None, k)),
     getgrnam = (\<lambda>n k. (Inr None, k)), getgrgid = (\<lambda>n k. (Inr None, k))\<rparr>"

definition ksock :: socket_t where
  "ksock = zero_socket\<lparr>so_fd := 4, so_family := PF_INET, so_direction := CONNECT, so_connected := True, so_read_buf := Some 3\<rparr>"

definition kmem :: "script sock_heap" where
  "kmem = \<lparr>strs = [0 \<mapsto> lit_str [], 1 \<mapsto> lit_str ''0.0.0.0'', 7 \<mapsto> lit_str ''b''],
    brk = 8, malloc_ok = (\<lambda>_ _. True),
    ents = [6 \<mapsto> \<lparr>e_value = Some 7, e_next = None, e_prev = None\<rparr>],
    lists = [3 \<mapsto> empty_list, 5 \<mapsto> \<lparr>l_count = 1, l_head = Some 6, l_tail = Some 6\<rparr>],
    hashes = Map.empty, kern = [Inr ''HE'', Inl EINTR, Inr (''LO'' @ [CR, LF] @ ''QUIT'' @ [CR, LF])],
    socks = [2 \<mapsto> ksock, 4 \<mapsto> ksock\<lparr>so_read_buf := Some 5, so_fragmented := True\<rparr>]\<rparr>"

lemma kmem_has: "str_has kmem 0 []" "str_has kmem 1 ''0.0.0.0''" "str_has kmem 7 ''b''"
  by (rule lit_str_has; simp add: kmem_def STRING_MAX_def)+

lemma kmem_wf: "wf_lh kmem" "mem_ok kmem"
  by (auto simp: wf_lh_def wf_strs_def kmem_def mem_ok_def split: if_splits)

lemma kmem_at:
  "sock_at kmem 2 ksock 3 [] []" "sock_at kmem 4 (ksock\<lparr>so_read_buf := Some 5, so_fragmented := True\<rparr>) 5 [(6, 7)] [''b'']"
proof -
  show "sock_at kmem 2 ksock 3 [] []"
    by (simp add: sock_at_def list_at_def list_cells_def header_Nil) (simp add: kmem_def ksock_def)
  have "vals kmem [(6, 7)] [''b'']" using kmem_has(3) by simp
  then show "sock_at kmem 4 (ksock\<lparr>so_read_buf := Some 5, so_fragmented := True\<rparr>) 5 [(6, 7)] [''b'']"
    by (simp add: sock_at_def list_at_def list_cells_def header_def) (simp add: kmem_def)
qed

section \<open>Life of a socket\<close>

text \<open>
  C38. \<^verbatim>\<open>socket_new\<close> and \<^verbatim>\<open>socket_destroy\<close> balance: a new socket has no descriptor and no family, and destroying it
  frees the socket and its input buffer and leaves every other object as it was.
\<close>

theorem socket_lifetime:
  fixes w :: "('k, 'z) sock_heap_scheme"
  assumes "mem_ok w" "wf_lh w" "socks w (brk w) = None"
  shows "\<exists>s w1 so w2. socket_new None w = Ok s w1 \<and> socks w1 s = Some so \<and> so_fd so = -1 \<and> so_family so = -1 \<and> \<not> so_connected so \<and>
    socket_destroy (Some s) w1 = Ok () w2 \<and> w2 = w\<lparr>brk := brk w2\<rparr>"
proof -
  let ?s = "brk w" and ?l = "Suc (brk w)"
  let ?so = "zero_socket\<lparr>so_read_buf := Some ?l, so_fd := -1, so_direction := UNKNOWN, so_family := -1,
      so_local := (so_local zero_socket)\<lparr>sa_family := 65535\<rparr>\<rparr>"
  let ?w1 = "w\<lparr>lists := (lists w)(?l \<mapsto> empty_list), brk := Suc ?l, socks := (socks w)(?s \<mapsto> ?so)\<rparr>"
  have new: "socket_new None w = Ok ?s ?w1"
    using assms(1) by (simp add: socket_new_def calloc_sock_def sock_run list_new_def calloc_list_def mem_ok_def)
      (simp add: zero_socket_def)
  have fresh: "lists w ?l = None"
  proof (rule ccontr)
    assume "lists w ?l \<noteq> None"
    then have "?l < brk w" using assms(2) unfolding wf_lh_def by blast
    then show False by simp
  qed
  have le: "list_at ?w1 ?l [] []" by (simp add: list_at_def list_cells_def header_Nil)
  have wf1: "wf_lh ?w1" using assms(2) by (auto simp: wf_lh_def wf_strs_def less_Suc_eq)
  let ?w2 = "w\<lparr>brk := Suc ?l\<rparr>"
  have "(lists w)(?l := None) = lists w" "(socks w)(?s := None) = socks w" using fresh assms(3) by auto
  then have "socket_destroy (Some ?s) ?w1 = Ok () ?w2"
    using list_destroy_ok [OF le wf1] by (simp add: socket_destroy_def sock_run free_sock_def)
  moreover have "\<not> so_connected zero_socket" by (simp add: zero_socket_def)
  ultimately show ?thesis using new by auto
qed

theorem socket_lifetime_witness:
  "\<exists>s w1 so w2. socket_new None kmem = Ok s w1 \<and> socks w1 s = Some so \<and> so_fd so = -1 \<and> so_family so = -1 \<and> \<not> so_connected so \<and>
    socket_destroy (Some s) w1 = Ok () w2 \<and> w2 = kmem\<lparr>brk := brk w2\<rparr>"
  by (rule socket_lifetime [OF kmem_wf(2,1)]) (simp add: kmem_def)

section \<open>Reading lines\<close>

text \<open>
  C5. A client that sends a text of lines, each ended by a line feed or by a carriage return and a line feed,
  is understood line by line: whatever the pieces in which read(2) delivers the text, and whatever signals
  interrupt it, as long as the first line break comes with the last piece, the calls of \<^verbatim>\<open>socket_readline\<close>
  return exactly the lines, in order and without line ends.
\<close>

theorem socket_readline_text:
  fixes w :: "('k, 'z) sock_heap_scheme"
  assumes "sock_at w k so rb [] []" "\<not> so_fragmented so" "so_connected so"
    "answers os (so_fd so) (kern w) (rs @ [r]) k'" "\<forall>r\<in>set rs. partial_answer r" "line_answer r"
    "payload (rs @ [r]) = concat (map (\<lambda>x. x @ pre @ [LF]) xss)" "pre = [] \<or> pre = [CR]"
    "xss \<noteq> []" "\<forall>x\<in>set xss. LF \<notin> set x \<and> CR \<notin> set x" "length (payload (rs @ [r])) < STRING_MAX" "length rs < n"
    "length ds = length xss" "distinct ds" "\<forall>d\<in>set ds. \<exists>y. str_has w d y" "mem_ok w" "wf_lh w"
  shows "\<exists>w' cs. readlines os n ds k w = Ok () w' \<and> list_all2 (str_has w') ds xss \<and> sock_at w' k so rb cs [] \<and> kern w' = k'"
proof -
  let ?P = "payload (rs @ [r])"
  obtain d ds' x xs where ds: "ds = d # ds'" "xss = x # xs" using assms(9,13) by (cases ds; cases xss) auto
  obtain y where y: "str_has w d y" using assms(15) ds by auto
  have lines: "text_lines ?P = xss" using text_lines_lines [OF assms(8,9,10)] assms(7) by simp
  have "?P \<noteq> []" "last ?P = LF" unfolding assms(7) using assms(9) by (cases xss rule: rev_cases; simp)+
  then have so: "so\<lparr>so_fragmented := last ?P \<noteq> LF\<rparr> = so" using assms(2) by (cases so) simp
  obtain w1 es where w1: "socket_readline os n d k w = Ok () w1" "str_has w1 d x" "sock_at w1 k so rb es xs" "kern w1 = k'"
      "mod_mem (insert d {brk w..}) {brk w..} (insert rb {brk w..}) w w1" "wf_lh w1" "set es \<subseteq> {brk w..} \<times> {brk w..}" "length es < 2 ^ 64"
    using readline_fresh [OF assms(1-3) y assms(4-6,11,12,16,17)] unfolding so lines ds(2) by auto
  have es: "snd ` set es \<subseteq> {brk w..}" using w1(7) by auto
  have lt: "e < brk w" if "str_has w e z" for e z using str_has_lt [OF _ that] assms(17) by simp
  have pre: "\<forall>e\<in>set ds'. e \<notin> snd ` set es \<and> (\<exists>y. str_has w1 e y)"
  proof
    fix e assume e: "e \<in> set ds'"
    then obtain z where z: "str_has w e z" using assms(15) ds(1) by auto
    have "e \<noteq> d" using assms(14) ds(1) e by auto
    then have "str_has w1 e z" using mod_mem_has [OF w1(5), of e z] z lt [OF z] by simp
    then show "e \<notin> snd ` set es \<and> (\<exists>y. str_has w1 e y)" using below_notin [OF lt [OF z] es] by blast
  qed
  have side: "sock_at w1 k so rb es (xs @ [])" "length ds' = length xs" "distinct ds'" "mem_ok w1"
    using w1(3) assms(13,14,16) ds mod_mem_ok [OF w1(5)] by simp_all
  obtain w2 cs where w2: "readlines os n ds' k w1 = Ok () w2" "list_all2 (str_has w2) ds' xs" "sock_at w2 k so rb cs []" "kern w2 = kern w1"
      "\<forall>e z. e \<notin> set ds' \<longrightarrow> e \<notin> snd ` set es \<longrightarrow> str_has w1 e z \<longrightarrow> str_has w2 e z"
    using readlines_buffered [OF side(1) assms(2) side(2,3) pre w1(8) side(4) w1(6)] by blast
  have "d \<notin> snd ` set es" "d \<notin> set ds'" using below_notin [OF lt [OF y] es] assms(14) ds(1) by simp_all
  then have "str_has w2 d x" using w2(5) w1(2) by blast
  then show ?thesis using w1(1,4) w2(1-4) ds by (auto simp: nc_bind_def)
qed

theorem socket_readline_text_witness:
  "\<exists>w' cs. readlines script_os 5 [0, 1] 2 kmem = Ok () w' \<and> list_all2 (str_has w') [0, 1] [''HELO'', ''QUIT''] \<and>
    sock_at w' 2 ksock 3 cs [] \<and> kern w' = []"
proof (rule socket_readline_text [OF kmem_at(1)])
  let ?rs = "[Inr ''HE'', Inl EINTR] :: script" and ?r = "Inr (''LO'' @ [CR, LF] @ ''QUIT'' @ [CR, LF]) :: errno + string"
  show "answers script_os (so_fd ksock) (kern kmem) (?rs @ [?r]) []" by (simp add: kmem_def script_os_def script_read_def)
  show "\<forall>r\<in>set ?rs. partial_answer r" "line_answer ?r" by (simp_all add: partial_answer_def line_answer_def RECV_BUF_SIZE_def)
  show "payload (?rs @ [?r]) = concat (map (\<lambda>x. x @ [CR] @ [LF]) [''HELO'', ''QUIT''])" by (simp add: payload_def)
  show "length (payload (?rs @ [?r])) < STRING_MAX" by (simp add: payload_def STRING_MAX_def)
  show "\<forall>d\<in>set [0, 1]. \<exists>y. str_has kmem d y" using kmem_has by auto
qed (use kmem_wf in \<open>simp_all add: ksock_def zero_socket_def\<close>)

text \<open>
  C36. While the last buffered line is a fragment, complete lines before it are not delivered: \<^verbatim>\<open>socket_readline\<close>
  waits for more input, and when none comes in time it reports a timeout with the caller's string and the
  buffer unchanged.
\<close>

theorem socket_readline_withholds:
  fixes w :: "('k, 'z) sock_heap_scheme"
  assumes "sock_at w k so rb cs xss" "so_fragmented so" "sys_read os (so_fd so) (RECV_BUF_SIZE - 1) (kern w) = (Inl EAGAIN, k')"
    "str_has w d y" "mem_ok w" "wf_lh w"
  shows "\<exists>w'. socket_readline os (Suc n) d k w = Ok () w' \<and> str_has w' d y \<and> sock_at w' k (so\<lparr>so_timeout := True\<rparr>) rb cs xss"
proof -
  obtain w' where w': "socket_readline os (Suc n) d k w = Ok () w'" "mod_mem {brk w..} {} {brk w..} w w'"
      "socks w' = (socks w)(k \<mapsto> so\<lparr>so_timeout := True\<rparr>)"
    by (rule readline_timeout [OF assms(1) disjI1 [OF assms(2)] assms(3,5,6)])
  note lt = sock_at_lt [OF assms(1,6)]
  have "d < brk w" using str_has_lt [OF _ assms(4)] assms(6) by simp
  then have "str_has w' d y" using mod_mem_has [OF w'(2), of d y] assms(4) by simp
  moreover have "list_at w rb cs xss" using assms(1) by (simp add: sock_at_def)
  then have "list_at w' rb cs xss" by (rule mod_mem_list_at [OF _ w'(2)]) (use lt(1) below_disjoint [OF lt(3)] in simp_all)
  ultimately show ?thesis using w'(1,3) assms(1) by (auto simp: sock_at_def)
qed

theorem socket_readline_withholds_witness:
  "\<exists>w'. socket_readline script_os 1 0 4 (kmem\<lparr>kern := [Inl EAGAIN]\<rparr>) = Ok () w' \<and> str_has w' 0 [] \<and>
    sock_at w' 4 (ksock\<lparr>so_read_buf := Some 5, so_fragmented := True, so_timeout := True\<rparr>) 5 [(6, 7)] [''b'']"
proof -
  have "sock_at (kmem\<lparr>kern := [Inl EAGAIN]\<rparr>) 4 (ksock\<lparr>so_read_buf := Some 5, so_fragmented := True\<rparr>) 5 [(6, 7)] [''b'']"
    using kmem_at(2) by (simp add: sock_at_def)
  from socket_readline_withholds [OF this, of script_os "[]" 0 "[]" 0] kmem_has(1) kmem_wf
  show ?thesis by (simp add: script_os_def script_read_def)
qed

section \<open>Ports\<close>

lemma htons_htons: "p < 65536 \<Longrightarrow> htons (htons p) = p"
  by (simp add: htons_def less_mult_imp_div_less)

text \<open>
  C37. Binding as an ordinary user to a port above 1024 does not always use that port: the reserved range is
  tested on the port in network byte order, so a port whose low byte is below 4 is moved by 1000 in that
  order. The address given to bind(2) names another port than the caller asked for.
\<close>

theorem socket_bind_moves_port:
  fixes w :: "('k, 'z) sock_heap_scheme"
  assumes "socks w s = Some so" "0 < sys_getuid os" "1024 < p" "p < 65536" "p mod 256 < 4"
    "cread (CVal address 0) w = Ok cs w" "inet_addr os cs \<noteq> (255, 255, 255, 255)"
  shows "\<exists>so'. nc_bind (socket_new_inet os s address (int p)) (\<lambda>_. socket_bind_inet os s) w =
      sys_try (sys_bind os (so_fd so') (so_local so')) (w\<lparr>socks := (socks w)(s \<mapsto> so')\<rparr>) \<and>
    so_fd so' = so_fd so \<and> sin_port (so_local so') = htons p + 1000 \<and> htons (sin_port (so_local so')) \<noteq> p"
proof -
  let ?h = "htons p"
  have m: "int p mod 65536 = int p" using assms(4) by simp
  have h: "?h \<le> 1023"
  proof -
    have "p mod 256 * 256 \<le> 3 * 256" using assms(5) by simp
    moreover have "p div 256 mod 256 \<le> 255" using mod_less_divisor [of 256 "p div 256"] by simp
    ultimately show ?thesis unfolding htons_def by linarith
  qed
  let ?so1 = "so\<lparr>so_local := (so_local so)\<lparr>sin_port := ?h\<rparr>, so_direction := UNKNOWN, so_family := PF_INET\<rparr>"
  let ?so2 = "?so1\<lparr>so_local := (so_local ?so1)\<lparr>sin_addr := inet_addr os cs\<rparr>\<rparr>"
  let ?so' = "?so2\<lparr>so_local := (so_local ?so2)\<lparr>sin_port := ?h + 1000\<rparr>\<rparr>"
  have c1: "cread (CVal address 0) (w\<lparr>socks := (socks w)(s \<mapsto> ?so1)\<rparr>) = Ok cs (w\<lparr>socks := (socks w)(s \<mapsto> ?so1)\<rparr>)"
    using assms(6) by (auto simp: cread_def nc_simps split: option.splits)
  have "socket_new_inet os s address (int p) w = Ok () (w\<lparr>socks := (socks w)(s \<mapsto> ?so2)\<rparr>)"
    using assms(1,3,7) c1 m by (simp add: socket_new_inet_def Let_def nc_bind_def upd_sock_def str_to_inet_def nc_return_def)
  then have run: "nc_bind (socket_new_inet os s address (int p)) (\<lambda>_. socket_bind_inet os s) w =
      sys_try (sys_bind os (so_fd ?so') (so_local ?so')) (w\<lparr>socks := (socks w)(s \<mapsto> ?so')\<rparr>)"
    using assms(2) h by (simp add: nc_bind_def socket_bind_inet_def get_sock_def upd_sock_def nc_when_def)
  have "htons (?h + 1000) \<noteq> p"
  proof
    assume "htons (?h + 1000) = p"
    then have "htons (htons (?h + 1000)) = ?h" by simp
    then show False using htons_htons [of "?h + 1000"] h by simp
  qed
  then show ?thesis using run by (intro exI [of _ ?so']) simp
qed

theorem socket_bind_moves_port_witness:
  "\<exists>so'. nc_bind (socket_new_inet script_os 2 1 (int 8192)) (\<lambda>_. socket_bind_inet script_os 2) kmem =
      sys_try (sys_bind script_os (so_fd so') (so_local so')) (kmem\<lparr>socks := (socks kmem)(2 \<mapsto> so')\<rparr>) \<and>
    so_fd so' = so_fd ksock \<and> sin_port (so_local so') = htons 8192 + 1000 \<and> htons (sin_port (so_local so')) \<noteq> 8192"
  by (rule socket_bind_moves_port [where cs = "''0.0.0.0''"])
    (use cread_str_has [OF kmem_has(2)] in \<open>simp_all add: script_os_def\<close>, simp add: kmem_def)

end
