(* ===== verification/NC_Session_Props.thy ===== *)
theory NC_Session_Props
  imports NC_Session NC_Socket_Props
begin

text \<open>
  The properties of sessions and their controllers, with witnesses on a concrete memory.
\<close>

section \<open>Memory behind sessions\<close>

lemma sess_upd_simps [simp]:
  fixes w :: "('k, 'c, 'z) sess_heap_scheme"
  shows "str_has (w\<lparr>sessions := x\<rparr>) a xs = str_has w a xs" "list_at (w\<lparr>sessions := x\<rparr>) l cs xss = list_at w l cs xss"
    "sock_at (w\<lparr>sessions := x\<rparr>) k so rb cs xss = sock_at w k so rb cs xss"
    "wf_lh (w\<lparr>sessions := x\<rparr>) = wf_lh w" "mem_ok (w\<lparr>sessions := x\<rparr>) = mem_ok w"
  by (simp_all add: str_has_def list_at_def list_cells_def vals_def wf_lh_def wf_strs_def mem_ok_def sock_at_def)

lemma mod_lh_sessions:
  fixes w :: "('k, 'c, 'z) sess_heap_scheme"
  assumes "mod_lh S E L w w'"
  shows "sessions w' = sessions w" "controllers w' = controllers w" "controller_count w' = controller_count w"
  using assms by (cases w; cases w'; simp add: mod_lh_def)+

lemmas sess_run = sock_run get_sess_def upd_sess_def free_sess_def

section \<open>A concrete application and memory\<close>

text \<open>
  A controller is the number that its request handler returns. The response handler closes the
  session (it sets the state to \<open>SESSION_IDLE\<close>) unless the number it is given is 1.
\<close>

definition demo_app :: "(int, (script, int) sess_heap) app" where
  "demo_app = \<lparr>request_handler_func = (\<lambda>c. Some (\<lambda>s arg. nc_rc c)),
     response_handler_func = (\<lambda>c. Some (\<lambda>s rc. nc_when (rc \<noteq> 1) (upd_sess s (\<lambda>t. t\<lparr>ss_state := SESSION_IDLE\<rparr>)))),
     timeout_handler_func = Map.empty, overload_handler_func = Map.empty, session_init_func = Map.empty,
     session_reset_func = Map.empty, session_destroy_func = Map.empty\<rparr>"

definition dsock :: socket_t where
  "dsock = ksock\<lparr>so_remote := zero_addr\<lparr>sin_addr := (192, 168, 0, 1)\<rparr>\<rparr>"

definition dsess :: session_t where
  "dsess = zero_session\<lparr>ss_state := SESSION_READ, ss_sock := Some 2, ss_controller_handle := 1\<rparr>"

definition dmem :: "(script, int) sess_heap" where
  "dmem = \<lparr>strs = [0 \<mapsto> lit_str [], 1 \<mapsto> lit_str ''ok''], brk = 5, malloc_ok = (\<lambda>_ _. True), ents = Map.empty,
     lists = [3 \<mapsto> empty_list], hashes = Map.empty, kern = [], socks = [2 \<mapsto> dsock], sessions = [4 \<mapsto> dsess],
     servers = Map.empty, controllers = [1 \<mapsto> 42], controller_count = 2\<rparr>"

lemma dmem_wf: "wf_lh dmem" "mem_ok dmem"
  by (auto simp: wf_lh_def wf_strs_def dmem_def mem_ok_def split: if_splits)

lemma dmem_at: "sock_at dmem 2 dsock 3 [] []" "sessions dmem 4 = Some dsess"
proof -
  show "sock_at dmem 2 dsock 3 [] []"
    by (simp add: sock_at_def list_at_def list_cells_def header_Nil) (simp add: dmem_def dsock_def ksock_def)
  show "sessions dmem 4 = Some dsess" by (simp add: dmem_def)
qed

section \<open>Controllers\<close>



text \<open>The controllers of a list are registered one after the other.\<close>

primrec register_all :: "'c list \<Rightarrow> (nat list, 'k, 'c, 'z) enc" where
  "register_all [] = nc_return []"
| "register_all (c # cs) = nc_bind (session_controller_register c) (\<lambda>h. nc_bind (register_all cs) (\<lambda>hs. nc_return (h # hs)))"

lemma register_all_ok:
  fixes w :: "('k, 'c, 'z) sess_heap_scheme"
  assumes "controller_count w + length cs \<le> CONTROLLER_MAX"
  shows "\<exists>w'. register_all cs w = Ok [controller_count w..<controller_count w + length cs] w' \<and>
    controller_count w' = controller_count w + length cs \<and> sessions w' = sessions w \<and>
    (\<forall>i. controllers w' i = (if controller_count w \<le> i \<and> i < controller_count w + length cs then Some (cs ! (i - controller_count w))
      else controllers w i))"
  using assms
proof (induction cs arbitrary: w)
  case (Cons c cs)
  let ?n = "controller_count w"
  let ?w1 = "w\<lparr>controllers := (controllers w)(?n \<mapsto> c), controller_count := ?n + 1\<rparr>"
  have r: "session_controller_register c w = Ok ?n ?w1" using Cons.prems by (simp add: session_controller_register_def)
  obtain w' where w': "register_all cs ?w1 = Ok [?n + 1..<?n + 1 + length cs] w'" "controller_count w' = ?n + 1 + length cs"
      "sessions w' = sessions w"
      "\<forall>i. controllers w' i = (if ?n + 1 \<le> i \<and> i < ?n + 1 + length cs then Some (cs ! (i - (?n + 1))) else controllers ?w1 i)"
    using Cons.IH [of ?w1] Cons.prems by auto
  have "controllers w' i = (if ?n \<le> i \<and> i < ?n + length (c # cs) then Some ((c # cs) ! (i - ?n)) else controllers w i)" for i
    using w'(4) by (cases "i = ?n") (auto simp: nth_Cons' split: if_splits)
  moreover have "?n # [?n + 1..<?n + 1 + length cs] = [?n..<?n + length (c # cs)]"
    using upt_conv_Cons [of ?n "?n + length (c # cs)"] by (simp del: upt_Suc)
  ultimately show ?case using r w'(1-3) by (auto simp: nc_bind_def nc_return_def)
qed (auto simp: nc_return_def)

text \<open>
  C24. Registered controllers get the handles that follow each other, a session with one of these handles is
  served by the hooks of exactly that controller, and the table never takes more than nine controllers: the
  next registration throws and changes nothing.
\<close>

theorem session_controllers:
  fixes w :: "('k, 'c, 'z) sess_heap_scheme"
  assumes "controller_count w = 1" "length cs \<le> 9" "i < length cs" "sessions w s = Some t" "ss_controller_handle t = i + 1"
    "f \<noteq> SESSION_HOOK_MAX"
  shows "\<exists>w'. register_all cs w = Ok [1..<length cs + 1] w' \<and>
    session_controller_invoke app s f arg w' = nc_bind (hook_call app (cs ! i) s f arg) nc_return w' \<and>
    (length cs = 9 \<longrightarrow> session_controller_register c w' = Fail (-1) w')"
proof -
  have "controller_count w + length cs \<le> CONTROLLER_MAX" using assms(1,2) by (simp add: CONTROLLER_MAX_def)
  from register_all_ok [OF this] obtain w' where w': "register_all cs w = Ok [1..<1 + length cs] w'"
      "controller_count w' = 1 + length cs" "sessions w' = sessions w"
      "\<forall>i. controllers w' i = (if 1 \<le> i \<and> i < 1 + length cs then Some (cs ! (i - 1)) else controllers w i)"
    using assms(1) by auto
  have "session_controller_invoke app s f arg w' = nc_bind (hook_call app (cs ! i) s f arg) nc_return w'"
    using assms(3-6) w'(2-4) by (simp add: session_controller_invoke_def nc_bind_def [of "get_sess s"] get_sess_def)
  then show ?thesis using w'(1,2) by (auto simp: session_controller_register_def CONTROLLER_MAX_def)
qed

theorem session_controllers_witness:
  "\<exists>w'. register_all [7, 42] (dmem\<lparr>controller_count := 1\<rparr>) = Ok [1..<length [7, 42 :: int] + 1] w' \<and>
    session_controller_invoke demo_app 4 SESSION_INIT ANull w' = nc_bind (hook_call demo_app ([7, 42] ! 0) 4 SESSION_INIT ANull) nc_return w' \<and>
    (length [7, 42 :: int] = 9 \<longrightarrow> session_controller_register 3 w' = Fail (-1) w')"
  by (rule session_controllers [where t = dsess]) (simp_all add: dmem_def dsess_def)

section \<open>A dead connection\<close>

text \<open>
  \<open>eof_forever os fd P\<close>: in the states \<open>P\<close>, which it never leaves, read(2) reports the end of the input. This is
  how the system behaves on a connection that the peer has closed.
\<close>

definition eof_forever :: "'k os \<Rightarrow> int \<Rightarrow> ('k \<Rightarrow> bool) \<Rightarrow> bool" where
  "eof_forever os fd P \<longleftrightarrow> (\<forall>k. P k \<longrightarrow> (\<exists>k'. sys_read os fd (RECV_BUF_SIZE - 1) k = (Inr [], k') \<and> P k'))"

definition dead_session :: "('k \<Rightarrow> bool) \<Rightarrow> nat \<Rightarrow> nat \<Rightarrow> int \<Rightarrow> ('k, 'c, 'z) sess_heap_scheme \<Rightarrow> bool" where
  "dead_session P s k fd w \<longleftrightarrow> (\<exists>t so rb. sessions w s = Some t \<and> ss_state t = SESSION_READ \<and> ss_sock t = Some k \<and>
     sock_at w k so rb [] [] \<and> so_fd so = fd) \<and> P (kern w) \<and> mem_ok w \<and> wf_lh w"

lemma readline_eof:
  fixes w :: "('k, 'z) sock_heap_scheme"
  assumes "sock_at w k so rb [] []" "sys_read os (so_fd so) (RECV_BUF_SIZE - 1) (kern w) = (Inr [], k')" "mem_ok w" "wf_lh w"
  obtains w' v where "socket_readline os (Suc n) d k w = Fail (-1) w'" "sock_at w' k (so\<lparr>so_connected := False\<rparr>) rb [] []"
    "kern w' = k'" "wf_lh w'" "mem_ok w'" "mod_lh {brk w..} {} {brk w..} w v" "w' = v\<lparr>kern := k', socks := (socks w)(k \<mapsto> so\<lparr>so_connected := False\<rparr>)\<rparr>"
proof -
  have at: "socks w k = Some so" "so_read_buf so = Some rb" "list_at w rb [] []" using assms(1) by (auto simp: sock_at_def)
  note lt = sock_at_lt [OF assms(1,4)]
  obtain l f t w3 where e: "socket_readline os (Suc n) d k w = readline_body os (Suc n) d k l f t w3"
      "mod_lh {l, f} {} {t} w w3" "str_has w3 l []" "str_has w3 f []" "list_at w3 t [] []" "wf_lh w3" "mem_ok w3"
      "brk w \<le> l" "l < f" "f < t" "t < brk w3"
    using readline_enter [OF assms(3,4), of "readline_body os (Suc n) d k"] unfolding socket_readline_body by blast
  have s3: "socks w3 = socks w" "kern w3 = kern w" using mod_lh_socks [OF e(2)] by simp_all
  have r3: "list_at w3 rb [] []" by (rule list_at_frame [OF at(3) e(2)]) (use lt e(8-10) in auto)
  let ?so = "so\<lparr>so_connected := False\<rparr>"
  let ?w' = "w3\<lparr>kern := k', socks := (socks w)(k \<mapsto> ?so)\<rparr>"
  have "str_has ?w' l []" "socks ?w' k = Some ?so" using e(3) by simp_all
  from readline_check_eval [OF this(1) _ this(2), of "readline_loop n os l k"]
  have "readline_check l k (readline_loop n os l k) ?w' = Fail (-1) ?w'" by simp
  then have "socket_readline os (Suc n) d k w = Fail (-1) ?w'"
    using e(1) s3 at(1,2) r3 assms(2)
    by (simp add: readline_body_def nc_bind_def get_sock_def deref_def nc_return_def get_list_def list_at_def list_cells_def
        header_Nil empty_list_def syscall_def upd_sock_def RECV_BUF_SIZE_def)
  moreover have "sock_at ?w' k ?so rb [] []" using r3 at(2) by (simp add: sock_at_def)
  moreover have "mod_lh {brk w..} {} {brk w..} w w3" by (rule mod_lh_mono [OF e(2)]) (use e(8-10) in auto)
  ultimately show ?thesis using that [of ?w' w3] e(6,7) by simp
qed

lemma dead_request:
  fixes w :: "('k, 'c, 'z) sess_heap_scheme"
  assumes "dead_session P s k fd w" "eof_forever os fd P"
  shows "\<exists>w'. session_process_request os app (Suc n) s w = Fail (-1) w' \<and> dead_session P s k fd w'"
proof -
  obtain t so rb where d: "sessions w s = Some t" "ss_state t = SESSION_READ" "ss_sock t = Some k" "sock_at w k so rb [] []" "so_fd so = fd"
      "P (kern w)" "mem_ok w" "wf_lh w"
    using assms(1) by (auto simp: dead_session_def)
  obtain w1 where w1: "str_new None w = Ok (brk w) w1" "mod_lh {brk w} {} {} w w1" "wf_lh w1" "mem_ok w1"
    using str_new_lh [OF d(7,8)] by metis
  have "list_at w rb [] []" "socks w1 = socks w" using d(4) mod_lh_socks [OF w1(2)] by (auto simp: sock_at_def)
  then have a1: "sock_at w1 k so rb [] []" using d(4) list_at_frame [of w rb "[]" "[]", OF _ w1(2)] by (simp add: sock_at_def)
  have s1: "sessions w1 s = Some t" "kern w1 = kern w" using mod_lh_sessions [OF w1(2)] mod_lh_socks [OF w1(2)] d(1) by simp_all
  obtain k' where k': "sys_read os (so_fd so) (RECV_BUF_SIZE - 1) (kern w1) = (Inr [], k')" "P k'"
    using assms(2) d(5,6) s1(2) by (auto simp: eof_forever_def)
  obtain w2 v where w2: "socket_readline os (Suc n) (brk w) k w1 = Fail (-1) w2" "sock_at w2 k (so\<lparr>so_connected := False\<rparr>) rb [] []"
      "kern w2 = k'" "wf_lh w2" "mem_ok w2" "mod_lh {brk w1..} {} {brk w1..} w1 v"
      "w2 = v\<lparr>kern := k', socks := (socks w1)(k \<mapsto> so\<lparr>so_connected := False\<rparr>)\<rparr>"
    using readline_eof [OF a1 k'(1) w1(4,3)] by metis
  have "sessions w2 s = Some t" using w2(7) mod_lh_sessions [OF w2(6)] s1(1) by simp
  then have "dead_session P s k fd w2" using d(2,3,5) w2(2-5) k'(2) by (auto simp: dead_session_def intro!: exI)
  moreover have "session_process_request os app (Suc n) s w = Fail (-1) w2"
    using w1(1) s1(1) d(3) w2(1) by (simp add: session_process_request_def nc_bind_def get_sess_def deref_def nc_return_def)
  ultimately show ?thesis by blast
qed

lemma dead_loop:
  "dead_session P s k fd w \<Longrightarrow> eof_forever os fd P \<Longrightarrow> session_loop os app (Suc n) m s w = Fault Diverge"
proof (induction m arbitrary: w)
  case (Suc m)
  obtain w' where w': "session_process_request os app (Suc n) s w = Fail (-1) w'" "dead_session P s k fd w'"
    using dead_request [OF Suc.prems, of app n] by blast
  obtain t where "sessions w s = Some t" "ss_state t = SESSION_READ" using Suc.prems(1) by (auto simp: dead_session_def)
  then show ?case using w'(1) Suc.IH [OF w'(2) Suc.prems(2)] by (simp add: nc_bind_def nc_catch_def get_sess_def)
qed (simp add: nc_fault_def)

text \<open>
  C3. A session does not end when the client hangs up: reading fails, the result of
  \<^verbatim>\<open>session_process_request\<close> is ignored and the state stays \<^verbatim>\<open>SESSION_READ\<close>, so \<^verbatim>\<open>session_handler\<close> calls it again
  and again. However long it runs, it does not return, and the connection is never closed.
\<close>

theorem session_handler_spins:
  fixes w :: "('k, 'c, 'z) sess_heap_scheme"
  assumes "sessions w s = Some t"
    "session_controller_invoke app s SESSION_RESPONSE_HANDLER (ANum 1) (w\<lparr>sessions := (sessions w)(s \<mapsto> t\<lparr>ss_state := SESSION_GREETING\<rparr>)\<rparr>) = Ok () w1"
    "sessions w1 s = Some t1" "ss_sock t1 = Some k" "sock_at w1 k so rb [] []" "P (kern w1)" "eof_forever os (so_fd so) P" "mem_ok w1" "wf_lh w1"
  shows "\<forall>m. session_handler os app (Suc n) m s w = Fault Diverge"
proof
  fix m
  let ?w2 = "w1\<lparr>sessions := (sessions w1)(s \<mapsto> t1\<lparr>ss_state := SESSION_READ\<rparr>)\<rparr>"
  have "dead_session P s k (so_fd so) ?w2"
    using assms(3-9) by (auto simp: dead_session_def intro!: exI)
  then have "session_loop os app (Suc n) m s ?w2 = Fault Diverge" by (rule dead_loop [OF _ assms(7)])
  then show "session_handler os app (Suc n) m s w = Fault Diverge"
    using assms(1-3) by (simp add: session_handler_def session_greeting_def nc_bind_def nc_catch_def upd_sess_def)
qed

theorem session_handler_spins_witness:
  "\<forall>m. session_handler script_os demo_app (Suc 0) m 4 dmem = Fault Diverge"
proof (rule session_handler_spins [OF dmem_at(2) _ _ _ _ _ _ _ _, where P = "\<lambda>k. k = []"])
  let ?w = "dmem\<lparr>sessions := (sessions dmem)(4 \<mapsto> dsess\<lparr>ss_state := SESSION_GREETING\<rparr>)\<rparr>"
  show "session_controller_invoke demo_app 4 SESSION_RESPONSE_HANDLER (ANum 1) ?w = Ok () ?w"
    by (simp add: session_controller_invoke_def nc_bind_def get_sess_def dmem_def dsess_def zero_session_def)
      (simp add: hook_call_def demo_app_def nc_simps)
  show "sock_at ?w 2 dsock 3 [] []" using dmem_at(1) by simp
  show "eof_forever script_os (so_fd dsock) (\<lambda>k. k = [])" by (simp add: eof_forever_def script_os_def script_read_def)
  show "sessions ?w 4 = Some (dsess\<lparr>ss_state := SESSION_GREETING\<rparr>)" "kern ?w = []" by (simp_all add: dmem_def)
  show "ss_sock (dsess\<lparr>ss_state := SESSION_GREETING\<rparr>) = Some 2" by (simp add: dsess_def)
qed (use dmem_wf in simp_all)

section \<open>Creation and destruction\<close>

text \<open>The lists and strings that belong to a session; the lists are empty.\<close>

definition sess_parts ::
    "('k, 'c, 'z) sess_heap_scheme \<Rightarrow> nat \<Rightarrow> session_t \<Rightarrow> nat list \<Rightarrow> nat list \<Rightarrow> bool" where
  "sess_parts w s t ls ss \<longleftrightarrow> sessions w s = Some t \<and> wf_lh w \<and> distinct ls \<and> distinct ss \<and>
     map Some ls = [ss_argv t, ss_context t, ss_groups t] \<and> map Some ss = [ss_body t, ss_header t, ss_user t] \<and>
     (\<forall>l\<in>set ls. list_at w l [] []) \<and> (\<forall>x\<in>set ss. \<exists>xs. str_has w x xs)"

lemma destroy_list_field:
  fixes w :: "('k, 'c, 'z) sess_heap_scheme"
  assumes "sessions w s = Some t" "fld t = Some l" "list_at w l [] []" "wf_lh w"
  shows "destroy_field s fld upd list_destroy w =
    Ok () (w\<lparr>lists := (lists w)(l := None), sessions := (sessions w)(s \<mapsto> upd (\<lambda>_. None) t)\<rparr>)"
  using list_destroy_ok [OF assms(3,4)] assms(1,2) by (simp add: destroy_field_def nc_bind_def get_sess_def upd_sess_def)

lemma destroy_str_field:
  fixes w :: "('k, 'c, 'z) sess_heap_scheme"
  assumes "sessions w s = Some t" "fld t = Some x" "str_has w x xs"
  shows "destroy_field s fld upd str_destroy w =
    Ok () (w\<lparr>strs := (strs w)(x := None), sessions := (sessions w)(s \<mapsto> upd (\<lambda>_. None) t)\<rparr>)"
  using str_destroy_ok [OF assms(3)] assms(1,2) by (simp add: destroy_field_def nc_bind_def get_sess_def upd_sess_def)

definition stripped :: "session_t \<Rightarrow> session_t" where
  "stripped t = t\<lparr>ss_argv := None, ss_context := None, ss_groups := None, ss_body := None, ss_header := None, ss_user := None\<rparr>"

lemma session_destroy_parts:
  fixes w :: "('k, 'c, 'z) sess_heap_scheme"
  assumes "sess_parts w s t [a, c, g] [b, h, u]"
  shows "session_destroy app s w =
    nc_bind (session_controller_invoke app s SESSION_DESTROY ANull) (\<lambda>_.
      nc_bind (destroy_field s ss_sock ss_sock_update socket_destroy) (\<lambda>_. free_sess s))
    (w\<lparr>lists := (lists w)(a := None, c := None, g := None), strs := (strs w)(b := None, h := None, u := None),
       sessions := (sessions w)(s \<mapsto> stripped t)\<rparr>)"
proof -
  have p: "sessions w s = Some t" "wf_lh w" "distinct [a, c, g]" "distinct [b, h, u]" "ss_argv t = Some a" "ss_context t = Some c"
      "ss_groups t = Some g" "ss_body t = Some b" "ss_header t = Some h" "ss_user t = Some u"
      "list_at w a [] []" "list_at w c [] []" "list_at w g [] []"
    using assms by (auto simp: sess_parts_def)
  obtain xs ys zs where v: "str_has w b xs" "str_has w h ys" "str_has w u zs" using assms by (auto simp: sess_parts_def)
  let ?w1 = "w\<lparr>lists := (lists w)(a := None), sessions := (sessions w)(s \<mapsto> t\<lparr>ss_argv := None\<rparr>)\<rparr>"
  let ?w2 = "?w1\<lparr>lists := (lists ?w1)(c := None), sessions := (sessions w)(s \<mapsto> t\<lparr>ss_argv := None, ss_context := None\<rparr>)\<rparr>"
  have wf: "wf_lh ?w1" "wf_lh ?w2" by (rule wf_lh_restrict [OF p(2)]; simp)+
  have l: "list_at ?w1 c [] []" "list_at ?w2 g [] []" using p(3,12,13) by (simp_all add: list_at_def list_cells_def)
  have h: "str_has (v\<lparr>strs := (strs v)(x := None)\<rparr>) y r = str_has v y r" if "x \<noteq> y" for v :: "('k, 'c, 'z) sess_heap_scheme" and x y r
    using that by (simp add: str_has_def)
  note d1 = destroy_list_field [where fld = ss_argv and upd = ss_argv_update, OF p(1,5,11,2)]
  have d2: "destroy_field s ss_context ss_context_update list_destroy ?w1 = Ok () ?w2"
    using destroy_list_field [where fld = ss_context and upd = ss_context_update, OF _ _ l(1) wf(1), of s] p(6) by simp
  let ?w3 = "?w2\<lparr>lists := (lists ?w2)(g := None), sessions := (sessions w)(s \<mapsto> t\<lparr>ss_argv := None, ss_context := None, ss_groups := None\<rparr>)\<rparr>"
  have d3: "destroy_field s ss_groups ss_groups_update list_destroy ?w2 = Ok () ?w3"
    using destroy_list_field [where fld = ss_groups and upd = ss_groups_update, OF _ _ l(2) wf(2), of s] p(7) by simp
  let ?w4 = "?w3\<lparr>strs := (strs w)(b := None), sessions := (sessions w)(s \<mapsto> t\<lparr>ss_argv := None, ss_context := None, ss_groups := None, ss_body := None\<rparr>)\<rparr>"
  have d4: "destroy_field s ss_body ss_body_update str_destroy ?w3 = Ok () ?w4"
    using destroy_str_field [where fld = ss_body and upd = ss_body_update, of ?w3 s _ b xs] p(8) v(1) by simp
  let ?w5 = "?w4\<lparr>strs := (strs ?w4)(h := None),
      sessions := (sessions w)(s \<mapsto> t\<lparr>ss_argv := None, ss_context := None, ss_groups := None, ss_body := None, ss_header := None\<rparr>)\<rparr>"
  have v4: "str_has ?w4 h ys" "str_has ?w5 u zs" using v p(4) by (simp_all add: str_has_def)
  have d5: "destroy_field s ss_header ss_header_update str_destroy ?w4 = Ok () ?w5"
    using destroy_str_field [where fld = ss_header and upd = ss_header_update, OF _ _ v4(1), of s] p(9) by simp
  let ?w6 = "?w5\<lparr>strs := (strs ?w5)(u := None), sessions := (sessions w)(s \<mapsto> stripped t)\<rparr>"
  have d6: "destroy_field s ss_user ss_user_update str_destroy ?w5 = Ok () ?w6"
    using destroy_str_field [where fld = ss_user and upd = ss_user_update, OF _ _ v4(2), of s] p(10) by (simp add: stripped_def)
  show ?thesis
    unfolding session_destroy_def using d1 d2 d3 d4 d5 d6
    by (simp add: nc_bind_def [of "destroy_field s ss_argv ss_argv_update list_destroy"]
        nc_bind_def [of "destroy_field s ss_context ss_context_update list_destroy"]
        nc_bind_def [of "destroy_field s ss_groups ss_groups_update list_destroy"]
        nc_bind_def [of "destroy_field s ss_body ss_body_update str_destroy"]
        nc_bind_def [of "destroy_field s ss_header ss_header_update str_destroy"]
        nc_bind_def [of "destroy_field s ss_user ss_user_update str_destroy"])
qed

definition new_session :: "int \<Rightarrow> nat \<Rightarrow> session_t" where
  "new_session now n = zero_session\<lparr>ss_argv := Some (n + 1), ss_context := Some (n + 2), ss_groups := Some (n + 3), ss_body := Some (n + 4),
     ss_header := Some (n + 6), ss_user := Some (n + 8), ss_state := SESSION_OPEN, ss_start_time := now, ss_controller_handle := UINT_MAX\<rparr>"

lemma new_list_stage:
  fixes w :: "('k, 'c, 'z) sess_heap_scheme"
  assumes "mem_ok w" "sessions w s = Some t"
  shows "nc_bind (list_new None) (\<lambda>l. nc_bind (upd_sess s (f l)) (\<lambda>_. K)) w =
    K (w\<lparr>lists := (lists w)(brk w \<mapsto> empty_list), brk := Suc (brk w), sessions := (sessions w)(s \<mapsto> f (brk w) t)\<rparr>)"
  using list_new_ok [OF assms(1)] assms(2) by (simp add: nc_bind_def upd_sess_def)

lemma new_str_stage:
  fixes w :: "('k, 'c, 'z) sess_heap_scheme"
  assumes "mem_ok w" "sessions w s = Some t"
  shows "nc_bind (str_new None) (\<lambda>x. nc_bind (upd_sess s (f x)) (\<lambda>_. K)) w =
    K (w\<lparr>strs := (strs w)(brk w \<mapsto> str_of fresh_buf 0), brk := Suc (Suc (brk w)), sessions := (sessions w)(s \<mapsto> f (brk w) t)\<rparr>)"
  using str_new_eval [of w] assms by (simp add: nc_bind_def upd_sess_def)

lemma session_new_ok:
  fixes w :: "('k, 'c, 'z) sess_heap_scheme"
  assumes "mem_ok w" "wf_lh w"
  obtains w1 where "session_new now None w = Ok (brk w) w1"
    "sess_parts w1 (brk w) (new_session now (brk w)) [brk w + 1, brk w + 2, brk w + 3] [brk w + 4, brk w + 6, brk w + 8]"
    "controller_count w1 = controller_count w" "kern w1 = kern w"
proof -
  let ?n = "brk w" and ?f = "str_of fresh_buf 0"
  let ?w1 = "w\<lparr>lists := (lists w)(?n + 1 \<mapsto> empty_list, ?n + 2 \<mapsto> empty_list, ?n + 3 \<mapsto> empty_list),
      strs := (strs w)(?n + 4 \<mapsto> ?f, ?n + 6 \<mapsto> ?f, ?n + 8 \<mapsto> ?f), brk := ?n + 10, sessions := (sessions w)(?n \<mapsto> new_session now ?n)\<rparr>"
  have "session_new now None w = Ok ?n ?w1"
    using assms(1) by (simp add: session_new_def nc_bind_def [of "calloc_sess None"] calloc_sess_def new_list_stage new_str_stage
        del: strs_brk_commute)
      (simp add: nc_bind_def upd_sess_def nc_return_def new_session_def zero_session_def eval_nat_numeral del: strs_brk_commute)
  moreover have "wf_lh ?w1" using assms(2) by (auto simp: wf_lh_def wf_strs_def split: if_splits)
  moreover have "str_has ?w1 x []" if "x \<in> {?n + 4, ?n + 6, ?n + 8}" for x
    using that by (auto simp: str_has_def intro: str_rep_fresh)
  ultimately show ?thesis using that [of ?w1]
    by (auto simp: sess_parts_def new_session_def list_at_def list_cells_def header_Nil)
qed

text \<open>
  A session that was created but never accepted cannot be destroyed: its controller handle is invalid, so
  \<^verbatim>\<open>session_destroy\<close> throws after it has freed the members. The session object stays allocated, with NULL pointers.
\<close>

theorem session_new_destroy_fails:
  fixes w :: "('k, 'c, 'z) sess_heap_scheme"
  assumes "mem_ok w" "wf_lh w" "controller_count w \<le> CONTROLLER_MAX"
  shows "\<exists>s w1 w2 t. session_new now None w = Ok s w1 \<and> session_destroy app s w1 = Fail (-1) w2 \<and>
    sessions w2 s = Some t \<and> ss_user t = None \<and> ss_argv t = None"
proof -
  let ?s = "brk w" and ?t = "new_session now (brk w)"
  obtain w1 where w1: "session_new now None w = Ok ?s w1"
      "sess_parts w1 ?s ?t [?s + 1, ?s + 2, ?s + 3] [?s + 4, ?s + 6, ?s + 8]" "controller_count w1 = controller_count w"
    using session_new_ok [OF assms(1,2), of now] by blast
  let ?w2 = "w1\<lparr>lists := (lists w1)(?s + 1 := None, ?s + 2 := None, ?s + 3 := None),
      strs := (strs w1)(?s + 4 := None, ?s + 6 := None, ?s + 8 := None), sessions := (sessions w1)(?s \<mapsto> stripped ?t)\<rparr>"
  have h: "ss_controller_handle (stripped ?t) = UINT_MAX" by (simp add: stripped_def new_session_def)
  have "session_controller_invoke app ?s SESSION_DESTROY ANull ?w2 = Fail (-1) ?w2"
    using h w1(3) assms(3) by (simp add: session_controller_invoke_def nc_bind_def get_sess_def nc_throw_def CONTROLLER_MAX_def UINT_MAX_def)
  then have "session_destroy app ?s w1 = Fail (-1) ?w2"
    using session_destroy_parts [OF w1(2), of app] by (simp add: nc_bind_def)
  moreover have "sessions ?w2 ?s = Some (stripped ?t)" "ss_user (stripped ?t) = None" "ss_argv (stripped ?t) = None"
    by (simp_all add: stripped_def)
  ultimately show ?thesis using w1(1) by blast
qed

theorem session_new_destroy_fails_witness:
  "\<exists>s w1 w2 t. session_new 0 None dmem = Ok s w1 \<and> session_destroy demo_app s w1 = Fail (-1) w2 \<and>
    sessions w2 s = Some t \<and> ss_user t = None \<and> ss_argv t = None"
  by (rule session_new_destroy_fails [OF dmem_wf(2,1)]) (simp add: dmem_def CONTROLLER_MAX_def)

section \<open>Loopback\<close>

text \<open>
  \<^verbatim>\<open>session_is_loopback\<close> accepts every peer whose dotted address does not come before 127.0.0.1 in the order of
  strcmp(3), not only 127.0.0.1: the address 192.168.0.1 of the witness is reported as loopback.
\<close>

theorem session_is_loopback_spec:
  fixes w :: "('k, 'c, 'z) sess_heap_scheme"
  assumes "sessions w s = Some t" "ss_sock t = Some k" "socks w k = Some so" "NUL \<notin> set (dotted (sin_addr (so_remote so)))"
    "length (dotted (sin_addr (so_remote so))) < STRING_MAX" "mem_ok w" "wf_lh w"
  shows "\<exists>w'. session_is_loopback s w = (if strcmp (dotted (sin_addr (so_remote so))) ''127.0.0.1'' < 0 then Fail (-1) w' else Ok () w') \<and>
    mod_lh {brk w} {} {} w w'"
proof -
  let ?a = "sin_addr (so_remote so)" and ?b = "brk w"
  obtain w1 where w1: "str_new None w = Ok ?b w1" "mod_lh {?b} {} {} w w1" "str_has w1 ?b []" "wf_lh w1" "mem_ok w1"
    using str_new_lh [OF assms(6,7)] by metis
  have s1: "sessions w1 s = Some t" "socks w1 k = Some so" using mod_lh_sessions [OF w1(2)] mod_lh_socks [OF w1(2)] assms(1,3) by simp_all
  have c: "cread (CLit (dotted ?a)) w1 = Ok (dotted ?a) w1" using assms(4) by (simp add: cread_def nc_simps cstr_terminated)
  obtain w2 where w2: "str_cpy ?b (CLit (dotted ?a)) w1 = Ok () w2" "str_upd w1 ?b (dotted ?a) w2"
    using str_cpy_ok [OF w1(3) c _ assms(5) w1(5)] by auto
  have f: "str_from_inet ?b ?a w1 = Ok () w2" using w2(1) by (simp add: str_from_inet_def nc_simps)
  let ?w3 = "w2\<lparr>strs := (strs w2)(?b := None)\<rparr>"
  have d: "str_destroy (Some ?b) w2 = Ok () ?w3" by (rule str_destroy_ok [OF str_upd_has [OF w2(2)]])
  have "cread (CVal ?b 0) w2 = Ok (dotted ?a) w2" "cread (CLit ''127.0.0.1'') w2 = Ok ''127.0.0.1'' w2"
    using cread_str_has [OF str_upd_has [OF w2(2)] assms(4)] by (simp_all add: cread_def nc_simps)
  then have cmp: "str_cmp ?b (CLit ''127.0.0.1'') w2 = nc_rc (strcmp (dotted ?a) ''127.0.0.1'') w2"
    by (simp add: str_cmp_def nc_bind_def)
  have "session_is_loopback s w = (if strcmp (dotted ?a) ''127.0.0.1'' < 0 then Fail (-1) ?w3 else Ok () ?w3)"
    using w1(1) s1 assms(2) f d cmp
    by (simp add: session_is_loopback_def nc_bind_def nc_catch_def get_sess_def get_sock_def deref_def nc_return_def nc_rc_def nc_throw_def)
  moreover have "mod_lh ({?b} \<union> ({?b} \<union> {?b})) ({} \<union> ({} \<union> {})) ({} \<union> ({} \<union> {})) w ?w3"
    by (rule mod_lh_trans [OF w1(2) mod_lh_trans [OF mod_strs_lh [OF str_upd_mod [OF w2(2)]] free_lh]])
  ultimately show ?thesis by auto
qed

theorem session_is_loopback_spec_witness:
  "\<exists>w'. session_is_loopback 4 dmem = Ok () w' \<and> mod_lh {brk dmem} {} {} dmem w'"
proof -
  have a: "dotted (sin_addr (so_remote dsock)) = ''192.168.0.1''" by code_simp
  have c: "\<not> strcmp ''192.168.0.1'' ''127.0.0.1'' < 0" by code_simp
  have "socks dmem 2 = Some dsock" "ss_sock dsess = Some 2" by (simp_all add: dmem_def dsess_def)
  from session_is_loopback_spec [OF dmem_at(2) this(2,1) _ _ dmem_wf(2,1)] show ?thesis
    unfolding a using c by (simp add: STRING_MAX_def)
qed

section \<open>Timeout\<close>


lemma mod_mem_sessions [simp]:
  fixes w :: "('k, 'c, 'z) sess_heap_scheme"
  shows "mod_mem S E L w (w'\<lparr>sessions := x\<rparr>) = mod_mem S E L w w'" "mod_mem S E L (w\<lparr>sessions := x\<rparr>) w' = mod_mem S E L w w'"
  by (simp_all add: mod_mem_def)













end
