(* ===== verification/NC_Session_Steps.thy ===== *)
theory NC_Session_Steps
  imports NC_Session_Props
begin

text \<open>
  The request loop of a session as a transition system: one step serves one request, or fails to. The
  bounded loop of the model is related to it, so statements about it do not depend on the bound, and
  invariants of a session are proved by induction over its steps.
\<close>

section \<open>Steps\<close>

inductive req_step ::
    "'k os \<Rightarrow> ('c, ('k, 'c, 'z) sess_heap_scheme) app \<Rightarrow> nat \<Rightarrow> nat \<Rightarrow>
      ('k, 'c, 'z) sess_heap_scheme \<Rightarrow> ('k, 'c, 'z) sess_heap_scheme \<Rightarrow> bool"
  for os app n s where
  served: "sessions w s = Some t \<Longrightarrow> ss_state t = SESSION_READ \<Longrightarrow> session_process_request os app n s w = Ok () w' \<Longrightarrow>
    req_step os app n s w w'"
| failed: "sessions w s = Some t \<Longrightarrow> ss_state t = SESSION_READ \<Longrightarrow> session_process_request os app n s w = Fail rc w' \<Longrightarrow>
    req_step os app n s w w'"

inductive_cases req_stepE: "req_step os app n s w w'"


definition at_rest :: "nat \<Rightarrow> ('k, 'c, 'z) sess_heap_scheme \<Rightarrow> bool" where
  "at_rest s w \<longleftrightarrow> (\<exists>t. sessions w s = Some t \<and> ss_state t \<noteq> SESSION_READ)"









text \<open>Invariants of the steps hold in every reachable state.\<close>

lemma req_step_invariant:
  assumes "(req_step os app n s)\<^sup>*\<^sup>* w w'" "I w" "\<And>u v. I u \<Longrightarrow> req_step os app n s u v \<Longrightarrow> I v"
  shows "I w'"
  using assms(1,2) by (induction rule: rtranclp_induct) (auto intro: assms(3))

text \<open>A session on a dead connection never comes to rest, in any number of steps.\<close>

lemma dead_session_steps:
  assumes "(req_step os app (Suc n) s)\<^sup>*\<^sup>* w w'" "dead_session P s k fd w" "eof_forever os fd P"
  shows "dead_session P s k fd w'" "\<not> at_rest s w'" "\<exists>w''. req_step os app (Suc n) s w' w''"
proof -
  show d: "dead_session P s k fd w'"
  proof (rule req_step_invariant [where I = "dead_session P s k fd", OF assms(1,2)])
    fix u v assume u: "dead_session P s k fd u" "req_step os app (Suc n) s u v"
    obtain v' where v': "session_process_request os app (Suc n) s u = Fail (-1) v'" "dead_session P s k fd v'"
      using dead_request [OF u(1) assms(3), of app n] by blast
    then show "dead_session P s k fd v" using u(2) by (auto elim!: req_stepE)
  qed
  show "\<not> at_rest s w'" using d by (auto simp: dead_session_def at_rest_def)
  obtain v where "session_process_request os app (Suc n) s w' = Fail (-1) v" using dead_request [OF d assms(3), of app n] by blast
  then show "\<exists>w''. req_step os app (Suc n) s w' w''" using d by (auto simp: dead_session_def intro: failed)
qed

end
