(* ===== verification/NC_File.thy ===== *)
theory NC_File
  imports NC_System NC_Regex
begin

text \<open>
  The file component (src/file.c, src/nc_file.h), and \<^verbatim>\<open>passwd_get_uid_map\<close> (src/passwd.c), which reads a
  file. The heap is extended by file objects. The calls of the file system are a second parameter,
  the record \<open>fs\<close>; \<open>file_chmod\<close>, \<open>file_exists\<close> and \<open>file_unlink\<close> are in \<open>NC_System\<close>.
\<close>

unbundle bit_operations_syntax

section \<open>The file system\<close>

text \<open>
  \<open>sys_mkstemp\<close> answers with a descriptor and the name it made from the template, \<open>sys_readdir\<close> with the
  next name of the directory stream, or \<open>None\<close> at its end. \<open>sys_lock\<close> is \<^verbatim>\<open>fcntl\<close> with \<^verbatim>\<open>F_SETLKW\<close>.
\<close>

datatype glob_result = GlobOk "string list" | GlobNoMatch | GlobError

record 'k fs =
  sys_open :: "string \<Rightarrow> nat \<Rightarrow> nat \<Rightarrow> (int, 'k) syscall"
  sys_lock :: "int \<Rightarrow> int \<Rightarrow> (unit, 'k) syscall"
  sys_rmdir :: "string \<Rightarrow> (unit, 'k) syscall"
  sys_rename :: "string \<Rightarrow> string \<Rightarrow> (unit, 'k) syscall"
  sys_link :: "string \<Rightarrow> string \<Rightarrow> (unit, 'k) syscall"
  sys_symlink :: "string \<Rightarrow> string \<Rightarrow> (unit, 'k) syscall"
  sys_mkdir :: "string \<Rightarrow> nat \<Rightarrow> (unit, 'k) syscall"
  sys_mkstemp :: "string \<Rightarrow> (int \<times> string, 'k) syscall"
  sys_opendir :: "string \<Rightarrow> (nat, 'k) syscall"
  sys_readdir :: "nat \<Rightarrow> (string option, 'k) syscall"
  sys_closedir :: "nat \<Rightarrow> (unit, 'k) syscall"
  sys_glob :: "string \<Rightarrow> 'k \<Rightarrow> glob_result \<times> 'k"

definition O_RDONLY :: nat where "O_RDONLY = 0"
definition O_WRONLY :: nat where "O_WRONLY = 1"
definition O_CREAT :: nat where "O_CREAT = 64"
definition F_RDLCK :: int where "F_RDLCK = 0"
definition F_WRLCK :: int where "F_WRLCK = 1"
definition F_UNLCK :: int where "F_UNLCK = 2"
definition PATH_MAX :: nat where "PATH_MAX = 4096"

section \<open>Objects\<close>

datatype file_type_t = FILE_IS_NONEXISTENT | FILE_IS_REGULAR | FILE_IS_DIRECTORY | FILE_IS_DEVICE
  | FILE_IS_FIFO | FILE_IS_SYMLINK | FILE_IS_SOCKET

fun file_type_num :: "file_type_t \<Rightarrow> int" where
  "file_type_num FILE_IS_NONEXISTENT = 0"
| "file_type_num FILE_IS_REGULAR = 1"
| "file_type_num FILE_IS_DIRECTORY = 2"
| "file_type_num FILE_IS_DEVICE = 3"
| "file_type_num FILE_IS_FIFO = 4"
| "file_type_num FILE_IS_SYMLINK = 5"
| "file_type_num FILE_IS_SOCKET = 6"

record stat_t =
  st_uid :: nat
  st_owner :: "nat option"
  st_gid :: nat
  st_group :: "nat option"
  st_size :: int
  st_mode :: nat
  st_type :: file_type_t

record file_t =
  f_fd :: int
  f_flags :: nat
  f_path :: "nat option"
  f_st :: stat_t
  f_locked :: bool

definition zero_stat :: stat_t where
  "zero_stat = \<lparr>st_uid = 0, st_owner = None, st_gid = 0, st_group = None, st_size = 0, st_mode = 0,
     st_type = FILE_IS_NONEXISTENT\<rparr>"

definition zero_file :: file_t where
  "zero_file = \<lparr>f_fd = 0, f_flags = 0, f_path = None, f_st = zero_stat, f_locked = False\<rparr>"

record 'k file_heap = "'k sys_heap" +
  files :: "nat \<Rightarrow> file_t option"

type_synonym ('a, 'k, 'z) fnc = "('k, 'z) file_heap_scheme \<Rightarrow> ('a, ('k, 'z) file_heap_scheme) outcome"

definition SIZEOF_FILE_T :: nat where "SIZEOF_FILE_T = 72"
definition SIZEOF_GLOB_T :: nat where "SIZEOF_GLOB_T = 72"

definition get_file :: "nat \<Rightarrow> (file_t, 'k, 'z) fnc" where
  "get_file a w = (case files w a of None \<Rightarrow> Fault BadAddr | Some f \<Rightarrow> Ok f w)"

definition upd_file :: "nat \<Rightarrow> (file_t \<Rightarrow> file_t) \<Rightarrow> (unit, 'k, 'z) fnc" where
  "upd_file a g w = (case files w a of None \<Rightarrow> Fault BadAddr
     | Some f \<Rightarrow> Ok () (w\<lparr>files := (files w)(a \<mapsto> g f)\<rparr>))"

definition free_file :: "nat \<Rightarrow> (unit, 'k, 'z) fnc" where
  "free_file a w = (case files w a of None \<Rightarrow> Fault BadFree
     | Some _ \<Rightarrow> Ok () (w\<lparr>files := (files w)(a := None)\<rparr>))"

definition calloc_file :: "(nat, 'k, 'z) fnc" where
  "calloc_file w =
     (if malloc_ok w (brk w) SIZEOF_FILE_T
      then Ok (brk w) (w\<lparr>files := (files w)(brk w \<mapsto> zero_file), brk := Suc (brk w)\<rparr>)
      else Fail (-1) (w\<lparr>brk := Suc (brk w)\<rparr>))"

text \<open>\<^verbatim>\<open>f(...) == 0\<close>, for a function whose result is tested\<close>

definition nc_succeeds :: "('w \<Rightarrow> (unit, 'w) outcome) \<Rightarrow> 'w \<Rightarrow> (bool, 'w) outcome" where
  "nc_succeeds m = nc_catch m (\<lambda>_. nc_return True) (\<lambda>_. nc_return False)"

section \<open>Opening and closing\<close>

definition file_new :: "nat option \<Rightarrow> (nat, 'k, 'z) fnc" where
  "file_new dest =
     (if dest \<noteq> None then nc_throw
      else nc_bind calloc_file (\<lambda>f.
        nc_bind (upd_file f (\<lambda>t. t\<lparr>f_fd := -1\<rparr>)) (\<lambda>_.
        nc_bind (get_file f) (\<lambda>t.
        nc_bind (str_new (f_path t)) (\<lambda>p.
        nc_bind (upd_file f (\<lambda>t. t\<lparr>f_path := Some p\<rparr>)) (\<lambda>_. nc_return f))))))"

definition file_open :: "'k fs \<Rightarrow> nat \<Rightarrow> nat \<Rightarrow> nat \<Rightarrow> nat \<Rightarrow> (unit, 'k, 'z) fnc" where
  "file_open fs file path flags mode =
     nc_bind (get_str path) (\<lambda>t.
     if s_len t = 0 then nc_throw
     else nc_bind (cread (CVal path 0)) (\<lambda>p.
       nc_bind (syscall (sys_open fs p flags mode)) (\<lambda>r. case r of
         Inl e \<Rightarrow> nc_bind (upd_file file (\<lambda>f. f\<lparr>f_fd := -1\<rparr>)) (\<lambda>_. nc_throw)
       | Inr fd \<Rightarrow>
           nc_bind (upd_file file (\<lambda>f. f\<lparr>f_fd := fd, f_flags := flags\<rparr>)) (\<lambda>_.
           nc_bind (get_file file) (\<lambda>f.
           nc_bind (deref (f_path f)) (\<lambda>d. str_copy d path))))))"

definition file_close :: "'k os \<Rightarrow> nat \<Rightarrow> (unit, 'k, 'z) fnc" where
  "file_close os f =
     nc_bind (get_file f) (\<lambda>t.
     if f_fd t < 0 then nc_return ()
     else nc_bind (sys_try (sys_close os (f_fd t))) (\<lambda>_. upd_file f (\<lambda>t. t\<lparr>f_fd := -1\<rparr>)))"

definition file_destroy :: "'k os \<Rightarrow> nat option \<Rightarrow> (unit, 'k, 'z) fnc" where
  "file_destroy os file = (case file of None \<Rightarrow> nc_return ()
     | Some f \<Rightarrow>
         nc_bind (get_file f) (\<lambda>t.
         nc_bind (nc_when (0 \<le> f_fd t) (nc_catch (file_close os f) nc_return (\<lambda>_. nc_return ()))) (\<lambda>_.
         nc_bind (str_destroy (f_path t)) (\<lambda>_.
         nc_bind (upd_file f (\<lambda>t. t\<lparr>f_path := None\<rparr>)) (\<lambda>_. free_file f)))))"

text \<open>The path of the object is the address of a local variable of the function.\<close>

definition file_from_fd :: "nat \<Rightarrow> int \<Rightarrow> (unit, 'k, 'z) fnc" where
  "file_from_fd fo fd = with_local_str EMPTY_STRING (\<lambda>empty.
     upd_file fo (\<lambda>_. zero_file\<lparr>f_path := Some empty, f_fd := fd\<rparr>))"

section \<open>Path names\<close>

definition ftext :: string where
  "ftext = ''0123456789abcdefghijklmnopqrstuvwxyz./ABCDEFGHIKJLMNOPQRSTUVWXYZ-_:,''"

text \<open>The argument may be NULL.\<close>

definition valid_pathname :: "cptr option \<Rightarrow> (unit, 'z) nc" where
  "valid_pathname path = (case path of None \<Rightarrow> nc_throw
     | Some p \<Rightarrow> nc_bind (cread p) (\<lambda>cs.
         if PATH_MAX < length cs then nc_throw
         else if \<exists>c\<in>set cs. c \<notin> set ftext then nc_throw else nc_return ()))"

definition test_file_permissions :: "'k os \<Rightarrow> cptr \<Rightarrow> nat \<Rightarrow> nat \<Rightarrow> nat \<Rightarrow> (unit, 'k, 'z) ync" where
  "test_file_permissions os path owner grp mode =
     nc_catch (valid_pathname (Some path)) (\<lambda>_.
       nc_bind (cread path) (\<lambda>p.
       nc_bind (sys_try (sys_stat os p)) (\<lambda>st.
       if b_uid st \<noteq> owner then nc_throw
       else if b_gid st \<noteq> grp then nc_throw
       else if b_mode st \<noteq> mode then nc_throw
       else nc_return ()))) (\<lambda>_. nc_throw)"

section \<open>Ownership\<close>

text \<open>Identifiers are unsigned 32-bit integers, so \<^verbatim>\<open>(uid_t) -1\<close> is the largest of them.\<close>

definition file_chgrp :: "'k os \<Rightarrow> nat \<Rightarrow> nat option \<Rightarrow> (unit, 'k, 'z) ync" where
  "file_chgrp os path grp =
     (case grp of None \<Rightarrow> nc_return ()
      | Some g \<Rightarrow>
         if sys_getuid os \<noteq> 0 then nc_return ()
         else nc_bind (get_str g) (\<lambda>t.
           nc_when (0 < s_len t)
             (nc_bind (group_get_id_by_name os g) (\<lambda>gid.
              nc_bind (cread (CVal path 0)) (\<lambda>p. sys_try (sys_chown os p UINT_MAX gid))))))"

definition file_chown :: "'k os \<Rightarrow> nat \<Rightarrow> nat option \<Rightarrow> nat option \<Rightarrow> (unit, 'k, 'z) ync" where
  "file_chown os path owner grp =
     nc_bind (file_exists os path) (\<lambda>exists.
     if \<not> exists then nc_throw
     else nc_bind (case owner of None \<Rightarrow> nc_return ()
        | Some u \<Rightarrow>
           if sys_getuid os \<noteq> 0 then nc_return ()
           else nc_bind (get_str u) (\<lambda>t.
             nc_when (0 < s_len t)
               (nc_bind (passwd_get_id_by_name os u) (\<lambda>uid.
                nc_bind (cread (CVal path 0)) (\<lambda>p. sys_try (sys_chown os p uid UINT_MAX)))))) (\<lambda>_.
       file_chgrp os path grp))"

definition file_get_owner :: "'k os \<Rightarrow> nat \<Rightarrow> nat \<Rightarrow> (unit, 'k, 'z) ync" where
  "file_get_owner os dest path =
     nc_bind (cread (CVal path 0)) (\<lambda>p.
     nc_bind (sys_try (sys_stat os p)) (\<lambda>st. passwd_get_name_by_id os dest (b_uid st)))"

definition file_get_group :: "'k os \<Rightarrow> nat \<Rightarrow> nat \<Rightarrow> (unit, 'k, 'z) ync" where
  "file_get_group os dest path =
     nc_bind (cread (CVal path 0)) (\<lambda>p.
     nc_bind (sys_try (sys_stat os p)) (\<lambda>st. group_get_name_by_id os dest (b_gid st)))"

section \<open>Locking\<close>

definition file_lock :: "'k fs \<Rightarrow> nat \<Rightarrow> int \<Rightarrow> (unit, 'k, 'z) fnc" where
  "file_lock fs f lock_type =
     nc_bind (get_file f) (\<lambda>t.
     if f_fd t < 0 then nc_throw
     else nc_bind (sys_try (sys_lock fs (f_fd t) lock_type)) (\<lambda>_. upd_file f (\<lambda>t. t\<lparr>f_locked := True\<rparr>)))"

definition file_unlock :: "'k fs \<Rightarrow> nat \<Rightarrow> (unit, 'k, 'z) fnc" where
  "file_unlock fs f = file_lock fs f F_UNLCK"

section \<open>Names and directories\<close>

definition file_rmdir :: "'k fs \<Rightarrow> nat \<Rightarrow> (unit, 'k, 'z) ync" where
  "file_rmdir fs path = nc_bind (cread (CVal path 0)) (\<lambda>p. sys_try (sys_rmdir fs p))"

text \<open>The test and the two path names that rename(2), link(2) and symlink(2) get\<close>

definition two_paths :: "(string \<Rightarrow> string \<Rightarrow> (unit, 'k) syscall) \<Rightarrow> nat \<Rightarrow> nat \<Rightarrow> (unit, 'k, 'z) ync" where
  "two_paths call src dest =
     nc_bind (get_str src) (\<lambda>s. nc_bind (get_str dest) (\<lambda>d.
     if s_len s = 0 \<or> s_len d = 0 then nc_throw
     else nc_bind (cread (CVal src 0)) (\<lambda>p. nc_bind (cread (CVal dest 0)) (\<lambda>q. sys_try (call p q)))))"

definition file_rename :: "'k fs \<Rightarrow> nat \<Rightarrow> nat \<Rightarrow> (unit, 'k, 'z) ync" where
  "file_rename fs src dest = two_paths (sys_rename fs) src dest"

definition file_link_symbolic :: "'k fs \<Rightarrow> nat \<Rightarrow> nat \<Rightarrow> bool \<Rightarrow> (unit, 'k, 'z) ync" where
  "file_link_symbolic fs src dest symbolic = two_paths (if symbolic then sys_symlink fs else sys_link fs) src dest"

definition file_link :: "'k fs \<Rightarrow> nat \<Rightarrow> nat \<Rightarrow> (unit, 'k, 'z) ync" where
  "file_link fs src dest = file_link_symbolic fs src dest False"

definition file_symlink :: "'k fs \<Rightarrow> nat \<Rightarrow> nat \<Rightarrow> (unit, 'k, 'z) ync" where
  "file_symlink fs src dest = file_link_symbolic fs src dest True"

text \<open>The mode is \<^verbatim>\<open>0770\<close>.\<close>

definition file_mkdir :: "'k os \<Rightarrow> 'k fs \<Rightarrow> nat \<Rightarrow> (unit, 'k, 'z) ync" where
  "file_mkdir os fs path =
     nc_bind (cread (CVal path 0)) (\<lambda>p.
     nc_bind (sys_try (sys_mkdir fs p 504)) (\<lambda>_. file_chmod os path 504))"

section \<open>Attributes\<close>

definition S_IFMT :: nat where "S_IFMT = 61440"
definition S_IFREG :: nat where "S_IFREG = 32768"
definition S_IFDIR :: nat where "S_IFDIR = 16384"
definition S_IFLNK :: nat where "S_IFLNK = 40960"
definition S_IFCHR :: nat where "S_IFCHR = 8192"
definition S_IFBLK :: nat where "S_IFBLK = 24576"
definition S_IFIFO :: nat where "S_IFIFO = 4096"
definition S_IFSOCK :: nat where "S_IFSOCK = 49152"

definition file_get_size :: "'k os \<Rightarrow> nat \<Rightarrow> (nat, 'k, 'z) ync" where
  "file_get_size os path =
     nc_bind (cread (CVal path 0)) (\<lambda>p.
     nc_bind (sys_try (sys_stat os p)) (\<lambda>st. nc_return (nat (b_size st mod 2 ^ 64))))"

definition file_get_mode :: "'k os \<Rightarrow> nat \<Rightarrow> (nat, 'k, 'z) ync" where
  "file_get_mode os path =
     nc_bind (cread (CVal path 0)) (\<lambda>p. nc_bind (sys_try (sys_stat os p)) (\<lambda>st. nc_return (b_mode st)))"

definition file_get_mtime :: "'k os \<Rightarrow> nat \<Rightarrow> (int, 'k, 'z) ync" where
  "file_get_mtime os path =
     nc_bind (cread (CVal path 0)) (\<lambda>p. nc_bind (sys_try (sys_stat os p)) (\<lambda>st. nc_return (b_mtime st)))"

definition file_mode_contains :: "'k os \<Rightarrow> nat \<Rightarrow> nat \<Rightarrow> (unit, 'k, 'z) ync" where
  "file_mode_contains os path mode =
     nc_bind (cread (CVal path 0)) (\<lambda>p. nc_bind (sys_try (sys_stat os p)) (\<lambda>st.
     if b_mode st AND mode \<noteq> mode then nc_throw else nc_return ()))"

text \<open>The type of a file, by the macros \<^verbatim>\<open>S_ISREG\<close> and so on; \<open>None\<close> for a mode with no known type\<close>

definition mode_type :: "nat \<Rightarrow> file_type_t option" where
  "mode_type m =
     (let t = m AND S_IFMT in
      if t = S_IFREG then Some FILE_IS_REGULAR
      else if t = S_IFDIR then Some FILE_IS_DIRECTORY
      else if t = S_IFLNK then Some FILE_IS_SYMLINK
      else if t = S_IFCHR \<or> t = S_IFBLK then Some FILE_IS_DEVICE
      else if t = S_IFIFO then Some FILE_IS_FIFO
      else if t = S_IFSOCK then Some FILE_IS_SOCKET
      else None)"

text \<open>
  The result is the return code and the new value of \<^verbatim>\<open>*dest\<close>, which is changed before the type is
  found to be unknown. When there is no such file, memset(3) clears \<^verbatim>\<open>sizeof(dest)\<close> bytes, the
  size of the pointer: that is the field \<^verbatim>\<open>uid\<close> and the padding behind it.
\<close>

definition file_stat :: "'k os \<Rightarrow> stat_t \<Rightarrow> nat \<Rightarrow> (int \<times> stat_t, 'k, 'z) ync" where
  "file_stat os dest path =
     nc_bind (cread (CVal path 0)) (\<lambda>p.
     nc_bind (syscall (sys_stat os p)) (\<lambda>r. case r of
       Inl e \<Rightarrow> if e = ENOENT then nc_return (0, dest\<lparr>st_uid := 0, st_type := FILE_IS_NONEXISTENT\<rparr>)
         else nc_return (-1, dest)
     | Inr st \<Rightarrow> (let d = dest\<lparr>st_size := b_size st, st_mode := b_mode st\<rparr> in
         case mode_type (b_mode st) of None \<Rightarrow> nc_return (-1, d)
         | Some ty \<Rightarrow> nc_return (0, d\<lparr>st_type := ty\<rparr>))))"

definition file_fstat :: "'k os \<Rightarrow> nat \<Rightarrow> (unit, 'k, 'z) fnc" where
  "file_fstat os file =
     nc_bind (get_file file) (\<lambda>f.
     if f_fd f < 0 then nc_throw
     else nc_bind (deref (f_path f)) (\<lambda>p.
       nc_bind (file_stat os (f_st f) p) (\<lambda>(rc, st).
       nc_bind (upd_file file (\<lambda>f. f\<lparr>f_st := st\<rparr>)) (\<lambda>_. if rc \<noteq> 0 then nc_throw else nc_return ()))))"

text \<open>
  The tests use a local \<^verbatim>\<open>stat_t\<close> without a value; only its type is read, which is set whenever
  \<^verbatim>\<open>file_stat\<close> succeeds.
\<close>

definition file_has_type :: "'k os \<Rightarrow> file_type_t \<Rightarrow> nat \<Rightarrow> (unit, 'k, 'z) ync" where
  "file_has_type os ty path =
     nc_bind (file_stat os zero_stat path) (\<lambda>(rc, st).
     if rc \<noteq> 0 then nc_throw else if st_type st \<noteq> ty then nc_throw else nc_return ())"

definition file_is_directory :: "'k os \<Rightarrow> nat \<Rightarrow> (unit, 'k, 'z) ync" where
  "file_is_directory os path = file_has_type os FILE_IS_DIRECTORY path"

definition file_is_regular :: "'k os \<Rightarrow> nat \<Rightarrow> (unit, 'k, 'z) ync" where
  "file_is_regular os path = file_has_type os FILE_IS_REGULAR path"

definition file_is_symlink :: "'k os \<Rightarrow> nat \<Rightarrow> (unit, 'k, 'z) ync" where
  "file_is_symlink os path = file_has_type os FILE_IS_SYMLINK path"

section \<open>Reading and writing\<close>

text \<open>\<^verbatim>\<open>str_read\<close> with the call of read(2) on the state of the system\<close>

definition str_read_fd :: "'k os \<Rightarrow> nat \<Rightarrow> int \<Rightarrow> nat \<Rightarrow> (unit, 'k, 'z) ync" where
  "str_read_fd os dest fd n =
     (if STRING_MAX < n then nc_throw
      else nc_bind (str_truncate dest) (\<lambda>_.
        nc_bind (str_resize dest (n + 1)) (\<lambda>_.
        nc_bind (syscall (sys_read os fd n)) (\<lambda>r. case r of
          Inl e \<Rightarrow> if e = EAGAIN then nc_rc 1 else nc_throw
        | Inr xs \<Rightarrow> nc_bind (poke dest 0 (map Some xs)) (\<lambda>_. str_set_len dest (length xs))))))"

text \<open>The size is compared with a constant of type \<^verbatim>\<open>int\<close>, so it is a signed comparison.\<close>

definition file_read :: "'k os \<Rightarrow> 'k fs \<Rightarrow> nat \<Rightarrow> nat \<Rightarrow> (unit, 'k, 'z) fnc" where
  "file_read os fs dest path =
     nc_bind (file_new None) (\<lambda>f.
     nc_bind (file_open fs f path O_RDONLY 0) (\<lambda>_.
     nc_bind (file_fstat os f) (\<lambda>_.
     nc_bind (get_file f) (\<lambda>t.
     if int STRING_MAX < st_size (f_st t) then nc_throw
     else nc_bind (str_read_fd os dest (f_fd t) (nat (st_size (f_st t) mod 2 ^ 64))) (\<lambda>_.
       file_destroy os (Some f))))))"

text \<open>write(2) of \<open>n\<close> bytes at a pointer\<close>

definition write_bytes :: "'k os \<Rightarrow> int \<Rightarrow> cptr \<Rightarrow> nat \<Rightarrow> (errno + nat, 'k, 'z) ync" where
  "write_bytes os fd src n =
     nc_bind (cbytes src) (\<lambda>b.
     if length b < n then nc_fault OutOfBounds
     else if None \<in> set (take n b) then nc_fault Uninit
     else syscall (sys_write os fd (map the (take n b))))"

definition file_puts :: "'k os \<Rightarrow> int \<Rightarrow> nat \<Rightarrow> (unit, 'k, 'z) ync" where
  "file_puts os fd str =
     nc_bind (get_str str) (\<lambda>t.
     if s_len t = 0 then nc_return ()
     else nc_bind (write_bytes os fd (CVal str 0) (s_len t)) (\<lambda>r. case r of
         Inl e \<Rightarrow> nc_throw | Inr bytes \<Rightarrow> nc_return ()))"

definition TMP_TEMPLATE :: string where "TMP_TEMPLATE = ''%s.tmpXXXXXXXXXX''"

text \<open>The end of \<^verbatim>\<open>file_write\<close>: the temporary file is closed and gets its final name.\<close>

definition close_and_rename :: "'k os \<Rightarrow> 'k fs \<Rightarrow> nat \<Rightarrow> nat \<Rightarrow> int \<Rightarrow> (unit, 'k, 'z) ync" where
  "close_and_rename os fs template path fd =
     nc_bind (syscall (sys_close os fd)) (\<lambda>r. case r of
       Inl e \<Rightarrow> throw_destroy template
     | Inr _ \<Rightarrow> nc_bind (file_rename fs template path) (\<lambda>_. str_destroy (Some template)))"

definition file_write :: "'k os \<Rightarrow> 'k fs \<Rightarrow> nat \<Rightarrow> nat \<Rightarrow> (unit, 'k, 'z) ync" where
  "file_write os fs path data =
     nc_bind (str_new None) (\<lambda>template.
     nc_bind (syscall (sys_mkstemp fs TMP_TEMPLATE)) (\<lambda>r. case r of
       Inl e \<Rightarrow> throw_destroy template
     | Inr (fd, name) \<Rightarrow>
         nc_bind (str_cpy template (CLit name)) (\<lambda>_.
         nc_bind (file_puts os fd data) (\<lambda>_. close_and_rename os fs template path fd))))"

section \<open>Listing\<close>

text \<open>
  readdir_r(3) returns a positive number for an error, so the tests \<^verbatim>\<open>< 0\<close> never hold; the result
  pointer is NULL then. \<open>n\<close> bounds the number of entries.
\<close>

primrec file_ls_loop :: "nat \<Rightarrow> 'k fs \<Rightarrow> nat \<Rightarrow> nat \<Rightarrow> (unit, 'k, 'z) ync" where
  "file_ls_loop 0 fs dest dirp = nc_fault Diverge"
| "file_ls_loop (Suc n) fs dest dirp =
     nc_bind (sys_query (sys_readdir fs dirp)) (\<lambda>r. case r of None \<Rightarrow> nc_return ()
       | Some name \<Rightarrow> nc_bind (list_cat dest (CLit name)) (\<lambda>_. file_ls_loop n fs dest dirp))"

definition file_ls_entries :: "nat \<Rightarrow> 'k fs \<Rightarrow> nat \<Rightarrow> nat \<Rightarrow> (unit, 'k, 'z) ync" where
  "file_ls_entries n fs dest dirp =
     nc_bind (sys_query (sys_readdir fs dirp)) (\<lambda>r. case r of None \<Rightarrow> nc_return ()
     | Some a \<Rightarrow>
         nc_bind (nc_when (a \<noteq> ''.'') (list_cat dest (CLit a))) (\<lambda>_.
         nc_bind (sys_query (sys_readdir fs dirp)) (\<lambda>r. case r of None \<Rightarrow> nc_return ()
         | Some b \<Rightarrow>
             nc_bind (nc_when (b \<noteq> ''..'') (list_cat dest (CLit b))) (\<lambda>_.
             file_ls_loop n fs dest dirp))))"

definition file_ls :: "'k fs \<Rightarrow> nat \<Rightarrow> nat \<Rightarrow> nat \<Rightarrow> (unit, 'k, 'z) ync" where
  "file_ls fs n dest path =
     nc_bind (list_truncate dest) (\<lambda>_.
     nc_bind (cread (CVal path 0)) (\<lambda>p.
     nc_bind (sys_try (sys_opendir fs p)) (\<lambda>dirp.
     nc_bind (file_ls_entries n fs dest dirp) (\<lambda>_.
     nc_bind (syscall (sys_closedir fs dirp)) (\<lambda>_. nc_return ())))))"

text \<open>The object for the result of glob(3) is only a resource here; a throw leaves it allocated.\<close>

definition file_glob :: "'k fs \<Rightarrow> nat \<Rightarrow> nat \<Rightarrow> (unit, 'k, 'z) ync" where
  "file_glob fs dest pattern =
     nc_bind (malloc SIZEOF_GLOB_T) (\<lambda>g.
     if g = Null then nc_throw
     else nc_bind (list_truncate dest) (\<lambda>_.
       nc_bind (cread (CVal pattern 0)) (\<lambda>p.
       nc_bind (syscall (\<lambda>k. case sys_glob fs p k of (r, k') \<Rightarrow> (Inr r, k'))) (\<lambda>r. case r of
         Inl e \<Rightarrow> nc_throw
       | Inr GlobError \<Rightarrow> nc_throw
       | Inr GlobNoMatch \<Rightarrow> nc_return ()
       | Inr (GlobOk names) \<Rightarrow>
           foldr (\<lambda>name k. nc_bind (list_cat dest (CLit name)) (\<lambda>_. k)) names (nc_return ())))))"

text \<open>Each name is looked up without the path of its directory.\<close>

primrec ls_by_type_loop :: "nat \<Rightarrow> 'k os \<Rightarrow> nat \<Rightarrow> nat \<Rightarrow> nat \<Rightarrow> int \<Rightarrow> (unit, 'k, 'z) ync" where
  "ls_by_type_loop 0 os dest item buf ty = nc_fault Diverge"
| "ls_by_type_loop (Suc n) os dest item buf ty =
     nc_bind (get_list buf) (\<lambda>h.
     if l_count h = 0 then nc_return ()
     else nc_bind (list_shift item buf) (\<lambda>_.
       nc_bind (file_stat os zero_stat item) (\<lambda>(rc, st).
       if rc \<noteq> 0 then nc_throw
       else nc_bind (nc_when (file_type_num (st_type st) = ty mod 2 ^ 32) (list_push dest item)) (\<lambda>_.
         ls_by_type_loop n os dest item buf ty))))"

definition file_ls_by_type :: "'k os \<Rightarrow> 'k fs \<Rightarrow> nat \<Rightarrow> nat \<Rightarrow> nat \<Rightarrow> int \<Rightarrow> (unit, 'k, 'z) ync" where
  "file_ls_by_type os fs n dest path ty =
     nc_bind (str_new None) (\<lambda>item.
     nc_bind (list_new None) (\<lambda>buf.
     nc_bind (list_truncate dest) (\<lambda>_.
     nc_bind (file_ls fs n buf path) (\<lambda>_.
     nc_bind (get_list buf) (\<lambda>h.
     nc_bind (ls_by_type_loop (Suc (l_count h)) os dest item buf ty) (\<lambda>_.
     nc_bind (str_destroy (Some item)) (\<lambda>_. list_destroy (Some buf))))))))"

section \<open>Copying\<close>

text \<open>The destructors of the five automatic strings\<close>

definition copy_exit :: "nat \<Rightarrow> nat \<Rightarrow> nat \<Rightarrow> nat \<Rightarrow> nat \<Rightarrow> (unit, 'z) nc" where
  "copy_exit buf old_fn new_fn new_basename new_path =
     nc_bind (str_destroy (Some buf)) (\<lambda>_.
     nc_bind (str_destroy (Some old_fn)) (\<lambda>_.
     nc_bind (str_destroy (Some new_fn)) (\<lambda>_.
     nc_bind (str_destroy (Some new_basename)) (\<lambda>_.
     str_destroy (Some new_path)))))"

text \<open>The part that reads and writes; the result tells whether it ended without \<^verbatim>\<open>throw_errno\<close>.\<close>

definition copy_read :: "'k os \<Rightarrow> 'k fs \<Rightarrow> nat \<Rightarrow> nat \<Rightarrow> nat \<Rightarrow> (bool, 'k, 'z) ync" where
  "copy_read os fs buf src file_size =
     nc_bind (cread (CVal src 0)) (\<lambda>p.
     nc_bind (syscall (sys_open fs p O_RDONLY 0)) (\<lambda>r. case r of
       Inl e \<Rightarrow> nc_return False
     | Inr fd \<Rightarrow> nc_bind (syscall (sys_read os fd file_size)) (\<lambda>r. case r of
         Inl e \<Rightarrow> nc_return False
       | Inr xs \<Rightarrow> nc_bind (poke buf 0 (map Some xs)) (\<lambda>_.
           if length xs < file_size then nc_return False
           else nc_bind (syscall (sys_close os fd)) (\<lambda>r. nc_return (case r of Inl e \<Rightarrow> False | Inr _ \<Rightarrow> True))))))"

definition copy_write :: "'k os \<Rightarrow> 'k fs \<Rightarrow> nat \<Rightarrow> nat \<Rightarrow> nat \<Rightarrow> nat \<Rightarrow> (bool, 'k, 'z) ync" where
  "copy_write os fs buf new_path mode file_size =
     nc_bind (cread (CVal new_path 0)) (\<lambda>p.
     nc_bind (syscall (sys_open fs p (O_WRONLY OR O_CREAT) mode)) (\<lambda>r. case r of
       Inl e \<Rightarrow> nc_return False
     | Inr fd \<Rightarrow> nc_bind (write_bytes os fd (CVal buf 0) file_size) (\<lambda>r. case r of
         Inl e \<Rightarrow> nc_return False
       | Inr bytes \<Rightarrow>
           if bytes < file_size then nc_return False
           else nc_bind (syscall (sys_close os fd)) (\<lambda>r. nc_return (case r of Inl e \<Rightarrow> False | Inr _ \<Rightarrow> True)))))"

text \<open>Where the copy goes: into an existing directory, or to a path with a directory part\<close>

definition copy_target :: "'k os \<Rightarrow> 'r regex_lib \<Rightarrow> nat \<Rightarrow> nat \<Rightarrow> nat \<Rightarrow> nat \<Rightarrow> (unit, 'k, 'z) ync" where
  "copy_target os rx dest old_fn new_fn new_basename =
     nc_bind (file_exists os dest) (\<lambda>exists.
     if exists
     then nc_bind (nc_succeeds (file_is_symlink os dest)) (\<lambda>l.
       if l then nc_throw
       else nc_bind (nc_succeeds (file_is_directory os dest)) (\<lambda>d.
         if \<not> d then nc_throw
         else nc_bind (str_copy new_basename dest) (\<lambda>_. str_copy new_fn old_fn)))
     else str_str_regex rx dest ''(.+)/(.+)$'' [new_basename, new_fn])"

definition file_copy :: "'k os \<Rightarrow> 'k fs \<Rightarrow> 'r regex_lib \<Rightarrow> nat \<Rightarrow> nat \<Rightarrow> (unit, 'k, 'z) ync" where
  "file_copy os fs rx src dest =
     nc_bind (str_new None) (\<lambda>buf. nc_bind (str_new None) (\<lambda>old_fn. nc_bind (str_new None) (\<lambda>new_fn.
     nc_bind (str_new None) (\<lambda>new_basename. nc_bind (str_new None) (\<lambda>new_path.
     nc_bind (nc_succeeds (file_is_regular os src)) (\<lambda>reg.
     nc_bind (if reg then nc_return True else nc_succeeds (file_is_symlink os src)) (\<lambda>ok.
     if \<not> ok then nc_throw
     else nc_bind (nc_succeeds (file_is_directory os src)) (\<lambda>d.
     if d then nc_throw
     else
       nc_bind (str_str_regex rx src ''([^/]+)$'' [old_fn]) (\<lambda>_.
       nc_bind (file_get_size os src) (\<lambda>file_size.
       nc_bind (file_get_mode os src) (\<lambda>mode.
       nc_bind (copy_target os rx dest old_fn new_fn new_basename) (\<lambda>_.
       nc_bind (str_resize buf (sz (file_size + 1))) (\<lambda>_.
       nc_bind (copy_read os fs buf src file_size) (\<lambda>done.
       if \<not> done then nc_bind (copy_exit buf old_fn new_fn new_basename new_path) (\<lambda>_. nc_throw)
       else
         nc_bind (str_sprintf new_path ''%s/%s'' [PStr (CVal new_basename 0), PStr (CVal new_fn 0)]) (\<lambda>_.
         nc_bind (copy_write os fs buf new_path mode file_size) (\<lambda>done.
         nc_bind (copy_exit buf old_fn new_fn new_basename new_path) (\<lambda>_.
         if done then nc_return () else nc_throw)))))))))))))))))"

section \<open>The map of user identifiers\<close>

text \<open>The rows are read in order; \<open>k\<close> is the number of rows left to read at row \<open>i\<close>, and one more.\<close>

primrec uid_map_loop :: "nat \<Rightarrow> nat \<Rightarrow> nat \<Rightarrow> nat \<Rightarrow> nat \<Rightarrow> nat \<Rightarrow> nat \<Rightarrow> nat \<Rightarrow> (unit, 'z) hnc" where
  "uid_map_loop 0 i tab line uid_num uid_sym rows cols = nc_fault Diverge"
| "uid_map_loop (Suc k) i tab line uid_num uid_sym rows cols =
     nc_bind (get_list rows) (\<lambda>h.
     if i < l_count h
     then nc_bind (list_get line rows i) (\<lambda>_.
       nc_bind (nc_succeeds (str_ncmp line (CLit ''#'') 1)) (\<lambda>comment.
       nc_bind (nc_when (\<not> comment)
         (nc_bind (str_split cols line 58) (\<lambda>_.
          nc_bind (list_get uid_sym cols 0) (\<lambda>_.
          nc_bind (list_get uid_num cols 2) (\<lambda>_.
          hash_set tab (CVal uid_num 0) uid_sym))))) (\<lambda>_.
       uid_map_loop k (i + 1) tab line uid_num uid_sym rows cols)))
     else nc_return ())"

definition passwd_get_uid_map :: "'k os \<Rightarrow> 'k fs \<Rightarrow> nat \<Rightarrow> (unit, 'k, 'z) fnc" where
  "passwd_get_uid_map os fs tab =
     nc_bind (str_new None) (\<lambda>buf. nc_bind (str_new None) (\<lambda>path. nc_bind (str_new None) (\<lambda>line.
     nc_bind (str_new None) (\<lambda>uid_num. nc_bind (str_new None) (\<lambda>uid_sym.
     nc_bind (list_new None) (\<lambda>rows. nc_bind (list_new None) (\<lambda>cols.
     nc_bind (hash_truncate tab) (\<lambda>_.
     nc_bind (str_cpy path (CLit ''/etc/passwd'')) (\<lambda>_.
     nc_bind (file_read os fs buf path) (\<lambda>_.
     nc_bind (str_chomp buf) (\<lambda>_.
     nc_bind (str_split rows buf 10) (\<lambda>_.
     nc_bind (get_list rows) (\<lambda>h.
     nc_bind (uid_map_loop (Suc (l_count h)) 0 tab line uid_num uid_sym rows cols) (\<lambda>_.
     nc_bind (str_destroy (Some buf)) (\<lambda>_. nc_bind (str_destroy (Some path)) (\<lambda>_.
     nc_bind (str_destroy (Some line)) (\<lambda>_. nc_bind (str_destroy (Some uid_num)) (\<lambda>_.
     nc_bind (str_destroy (Some uid_sym)) (\<lambda>_. nc_bind (list_destroy (Some rows)) (\<lambda>_.
     list_destroy (Some cols)))))))))))))))))))))"

end
