(* ===== verification/NC_Contract.thy ===== *)
theory NC_Contract
  imports NC_System
begin

text \<open>
  Contracts for operations that may fail, with their composition rules, and the frame of string
  operations on memories that hold the state of the system.
\<close>

section \<open>Contracts\<close>

text \<open>A run ends without a fault: normally with \<open>P\<close>, or with an error and \<open>Q\<close>.\<close>

definition ends :: "('a, 'w) outcome \<Rightarrow> ('a \<Rightarrow> 'w \<Rightarrow> bool) \<Rightarrow> ('w \<Rightarrow> bool) \<Rightarrow> bool" where
  "ends r P Q = (case r of Ok a w \<Rightarrow> P a w | Fail rc w \<Rightarrow> Q w | Fault f \<Rightarrow> False)"

lemma ends_simps [simp]:
  "ends (Ok a w) P Q = P a w" "ends (Fail rc w) P Q = Q w" "\<not> ends (Fault f) P Q"
  by (simp_all add: ends_def)

lemma ends_bind:
  assumes "ends (m w) P Q" "\<And>a w'. P a w' \<Longrightarrow> ends (k a w') R Q"
  shows "ends (nc_bind m k w) R Q"
  using assms by (cases "m w") (simp_all add: nc_bind_def)

lemma ends_mono:
  assumes "ends r P Q" "\<And>a w. P a w \<Longrightarrow> P' a w" "\<And>w. Q w \<Longrightarrow> Q' w"
  shows "ends r P' Q'"
  using assms by (cases r) simp_all

text \<open>The system state does not take part in what string operations do.\<close>

lemma kern_upd_simps [simp]:
  fixes w :: "('k, 'z) sys_heap_scheme"
  shows "str_has (w\<lparr>kern := k\<rparr>) a xs = str_has w a xs" "mem_ok (w\<lparr>kern := k\<rparr>) = mem_ok w"
    "wf_lh (w\<lparr>kern := k\<rparr>) = wf_lh w" "list_at (w\<lparr>kern := k\<rparr>) l cs xss = list_at w l cs xss"
  by (simp_all add: str_has_def mem_ok_def wf_lh_def wf_strs_def list_at_def list_cells_def vals_def)

lemma mod_lh_kern:
  fixes w :: "('k, 'z) sys_heap_scheme"
  shows "mod_lh S E L w w' \<Longrightarrow> kern w' = kern w"
  by (cases w; cases w'; simp add: mod_lh_def)

lemma str_upd_kern_eq:
  fixes w :: "('k, 'z) sys_heap_scheme"
  shows "str_upd w s xs w' \<Longrightarrow> kern w' = kern w"
  using mod_lh_kern [OF mod_strs_lh [OF str_upd_mod]] .

lemma ends_syscall:
  assumes "\<And>r k. f (kern w) = (r, k) \<Longrightarrow> ends (h r (w\<lparr>kern := k\<rparr>)) P Q"
  shows "ends (nc_bind (syscall f) h w) P Q"
  using assms by (cases "f (kern w)") (simp add: nc_bind_def syscall_def)

lemma ends_sys_try:
  assumes "\<And>e k. f (kern w) = (Inl e, k) \<Longrightarrow> Q (w\<lparr>kern := k\<rparr>)" "\<And>x k. f (kern w) = (Inr x, k) \<Longrightarrow> P x (w\<lparr>kern := k\<rparr>)"
  shows "ends (sys_try f w) P Q"
  unfolding sys_try_def by (rule ends_syscall) (use assms in \<open>auto simp: nc_simps split: sum.split\<close>)

lemma ends_str_new:
  fixes w :: "('k, 'z) sys_heap_scheme"
  assumes "\<And>w'. str_upd w (brk w) [] w' \<Longrightarrow> brk w < brk w' \<Longrightarrow> P (brk w) w'" "\<And>w'. kern w' = kern w \<Longrightarrow> Q w'"
  shows "ends (str_new None w) P Q"
proof (cases "malloc_ok w (brk w) SIZEOF_STRING_T")
  case True
  have "str_upd w (brk w) [] (w\<lparr>strs := (strs w)(brk w \<mapsto> str_of fresh_buf 0), brk := Suc (Suc (brk w))\<rparr>)"
    by (rule str_updI [OF str_rep_fresh]) simp
  then show ?thesis using assms str_new_eval [OF True] by simp
next
  case False
  then have "str_new None w = Fail (-1) (w\<lparr>brk := Suc (brk w)\<rparr>)" by (simp add: str_new_def nc_simps calloc_str_def)
  then show ?thesis using assms(2) by simp
qed

lemma ends_str_cpy_lit:
  fixes w :: "('k, 'z) sys_heap_scheme"
  assumes "str_has w d ys" "NUL \<notin> set xs" "length xs < STRING_MAX"
    "\<And>w'. str_upd w d xs w' \<Longrightarrow> P () w'" "\<And>w'. kern w' = kern w \<Longrightarrow> Q w'"
  shows "ends (str_cpy d (CLit xs) w) P Q"
proof -
  obtain t where t: "strs w d = Some t" using assms(1) by (auto simp: str_has_def)
  have l: "cbuf_len (CLit xs) w = Ok (length xs) w" by (rule cbuf_len_ok) (use assms(2,3) in simp_all)
  have e: "str_cpy d (CLit xs) w = str_ncpy d (CLit xs) (length xs) w"
    using t l by (simp add: str_cpy_def nc_simps get_str_def)
  have b: "cbytes (CLit xs) w = Ok (map Some xs @ [Some NUL]) w" by simp
  show ?thesis
  proof (rule str_ncpy_cases [OF assms(1) b _ assms(3)])
    show "\<not> points_into (CLit xs) d" by simp
    show "ends (str_cpy d (CLit xs) w) P Q" if "str_ncpy d (CLit xs) (length xs) w = Ok () w'" "str_upd w d xs w'" for w'
      using assms(4) [OF that(2)] that(1) e by simp
    show "ends (str_cpy d (CLit xs) w) P Q" if "str_ncpy d (CLit xs) (length xs) w = Fail (-1) w'" "str_upd w d [] w'" for w'
      using assms(5) [OF str_upd_kern_eq [OF that(2)]] that(1) e by simp
  qed
qed

section \<open>Strings\<close>

lemma cbytes_has:
  assumes "str_has w s xs"
  obtains r where "cbytes (CVal s 0) w = Ok (map Some xs @ r) w"
proof -
  obtain b where b: "strs w s = Some (str_of b (length xs))" "holds b xs" using assms by (rule str_hasE)
  have "b = map Some xs @ drop (length xs) b" using holds_take [OF b(2)] by (metis append_take_drop_id)
  then show ?thesis using that [of "drop (length xs) b"] b(1) by (simp add: buf_bytes_def)
qed

lemma get_str_has:
  assumes "str_has w s xs"
  obtains t where "get_str s w = Ok t w" "s_len t = length xs"
  using assms by (auto elim!: str_hasE simp: get_str_def)

end
