(* ===== verification/NC_File_Laws.thy ===== *)
theory NC_File_Laws
  imports NC_File NC_Contract
begin

text \<open>
  What writing and reading whole files does to the files of the system. The answers of the system are related to its files by the laws \<open>store_laws\<close> and
  \<open>read_laws\<close>, which state documented behaviour of the system calls.
\<close>

section \<open>The laws of the file system\<close>

text \<open>
  \<open>view k\<close> gives the contents of the files by name, \<open>descr k\<close> the name and the offset that an open
  descriptor stands for. mkstemp(3) creates an empty file that did not exist before; write(2) at
  the end of a file appends some of the bytes; rename(2) replaces the target; a call that fails, and
  close(2), change no file.
\<close>

definition mkstemp_law :: "'k fs \<Rightarrow> ('k \<Rightarrow> string \<Rightarrow> string option) \<Rightarrow> ('k \<Rightarrow> int \<Rightarrow> (string \<times> nat) option) \<Rightarrow> bool" where
  "mkstemp_law fs view descr \<longleftrightarrow>
     (\<forall>t k e k'. sys_mkstemp fs t k = (Inl e, k') \<longrightarrow> view k' = view k) \<and>
     (\<forall>t k fd name k'. sys_mkstemp fs t k = (Inr (fd, name), k') \<longrightarrow>
        view k name = None \<and> name \<noteq> [] \<and> NUL \<notin> set name \<and> length name \<le> PATH_MAX \<and>
        view k' = (view k)(name \<mapsto> []) \<and> descr k' fd = Some (name, 0))"

definition write_law :: "'k os \<Rightarrow> ('k \<Rightarrow> string \<Rightarrow> string option) \<Rightarrow> ('k \<Rightarrow> int \<Rightarrow> (string \<times> nat) option) \<Rightarrow> bool" where
  "write_law os view descr \<longleftrightarrow>
     (\<forall>fd xs k e k'. sys_write os fd xs k = (Inl e, k') \<longrightarrow> view k' = view k) \<and>
     (\<forall>fd xs k n k' p ys. sys_write os fd xs k = (Inr n, k') \<longrightarrow> descr k fd = Some (p, length ys) \<longrightarrow> view k p = Some ys \<longrightarrow>
        n \<le> length xs \<and> view k' = (view k)(p \<mapsto> ys @ take n xs))"

definition rename_law :: "'k fs \<Rightarrow> ('k \<Rightarrow> string \<Rightarrow> string option) \<Rightarrow> bool" where
  "rename_law fs view \<longleftrightarrow>
     (\<forall>p q k e k'. sys_rename fs p q k = (Inl e, k') \<longrightarrow> view k' = view k) \<and>
     (\<forall>p q k k'. sys_rename fs p q k = (Inr (), k') \<longrightarrow> p \<noteq> q \<longrightarrow> view k' = (view k)(p := None, q := view k p))"

definition close_law :: "'k os \<Rightarrow> ('k \<Rightarrow> string \<Rightarrow> string option) \<Rightarrow> bool" where
  "close_law os view \<longleftrightarrow> (\<forall>fd k r k'. sys_close os fd k = (r, k') \<longrightarrow> view k' = view k)"

definition store_laws :: "'k os \<Rightarrow> 'k fs \<Rightarrow> ('k \<Rightarrow> string \<Rightarrow> string option) \<Rightarrow> ('k \<Rightarrow> int \<Rightarrow> (string \<times> nat) option) \<Rightarrow> bool" where
  "store_laws os fs view descr \<longleftrightarrow>
     mkstemp_law fs view descr \<and> write_law os view descr \<and> rename_law fs view \<and> close_law os view"

text \<open>write(2) on a regular file that writes all it is given or fails\<close>

definition complete_writes :: "'k os \<Rightarrow> bool" where
  "complete_writes os \<longleftrightarrow> (\<forall>fd xs k n k'. sys_write os fd xs k = (Inr n, k') \<longrightarrow> n = length xs)"

text \<open>
  A file can be opened for reading at its beginning, stat(2) tells its size and that it is a regular
  file, and read(2) returns what there is from the offset on.
\<close>

definition read_laws :: "'k os \<Rightarrow> 'k fs \<Rightarrow> ('k \<Rightarrow> string \<Rightarrow> string option) \<Rightarrow> ('k \<Rightarrow> int \<Rightarrow> (string \<times> nat) option) \<Rightarrow> bool" where
  "read_laws os fs view descr \<longleftrightarrow>
     (\<forall>k p ys. view k p = Some ys \<longrightarrow> (\<exists>fd k'. sys_open fs p O_RDONLY 0 k = (Inr fd, k') \<and> 0 \<le> fd \<and>
        view k' = view k \<and> descr k' fd = Some (p, 0))) \<and>
     (\<forall>k p ys. view k p = Some ys \<longrightarrow> (\<exists>st k'. sys_stat os p k = (Inr st, k') \<and> b_size st = int (length ys) \<and>
        mode_type (b_mode st) = Some FILE_IS_REGULAR \<and> view k' = view k \<and> descr k' = descr k)) \<and>
     (\<forall>k fd p i ys n. descr k fd = Some (p, i) \<longrightarrow> view k p = Some ys \<longrightarrow>
        (\<exists>k'. sys_read os fd n k = (Inr (take n (drop i ys)), k') \<and> view k' = view k))"

section \<open>Writing\<close>

lemma write_bytes_has:
  assumes "str_has w s xs"
  shows "write_bytes os fd (CVal s 0) (length xs) w = syscall (sys_write os fd xs) w"
proof -
  obtain r where "cbytes (CVal s 0) w = Ok (map Some xs @ r) w" using assms by (rule cbytes_has)
  then show ?thesis by (auto simp: write_bytes_def nc_simps comp_def)
qed

text \<open>
  \<^verbatim>\<open>file_puts\<close> on a new file: some bytes are written, or there is an error and no file changed.
\<close>

lemma ends_file_puts:
  fixes w :: "('k, 'z) sys_heap_scheme"
  assumes "write_law os view descr" "str_has w s xs" "descr (kern w) fd = Some (name, 0)" "view (kern w) name = Some []"
    "\<And>n k. view k = (view (kern w))(name \<mapsto> take n xs) \<Longrightarrow> n \<le> length xs \<Longrightarrow> (complete_writes os \<Longrightarrow> n = length xs) \<Longrightarrow> P () (w\<lparr>kern := k\<rparr>)"
    "\<And>k. view k = view (kern w) \<Longrightarrow> Q (w\<lparr>kern := k\<rparr>)"
  shows "ends (file_puts os fd s w) P Q"
proof -
  obtain t where t: "get_str s w = Ok t w" "s_len t = length xs" using assms(2) by (rule get_str_has)
  show ?thesis
  proof (cases "xs = []")
    case True
    then have "view (kern w) = (view (kern w))(name \<mapsto> take 0 xs)" using assms(4) by (simp add: fun_upd_idem)
    from assms(5) [OF this] have "P () (w\<lparr>kern := kern w\<rparr>)" using True by simp
    then show ?thesis using t True by (simp add: file_puts_def nc_simps)
  next
    case False
    obtain r k where r: "sys_write os fd xs (kern w) = (r, k)" by fastforce
    have e: "file_puts os fd s w = (case r of Inl e \<Rightarrow> Fail (-1) (w\<lparr>kern := k\<rparr>) | Inr n \<Rightarrow> Ok () (w\<lparr>kern := k\<rparr>))"
      using t False r write_bytes_has [OF assms(2)]
      by (simp add: file_puts_def nc_simps syscall_def split: sum.split)
    show ?thesis
    proof (cases r)
      case (Inl e')
      then have "view k = view (kern w)" using assms(1) r unfolding write_law_def by blast
      then show ?thesis using e Inl assms(6) by simp
    next
      case (Inr n)
      then have "n \<le> length xs \<and> view k = (view (kern w))(name \<mapsto> [] @ take n xs)"
        using assms(1,3,4) r unfolding write_law_def by (metis list.size(3))
      moreover have "complete_writes os \<Longrightarrow> n = length xs" using r Inr unfolding complete_writes_def by blast
      ultimately show ?thesis using e Inr assms(5) [of k n] by simp
    qed
  qed
qed

text \<open>\<^verbatim>\<open>file_rename\<close> of a file to another name\<close>

lemma two_paths_eval:
  assumes "str_has w a xs" "str_has w b ys" "xs \<noteq> []" "ys \<noteq> []" "NUL \<notin> set xs" "NUL \<notin> set ys"
  shows "two_paths call a b w = sys_try (call xs ys) w"
proof -
  obtain t where t: "get_str a w = Ok t w" "s_len t = length xs" using assms(1) by (rule get_str_has)
  obtain u where u: "get_str b w = Ok u w" "s_len u = length ys" using assms(2) by (rule get_str_has)
  show ?thesis
    using t u assms cread_str_has [OF assms(1,5)] cread_str_has [OF assms(2,6)] by (simp add: two_paths_def nc_bind_def)
qed

lemma ends_file_rename:
  fixes w :: "('k, 'z) sys_heap_scheme"
  assumes "rename_law fs view" "str_has w a xs" "str_has w b ys" "xs \<noteq> []" "ys \<noteq> []" "NUL \<notin> set xs" "NUL \<notin> set ys" "xs \<noteq> ys"
    "\<And>k. view k = (view (kern w))(xs := None, ys := view (kern w) xs) \<Longrightarrow> P () (w\<lparr>kern := k\<rparr>)"
    "\<And>k. view k = view (kern w) \<Longrightarrow> Q (w\<lparr>kern := k\<rparr>)"
  shows "ends (file_rename fs a b w) P Q"
  unfolding file_rename_def two_paths_eval [OF assms(2-7)]
proof (rule ends_sys_try)
  show "Q (w\<lparr>kern := k\<rparr>)" if "sys_rename fs xs ys (kern w) = (Inl e, k)" for e k
    using that assms(1) by (intro assms(10)) (auto simp: rename_law_def)
  show "P x (w\<lparr>kern := k\<rparr>)" if "sys_rename fs xs ys (kern w) = (Inr x, k)" for x k
    using that assms(1,8) assms(9) [of k] by (simp add: rename_law_def)
qed

lemma ends_throw_destroy:
  fixes w :: "('k, 'z) sys_heap_scheme"
  assumes "str_has w a xs" "\<And>w'. kern w' = kern w \<Longrightarrow> Q w'"
  shows "ends (throw_destroy a w) P Q"
  using assms by (simp add: throw_destroy_def nc_simps str_destroy_ok)

text \<open>
  The result of a successful \<^verbatim>\<open>file_write\<close>: the file holds the data, or the part of it that write(2) took
\<close>

definition written :: "'k os \<Rightarrow> ('k \<Rightarrow> string \<Rightarrow> string option) \<Rightarrow> string \<Rightarrow> string \<Rightarrow> 'k \<Rightarrow> bool" where
  "written os view p xs k \<longleftrightarrow> (\<exists>n\<le>length xs. view k p = Some (take n xs) \<and> (complete_writes os \<longrightarrow> n = length xs))"

lemma ends_close_and_rename:
  fixes w :: "('k, 'z) sys_heap_scheme"
  assumes "rename_law fs view" "close_law os view" "str_has w t name" "str_has w path p"
    "name \<noteq> []" "p \<noteq> []" "NUL \<notin> set name" "NUL \<notin> set p" "name \<noteq> p" "view (kern w) name = Some ys"
    "view (kern w) p = old" "\<And>k. view k p = Some ys \<Longrightarrow> R (w\<lparr>kern := k, strs := (strs w)(t := None)\<rparr>)"
  shows "ends (close_and_rename os fs t path fd w) (\<lambda>_. R) (\<lambda>w'. view (kern w') p = old)"
  unfolding close_and_rename_def
proof (rule ends_syscall)
  fix r k assume "sys_close os fd (kern w) = (r, k)"
  then have k: "view k = view (kern w)" using assms(2) unfolding close_law_def by blast
  show "ends ((case r of Inl e \<Rightarrow> throw_destroy t
      | Inr _ \<Rightarrow> nc_bind (file_rename fs t path) (\<lambda>_. str_destroy (Some t))) (w\<lparr>kern := k\<rparr>))
    (\<lambda>_. R) (\<lambda>w'. view (kern w') p = old)"
  proof (cases r)
    case (Inl e)
    show ?thesis unfolding Inl sum.case
      by (rule ends_throw_destroy [of _ _ name]) (use assms(3,11) k in simp_all)
  next
    case (Inr x)
    show ?thesis unfolding Inr sum.case
    proof (rule ends_bind)
      show "ends (file_rename fs t path (w\<lparr>kern := k\<rparr>))
          (\<lambda>_ w'. \<exists>k. w' = w\<lparr>kern := k\<rparr> \<and> view k p = Some ys) (\<lambda>w'. view (kern w') p = old)"
        by (rule ends_file_rename [OF assms(1), of _ t name path p]) (use assms(3-11) k in auto)
    next
      fix z w' assume "\<exists>k. w' = w\<lparr>kern := k\<rparr> \<and> view k p = Some ys"
      then show "ends (str_destroy (Some t) w') (\<lambda>_. R) (\<lambda>w'. view (kern w') p = old)"
        using str_destroy_ok [of w' t name] assms(3,12) by auto
    qed
  qed
qed

text \<open>What \<^verbatim>\<open>file_write\<close> does once the temporary file \<open>name\<close> exists\<close>

lemma ends_file_write_rest:
  fixes w :: "('k, 'z) sys_heap_scheme"
  assumes "store_laws os fs view descr" "str_has w t []" "str_has w path p" "str_has w data xs"
    "t \<noteq> path" "t \<noteq> data" "p \<noteq> []" "NUL \<notin> set p"
    "name \<noteq> []" "NUL \<notin> set name" "length name \<le> PATH_MAX" "name \<noteq> p"
    "descr (kern w) fd = Some (name, 0)" "view (kern w) name = Some []" "view (kern w) p = old"
  shows "ends (nc_bind (str_cpy t (CLit name)) (\<lambda>_. nc_bind (file_puts os fd data) (\<lambda>_. close_and_rename os fs t path fd)) w)
     (\<lambda>_ w'. written os view p xs (kern w') \<and> (\<exists>m\<ge>brk w. w' = w\<lparr>strs := (strs w)(t := None), brk := m, kern := kern w'\<rparr>))
     (\<lambda>w'. view (kern w') p = old)" (is "ends _ ?P ?Q")
proof (rule ends_bind)
  have "length name < STRING_MAX" using assms(11) by (simp add: PATH_MAX_def STRING_MAX_def)
  then show "ends (str_cpy t (CLit name) w) (\<lambda>_ w'. str_upd w t name w') (\<lambda>w'. view (kern w') p = old)"
    by (rule ends_str_cpy_lit [OF assms(2,10)]) (use assms(15) in simp_all)
next
  fix u w1 assume u: "str_upd w t name w1"
  have h: "str_has w1 t name" "str_has w1 path p" "str_has w1 data xs" "kern w1 = kern w"
    using str_upd_has [OF u] str_upd_has_other [OF u] assms(3-6) str_upd_kern_eq [OF u] by auto
  have laws: "write_law os view descr" "rename_law fs view" "close_law os view" using assms(1) by (simp_all add: store_laws_def)
  let ?wrote = "\<lambda>w2. \<exists>n k. w2 = w1\<lparr>kern := k\<rparr> \<and> view k = (view (kern w))(name \<mapsto> take n xs) \<and> n \<le> length xs \<and>
      (complete_writes os \<longrightarrow> n = length xs)"
  show "ends (nc_bind (file_puts os fd data) (\<lambda>_. close_and_rename os fs t path fd) w1) ?P ?Q"
  proof (rule ends_bind)
    show "ends (file_puts os fd data w1) (\<lambda>_. ?wrote) (\<lambda>w'. view (kern w') p = old)"
      by (rule ends_file_puts [OF laws(1) h(3), of fd name]) (use assms(13-15) h(4) in auto)
  next
    fix v w2 assume "?wrote w2"
    then obtain n k where n: "w2 = w1\<lparr>kern := k\<rparr>" "view k = (view (kern w))(name \<mapsto> take n xs)" "n \<le> length xs"
        "complete_writes os \<longrightarrow> n = length xs" by blast
    obtain m where m: "brk w \<le> m" "w1\<lparr>strs := (strs w1)(t := None)\<rparr> = w\<lparr>strs := (strs w)(t := None), brk := m\<rparr>"
      using u by (auto simp: str_upd_def)
    have "w1\<lparr>kern := k', strs := (strs w1)(t := None)\<rparr> = w\<lparr>strs := (strs w)(t := None), brk := m, kern := k'\<rparr>" for k'
    proof -
      have "w1\<lparr>kern := k', strs := (strs w1)(t := None)\<rparr> = (w1\<lparr>strs := (strs w1)(t := None)\<rparr>)\<lparr>kern := k'\<rparr>" by (cases w1) simp
      then show ?thesis unfolding m(2) by simp
    qed
    then have r: "?P () (w2\<lparr>kern := k', strs := (strs w2)(t := None)\<rparr>)" if "view k' p = Some (take n xs)" for k'
      using n that m(1) by (auto simp: written_def)
    show "ends (close_and_rename os fs t path fd w2) ?P ?Q"
      by (rule ends_close_and_rename [OF laws(2,3), of _ t name path p "take n xs"])
        (use h n assms(7-10,12,15) r in auto)
  qed
qed

text \<open>\<open>old\<close> is what the file holds before, if there is one.\<close>

lemma ends_file_write_any:
  fixes w :: "('k, 'z) sys_heap_scheme"
  assumes "store_laws os fs view descr" "str_has w path p" "str_has w data xs" "p \<noteq> []" "NUL \<notin> set p"
    "view (kern w) p = old" "wf_strs w"
    "\<And>fd name k. sys_mkstemp fs TMP_TEMPLATE (kern w) = (Inr (fd, name), k) \<Longrightarrow> name \<noteq> p"
  shows "ends (file_write os fs path data w)
     (\<lambda>_ w'. written os view p xs (kern w') \<and> (\<exists>m\<ge>brk w. w' = w\<lparr>brk := m, kern := kern w'\<rparr>)) (\<lambda>w'. view (kern w') p = old)"
    (is "ends _ ?P ?Q")
  unfolding file_write_def
proof (rule ends_bind)
  show "ends (str_new None w) (\<lambda>t w'. t = brk w \<and> str_upd w t [] w') (\<lambda>w'. view (kern w') p = old)"
    by (rule ends_str_new) (use assms(6) in simp_all)
next
  fix t w1 assume "t = brk w \<and> str_upd w t [] w1"
  then have t: "t = brk w" "str_upd w t [] w1" by blast+
  have ne: "t \<noteq> path" "t \<noteq> data" using str_has_lt [OF assms(7,2)] str_has_lt [OF assms(7,3)] t(1) by auto
  have h: "str_has w1 t []" "str_has w1 path p" "str_has w1 data xs" "kern w1 = kern w"
    using str_upd_has [OF t(2)] str_upd_has_other [OF t(2)] assms(2,3) ne str_upd_kern_eq [OF t(2)] by auto
  have gone: "brk w \<le> brk w1" "w1\<lparr>kern := k, strs := (strs w1)(t := None), brk := m, kern := k'\<rparr> = w\<lparr>brk := m, kern := k'\<rparr>" for k k' m
  proof -
    have "strs w t = None" using wf_strs_fresh [OF assms(7)] t(1) by simp
    then have "(strs w)(t := None) = strs w" by auto
    then show "brk w \<le> brk w1" "w1\<lparr>kern := k, strs := (strs w1)(t := None), brk := m, kern := k'\<rparr> = w\<lparr>brk := m, kern := k'\<rparr>"
      using t(2) by (auto simp: str_upd_def)
  qed
  have ml: "mkstemp_law fs view descr" using assms(1) by (simp add: store_laws_def)
  show "ends (nc_bind (syscall (sys_mkstemp fs TMP_TEMPLATE)) (\<lambda>r. case r of Inl e \<Rightarrow> throw_destroy t
     | Inr (fd, name) \<Rightarrow> nc_bind (str_cpy t (CLit name)) (\<lambda>_.
         nc_bind (file_puts os fd data) (\<lambda>_. close_and_rename os fs t path fd))) w1) ?P ?Q"
  proof (rule ends_syscall)
    fix r k assume "sys_mkstemp fs TMP_TEMPLATE (kern w1) = (r, k)"
    then have m: "sys_mkstemp fs TMP_TEMPLATE (kern w) = (r, k)" using h(4) by simp
    show "ends ((case r of Inl e \<Rightarrow> throw_destroy t | Inr (fd, name) \<Rightarrow> nc_bind (str_cpy t (CLit name)) (\<lambda>_.
         nc_bind (file_puts os fd data) (\<lambda>_. close_and_rename os fs t path fd))) (w1\<lparr>kern := k\<rparr>)) ?P ?Q"
    proof (cases r)
      case (Inl e)
      then have "view k = view (kern w)" using ml m unfolding mkstemp_law_def by blast
      then show ?thesis unfolding Inl sum.case
        by (intro ends_throw_destroy [of _ _ "[]"]) (use h(1) assms(6) in simp_all)
    next
      case (Inr y)
      obtain fd name where y: "y = (fd, name)" by fastforce
      have "view (kern w) name = None \<and> name \<noteq> [] \<and> NUL \<notin> set name \<and> length name \<le> PATH_MAX \<and>
          view k = (view (kern w))(name \<mapsto> []) \<and> descr k fd = Some (name, 0)"
        using ml m Inr y unfolding mkstemp_law_def by blast
      then have nm: "name \<noteq> []" "NUL \<notin> set name" "length name \<le> PATH_MAX" "name \<noteq> p" "descr k fd = Some (name, 0)"
          "view k name = Some []" "view k p = old" using assms(6) assms(8) [of fd name k] m Inr y by auto
      have rest: "ends (nc_bind (str_cpy t (CLit name)) (\<lambda>_. nc_bind (file_puts os fd data) (\<lambda>_. close_and_rename os fs t path fd)) (w1\<lparr>kern := k\<rparr>))
         (\<lambda>_ w'. written os view p xs (kern w') \<and> (\<exists>m\<ge>brk w1. w' = (w1\<lparr>kern := k\<rparr>)\<lparr>strs := (strs w1)(t := None), brk := m, kern := kern w'\<rparr>)) ?Q"
        using ends_file_write_rest [OF assms(1), of "w1\<lparr>kern := k\<rparr>" t path p data xs name fd] h nm ne assms(4,5) by simp
      show ?thesis unfolding Inr y sum.case prod.case
      proof (rule ends_mono [OF rest])
        fix a w' assume "written os view p xs (kern w') \<and> (\<exists>m\<ge>brk w1. w' = (w1\<lparr>kern := k\<rparr>)\<lparr>strs := (strs w1)(t := None), brk := m, kern := kern w'\<rparr>)"
        then show "?P a w'" unfolding gone(2) using order_trans [OF gone(1)] by blast
      qed
    qed
  qed
qed

lemma ends_file_write:
  fixes w :: "('k, 'z) sys_heap_scheme"
  assumes "store_laws os fs view descr" "str_has w path p" "str_has w data xs" "p \<noteq> []" "NUL \<notin> set p"
    "view (kern w) p = Some old" "wf_strs w"
  shows "ends (file_write os fs path data w)
     (\<lambda>_ w'. written os view p xs (kern w') \<and> (\<exists>m\<ge>brk w. w' = w\<lparr>brk := m, kern := kern w'\<rparr>)) (\<lambda>w'. view (kern w') p = Some old)"
proof (rule ends_file_write_any [OF assms])
  fix fd name k assume "sys_mkstemp fs TMP_TEMPLATE (kern w) = (Inr (fd, name), k)"
  then have "view (kern w) name = None" using assms(1) unfolding store_laws_def mkstemp_law_def by blast
  then show "name \<noteq> p" using assms(6) by auto
qed

section \<open>Reading\<close>

lemma file_upd_simps [simp]:
  fixes w :: "('k, 'z) file_heap_scheme"
  shows "str_has (w\<lparr>files := x\<rparr>) a xs = str_has w a xs" "mem_ok (w\<lparr>files := x\<rparr>) = mem_ok w"
  by (simp_all add: str_has_def mem_ok_def)

lemma str_upd_files:
  fixes w :: "('k, 'z) file_heap_scheme"
  shows "str_upd w s xs w' \<Longrightarrow> files w' = files w"
  by (cases w; cases w'; auto simp: str_upd_def)

lemma zero_file_simps [simp]: "f_path zero_file = None" "f_st zero_file = zero_stat"
  by (simp_all add: zero_file_def)

lemmas file_run = nc_simps get_file_def upd_file_def free_file_def syscall_def list_run

text \<open>Only strings with an address in \<open>S\<close> changed.\<close>

definition keeps :: "nat set \<Rightarrow> 'z heap_scheme \<Rightarrow> 'z heap_scheme \<Rightarrow> bool" where
  "keeps S w w' \<longleftrightarrow> malloc_ok w' = malloc_ok w \<and> brk w \<le> brk w' \<and> (\<forall>a. a \<notin> S \<longrightarrow> strs w' a = strs w a)"

lemma keeps_trans: "keeps S w w1 \<Longrightarrow> keeps S w1 w2 \<Longrightarrow> keeps S w w2"
  by (simp add: keeps_def)

lemma keeps_has: "keeps S w w' \<Longrightarrow> a \<notin> S \<Longrightarrow> str_has w' a xs = str_has w a xs"
  by (simp add: keeps_def str_has_def)

lemma keeps_mem_ok: "keeps S w w' \<Longrightarrow> mem_ok w' = mem_ok w"
  by (simp add: keeps_def mem_ok_def)

lemma str_upd_keeps: "str_upd w s xs w' \<Longrightarrow> s \<in> S \<Longrightarrow> keeps S w w'"
  by (auto simp: str_upd_def keeps_def)

lemma file_new_ok:
  fixes w :: "('k, 'z) file_heap_scheme"
  assumes "mem_ok w"
  obtains s w' where "file_new None w = Ok (brk w) w'" "s = Suc (brk w)" "str_has w' s []" "keeps {s} w w'" "kern w' = kern w"
    "files w' = (files w)(brk w \<mapsto> zero_file\<lparr>f_fd := -1, f_path := Some s\<rparr>)"
proof -
  let ?f = "brk w" and ?s = "Suc (brk w)"
  let ?w1 = "w\<lparr>brk := ?s, files := (files w)(?f \<mapsto> zero_file\<lparr>f_fd := -1\<rparr>)\<rparr>"
  have m: "mem_ok ?w1" using assms by (simp add: mem_ok_def)
  obtain w2 where w2: "str_new None ?w1 = Ok ?s w2" "str_upd ?w1 ?s [] w2" using str_new_ok [OF m] by auto
  let ?w3 = "w2\<lparr>files := (files w2)(?f \<mapsto> zero_file\<lparr>f_fd := -1, f_path := Some ?s\<rparr>)\<rparr>"
  have f2: "files w2 = files ?w1" "kern w2 = kern w"
    using str_upd_files [OF w2(2)] str_upd_kern_eq [OF w2(2)] by simp_all
  have "file_new None w = Ok ?f ?w3"
    using assms w2(1) f2(1) by (simp add: file_new_def calloc_file_def file_run)
  moreover have "keeps {?s} w ?w3" using str_upd_keeps [OF w2(2), of "{?s}"] by (simp add: keeps_def)
  ultimately show ?thesis using that str_upd_has [OF w2(2)] f2 by simp
qed

lemma file_open_ok:
  fixes w :: "('k, 'z) file_heap_scheme"
  assumes "files w f = Some t" "f_path t = Some s" "str_has w s ys" "str_has w path p" "s \<noteq> path" "p \<noteq> []" "NUL \<notin> set p"
    "sys_open fs p flags mode (kern w) = (Inr fd, k)" "mem_ok w"
  obtains w' where "file_open fs f path flags mode w = Ok () w'" "str_has w' s p" "keeps {s} w w'" "kern w' = k"
    "files w' = (files w)(f \<mapsto> t\<lparr>f_fd := fd, f_flags := flags\<rparr>)"
proof -
  let ?w1 = "w\<lparr>kern := k, files := (files w)(f \<mapsto> t\<lparr>f_fd := fd, f_flags := flags\<rparr>)\<rparr>"
  obtain u where u: "get_str path w = Ok u w" "s_len u = length p" using assms(4) by (rule get_str_has)
  obtain w2 where w2: "str_copy s path ?w1 = Ok () w2" "str_upd ?w1 s p w2"
    using str_copy_ok [of ?w1 path p s ys] assms(3-5,9) by auto
  have "file_open fs f path flags mode w = Ok () w2"
    using u w2(1) assms(1,2,6,8) cread_str_has [OF assms(4,7)] by (simp add: file_open_def file_run)
  moreover have "keeps {s} w w2" using str_upd_keeps [OF w2(2), of "{s}"] by (simp add: keeps_def)
  moreover have "kern w2 = k" "files w2 = files ?w1" using str_upd_kern_eq [OF w2(2)] str_upd_files [OF w2(2)] by simp_all
  ultimately show ?thesis using that str_upd_has [OF w2(2)] by simp
qed

lemma file_fstat_ok:
  fixes w :: "('k, 'z) file_heap_scheme"
  assumes "files w f = Some t" "f_path t = Some s" "0 \<le> f_fd t" "str_has w s p" "NUL \<notin> set p"
    "sys_stat os p (kern w) = (Inr b, k)" "mode_type (b_mode b) = Some ty"
  shows "file_fstat os f w = Ok () (w\<lparr>kern := k, files := (files w)(f \<mapsto> t\<lparr>f_st := (f_st t)\<lparr>st_size := b_size b, st_mode := b_mode b, st_type := ty\<rparr>\<rparr>)\<rparr>)"
  using assms cread_str_has [OF assms(4,5)] by (simp add: file_fstat_def file_stat_def file_run)

lemma str_read_fd_ok:
  fixes w :: "('k, 'z) sys_heap_scheme"
  assumes "str_has w d ys" "n < STRING_MAX" "sys_read os fd n (kern w) = (Inr xs, k)" "length xs \<le> n" "mem_ok w"
  obtains w' where "str_read_fd os d fd n w = Ok () w'" "str_upd (w\<lparr>kern := k\<rparr>) d xs w'"
proof -
  obtain w1 where w1: "str_truncate d w = Ok () w1" "str_upd w d [] w1" using str_truncate_ok [OF assms(1)] by blast
  have m1: "mem_ok w1" using str_upd_mem_ok [OF w1(2)] assms(5) by simp
  have n: "0 < n + 1" "n + 1 \<le> STRING_MAX" using assms(2) by simp_all
  obtain w2 b where w2: "str_resize d (n + 1) w1 = Ok () w2" "str_upd w1 d [] w2" "strs w2 d = Some (str_of b 0)"
      "n + 1 \<le> length b" "length b \<le> STRING_MAX + 1"
    using str_resize_ok [OF str_upd_has [OF w1(2)] n m1] by auto
  have u2: "str_upd w d [] w2" using str_upd_trans [OF w1(2) w2(2)] .
  have k2: "kern w2 = kern w" by (rule str_upd_kern_eq [OF u2])
  let ?b = "splice 0 (map Some xs) b"
  let ?w3 = "w2\<lparr>kern := k, strs := (strs w2)(d \<mapsto> str_of ?b 0)\<rparr>"
  have l: "length ?b = length b" using w2(4) assms(4) by (simp add: splice_def)
  have p: "poke d 0 (map Some xs) (w2\<lparr>kern := k\<rparr>) = Ok () ?w3" using w2(3,4) assms(4) by (simp add: poke_eval)
  have "str_set_len d (length xs) ?w3 = Ok () (?w3\<lparr>strs := (strs ?w3)(d \<mapsto> str_of (splice (length xs) [Some NUL] ?b) (length xs))\<rparr>)"
    using str_set_len_eval [of ?w3 d ?b 0 "length xs"] l w2(4) assms(2,4) by simp
  then have run: "str_read_fd os d fd n w = Ok () (?w3\<lparr>strs := (strs ?w3)(d \<mapsto> str_of (splice (length xs) [Some NUL] ?b) (length xs))\<rparr>)"
    using assms(2,3) w1(1) w2(1) k2 p by (simp add: str_read_fd_def nc_simps syscall_def)
  have "take (length xs) ?b = map Some xs" using w2(4) assms(4) by (simp add: splice_def)
  then have rep: "str_rep (str_of (splice (length xs) [Some NUL] ?b) (length xs)) xs"
    using l w2(4,5) assms(4) by (intro str_repI holds_terminate) simp_all
  obtain m where m: "w2 = w\<lparr>strs := strs w2, brk := m\<rparr>" "brk w \<le> m" "\<forall>a. a \<noteq> d \<longrightarrow> strs w2 a = strs w a"
    using u2 by (auto simp: str_upd_def)
  have "(strs w2)(d \<mapsto> z) = (strs w)(d \<mapsto> z)" for z using m(3) by auto
  then have "?w3\<lparr>strs := (strs ?w3)(d \<mapsto> z)\<rparr> = (w\<lparr>kern := k\<rparr>)\<lparr>strs := (strs (w\<lparr>kern := k\<rparr>))(d \<mapsto> z), brk := m\<rparr>" for z
    using arg_cong [OF m(1), of "\<lambda>v. v\<lparr>kern := k, strs := (strs w)(d \<mapsto> z)\<rparr>"] by simp
  then show ?thesis using that [OF run] str_updI [OF rep, of "w\<lparr>kern := k\<rparr>" m d] m(2) by simp
qed

lemma file_destroy_ok:
  fixes w :: "('k, 'z) file_heap_scheme"
  assumes "files w f = Some t" "f_path t = Some s" "str_has w s p" "close_law os view"
  obtains k where "file_destroy os (Some f) w = Ok () (w\<lparr>kern := k, strs := (strs w)(s := None), files := (files w)(f := None)\<rparr>)"
    "view k = view (kern w)"
proof (cases "f_fd t < 0")
  case True
  then show ?thesis using that [of "kern w"] assms str_destroy_ok [OF assms(3)] by (simp add: file_destroy_def file_run)
next
  case False
  obtain r k where r: "sys_close os (f_fd t) (kern w) = (r, k)" by fastforce
  then have v: "view k = view (kern w)" using assms(4) unfolding close_law_def by blast
  let ?w1 = "\<lambda>u. w\<lparr>kern := k, files := (files w)(f \<mapsto> u)\<rparr>"
  have d: "str_destroy (Some s) (w\<lparr>kern := k\<rparr>) = Ok () (w\<lparr>kern := k, strs := (strs w)(s := None)\<rparr>)"
      "str_destroy (Some s) (?w1 u) = Ok () ((?w1 u)\<lparr>strs := (strs w)(s := None)\<rparr>)" for u
    using str_destroy_ok [of "w\<lparr>kern := k\<rparr>" s p] str_destroy_ok [of "?w1 u" s p] assms(3) by simp_all
  show ?thesis
    by (rule that [OF _ v]) (use False r d assms in \<open>cases r; simp add: file_destroy_def file_close_def sys_try_def file_run\<close>)
qed

lemma file_size_nat: "n < STRING_MAX \<Longrightarrow> nat (int n mod 2 ^ 64) = n"
  by (simp add: STRING_MAX_def)

lemma file_read_ok:
  fixes w :: "('k, 'z) file_heap_scheme"
  assumes "read_laws os fs view descr" "close_law os view" "str_has w path p" "p \<noteq> []" "NUL \<notin> set p"
    "view (kern w) p = Some xs" "length xs < STRING_MAX" "str_has w d ys" "mem_ok w" "wf_strs w" "files w (brk w) = None"
  shows "\<exists>w'. file_read os fs d path w = Ok () w' \<and> str_has w' d xs \<and> view (kern w') = view (kern w) \<and> files w' = files w \<and>
    keeps {d} w w'"
proof -
  let ?f = "brk w"
  obtain s w1 where w1: "file_new None w = Ok ?f w1" "s = Suc ?f" "str_has w1 s []" "keeps {s} w w1" "kern w1 = kern w"
      "files w1 = (files w)(?f \<mapsto> zero_file\<lparr>f_fd := -1, f_path := Some s\<rparr>)" using assms(9) by (rule file_new_ok)
  have ne: "s \<noteq> path" "s \<noteq> d" "strs w s = None"
    using str_has_lt [OF assms(10,3)] str_has_lt [OF assms(10,8)] wf_strs_fresh [OF assms(10), of s] w1(2) by auto
  obtain fd k1 where k1: "sys_open fs p O_RDONLY 0 (kern w) = (Inr fd, k1)" "0 \<le> fd" "view k1 = view (kern w)" "descr k1 fd = Some (p, 0)"
    using assms(1,6) unfolding read_laws_def by blast
  have p1: "str_has w1 path p" "str_has w1 d ys" "mem_ok w1"
    using keeps_has [OF w1(4)] assms(3,8,9) ne keeps_mem_ok [OF w1(4)] by auto
  obtain w2 where w2: "file_open fs ?f path O_RDONLY 0 w1 = Ok () w2" "str_has w2 s p" "keeps {s} w1 w2" "kern w2 = k1"
      "files w2 = (files w1)(?f \<mapsto> zero_file\<lparr>f_path := Some s, f_fd := fd, f_flags := O_RDONLY\<rparr>)"
  proof (rule file_open_ok [OF _ _ w1(3) p1(1) ne(1) assms(4,5) _ p1(3)])
    show "files w1 ?f = Some (zero_file\<lparr>f_fd := -1, f_path := Some s\<rparr>)" using w1(6) by simp
    show "sys_open fs p O_RDONLY 0 (kern w1) = (Inr fd, k1)" using k1(1) w1(5) by simp
  qed simp_all
  have p2: "str_has w2 d ys" "mem_ok w2" using keeps_has [OF w2(3)] keeps_mem_ok [OF w2(3)] p1 ne by auto
  obtain b k2 where k2: "sys_stat os p k1 = (Inr b, k2)" "b_size b = int (length xs)" "mode_type (b_mode b) = Some FILE_IS_REGULAR"
      "view k2 = view k1" "descr k2 = descr k1"
    using assms(1,6) k1(3) unfolding read_laws_def by metis
  define F where "F = zero_file\<lparr>f_path := Some s, f_fd := fd, f_flags := O_RDONLY,
    f_st := zero_stat\<lparr>st_size := int (length xs), st_mode := b_mode b, st_type := FILE_IS_REGULAR\<rparr>\<rparr>"
  let ?w3 = "w2\<lparr>kern := k2, files := (files w2)(?f \<mapsto> F)\<rparr>"
  have st: "file_fstat os ?f w2 = Ok () ?w3"
    using file_fstat_ok [of w2 ?f _ s p os b k2] w2(2,4,5) k1(2) assms(5) k2(1-3) by (simp add: F_def)
  obtain k3 where k3: "sys_read os fd (length xs) k2 = (Inr xs, k3)" "view k3 = view k2"
    using assms(1,6) k1(3,4) k2(4,5) unfolding read_laws_def by (metis drop0 order_refl take_all)
  obtain w4 where w4: "str_read_fd os d fd (length xs) ?w3 = Ok () w4" "str_upd (?w3\<lparr>kern := k3\<rparr>) d xs w4"
    by (rule str_read_fd_ok [of ?w3 d ys "length xs" os fd xs k3]) (use p2 assms(7) k3(1) in simp_all)
  have p4: "kern w4 = k3" "files w4 = (files w2)(?f \<mapsto> F)" "keeps {d} w2 w4" "str_has w4 s p"
    using str_upd_kern_eq [OF w4(2)] str_upd_files [OF w4(2)] str_upd_keeps [OF w4(2), of "{d}"]
      str_upd_has_other [OF w4(2)] w2(2) ne by (auto simp: keeps_def)
  obtain k5 where k5: "file_destroy os (Some ?f) w4 = Ok () (w4\<lparr>kern := k5, strs := (strs w4)(s := None), files := (files w4)(?f := None)\<rparr>)"
      "view k5 = view (kern w4)"
    by (rule file_destroy_ok [of w4 ?f F s p os view]) (use p4 assms(2) in \<open>simp_all add: F_def\<close>)
  let ?w5 = "w4\<lparr>kern := k5, strs := (strs w4)(s := None), files := (files w4)(?f := None)\<rparr>"
  have "file_read os fs d path w = Ok () ?w5"
    using w1(1) w2(1) st w4(1) k5(1) assms(7) file_size_nat [OF assms(7)] by (simp add: file_read_def nc_bind_def get_file_def F_def)
  moreover have "str_has ?w5 d xs" using str_upd_has [OF w4(2)] ne(2) by (simp add: str_has_def)
  moreover have "view (kern ?w5) = view (kern w)" using k5(2) p4(1) k3(2) k2(4) k1(3) by simp
  moreover have "files ?w5 = files w" using p4(2) w2(5) w1(6) assms(11) by auto
  moreover have "keeps {d} w ?w5" using w1(4) w2(3) p4(3) ne(2,3) by (auto simp: keeps_def)
  ultimately show ?thesis by blast
qed

section \<open>Directories\<close>

text \<open>
  readdir_r(3) returns the names of the stream one by one, then its end.
\<close>

definition dir_law :: "'k fs \<Rightarrow> nat \<Rightarrow> ('k \<Rightarrow> string list) \<Rightarrow> bool" where
  "dir_law fs d stream \<longleftrightarrow> (\<forall>k. case stream k of
       [] \<Rightarrow> fst (sys_readdir fs d k) = Inr None
     | e # es \<Rightarrow> fst (sys_readdir fs d k) = Inr (Some e) \<and> stream (snd (sys_readdir fs d k)) = es)"

text \<open>
  The names that \<^verbatim>\<open>file_ls\<close> returns: the first entry unless it is the directory itself, the second unless it is
  the parent, and all others
\<close>

fun ls_entries :: "string list \<Rightarrow> string list" where
  "ls_entries [] = []"
| "ls_entries [a] = (if a = ''.'' then [] else [a])"
| "ls_entries (a # b # es) = (if a = ''.'' then [] else [a]) @ (if b = ''..'' then [] else [b]) @ es"

lemma list_obj_kern [simp]:
  fixes w :: "('k, 'z) sys_heap_scheme"
  shows "list_obj (w\<lparr>kern := k\<rparr>) l xss F = list_obj w l xss F"
  by (simp add: list_obj_def)

lemma list_obj_cat:
  fixes w :: "('k, 'z) sys_heap_scheme"
  assumes "list_obj w l xss F" "NUL \<notin> set x" "length x < STRING_MAX" "list_room (length xss)"
  shows "\<exists>w' F'. list_cat l (CLit x) w = Ok () w' \<and> list_obj w' l (xss @ [x]) F' \<and> kern w' = kern w"
proof -
  obtain cs where c: "list_at w l cs xss" "wf_lh w" "mem_ok w" using assms(1) by (auto simp: list_obj_def)
  have len: "length cs + 1 < 2 ^ 64"
    using assms(4) vals_length [of w cs xss] c(1) by (simp add: list_room_def list_at_def)
  obtain w' a s where w': "list_cat l (CLit x) w = Ok () w'" "list_at w' l (cs @ [(a, s)]) (xss @ [x])"
      "mod_lh {s} (insert a (fst ` set cs)) {l} w w'" "a < brk w'" "s < brk w'"
    using list_cat_ok [OF c(1) cread_CLit [OF assms(2)] assms(3) len c(3,2)] by blast
  have "wf_lh w'" using list_push_wf [OF w'(3) _ c(2) w'(4,5)] c(1) by (simp add: list_at_def)
  then have "list_obj w' l (xss @ [x]) (snd ` set (cs @ [(a, s)]))"
    using w'(2) c(3) mod_lh_mem_ok [OF w'(3)] by (auto simp: list_obj_def simp del: set_append)
  then show ?thesis using w'(1) mod_lh_kern [OF w'(3)] by blast
qed

definition dir_name :: "string \<Rightarrow> bool" where
  "dir_name x \<longleftrightarrow> NUL \<notin> set x \<and> length x < STRING_MAX"

lemma readdir_next:
  fixes w :: "('k, 'z) sys_heap_scheme"
  assumes "dir_law fs d stream"
  shows "stream (kern w) = [] \<Longrightarrow> \<exists>k. sys_query (sys_readdir fs d) w = Ok None (w\<lparr>kern := k\<rparr>)"
    "stream (kern w) = e # es \<Longrightarrow> \<exists>k. sys_query (sys_readdir fs d) w = Ok (Some e) (w\<lparr>kern := k\<rparr>) \<and> stream k = es"
proof -
  obtain r k where r: "sys_readdir fs d (kern w) = (r, k)" by fastforce
  have law: "case stream (kern w) of [] \<Rightarrow> r = Inr None | e # es \<Rightarrow> r = Inr (Some e) \<and> stream k = es"
    using assms r unfolding dir_law_def by (metis fst_conv snd_conv)
  show "stream (kern w) = [] \<Longrightarrow> \<exists>k. sys_query (sys_readdir fs d) w = Ok None (w\<lparr>kern := k\<rparr>)"
    using law r by (auto simp: sys_query_def nc_simps syscall_def)
  show "stream (kern w) = e # es \<Longrightarrow> \<exists>k. sys_query (sys_readdir fs d) w = Ok (Some e) (w\<lparr>kern := k\<rparr>) \<and> stream k = es"
    using law r by (auto simp: sys_query_def nc_simps syscall_def)
qed

lemma file_ls_loop_ok:
  fixes w :: "('k, 'z) sys_heap_scheme"
  assumes "dir_law fs d stream" "list_obj w l xss F" "stream (kern w) = es" "\<forall>e\<in>set es. dir_name e"
    "length es < n" "list_room (length xss + length es)"
  shows "\<exists>w' F'. file_ls_loop n fs l d w = Ok () w' \<and> list_obj w' l (xss @ es) F'"
  using assms(2-6)
proof (induction es arbitrary: n w xss F)
  case Nil
  obtain m where m: "n = Suc m" using Nil.prems(4) by (cases n) auto
  obtain k where "sys_query (sys_readdir fs d) w = Ok None (w\<lparr>kern := k\<rparr>)" using readdir_next(1) [OF assms(1) Nil.prems(2)] by blast
  then show ?case using Nil.prems(1) m by (auto simp: nc_simps)
next
  case (Cons e es)
  obtain m where m: "n = Suc m" using Cons.prems(4) by (cases n) auto
  obtain k where k: "sys_query (sys_readdir fs d) w = Ok (Some e) (w\<lparr>kern := k\<rparr>)" "stream k = es"
    using readdir_next(2) [OF assms(1) Cons.prems(2)] by blast
  have room: "list_room (length xss)" using Cons.prems(5) by (simp add: list_room_def)
  obtain w1 F1 where w1: "list_cat l (CLit e) (w\<lparr>kern := k\<rparr>) = Ok () w1" "list_obj w1 l (xss @ [e]) F1" "kern w1 = k"
    using list_obj_cat [of "w\<lparr>kern := k\<rparr>" l xss F e] Cons.prems(1,3) room by (auto simp: dir_name_def)
  have "\<exists>w' F'. file_ls_loop m fs l d w1 = Ok () w' \<and> list_obj w' l ((xss @ [e]) @ es) F'"
    by (rule Cons.IH [OF w1(2)]) (use w1(3) k(2) Cons.prems(3-5) m in simp_all)
  then show ?case using k(1) w1(1) m by (simp add: nc_simps)
qed

text \<open>An entry that is added unless it is \<open>x\<close>\<close>

lemma list_obj_cat_unless:
  fixes w :: "('k, 'z) sys_heap_scheme"
  assumes "list_obj w l xss F" "dir_name a" "list_room (length xss)"
  shows "\<exists>w' F'. nc_when (a \<noteq> x) (list_cat l (CLit a)) w = Ok () w' \<and> list_obj w' l (xss @ (if a = x then [] else [a])) F' \<and> kern w' = kern w"
  using assms list_obj_cat [of w l xss F a] by (cases "a = x") (auto simp: nc_when_def dir_name_def)

lemma file_ls_entries_ok:
  fixes w :: "('k, 'z) sys_heap_scheme"
  assumes "dir_law fs d stream" "list_obj w l [] F" "stream (kern w) = es" "\<forall>e\<in>set es. dir_name e"
    "length es \<le> n" "0 < n" "list_room (length es)"
  shows "\<exists>w' F'. file_ls_entries n fs l d w = Ok () w' \<and> list_obj w' l (ls_entries es) F'"
proof (cases es)
  case Nil
  then obtain k where "sys_query (sys_readdir fs d) w = Ok None (w\<lparr>kern := k\<rparr>)" using readdir_next(1) [OF assms(1)] assms(3) by blast
  then show ?thesis using assms(2) Nil by (auto simp: file_ls_entries_def nc_simps)
next
  case (Cons a rest)
  obtain k where k: "sys_query (sys_readdir fs d) w = Ok (Some a) (w\<lparr>kern := k\<rparr>)" "stream k = rest"
    using readdir_next(2) [OF assms(1)] assms(3) Cons by blast
  let ?xs = "if a = ''.'' then [] else [a]"
  have room: "list_room 0" "list_room (length ?xs)" using assms(7) Cons by (auto simp: list_room_def)
  obtain w1 F1 where w1: "nc_when (a \<noteq> ''.'') (list_cat l (CLit a)) (w\<lparr>kern := k\<rparr>) = Ok () w1" "list_obj w1 l ?xs F1" "kern w1 = k"
    using list_obj_cat_unless [of "w\<lparr>kern := k\<rparr>" l "[]" F a "''.''"] assms(2,4) Cons room(1) by auto
  show ?thesis
  proof (cases rest)
    case Nil
    then obtain k2 where "sys_query (sys_readdir fs d) w1 = Ok None (w1\<lparr>kern := k2\<rparr>)"
      using readdir_next(1) [OF assms(1)] k(2) w1(3) by blast
    then show ?thesis using k(1) w1 Cons Nil by (auto simp: file_ls_entries_def nc_bind_def nc_return_def simp del: sys_heap.update_convs)
  next
    case c2: (Cons b es')
    obtain k2 where k2: "sys_query (sys_readdir fs d) w1 = Ok (Some b) (w1\<lparr>kern := k2\<rparr>)" "stream k2 = es'"
      using readdir_next(2) [OF assms(1)] k(2) w1(3) c2 by blast
    let ?ys = "if b = ''..'' then [] else [b]"
    obtain w2 F2 where w2: "nc_when (b \<noteq> ''..'') (list_cat l (CLit b)) (w1\<lparr>kern := k2\<rparr>) = Ok () w2" "list_obj w2 l (?xs @ ?ys) F2" "kern w2 = k2"
      using list_obj_cat_unless [of "w1\<lparr>kern := k2\<rparr>" l ?xs F1 b "''..''"] w1(2) assms(4) Cons c2 room(2) by auto
    have "\<exists>w' F'. file_ls_loop n fs l d w2 = Ok () w' \<and> list_obj w' l ((?xs @ ?ys) @ es') F'"
      by (rule file_ls_loop_ok [OF assms(1) w2(2)]) (use w2(3) k2(2) assms(4-7) Cons c2 in \<open>auto simp: list_room_def\<close>)
    then show ?thesis using k(1) w1(1) k2(1) w2(1) Cons c2 by (simp add: file_ls_entries_def nc_bind_def)
  qed
qed

end
