(* ===== verification/NC_File_Props.thy ===== *)
theory NC_File_Props
  imports NC_File_Laws NC_String_Props
begin

text \<open>
  The properties of files, with witnesses on a small file system: a map from names to contents and a map
  from descriptors to names and offsets.
\<close>

section \<open>A concrete file system and memory\<close>

text \<open>A system in which every call fails\<close>

definition broken_os :: "'k os" where
  "broken_os = \<lparr>sys_read = (\<lambda>fd n k. (Inl EBADF, k)), sys_write = (\<lambda>fd cs k. (Inl EBADF, k)), sys_close = (\<lambda>fd k. (Inl EBADF, k)),
     sys_socket = (\<lambda>family k. (Inl EBADF, k)), sys_timeo = (\<lambda>fd rd sec k. (Inl EBADF, k)), sys_reuse = (\<lambda>fd k. (Inl EBADF, k)),
     sys_nonblock = (\<lambda>fd b k. (Inl EBADF, k)), sys_bind = (\<lambda>fd a k. (Inl EBADF, k)), sys_connect = (\<lambda>fd a k. (Inl EBADF, k)),
     sys_listen = (\<lambda>fd n k. (Inl EBADF, k)), sys_accept = (\<lambda>fd k. (Inl EBADF, k)), sys_getpeername = (\<lambda>fd k. (Inl EBADF, k)),
     sys_select = (\<lambda>fd want t k. (Inl EBADF, k)), sys_peercred = (\<lambda>fd k. (Inl EBADF, k)), sys_stat = (\<lambda>p k. (Inl ENOENT, k)),
     sys_unlink = (\<lambda>p k. (Inl ENOENT, k)), sys_chmod = (\<lambda>p m k. (Inl ENOENT, k)), sys_chown = (\<lambda>p u g k. (Inl ENOENT, k)),
     sys_getuid = 1000, inet_addr = (\<lambda>cs. (0, 0, 0, 0)), getpwnam = (\<lambda>n k. (Inr None, k)), getpwuid = (\<lambda>n k. (Inr None, k)),
     getgrnam = (\<lambda>n k. (Inr None, k)), getgrgid = (\<lambda>n k. (Inr None, k))\<rparr>"

record disk =
  d_files :: "string \<Rightarrow> string option"
  d_open :: "int \<Rightarrow> (string \<times> nat) option"
  d_stream :: "string list"

definition disk_os :: "disk os" where
  "disk_os = broken_os\<lparr>
     sys_read := (\<lambda>fd n k. case d_open k fd of None \<Rightarrow> (Inl EBADF, k)
       | Some (p, i) \<Rightarrow> (case d_files k p of None \<Rightarrow> (Inl ENOENT, k)
         | Some ys \<Rightarrow> (Inr (take n (drop i ys)), k\<lparr>d_open := (d_open k)(fd \<mapsto> (p, i + n))\<rparr>))),
     sys_write := (\<lambda>fd xs k. case d_open k fd of None \<Rightarrow> (Inl EBADF, k)
       | Some (p, i) \<Rightarrow> (case d_files k p of None \<Rightarrow> (Inl ENOENT, k)
         | Some ys \<Rightarrow> if i = length ys
             then (Inr (length xs), k\<lparr>d_files := (d_files k)(p \<mapsto> ys @ xs), d_open := (d_open k)(fd \<mapsto> (p, i + length xs))\<rparr>)
             else (Inl EAGAIN, k))),
     sys_close := (\<lambda>fd k. (Inr (), k\<lparr>d_open := (d_open k)(fd := None)\<rparr>)),
     sys_stat := (\<lambda>p k. case d_files k p of None \<Rightarrow> (Inl ENOENT, k)
       | Some ys \<Rightarrow> (Inr \<lparr>b_uid = 0, b_gid = 5, b_size = int (length ys), b_mode = S_IFREG, b_mtime = 0\<rparr>, k))\<rparr>"

definition disk_fs :: "disk fs" where
  "disk_fs = \<lparr>
     sys_open = (\<lambda>p flags mode k. case d_files k p of None \<Rightarrow> (Inl ENOENT, k)
       | Some ys \<Rightarrow> (Inr 3, k\<lparr>d_open := (d_open k)(3 \<mapsto> (p, 0))\<rparr>)),
     sys_lock = (\<lambda>fd t k. (Inr (), k)), sys_rmdir = (\<lambda>p k. (Inl ENOENT, k)),
     sys_rename = (\<lambda>p q k. (Inr (), k\<lparr>d_files := (d_files k)(p := None, q := d_files k p)\<rparr>)),
     sys_link = (\<lambda>p q k. (Inl ENOENT, k)), sys_symlink = (\<lambda>p q k. (Inl ENOENT, k)), sys_mkdir = (\<lambda>p m k. (Inl ENOENT, k)),
     sys_mkstemp = (\<lambda>t k. if d_files k ''tmp1'' = None
       then (Inr (3, ''tmp1''), k\<lparr>d_files := (d_files k)(''tmp1'' \<mapsto> []), d_open := (d_open k)(3 \<mapsto> (''tmp1'', 0))\<rparr>)
       else (Inl EAGAIN, k)),
     sys_opendir = (\<lambda>p k. (Inr 0, k)),
     sys_readdir = (\<lambda>d k. case d_stream k of [] \<Rightarrow> (Inr None, k) | e # es \<Rightarrow> (Inr (Some e), k\<lparr>d_stream := es\<rparr>)),
     sys_closedir = (\<lambda>d k. (Inr (), k)), sys_glob = (\<lambda>p k. (GlobNoMatch, k))\<rparr>"

definition fmem :: "disk file_heap" where
  "fmem = \<lparr>strs = [0 \<mapsto> lit_str ''/etc/motd'', 1 \<mapsto> lit_str ''hello'', 2 \<mapsto> lit_str ''root''], brk = 4,
     malloc_ok = (\<lambda>_ _. True), ents = Map.empty, lists = [3 \<mapsto> empty_list], hashes = Map.empty,
     kern = \<lparr>d_files = [''/etc/motd'' \<mapsto> ''old''], d_open = Map.empty, d_stream = [''.'', ''..'', ''a'', ''b'']\<rparr>, files = Map.empty\<rparr>"

lemma fmem_has: "str_has fmem 0 ''/etc/motd''" "str_has fmem 1 ''hello''" "str_has fmem 2 ''root''"
  by (rule lit_str_has; simp add: fmem_def STRING_MAX_def)+

lemma fmem_wf: "wf_lh fmem" "wf_strs fmem" "mem_ok fmem"
  by (auto simp: wf_lh_def wf_strs_def fmem_def mem_ok_def split: if_splits)

lemma disk_laws:
  "store_laws disk_os disk_fs d_files d_open" "read_laws disk_os disk_fs d_files d_open" "close_law disk_os d_files"
  "complete_writes disk_os"
proof -
  show c: "close_law disk_os d_files" by (auto simp: close_law_def disk_os_def)
  have "mkstemp_law disk_fs d_files d_open" "rename_law disk_fs d_files"
    by (auto simp: mkstemp_law_def rename_law_def disk_fs_def PATH_MAX_def split: if_splits)
  moreover have "write_law disk_os d_files d_open"
    by (auto simp: write_law_def disk_os_def split: option.splits if_splits prod.splits)
  ultimately show "store_laws disk_os disk_fs d_files d_open" using c by (simp add: store_laws_def)
  have "mode_type S_IFREG = Some FILE_IS_REGULAR" by (simp add: mode_type_def S_IFREG_def S_IFMT_def)
  then show "read_laws disk_os disk_fs d_files d_open"
    by (auto simp: read_laws_def disk_os_def disk_fs_def split: option.splits prod.splits)
  show "complete_writes disk_os"
    by (auto simp: complete_writes_def disk_os_def split: option.splits if_splits prod.splits)
qed


section \<open>Writing and reading files\<close>

text \<open>
  C6. \<^verbatim>\<open>file_write\<close> replaces a file as a whole or not at all. Whatever the answers of the system and
  whichever allocation fails, there is no fault, after an error the file at the path has its old contents, and
  after success it has the new ones, or the beginning of them when write(2) did not take all bytes.
\<close>

theorem file_write_replaces:
  fixes w :: "('k, 'z) sys_heap_scheme"
  assumes "store_laws os fs view descr" "str_has w path p" "str_has w data xs" "p \<noteq> []" "NUL \<notin> set p"
    "view (kern w) p = Some old" "wf_strs w"
  shows "case file_write os fs path data w of
      Ok _ w' \<Rightarrow> (\<exists>n\<le>length xs. view (kern w') p = Some (take n xs) \<and> (complete_writes os \<longrightarrow> n = length xs))
    | Fail _ w' \<Rightarrow> view (kern w') p = Some old
    | Fault _ \<Rightarrow> False"
  using ends_file_write [OF assms] by (auto simp: ends_def written_def split: outcome.splits)

theorem file_write_replaces_witness:
  "case file_write disk_os disk_fs 0 1 fmem of
      Ok _ w' \<Rightarrow> (\<exists>n\<le>length ''hello''. d_files (kern w') ''/etc/motd'' = Some (take n ''hello'') \<and> (complete_writes disk_os \<longrightarrow> n = length ''hello''))
    | Fail _ w' \<Rightarrow> d_files (kern w') ''/etc/motd'' = Some ''old''
    | Fault _ \<Rightarrow> False"
  by (rule file_write_replaces [OF disk_laws(1) fmem_has(1,2) _ _ _ fmem_wf(2)]) (simp_all add: fmem_def)



section \<open>Directories\<close>

lemma list_obj_truncate:
  fixes w :: "('k, 'z) sys_heap_scheme"
  assumes "list_obj w l xss F" "str_has w s x" "s \<notin> F"
  shows "\<exists>w'. list_truncate l w = Ok () w' \<and> list_obj w' l [] {} \<and> str_has w' s x \<and> kern w' = kern w"
proof -
  obtain cs where c: "list_at w l cs xss" "F = snd ` set cs" "wf_lh w" "mem_ok w" using assms(1) by (auto simp: list_obj_def)
  have "l < brk w" using list_cells_lt(1) [of w l cs] c(1,3) by (simp add: list_at_def)
  then have "list_obj (cleared l cs w) l [] {}" using cleared_wf [OF c(3)] c(4) cleared_empty by (auto simp: list_obj_def)
  moreover have "str_has (cleared l cs w) s x" using assms(2,3) mod_lh_has [OF cleared_mod] c(2) by blast
  ultimately show ?thesis using list_truncate_ok [OF c(1,3)] mod_lh_kern [OF cleared_mod] by blast
qed

text \<open>
  C20. \<^verbatim>\<open>file_ls\<close> returns the names of a directory in the order of the directory stream, whatever the list held
  before, and drops the entries for the directory itself and its parent only where they come first and second. Any bound
  that is not smaller than the number of entries is enough.
\<close>

theorem file_ls_spec:
  fixes w :: "('k, 'z) sys_heap_scheme"
  assumes "list_obj w dest xss F" "str_has w path p" "path \<notin> F" "NUL \<notin> set p"
    "sys_opendir fs p (kern w) = (Inr d, k)" "dir_law fs d stream" "stream k = es"
    "\<forall>e\<in>set es. NUL \<notin> set e \<and> length e < STRING_MAX" "length es \<le> n" "0 < n" "length es + 1 < 2 ^ 32"
  shows "\<exists>w' F'. file_ls fs n dest path w = Ok () w' \<and> list_obj w' dest (ls_entries es) F'"
proof -
  obtain w1 where w1: "list_truncate dest w = Ok () w1" "list_obj w1 dest [] {}" "str_has w1 path p" "kern w1 = kern w"
    using list_obj_truncate [OF assms(1-3)] by blast
  have "\<exists>w' F'. file_ls_entries n fs dest d (w1\<lparr>kern := k\<rparr>) = Ok () w' \<and> list_obj w' dest (ls_entries es) F'"
    by (rule file_ls_entries_ok [OF assms(6)]) (use w1(2) assms(7-11) in \<open>auto simp: dir_name_def list_room_def\<close>)
  then obtain w2 F2 where w2: "file_ls_entries n fs dest d (w1\<lparr>kern := k\<rparr>) = Ok () w2" "list_obj w2 dest (ls_entries es) F2" by blast
  have "file_ls fs n dest path w = Ok () (w2\<lparr>kern := snd (sys_closedir fs d (kern w2))\<rparr>)"
    using w1(1,4) w2(1) cread_str_has [OF w1(3) assms(4)] assms(5)
    by (simp add: file_ls_def sys_try_def nc_bind_def syscall_def nc_return_def split: prod.split)
  then show ?thesis using w2(2) by auto
qed

lemma fmem_list: "list_obj fmem 3 [] {}"
proof -
  have "list_at fmem 3 [] []" by (simp add: list_at_def list_cells_def header_Nil) (simp add: fmem_def)
  then show ?thesis using fmem_wf by (auto simp: list_obj_def)
qed

theorem file_ls_spec_witness:
  "\<exists>w' F'. file_ls disk_fs 10 3 0 fmem = Ok () w' \<and> list_obj w' 3 (ls_entries [''.'', ''..'', ''a'', ''b'']) F' \<and>
    ls_entries [''.'', ''..'', ''a'', ''b''] = [''a'', ''b'']"
proof -
  have "\<exists>w' F'. file_ls disk_fs 10 3 0 fmem = Ok () w' \<and> list_obj w' 3 (ls_entries [''.'', ''..'', ''a'', ''b'']) F'"
  proof (rule file_ls_spec [OF fmem_list fmem_has(1), where stream = d_stream])
    show "sys_opendir disk_fs ''/etc/motd'' (kern fmem) = (Inr 0, kern fmem)" by (simp add: disk_fs_def)
    show "dir_law disk_fs 0 d_stream" by (simp add: dir_law_def disk_fs_def split: list.split)
    show "d_stream (kern fmem) = [''.'', ''..'', ''a'', ''b'']" by (simp add: fmem_def)
  qed (simp_all add: STRING_MAX_def)
  then show ?thesis by simp
qed

section \<open>Owners and attributes\<close>

text \<open>
  \<^verbatim>\<open>file_get_group\<close> compares the old contents of its destination with the names of the administrator's group
  before it looks at the file: when the destination holds \<^verbatim>\<open>root\<close> or \<^verbatim>\<open>wheel\<close>, that name is the answer for a file of
  any group.
\<close>

theorem file_get_group_root:
  fixes w :: "('k, 'z) sys_heap_scheme"
  assumes "str_has w path p" "NUL \<notin> set p" "str_has w dest g" "g = ''root'' \<or> g = ''wheel''"
    "sys_stat os p (kern w) = (Inr st, k)"
  shows "file_get_group os dest path w = Ok () (w\<lparr>kern := k\<rparr>)"
proof -
  have n: "NUL \<notin> set g" using assms(4) by auto
  let ?w = "w\<lparr>kern := k\<rparr>"
  have c: "str_cmp dest (CLit x) ?w = (if g = x then Ok () ?w else Fail (strcmp g x) ?w)" if "NUL \<notin> set x" for x
    using str_cmp_eval [of ?w dest g "CLit x" x] assms(3) n that by simp
  have "group_get_gev os False (b_gid st) dest (w\<lparr>kern := k\<rparr>) = Ok 0 (w\<lparr>kern := k\<rparr>)"
    using c [of "''root''"] c [of "''wheel''"] assms(4) by (auto simp: group_get_gev_def nc_simps)
  then show ?thesis
    using cread_str_has [OF assms(1,2)] assms(5)
    by (simp add: file_get_group_def group_get_name_by_id_def sys_try_def nc_bind_def syscall_def nc_return_def)
qed

theorem file_get_group_root_witness:
  "file_get_group disk_os 2 0 fmem = Ok () (fmem\<lparr>kern := kern fmem\<rparr>) \<and>
   fst (sys_stat disk_os ''/etc/motd'' (kern fmem)) = Inr \<lparr>b_uid = 0, b_gid = 5, b_size = 3, b_mode = S_IFREG, b_mtime = 0\<rparr>"
proof -
  have st: "sys_stat disk_os ''/etc/motd'' (kern fmem) = (Inr \<lparr>b_uid = 0, b_gid = 5, b_size = 3, b_mode = S_IFREG, b_mtime = 0\<rparr>, kern fmem)"
    by (simp add: disk_os_def fmem_def)
  show ?thesis using file_get_group_root [OF fmem_has(1) _ fmem_has(3) _ st] st by simp
qed

text \<open>
  For a file that does not exist, \<^verbatim>\<open>file_stat\<close> keeps the size and the mode of an earlier call.
\<close>

lemma file_stat_stale:
  assumes "str_has w path p" "NUL \<notin> set p" "sys_stat os p (kern w) = (Inl ENOENT, k)"
  shows "file_stat os old path w = Ok (0, old\<lparr>st_uid := 0, st_type := FILE_IS_NONEXISTENT\<rparr>) (w\<lparr>kern := k\<rparr>)"
  using cread_str_has [OF assms(1,2)] assms(3) by (simp add: file_stat_def nc_simps syscall_def)

text \<open>\<^verbatim>\<open>file_unlock\<close> marks the file as locked.\<close>

lemma file_unlock_marks:
  assumes "files w f = Some t" "0 \<le> f_fd t" "sys_lock fs (f_fd t) F_UNLCK (kern w) = (Inr (), k)"
  shows "file_unlock fs f w = Ok () (w\<lparr>kern := k, files := (files w)(f \<mapsto> t\<lparr>f_locked := True\<rparr>)\<rparr>)"
  using assms by (simp add: file_unlock_def file_lock_def sys_try_def file_run)

end
