(* ===== verification/NC_Net.thy ===== *)
theory NC_Net
  imports NC_File
begin

text \<open>
  The local host and the resolver (src/host.c, src/dns.c). The calls of the resolver library and of the C library are
  a parameter, the record \<open>net\<close>. Locking the resolver does not change what a single thread does.
\<close>

section \<open>The resolver library\<close>

text \<open>
  \<open>getifaddrs\<close> lists the family and the IPv4 address of every interface that has an address. \<open>gethostbyname\<close>
  tells whether there is an answer, and if not, whether \<^verbatim>\<open>h_errno\<close> is \<^verbatim>\<open>HOST_NOT_FOUND\<close>. \<open>res_query\<close> and \<open>res_search\<close> give the
  response packet for a name and a record type; only as much as fits is stored in the buffer. \<open>dn_expand\<close> gets the
  buffer, the offset of its end, the offset of the name and the size of the destination, and answers with the
  name and the number of bytes it takes in the packet; \<open>dn_skipname\<close> only gives the number.
\<close>

datatype host_answer = HostFound | HostNotFound | HostError

record 'k net =
  gethostname :: "(string, 'k) syscall"
  getifaddrs :: "((nat \<times> in_addr) option list, 'k) syscall"
  gethostbyname :: "string \<Rightarrow> 'k \<Rightarrow> host_answer \<times> 'k"
  getaddrinfo :: "string \<Rightarrow> (in_addr list, 'k) syscall"
  getservbyname :: "string \<Rightarrow> string \<Rightarrow> (nat option, 'k) syscall"
  res_query :: "string \<Rightarrow> nat \<Rightarrow> (string, 'k) syscall"
  res_search :: "string \<Rightarrow> nat \<Rightarrow> (string, 'k) syscall"
  dn_skipname :: "bytes \<Rightarrow> nat \<Rightarrow> nat \<Rightarrow> nat option"
  dn_expand :: "bytes \<Rightarrow> nat \<Rightarrow> nat \<Rightarrow> nat \<Rightarrow> (string \<times> nat) option"

section \<open>The local host\<close>

text \<open>
  The cached name of the host, or the one that is read and cached now; \<open>None\<close> means that the process was aborted.
\<close>

definition hostname :: "'k net \<Rightarrow> string option \<Rightarrow> (string option, 'k, 'z) ync" where
  "hostname net cached = (case cached of Some n \<Rightarrow> nc_return (Some n)
     | None \<Rightarrow> nc_bind (syscall (gethostname net)) (\<lambda>r. nc_return (case r of Inl e \<Rightarrow> None | Inr n \<Rightarrow> Some n)))"

definition host_get_name :: "'k net \<Rightarrow> nat \<Rightarrow> (unit, 'k, 'z) ync" where
  "host_get_name net dest = nc_bind (sys_try (gethostname net)) (\<lambda>n. str_cpy dest (CLit n))"

definition AF_INET :: nat where "AF_INET = 2"

primrec ifaddrs_loop :: "(nat \<times> in_addr) option list \<Rightarrow> nat \<Rightarrow> nat \<Rightarrow> nat \<Rightarrow> (unit, 'z) lnc" where
  "ifaddrs_loop [] dest buf family = nc_return ()"
| "ifaddrs_loop (cur # rest) dest buf family =
     (case cur of None \<Rightarrow> ifaddrs_loop rest dest buf family
      | Some (fam, addr) \<Rightarrow>
          if fam \<noteq> family then ifaddrs_loop rest dest buf family
          else if family = AF_INET
          then nc_bind (str_from_inet buf addr) (\<lambda>_.
            nc_bind (list_push dest buf) (\<lambda>_. ifaddrs_loop rest dest buf family))
          else nc_throw)"

definition host_get_ifaddrs :: "'k net \<Rightarrow> nat \<Rightarrow> nat \<Rightarrow> (unit, 'k, 'z) ync" where
  "host_get_ifaddrs net dest family =
     nc_bind (str_new None) (\<lambda>buf.
     nc_bind (syscall (getifaddrs net)) (\<lambda>r. case r of
       Inl e \<Rightarrow> throw_destroy buf
     | Inr as \<Rightarrow> nc_bind (ifaddrs_loop as dest buf family) (\<lambda>_. str_destroy (Some buf))))"

section \<open>Addresses and services\<close>

primrec inet_loop :: "in_addr list \<Rightarrow> nat \<Rightarrow> nat \<Rightarrow> (unit, 'z) lnc" where
  "inet_loop [] dest buf = nc_return ()"
| "inet_loop (a # as) dest buf =
     nc_bind (str_from_inet buf a) (\<lambda>_. nc_bind (list_push dest buf) (\<lambda>_. inet_loop as dest buf))"

definition dns_get_inet_by_name :: "'k net \<Rightarrow> nat \<Rightarrow> nat \<Rightarrow> (unit, 'k, 'z) ync" where
  "dns_get_inet_by_name net dest host =
     nc_bind (str_new None) (\<lambda>buf.
     nc_bind (list_truncate dest) (\<lambda>_.
     nc_bind (cread (CVal host 0)) (\<lambda>h.
     nc_bind (sys_try (getaddrinfo net h)) (\<lambda>as.
     nc_bind (inet_loop as dest buf) (\<lambda>_. str_destroy (Some buf))))))"

text \<open>gethostbyname(3) as a system call that does not fail\<close>

definition ask_host :: "'k net \<Rightarrow> string \<Rightarrow> (host_answer, 'k, 'z) ync" where
  "ask_host net q w = (case gethostbyname net q (kern w) of (r, k) \<Rightarrow> Ok r (w\<lparr>kern := k\<rparr>))"

text \<open>\<open>init\<close> is the value of \<^verbatim>\<open>DNS_LIB_INIT\<close>; the result is its new value.\<close>

definition dns_library_init :: "'k net \<Rightarrow> bool \<Rightarrow> (bool, 'k, 'z) ync" where
  "dns_library_init net init =
     nc_bind (list_new None) (\<lambda>result.
     nc_bind (str_new None) (\<lambda>buf.
     nc_bind (nc_when (\<not> init)
       (nc_bind (host_get_name net buf) (\<lambda>_.
        nc_bind (ask_host net ''localhost'') (\<lambda>_.
        nc_bind (str_cpy buf (CLit ''netsol.com'')) (\<lambda>_.
        nc_catch (dns_get_inet_by_name net result buf) nc_return (\<lambda>_. nc_return ())))))) (\<lambda>_.
     nc_bind (list_destroy (Some result)) (\<lambda>_.
     nc_bind (str_destroy (Some buf)) (\<lambda>_. nc_return True)))))"

text \<open>The port is in network byte order, on a little-endian machine.\<close>

definition ntohs :: "nat \<Rightarrow> nat" where
  "ntohs n = (n mod 256) * 256 + (n div 256) mod 256"

definition dns_get_service_by_name :: "'k net \<Rightarrow> cptr \<Rightarrow> cptr \<Rightarrow> (nat, 'k, 'z) ync" where
  "dns_get_service_by_name net name proto =
     nc_bind (cread name) (\<lambda>n. nc_bind (cread proto) (\<lambda>p.
     nc_bind (sys_query (getservbyname net n p)) (\<lambda>r. case r of None \<Rightarrow> nc_throw | Some port \<Rightarrow> nc_return (ntohs port))))"

definition NAMESERVER_REGEX :: string where
  "NAMESERVER_REGEX = ''nameserver[[:space:]]+([A-Za-z0-9._-]+)[[:space:]]*$''"

definition dns_get_nameservers :: "'k os \<Rightarrow> 'k fs \<Rightarrow> 'r regex_lib \<Rightarrow> nat \<Rightarrow> (unit, 'k, 'z) fnc" where
  "dns_get_nameservers os fs rx dest =
     nc_bind (str_new None) (\<lambda>buf. nc_bind (str_new None) (\<lambda>path. nc_bind (str_new None) (\<lambda>ns.
     nc_bind (list_new None) (\<lambda>lines.
     nc_bind (list_truncate dest) (\<lambda>_.
     nc_bind (str_cpy path (CLit ''/etc/resolv.conf'')) (\<lambda>_.
     nc_bind (file_read os fs buf path) (\<lambda>_.
     nc_bind (str_split lines buf 10) (\<lambda>_.
     nc_bind (for_each lines (\<lambda>cur _.
       nc_bind (get_ent cur) (\<lambda>e.
       nc_bind (deref (e_value e)) (\<lambda>line.
       nc_bind (str_match_regex rx line ''^nameserver'') (\<lambda>match.
       nc_bind (nc_when match
         (nc_bind (str_str_regex rx line NAMESERVER_REGEX [ns]) (\<lambda>_. list_push dest ns))) (\<lambda>_.
       nc_return ((), True)))))) ()) (\<lambda>_.
     nc_bind (str_destroy (Some buf)) (\<lambda>_. nc_bind (str_destroy (Some path)) (\<lambda>_.
     nc_bind (str_destroy (Some ns)) (\<lambda>_. list_destroy (Some lines)))))))))))))"

section \<open>Response packets\<close>

text \<open>
  The buffer has \<^verbatim>\<open>PACKETSZ\<close> bytes. \<^verbatim>\<open>GETSHORT\<close> and \<^verbatim>\<open>GETLONG\<close> read two and four bytes, the most significant first.
\<close>

definition PACKETSZ :: nat where "PACKETSZ = 512"
definition HFIXEDSZ :: nat where "HFIXEDSZ = 12"
definition QFIXEDSZ :: nat where "QFIXEDSZ = 4"
definition T_MX :: nat where "T_MX = 15"
definition T_TXT :: nat where "T_TXT = 16"

definition packet :: "char option \<Rightarrow> string \<Rightarrow> bytes" where
  "packet fill xs = map Some (take PACKETSZ xs) @ replicate (PACKETSZ - length xs) fill"

definition get_byte :: "bytes \<Rightarrow> nat \<Rightarrow> (nat, 'z) nc" where
  "get_byte b i = (if length b \<le> i then nc_fault OutOfBounds
     else case b ! i of None \<Rightarrow> nc_fault Uninit | Some c \<Rightarrow> nc_return (of_char c))"

definition get_short :: "bytes \<Rightarrow> nat \<Rightarrow> (nat, 'z) nc" where
  "get_short b i = nc_bind (get_byte b i) (\<lambda>x. nc_bind (get_byte b (i + 1)) (\<lambda>y. nc_return (256 * x + y)))"

text \<open>The function logs a message that depends on \<^verbatim>\<open>h_errno\<close> and always throws.\<close>

definition dns_log_error :: "('a, 'z) nc" where
  "dns_log_error = nc_throw"

text \<open>Skipping \<open>i\<close> questions\<close>

primrec skip_questions :: "'k net \<Rightarrow> nat \<Rightarrow> bytes \<Rightarrow> nat \<Rightarrow> nat \<Rightarrow> (nat, 'z) nc" where
  "skip_questions net 0 b eom cp = nc_return cp"
| "skip_questions net (Suc i) b eom cp =
     (case dn_skipname net b eom cp of None \<Rightarrow> nc_throw
      | Some len \<Rightarrow> skip_questions net i b eom (cp + len + QFIXEDSZ))"

text \<open>Reading \<open>i\<close> answers: the name, the type, class and time to live, the length and the preference, and the exchange\<close>

primrec mx_answers :: "'k net \<Rightarrow> nat \<Rightarrow> bytes \<Rightarrow> nat \<Rightarrow> nat \<Rightarrow> string \<Rightarrow> nat \<Rightarrow> nat \<Rightarrow> (unit, 'z) lnc" where
  "mx_answers net 0 b eom cp domain dest str_p = nc_return ()"
| "mx_answers net (Suc i) b eom cp domain dest str_p =
     (case dn_expand net b eom cp 1025 of None \<Rightarrow> nc_throw
      | Some (name, len) \<Rightarrow>
          if name \<noteq> domain then nc_throw
          else nc_bind (get_short b (cp + len)) (\<lambda>rec_type.
            if rec_type \<noteq> T_MX then nc_throw
            else nc_bind (get_short b (cp + len + 8)) (\<lambda>rec_len.
              nc_bind (get_short b (cp + len + 10)) (\<lambda>rec_pref.
              case dn_expand net b eom (cp + len + 12) 1025 of None \<Rightarrow> nc_throw
              | Some (exchange, len') \<Rightarrow>
                  nc_bind (str_alias str_p (CLit exchange)) (\<lambda>_.
                  nc_bind (list_push dest str_p) (\<lambda>_.
                  mx_answers net i b eom (cp + len + 12 + len') domain dest str_p))))))"

definition dns_get_mx_list :: "'k net \<Rightarrow> nat \<Rightarrow> nat \<Rightarrow> (unit, 'k, 'z) ync" where
  "dns_get_mx_list net dest domain = with_local_str EMPTY_STRING (\<lambda>str_p.
     nc_bind (get_str domain) (\<lambda>t.
     nc_bind (nc_require (0 < s_len t)) (\<lambda>_.
     nc_bind (list_truncate dest) (\<lambda>_.
     nc_bind (cread (CVal domain 0)) (\<lambda>d.
     nc_bind (syscall (res_query net d T_MX)) (\<lambda>r. case r of
       Inl e \<Rightarrow> dns_log_error
     | Inr xs \<Rightarrow>
         if PACKETSZ < length xs then nc_throw
         else let b = packet None xs in
           nc_bind (get_short b 4) (\<lambda>qdcount.
           nc_bind (skip_questions net qdcount b (length xs) HFIXEDSZ) (\<lambda>cp.
           nc_bind (get_short b 6) (\<lambda>ancount.
           mx_answers net ancount b (length xs) cp d dest str_p)))))))))"

text \<open>The text of the answer is copied from the buffer without a test of its end.\<close>

definition txt_copy :: "bytes \<Rightarrow> nat \<Rightarrow> nat \<Rightarrow> nat \<Rightarrow> (unit, 'z) nc" where
  "txt_copy b cp n s =
     (if length b < cp + n then nc_fault OutOfBounds
      else if None \<in> set (take n (drop cp b)) then nc_fault Uninit
      else str_ncpy s (CLit (map the (take n (drop cp b)))) n)"

definition dns_get_txt_record :: "'k net \<Rightarrow> nat \<Rightarrow> nat \<Rightarrow> (unit, 'k, 'z) ync" where
  "dns_get_txt_record net dest host =
     nc_bind (str_new None) (\<lambda>s.
     nc_bind (list_truncate dest) (\<lambda>_.
     nc_bind (cread (CVal host 0)) (\<lambda>h.
     nc_bind (syscall (res_search net h T_TXT)) (\<lambda>r. case r of
       Inl e \<Rightarrow> nc_catch dns_log_error nc_return (\<lambda>_. throw_destroy s)
     | Inr xs \<Rightarrow>
         let b = packet (Some NUL) xs; eom = length xs in
         case dn_expand net b eom HFIXEDSZ 128 of None \<Rightarrow> nc_throw
         | Some (q, qlen) \<Rightarrow> let cp = HFIXEDSZ + qlen in
             nc_bind (get_short b cp) (\<lambda>ans_type.
             if ans_type \<noteq> T_TXT then nc_throw
             else case dn_expand net b eom (cp + 4) 128 of None \<Rightarrow> nc_throw
             | Some (a, alen) \<Rightarrow> let cp = cp + 4 + alen in
                 nc_bind (get_short b cp) (\<lambda>ans_type.
                 if ans_type \<noteq> T_TXT then nc_throw
                 else nc_bind (get_short b (cp + 4)) (\<lambda>ttl_high. nc_bind (get_short b (cp + 6)) (\<lambda>ttl_low.
                   nc_bind (get_short b (cp + 8)) (\<lambda>ans_size.
                   nc_bind (get_byte b (cp + 10)) (\<lambda>txt_size.
                   if ans_size \<le> txt_size \<or> txt_size = 0 then nc_throw
                   else nc_bind (txt_copy b (cp + 11) txt_size s) (\<lambda>_.
                     nc_bind (list_push dest s) (\<lambda>_. str_destroy (Some s)))))))))))))"

section \<open>Block lists\<close>

definition dns_ping_blocklist :: "'k net \<Rightarrow> nat \<Rightarrow> (unit, 'k, 'z) ync" where
  "dns_ping_blocklist net dnsbl =
     nc_bind (str_new None) (\<lambda>query.
     nc_bind (list_new None) (\<lambda>valid.
     nc_bind (for_each dnsbl (\<lambda>cur _.
       nc_bind (get_ent cur) (\<lambda>e.
       nc_bind (deref (e_value e)) (\<lambda>suffix.
       nc_bind (str_sprintf query ''2.0.0.127.%s'' [PStr (CVal suffix 0)]) (\<lambda>_.
       nc_bind (cread (CVal query 0)) (\<lambda>q.
       nc_bind (ask_host net q) (\<lambda>answer.
       nc_bind (nc_when (answer \<noteq> HostNotFound) (list_push valid suffix)) (\<lambda>_.
       nc_return ((), True)))))))) ()) (\<lambda>_.
     nc_bind (list_truncate dnsbl) (\<lambda>_.
     nc_bind (list_copy dnsbl valid) (\<lambda>_.
     nc_bind (str_destroy (Some query)) (\<lambda>_. list_destroy (Some valid)))))))"

text \<open>The loop over the domains, for the address \<open>rev_addr\<close>\<close>

definition blocklist_loop :: "'k net \<Rightarrow> nat \<Rightarrow> nat \<Rightarrow> nat \<Rightarrow> (bool, 'k, 'z) ync" where
  "blocklist_loop net dnsbl rev_addr query =
     for_each dnsbl (\<lambda>cur _.
       nc_bind (get_ent cur) (\<lambda>e.
       nc_bind (deref (e_value e)) (\<lambda>domain.
       nc_bind (str_sprintf query ''%s.%s'' [PStr (CVal rev_addr 0), PStr (CVal domain 0)]) (\<lambda>_.
       nc_bind (cread (CVal query 0)) (\<lambda>q.
       nc_bind (ask_host net q) (\<lambda>answer.
       nc_return (answer = HostFound, answer \<noteq> HostFound))))))) False"

text \<open>\<open>remote\<close> is the address of the peer of the socket.\<close>

definition query_blocklist :: "'k net \<Rightarrow> nat \<Rightarrow> in_addr \<Rightarrow> (bool, 'k, 'z) ync" where
  "query_blocklist net dnsbl remote =
     nc_bind (str_new None) (\<lambda>addr. nc_bind (str_new None) (\<lambda>rev_addr. nc_bind (str_new None) (\<lambda>query.
     nc_bind (list_new None) (\<lambda>quad.
     nc_bind (str_from_inet addr remote) (\<lambda>_.
     nc_bind (str_split quad addr 46) (\<lambda>_.
     nc_bind (list_reverse quad) (\<lambda>_.
     nc_bind (str_join rev_addr quad 46) (\<lambda>_.
     nc_bind (blocklist_loop net dnsbl rev_addr query) (\<lambda>result.
     nc_bind (str_destroy (Some addr)) (\<lambda>_. nc_bind (str_destroy (Some rev_addr)) (\<lambda>_.
     nc_bind (str_destroy (Some query)) (\<lambda>_. nc_bind (list_destroy (Some quad)) (\<lambda>_.
     nc_return result)))))))))))))"

end
