(* ===== verification/NC_Connect.thy ===== *)
theory NC_Connect
  imports NC_Net NC_Session
begin

text \<open>
  Outgoing connections (src/socket.c, src/session.c): the operations of sockets and sessions that need the
  resolver, and the block lists for the peer of a socket (src/dns.c).
\<close>

section \<open>Connecting a socket\<close>

text \<open>The destructors of the automatic variables of \<^verbatim>\<open>socket_connect_inet\<close>\<close>

definition connect_exit :: "nat \<Rightarrow> nat \<Rightarrow> (unit, 'z) lnc" where
  "connect_exit inet buf = nc_bind (list_destroy (Some inet)) (\<lambda>_. str_destroy (Some buf))"

text \<open>
  The loop over the addresses; the state of the loop tells whether a connection was made. \<open>n\<close> bounds the calls of
  select(2) that are interrupted by signals.
\<close>

definition connect_loop :: "'k os \<Rightarrow> nat \<Rightarrow> nat \<Rightarrow> nat \<Rightarrow> int \<Rightarrow> (bool, 'k, 'z) snc" where
  "connect_loop os n s inet port =
     for_each inet (\<lambda>cur _.
       nc_bind (get_ent cur) (\<lambda>e.
       nc_bind (deref (e_value e)) (\<lambda>v.
       nc_bind (str_to_inet (inet_addr os) v) (\<lambda>a.
       nc_bind (get_sock s) (\<lambda>t.
       let sa = zero_addr\<lparr>sa_family := nat PF_INET, sin_port := htons (nat (port mod 65536)), sin_addr := a\<rparr> in
       nc_bind (syscall (sys_connect os (so_fd t) sa)) (\<lambda>r.
       if (case r of Inl err \<Rightarrow> err \<noteq> EINPROGRESS | Inr _ \<Rightarrow> False) then nc_return (False, True)
       else nc_bind (upd_sock s (\<lambda>t. t\<lparr>so_connected := True\<rparr>)) (\<lambda>_.
         nc_bind (socket_select os n s SOCK_WRITE 30) (\<lambda>_.
         nc_bind (upd_sock s (\<lambda>t. t\<lparr>so_local := (so_local t)\<lparr>sa_family := sa_family sa, sin_port := sin_port sa,
           sin_addr := sin_addr sa\<rparr>\<rparr>)) (\<lambda>_.
         nc_return (True, False)))))))))) False"

definition socket_connect_inet :: "'k os \<Rightarrow> 'k net \<Rightarrow> nat \<Rightarrow> nat \<Rightarrow> nat \<Rightarrow> int \<Rightarrow> (unit, 'k, 'z) snc" where
  "socket_connect_inet os net n s host port =
     nc_bind (list_new None) (\<lambda>inet.
     nc_bind (str_new None) (\<lambda>buf.
     nc_bind (dns_get_inet_by_name net inet host) (\<lambda>_.
     nc_bind (get_sock s) (\<lambda>t.
     nc_bind (syscall (sys_socket os (so_family t))) (\<lambda>r. case r of
       Inl e \<Rightarrow> nc_bind (upd_sock s (\<lambda>t. t\<lparr>so_fd := -1\<rparr>)) (\<lambda>_. nc_bind (connect_exit inet buf) (\<lambda>_. nc_throw))
     | Inr fd \<Rightarrow>
         nc_bind (upd_sock s (\<lambda>t. t\<lparr>so_fd := fd\<rparr>)) (\<lambda>_.
         nc_bind (syscall (sys_nonblock os fd True)) (\<lambda>r. case r of
           Inl e \<Rightarrow> nc_bind (connect_exit inet buf) (\<lambda>_. nc_throw)
         | Inr _ \<Rightarrow>
             nc_bind (connect_loop os n s inet port) (\<lambda>found.
             if found then connect_exit inet buf else nc_throw))))))))"

definition socket_connect :: "'k os \<Rightarrow> 'k net \<Rightarrow> nat \<Rightarrow> nat \<Rightarrow> nat \<Rightarrow> nat \<Rightarrow> (unit, 'k, 'z) snc" where
  "socket_connect os net n s host port =
     nc_bind (upd_sock s (\<lambda>t. t\<lparr>so_direction := CONNECT\<rparr>)) (\<lambda>_.
     nc_bind (get_sock s) (\<lambda>t.
     if so_family t = PF_INET
     then nc_bind (upd_sock s (\<lambda>t. t\<lparr>so_local := (so_local t)\<lparr>sin_port := htons port\<rparr>\<rparr>)) (\<lambda>_.
       nc_catch (socket_connect_inet os net n s host (int port)) nc_return (\<lambda>_. nc_throw))
     else if so_family t = PF_LOCAL
     then nc_bind (cread (CVal host 0)) (\<lambda>p.
       nc_bind (upd_sock s (\<lambda>t. t\<lparr>so_local := (so_local t)\<lparr>sun_path := take 107 p\<rparr>\<rparr>)) (\<lambda>_.
       nc_catch (socket_local_operation os s) nc_return (\<lambda>_. nc_throw)))
     else nc_throw))"

definition socket_read :: "'k os \<Rightarrow> nat \<Rightarrow> nat \<Rightarrow> nat \<Rightarrow> (unit, 'k, 'z) snc" where
  "socket_read os dest len sock = nc_bind (get_sock sock) (\<lambda>s. str_read_fd os dest (so_fd s) len)"

section \<open>Outgoing sessions\<close>

definition session_connect :: "'k os \<Rightarrow> 'k net \<Rightarrow> nat \<Rightarrow> nat \<Rightarrow> int \<Rightarrow> nat \<Rightarrow> nat \<Rightarrow> (unit, 'k, 'c, 'z) enc" where
  "session_connect os net n session family host port =
     nc_bind (upd_sess session (\<lambda>t. t\<lparr>ss_controller_handle := 0\<rparr>)) (\<lambda>_.
     nc_bind (get_sess session) (\<lambda>t.
     nc_bind (case ss_sock t of Some k \<Rightarrow> nc_return ()
       | None \<Rightarrow> nc_bind (socket_new None) (\<lambda>k.
           nc_bind (upd_sess session (\<lambda>t. t\<lparr>ss_sock := Some k\<rparr>)) (\<lambda>_. socket_set_family k family))) (\<lambda>_.
     nc_bind (get_sess session) (\<lambda>t.
     nc_bind (deref (ss_sock t)) (\<lambda>k. socket_connect os net n k host port)))))"

section \<open>Block lists\<close>

text \<open>The address of the peer is read at the start of the function; nothing before that use changes it.\<close>

definition dns_query_blocklist :: "'k net \<Rightarrow> nat \<Rightarrow> nat \<Rightarrow> (bool, 'k, 'z) snc" where
  "dns_query_blocklist net dnsbl sock =
     nc_bind (get_sock sock) (\<lambda>so. query_blocklist net dnsbl (sin_addr (so_remote so)))"

end
