(* ===== verification/NC_Net_Laws.thy ===== *)
theory NC_Net_Laws
  imports NC_Connect NC_Contract NC_Socket_Laws NC_List_Build
begin

text \<open>
  What the resolver component computes: the addresses of a name, and whether an address is on a block list.
\<close>

section \<open>Text of addresses\<close>

lemma dec_nat_plain: "{NUL, LF, CR, CHR ''.''} \<inter> set (dec_nat n) = {}"
proof -
  have "\<not> isdigit NUL" "\<not> isdigit LF" "\<not> isdigit CR" "\<not> isdigit (CHR ''.'')" by code_simp+
  then show ?thesis using dec_nat_digits [of n] by (auto simp: list_all_iff)
qed

lemma dec_nat_short: "n < 256 \<Longrightarrow> length (dec_nat n) \<le> 3"
proof -
  assume "n < 256"
  then have "n div 10 < 100" "n div 10 div 10 < 10" by auto
  then show ?thesis by (subst dec_nat.simps, subst dec_nat.simps, subst dec_nat.simps) simp
qed

definition octets :: "in_addr \<Rightarrow> bool" where
  "octets a \<longleftrightarrow> (case a of (p, q, r, s) \<Rightarrow> p < 256 \<and> q < 256 \<and> r < 256 \<and> s < 256)"

fun reversed :: "in_addr \<Rightarrow> in_addr" where
  "reversed (a, b, c, d) = (d, c, b, a)"

lemma octets_reversed [simp]: "octets (reversed a) = octets a"
  by (cases a) (auto simp: octets_def)

lemma dotted_join: "dotted (a, b, c, d) = join (CHR ''.'') [dec_nat a, dec_nat b, dec_nat c, dec_nat d]"
  by simp

lemma dotted_text:
  assumes "octets a"
  shows "NUL \<notin> set (dotted a)" "LF \<notin> set (dotted a)" "CR \<notin> set (dotted a)" "dotted a \<noteq> []" "length (dotted a) \<le> 15"
proof -
  obtain p q r s where a: "a = (p, q, r, s)" by (cases a)
  have "p < 256" "q < 256" "r < 256" "s < 256" using assms by (simp_all add: octets_def a)
  then have "length (dec_nat p) \<le> 3" "length (dec_nat q) \<le> 3" "length (dec_nat r) \<le> 3" "length (dec_nat s) \<le> 3"
    by (simp_all add: dec_nat_short)
  then show "length (dotted a) \<le> 15" by (simp add: a)
  show "NUL \<notin> set (dotted a)" "LF \<notin> set (dotted a)" "CR \<notin> set (dotted a)" "dotted a \<noteq> []"
    using dec_nat_plain [of p] dec_nat_plain [of q] dec_nat_plain [of r] dec_nat_plain [of s] by (simp_all add: a)
qed

lemma dotted_max: "octets a \<Longrightarrow> length (dotted a) < STRING_MAX"
  using dotted_text(5) [of a] STRING_MAX_pos by linarith

text \<open>Reversing the parts of an address\<close>

lemma dotted_split: "split_on (CHR ''.'') (dotted (a, b, c, d)) = [dec_nat a, dec_nat b, dec_nat c, dec_nat d]"
  unfolding dotted_join using dec_nat_plain by (intro split_join) auto

lemma dotted_chomp: "octets a \<Longrightarrow> chomp (dotted a) = dotted a"
  using dotted_text [of a] by (auto simp: chomp_def chomp1_def dest: last_in_set)

lemma str_from_inet_ok:
  assumes "str_has w d ys" "octets a" "mem_ok w"
  shows "\<exists>w'. str_from_inet d a w = Ok () w' \<and> str_upd w d (dotted a) w'"
proof -
  have "cread (CLit (dotted a)) w = Ok (dotted a) w"
    using dotted_text(1) [OF assms(2)] by (simp add: cread_def nc_simps cstr_terminated)
  from str_cpy_ok [OF assms(1) this _ dotted_max [OF assms(2)] assms(3)]
  show ?thesis by (auto simp: str_from_inet_def nc_simps)
qed

section \<open>Lists of addresses\<close>

lemma mod_mem_kern [simp]:
  fixes w :: "('k, 'z) sys_heap_scheme"
  shows "mod_mem S E L (w\<lparr>kern := k\<rparr>) w' = mod_mem S E L w w'" "mod_mem S E L w (w'\<lparr>kern := k\<rparr>) = mod_mem S E L w w'"
  by (simp_all add: mod_mem_def)

text \<open>Putting a list of addresses at the end of a list\<close>

lemma inet_loop_ok:
  assumes "list_at w l cs xss" "str_has w buf ys" "buf \<notin> snd ` set cs" "\<forall>a\<in>set as. octets a" "list_room (length xss + length as)"
    "mem_ok w" "wf_lh w"
  shows "\<exists>w' ds zs. inet_loop as l buf w = Ok () w' \<and> list_at w' l (cs @ ds) (xss @ map dotted as) \<and>
    mod_lh (insert buf {brk w..}) (fst ` set cs \<union> {brk w..}) {l} w w' \<and> str_has w' buf zs \<and> wf_lh w' \<and> set ds \<subseteq> {brk w..} \<times> {brk w..}"
  using assms
proof (induction as arbitrary: w cs xss ys)
  case Nil
  then show ?case by (intro exI [of _ w] exI [of _ "[]"] exI [of _ ys]) (simp add: nc_simps)
next
  case (Cons a as)
  obtain w1 where w1: "str_from_inet buf a w = Ok () w1" "str_upd w buf (dotted a) w1"
    using str_from_inet_ok [OF Cons.prems(2) _ Cons.prems(6), of a] Cons.prems(4) by auto
  note u1 = str_upd_lh [OF w1(2) Cons.prems(2,7)]
  have l1: "list_at w1 l cs xss" by (rule list_at_frame [OF Cons.prems(1) u1(1)]) (use Cons.prems(3) in auto)
  have len: "length cs + 1 < 2 ^ 64"
    using Cons.prems(1,5) vals_length [of w cs xss] by (simp add: list_at_def list_room_def)
  have m1: "mem_ok w1" using u1(4) Cons.prems(6) by simp
  obtain w2 b s where w2: "list_push l buf w1 = Ok () w2" "list_at w2 l (cs @ [(b, s)]) (xss @ [dotted a])"
      "mod_lh {s} (insert b (fst ` set cs)) {l} w1 w2" "brk w1 \<le> b" "brk w1 \<le> s" "b < brk w2" "s < brk w2"
    using list_push_ok [OF l1 str_has_src [OF u1(3)] len m1 u1(2)] by blast
  have wf2: "wf_lh w2" by (rule list_push_wf [OF w2(3) _ u1(2) w2(6,7)]) (use l1 in \<open>simp add: list_at_def\<close>)
  have b1: "buf < brk w1" by (rule str_has_lt [OF _ u1(3)]) (use u1(2) in simp)
  have h2: "str_has w2 buf (dotted a)" using mod_lh_has [OF w2(3), of buf "dotted a"] u1(3) b1 w2(5) by simp
  have br: "brk w \<le> brk w1" "brk w1 \<le> brk w2" using mod_lh_brk [OF u1(1)] mod_lh_brk [OF w2(3)] .
  have p: "buf \<notin> snd ` set (cs @ [(b, s)])" "\<forall>a\<in>set as. octets a" "list_room (length (xss @ [dotted a]) + length as)" "mem_ok w2"
    using Cons.prems(3,4,5) b1 w2(5) mod_lh_mem_ok [OF w2(3)] m1 by simp_all
  obtain w3 ds zs where w3: "inet_loop as l buf w2 = Ok () w3" "list_at w3 l ((cs @ [(b, s)]) @ ds) ((xss @ [dotted a]) @ map dotted as)"
      "mod_lh (insert buf {brk w2..}) (fst ` set (cs @ [(b, s)]) \<union> {brk w2..}) {l} w2 w3" "str_has w3 buf zs" "wf_lh w3"
      "set ds \<subseteq> {brk w2..} \<times> {brk w2..}"
    using Cons.IH [OF w2(2) h2 p(1-4) wf2] by blast
  have "mod_lh ({buf} \<union> ({s} \<union> insert buf {brk w2..})) ({} \<union> (insert b (fst ` set cs) \<union> (fst ` set (cs @ [(b, s)]) \<union> {brk w2..})))
      ({} \<union> ({l} \<union> {l})) w w3"
    by (rule mod_lh_trans [OF u1(1) mod_lh_trans [OF w2(3) w3(3)]])
  then have "mod_lh (insert buf {brk w..}) (fst ` set cs \<union> {brk w..}) {l} w w3"
    by (rule mod_lh_mono) (use br w2(4,5) in auto)
  moreover have "set ((b, s) # ds) \<subseteq> {brk w..} \<times> {brk w..}" using w3(6) br w2(4,5) by auto
  ultimately show ?case
    using w1(1) w2(1) w3(1,2,4,5) by (intro exI [of _ w3] exI [of _ "(b, s) # ds"] exI [of _ zs]) (simp add: nc_bind_def)
qed

lemma dns_get_inet_by_name_ok:
  fixes w :: "('k, 'z) sys_heap_scheme"
  assumes "list_at w l cs xss" "str_has w host h" "host \<notin> snd ` set cs" "NUL \<notin> set h" "getaddrinfo net h (kern w) = (Inr as, k)"
    "\<forall>a\<in>set as. octets a" "list_room (length as)" "mem_ok w" "wf_lh w"
  shows "\<exists>w' ds. dns_get_inet_by_name net l host w = Ok () w' \<and> list_at w' l ds (map dotted as) \<and> kern w' = k \<and> wf_lh w' \<and>
    mod_mem (snd ` set cs \<union> {brk w..}) (fst ` set cs \<union> {brk w..}) {l} w w' \<and> set ds \<subseteq> {brk w..} \<times> {brk w..}"
proof -
  let ?b = "brk w"
  obtain w1 where w1: "str_new None w = Ok ?b w1" "mod_lh {?b} {} {} w w1" "str_has w1 ?b []" "?b < brk w1" "wf_lh w1" "mem_ok w1"
    using str_new_lh [OF assms(8,9)] .
  have c: "list_cells w l cs" "vals w cs xss" using assms(1) by (auto simp: list_at_def)
  have lt: "l < ?b" "fst ` set cs \<subseteq> {..<?b}" "snd ` set cs \<subseteq> {..<?b}" "host < ?b"
    using list_cells_lt [OF c(1) assms(9)] vals_lt [OF c(2)] str_has_lt [OF _ assms(2)] assms(9) by auto
  have l1: "list_at w1 l cs xss" by (rule list_at_frame [OF assms(1) w1(2)]) (use lt in auto)
  let ?w2 = "cleared l cs w1"
  have t: "list_truncate l w1 = Ok () ?w2" by (rule list_truncate_ok [OF l1 w1(5)])
  have m2: "mod_lh (snd ` set cs) (fst ` set cs) {l} w1 ?w2" by (rule cleared_mod)
  have wf2: "wf_lh ?w2" by (rule cleared_wf [OF w1(5)]) (use lt(1) w1(4) in simp)
  have h2: "str_has ?w2 host h" "str_has ?w2 ?b []" "mem_ok ?w2"
    using mod_lh_has [OF w1(2), of host h] mod_lh_has [OF m2, of host h] mod_lh_has [OF m2, of ?b "[]"] assms(2,3) lt w1(3,6) by auto
  have k2: "kern ?w2 = kern w" using mod_lh_kern [OF w1(2)] mod_lh_kern [OF m2] by simp
  let ?w3 = "?w2\<lparr>kern := k\<rparr>"
  have i: "list_at ?w3 l [] []" "str_has ?w3 ?b []" "mem_ok ?w3" "wf_lh ?w3" using cleared_empty [of l cs w1] h2 wf2 by simp_all
  obtain w4 ds zs where w4: "inet_loop as l ?b ?w3 = Ok () w4" "list_at w4 l ([] @ ds) ([] @ map dotted as)"
      "mod_lh (insert ?b {brk ?w3..}) (fst ` set [] \<union> {brk ?w3..}) {l} ?w3 w4" "str_has w4 ?b zs" "wf_lh w4"
      "set ds \<subseteq> {brk ?w3..} \<times> {brk ?w3..}"
    using inet_loop_ok [OF i(1,2) _ assms(6) _ i(3,4)] assms(7) by auto
  let ?w5 = "w4\<lparr>strs := (strs w4)(?b := None)\<rparr>"
  have d: "str_destroy (Some ?b) w4 = Ok () ?w5" by (rule str_destroy_ok [OF w4(4)])
  have b3: "brk ?w3 = brk w1" by simp
  have "set ds \<subseteq> {brk w1..} \<times> {brk w1..}" using w4(6) unfolding b3 by simp
  then have ds: "set ds \<subseteq> {?b..} \<times> {?b..}" "?b \<notin> snd ` set ds" using w1(4) by auto
  have "list_at w4 l ds (map dotted as)" using w4(2) by simp
  then have l5: "list_at ?w5 l ds (map dotted as)" by (rule list_at_frame [OF _ free_lh]) (use ds(2) in auto)
  have m3: "mod_mem (insert ?b {brk w1..} \<union> {?b}) (fst ` set [] \<union> {brk w1..} \<union> {}) ({l} \<union> {}) ?w2 ?w5"
    using mod_lh_mem [OF mod_lh_trans [OF w4(3) free_lh [of ?b]]] unfolding b3 by simp
  have "mod_mem ({?b} \<union> (snd ` set cs \<union> (insert ?b {brk w1..} \<union> {?b}))) ({} \<union> (fst ` set cs \<union> (fst ` set [] \<union> {brk w1..} \<union> {})))
      ({} \<union> ({l} \<union> ({l} \<union> {}))) w ?w5"
    by (rule mod_mem_trans [OF mod_lh_mem [OF w1(2)] mod_mem_trans [OF mod_lh_mem [OF m2] m3]])
  then have m: "mod_mem (snd ` set cs \<union> {?b..}) (fst ` set cs \<union> {?b..}) {l} w ?w5" by (rule mod_mem_mono) (use w1(4) in auto)
  have r: "cread (CVal host 0) ?w2 = Ok h ?w2" by (rule cread_str_has [OF h2(1) assms(4)])
  have "kern ?w5 = k" using mod_lh_kern [OF w4(3)] by simp
  moreover have "dns_get_inet_by_name net l host w = Ok () ?w5"
    using w1(1) t r assms(5) k2 w4(1) d by (simp add: dns_get_inet_by_name_def nc_bind_def sys_try_def syscall_def nc_return_def)
  ultimately show ?thesis using l5 free_wf [OF w4(5)] m ds(1) by blast
qed

section \<open>Block lists\<close>

text \<open>
  The reference: the domains are asked in order for the name made of \<open>r\<close> and the domain, until one has an answer.
\<close>

primrec listed :: "'k net \<Rightarrow> string \<Rightarrow> string list \<Rightarrow> 'k \<Rightarrow> bool \<times> 'k" where
  "listed net r [] k = (False, k)"
| "listed net r (d # ds) k = (case gethostbyname net (r @ ''.'' @ d) k of (answer, k') \<Rightarrow>
     if answer = HostFound then (True, k') else listed net r ds k')"

definition blocklist_body :: "'k net \<Rightarrow> nat \<Rightarrow> nat \<Rightarrow> nat \<Rightarrow> bool \<Rightarrow> (bool \<times> bool, 'k, 'z) ync" where
  "blocklist_body net rev_addr query cur acc =
     nc_bind (get_ent cur) (\<lambda>e.
     nc_bind (deref (e_value e)) (\<lambda>domain.
     nc_bind (str_sprintf query ''%s.%s'' [PStr (CVal rev_addr 0), PStr (CVal domain 0)]) (\<lambda>_.
     nc_bind (cread (CVal query 0)) (\<lambda>q.
     nc_bind (ask_host net q) (\<lambda>answer.
     nc_return (answer = HostFound, answer \<noteq> HostFound))))))"

lemma blocklist_loop_eq: "blocklist_loop net l rv qu = for_each l (blocklist_body net rv qu) False"
  unfolding blocklist_loop_def blocklist_body_def [abs_def] ..

text \<open>One round of the loop\<close>

lemma blocklist_body_ok:
  fixes w :: "('k, 'z) sys_heap_scheme"
  assumes "ents w a = Some e" "e_value e = Some s" "str_has w s x" "str_has w rv r" "str_has w qu ys" "qu \<noteq> s" "qu \<noteq> rv"
    "NUL \<notin> set x" "NUL \<notin> set r" "length r + length x + 1 < STRING_MAX" "mem_ok w" "wf_lh w"
    "gethostbyname net (r @ ''.'' @ x) (kern w) = (answer, k)"
  obtains w' where "blocklist_body net rv qu a acc w = Ok (answer = HostFound, answer \<noteq> HostFound) w'" "mod_mem {qu} {} {} w w'"
    "str_has w' qu (r @ ''.'' @ x)" "wf_lh w'" "kern w' = k"
proof -
  let ?q = "r @ ''.'' @ x"
  have fmt: "vformat ''%s.%s'' [PStr (CVal rv 0), PStr (CVal s 0)] v = Ok ?q v" if "mod_strs {qu} w v" for v
    using mod_strs_cread [OF that assms(4) _ assms(9)] mod_strs_cread [OF that assms(3) _ assms(8)] assms(6,7)
    by (simp add: nc_simps)
  obtain w1 where w1: "str_sprintf qu ''%s.%s'' [PStr (CVal rv 0), PStr (CVal s 0)] w = Ok () w1" "str_upd w qu ?q w1"
    using str_sprintf_ok [OF assms(5) fmt _ _ assms(11)] assms(8-10) by auto
  note u1 = str_upd_lh [OF w1(2) assms(5,12)]
  have "cread (CVal qu 0) w1 = Ok ?q w1" by (rule cread_str_has [OF u1(3)]) (use assms(8,9) in simp)
  then have "blocklist_body net rv qu a acc w = Ok (answer = HostFound, answer \<noteq> HostFound) (w1\<lparr>kern := k\<rparr>)"
    using assms(1,2,13) w1(1) mod_lh_kern [OF u1(1)]
    by (simp add: blocklist_body_def nc_bind_def get_ent_def deref_def ask_host_def nc_return_def)
  then show ?thesis by (rule that) (use mod_lh_mem [OF u1(1)] u1(2,3) in simp_all)
qed

lemma blocklist_foreach:
  fixes w :: "('k, 'z) sys_heap_scheme"
  assumes "dseg (ents w) q cs None" "vals w cs xss" "length cs < n" "str_has w rv r" "str_has w qu ys" "qu \<notin> snd ` set cs" "qu \<noteq> rv"
    "\<forall>x\<in>set xss. NUL \<notin> set x \<and> length r + length x + 1 < STRING_MAX" "NUL \<notin> set r" "mem_ok w" "wf_lh w"
  shows "\<exists>w' zs. foreach_ent n (hd_addr cs None) (blocklist_body net rv qu) False w = Ok (fst (listed net r xss (kern w))) w' \<and>
    kern w' = snd (listed net r xss (kern w)) \<and> mod_mem {qu} {} {} w w' \<and> str_has w' qu zs \<and> wf_lh w'"
  using assms
proof (induction n arbitrary: w cs xss q ys)
  case (Suc n)
  show ?case
  proof (cases cs)
    case Nil
    then show ?thesis using Suc.prems by (intro exI [of _ w] exI [of _ ys]) (auto simp: foreach_ent_None mod_mem_def)
  next
    case (Cons c ds)
    obtain a s where c: "c = (a, s)" by (cases c)
    obtain x yss where xss: "xss = x # yss" "str_has w s x" "vals w ds yss" using Suc.prems(2) Cons c by (auto simp: vals_Cons)
    have e: "ents w a = Some \<lparr>e_value = Some s, e_next = hd_addr ds None, e_prev = q\<rparr>" using Suc.prems(1) Cons c by simp
    obtain answer k where k: "gethostbyname net (r @ ''.'' @ x) (kern w) = (answer, k)" by fastforce
    have x: "NUL \<notin> set x" "length r + length x + 1 < STRING_MAX" "qu \<noteq> s" using Suc.prems(6,8) xss(1) Cons c by auto
    obtain w1 where w1: "blocklist_body net rv qu a False w = Ok (answer = HostFound, answer \<noteq> HostFound) w1" "mod_mem {qu} {} {} w w1"
        "str_has w1 qu (r @ ''.'' @ x)" "wf_lh w1" "kern w1 = k"
      using blocklist_body_ok [OF e _ xss(2) Suc.prems(4,5) x(3) Suc.prems(7) x(1) Suc.prems(9) x(2) Suc.prems(10,11) k, of False] by auto
    show ?thesis
    proof (cases "answer = HostFound")
      case True
      then show ?thesis using w1 k Cons c xss(1) foreach_ent_break [of "blocklist_body net rv qu" a False w True w1 n]
        by (intro exI [of _ w1] exI [of _ "r @ ''.'' @ x"]) simp
    next
      case False
      have f: "strs w1 y = strs w y" if "y \<noteq> qu" for y using w1(2) that by (auto simp: mod_mem_def)
      have e1: "ents w1 = ents w" using w1(2) by (auto simp: mod_mem_def)
      have i: "qu \<notin> snd ` set ds" "length ds < n" "\<forall>x\<in>set yss. NUL \<notin> set x \<and> length r + length x + 1 < STRING_MAX" "mem_ok w1"
        using Suc.prems(3,6,8,10) Cons xss(1) mod_mem_ok [OF w1(2)] by auto
      from i(1) have "\<forall>y\<in>snd ` set ds. strs w1 y = strs w y" by (intro ballI f) blast
      then have p: "vals w1 ds yss" using vals_frame [of ds w1 w yss] xss(3) by simp
      have r: "str_has w1 rv r" using mod_mem_has [OF w1(2), of rv r] Suc.prems(4,7) by simp
      have d: "dseg (ents w1) (Some a) ds None" using Suc.prems(1) Cons c e1 by simp
      obtain w2 zs where w2: "foreach_ent n (hd_addr ds None) (blocklist_body net rv qu) False w1 = Ok (fst (listed net r yss (kern w1))) w2"
          "kern w2 = snd (listed net r yss (kern w1))" "mod_mem {qu} {} {} w1 w2" "str_has w2 qu zs" "wf_lh w2"
        using Suc.IH [OF d p i(2) r w1(3) i(1) Suc.prems(7) i(3) Suc.prems(9) i(4) w1(4)] by blast
      have s: "foreach_ent (Suc n) (Some a) (blocklist_body net rv qu) False w = foreach_ent n (hd_addr ds None) (blocklist_body net rv qu) False w1"
        using foreach_ent_next [of "blocklist_body net rv qu" a False w False w1] w1(1) e e1 False by simp
      have "mod_mem {qu} {} {} w w2" using mod_mem_trans [OF w1(2) w2(3)] by simp
      then show ?thesis using s w2 Cons c xss(1) k False w1(5) by (intro exI [of _ w2] exI [of _ zs]) simp
    qed
  qed
qed simp

text \<open>Operations that only change newer objects keep a list.\<close>

lemma old_list:
  assumes "list_at w l cs xss" "wf_lh w" "mod_mem {brk w..} {brk w..} {brk w..} w w'"
  shows "list_at w' l cs xss"
proof -
  have c: "list_cells w l cs" "vals w cs xss" using assms(1) by (auto simp: list_at_def)
  have "l < brk w" "fst ` set cs \<subseteq> {..<brk w}" "snd ` set cs \<subseteq> {..<brk w}"
    using list_cells_lt [OF c(1) assms(2)] vals_lt [OF c(2)] assms(2) by auto
  then show ?thesis using below_disjoint by (intro mod_mem_list_at [OF assms(1,3)]) auto
qed

definition blocklist_run :: "'k net \<Rightarrow> nat \<Rightarrow> in_addr \<Rightarrow> nat \<Rightarrow> nat \<Rightarrow> nat \<Rightarrow> nat \<Rightarrow> (bool, 'k, 'z) ync" where
  "blocklist_run net dnsbl remote addr rev_addr query quad =
     nc_bind (str_from_inet addr remote) (\<lambda>_.
     nc_bind (str_split quad addr 46) (\<lambda>_.
     nc_bind (list_reverse quad) (\<lambda>_.
     nc_bind (str_join rev_addr quad 46) (\<lambda>_.
     nc_bind (blocklist_loop net dnsbl rev_addr query) (\<lambda>result.
     nc_bind (str_destroy (Some addr)) (\<lambda>_. nc_bind (str_destroy (Some rev_addr)) (\<lambda>_.
     nc_bind (str_destroy (Some query)) (\<lambda>_. nc_bind (list_destroy (Some quad)) (\<lambda>_.
     nc_return result)))))))))"

lemma query_blocklist_eq:
  "query_blocklist net dnsbl remote = nc_bind (str_new None) (\<lambda>addr. nc_bind (str_new None) (\<lambda>rev_addr. nc_bind (str_new None) (\<lambda>query.
     nc_bind (list_new None) (blocklist_run net dnsbl remote addr rev_addr query))))"
  unfolding query_blocklist_def blocklist_run_def [abs_def] ..

text \<open>The address is split, reversed and joined again.\<close>

lemma reverse_address:
  assumes "str_has w ad ys" "str_has w rv zs" "list_at w qd [] []" "octets remote" "mem_ok w" "wf_lh w" "ad \<noteq> rv"
  shows "\<exists>w' es. nc_bind (str_from_inet ad remote) (\<lambda>_. nc_bind (str_split qd ad 46) (\<lambda>_. nc_bind (list_reverse qd) (\<lambda>_.
      str_join rv qd 46))) w = Ok () w' \<and> mod_lh (insert ad (insert rv {brk w..})) {brk w..} {qd} w w' \<and> wf_lh w' \<and>
    str_has w' ad (dotted remote) \<and> str_has w' rv (dotted (reversed remote)) \<and> list_at w' qd es (rev (split_on (CHR ''.'') (dotted remote))) \<and>
    set es \<subseteq> {brk w..} \<times> {brk w..}"
proof -
  obtain a b c d where r: "remote = (a, b, c, d)" by (cases remote)
  let ?q = "[dec_nat a, dec_nat b, dec_nat c, dec_nat d]"
  have dot: "int_char 46 = CHR ''.''" by code_simp
  obtain w1 where w1: "str_from_inet ad remote w = Ok () w1" "str_upd w ad (dotted remote) w1"
    using str_from_inet_ok [OF assms(1,4,5)] by blast
  note u1 = str_upd_lh [OF w1(2) assms(1,6)]
  note t = dotted_text [OF assms(4)]
  have l1: "list_at w1 qd [] []" by (rule list_at_frame [OF assms(3) u1(1)]) simp_all
  have m1: "mem_ok w1" using u1(4) assms(5) by simp
  have q: "map (token_post 46) (split_on (int_char 46) (chomp (dotted remote))) = ?q"
    unfolding dot dotted_chomp [OF assms(4)] unfolding r dotted_split by (simp add: token_post_def)
  obtain w2 ds where w2: "str_split qd ad 46 w1 = Ok () w2" "list_at w2 qd ds ?q" "mod_lh {brk w1..} {brk w1..} {qd} w1 w2"
      "wf_lh w2" "set ds \<subseteq> {brk w1..} \<times> {brk w1..}"
    using str_split_ok [OF u1(3) t(1,4) dotted_max [OF assms(4)] _ l1 _ m1 u1(2), of 46] dot unfolding q by auto
  obtain w3 where w3: "list_reverse qd w2 = Ok () w3" "list_at w3 qd (rev ds) (rev ?q)" "mod_lh {} (fst ` set ds) {qd} w2 w3"
    using list_reverse_ok [OF w2(2,4)] by blast
  have br: "brk w \<le> brk w1" "brk w1 \<le> brk w2" "brk w2 \<le> brk w3"
    using mod_lh_brk [OF u1(1)] mod_lh_brk [OF w2(3)] mod_lh_brk [OF w3(3)] .
  have c2: "list_cells w2 qd ds" using w2(2) by (simp add: list_at_def)
  have wf3: "wf_lh w3" by (rule mod_lh_wf [OF w3(3) w2(4)]) (use list_cells_lt [OF c2 w2(4)] br(3) in fastforce)
  have lt: "ad < brk w1" "rv < brk w" "rv < brk w1"
    using str_has_lt [OF _ u1(3)] str_has_lt [OF _ assms(2)] u1(2) assms(6) br(1) by auto
  have m13: "mod_lh ({brk w1..} \<union> {}) ({brk w1..} \<union> fst ` set ds) ({qd} \<union> {qd}) w1 w3" by (rule mod_lh_trans [OF w2(3) w3(3)])
  have h3: "str_has w3 ad (dotted remote)" "str_has w3 rv zs" "mem_ok w3"
    using mod_lh_has [OF m13, of ad "dotted remote"] mod_lh_has [OF m13, of rv zs] mod_lh_has [OF u1(1), of rv zs] mod_lh_mem_ok [OF m13]
      u1(3) assms(2,7) lt m1 by auto
  have rvd: "rv \<notin> snd ` set (rev ds)" "ad \<notin> snd ` set (rev ds)" using w2(5) lt by auto
  have n: "\<forall>x\<in>set (rev ?q). NUL \<notin> set x" using dec_nat_plain by auto
  have j: "join (int_char 46) (rev ?q) = dotted (reversed remote)" unfolding dot r by simp
  have "length (dotted (reversed remote)) \<le> 15" using dotted_text(5) [of "reversed remote"] assms(4) by simp
  then have len: "length (dotted (reversed remote)) + 1 < STRING_MAX" using STRING_MAX_pos by linarith
  obtain w4 where w4: "str_join rv qd 46 w3 = Ok () w4" "str_upd w3 rv (dotted (reversed remote)) w4"
    using str_join_ok [OF w3(2) h3(2) rvd(1) n _ _ _ h3(3) wf3, of 46, unfolded j] len dot by (auto simp del: dotted.simps reversed.simps)
  note u4 = str_upd_lh [OF w4(2) h3(2) wf3]
  have l4: "list_at w4 qd (rev ds) (rev ?q)" by (rule list_at_frame [OF w3(2) u4(1)]) (use rvd(1) in auto)
  have "mod_lh ({ad} \<union> (({brk w1..} \<union> {}) \<union> {rv})) ({} \<union> (({brk w1..} \<union> fst ` set ds) \<union> {})) ({} \<union> (({qd} \<union> {qd}) \<union> {})) w w4"
    by (rule mod_lh_trans [OF u1(1) mod_lh_trans [OF m13 u4(1)]])
  then have "mod_lh (insert ad (insert rv {brk w..})) {brk w..} {qd} w w4" by (rule mod_lh_mono) (use br w2(5) in auto)
  moreover have "str_has w4 ad (dotted remote)" using mod_lh_has [OF u4(1), of ad "dotted remote"] h3(1) assms(7) by simp
  moreover have "set (rev ds) \<subseteq> {brk w..} \<times> {brk w..}" using w2(5) br(1) by auto
  moreover have "rev (split_on (CHR ''.'') (dotted remote)) = rev ?q" unfolding r dotted_split ..
  ultimately show ?thesis using w1(1) w2(1) w3(1) w4(1) u4(2,3) l4 by (intro exI [of _ w4] exI [of _ "rev ds"]) (simp add: nc_bind_def)
qed

lemma blocklist_loop_ok:
  fixes w :: "('k, 'z) sys_heap_scheme"
  assumes "list_at w l cs xss" "str_has w rv r" "str_has w qu ys" "qu \<notin> snd ` set cs" "qu \<noteq> rv"
    "\<forall>x\<in>set xss. NUL \<notin> set x \<and> length r + length x + 1 < STRING_MAX" "NUL \<notin> set r" "mem_ok w" "wf_lh w"
  shows "\<exists>w' zs. blocklist_loop net l rv qu w = Ok (fst (listed net r xss (kern w))) w' \<and>
    kern w' = snd (listed net r xss (kern w)) \<and> mod_mem {qu} {} {} w w' \<and> str_has w' qu zs \<and> wf_lh w'"
proof -
  have c: "list_cells w l cs" "vals w cs xss" using assms(1) by (auto simp: list_at_def)
  have "length cs < Suc (brk w)" using list_cells_lt(3) [OF c(1) assms(9)] by simp
  moreover have "dseg (ents w) None cs None" using c(1) by (simp add: list_cells_def)
  ultimately show ?thesis
    unfolding blocklist_loop_eq for_each_eval [OF c(1)] using blocklist_foreach [OF _ c(2) _ assms(2-9), of None "Suc (brk w)" net] by blast
qed

text \<open>The destructors at the end\<close>

lemma blocklist_exit:
  assumes "str_has w ad xs" "str_has w rv ys" "str_has w qu zs" "list_at w qd es wss" "distinct [ad, rv, qu]"
    "{ad, rv, qu} \<inter> snd ` set es = {}" "wf_lh w"
  shows "\<exists>w'. nc_bind (str_destroy (Some ad)) (\<lambda>_. nc_bind (str_destroy (Some rv)) (\<lambda>_. nc_bind (str_destroy (Some qu)) (\<lambda>_.
      list_destroy (Some qd)))) w = Ok () w' \<and> mod_lh ({ad, rv, qu} \<union> snd ` set es) (fst ` set es) {qd} w w' \<and> wf_lh w'"
proof -
  let ?w1 = "w\<lparr>strs := (strs w)(ad := None)\<rparr>"
  let ?w2 = "?w1\<lparr>strs := (strs ?w1)(rv := None)\<rparr>"
  let ?w3 = "?w2\<lparr>strs := (strs ?w2)(qu := None)\<rparr>"
  have h: "str_has ?w1 rv ys" "str_has ?w2 qu zs" using assms(2,3,5) by (simp_all add: str_has_def)
  have m3: "mod_lh {ad, rv, qu} {} {} w ?w3" by (simp add: mod_lh_def)
  have wf3: "wf_lh ?w3" using free_wf [OF free_wf [OF free_wf [OF assms(7), of ad], of rv], of qu] .
  have l3: "list_at ?w3 qd es wss" by (rule list_at_frame [OF assms(4) m3]) (use assms(6) in auto)
  let ?w4 = "?w3\<lparr>strs := strs ?w3 |` (- snd ` set es), ents := ents ?w3 |` (- fst ` set es), lists := (lists ?w3)(qd := None)\<rparr>"
  have d: "str_destroy (Some ad) w = Ok () ?w1" "str_destroy (Some rv) ?w1 = Ok () ?w2" "str_destroy (Some qu) ?w2 = Ok () ?w3"
      "list_destroy (Some qd) ?w3 = Ok () ?w4"
    using str_destroy_ok [OF assms(1)] str_destroy_ok [OF h(1)] str_destroy_ok [OF h(2)] list_destroy_ok [OF l3 wf3] by simp_all
  have "mod_lh ({ad, rv, qu} \<union> snd ` set es) (fst ` set es) {qd} w ?w4" by (auto simp: mod_lh_def restrict_map_def)
  moreover have "wf_lh ?w4" by (rule wf_lh_restrict [OF wf3]) (auto simp: restrict_map_def)
  ultimately show ?thesis using d by (intro exI [of _ ?w4]) (simp only: nc_bind_def outcome.case simp_thms)
qed

lemma query_blocklist_ok:
  fixes w :: "('k, 'z) sys_heap_scheme"
  assumes "list_at w l cs xss" "octets remote" "\<forall>x\<in>set xss. NUL \<notin> set x \<and> length x + 20 < STRING_MAX" "mem_ok w" "wf_lh w"
  shows "\<exists>w'. query_blocklist net l remote w = Ok (fst (listed net (dotted (reversed remote)) xss (kern w))) w' \<and>
    kern w' = snd (listed net (dotted (reversed remote)) xss (kern w)) \<and> mod_mem {brk w..} {brk w..} {brk w..} w w' \<and> wf_lh w'"
proof -
  let ?a = "brk w" and ?r = "dotted (reversed remote)"
  obtain w1 where w1: "str_new None w = Ok ?a w1" "mod_lh {?a} {} {} w w1" "str_has w1 ?a []" "?a < brk w1" "wf_lh w1" "mem_ok w1"
    using str_new_lh [OF assms(4,5)] .
  obtain rv qu qd w4 where w4: "nc_bind (str_new None) (\<lambda>a. nc_bind (str_new None) (\<lambda>b. nc_bind (list_new None) (blocklist_run net l remote ?a a b))) w1
        = blocklist_run net l remote ?a rv qu qd w4"
      "mod_lh {rv, qu} {} {qd} w1 w4" "str_has w4 rv []" "str_has w4 qu []" "list_at w4 qd [] []" "wf_lh w4" "mem_ok w4"
      "brk w1 \<le> rv" "rv < qu" "qu < qd" "qd < brk w4"
    using readline_enter [OF w1(6,5), of "blocklist_run net l remote ?a"] .
  have run: "query_blocklist net l remote w = blocklist_run net l remote ?a rv qu qd w4"
    using w1(1) w4(1) by (simp add: query_blocklist_eq nc_bind_def)
  have a4: "str_has w4 ?a []" "?a \<noteq> rv" "?a \<noteq> qu" using mod_lh_has [OF w4(2), of ?a "[]"] w1(3,4) w4(8,9) by auto
  obtain w5 es where w5: "nc_bind (str_from_inet ?a remote) (\<lambda>_. nc_bind (str_split qd ?a 46) (\<lambda>_. nc_bind (list_reverse qd) (\<lambda>_.
        str_join rv qd 46))) w4 = Ok () w5" "mod_lh (insert ?a (insert rv {brk w4..})) {brk w4..} {qd} w4 w5" "wf_lh w5"
      "str_has w5 ?a (dotted remote)" "str_has w5 rv ?r" "list_at w5 qd es (rev (split_on (CHR ''.'') (dotted remote)))"
      "set es \<subseteq> {brk w4..} \<times> {brk w4..}"
    using reverse_address [OF a4(1) w4(3,5) assms(2) w4(7,6) a4(2)] by blast
  have q5: "str_has w5 qu []" "mem_ok w5" using mod_lh_has [OF w5(2), of qu "[]"] mod_lh_mem_ok [OF w5(2)] w4 a4(3) by auto
  have b4: "brk w \<le> brk w4" using mod_lh_brk [OF w1(2)] mod_lh_brk [OF w4(2)] by simp
  have "mod_lh ({?a} \<union> ({rv, qu} \<union> insert ?a (insert rv {brk w4..}))) ({} \<union> ({} \<union> {brk w4..})) ({} \<union> ({qd} \<union> {qd})) w w5"
    by (rule mod_lh_trans [OF w1(2) mod_lh_trans [OF w4(2) w5(2)]])
  then have m5: "mod_lh {?a..} {?a..} {?a..} w w5" by (rule mod_lh_mono) (use b4 w4(8-11) w1(4) in auto)
  have l5: "list_at w5 l cs xss" by (rule old_list [OF assms(1,5) mod_lh_mem [OF m5]])
  have c: "vals w cs xss" using assms(1) by (simp add: list_at_def)
  have qc: "qu \<notin> snd ` set cs" using vals_lt [OF c, of qu] assms(5) w1(4) w4(8,9) by auto
  have "length ?r \<le> 15" using dotted_text(5) [of "reversed remote"] assms(2) by simp
  then have x: "\<forall>x\<in>set xss. NUL \<notin> set x \<and> length ?r + length x + 1 < STRING_MAX" using assms(3) by fastforce
  have nr: "NUL \<notin> set ?r" using dotted_text(1) [of "reversed remote"] assms(2) by simp
  have k5: "kern w5 = kern w" by (rule mod_lh_kern [OF m5])
  obtain w6 zs where w6: "blocklist_loop net l rv qu w5 = Ok (fst (listed net ?r xss (kern w))) w6"
      "kern w6 = snd (listed net ?r xss (kern w))" "mod_mem {qu} {} {} w5 w6" "str_has w6 qu zs" "wf_lh w6"
    using blocklist_loop_ok [OF l5 w5(5) q5(1) qc _ x nr q5(2) w5(3), of net] w4(9) unfolding k5 by blast
  have h6: "str_has w6 ?a (dotted remote)" "str_has w6 rv ?r"
    using mod_mem_has [OF w6(3), of ?a] mod_mem_has [OF w6(3), of rv] w5(4,5) a4(3) w4(9) by auto
  have e: "qu \<notin> snd ` set es" "{?a, rv, qu} \<inter> snd ` set es = {}" "distinct [?a, rv, qu]"
    using w5(7) w4(8-11) w1(4) a4 by auto
  have l6: "list_at w6 qd es (rev (split_on (CHR ''.'') (dotted remote)))" by (rule mod_mem_list_at [OF w5(6) w6(3)]) (use e(1) in auto)
  obtain w7 where w7: "nc_bind (str_destroy (Some ?a)) (\<lambda>_. nc_bind (str_destroy (Some rv)) (\<lambda>_. nc_bind (str_destroy (Some qu)) (\<lambda>_.
      list_destroy (Some qd)))) w6 = Ok () w7" "mod_lh ({?a, rv, qu} \<union> snd ` set es) (fst ` set es) {qd} w6 w7" "wf_lh w7"
    using blocklist_exit [OF h6 w6(4) l6 e(3,2) w6(5)] by blast
  have "mod_mem ({?a..} \<union> ({qu} \<union> ({?a, rv, qu} \<union> snd ` set es))) ({?a..} \<union> ({} \<union> fst ` set es)) ({?a..} \<union> ({} \<union> {qd})) w w7"
    by (rule mod_mem_trans [OF mod_lh_mem [OF m5] mod_mem_trans [OF w6(3) mod_lh_mem [OF w7(2)]]])
  then have "mod_mem {?a..} {?a..} {?a..} w w7" by (rule mod_mem_mono) (use b4 w5(7) w4(8-11) w1(4) in auto)
  moreover have "blocklist_run net l remote ?a rv qu qd w4 = Ok (fst (listed net ?r xss (kern w))) w7"
    using w5(1) w6(1) w7(1)
    by (auto simp: blocklist_run_def nc_bind_def nc_return_def split: outcome.splits)
  ultimately show ?thesis using run w6(2) w7(3) mod_lh_kern [OF w7(2)] by auto
qed

text \<open>On a system whose interfaces have IPv4 addresses, the loop over them is the same loop.\<close>

primrec inet_of :: "(nat \<times> in_addr) option list \<Rightarrow> in_addr list" where
  "inet_of [] = []"
| "inet_of (i # is) = (case i of None \<Rightarrow> inet_of is | Some (f, a) \<Rightarrow> if f = AF_INET then a # inet_of is else inet_of is)"

lemma ifaddrs_loop_eq: "ifaddrs_loop is l buf AF_INET = inet_loop (inet_of is) l buf"
  by (induction "is") (auto split: option.split)

text \<open>
  What is documented of the resolver: the name of the host has a bounded length, addresses have four bytes, and there are not more
  of them than a list can count.
\<close>

definition net_laws :: "'k net \<Rightarrow> bool" where
  "net_laws net \<longleftrightarrow> (\<forall>k n k'. gethostname net k = (Inr n, k') \<longrightarrow> length n < STRING_MAX) \<and>
     (\<forall>h k as k'. getaddrinfo net h k = (Inr as, k') \<longrightarrow> (\<forall>a\<in>set as. octets a) \<and> list_room (length as))"

lemma dns_get_inet_by_name_ends:
  fixes w :: "('k, 'z) sys_heap_scheme"
  assumes "net_laws net" "list_at w l [] []" "str_has w host h" "NUL \<notin> set h" "mem_ok w" "wf_lh w"
  shows "ends (dns_get_inet_by_name net l host w)
    (\<lambda>_ w'. \<exists>ds zss. list_at w' l ds zss \<and> wf_lh w' \<and> mod_mem {brk w..} {brk w..} {l} w w' \<and> set ds \<subseteq> {brk w..} \<times> {brk w..})
    (\<lambda>w'. list_at w' l [] [] \<and> wf_lh w' \<and> mod_mem {brk w..} {brk w..} {l} w w')"
proof (cases "getaddrinfo net h (kern w)")
  case (Pair r k)
  show ?thesis
  proof (cases r)
    case (Inr as)
    then have a: "\<forall>a\<in>set as. octets a" "list_room (length as)" using assms(1) Pair unfolding net_laws_def by blast+
    obtain w' ds where "dns_get_inet_by_name net l host w = Ok () w'" "list_at w' l ds (map dotted as)" "wf_lh w'"
        "mod_mem {brk w..} {brk w..} {l} w w'" "set ds \<subseteq> {brk w..} \<times> {brk w..}"
      using dns_get_inet_by_name_ok [OF assms(2,3) _ assms(4) Pair [unfolded Inr] a assms(5,6)] by auto
    then show ?thesis by auto
  next
    case (Inl e)
    obtain w1 where w1: "str_new None w = Ok (brk w) w1" "mod_lh {brk w} {} {} w w1" "wf_lh w1"
      using str_new_lh [OF assms(5,6)] by metis
    have l: "list_cells w l []" using assms(2) by (simp add: list_at_def)
    have l1: "list_at w1 l [] []" by (rule list_at_frame [OF assms(2) w1(2)]) simp_all
    have h: "host < brk w" by (rule str_has_lt [OF _ assms(3)]) (use assms(6) in simp)
    let ?w2 = "cleared l [] w1"
    have t: "list_truncate l w1 = Ok () ?w2" by (rule list_truncate_ok [OF l1 w1(3)])
    have m2: "mod_lh {} {} {l} w1 ?w2" using cleared_mod [of "[]" l w1] by simp
    have "l < brk w1" using list_cells_lt(1) [OF l assms(6)] mod_lh_brk [OF w1(2)] by simp
    then have wf2: "wf_lh ?w2" by (rule cleared_wf [OF w1(3)])
    have "str_has ?w2 host h" using mod_lh_has [OF w1(2), of host h] mod_lh_has [OF m2, of host h] assms(3) h by simp
    then have c: "cread (CVal host 0) ?w2 = Ok h ?w2" by (rule cread_str_has [OF _ assms(4)])
    have k: "kern ?w2 = kern w" using mod_lh_kern [OF w1(2)] mod_lh_kern [OF m2] by simp
    have e: "dns_get_inet_by_name net l host w = Fail (-1) (?w2\<lparr>kern := k\<rparr>)"
      using w1(1) t c k Pair Inl by (simp add: dns_get_inet_by_name_def nc_bind_def sys_try_def syscall_def nc_throw_def)
    have "mod_mem ({brk w} \<union> {}) ({} \<union> {}) ({} \<union> {l}) w ?w2"
      by (rule mod_mem_trans [OF mod_lh_mem [OF w1(2)] mod_lh_mem [OF m2]])
    then have "mod_mem {brk w..} {brk w..} {l} w ?w2" by (rule mod_mem_mono) auto
    then show ?thesis using e wf2 cleared_empty [of l "[]" w1] by simp
  qed
qed

text \<open>Initialising the component changes no object that was there before.\<close>

definition new_only :: "'z list_heap_scheme \<Rightarrow> 'z list_heap_scheme \<Rightarrow> bool" where
  "new_only w w' \<longleftrightarrow> mod_mem {brk w..} {brk w..} {brk w..} w w' \<and> wf_lh w'"

lemma new_only_trans: "new_only w w1 \<Longrightarrow> new_only w1 w2 \<Longrightarrow> new_only w w2"
  unfolding new_only_def mod_mem_def by (auto simp: le_trans)

lemma new_only_has: "new_only w w' \<Longrightarrow> a < brk w \<Longrightarrow> str_has w' a xs = str_has w a xs"
  by (simp add: new_only_def mod_mem_def str_has_def)

lemma new_only_ok: "new_only w w' \<Longrightarrow> mem_ok w' = mem_ok w"
  by (auto simp: new_only_def dest: mod_mem_ok)

lemma new_only_refl: "wf_lh w \<Longrightarrow> new_only w w"
  by (simp add: new_only_def mod_mem_def)

lemma new_only_step:
  assumes "new_only w w1" "mod_mem S E L w1 w2" "wf_lh w2" "S \<subseteq> {brk w..}" "E \<subseteq> {brk w..}" "L \<subseteq> {brk w..}"
  shows "new_only w w2"
proof -
  have "mod_mem ({brk w..} \<union> S) ({brk w..} \<union> E) ({brk w..} \<union> L) w w2"
    using assms(1,2) mod_mem_trans unfolding new_only_def by blast
  moreover have "{brk w..} \<union> S = {brk w..}" "{brk w..} \<union> E = {brk w..}" "{brk w..} \<union> L = {brk w..}" using assms(4-6) by auto
  ultimately show ?thesis using assms(3) unfolding new_only_def by simp
qed

lemma new_only_kern [simp]:
  fixes w :: "('k, 'z) sys_heap_scheme"
  shows "new_only w (w'\<lparr>kern := k\<rparr>) = new_only w w'"
  by (simp add: new_only_def)

text \<open>The state of \<^verbatim>\<open>dns_library_init\<close> between its calls: its list and its string\<close>

definition dns_vars :: "'z list_heap_scheme \<Rightarrow> nat \<Rightarrow> nat \<Rightarrow> (nat \<times> nat) list \<Rightarrow> 'z list_heap_scheme \<Rightarrow> bool" where
  "dns_vars w l b ds w' \<longleftrightarrow> (\<exists>zss xs. list_at w' l ds zss \<and> set ds \<subseteq> {brk w..} \<times> {brk w..} \<and> b \<notin> snd ` set ds \<and> str_has w' b xs \<and>
     new_only w w' \<and> mem_ok w' \<and> brk w \<le> l \<and> brk w \<le> b)"

lemma dns_vars_exit:
  assumes "dns_vars w l b ds w1"
  shows "\<exists>w2. nc_bind (list_destroy (Some l)) (\<lambda>_. str_destroy (Some b)) w1 = Ok () w2 \<and> new_only w w2"
proof -
  obtain zss xs where d: "list_at w1 l ds zss" "set ds \<subseteq> {brk w..} \<times> {brk w..}" "b \<notin> snd ` set ds" "str_has w1 b xs"
      "new_only w w1" "brk w \<le> l" "brk w \<le> b"
    using assms unfolding dns_vars_def by blast
  have wf: "wf_lh w1" using d(5) by (simp add: new_only_def)
  let ?w2 = "w1\<lparr>strs := strs w1 |` (- snd ` set ds), ents := ents w1 |` (- fst ` set ds), lists := (lists w1)(l := None)\<rparr>"
  have l: "list_destroy (Some l) w1 = Ok () ?w2" by (rule list_destroy_ok [OF d(1) wf])
  have "str_has ?w2 b xs" using d(3,4) by (simp add: str_has_def restrict_map_def)
  then have s: "str_destroy (Some b) ?w2 = Ok () (?w2\<lparr>strs := (strs ?w2)(b := None)\<rparr>)" by (rule str_destroy_ok)
  let ?w3 = "?w2\<lparr>strs := (strs ?w2)(b := None)\<rparr>"
  have "mod_mem (insert b (snd ` set ds)) (fst ` set ds) {l} w1 ?w3" by (auto simp: mod_mem_def restrict_map_def)
  moreover have "wf_lh ?w3" by (rule wf_lh_restrict [OF wf]) (auto simp: restrict_map_def)
  ultimately have "new_only w ?w3" by (rule new_only_step [OF d(5)]) (use d in auto)
  then show ?thesis using l s by (simp add: nc_bind_def)
qed

lemma dns_vars_kern [simp]:
  fixes w :: "('k, 'z) sys_heap_scheme"
  shows "dns_vars w l b ds (w'\<lparr>kern := k\<rparr>) = dns_vars w l b ds w'"
  by (simp add: dns_vars_def)

lemma dns_vars_upd:
  assumes "dns_vars w l b ds w1" "str_upd w1 b ys w2"
  shows "dns_vars w l b ds w2"
proof -
  obtain zss xs where d: "list_at w1 l ds zss" "set ds \<subseteq> {brk w..} \<times> {brk w..}" "b \<notin> snd ` set ds" "str_has w1 b xs"
      "new_only w w1" "brk w \<le> l" "brk w \<le> b" "mem_ok w1"
    using assms(1) unfolding dns_vars_def by blast
  have wf: "wf_lh w1" using d(5) by (simp add: new_only_def)
  note u = str_upd_lh [OF assms(2) d(4) wf]
  have "list_at w2 l ds zss" by (rule list_at_frame [OF d(1) u(1)]) (use d(3) in auto)
  moreover have "new_only w w2" by (rule new_only_step [OF d(5) mod_lh_mem [OF u(1)] u(2)]) (use d(7) in auto)
  ultimately show ?thesis using d u(3,4) unfolding dns_vars_def by blast
qed

lemma dns_vars_cpy:
  assumes "dns_vars w l b ds w1" "length n < STRING_MAX"
  shows "\<exists>w2. str_cpy b (CLit n) w1 = Ok () w2 \<and> str_upd w1 b (takeWhile (\<lambda>c. c \<noteq> NUL) n) w2 \<and> dns_vars w l b ds w2"
proof -
  obtain xs where d: "str_has w1 b xs" "mem_ok w1" using assms(1) unfolding dns_vars_def by blast
  let ?n = "takeWhile (\<lambda>c. c \<noteq> NUL) n"
  have "cstr (map Some (n @ [NUL])) = Some ?n" by (induction n) auto
  then have c: "cread (CLit n) w1 = Ok ?n w1" by (simp add: cread_def nc_simps)
  have "length ?n < STRING_MAX" using assms(2) length_takeWhile_le [of "\<lambda>c. c \<noteq> NUL" n] by linarith
  then obtain w2 where w2: "str_cpy b (CLit n) w1 = Ok () w2" "str_upd w1 b ?n w2"
    using str_cpy_ok [OF d(1) c _ _ d(2)] by auto
  then show ?thesis using dns_vars_upd [OF assms(1) w2(2)] by blast
qed

lemma dns_vars_resolve:
  fixes w :: "('k, 'z) sys_heap_scheme"
  assumes "net_laws net" "dns_vars w l b [] w1" "str_has w1 b h" "NUL \<notin> set h"
  shows "\<exists>w2 ds. nc_catch (dns_get_inet_by_name net l b) nc_return (\<lambda>_. nc_return ()) w1 = Ok () w2 \<and> dns_vars w l b ds w2"
proof -
  obtain zss where d: "list_at w1 l [] zss" "new_only w w1" "brk w \<le> l" "brk w \<le> b" "mem_ok w1"
    using assms(2) unfolding dns_vars_def by blast
  have l: "list_at w1 l [] []" and wf: "wf_lh w1" using d(1,2) by (simp_all add: list_at_def new_only_def)
  have b: "b < brk w1" "brk w \<le> brk w1" using str_has_lt [OF _ assms(3)] wf d(2) by (auto simp: new_only_def mod_mem_def)
  have keep: "dns_vars w l b ds w2" if "list_at w2 l ds zss" "wf_lh w2" "mod_mem {brk w1..} {brk w1..} {l} w1 w2" "set ds \<subseteq> {brk w1..} \<times> {brk w1..}"
    for w2 ds zss
  proof -
    have "new_only w w2" by (rule new_only_step [OF d(2) that(3,2)]) (use b(2) d(3) in auto)
    moreover have "str_has w2 b h" "mem_ok w2" using mod_mem_has [OF that(3), of b h] mod_mem_ok [OF that(3)] b(1) assms(3) d(5) by auto
    moreover have "set ds \<subseteq> {brk w..} \<times> {brk w..}" "b \<notin> snd ` set ds" using that(4) b by auto
    ultimately show ?thesis using that(1) d(3,4) unfolding dns_vars_def by blast
  qed
  note r = dns_get_inet_by_name_ends [OF assms(1) l assms(3,4) d(5) wf]
  show ?thesis
  proof (cases "dns_get_inet_by_name net l b w1")
    case (Fail rc w2)
    then have "dns_vars w l b [] w2" using r keep [of w2 "[]" "[]"] by simp
    then show ?thesis using Fail by (auto simp: nc_catch_def nc_return_def)
  qed (use r keep in \<open>auto simp: nc_catch_def nc_return_def\<close>)
qed

text \<open>Initialising the resolver ends without a fault and changes no older object.\<close>

lemma dns_library_init_ends:
  fixes w :: "('k, 'z) sys_heap_scheme"
  assumes "net_laws net" "mem_ok w" "wf_lh w"
  shows "ends (dns_library_init net init w) (\<lambda>flag w'. flag \<and> new_only w w') (\<lambda>_. True)"
proof -
  let ?l = "brk w" and ?w1 = "w\<lparr>lists := (lists w)(brk w \<mapsto> empty_list), brk := Suc (brk w)\<rparr>"
  have n1: "list_new None w = Ok ?l ?w1" by (rule list_new_ok [OF assms(2)])
  have m1: "mod_lh {} {} {?l} w ?w1" by (simp add: mod_lh_def)
  have w1: "wf_lh ?w1" "mem_ok ?w1" using mod_lh_wf [OF m1 assms(3)] mod_lh_mem_ok [OF m1] assms(2) by simp_all
  let ?b = "brk ?w1"
  obtain w2 where w2: "str_new None ?w1 = Ok ?b w2" "mod_lh {?b} {} {} ?w1 w2" "str_has w2 ?b []" "wf_lh w2" "mem_ok w2"
    using str_new_lh [OF w1(2,1)] by metis
  have "list_at ?w1 ?l [] []" by (simp add: list_at_def list_cells_def header_Nil)
  then have l2: "list_at w2 ?l [] []" by (rule list_at_frame [OF _ w2(2)]) simp_all
  have "new_only w ?w1" by (rule new_only_step [OF new_only_refl [OF assms(3)] mod_lh_mem [OF m1] w1(1)]) auto
  then have "new_only w w2" by (rule new_only_step [OF _ mod_lh_mem [OF w2(2)] w2(4)]) auto
  then have v2: "dns_vars w ?l ?b [] w2" using l2 w2(3,5) unfolding dns_vars_def by fastforce
  have fin: "\<exists>w'. nc_bind (list_destroy (Some ?l)) (\<lambda>_. nc_bind (str_destroy (Some ?b)) (\<lambda>_. nc_return True)) v = Ok True w' \<and> new_only w w'"
    if "dns_vars w ?l ?b ds v" for ds v
    using dns_vars_exit [OF that] by (auto simp: nc_bind_def nc_return_def split: outcome.splits)
  show ?thesis
  proof (cases init)
    case True
    then show ?thesis using n1 w2(1) fin [OF v2] by (auto simp: dns_library_init_def nc_bind_def nc_when_def nc_return_def)
  next
    case False
    obtain r k where r: "gethostname net (kern w2) = (r, k)" by fastforce
    show ?thesis
    proof (cases r)
      case (Inl e)
      then show ?thesis using n1 w2(1) False r
        by (simp add: dns_library_init_def nc_bind_def nc_when_def host_get_name_def sys_try_def syscall_def nc_throw_def)
    next
      case (Inr n)
      have "length n < STRING_MAX" using assms(1) r Inr unfolding net_laws_def by blast
      then obtain w3 where w3: "str_cpy ?b (CLit n) (w2\<lparr>kern := k\<rparr>) = Ok () w3" "dns_vars w ?l ?b [] w3"
        using dns_vars_cpy [of w ?l ?b "[]" "w2\<lparr>kern := k\<rparr>" n] v2 by auto
      obtain a k3 where a: "gethostbyname net ''localhost'' (kern w3) = (a, k3)" by fastforce
      obtain w4 where w4: "str_cpy ?b (CLit ''netsol.com'') (w3\<lparr>kern := k3\<rparr>) = Ok () w4" "str_upd (w3\<lparr>kern := k3\<rparr>) ?b ''netsol.com'' w4"
          "dns_vars w ?l ?b [] w4"
        using dns_vars_cpy [of w ?l ?b "[]" "w3\<lparr>kern := k3\<rparr>" "''netsol.com''"] w3(2) by (auto simp: STRING_MAX_def)
      obtain w5 ds where w5: "nc_catch (dns_get_inet_by_name net ?l ?b) nc_return (\<lambda>_. nc_return ()) w4 = Ok () w5" "dns_vars w ?l ?b ds w5"
        using dns_vars_resolve [OF assms(1) w4(3) str_upd_has [OF w4(2)]] by auto
      show ?thesis using n1 w2(1) False r Inr w3(1) a w4(1) w5(1) fin [OF w5(2)]
        by (auto simp: dns_library_init_def nc_bind_def nc_when_def host_get_name_def sys_try_def syscall_def nc_return_def ask_host_def)
    qed
  qed
qed

end
