(* ===== verification/NC_Packet.thy ===== *)
theory NC_Packet
  imports NC_Net_Laws NC_Hash_Ops
begin

text \<open>
  Response packets of the resolver: what they look like on the wire, and that \<^verbatim>\<open>dns_get_mx_list\<close> reads them.
\<close>

section \<open>Names on the wire\<close>

text \<open>
  RFC 1035, section 3.1: each label after a byte with its length, then a zero byte. The names are those that dn_expand(3)
  gives back as they are, without escapes.
\<close>

definition wire :: "string \<Rightarrow> string" where
  "wire name = concat (map (\<lambda>l. char_of (length l) # l) (split_on (CHR ''.'') name)) @ [NUL]"

definition host_label :: "string \<Rightarrow> bool" where
  "host_label l \<longleftrightarrow> l \<noteq> [] \<and> length l < 64 \<and> list_all (\<lambda>c. isalnum c \<or> c = CHR ''-'') l"

definition host_text :: "string \<Rightarrow> bool" where
  "host_text name \<longleftrightarrow> list_all host_label (split_on (CHR ''.'') name) \<and> length (wire name) \<le> 255"

text \<open>
  What is documented of dn_skipname(3) and dn_expand(3), for names without compression, in a message \<open>pre @ wire name @ post\<close>
  at the start of a buffer: the first gives the number of bytes of the name; the second also the name, if the destination has room
  for it.
\<close>

definition names_law :: "'k net \<Rightarrow> bool" where
  "names_law net \<longleftrightarrow> (\<forall>pre name post pad n. host_text name \<longrightarrow> length name < n \<longrightarrow>
     (let b = map Some (pre @ wire name @ post) @ pad; eom = length (pre @ wire name @ post) in
      dn_skipname net b eom (length pre) = Some (length (wire name)) \<and>
      dn_expand net b eom (length pre) n = Some (name, length (wire name))))"

lemma split_on_short: "length name < length (concat (map (\<lambda>l. x l # l) (split_on d name))) + 1"
proof (induction name)
  case (Cons c name)
  then show ?case by (cases "split_on d name") auto
qed simp

lemma host_text_length: "host_text name \<Longrightarrow> length name < 255"
  using split_on_short [of name "\<lambda>l. char_of (length l)" "CHR ''.''"] by (simp add: host_text_def wire_def)

lemma split_on_set: "set name \<subseteq> insert d (\<Union> (set ` set (split_on d name)))"
proof (induction name)
  case (Cons c name)
  then show ?case by (cases "split_on d name") auto
qed simp

lemma host_text_NUL: "host_text name \<Longrightarrow> NUL \<notin> set name"
proof -
  assume h: "host_text name"
  have "\<not> isalnum NUL" "NUL \<noteq> CHR ''-''" "NUL \<noteq> CHR ''.''" by code_simp+
  then have "NUL \<notin> set l" if "l \<in> set (split_on (CHR ''.'') name)" for l
    using h that by (auto simp: host_text_def host_label_def list_all_iff)
  then show ?thesis using split_on_set [of name "CHR ''.''"] \<open>NUL \<noteq> CHR ''.''\<close> by blast
qed

section \<open>Messages\<close>

text \<open>RFC 1035, section 4: numbers have their most significant byte first.\<close>

definition be16 :: "nat \<Rightarrow> string" where
  "be16 n = [char_of (n div 256), char_of n]"

definition mx_question :: "string \<Rightarrow> string" where
  "mx_question name = wire name @ be16 T_MX @ be16 1"

text \<open>A record has a time to live, a preference and the name of an exchange.\<close>

fun mx_record :: "string \<Rightarrow> nat \<times> nat \<times> string \<Rightarrow> string" where
  "mx_record domain (ttl, pref, exchange) = wire domain @ be16 T_MX @ be16 1 @ be16 (ttl div 65536) @ be16 ttl @
     be16 (2 + length (wire exchange)) @ be16 pref @ wire exchange"

definition mx_message :: "nat list \<Rightarrow> nat list \<Rightarrow> string list \<Rightarrow> string \<Rightarrow> (nat \<times> nat \<times> string) list \<Rightarrow> string \<Rightarrow> string" where
  "mx_message ids counts questions domain records rest =
     concat (map be16 ids) @ be16 (length questions) @ be16 (length records) @ concat (map be16 counts) @
     concat (map mx_question questions) @ concat (map (mx_record domain) records) @ rest"

lemma be16_length [simp]: "length (be16 n) = 2"
  by (simp add: be16_def)

lemma get_byte_at: "get_byte (map Some pre @ Some c # b) (length pre) w = Ok (of_char c) w"
  by (simp add: get_byte_def nth_append nc_return_def)

lemma get_short_at: "get_short (map Some pre @ map Some (be16 n) @ b) (length pre) w = Ok (n mod 65536) w"
proof -
  have "n mod (256 * 256) = 256 * (n div 256 mod 256) + n mod 256" by (rule mod_mult2_eq)
  then show ?thesis
    using get_byte_at [of pre "char_of (n div 256)" "Some (char_of n) # b" w] get_byte_at [of "pre @ [char_of (n div 256)]" "char_of n" b w]
    by (simp add: get_short_def be16_def nc_simps)
qed

text \<open>The two functions at a place in a message\<close>

lemma names_at:
  assumes "names_law net" "host_text name" "b = map Some m @ pad" "m = pre @ wire name @ post" "cp = length pre"
  shows "dn_skipname net b (length m) cp = Some (length (wire name))" "dn_expand net b (length m) cp 1025 = Some (name, length (wire name))"
proof -
  have "length name < 1025" using host_text_length [OF assms(2)] by simp
  then show "dn_skipname net b (length m) cp = Some (length (wire name))" "dn_expand net b (length m) cp 1025 = Some (name, length (wire name))"
    using assms unfolding names_law_def Let_def by blast+
qed

lemma skip_questions_ok:
  assumes "names_law net" "\<forall>q\<in>set qs. host_text q" "b = map Some m @ pad" "m = pre @ concat (map mx_question qs) @ post"
  shows "skip_questions net (length qs) b (length m) (length pre) w = Ok (length (pre @ concat (map mx_question qs))) w"
  using assms(2,4)
proof (induction qs arbitrary: pre)
  case (Cons q qs)
  have "m = pre @ wire q @ (be16 T_MX @ be16 1 @ concat (map mx_question qs) @ post)" using Cons.prems(2) by (simp add: mx_question_def [of q])
  then have "dn_skipname net b (length m) (length pre) = Some (length (wire q))"
    by (rule names_at(1) [OF assms(1) _ assms(3) _ refl, rotated]) (use Cons.prems(1) in simp)
  moreover have "length (pre @ mx_question q) = length pre + length (wire q) + QFIXEDSZ" by (simp add: mx_question_def QFIXEDSZ_def)
  moreover have "skip_questions net (length qs) b (length m) (length (pre @ mx_question q)) w =
      Ok (length ((pre @ mx_question q) @ concat (map mx_question qs))) w"
    by (rule Cons.IH) (use Cons.prems in simp_all)
  ultimately show ?case by (simp add: add.assoc)
qed (simp add: nc_return_def)

section \<open>Answers\<close>

text \<open>One answer is read and its exchange is put at the end of the list.\<close>

lemma mx_answer_step:
  assumes "names_law net" "host_text d" "host_text x" "b = map Some m @ pad" "m = pre @ mx_record d (ttl, pref, x) @ post" 
    "list_push l sp v = Ok () v'" "str_alias sp (CLit x) w = Ok () v"
  shows "mx_answers net (Suc i) b (length m) (length pre) d l sp w =
    mx_answers net i b (length m) (length (pre @ mx_record d (ttl, pref, x))) d l sp v'"
proof -
  let ?t = "be16 T_MX @ be16 1 @ be16 (ttl div 65536) @ be16 ttl @ be16 (2 + length (wire x)) @ be16 pref @ wire x @ post"
  let ?n = "2 + length (wire x)"
  have n: "?n < 65536" using assms(3) by (simp add: host_text_def)
  have m: "m = pre @ wire d @ ?t" using assms(5) by simp
  note e1 = names_at(2) [OF assms(1,2,4) m refl]
  have "m = (pre @ wire d @ be16 T_MX @ be16 1 @ be16 (ttl div 65536) @ be16 ttl @ be16 ?n @ be16 pref) @ wire x @ post"
    using m by simp
  from names_at(2) [OF assms(1,3,4) this refl]
  have e2: "dn_expand net b (length m) (length pre + length (wire d) + 12) 1025 = Some (x, length (wire x))" by (simp add: add.assoc)
  have g: "get_short b (length pre + length (wire d)) w = Ok T_MX w" "get_short b (length pre + length (wire d) + 8) w = Ok ?n w"
      "get_short b (length pre + length (wire d) + 10) w = Ok (pref mod 65536) w"
    using get_short_at [of "pre @ wire d" T_MX "map Some (drop 2 ?t) @ pad" w]
      get_short_at [of "pre @ wire d @ be16 T_MX @ be16 1 @ be16 (ttl div 65536) @ be16 ttl" ?n "map Some (be16 pref @ wire x @ post) @ pad" w]
      get_short_at [of "pre @ wire d @ be16 T_MX @ be16 1 @ be16 (ttl div 65536) @ be16 ttl @ be16 ?n" pref "map Some (wire x @ post) @ pad" w] n
    unfolding assms(4) m by (simp_all add: T_MX_def add.assoc)
  have len: "length (pre @ mx_record d (ttl, pref, x)) = length pre + length (wire d) + 12 + length (wire x)" by simp
  show ?thesis unfolding len using e1 e2 g assms(6,7) by (simp add: nc_bind_def add.assoc)
qed

lemma alias_lh: "sp < brk w \<Longrightarrow> wf_lh w \<Longrightarrow> mod_lh {sp} {} {} w (w\<lparr>strs := (strs w)(sp \<mapsto> t)\<rparr>) \<and> wf_lh (w\<lparr>strs := (strs w)(sp \<mapsto> t)\<rparr>)"
  by (auto simp: mod_lh_def wf_lh_def wf_strs_def)

lemma mx_answers_ok:
  assumes "names_law net" "host_text d" "\<forall>r\<in>set rs. host_text (snd (snd r))" "b = map Some m @ pad"
    "m = pre @ concat (map (mx_record d) rs) @ post" "list_at w l cs xss" "strs w sp \<noteq> None" "sp \<notin> snd ` set cs"
    "list_room (length xss + length rs)" "mem_ok w" "wf_lh w"
  shows "\<exists>w' ds. mx_answers net (length rs) b (length m) (length pre) d l sp w = Ok () w' \<and>
    list_at w' l (cs @ ds) (xss @ map (snd \<circ> snd) rs) \<and> mod_lh (insert sp {brk w..}) (fst ` set cs \<union> {brk w..}) {l} w w' \<and>
    wf_lh w' \<and> set ds \<subseteq> {brk w..} \<times> {brk w..}"
  using assms(3,5-)
proof (induction rs arbitrary: pre w cs xss)
  case Nil
  then show ?case by (intro exI [of _ w] exI [of _ "[]"]) (simp add: nc_return_def)
next
  case (Cons r rs)
  obtain ttl pref x where r: "r = (ttl, pref, x)" by (cases r)
  have x: "host_text x" "length x < STRING_MAX" "\<forall>r\<in>set rs. host_text (snd (snd r))"
    using Cons.prems(1) host_text_length [of x] r by (auto simp: STRING_MAX_def)
  have sp: "sp < brk w" using Cons.prems(4,8) by (auto simp: wf_lh_def wf_strs_def)
  have "cread (CLit x) w = Ok x w" using host_text_NUL [OF x(1)] by (simp add: cread_def nc_simps cstr_terminated)
  then obtain t where t: "str_alias sp (CLit x) w = Ok () (w\<lparr>strs := (strs w)(sp \<mapsto> t)\<rparr>)" "str_src (w\<lparr>strs := (strs w)(sp \<mapsto> t)\<rparr>) sp x"
    using str_alias_ok [of "CLit x" w x sp] Cons.prems(4) x(2) by auto
  let ?w1 = "w\<lparr>strs := (strs w)(sp \<mapsto> t)\<rparr>"
  have w1: "mod_lh {sp} {} {} w ?w1" "wf_lh ?w1" "mem_ok ?w1" using alias_lh [OF sp Cons.prems(8), of t] Cons.prems(7) by (simp_all add: mem_ok_def)
  have l1: "list_at ?w1 l cs xss" by (rule list_at_frame [OF Cons.prems(3) w1(1)]) (use Cons.prems(5) in auto)
  have len: "length cs + 1 < 2 ^ 64"
    using Cons.prems(3,6) vals_length [of w cs xss] by (simp add: list_at_def list_room_def)
  obtain w2 a s where w2: "list_push l sp ?w1 = Ok () w2" "list_at w2 l (cs @ [(a, s)]) (xss @ [x])"
      "mod_lh {s} (insert a (fst ` set cs)) {l} ?w1 w2" "brk ?w1 \<le> a" "brk ?w1 \<le> s" "a < brk w2" "s < brk w2"
    using list_push_ok [OF l1 t(2) len w1(3,2)] by blast
  have as: "brk w \<le> a" "brk w \<le> s" using w2(4,5) by simp_all
  have wf2: "wf_lh w2" by (rule list_push_wf [OF w2(3) _ w1(2) w2(6,7)]) (use l1 in \<open>simp add: list_at_def\<close>)
  have br: "brk w \<le> brk w2" using mod_lh_brk [OF w2(3)] by simp
  have p: "strs w2 sp \<noteq> None" "sp \<notin> snd ` set (cs @ [(a, s)])" "list_room (length (xss @ [x]) + length rs)" "mem_ok w2"
    using mod_lh_strs [OF w2(3), of sp] Cons.prems(5,6) sp as mod_lh_mem_ok [OF w2(3)] w1(3) by simp_all
  have m: "m = (pre @ mx_record d r) @ concat (map (mx_record d) rs) @ post" using Cons.prems(2) by simp
  obtain w3 ds where w3: "mx_answers net (length rs) b (length m) (length (pre @ mx_record d r)) d l sp w2 = Ok () w3"
      "list_at w3 l ((cs @ [(a, s)]) @ ds) ((xss @ [x]) @ map (snd \<circ> snd) rs)"
      "mod_lh (insert sp {brk w2..}) (fst ` set (cs @ [(a, s)]) \<union> {brk w2..}) {l} w2 w3" "wf_lh w3" "set ds \<subseteq> {brk w2..} \<times> {brk w2..}"
    using Cons.IH [OF x(3) m w2(2) p wf2] by blast
  have m': "m = pre @ mx_record d (ttl, pref, x) @ concat (map (mx_record d) rs) @ post" using m r by simp
  have run: "mx_answers net (Suc (length rs)) b (length m) (length pre) d l sp w = Ok () w3"
    using mx_answer_step [OF assms(1,2) x(1) assms(4) m' w2(1) t(1), of "length rs"] w3(1) r by simp
  have "mod_lh ({sp} \<union> ({s} \<union> insert sp {brk w2..})) ({} \<union> (insert a (fst ` set cs) \<union> (fst ` set (cs @ [(a, s)]) \<union> {brk w2..})))
      ({} \<union> ({l} \<union> {l})) w w3"
    by (rule mod_lh_trans [OF w1(1) mod_lh_trans [OF w2(3) w3(3)]])
  then have "mod_lh (insert sp {brk w..}) (fst ` set cs \<union> {brk w..}) {l} w w3" by (rule mod_lh_mono) (use br as in auto)
  moreover have "set ((a, s) # ds) \<subseteq> {brk w..} \<times> {brk w..}" using w3(5) br as by auto
  ultimately show ?case using run w3(2,4) r by (intro exI [of _ w3] exI [of _ "(a, s) # ds"]) (simp add: comp_def)
qed

text \<open>The whole function on a well-formed message\<close>

lemma get_short_mid: "b = map Some (pre @ be16 n @ post) @ pad \<Longrightarrow> i = length pre \<Longrightarrow> n < 65536 \<Longrightarrow> get_short b i w = Ok n w"
  using get_short_at [of pre n "map Some post @ pad" w] by simp

lemma concat_count:
  assumes "\<And>x. f x \<noteq> []"
  shows "length xs \<le> length (concat (map f xs))"
proof (induction xs)
  case (Cons x xs)
  moreover have "0 < length (f x)" using assms [of x] by simp
  ultimately show ?case unfolding list.map concat.simps length_append list.size by linarith
qed simp

lemma dns_get_mx_list_ok:
  fixes w :: "('k, 'z) sys_heap_scheme"
  assumes "names_law net" "host_text d" "\<forall>q\<in>set qs. host_text q" "\<forall>r\<in>set rs. host_text (snd (snd r))" "length ids = 2" "length ns = 2"
    "res_query net d T_MX (kern w) = (Inr m, k)" "m = mx_message ids ns qs d rs post" "length m \<le> PACKETSZ"
    "list_at w l cs xss" "str_has w dn d" "dn \<notin> snd ` set cs" "d \<noteq> []" "mem_ok w" "wf_lh w"
  shows "\<exists>w' ds. dns_get_mx_list net l dn w = Ok () w' \<and> list_at w' l ds (map (snd \<circ> snd) rs) \<and> kern w' = k \<and>
    str_has w' dn d \<and> wf_lh w'"
proof -
  let ?a = "brk w" and ?h = "concat (map be16 ids) @ be16 (length qs) @ be16 (length rs) @ concat (map be16 ns)"
  let ?w0 = "w\<lparr>strs := (strs w)(?a \<mapsto> EMPTY_STRING), brk := Suc ?a\<rparr>"
  have c: "list_cells w l cs" "vals w cs xss" using assms(10) by (auto simp: list_at_def)
  have lt: "l < ?a" "fst ` set cs \<subseteq> {..<?a}" "snd ` set cs \<subseteq> {..<?a}" "dn < ?a"
    using list_cells_lt [OF c(1) assms(15)] vals_lt [OF c(2)] str_has_lt [OF _ assms(11)] assms(15) by auto
  have m0: "mod_lh {?a} {} {} w ?w0" by (simp add: mod_lh_def)
  have wf0: "wf_lh ?w0" using assms(15) by (auto simp: wf_lh_def wf_strs_def less_Suc_eq)
  have l0: "list_at ?w0 l cs xss" by (rule list_at_frame [OF assms(10) m0]) (use lt in auto)
  have h0: "str_has ?w0 dn d" using mod_lh_has [OF m0, of dn d] assms(11) lt(4) by simp
  let ?w1 = "cleared l cs ?w0"
  have t: "list_truncate l ?w0 = Ok () ?w1" by (rule list_truncate_ok [OF l0 wf0])
  have m1: "mod_lh (snd ` set cs) (fst ` set cs) {l} ?w0 ?w1" by (rule cleared_mod)
  have h1: "str_has ?w1 dn d" using mod_lh_has [OF m1, of dn d] h0 assms(12) by simp
  have r1: "cread (CVal dn 0) ?w1 = Ok d ?w1" by (rule cread_str_has [OF h1 host_text_NUL [OF assms(2)]])
  let ?w2 = "?w1\<lparr>kern := k\<rparr>"
  have "mem_ok ?w0" using assms(14) by (simp add: mem_ok_def)
  then have i: "list_at ?w2 l [] []" "strs ?w2 ?a \<noteq> None" "mem_ok ?w2" "wf_lh ?w2"
    using cleared_empty [of l cs ?w0] mod_lh_strs [OF m1, of ?a] lt cleared_wf [OF wf0] by auto
  have qr: "length qs \<le> 512" "length rs \<le> 512"
    using concat_count [of mx_question qs] concat_count [of "mx_record d" rs] assms(8,9)
    by (force simp: mx_message_def PACKETSZ_def mx_question_def wire_def)+
  define P where "P = ?h @ concat (map mx_question qs)"
  let ?b = "packet None m" and ?pad = "replicate (PACKETSZ - length m) None"
  have b: "?b = map Some m @ ?pad" using assms(9) by (simp add: packet_def)
  have ids: "length (concat (map be16 ids)) = 4" "length (concat (map be16 ns)) = 4"
    using assms(5,6) by (simp_all add: length_concat comp_def sum_list_triv)
  define R where "R = concat (map be16 ns) @ concat (map mx_question qs) @ concat (map (mx_record d) rs) @ post"
  have bR: "?b = map Some (concat (map be16 ids) @ be16 (length qs) @ (be16 (length rs) @ R)) @ ?pad"
      "?b = map Some ((concat (map be16 ids) @ be16 (length qs)) @ be16 (length rs) @ R) @ ?pad"
    unfolding b unfolding assms(8) mx_message_def R_def by simp_all
  have g: "get_short ?b 4 ?w2 = Ok (length qs) ?w2" "get_short ?b 6 ?w2 = Ok (length rs) ?w2"
    by (rule get_short_mid [OF bR(1)], use ids qr in simp_all) (rule get_short_mid [OF bR(2)], use ids qr in simp_all)
  have "m = ?h @ concat (map mx_question qs) @ concat (map (mx_record d) rs) @ post" using assms(8) by (simp add: mx_message_def)
  from skip_questions_ok [OF assms(1,3) b this, of ?w2]
  have sk: "skip_questions net (length qs) ?b (length m) HFIXEDSZ ?w2 = Ok (length P) ?w2" using ids by (simp add: P_def HFIXEDSZ_def)
  have mP: "m = P @ concat (map (mx_record d) rs) @ post" using assms(8) by (simp add: mx_message_def P_def)
  obtain w3 ds where w3: "mx_answers net (length rs) ?b (length m) (length P) d l ?a ?w2 = Ok () w3"
      "list_at w3 l ([] @ ds) ([] @ map (snd \<circ> snd) rs)" "mod_lh (insert ?a {brk ?w2..}) (fst ` set [] \<union> {brk ?w2..}) {l} ?w2 w3"
      "wf_lh w3" "set ds \<subseteq> {brk ?w2..} \<times> {brk ?w2..}"
    using mx_answers_ok [OF assms(1,2,4) b mP i(1,2) _ _ i(3,4)] qr(2) by (auto simp: list_room_def)
  let ?w4 = "w3\<lparr>strs := (strs w3)(?a := None)\<rparr>"
  have k1: "kern ?w1 = kern w" using mod_lh_kern [OF m1] mod_lh_kern [OF m0] by simp
  obtain t0 where t0: "get_str dn ?w0 = Ok t0 ?w0" "s_len t0 = length d" using h0 by (rule get_str_has)
  have "dns_get_mx_list net l dn w = Ok () ?w4"
    unfolding dns_get_mx_list_def
    by (rule with_local_str_run) (use t0 assms(7,9,13) t r1 k1 g sk w3(1) in
      \<open>simp add: nc_bind_def nc_require_def nc_return_def syscall_def Let_def\<close>)
  moreover have "list_at ?w4 l ds (map (snd \<circ> snd) rs)"
    by (rule list_at_frame [OF _ free_lh]) (use w3(2,5) in auto)
  moreover have "str_has w3 dn d" using mod_lh_has [OF w3(3), of dn d] h1 lt(4) by simp
  then have "str_has ?w4 dn d" using lt(4) by (simp add: str_has_def)
  moreover have "kern ?w4 = k" using mod_lh_kern [OF w3(3)] by simp
  ultimately show ?thesis using free_wf [OF w3(4)] by blast
qed

section \<open>Text records\<close>

text \<open>A response with one question and one answer, whose text is said to have \<open>n\<close> bytes.\<close>

definition txt_message :: "nat list \<Rightarrow> string \<Rightarrow> string \<Rightarrow> nat \<Rightarrow> nat \<Rightarrow> nat \<Rightarrow> string \<Rightarrow> string" where
  "txt_message ids question name ttl len n rest =
     concat (map be16 ids) @ wire question @ be16 T_TXT @ be16 1 @ wire name @ be16 T_TXT @ be16 1 @ be16 (ttl div 65536) @ be16 ttl @
     be16 len @ char_of n # rest"

text \<open>Numbers at a place in a message\<close>

lemma get_byte_in: "b = map Some m @ pad \<Longrightarrow> m = pre @ c # post \<Longrightarrow> i = length pre \<Longrightarrow> get_byte b i w = Ok (of_char c) w"
  using get_byte_at [of pre c "map Some post @ pad" w] by simp

lemma get_short_in: "b = map Some m @ pad \<Longrightarrow> m = pre @ be16 n @ post \<Longrightarrow> i = length pre \<Longrightarrow> get_short b i w = Ok (n mod 65536) w"
  using get_short_at [of pre n "map Some post @ pad" w] by simp

lemma names_expand:
  assumes "names_law net" "host_text name" "length name < n" "b = map Some m @ pad" "m = pre @ wire name @ post" "cp = length pre"
  shows "dn_expand net b (length m) cp n = Some (name, length (wire name))"
  using assms unfolding names_law_def Let_def by blast

text \<open>What \<^verbatim>\<open>dns_get_txt_record\<close> reads in such a message\<close>

lemma txt_message_reads:
  fixes w :: "'z heap_scheme"
  assumes "names_law net" "host_text q" "host_text a" "length q < 128" "length a < 128" "length ids = 6"
    "m = txt_message ids q a ttl len n post" "len < 65536" "n < 256" "b = map Some m @ pad"
  defines "c \<equiv> HFIXEDSZ + length (wire q) + 4 + length (wire a)"
  shows "dn_expand net b (length m) HFIXEDSZ 128 = Some (q, length (wire q))"
    "dn_expand net b (length m) (HFIXEDSZ + length (wire q) + 4) 128 = Some (a, length (wire a))"
    "get_short b (HFIXEDSZ + length (wire q)) w = Ok T_TXT w" "get_short b c w = Ok T_TXT w"
    "\<exists>x. get_short b (c + 4) w = Ok x w" "\<exists>x. get_short b (c + 6) w = Ok x w"
    "get_short b (c + 8) w = Ok len w" "get_byte b (c + 10) w = Ok n w" "length (txt_message ids q a ttl len n []) = c + 11"
proof -
  define H where "H = concat (map be16 ids)"
  have H: "length H = 12" using assms(6) unfolding H_def by (simp add: length_concat comp_def sum_list_triv)
  let ?q = "wire q" and ?a = "wire a"
  let ?A = "be16 T_TXT @ be16 1 @ be16 (ttl div 65536) @ be16 ttl @ be16 len @ char_of n # post"
  have m: "m = H @ ?q @ be16 T_TXT @ be16 1 @ ?a @ ?A" using assms(7) by (simp add: txt_message_def H_def)
  show "dn_expand net b (length m) HFIXEDSZ 128 = Some (q, length ?q)"
    by (rule names_expand [OF assms(1,2,4,10) m]) (simp add: H HFIXEDSZ_def)
  have "m = (H @ ?q @ be16 T_TXT @ be16 1) @ ?a @ ?A" using m by simp
  then show "dn_expand net b (length m) (HFIXEDSZ + length ?q + 4) 128 = Some (a, length ?a)"
    by (rule names_expand [OF assms(1,3,5,10)]) (simp add: H HFIXEDSZ_def)
  define P where "P = H @ ?q @ be16 T_TXT @ be16 1 @ ?a"
  have P: "length P = c" by (simp add: P_def H HFIXEDSZ_def c_def)
  have T: "T_TXT mod 65536 = T_TXT" by (simp add: T_TXT_def)
  have mP: "m = P @ ?A" using m by (simp add: P_def)
  note at = get_short_in [OF assms(10)]
  show "get_short b (HFIXEDSZ + length ?q) w = Ok T_TXT w"
    using at [of "H @ ?q" T_TXT "be16 1 @ ?a @ ?A" _ w] m by (simp add: H HFIXEDSZ_def T)
  show "get_short b c w = Ok T_TXT w" using at [OF mP refl, of w] by (simp add: T P)
  show "\<exists>x. get_short b (c + 4) w = Ok x w" "\<exists>x. get_short b (c + 6) w = Ok x w"
    using at [of "P @ be16 T_TXT @ be16 1" "ttl div 65536" "be16 ttl @ be16 len @ char_of n # post" _ w]
      at [of "P @ be16 T_TXT @ be16 1 @ be16 (ttl div 65536)" ttl "be16 len @ char_of n # post" _ w] mP by (simp_all add: P)
  show "get_short b (c + 8) w = Ok len w"
    using at [of "P @ be16 T_TXT @ be16 1 @ be16 (ttl div 65536) @ be16 ttl" len "char_of n # post" _ w] mP assms(8) by (simp add: P)
  show "get_byte b (c + 10) w = Ok n w"
    using get_byte_in [OF assms(10), of "P @ be16 T_TXT @ be16 1 @ be16 (ttl div 65536) @ be16 ttl @ be16 len" "char_of n" post _ w] mP assms(9)
    by (simp add: P)
  show "length (txt_message ids q a ttl len n []) = c + 11" unfolding P [symmetric] by (simp add: txt_message_def P_def H_def)
qed

text \<open>When the text is said to go past the buffer, the copy reads behind its end.\<close>

lemma dns_get_txt_record_overruns:
  fixes w :: "('k, 'z) sys_heap_scheme"
  assumes "names_law net" "host_text q" "host_text a" "length q < 128" "length a < 128" "length ids = 6"
    "res_search net h T_TXT (kern w) = (Inr m, k)" "m = txt_message ids q a ttl len n post" "length m \<le> PACKETSZ"
    "len < 65536" "n < len" "n < 256" "PACKETSZ < length (txt_message ids q a ttl len n []) + n"
    "list_at w l cs xss" "str_has w host h" "host \<notin> snd ` set cs" "NUL \<notin> set h" "mem_ok w" "wf_lh w"
  shows "dns_get_txt_record net l host w = Fault OutOfBounds"
proof -
  let ?s = "brk w"
  obtain w1 where w1: "str_new None w = Ok ?s w1" "mod_lh {?s} {} {} w w1" "wf_lh w1"
    using str_new_lh [OF assms(18,19)] by metis
  have c: "list_cells w l cs" "vals w cs xss" using assms(14) by (auto simp: list_at_def)
  have lt: "fst ` set cs \<subseteq> {..<?s}" "snd ` set cs \<subseteq> {..<?s}" "host < ?s"
    using list_cells_lt [OF c(1) assms(19)] vals_lt [OF c(2)] str_has_lt [OF _ assms(15)] assms(19) by auto
  have l1: "list_at w1 l cs xss" by (rule list_at_frame [OF assms(14) w1(2)]) (use lt in auto)
  let ?w2 = "cleared l cs w1"
  have t: "list_truncate l w1 = Ok () ?w2" by (rule list_truncate_ok [OF l1 w1(3)])
  have m2: "mod_lh (snd ` set cs) (fst ` set cs) {l} w1 ?w2" by (rule cleared_mod)
  have h2: "str_has ?w2 host h"
    using mod_lh_has [OF w1(2), of host h] mod_lh_has [OF m2, of host h] assms(15,16) lt(3) by simp
  have r: "cread (CVal host 0) ?w2 = Ok h ?w2" by (rule cread_str_has [OF h2 assms(17)])
  have k2: "kern ?w2 = kern w" using mod_lh_kern [OF w1(2)] mod_lh_kern [OF m2] by simp
  let ?b = "packet (Some NUL) m" and ?pad = "replicate (PACKETSZ - length m) (Some NUL)" and ?w3 = "?w2\<lparr>kern := k\<rparr>"
  have b: "?b = map Some m @ ?pad" using assms(9) by (simp add: packet_def)
  note rd = txt_message_reads(1,2,9) [OF assms(1-6,8,10,12) b] txt_message_reads(3-8) [OF assms(1-6,8,10,12) b, of ?w3]
  let ?c = "HFIXEDSZ + length (wire q) + 4 + length (wire a)"
  have "length ?b = PACKETSZ" using assms(9) by (simp add: packet_def)
  then have f: "txt_copy ?b (?c + 11) n ?s ?w3 = Fault OutOfBounds" using assms(13) rd(3) by (simp add: txt_copy_def nc_fault_def)
  have n: "\<not> len \<le> n" "n \<noteq> 0" using assms(9,11,13) unfolding assms(8) by (auto simp: txt_message_def)
  have lookup: "dns_get_txt_record net l host w =
      nc_bind (get_short ?b (HFIXEDSZ + length (wire q))) (\<lambda>ans_type. if ans_type \<noteq> T_TXT then nc_throw else
      nc_bind (get_short ?b (?c)) (\<lambda>ans_type. if ans_type \<noteq> T_TXT then nc_throw else
      nc_bind (get_short ?b (?c + 4)) (\<lambda>x. nc_bind (get_short ?b (?c + 6)) (\<lambda>y.
      nc_bind (get_short ?b (?c + 8)) (\<lambda>ans_size. nc_bind (get_byte ?b (?c + 10)) (\<lambda>txt_size.
      if ans_size \<le> txt_size \<or> txt_size = 0 then nc_throw
      else nc_bind (txt_copy ?b (?c + 11) txt_size ?s) (\<lambda>_. nc_bind (list_push l ?s) (\<lambda>_. str_destroy (Some ?s))))))))) ?w3"
    unfolding dns_get_txt_record_def using w1(1) t r k2 assms(7) rd(1,2)
    by (simp add: nc_bind_def [of "str_new None"] nc_bind_def [of "list_truncate _"] nc_bind_def [of "cread _"]
      nc_bind_def [of "syscall _"] syscall_def Let_def cong: if_cong)
  show ?thesis unfolding lookup using rd(4-9) f n by (auto simp: nc_bind_def)
qed

end
