(* ===== verification/NC_Net_Props.thy ===== *)
theory NC_Net_Props
  imports NC_Packet NC_List_Props
begin

text \<open>
  The properties of the resolver component, with witnesses on a small resolver and memory.
\<close>

section \<open>A concrete resolver and memory\<close>

text \<open>A resolver whose state counts the queries; it only knows that 192.0.2.7 is on one of the two block lists.\<close>

definition bl_net :: "nat net" where
  "bl_net = \<lparr>gethostname = (\<lambda>k. (Inr ''host'', k)), getifaddrs = (\<lambda>k. (Inr [], k)),
     gethostbyname = (\<lambda>q k. (if q = ''7.2.0.192.b.net'' then HostFound else HostNotFound, Suc k)),
     getaddrinfo = (\<lambda>h k. if h = ''host'' then (Inr [(10, 0, 0, 1), (10, 0, 0, 2)], Suc k) else (Inl ENOENT, k)),
     getservbyname = (\<lambda>n p k. (Inr None, k)), res_query = (\<lambda>q t k. (Inl EAGAIN, k)),
     res_search = (\<lambda>q t k. (Inl EAGAIN, k)), dn_skipname = (\<lambda>b e p. None), dn_expand = (\<lambda>b e p n. None)\<rparr>"

definition nmem :: "nat sock_heap" where
  "nmem = \<lparr>strs = [2 \<mapsto> lit_str ''a.net'', 4 \<mapsto> lit_str ''b.net'', 6 \<mapsto> lit_str ''c.net'', 7 \<mapsto> lit_str ''host''], brk = 9,
     malloc_ok = (\<lambda>_ _. True),
     ents = [1 \<mapsto> \<lparr>e_value = Some 2, e_next = Some 3, e_prev = None\<rparr>, 3 \<mapsto> \<lparr>e_value = Some 4, e_next = Some 5, e_prev = Some 1\<rparr>,
       5 \<mapsto> \<lparr>e_value = Some 6, e_next = None, e_prev = Some 3\<rparr>],
     lists = [0 \<mapsto> \<lparr>l_count = 3, l_head = Some 1, l_tail = Some 5\<rparr>], hashes = Map.empty, kern = 0,
     socks = [8 \<mapsto> zero_socket\<lparr>so_remote := zero_addr\<lparr>sin_addr := (192, 0, 2, 7)\<rparr>\<rparr>]\<rparr>"

lemma nmem_has: "str_has nmem 2 ''a.net''" "str_has nmem 4 ''b.net''" "str_has nmem 6 ''c.net''" "str_has nmem 7 ''host''"
  by (rule lit_str_has; simp add: nmem_def STRING_MAX_def)+

lemma nmem_wf: "wf_lh nmem" "mem_ok nmem"
  by (auto simp: wf_lh_def wf_strs_def nmem_def mem_ok_def split: if_splits)

lemma nmem_at: "list_at nmem 0 [(1, 2), (3, 4), (5, 6)] [''a.net'', ''b.net'', ''c.net'']"
proof -
  have "vals nmem [(1, 2), (3, 4), (5, 6)] [''a.net'', ''b.net'', ''c.net'']" using nmem_has by simp
  then show ?thesis by (simp add: list_at_def list_cells_def header_def) (simp add: nmem_def)
qed

section \<open>Block lists\<close>

text \<open>
  C13. \<^verbatim>\<open>dns_query_blocklist\<close> asks, in the order of the list, for the name made of the four parts of the peer's address in
  reverse order and the domain, and stops at the first domain that has an answer: its result and the queries it makes are
  those of the reference \<open>listed\<close>. The list of domains stays as it was, and so do all older objects.
\<close>

theorem dns_query_blocklist_spec:
  fixes w :: "('k, 'z) sock_heap_scheme"
  assumes "socks w sock = Some so" "octets (sin_addr (so_remote so))" "list_at w l cs domains"
    "\<forall>x\<in>set domains. NUL \<notin> set x \<and> length x + 20 < STRING_MAX" "mem_ok w" "wf_lh w"
  shows "\<exists>w'. dns_query_blocklist net l sock w =
      Ok (fst (listed net (dotted (reversed (sin_addr (so_remote so)))) domains (kern w))) w' \<and>
    kern w' = snd (listed net (dotted (reversed (sin_addr (so_remote so)))) domains (kern w)) \<and>
    list_at w' l cs domains \<and> (\<forall>a<brk w. strs w' a = strs w a)"
proof -
  obtain w' where w': "query_blocklist net l (sin_addr (so_remote so)) w =
        Ok (fst (listed net (dotted (reversed (sin_addr (so_remote so)))) domains (kern w))) w'"
      "kern w' = snd (listed net (dotted (reversed (sin_addr (so_remote so)))) domains (kern w))"
      "mod_mem {brk w..} {brk w..} {brk w..} w w'"
    using query_blocklist_ok [OF assms(3,2,4-6), of net] by blast
  have "\<forall>a<brk w. strs w' a = strs w a" using w'(3) by (auto simp: mod_mem_def)
  then show ?thesis using w'(1,2) old_list [OF assms(3,6) w'(3)] assms(1)
    by (simp add: dns_query_blocklist_def get_sock_def nc_bind_def)
qed

text \<open>192.0.2.7 is on the second list, which is found with two queries.\<close>

theorem dns_query_blocklist_spec_witness:
  "\<exists>w'. dns_query_blocklist bl_net 0 8 nmem = Ok True w' \<and> kern w' = 2"
proof -
  let ?so = "zero_socket\<lparr>so_remote := zero_addr\<lparr>sin_addr := (192, 0, 2, 7)\<rparr>\<rparr>"
  have s: "socks nmem 8 = Some ?so" by (simp add: nmem_def)
  have r: "dotted (reversed (sin_addr (so_remote ?so))) = ''7.2.0.192''" by code_simp
  have "\<exists>w'. dns_query_blocklist bl_net 0 8 nmem =
      Ok (fst (listed bl_net (dotted (reversed (sin_addr (so_remote ?so)))) [''a.net'', ''b.net'', ''c.net''] (kern nmem))) w' \<and>
    kern w' = snd (listed bl_net (dotted (reversed (sin_addr (so_remote ?so)))) [''a.net'', ''b.net'', ''c.net''] (kern nmem)) \<and>
    list_at w' 0 [(1, 2), (3, 4), (5, 6)] [''a.net'', ''b.net'', ''c.net''] \<and> (\<forall>a<brk nmem. strs w' a = strs nmem a)"
    by (rule dns_query_blocklist_spec [OF s _ nmem_at _ nmem_wf(2,1)]) (simp_all add: octets_def STRING_MAX_def)
  moreover have "listed bl_net ''7.2.0.192'' [''a.net'', ''b.net'', ''c.net''] (kern nmem) = (True, 2)"
    by (simp add: bl_net_def nmem_def)
  ultimately show ?thesis unfolding r by auto
qed

section \<open>Response packets\<close>

text \<open>A decoder of names\<close>

fun labels :: "nat \<Rightarrow> bytes \<Rightarrow> string list option" where
  "labels (Suc n) (Some c # b) =
     (if c = NUL then Some []
      else if length b < of_char c \<or> None \<in> set (take (of_char c) b) then None
      else map_option ((#) (map the (take (of_char c) b))) (labels n (drop (of_char c) b)))"
| "labels _ _ = None"

lemma labels_wire:
  assumes "list_all host_label ls" "length ls < n"
  shows "labels n (map Some (concat (map (\<lambda>l. char_of (length l) # l) ls) @ NUL # post)) = Some ls"
  using assms
proof (induction ls arbitrary: n)
  case Nil
  then show ?case by (cases n) simp_all
next
  case (Cons l ls)
  then obtain k where n: "n = Suc k" by (cases n) simp_all
  have l: "0 < length l" "length l < 64" using Cons.prems by (auto simp: host_label_def)
  then have c: "(of_char (char_of (length l)) :: nat) = length l" by simp
  have "(of_char NUL :: nat) = 0" by code_simp
  then have z: "char_of (length l) \<noteq> NUL" using c l(1) by (metis less_irrefl)
  show ?case using Cons n z c by auto
qed

lemma join_split: "join d (split_on d xs) = xs"
proof (induction xs)
  case (Cons x xs)
  then show ?case by (cases "split_on d xs") auto
qed simp

text \<open>A resolver that knows two mail exchanges and a text that is too long for its packet\<close>

definition mx_answer :: string where
  "mx_answer = mx_message [1, 33152] [0, 0] [''host''] ''host'' [(60, 20, ''mx2.net''), (60, 10, ''mx1.net'')] []"

definition long_name :: string where
  "long_name = replicate 63 (CHR ''a'') @ ''.'' @ replicate 63 (CHR ''b'')"

definition txt_answer :: string where
  "txt_answer = txt_message [1, 33152, 1, 1, 0, 0] long_name long_name 60 256 255 ''text''"

definition mx_net :: "nat net" where
  "mx_net = bl_net\<lparr>res_query := (\<lambda>q t k. (Inr mx_answer, Suc k)), res_search := (\<lambda>q t k. (Inr txt_answer, Suc k)),
     dn_skipname := (\<lambda>b eom p. map_option (\<lambda>ls. length (wire (join (CHR ''.'') ls))) (labels (length b) (drop p (take eom b)))),
     dn_expand := (\<lambda>b eom p n. case labels (length b) (drop p (take eom b)) of None \<Rightarrow> None
       | Some ls \<Rightarrow> let name = join (CHR ''.'') ls in if length name < n then Some (name, length (wire name)) else None)\<rparr>"

lemma mx_net_names: "names_law mx_net"
proof -
  have "labels (length (map Some (pre @ wire name @ post) @ pad)) (drop (length pre) (take (length (pre @ wire name @ post))
      (map Some (pre @ wire name @ post) @ pad))) = Some (split_on (CHR ''.'') name)" if "host_text name" for pre name post pad
  proof -
    let ?ls = "split_on (CHR ''.'') name"
    have "length ?ls \<le> length (concat (map (\<lambda>l. char_of (length l) # l) ?ls))" by (rule concat_count) simp
    then have "length ?ls < length (map Some (pre @ wire name @ post) @ pad)" by (simp add: wire_def)
    from labels_wire [OF _ this, of post] that show ?thesis by (simp add: host_text_def wire_def)
  qed
  then show ?thesis unfolding names_law_def Let_def by (simp add: mx_net_def join_split)
qed



text \<open>
  C28. The length of a text record is trusted: when a response says that the text goes past the buffer, \<^verbatim>\<open>dns_get_txt_record\<close> reads
  behind the end of the buffer on the stack, whatever the server sent. The only test compares the length with the size of the
  record, which comes from the packet as well.
\<close>

theorem dns_get_txt_record_overrun:
  fixes w :: "('k, 'z) sys_heap_scheme"
  assumes "names_law net" "host_text q" "host_text a" "length q < 128" "length a < 128" "length ids = 6"
    "res_search net h T_TXT (kern w) = (Inr m, k)" "m = txt_message ids q a ttl len n rest" "length m \<le> PACKETSZ"
    "len < 65536" "n < len" "n < 256" "PACKETSZ < length (txt_message ids q a ttl len n []) + n"
    "list_at w l cs xss" "str_has w host h" "host \<notin> snd ` set cs" "NUL \<notin> set h" "mem_ok w" "wf_lh w"
  shows "dns_get_txt_record net l host w = Fault OutOfBounds"
  by (rule dns_get_txt_record_overruns [OF assms])

theorem dns_get_txt_record_overrun_witness: "dns_get_txt_record mx_net 0 7 nmem = Fault OutOfBounds"
proof -
  have "long_name = join (CHR ''.'') [replicate 63 (CHR ''a''), replicate 63 (CHR ''b'')]" by (simp add: long_name_def)
  then have n: "split_on (CHR ''.'') long_name = [replicate 63 (CHR ''a''), replicate 63 (CHR ''b'')]"
    using split_join [of "[replicate 63 (CHR ''a''), replicate 63 (CHR ''b'')]" "CHR ''.''"] by simp
  then have l: "length (wire long_name) = 129" by (simp add: wire_def)
  have h: "host_text long_name" "length long_name < 128"
    using n l by (simp_all add: host_text_def host_label_def isalnum_def islower_def list_all_iff long_name_def)
  have q: "res_search mx_net ''host'' T_TXT (kern nmem) = (Inr txt_answer, 1)" by (simp add: mx_net_def nmem_def)
  have len: "length txt_answer \<le> PACKETSZ" "PACKETSZ < length (txt_message [1, 33152, 1, 1, 0, 0] long_name long_name 60 256 255 []) + 255"
    by (simp_all add: txt_answer_def txt_message_def l PACKETSZ_def)
  show ?thesis
    by (rule dns_get_txt_record_overrun [OF mx_net_names h(1,1,2,2) _ q txt_answer_def len(1) _ _ _ len(2) nmem_at nmem_has(4) _ _ nmem_wf(2,1)])
      simp_all
qed

end
