(* ===== verification/NC_Thread.thy ===== *)
theory NC_Thread
  imports NC_Connect
begin

text \<open>
  The thread component (src/thread.c). The calls of the thread library are a parameter, the record \<open>pthread\<close>. The
  heap is extended by the two attribute objects of the component (\<open>None\<close> is an object that was not initialised, or
  was destroyed) and by the threads that were started, in this order.
\<close>

section \<open>The thread library\<close>

record thread_attr =
  ta_detached :: bool
  ta_stacksize :: nat

text \<open>The functions that the library starts threads with, and those of its users\<close>

datatype callback_t = Session_handler | Pthread_exit | User_callback nat

text \<open>\<open>None\<close> is the error of a function that changes an attribute object.\<close>

record 'k pthread =
  pthread_attr_init :: thread_attr
  pthread_attr_setdetachstate :: "bool \<Rightarrow> thread_attr \<Rightarrow> thread_attr option"
  pthread_attr_setstacksize :: "nat \<Rightarrow> thread_attr \<Rightarrow> thread_attr option"
  pthread_create :: "thread_attr \<Rightarrow> callback_t \<Rightarrow> nat option \<Rightarrow> (nat, 'k) syscall"

record ('k, 'c) thread_heap = "('k, 'c) sess_heap" +
  DEFAULT_THREAD_ATTRIB :: "thread_attr option"
  DETACHED_THREAD_ATTRIB :: "thread_attr option"
  threads :: "(callback_t \<times> nat option) list"

type_synonym ('a, 'k, 'c, 'z) tnc =
  "('k, 'c, 'z) thread_heap_scheme \<Rightarrow> ('a, ('k, 'c, 'z) thread_heap_scheme) outcome"

section \<open>Creating threads\<close>

text \<open>pthread_create(3) with one of the attribute objects\<close>

definition start_thread :: "'k pthread \<Rightarrow> thread_attr option \<Rightarrow> callback_t \<Rightarrow> nat option \<Rightarrow> (errno + nat, 'k, 'c, 'z) tnc" where
  "start_thread th attr func data = (case attr of None \<Rightarrow> nc_fault Uninit
     | Some a \<Rightarrow> nc_bind (syscall (pthread_create th a func data)) (\<lambda>r w.
         Ok r (case r of Inl e \<Rightarrow> w | Inr tid \<Rightarrow> w\<lparr>threads := threads w @ [(func, data)]\<rparr>)))"

definition thread_create :: "'k pthread \<Rightarrow> callback_t \<Rightarrow> nat option \<Rightarrow> (nat, 'k, 'c, 'z) tnc" where
  "thread_create th func data w =
     nc_bind (start_thread th (DEFAULT_THREAD_ATTRIB w) func data)
       (\<lambda>r. case r of Inl e \<Rightarrow> nc_throw | Inr tid \<Rightarrow> nc_return tid) w"

definition thread_create_detached :: "'k pthread \<Rightarrow> callback_t \<Rightarrow> nat option \<Rightarrow> (unit, 'k, 'c, 'z) tnc" where
  "thread_create_detached th func data w =
     nc_bind (start_thread th (DETACHED_THREAD_ATTRIB w) func data)
       (\<lambda>r. case r of Inl e \<Rightarrow> nc_throw | Inr tid \<Rightarrow> nc_return ()) w"

section \<open>The attribute objects\<close>

definition THREAD_STACKSIZE :: nat where "THREAD_STACKSIZE = 1024 * 64"

definition set_attr :: "(thread_attr \<Rightarrow> thread_attr option) \<Rightarrow> bool \<Rightarrow> (unit, 'k, 'c, 'z) tnc" where
  "set_attr f detached w =
     (case (if detached then DETACHED_THREAD_ATTRIB w else DEFAULT_THREAD_ATTRIB w) of
        None \<Rightarrow> Fault Uninit
      | Some a \<Rightarrow> (case f a of None \<Rightarrow> Fail (-1) w
         | Some b \<Rightarrow> Ok () (if detached then w\<lparr>DETACHED_THREAD_ATTRIB := Some b\<rparr> else w\<lparr>DEFAULT_THREAD_ATTRIB := Some b\<rparr>)))"

text \<open>The result of the first thread is ignored.\<close>

definition thread_library_init :: "'k pthread \<Rightarrow> (unit, 'k, 'c, 'z) tnc" where
  "thread_library_init th =
     nc_bind (\<lambda>w. Ok () (w\<lparr>DEFAULT_THREAD_ATTRIB := Some (pthread_attr_init th),
       DETACHED_THREAD_ATTRIB := Some (pthread_attr_init th)\<rparr>)) (\<lambda>_.
     nc_bind (set_attr (pthread_attr_setdetachstate th True) True) (\<lambda>_.
     nc_bind (set_attr (pthread_attr_setstacksize th THREAD_STACKSIZE) False) (\<lambda>_.
     nc_bind (set_attr (pthread_attr_setstacksize th THREAD_STACKSIZE) True) (\<lambda>_ w.
     nc_bind (start_thread th (DETACHED_THREAD_ATTRIB w) Pthread_exit None) (\<lambda>_. nc_return ()) w))))"

text \<open>The function that \<open>thread_library_init\<close> registers to run when the process exits\<close>

definition thread_library_atexit :: "(unit, 'k, 'c, 'z) tnc" where
  "thread_library_atexit w = Ok () (w\<lparr>DEFAULT_THREAD_ATTRIB := None, DETACHED_THREAD_ATTRIB := None\<rparr>)"

end
