(* ===== verification/NC_Server.thy ===== *)
theory NC_Server
  imports NC_Thread
begin

text \<open>
  The server component (src/server.c, src/nc_server.h): server objects, dropping the privileges of the process, and
  the loop that waits for connections on several sockets and starts a session for each of them. The heap is extended
  by the controller structures that servers own and by the flag of the resolver component. The calls of the system
  that only this component makes are a parameter, the record \<open>kcalls\<close>.
\<close>

unbundle bit_operations_syntax

section \<open>State\<close>

text \<open>
  \<open>sys_poll\<close> gets the descriptors of the array and answers with the number of those that have an event and with the
  events of each of them.
\<close>

record 'k kcalls =
  getuid :: "'k \<Rightarrow> nat"
  sys_time :: "'k \<Rightarrow> int"
  sys_chdir :: "string \<Rightarrow> (unit, 'k) syscall"
  sys_chroot :: "string \<Rightarrow> (unit, 'k) syscall"
  sys_setgid :: "nat \<Rightarrow> (unit, 'k) syscall"
  sys_setuid :: "nat \<Rightarrow> (unit, 'k) syscall"
  sys_poll :: "int list \<Rightarrow> (nat \<times> (nat \<Rightarrow> nat), 'k) syscall"

record ('k, 'c) server_heap = "('k, 'c) thread_heap" +
  ctls :: "nat \<Rightarrow> 'c option"
  DNS_LIB_INIT :: bool

type_synonym ('a, 'k, 'c, 'z) vnc =
  "('k, 'c, 'z) server_heap_scheme \<Rightarrow> ('a, ('k, 'c, 'z) server_heap_scheme) outcome"

definition SIZEOF_SERVER_T :: nat where "SIZEOF_SERVER_T = 80"
definition SIZEOF_SESSION_CONTROLLER_T :: nat where "SIZEOF_SESSION_CONTROLLER_T = 56"
definition SIZEOF_POLLFD :: nat where "SIZEOF_POLLFD = 8"
definition MAX_CLIENT_COUNT :: int where "MAX_CLIENT_COUNT = 10000"

definition upd_srv :: "nat \<Rightarrow> (server_t \<Rightarrow> server_t) \<Rightarrow> (unit, 'k, 'c, 'z) vnc" where
  "upd_srv a f w = (case servers w a of None \<Rightarrow> Fault BadAddr
     | Some s \<Rightarrow> Ok () (w\<lparr>servers := (servers w)(a \<mapsto> f s)\<rparr>))"

definition free_srv :: "nat \<Rightarrow> (unit, 'k, 'c, 'z) vnc" where
  "free_srv a w = (case servers w a of None \<Rightarrow> Fault BadFree
     | Some _ \<Rightarrow> Ok () (w\<lparr>servers := (servers w)(a := None)\<rparr>))"

definition zero_server :: server_t where
  "zero_server = \<lparr>sv_uid = None, sv_gid = None, sv_service = None, sv_family = 0, sv_address = None, sv_port = 0,
     sv_mode = 0, sv_use_tls = False, sv_timeout = 0, sv_sock = None, sv_controller = None, sv_controller_handle = 0\<rparr>"

definition calloc_srv :: "nat option \<Rightarrow> (nat, 'k, 'c, 'z) vnc" where
  "calloc_srv dest w =
     (if dest \<noteq> None then Fail (-1) w
      else if malloc_ok w (brk w) SIZEOF_SERVER_T
      then Ok (brk w) (w\<lparr>servers := (servers w)(brk w \<mapsto> zero_server), brk := Suc (brk w)\<rparr>)
      else Fail (-1) (w\<lparr>brk := Suc (brk w)\<rparr>))"

text \<open>\<open>z\<close> is a controller whose function pointers are NULL.\<close>

definition calloc_ctl :: "'c \<Rightarrow> (nat, 'k, 'c, 'z) vnc" where
  "calloc_ctl z w =
     (if malloc_ok w (brk w) SIZEOF_SESSION_CONTROLLER_T
      then Ok (brk w) (w\<lparr>ctls := (ctls w)(brk w \<mapsto> z), brk := Suc (brk w)\<rparr>)
      else Fail (-1) (w\<lparr>brk := Suc (brk w)\<rparr>))"

definition get_ctl :: "nat \<Rightarrow> ('c, 'k, 'c, 'z) vnc" where
  "get_ctl a w = (case ctls w a of None \<Rightarrow> Fault BadAddr | Some c \<Rightarrow> Ok c w)"

definition free_ctl :: "nat option \<Rightarrow> (unit, 'k, 'c, 'z) vnc" where
  "free_ctl p w = (case p of None \<Rightarrow> Ok () w
     | Some a \<Rightarrow> (case ctls w a of None \<Rightarrow> Fault BadFree | Some _ \<Rightarrow> Ok () (w\<lparr>ctls := (ctls w)(a := None)\<rparr>)))"

section \<open>Server objects\<close>

definition server_new :: "'c \<Rightarrow> nat option \<Rightarrow> (nat, 'k, 'c, 'z) vnc" where
  "server_new z dest =
     nc_bind (calloc_srv dest) (\<lambda>s.
     nc_bind (calloc_ctl z) (\<lambda>c. nc_bind (upd_srv s (\<lambda>v. v\<lparr>sv_controller := Some c\<rparr>)) (\<lambda>_.
     nc_bind (str_new None) (\<lambda>uid. nc_bind (upd_srv s (\<lambda>v. v\<lparr>sv_uid := Some uid\<rparr>)) (\<lambda>_.
     nc_bind (str_new None) (\<lambda>gid. nc_bind (upd_srv s (\<lambda>v. v\<lparr>sv_gid := Some gid\<rparr>)) (\<lambda>_.
     nc_bind (str_new None) (\<lambda>service. nc_bind (upd_srv s (\<lambda>v. v\<lparr>sv_service := Some service\<rparr>)) (\<lambda>_.
     nc_bind (str_new None) (\<lambda>address. nc_bind (upd_srv s (\<lambda>v. v\<lparr>sv_address := Some address\<rparr>)) (\<lambda>_.
     nc_bind (socket_new None) (\<lambda>sock. nc_bind (upd_srv s (\<lambda>v. v\<lparr>sv_sock := Some sock\<rparr>)) (\<lambda>_.
     nc_bind (str_cpy uid (CLit ''nobody'')) (\<lambda>_.
     nc_bind (str_cpy gid (CLit ''nogroup'')) (\<lambda>_.
     nc_bind (str_cpy service (CLit ''undef-proto'')) (\<lambda>_.
     nc_bind (upd_srv s (\<lambda>v. v\<lparr>sv_port := -1, sv_mode := 432, sv_family := PF_INET, sv_timeout := 5 * 60\<rparr>)) (\<lambda>_.
     nc_return s)))))))))))))))))"

definition srv_destroy_field ::
    "nat \<Rightarrow> (server_t \<Rightarrow> nat option) \<Rightarrow> ((nat option \<Rightarrow> nat option) \<Rightarrow> server_t \<Rightarrow> server_t)
      \<Rightarrow> (nat option \<Rightarrow> (unit, 'k, 'c, 'z) vnc) \<Rightarrow> (unit, 'k, 'c, 'z) vnc" where
  "srv_destroy_field s field field_update des =
     nc_bind (get_srv s) (\<lambda>v. nc_bind (des (field v)) (\<lambda>_. upd_srv s (field_update (\<lambda>_. None))))"

text \<open>The pointer is not tested.\<close>

definition server_destroy :: "nat option \<Rightarrow> (unit, 'k, 'c, 'z) vnc" where
  "server_destroy srv =
     nc_bind (deref srv) (\<lambda>s.
     nc_bind (srv_destroy_field s sv_uid sv_uid_update str_destroy) (\<lambda>_.
     nc_bind (srv_destroy_field s sv_gid sv_gid_update str_destroy) (\<lambda>_.
     nc_bind (srv_destroy_field s sv_service sv_service_update str_destroy) (\<lambda>_.
     nc_bind (srv_destroy_field s sv_address sv_address_update str_destroy) (\<lambda>_.
     nc_bind (srv_destroy_field s sv_sock sv_sock_update socket_destroy) (\<lambda>_.
     nc_bind (get_srv s) (\<lambda>v. nc_bind (free_ctl (sv_controller v)) (\<lambda>_. free_srv s))))))))"

definition server_socket :: "'k os \<Rightarrow> nat \<Rightarrow> (unit, 'k, 'c, 'z) vnc" where
  "server_socket os srv =
     nc_bind (get_srv srv) (\<lambda>v.
     nc_bind (deref (sv_sock v)) (\<lambda>k.
     nc_bind (socket_set_family k (sv_family v)) (\<lambda>_.
     nc_when (sv_family v = PF_LOCAL)
       (nc_bind (deref (sv_uid v)) (\<lambda>u. nc_bind (deref (sv_gid v)) (\<lambda>g.
        socket_set_credentials os k u g (sv_mode v)))))))"

text \<open>The strings are printed to the log, and have to be there.\<close>

definition server_dump :: "nat \<Rightarrow> (unit, 'k, 'c, 'z) vnc" where
  "server_dump srv =
     nc_bind (get_srv srv) (\<lambda>v.
     nc_bind (deref (sv_uid v)) (\<lambda>u. nc_bind (get_str u) (\<lambda>_.
     nc_bind (deref (sv_gid v)) (\<lambda>g. nc_bind (get_str g) (\<lambda>_.
     nc_bind (deref (sv_service v)) (\<lambda>s. nc_bind (get_str s) (\<lambda>_.
     nc_bind (deref (sv_address v)) (\<lambda>a. nc_bind (get_str a) (\<lambda>_. nc_return ())))))))))"

section \<open>Privileges\<close>

text \<open>The destructors of the automatic variables\<close>

definition drop_exit :: "nat \<Rightarrow> nat \<Rightarrow> nat \<Rightarrow> (unit, 'z) nc" where
  "drop_exit buf path regex =
     nc_bind (str_destroy (Some buf)) (\<lambda>_. nc_bind (str_destroy (Some path)) (\<lambda>_. str_destroy (Some regex)))"

definition init_dns :: "'k net \<Rightarrow> (unit, 'k, 'c, 'z) vnc" where
  "init_dns net w = nc_bind (dns_library_init net (DNS_LIB_INIT w)) (\<lambda>flag w. Ok () (w\<lparr>DNS_LIB_INIT := flag\<rparr>)) w"

text \<open>The calls that change the process, once the identifiers are known\<close>

definition change_ids :: "'k os \<Rightarrow> 'k kcalls \<Rightarrow> nat \<Rightarrow> nat \<Rightarrow> nat \<Rightarrow> nat \<Rightarrow> nat \<Rightarrow> nat \<Rightarrow> (unit, 'k, 'c, 'z) vnc" where
  "change_ids os kc gid uid chrootdir buf path regex =
     nc_bind (cread (CVal chrootdir 0)) (\<lambda>d.
     nc_bind (sys_try (sys_chdir kc d)) (\<lambda>_.
     nc_bind (sys_try (sys_chroot kc d)) (\<lambda>_.
     nc_bind (str_sprintf regex ''^%s'' [PStr (CVal chrootdir 0)]) (\<lambda>_.
     nc_bind (syscall (sys_setgid kc gid)) (\<lambda>r. case r of
       Inl e \<Rightarrow> nc_bind (drop_exit buf path regex) (\<lambda>_. nc_throw)
     | Inr _ \<Rightarrow>
     nc_bind (syscall (sys_setuid kc uid)) (\<lambda>r. case r of
       Inl e \<Rightarrow> nc_bind (drop_exit buf path regex) (\<lambda>_. nc_throw)
     | Inr _ \<Rightarrow>
     nc_bind (str_cpy buf (CLit ''root'')) (\<lambda>_.
     nc_bind (passwd_exists os buf) (\<lambda>match.
     if \<not> match then nc_throw else drop_exit buf path regex))))))))"

text \<open>Whether the user exists is tested with the name of the group.\<close>

definition drop_privileges ::
    "'k os \<Rightarrow> 'k net \<Rightarrow> 'k pthread \<Rightarrow> 'k kcalls \<Rightarrow> nat \<Rightarrow> nat \<Rightarrow> nat \<Rightarrow> (unit, 'k, 'c, 'z) vnc" where
  "drop_privileges os net th kc uid_str gid_str chrootdir =
     nc_bind (str_new None) (\<lambda>buf. nc_bind (str_new None) (\<lambda>path. nc_bind (str_new None) (\<lambda>regex w.
     if 0 < getuid kc (kern w) then drop_exit buf path regex w
     else nc_bind (init_dns net) (\<lambda>_.
       nc_bind (thread_library_init th) (\<lambda>_.
       nc_bind (group_exists os gid_str) (\<lambda>match.
       if \<not> match then nc_throw
       else nc_bind (group_get_id_by_name os gid_str) (\<lambda>gid.
         nc_bind (passwd_exists os gid_str) (\<lambda>match.
         if \<not> match then nc_throw
         else nc_bind (passwd_get_id_by_name os uid_str) (\<lambda>uid.
           change_ids os kc gid uid chrootdir buf path regex)))))) w)))"

section \<open>Accepting connections\<close>

text \<open>
  The block behind the label \<^verbatim>\<open>catch\<close> is not reached: every \<^verbatim>\<open>throw\<close> returns at once. \<open>n\<close> bounds the calls of accept(2)
  that are interrupted by signals.
\<close>

definition server_accept ::
    "'k os \<Rightarrow> 'k kcalls \<Rightarrow> 'k pthread \<Rightarrow> ('c, ('k, 'c, 'z) server_heap_scheme) app \<Rightarrow> nat \<Rightarrow> nat \<Rightarrow> (unit, 'k, 'c, 'z) vnc" where
  "server_accept os kc th app n srv w =
     nc_bind (session_new (sys_time kc (kern w)) None) (\<lambda>s.
     nc_bind (get_srv srv) (\<lambda>v.
     nc_bind (upd_sess s (\<lambda>t. t\<lparr>ss_controller_handle := sv_controller_handle v\<rparr>)) (\<lambda>_.
     nc_bind (session_controller_invoke app s SESSION_INIT ANull) (\<lambda>_.
     nc_bind (session_accept os n s srv) (\<lambda>_.
     nc_bind (get_sess s) (\<lambda>t. nc_bind (deref (ss_sock t)) (\<lambda>k. nc_bind (get_sock k) (\<lambda>so.
     if MAX_CLIENT_COUNT \<le> so_fd so then nc_throw
     else if so_fd so < 0 then nc_throw
     else nc_catch (thread_create_detached th Session_handler (Some s)) nc_return (\<lambda>_.
       nc_bind (session_controller_invoke app s SESSION_OVERLOAD ANull) (\<lambda>_.
       nc_bind (nc_catch (session_close os s) nc_return (\<lambda>_. nc_return ())) (\<lambda>_.
       session_destroy app s))))))))))) w"

section \<open>Setting up several servers\<close>

record pollfd =
  pf_fd :: int
  pf_events :: nat
  pf_revents :: nat

definition POLLIN :: nat where "POLLIN = 1"
definition POLLERR :: nat where "POLLERR = 8"
definition POLLHUP :: nat where "POLLHUP = 16"
definition POLLNVAL :: nat where "POLLNVAL = 32"

text \<open>
  The local variables of \<^verbatim>\<open>server_multiplex\<close>: the entries of the two arrays that are initialised, the handle that was
  registered last, and \<^verbatim>\<open>item\<close>.
\<close>

record mux =
  m_pfd :: "pollfd list"
  m_handler :: "nat list"
  m_handle :: "nat option"
  m_item :: "nat option"

text \<open>\<^verbatim>\<open>constructor[i](srv) < 0\<close>; a positive result is ignored.\<close>

definition call_constructor :: "(nat \<Rightarrow> (unit, 'k, 'c, 'z) vnc) \<Rightarrow> nat \<Rightarrow> (unit, 'k, 'c, 'z) vnc" where
  "call_constructor f srv = nc_catch (f srv) nc_return (\<lambda>rc. if rc < 0 then nc_throw else nc_return ())"

text \<open>
  The body of the inner loop, for the list entry \<open>cur\<close>: the new values of the variables, and whether the loop goes on.
  \<open>cap\<close> is the length of the arrays.
\<close>

definition mux_server ::
    "'k os \<Rightarrow> 'c \<Rightarrow> nat \<Rightarrow> nat \<Rightarrow> (nat \<Rightarrow> (unit, 'k, 'c, 'z) vnc) \<Rightarrow> nat \<Rightarrow> mux \<Rightarrow> (mux \<times> bool, 'k, 'c, 'z) vnc" where
  "mux_server os z cap bind_addr f cur m =
     nc_bind (get_ent cur) (\<lambda>e.
     nc_bind (server_new z None) (\<lambda>srv.
     nc_bind (call_constructor f srv) (\<lambda>_.
     nc_bind (server_socket os srv) (\<lambda>_.
     nc_bind (get_list bind_addr) (\<lambda>l.
     nc_bind (if l_head l = Some cur
       then nc_bind (get_srv srv) (\<lambda>v. nc_bind (deref (sv_controller v)) (\<lambda>c. nc_bind (get_ctl c) (\<lambda>ctl.
         nc_bind (session_controller_register ctl) (\<lambda>h. nc_return (Some h)))))
       else nc_return (m_handle m)) (\<lambda>handle.
     case handle of None \<Rightarrow> nc_fault Uninit | Some h \<Rightarrow>
     nc_bind (upd_srv srv (\<lambda>v. v\<lparr>sv_controller_handle := h\<rparr>)) (\<lambda>_.
     nc_bind (get_srv srv) (\<lambda>v.
     nc_bind (nc_when (sv_family v \<noteq> PF_LOCAL)
       (nc_bind (deref (sv_address v)) (\<lambda>a. nc_bind (deref (e_value e)) (\<lambda>item. str_copy a item)))) (\<lambda>_.
     nc_bind (deref (sv_sock v)) (\<lambda>k. nc_bind (deref (sv_address v)) (\<lambda>a.
     nc_bind (nc_catch (socket_bind os k a (sv_port v)) nc_return (\<lambda>_. nc_throw)) (\<lambda>_.
     nc_bind (get_sock k) (\<lambda>so.
     if cap \<le> length (m_pfd m) then nc_fault OutOfBounds
     else nc_return (\<lparr>m_pfd = m_pfd m @ [\<lparr>pf_fd = so_fd so, pf_events = POLLIN, pf_revents = 0\<rparr>],
         m_handler = m_handler m @ [srv], m_handle = Some h, m_item = e_value e\<rparr>,
       sv_family v \<noteq> PF_LOCAL))))))))))))))"

primrec mux_setup ::
    "'k os \<Rightarrow> 'c \<Rightarrow> nat \<Rightarrow> nat \<Rightarrow> (nat \<Rightarrow> (unit, 'k, 'c, 'z) vnc) list \<Rightarrow> mux \<Rightarrow> (mux, 'k, 'c, 'z) vnc" where
  "mux_setup os z cap bind_addr [] m = nc_return m"
| "mux_setup os z cap bind_addr (f # fs) m =
     nc_bind (for_each bind_addr (mux_server os z cap bind_addr f) m) (\<lambda>m'. mux_setup os z cap bind_addr fs m')"

section \<open>Waiting for connections\<close>

text \<open>
  Entry \<open>n\<close> of the array that poll(2) filled. The array has \<open>cap\<close> entries, of which the first ones are initialised.
\<close>

definition get_pollfd :: "nat \<Rightarrow> pollfd list \<Rightarrow> nat \<Rightarrow> 'w \<Rightarrow> (pollfd, 'w) outcome" where
  "get_pollfd cap pfd n = (if n < length pfd then nc_return (pfd ! n)
     else if n < cap then nc_fault Uninit else nc_fault OutOfBounds)"

text \<open>
  The loop over the array, from entry \<open>n\<close> on and with \<open>j\<close> connections accepted so far of the \<open>i\<close> that are ready. The test
  \<^verbatim>\<open>n <= pfd_count\<close> allows for \<open>Suc (length pfd)\<close> rounds; the first argument counts those that are left.
\<close>

primrec poll_scan ::
    "nat \<Rightarrow> (nat \<Rightarrow> (unit, 'k, 'c, 'z) vnc) \<Rightarrow> nat \<Rightarrow> pollfd list \<Rightarrow> nat list \<Rightarrow> nat \<Rightarrow> nat \<Rightarrow> nat \<Rightarrow> (nat, 'k, 'c, 'z) vnc" where
  "poll_scan 0 accept cap pfd handler i n j = nc_return j"
| "poll_scan (Suc k) accept cap pfd handler i n j =
     (if i \<le> j then nc_return j
      else nc_bind (get_pollfd cap pfd n) (\<lambda>p.
        if pf_revents p AND POLLIN \<noteq> 0
        then nc_bind (nc_catch (accept (handler ! n)) nc_return (\<lambda>_. nc_return ())) (\<lambda>_.
          poll_scan k accept cap pfd handler i (Suc n) (Suc j))
        else nc_bind (nc_when (pf_revents p AND POLLERR \<noteq> 0 \<or> pf_revents p AND POLLHUP \<noteq> 0 \<or> pf_revents p AND POLLNVAL \<noteq> 0)
            (server_dump (handler ! n))) (\<lambda>_.
          poll_scan k accept cap pfd handler i (Suc n) j)))"

text \<open>One round of the endless loop; the result is the array with the new events.\<close>

definition poll_round ::
    "'k kcalls \<Rightarrow> (nat \<Rightarrow> (unit, 'k, 'c, 'z) vnc) \<Rightarrow> nat \<Rightarrow> nat option \<Rightarrow> nat list \<Rightarrow> pollfd list \<Rightarrow> (pollfd list, 'k, 'c, 'z) vnc" where
  "poll_round kc accept cap item handler pfd =
     nc_bind (syscall (sys_poll kc (map pf_fd pfd))) (\<lambda>r. case r of
       Inl e \<Rightarrow> if e = EINTR then nc_return pfd else nc_bind (str_destroy item) (\<lambda>_. nc_throw)
     | Inr (i, ev) \<Rightarrow>
         let pfd' = map (\<lambda>n. (pfd ! n)\<lparr>pf_revents := ev n\<rparr>) [0..<length pfd] in
         nc_bind (poll_scan (Suc (length pfd)) accept cap pfd' handler i 0 0) (\<lambda>j.
         if j < i then nc_throw else nc_return pfd'))"

text \<open>The endless loop, for at most \<open>m\<close> rounds\<close>

primrec serve_loop ::
    "nat \<Rightarrow> 'k kcalls \<Rightarrow> (nat \<Rightarrow> (unit, 'k, 'c, 'z) vnc) \<Rightarrow> nat \<Rightarrow> nat option \<Rightarrow> nat list \<Rightarrow> pollfd list \<Rightarrow> (unit, 'k, 'c, 'z) vnc" where
  "serve_loop 0 kc accept cap item handler pfd = nc_fault Diverge"
| "serve_loop (Suc m) kc accept cap item handler pfd =
     nc_bind (poll_round kc accept cap item handler pfd) (\<lambda>pfd'. serve_loop m kc accept cap item handler pfd')"

definition server_multiplex ::
    "'k os \<Rightarrow> 'k net \<Rightarrow> 'k kcalls \<Rightarrow> 'k pthread \<Rightarrow> ('c, ('k, 'c, 'z) server_heap_scheme) app \<Rightarrow> 'c \<Rightarrow> nat \<Rightarrow> nat
      \<Rightarrow> nat \<Rightarrow> (nat \<Rightarrow> (unit, 'k, 'c, 'z) vnc) list \<Rightarrow> (unit, 'k, 'c, 'z) vnc" where
  "server_multiplex os net kc th app z n m bind_addr constructor =
     nc_bind (str_new None) (\<lambda>item.
     nc_bind (get_list bind_addr) (\<lambda>l.
     nc_bind (nc_when (l_count l = 0) (host_get_ifaddrs net bind_addr AF_INET)) (\<lambda>_.
     nc_bind (get_list bind_addr) (\<lambda>l.
     let cap = l_count l * length constructor in
     nc_bind (malloc (cap * SIZEOF_POLLFD)) (\<lambda>p. if p = Null then nc_throw else
     nc_bind (malloc (cap * SIZEOF_SERVER_T)) (\<lambda>h. if h = Null then nc_throw else
     nc_bind (mux_setup os z cap bind_addr constructor
       \<lparr>m_pfd = [], m_handler = [], m_handle = None, m_item = Some item\<rparr>) (\<lambda>x.
     serve_loop m kc (server_accept os kc th app n) cap (m_item x) (m_handler x) (m_pfd x))))))))"

end
