(* ===== verification/NC_Server_Laws.thy ===== *)
theory NC_Server_Laws
  imports NC_Server NC_Net_Laws
begin

unbundle bit_operations_syntax

text \<open>
  What the server component does: the order in which the process gives up its privileges, the life of a server object, and the
  connections that a round of the server loop accepts.
\<close>

section \<open>Users and groups\<close>

text \<open>The identifier of a group and of a user, as the library sees the databases\<close>

definition group_id :: "'k os \<Rightarrow> string \<Rightarrow> 'k \<Rightarrow> nat option \<times> 'k" where
  "group_id os g k = (if g = ''root'' \<or> g = ''wheel'' then (Some 0, k)
     else case getgrnam os g k of (Inl e, k') \<Rightarrow> (None, k') | (Inr r, k') \<Rightarrow> (r, k'))"

definition user_id :: "'k os \<Rightarrow> string \<Rightarrow> 'k \<Rightarrow> nat option \<times> 'k" where
  "user_id os u k = (case getpwnam os u k of (Inl e, k') \<Rightarrow> (None, k') | (Inr r, k') \<Rightarrow> (r, k'))"

definition answer :: "nat option \<times> 'k \<Rightarrow> ('k, 'z) sys_heap_scheme \<Rightarrow> (nat, ('k, 'z) sys_heap_scheme) outcome" where
  "answer r w = (case r of (None, k) \<Rightarrow> Fail (-1) (w\<lparr>kern := k\<rparr>) | (Some n, k) \<Rightarrow> Ok n (w\<lparr>kern := k\<rparr>))"

lemma passwd_get_id_by_name_eval:
  fixes w :: "('k, 'z) sys_heap_scheme"
  assumes "str_has w s u" "NUL \<notin> set u"
  shows "passwd_get_id_by_name os s w = answer (user_id os u (kern w)) w"
  using cread_str_has [OF assms]
  by (cases "getpwnam os u (kern w)")
    (auto simp: passwd_get_id_by_name_def user_id_def answer_def nc_simps sys_query_def syscall_def split: sum.split option.split)

lemma passwd_exists_eval:
  fixes w :: "('k, 'z) sys_heap_scheme"
  assumes "str_has w s u" "NUL \<notin> set u"
  shows "passwd_exists os s w = (case user_id os u (kern w) of (r, k) \<Rightarrow> Ok (r \<noteq> None) (w\<lparr>kern := k\<rparr>))"
  using passwd_get_id_by_name_eval [OF assms, of os]
  by (cases "user_id os u (kern w)") (auto simp: passwd_exists_def nc_catch_def answer_def nc_return_def split: option.split)

lemma group_get_id_by_name_eval:
  fixes w :: "('k, 'z) sys_heap_scheme"
  assumes "str_has w s g" "NUL \<notin> set g"
  shows "group_get_id_by_name os s w = answer (group_id os g (kern w)) w"
proof -
  have c: "str_cmp s (CLit x) w = (if g = x then Ok () w else Fail (strcmp g x) w)" if "NUL \<notin> set x" for x
    using str_cmp_eval [of w s g "CLit x" x] assms that by (simp add: cread_def nc_simps cstr_terminated)
  show ?thesis
    using c [of "''root''"] c [of "''wheel''"] cread_str_has [OF assms]
    by (cases "getgrnam os g (kern w)")
      (auto simp: group_get_id_by_name_def group_get_gev_def group_id_def answer_def nc_simps sys_query_def syscall_def
        split: sum.split option.split)
qed

lemma group_exists_eval:
  fixes w :: "('k, 'z) sys_heap_scheme"
  assumes "str_has w s g" "NUL \<notin> set g"
  shows "group_exists os s w = (case group_id os g (kern w) of (r, k) \<Rightarrow> Ok (r \<noteq> None) (w\<lparr>kern := k\<rparr>))"
  using group_get_id_by_name_eval [OF assms, of os]
  by (cases "group_id os g (kern w)") (auto simp: group_exists_def nc_catch_def answer_def nc_return_def split: option.split)

section \<open>Dropping privileges\<close>

text \<open>
  The calls of the system, in their order, that turn the state \<open>k\<close> of the system into \<open>k'\<close> when the process gives up its
  privileges: the identifiers are looked up (the group twice, and its name among the users), then the root directory, the
  group and the user are changed, and the user database is tested.
\<close>

definition dropped :: "'k os \<Rightarrow> 'k kcalls \<Rightarrow> string \<Rightarrow> string \<Rightarrow> string \<Rightarrow> 'k \<Rightarrow> 'k \<Rightarrow> bool" where
  "dropped os kc u g dir k k' \<longleftrightarrow> (\<exists>x y z gid uid k1 k2 k3 k4 k5 k6 k7 k8.
     group_id os g k = (Some x, k1) \<and> group_id os g k1 = (Some gid, k2) \<and> user_id os g k2 = (Some y, k3) \<and>
     user_id os u k3 = (Some uid, k4) \<and> sys_chdir kc dir k4 = (Inr (), k5) \<and> sys_chroot kc dir k5 = (Inr (), k6) \<and>
     sys_setgid kc gid k6 = (Inr (), k7) \<and> sys_setuid kc uid k7 = (Inr (), k8) \<and> user_id os ''root'' k8 = (Some z, k'))"

text \<open>The second half: the identifiers are known.\<close>

definition changed :: "'k os \<Rightarrow> 'k kcalls \<Rightarrow> nat \<Rightarrow> nat \<Rightarrow> string \<Rightarrow> 'k \<Rightarrow> 'k \<Rightarrow> bool" where
  "changed os kc gid uid dir k k' \<longleftrightarrow> (\<exists>z k5 k6 k7 k8.
     sys_chdir kc dir k = (Inr (), k5) \<and> sys_chroot kc dir k5 = (Inr (), k6) \<and>
     sys_setgid kc gid k6 = (Inr (), k7) \<and> sys_setuid kc uid k7 = (Inr (), k8) \<and> user_id os ''root'' k8 = (Some z, k'))"

lemma drop_exit_ok:
  assumes "str_has w a xs" "str_has w b ys" "str_has w c zs" "distinct [a, b, c]"
  shows "\<exists>S. drop_exit a b c w = Ok () (w\<lparr>strs := S\<rparr>)"
proof -
  let ?w1 = "w\<lparr>strs := (strs w)(a := None)\<rparr>"
  let ?w2 = "?w1\<lparr>strs := (strs ?w1)(b := None)\<rparr>"
  have "str_has ?w1 b ys" "str_has ?w2 c zs" using assms by (simp_all add: str_has_def)
  then show ?thesis using str_destroy_ok [OF assms(1)] str_destroy_ok [of ?w1 b ys] str_destroy_ok [of ?w2 c zs]
    by (intro exI [of _ "(strs w)(a := None, b := None, c := None)"]) (simp add: drop_exit_def nc_bind_def)
qed

lemma change_ids_ends:
  fixes w :: "('k, 'c, 'z) server_heap_scheme"
  assumes "str_has w d dir" "NUL \<notin> set dir" "length dir + 1 < STRING_MAX" "str_has w a xs" "str_has w b ys" "str_has w c zs"
    "distinct [a, b, c, d]" "mem_ok w" "wf_lh w"
  shows "ends (change_ids os kc gid uid d a b c w) (\<lambda>_ w'. changed os kc gid uid dir (kern w) (kern w')) (\<lambda>_. True)"
proof -
  let ?re = "''^'' @ dir"
  have s: "\<exists>w'. str_sprintf c ''^%s'' [PStr (CVal d 0)] v = Ok () w' \<and> str_upd v c ?re w'"
    if "str_has v c zs" "str_has v d dir" "mem_ok v" for v :: "('k, 'c, 'z) server_heap_scheme"
  proof (rule str_sprintf_ok [OF that(1) _ _ _ that(3)])
    show "vformat ''^%s'' [PStr (CVal d 0)] v' = Ok ?re v'" if "mod_strs {c} v v'" for v'
      using mod_strs_cread [OF that \<open>str_has v d dir\<close> _ assms(2)] assms(7) by (simp add: nc_simps)
  qed (use assms(2,3) in simp_all)
  have r: "cread (CVal d 0) w = Ok dir w" by (rule cread_str_has [OF assms(1,2)])
  obtain r5 k5 where k5: "sys_chdir kc dir (kern w) = (r5, k5)" by fastforce
  obtain r6 k6 where k6: "sys_chroot kc dir k5 = (r6, k6)" by fastforce
  obtain r7 k7 where k7: "sys_setgid kc gid k6 = (r7, k7)" by fastforce
  obtain r8 k8 where k8: "sys_setuid kc uid k7 = (r8, k8)" by fastforce
  obtain z k where k: "user_id os ''root'' k8 = (z, k)" by fastforce
  let ?w6 = "w\<lparr>kern := k6\<rparr>"
  obtain w7 where w7: "str_sprintf c ''^%s'' [PStr (CVal d 0)] ?w6 = Ok () w7" "str_upd ?w6 c ?re w7"
    using s [of ?w6] assms(1,6,8) by auto
  have h6: "str_has ?w6 c zs" "wf_lh ?w6" using assms(6,9) by simp_all
  note u7 = str_upd_lh [OF w7(2) h6]
  have h7: "str_has w7 a xs" "str_has w7 b ys" "str_has w7 c ?re" "mem_ok w7" "kern w7 = k6"
    using mod_lh_has [OF u7(1), of a xs] mod_lh_has [OF u7(1), of b ys] mod_lh_kern [OF u7(1)] u7(3,4) assms(4,5,7,8) by auto
  have "\<exists>v. drop_exit a b c (w7\<lparr>kern := k\<rparr>) = Ok () v" for k
    using drop_exit_ok [of "w7\<lparr>kern := k\<rparr>" a xs b ys c ?re] h7 assms(7) by auto
  then obtain D where d7: "\<And>k. drop_exit a b c (w7\<lparr>kern := k\<rparr>) = Ok () (D k)" by metis
  let ?w8 = "w7\<lparr>kern := k8\<rparr>"
  have cr: "cread (CLit ''root'') ?w8 = Ok ''root'' ?w8" by (simp add: cread_def nc_simps)
  obtain w9 where w9: "str_cpy a (CLit ''root'') ?w8 = Ok () w9" "str_upd ?w8 a ''root'' w9"
    using str_cpy_ok [of ?w8 a xs "CLit ''root''" "''root''"] h7(1,4) cr by (auto simp: STRING_MAX_def)
  have h8: "str_has ?w8 a xs" "wf_lh ?w8" using h7(1) u7(2) by simp_all
  note u9 = str_upd_lh [OF w9(2) h8]
  have h9: "str_has w9 b ys" "str_has w9 c ?re" "kern w9 = k8"
    using mod_lh_has [OF u9(1), of b ys] mod_lh_has [OF u9(1), of c ?re] mod_lh_kern [OF u9(1)] h7 assms(7) by auto
  have x: "passwd_exists os a w9 = Ok (z \<noteq> None) (w9\<lparr>kern := k\<rparr>)"
    using passwd_exists_eval [OF u9(3), of os] h9(3) k by simp
  obtain S where S: "drop_exit a b c (w9\<lparr>kern := k\<rparr>) = Ok () (w9\<lparr>kern := k, strs := S\<rparr>)"
    using drop_exit_ok [of "w9\<lparr>kern := k\<rparr>" a "''root''" b ys c ?re] h9 u9(3) assms(7) by auto
  have ch: "changed os kc gid uid dir (kern w) k" if "r5 = Inr ()" "r6 = Inr ()" "r7 = Inr ()" "r8 = Inr ()" "z \<noteq> None"
    using that k5 k6 k7 k8 k unfolding changed_def by blast
  show ?thesis
    using r k5 k6 k7 k8 w7(1) h7(5) w9(1) x S ch d7
    by (auto simp: change_ids_def nc_bind_def sys_try_def syscall_def nc_throw_def nc_return_def split: sum.split)
qed

text \<open>Starting the thread library only touches its own state and that of the system.\<close>

lemma thread_library_init_ends:
  fixes w :: "('k, 'c, 'z) thread_heap_scheme"
  shows "ends (thread_library_init th w) (\<lambda>_ w'. strs w' = strs w \<and> ents w' = ents w \<and> lists w' = lists w \<and> brk w' = brk w \<and>
    malloc_ok w' = malloc_ok w) (\<lambda>_. True)"
  by (auto simp: thread_library_init_def set_attr_def start_thread_def nc_simps syscall_def split: option.split prod.split sum.split)

lemma new_only_DNS [simp]:
  fixes w :: "('k, 'c, 'z) server_heap_scheme"
  shows "new_only w (w'\<lparr>DNS_LIB_INIT := f\<rparr>) = new_only w w'"
  by (simp add: new_only_def mod_mem_def wf_lh_def wf_strs_def)

lemma init_dns_ends:
  fixes w :: "('k, 'c, 'z) server_heap_scheme"
  assumes "net_laws net" "mem_ok w" "wf_lh w"
  shows "ends (init_dns net w) (\<lambda>_ w'. new_only w w') (\<lambda>_. True)"
  using dns_library_init_ends [OF assms, of "DNS_LIB_INIT w"]
  by (cases "dns_library_init net (DNS_LIB_INIT w) w") (auto simp: init_dns_def nc_bind_def)

lemma str_new_new_only:
  assumes "mem_ok w" "wf_lh w"
  obtains w1 where "str_new None w = Ok (brk w) w1" "new_only w w1" "str_has w1 (brk w) []" "brk w < brk w1"
    "mod_lh {brk w} {} {} w w1"
proof -
  obtain w1 where w1: "str_new None w = Ok (brk w) w1" "mod_lh {brk w} {} {} w w1" "str_has w1 (brk w) []" "brk w < brk w1" "wf_lh w1"
    using str_new_lh [OF assms] by metis
  have "new_only w w1" by (rule new_only_step [OF new_only_refl [OF assms(2)] mod_lh_mem [OF w1(2)] w1(5)]) auto
  then show ?thesis using that w1 by blast
qed

lemma new_only_wf: "new_only w w' \<Longrightarrow> wf_lh w'"
  by (simp add: new_only_def)

text \<open>Three automatic strings\<close>

lemma three_strings:
  fixes w :: "'z list_heap_scheme" and B :: "nat \<Rightarrow> nat \<Rightarrow> nat \<Rightarrow> ('b, 'z) lnc"
  assumes "mem_ok w" "wf_lh w"
  obtains a b c w3 where "nc_bind (str_new None) (\<lambda>a. nc_bind (str_new None) (\<lambda>b. nc_bind (str_new None) (B a b))) w = B a b c w3"
    "new_only w w3" "str_has w3 a []" "str_has w3 b []" "str_has w3 c []" "brk w \<le> a" "a < b" "b < c" "mod_lh {a, b, c} {} {} w w3"
proof -
  obtain w1 where w1: "str_new None w = Ok (brk w) w1" "new_only w w1" "str_has w1 (brk w) []" "brk w < brk w1"
      "mod_lh {brk w} {} {} w w1"
    using str_new_new_only [OF assms] .
  have i1: "mem_ok w1" "wf_lh w1" using new_only_ok [OF w1(2)] new_only_wf [OF w1(2)] assms(1) by simp_all
  obtain w2 where w2: "str_new None w1 = Ok (brk w1) w2" "new_only w1 w2" "str_has w2 (brk w1) []" "brk w1 < brk w2"
      "mod_lh {brk w1} {} {} w1 w2"
    using str_new_new_only [OF i1] .
  have i2: "mem_ok w2" "wf_lh w2" using new_only_ok [OF w2(2)] new_only_wf [OF w2(2)] i1(1) by simp_all
  obtain w3 where w3: "str_new None w2 = Ok (brk w2) w3" "new_only w2 w3" "str_has w3 (brk w2) []" "brk w2 < brk w3"
      "mod_lh {brk w2} {} {} w2 w3"
    using str_new_new_only [OF i2] .
  have "str_has w3 (brk w) []" "str_has w3 (brk w1) []"
    using new_only_has [OF w2(2) w1(4)] new_only_has [OF w3(2), of "brk w"] new_only_has [OF w3(2) w2(4)] w1(3,4) w2(3,4) by auto
  moreover have "mod_lh {brk w, brk w1, brk w2} {} {} w w3"
    using mod_lh_trans [OF w1(5) mod_lh_trans [OF w2(5) w3(5)]] by (simp add: insert_commute)
  ultimately show ?thesis
    using that [of "brk w" "brk w1" "brk w2" w3] w1 w2 w3 new_only_trans [OF w1(2) new_only_trans [OF w2(2) w3(2)]]
    by (simp add: nc_bind_def)
qed

text \<open>The body of \<^verbatim>\<open>drop_privileges\<close> for a process of the administrator\<close>

definition drop_root ::
    "'k os \<Rightarrow> 'k net \<Rightarrow> 'k pthread \<Rightarrow> 'k kcalls \<Rightarrow> nat \<Rightarrow> nat \<Rightarrow> nat \<Rightarrow> nat \<Rightarrow> nat \<Rightarrow> nat \<Rightarrow> (unit, 'k, 'c, 'z) vnc" where
  "drop_root os net th kc uid_str gid_str chrootdir buf path regex =
     nc_bind (init_dns net) (\<lambda>_.
     nc_bind (thread_library_init th) (\<lambda>_.
     nc_bind (group_exists os gid_str) (\<lambda>match.
     if \<not> match then nc_throw
     else nc_bind (group_get_id_by_name os gid_str) (\<lambda>gid.
       nc_bind (passwd_exists os gid_str) (\<lambda>match.
       if \<not> match then nc_throw
       else nc_bind (passwd_get_id_by_name os uid_str) (\<lambda>uid.
         change_ids os kc gid uid chrootdir buf path regex))))))"

lemma drop_ids_ends:
  fixes w :: "('k, 'c, 'z) server_heap_scheme"
  assumes "str_has w us u" "str_has w gs g" "str_has w d dir" "NUL \<notin> set u" "NUL \<notin> set g" "NUL \<notin> set dir"
    "length dir + 1 < STRING_MAX" "str_has w a xs" "str_has w b ys" "str_has w c zs" "distinct [a, b, c, d]" "mem_ok w" "wf_lh w"
  shows "ends (nc_bind (group_exists os gs) (\<lambda>match. if \<not> match then nc_throw
     else nc_bind (group_get_id_by_name os gs) (\<lambda>gid. nc_bind (passwd_exists os gs) (\<lambda>match. if \<not> match then nc_throw
       else nc_bind (passwd_get_id_by_name os us) (\<lambda>uid. change_ids os kc gid uid d a b c)))) w)
    (\<lambda>_ w'. dropped os kc u g dir (kern w) (kern w')) (\<lambda>_. True)"
proof -
  obtain x k1 where k1: "group_id os g (kern w) = (x, k1)" by fastforce
  obtain gid k2 where k2: "group_id os g k1 = (gid, k2)" by fastforce
  obtain y k3 where k3: "user_id os g k2 = (y, k3)" by fastforce
  obtain uid k4 where k4: "user_id os u k3 = (uid, k4)" by fastforce
  have e: "group_exists os gs w = Ok (x \<noteq> None) (w\<lparr>kern := k1\<rparr>)" using group_exists_eval [OF assms(2,5), of os] k1 by simp
  have f: "group_get_id_by_name os gs (w\<lparr>kern := k1\<rparr>) = answer (gid, k2) (w\<lparr>kern := k1\<rparr>)"
    using group_get_id_by_name_eval [of "w\<lparr>kern := k1\<rparr>" gs g os] assms(2,5) k2 by simp
  have h: "passwd_exists os gs (w\<lparr>kern := k2\<rparr>) = Ok (y \<noteq> None) (w\<lparr>kern := k3\<rparr>)"
    using passwd_exists_eval [of "w\<lparr>kern := k2\<rparr>" gs g os] assms(2,5) k3 by simp
  have i: "passwd_get_id_by_name os us (w\<lparr>kern := k3\<rparr>) = answer (uid, k4) (w\<lparr>kern := k3\<rparr>)"
    using passwd_get_id_by_name_eval [of "w\<lparr>kern := k3\<rparr>" us u os] assms(1,4) k4 by simp
  have c: "ends (change_ids os kc n m d a b c (w\<lparr>kern := k4\<rparr>)) (\<lambda>_ w'. changed os kc n m dir k4 (kern w')) (\<lambda>_. True)" for n m
    using change_ids_ends [of "w\<lparr>kern := k4\<rparr>" d dir a xs b ys c zs os kc n m] assms by simp
  have "dropped os kc u g dir (kern w) k'" if "x \<noteq> None" "y \<noteq> None" "gid = Some n" "uid = Some m" "changed os kc n m dir k4 k'" for n m k'
    using that k1 k2 k3 k4 unfolding dropped_def changed_def by blast
  then show ?thesis using e f h i ends_mono [OF c]
    by (cases gid; cases uid) (auto simp: nc_bind_def nc_throw_def answer_def)
qed

lemma drop_root_ends:
  fixes w :: "('k, 'c, 'z) server_heap_scheme"
  assumes "str_has w us u" "str_has w gs g" "str_has w d dir" "NUL \<notin> set u" "NUL \<notin> set g" "NUL \<notin> set dir"
    "length dir + 1 < STRING_MAX" "str_has w a xs" "str_has w b ys" "str_has w c zs" "distinct [a, b, c, d]" "mem_ok w" "wf_lh w" "net_laws net"
  shows "ends (drop_root os net th kc us gs d a b c w) (\<lambda>_ w'. \<exists>k. dropped os kc u g dir k (kern w')) (\<lambda>_. True)"
  unfolding drop_root_def
proof (rule ends_bind [where m = "init_dns net" and w = w, OF init_dns_ends [OF assms(14,12,13)]])
  fix w1 assume n: "new_only w w1"
  have h1: "str_has w1 s x" if "str_has w s x" for s x
    using new_only_has [OF n, of s x] str_has_lt [OF _ that] that assms(13) by simp
  show "ends (nc_bind (thread_library_init th) (\<lambda>_. nc_bind (group_exists os gs) (\<lambda>match. if \<not> match then nc_throw
     else nc_bind (group_get_id_by_name os gs) (\<lambda>gid. nc_bind (passwd_exists os gs) (\<lambda>match. if \<not> match then nc_throw
       else nc_bind (passwd_get_id_by_name os us) (\<lambda>uid. change_ids os kc gid uid d a b c))))) w1)
    (\<lambda>_ w'. \<exists>k. dropped os kc u g dir k (kern w')) (\<lambda>_. True)"
  proof (rule ends_bind [where m = "thread_library_init th" and w = w1, OF thread_library_init_ends], goal_cases)
    case (1 _ w2)
    have h2: "str_has w2 s x" if "str_has w s x" for s x using h1 [OF that] 1 by (simp add: str_has_def)
    have i2: "mem_ok w2" "wf_lh w2"
      using 1 new_only_ok [OF n] new_only_wf [OF n] assms(12) by (simp_all add: mem_ok_def wf_lh_def wf_strs_def)
    show ?case
      by (rule ends_mono [OF drop_ids_ends [OF h2 [OF assms(1)] h2 [OF assms(2)] h2 [OF assms(3)] assms(4-7) h2 [OF assms(8)]
        h2 [OF assms(9)] h2 [OF assms(10)] assms(11) i2]]) auto
  qed
qed

lemma drop_privileges_ends:
  fixes w :: "('k, 'c, 'z) server_heap_scheme"
  assumes "str_has w us u" "str_has w gs g" "str_has w d dir" "NUL \<notin> set u" "NUL \<notin> set g" "NUL \<notin> set dir"
    "length dir + 1 < STRING_MAX" "mem_ok w" "wf_lh w" "net_laws net" "getuid kc (kern w) = 0"
  shows "ends (drop_privileges os net th kc us gs d w) (\<lambda>_ w'. \<exists>k. dropped os kc u g dir k (kern w')) (\<lambda>_. True)"
proof -
  define B where "B = (\<lambda>a b c v. if 0 < getuid kc (kern v) then drop_exit a b c v
    else drop_root os net th kc us gs d a b c (v :: ('k, 'c, 'z) server_heap_scheme))"
  obtain a b c w3 where w3: "nc_bind (str_new None) (\<lambda>a. nc_bind (str_new None) (\<lambda>b. nc_bind (str_new None) (B a b))) w = B a b c w3"
      "new_only w w3" "str_has w3 a []" "str_has w3 b []" "str_has w3 c []" "brk w \<le> a" "a < b" "b < c" "mod_lh {a, b, c} {} {} w w3"
    using three_strings [OF assms(8,9), of B] .
  have k3: "kern w3 = kern w" by (rule mod_lh_kern [OF w3(9)])
  have h3: "str_has w3 s x" if "str_has w s x" for s x
    using new_only_has [OF w3(2), of s x] str_has_lt [OF _ that] that assms(9) by simp
  have "d < brk w" by (rule str_has_lt [OF _ assms(3)]) (use assms(9) in simp)
  then have dis: "distinct [a, b, c, d]" using w3(6-8) by simp
  have "drop_privileges os net th kc us gs d w = nc_bind (str_new None) (\<lambda>a. nc_bind (str_new None) (\<lambda>b. nc_bind (str_new None) (B a b))) w"
    unfolding B_def drop_privileges_def drop_root_def ..
  then have "drop_privileges os net th kc us gs d w = B a b c w3" using w3(1) by (rule trans)
  moreover have "ends (drop_root os net th kc us gs d a b c w3) (\<lambda>_ w'. \<exists>k. dropped os kc u g dir k (kern w')) (\<lambda>_. True)"
    using drop_root_ends [OF h3 [OF assms(1)] h3 [OF assms(2)] h3 [OF assms(3)] assms(4-7) w3(3-5) dis _ _ assms(10)]
      new_only_ok [OF w3(2)] new_only_wf [OF w3(2)] assms(8) by simp
  ultimately show ?thesis using k3 assms(11) by (simp add: B_def)
qed

section \<open>A round of the server loop\<close>

text \<open>The connections that are accepted, one after another; a failure does not stop them.\<close>

primrec accept_all :: "(nat \<Rightarrow> (unit, 'k, 'c, 'z) vnc) \<Rightarrow> nat list \<Rightarrow> (unit, 'k, 'c, 'z) vnc" where
  "accept_all f [] = nc_return ()"
| "accept_all f (s # ss) = nc_bind (nc_catch (f s) nc_return (\<lambda>_. nc_return ())) (\<lambda>_. accept_all f ss)"

definition ready :: "pollfd \<Rightarrow> bool" where
  "ready p \<longleftrightarrow> pf_revents p AND POLLIN \<noteq> 0"

definition ready_servers :: "pollfd list \<Rightarrow> nat list \<Rightarrow> nat list" where
  "ready_servers pfd handler = map snd (filter (\<lambda>x. ready (fst x)) (zip pfd handler))"

text \<open>When every descriptor with an event has a connection, the scan accepts exactly the connections of the ready servers.\<close>

lemma bind_return: "nc_bind (nc_return a) f = f a"
  by (rule ext) (simp add: nc_simps)

lemma bind_fault: "nc_bind (nc_fault e) f = nc_fault e"
  by (rule ext) (simp add: nc_simps)

lemma poll_scan_ready:
  assumes "length pfd = length handler" "n \<le> length pfd" "\<forall>p\<in>set pfd. pf_revents p \<noteq> 0 \<longrightarrow> ready p"
    "i = j + length (filter ready (drop n pfd))" "length pfd - n < k"
  shows "poll_scan k accept cap pfd handler i n j w =
    nc_bind (accept_all accept (ready_servers (drop n pfd) (drop n handler))) (\<lambda>_. nc_return i) w"
  using assms(2,4,5)
proof (induction k arbitrary: n j w)
  case (Suc k)
  show ?case
  proof (cases "length (filter ready (drop n pfd)) = 0")
    case True
    have "ready_servers (drop n pfd) (drop n handler) = []"
    proof -
      have "\<not> ready p" if "p \<in> set (drop n pfd)" for p using that True by (auto simp: filter_empty_conv)
      then show ?thesis by (auto simp: ready_servers_def filter_empty_conv dest: set_zip_leftD)
    qed
    then show ?thesis using True Suc.prems(2) by (simp add: nc_simps)
  next
    case False
    then have n: "n < length pfd" using Suc.prems(1) by (cases "n = length pfd") auto
    have d: "drop n pfd = pfd ! n # drop (Suc n) pfd" "drop n handler = handler ! n # drop (Suc n) handler"
      using n assms(1) by (simp_all add: Cons_nth_drop_Suc)
    have i: "\<not> i \<le> j" using False Suc.prems(2) by simp
    show ?thesis
    proof (cases "ready (pfd ! n)")
      case True
      have "poll_scan k accept cap pfd handler i (Suc n) (Suc j) =
          nc_bind (accept_all accept (ready_servers (drop (Suc n) pfd) (drop (Suc n) handler))) (\<lambda>_. nc_return i)"
        by (rule ext, rule Suc.IH) (use n True d(1) Suc.prems in simp_all)
      then show ?thesis
        using True i n d by (simp add: get_pollfd_def nc_bind_assoc bind_return ready_servers_def ready_def)
    next
      case False
      then have "pf_revents (pfd ! n) = 0" using assms(3) n by auto
      moreover have "poll_scan k accept cap pfd handler i (Suc n) j =
          nc_bind (accept_all accept (ready_servers (drop (Suc n) pfd) (drop (Suc n) handler))) (\<lambda>_. nc_return i)"
        by (rule ext, rule Suc.IH) (use n False d(1) Suc.prems in simp_all)
      ultimately show ?thesis
        using False i n d by (simp add: get_pollfd_def bind_return ready_servers_def ready_def nc_when_def nc_bind_def [of "nc_when _ _"])
    qed
  qed
qed simp

text \<open>
  What a scan does that goes over the whole array: it accepts the connections of the ready servers and prints those with an error.
\<close>

definition failed :: "pollfd \<Rightarrow> bool" where
  "failed p \<longleftrightarrow> pf_revents p AND POLLERR \<noteq> 0 \<or> pf_revents p AND POLLHUP \<noteq> 0 \<or> pf_revents p AND POLLNVAL \<noteq> 0"

primrec visit_all :: "(nat \<Rightarrow> (unit, 'k, 'c, 'z) vnc) \<Rightarrow> (pollfd \<times> nat) list \<Rightarrow> (unit, 'k, 'c, 'z) vnc" where
  "visit_all f [] = nc_return ()"
| "visit_all f (x # xs) = nc_bind (if ready (fst x) then nc_catch (f (snd x)) nc_return (\<lambda>_. nc_return ())
     else nc_when (failed (fst x)) (server_dump (snd x))) (\<lambda>_. visit_all f xs)"

text \<open>With more events than connections the scan leaves the array.\<close>

lemma poll_scan_overrun:
  assumes "length pfd = length handler" "n \<le> length pfd" "j + length (filter ready (drop n pfd)) < i" "k = Suc (length pfd) - n"
  shows "poll_scan k accept (length pfd) pfd handler i n j w =
    nc_bind (visit_all accept (zip (drop n pfd) (drop n handler))) (\<lambda>_. nc_fault OutOfBounds) w"
  using assms(2-)
proof (induction k arbitrary: n j w)
  case (Suc k)
  show ?case
  proof (cases "n = length pfd")
    case True
    then show ?thesis using Suc.prems(2) by (simp add: get_pollfd_def nc_simps)
  next
    case False
    then have n: "n < length pfd" using Suc.prems(1) by simp
    have d: "drop n pfd = pfd ! n # drop (Suc n) pfd" "drop n handler = handler ! n # drop (Suc n) handler"
      using n assms(1) by (simp_all add: Cons_nth_drop_Suc)
    have i: "\<not> i \<le> j" using Suc.prems(2) by simp
    have "poll_scan k accept (length pfd) pfd handler i (Suc n) (if ready (pfd ! n) then Suc j else j) =
        nc_bind (visit_all accept (zip (drop (Suc n) pfd) (drop (Suc n) handler))) (\<lambda>_. nc_fault OutOfBounds)"
      by (rule ext, rule Suc.IH) (use n d(1) Suc.prems in \<open>simp_all split: if_splits\<close>)
    then show ?thesis using i n d
      by (cases "ready (pfd ! n)") (simp_all add: get_pollfd_def bind_return nc_bind_assoc ready_def failed_def)
  qed
qed simp

section \<open>Life of a server object\<close>

definition new_string :: string_t where "new_string = str_of fresh_buf 0"

lemma new_string_field:
  fixes w :: "('k, 'c, 'z) server_heap_scheme"
  assumes "mem_ok w" "servers w s = Some v"
  shows "nc_bind (str_new None) (\<lambda>x. nc_bind (upd_srv s (f x)) (\<lambda>_. K x)) w =
    K (brk w) (w\<lparr>strs := (strs w)(brk w \<mapsto> new_string), brk := brk w + 2, servers := (servers w)(s \<mapsto> f (brk w) v)\<rparr>)"
  using assms by (simp add: nc_bind_def str_new_eval upd_srv_def new_string_def)

definition new_socket :: "nat \<Rightarrow> socket_t" where
  "new_socket l = zero_socket\<lparr>so_read_buf := Some l, so_fd := -1, so_direction := UNKNOWN, so_family := -1,
     so_local := (so_local zero_socket)\<lparr>sa_family := 65535\<rparr>\<rparr>"

lemma new_socket_field:
  fixes w :: "('k, 'c, 'z) server_heap_scheme"
  assumes "mem_ok w" "servers w s = Some v"
  shows "nc_bind (socket_new None) (\<lambda>x. nc_bind (upd_srv s (f x)) (\<lambda>_. K x)) w =
    K (brk w) (w\<lparr>lists := (lists w)(Suc (brk w) \<mapsto> empty_list), brk := brk w + 2, socks := (socks w)(brk w \<mapsto> new_socket (Suc (brk w))),
      servers := (servers w)(s \<mapsto> f (brk w) v)\<rparr>)"
proof -
  have "socket_new None w = Ok (brk w) (w\<lparr>lists := (lists w)(Suc (brk w) \<mapsto> empty_list), brk := brk w + 2,
      socks := (socks w)(brk w \<mapsto> new_socket (Suc (brk w)))\<rparr>)"
    using assms(1) by (simp add: socket_new_def calloc_sock_def sock_run list_new_def calloc_list_def mem_ok_def new_socket_def)
      (simp add: zero_socket_def)
  then show ?thesis using assms(2) by (simp add: nc_bind_def upd_srv_def)
qed

lemma calloc_srv_bind:
  "mem_ok w \<Longrightarrow> nc_bind (calloc_srv None) K w = K (brk w) (w\<lparr>servers := (servers w)(brk w \<mapsto> zero_server), brk := Suc (brk w)\<rparr>)"
  by (simp add: calloc_srv_def nc_bind_def)

lemma calloc_ctl_bind:
  "mem_ok w \<Longrightarrow> nc_bind (calloc_ctl z) K w = K (brk w) (w\<lparr>ctls := (ctls w)(brk w \<mapsto> z), brk := Suc (brk w)\<rparr>)"
  by (simp add: calloc_ctl_def nc_bind_def)

lemma upd_srv_bind:
  "servers w s = Some v \<Longrightarrow> nc_bind (upd_srv s f) K w = K () (w\<lparr>servers := (servers w)(s \<mapsto> f v)\<rparr>)"
  by (simp add: upd_srv_def nc_bind_def)

lemma server_upd_ok [simp]:
  fixes w :: "('k, 'c, 'z) server_heap_scheme"
  shows "mem_ok (w\<lparr>servers := x\<rparr>) = mem_ok w" "mem_ok (w\<lparr>ctls := y\<rparr>) = mem_ok w" "mem_ok (w\<lparr>lists := l\<rparr>) = mem_ok w"
    "mem_ok (w\<lparr>socks := z\<rparr>) = mem_ok w"
  by (simp_all add: mem_ok_def)

text \<open>The memory after the allocations of \<^verbatim>\<open>server_new\<close>\<close>

definition alloc_server :: "nat \<Rightarrow> server_t" where
  "alloc_server s = zero_server\<lparr>sv_controller := Some (s + 1), sv_uid := Some (s + 2), sv_gid := Some (s + 4), sv_service := Some (s + 6),
     sv_address := Some (s + 8), sv_sock := Some (s + 10)\<rparr>"

definition alloc_memory :: "'c \<Rightarrow> ('k, 'c, 'z) server_heap_scheme \<Rightarrow> ('k, 'c, 'z) server_heap_scheme" where
  "alloc_memory z w = (let s = brk w in
     w\<lparr>ctls := (ctls w)(s + 1 \<mapsto> z),
       strs := (strs w)(s + 2 \<mapsto> new_string, s + 4 \<mapsto> new_string, s + 6 \<mapsto> new_string, s + 8 \<mapsto> new_string),
       lists := (lists w)(s + 11 \<mapsto> empty_list), brk := s + 12,
       socks := (socks w)(s + 10 \<mapsto> new_socket (s + 11)), servers := (servers w)(s \<mapsto> alloc_server s)\<rparr>)"

lemma server_new_alloc:
  fixes w :: "('k, 'c, 'z) server_heap_scheme"
  assumes "mem_ok w"
  shows "server_new z None w =
    nc_bind (str_cpy (brk w + 2) (CLit ''nobody'')) (\<lambda>_. nc_bind (str_cpy (brk w + 4) (CLit ''nogroup'')) (\<lambda>_.
    nc_bind (str_cpy (brk w + 6) (CLit ''undef-proto'')) (\<lambda>_.
    nc_bind (upd_srv (brk w) (\<lambda>v. v\<lparr>sv_port := -1, sv_mode := 432, sv_family := PF_INET, sv_timeout := 5 * 60\<rparr>)) (\<lambda>_.
    nc_return (brk w))))) (alloc_memory z w)"
  using assms unfolding server_new_def
  by (simp add: calloc_srv_bind calloc_ctl_bind upd_srv_bind new_string_field new_socket_field alloc_memory_def alloc_server_def Let_def
      eval_nat_numeral)

lemma cpy_literal:
  assumes "str_has w d ys" "NUL \<notin> set xs" "length xs < STRING_MAX" "mem_ok w"
  shows "\<exists>t n. str_cpy d (CLit xs) w = Ok () (w\<lparr>strs := (strs w)(d \<mapsto> t), brk := n\<rparr>) \<and> str_rep t xs \<and> brk w \<le> n"
proof -
  have "cread (CLit xs) w = Ok xs w" using assms(2) by (simp add: cread_def nc_simps cstr_terminated)
  then show ?thesis using str_cpy_ok [OF assms(1) _ _ assms(3,4), of "CLit xs"] by (auto simp: str_upd_def)
qed

definition new_server :: "nat \<Rightarrow> server_t" where
  "new_server s = (alloc_server s)\<lparr>sv_port := -1, sv_mode := 432, sv_family := PF_INET, sv_timeout := 300\<rparr>"

lemma server_new_ok:
  fixes w :: "('k, 'c, 'z) server_heap_scheme"
  assumes "mem_ok w" "s = brk w"
  obtains t u v n where "server_new z None w = Ok s (w\<lparr>ctls := (ctls w)(s + 1 \<mapsto> z),
       strs := (strs w)(s + 2 \<mapsto> t, s + 4 \<mapsto> u, s + 6 \<mapsto> v, s + 8 \<mapsto> new_string),
       lists := (lists w)(s + 11 \<mapsto> empty_list), brk := n,
       socks := (socks w)(s + 10 \<mapsto> new_socket (s + 11)), servers := (servers w)(s \<mapsto> new_server s)\<rparr>)"
    "str_rep t ''nobody''" "str_rep u ''nogroup''" "str_rep v ''undef-proto''" "s + 12 \<le> n"
proof -
  let ?W = "alloc_memory z w"
  have f: "brk ?W = s + 12" "mem_ok ?W" "servers ?W s = Some (alloc_server s)" "strs ?W (s + 2) = Some new_string"
      "strs ?W (s + 4) = Some new_string" "strs ?W (s + 6) = Some new_string"
    using assms by (simp_all add: alloc_memory_def Let_def mem_ok_def)
  have rep: "str_rep new_string []" unfolding new_string_def by (rule str_rep_fresh)
  then have "str_has ?W (s + 2) []" using f(4) by (auto simp: str_has_def)
  then obtain t n1 where t: "str_cpy (s + 2) (CLit ''nobody'') ?W = Ok () (?W\<lparr>strs := (strs ?W)(s + 2 \<mapsto> t), brk := n1\<rparr>)"
      "str_rep t ''nobody''" "s + 12 \<le> n1"
    using cpy_literal [of ?W "s + 2" "[]" "''nobody''"] f(1,2) by (auto simp: STRING_MAX_def)
  let ?W1 = "?W\<lparr>strs := (strs ?W)(s + 2 \<mapsto> t), brk := n1\<rparr>"
  have "str_has ?W1 (s + 4) []" using f(5) rep by (auto simp: str_has_def)
  then obtain u n2 where u: "str_cpy (s + 4) (CLit ''nogroup'') ?W1 = Ok () (?W1\<lparr>strs := (strs ?W1)(s + 4 \<mapsto> u), brk := n2\<rparr>)"
      "str_rep u ''nogroup''" "n1 \<le> n2"
    using cpy_literal [of ?W1 "s + 4" "[]" "''nogroup''"] f(2) by (auto simp: STRING_MAX_def)
  let ?W2 = "?W1\<lparr>strs := (strs ?W1)(s + 4 \<mapsto> u), brk := n2\<rparr>"
  have "str_has ?W2 (s + 6) []" using f(6) rep by (auto simp: str_has_def)
  then obtain v n3 where v: "str_cpy (s + 6) (CLit ''undef-proto'') ?W2 = Ok () (?W2\<lparr>strs := (strs ?W2)(s + 6 \<mapsto> v), brk := n3\<rparr>)"
      "str_rep v ''undef-proto''" "n2 \<le> n3"
    using cpy_literal [of ?W2 "s + 6" "[]" "''undef-proto''"] f(2) by (auto simp: STRING_MAX_def)
  let ?W3 = "?W2\<lparr>strs := (strs ?W2)(s + 6 \<mapsto> v), brk := n3\<rparr>"
  let ?R = "w\<lparr>ctls := (ctls w)(s + 1 \<mapsto> z), strs := (strs w)(s + 2 \<mapsto> t, s + 4 \<mapsto> u, s + 6 \<mapsto> v, s + 8 \<mapsto> new_string),
       lists := (lists w)(s + 11 \<mapsto> empty_list), brk := n3,
       socks := (socks w)(s + 10 \<mapsto> new_socket (s + 11)), servers := (servers w)(s \<mapsto> new_server s)\<rparr>"
  have fu: "m(s + 2 \<mapsto> p, s + 4 \<mapsto> p, s + 6 \<mapsto> p, s + 8 \<mapsto> p, s + 2 \<mapsto> t, s + 4 \<mapsto> u, s + 6 \<mapsto> v) =
      m(s + 2 \<mapsto> t, s + 4 \<mapsto> u, s + 6 \<mapsto> v, s + 8 \<mapsto> p)" for m :: "nat \<Rightarrow> string_t option" and p
    by (rule ext) simp
  have "?W3\<lparr>servers := (servers ?W3)(s \<mapsto> new_server s)\<rparr> = ?R"
    using assms(2) fu by (cases w) (simp add: alloc_memory_def Let_def)
  then have "server_new z None w = Ok s ?R"
    using server_new_alloc [OF assms(1), of z] assms(2) t(1) u(1) v(1) f(3)
    by (simp add: nc_bind_def upd_srv_def nc_return_def new_server_def)
  then show ?thesis by (rule that) (use t u v in simp_all)
qed

text \<open>Destroying a string that is a field of the server\<close>

lemma destroy_string_field:
  fixes w :: "('k, 'c, 'z) server_heap_scheme"
  assumes "servers w s = Some v" "field v = Some a" "strs w a = Some t" "\<exists>xs. str_rep t xs"
  shows "srv_destroy_field s field upd str_destroy w =
    Ok () (w\<lparr>strs := (strs w)(a := None), servers := (servers w)(s \<mapsto> upd (\<lambda>_. None) v)\<rparr>)"
proof -
  obtain xs where "str_has w a xs" using assms(3,4) by (auto simp: str_has_def)
  from str_destroy_ok [OF this] show ?thesis
    using assms(1,2) by (simp add: srv_destroy_field_def nc_bind_def get_srv_def upd_srv_def)
qed

lemma list_destroy_empty:
  "lists w l = Some empty_list \<Longrightarrow> list_destroy (Some l) w = Ok () (w\<lparr>lists := (lists w)(l := None)\<rparr>)"
  by (simp add: list_destroy_def list_truncate_def list_truncate_loop.simps list_run empty_list_def)

lemma destroy_socket_field:
  fixes w :: "('k, 'c, 'z) server_heap_scheme"
  assumes "servers w s = Some v" "sv_sock v = Some k" "socks w k = Some so" "so_read_buf so = Some l" "lists w l = Some empty_list"
  shows "srv_destroy_field s sv_sock sv_sock_update socket_destroy w =
    Ok () (w\<lparr>lists := (lists w)(l := None), socks := (socks w)(k := None), servers := (servers w)(s \<mapsto> sv_sock_update (\<lambda>_. None) v)\<rparr>)"
  using assms(1-4) list_destroy_empty [OF assms(5)]
  by (simp add: srv_destroy_field_def nc_bind_def get_srv_def upd_srv_def socket_destroy_def get_sock_def upd_sock_def free_sock_def)

lemma fresh_none:
  assumes "wf_lh w" "brk w \<le> a"
  shows "strs w a = None" "lists w a = None"
  using assms unfolding wf_lh_def wf_strs_def by (meson leD)+

end
