(* ===== verification/NC_Server_Props.thy ===== *)
theory NC_Server_Props
  imports NC_Server_Laws NC_File_Props
begin

text \<open>
  The properties of the server component, with witnesses on a small system: its state is the user of the process.
\<close>

unbundle bit_operations_syntax

section \<open>A concrete system and memory\<close>

definition www_os :: "nat os" where
  "www_os = broken_os\<lparr>
     getpwnam := (\<lambda>n k. (Inr (if n = ''root'' then Some 0 else if n = ''www'' then Some 33 else None), k)),
     getgrnam := (\<lambda>n k. (Inr (if n = ''www'' then Some 33 else if n = ''nogroup'' then Some 99 else None), k))\<rparr>"

definition www_net :: "nat net" where
  "www_net = \<lparr>gethostname = (\<lambda>k. (Inr ''host'', k)), getifaddrs = (\<lambda>k. (Inr [], k)), gethostbyname = (\<lambda>q k. (HostFound, k)),
     getaddrinfo = (\<lambda>h k. (Inr [(10, 0, 0, 1)], k)), getservbyname = (\<lambda>n p k. (Inr None, k)), res_query = (\<lambda>q t k. (Inl EAGAIN, k)),
     res_search = (\<lambda>q t k. (Inl EAGAIN, k)), dn_skipname = (\<lambda>b e p. None), dn_expand = (\<lambda>b e p n. None)\<rparr>"

definition www_threads :: "nat pthread" where
  "www_threads = \<lparr>pthread_attr_init = \<lparr>ta_detached = False, ta_stacksize = 8388608\<rparr>,
     pthread_attr_setdetachstate = (\<lambda>d a. Some (a\<lparr>ta_detached := d\<rparr>)), pthread_attr_setstacksize = (\<lambda>n a. Some (a\<lparr>ta_stacksize := n\<rparr>)),
     pthread_create = (\<lambda>a f d k. (Inr 7, k))\<rparr>"

definition www_calls :: "nat kcalls" where
  "www_calls = \<lparr>getuid = (\<lambda>k. k), sys_time = (\<lambda>k. 0), sys_chdir = (\<lambda>d k. (Inr (), k)), sys_chroot = (\<lambda>d k. (Inr (), k)),
     sys_setgid = (\<lambda>g k. (Inr (), k)), sys_setuid = (\<lambda>u k. (Inr (), u)),
     sys_poll = (\<lambda>fds k. (Inr (1, (\<lambda>n. if n = 0 then POLLIN else 0)), k))\<rparr>"

definition vmem :: "(nat, unit) server_heap" where
  "vmem = \<lparr>strs = [0 \<mapsto> lit_str ''www'', 1 \<mapsto> lit_str ''www'', 2 \<mapsto> lit_str ''/srv'', 3 \<mapsto> lit_str ''nogroup''], brk = 4,
     malloc_ok = (\<lambda>_ _. True), ents = Map.empty, lists = Map.empty, hashes = Map.empty, kern = 0, socks = Map.empty,
     sessions = Map.empty, servers = Map.empty, controllers = Map.empty, controller_count = 1,
     DEFAULT_THREAD_ATTRIB = None, DETACHED_THREAD_ATTRIB = None, threads = [], ctls = Map.empty, DNS_LIB_INIT = False\<rparr>"

lemma vmem_has: "str_has vmem 0 ''www''" "str_has vmem 1 ''www''" "str_has vmem 2 ''/srv''" "str_has vmem 3 ''nogroup''"
  by (rule lit_str_has; simp add: vmem_def STRING_MAX_def)+

lemma vmem_wf: "wf_lh vmem" "mem_ok vmem"
  by (auto simp: wf_lh_def wf_strs_def vmem_def mem_ok_def split: if_splits)

lemma www_net_laws: "net_laws www_net"
  by (auto simp: net_laws_def www_net_def octets_def list_room_def STRING_MAX_def)

section \<open>Privileges\<close>



text \<open>
  C30. The test whether the user exists is made with the name of the group. So on a system that has no user with the name of
  the group the privileges are never dropped: \<^verbatim>\<open>drop_privileges\<close> fails for every user. That is so for the defaults of a new
  server, the user \<^verbatim>\<open>nobody\<close> and the group \<^verbatim>\<open>nogroup\<close>.
\<close>

theorem drop_privileges_needs_group_user:
  fixes w :: "('k, 'c, 'z) server_heap_scheme"
  assumes "str_has w us u" "str_has w gs g" "str_has w d dir" "NUL \<notin> set u" "NUL \<notin> set g" "NUL \<notin> set dir"
    "length dir + 1 < STRING_MAX" "mem_ok w" "wf_lh w" "net_laws net" "getuid kc (kern w) = 0" "\<And>k. fst (user_id os g k) = None"
  shows "\<exists>rc w'. drop_privileges os net th kc us gs d w = Fail rc w'"
proof -
  have "\<not> dropped os kc u g dir k k'" for k k' using assms(12) unfolding dropped_def by (metis fst_conv option.distinct(1))
  then show ?thesis
    using drop_privileges_ends [OF assms(1-11), of os th] by (cases "drop_privileges os net th kc us gs d w") auto
qed

theorem drop_privileges_needs_group_user_witness:
  "\<exists>rc w'. drop_privileges www_os www_net www_threads www_calls 0 3 2 vmem = Fail rc w'"
  by (rule drop_privileges_needs_group_user [OF vmem_has(1,4,3) _ _ _ _ vmem_wf(2,1) www_net_laws])
    (simp_all add: STRING_MAX_def www_calls_def vmem_def user_id_def www_os_def)

lemma mod_lh_attr:
  fixes w :: "('k, 'c, 'z) thread_heap_scheme"
  shows "mod_lh S E L w w' \<Longrightarrow> DETACHED_THREAD_ATTRIB w' = DETACHED_THREAD_ATTRIB w"
  by (cases w; cases w'; simp add: mod_lh_def)

text \<open>
  C31. A process that does not run as the administrator is never prepared for threads: \<^verbatim>\<open>drop_privileges\<close>, the only function
  of the library that starts the thread library, returns 0 before it does so. The next connection is then handed to
  pthread_create(3) with an attribute object that was not initialised.
\<close>

theorem unprivileged_threads_uninitialised:
  fixes w :: "('k, 'c, 'z) server_heap_scheme"
  assumes "0 < getuid kc (kern w)" "DETACHED_THREAD_ATTRIB w = None" "mem_ok w" "wf_lh w"
  shows "\<exists>w'. drop_privileges os net th kc us gs d w = Ok () w' \<and> thread_create_detached th f data w' = Fault Uninit"
proof -
  define B where "B = (\<lambda>a b c v. if 0 < getuid kc (kern v) then drop_exit a b c v
    else drop_root os net th kc us gs d a b c (v :: ('k, 'c, 'z) server_heap_scheme))"
  obtain a b c w3 where w3: "nc_bind (str_new None) (\<lambda>a. nc_bind (str_new None) (\<lambda>b. nc_bind (str_new None) (B a b))) w = B a b c w3"
      "new_only w w3" "str_has w3 a []" "str_has w3 b []" "str_has w3 c []" "brk w \<le> a" "a < b" "b < c" "mod_lh {a, b, c} {} {} w w3"
    using three_strings [OF assms(3,4), of B] .
  obtain S where S: "drop_exit a b c w3 = Ok () (w3\<lparr>strs := S\<rparr>)" using drop_exit_ok [OF w3(3-5)] w3(7,8) by auto
  have "drop_privileges os net th kc us gs d w = nc_bind (str_new None) (\<lambda>a. nc_bind (str_new None) (\<lambda>b. nc_bind (str_new None) (B a b))) w"
    unfolding B_def drop_privileges_def drop_root_def ..
  then have "drop_privileges os net th kc us gs d w = Ok () (w3\<lparr>strs := S\<rparr>)"
    using w3(1) S assms(1) mod_lh_kern [OF w3(9)] by (simp add: B_def)
  then show ?thesis using mod_lh_attr [OF w3(9)] assms(2)
    by (simp add: thread_create_detached_def start_thread_def nc_simps)
qed

theorem unprivileged_threads_uninitialised_witness:
  "\<exists>w'. drop_privileges www_os www_net www_threads (www_calls\<lparr>getuid := (\<lambda>k. 1000)\<rparr>) 0 1 2 vmem = Ok () w' \<and>
    thread_create_detached www_threads Session_handler (Some 4) w' = Fault Uninit"
  by (rule unprivileged_threads_uninitialised [OF _ _ vmem_wf(2,1)]) (simp_all add: vmem_def)

section \<open>Life of a server\<close>

text \<open>
  C23. \<^verbatim>\<open>server_new\<close> and \<^verbatim>\<open>server_destroy\<close> balance: a new server has the documented defaults, and destroying it frees the server,
  its controller, its strings and its socket and leaves every other object as it was.
\<close>

theorem server_lifetime:
  fixes w :: "('k, 'c, 'z) server_heap_scheme"
  assumes "mem_ok w" "wf_lh w" "servers w (brk w) = None" "ctls w (brk w + 1) = None" "socks w (brk w + 10) = None"
  shows "\<exists>s w1 v u g w2. server_new z None w = Ok s w1 \<and> servers w1 s = Some v \<and> sv_family v = PF_INET \<and> sv_port v = -1 \<and> sv_timeout v = 300 \<and>
    sv_uid v = Some u \<and> str_has w1 u ''nobody'' \<and> sv_gid v = Some g \<and> str_has w1 g ''nogroup'' \<and>
    server_destroy (Some s) w1 = Ok () w2 \<and> w2 = w\<lparr>brk := brk w2\<rparr>"
proof -
  define s where "s = brk w"
  obtain t u v n where new: "server_new z None w = Ok s (w\<lparr>ctls := (ctls w)(s + 1 \<mapsto> z),
       strs := (strs w)(s + 2 \<mapsto> t, s + 4 \<mapsto> u, s + 6 \<mapsto> v, s + 8 \<mapsto> new_string),
       lists := (lists w)(s + 11 \<mapsto> empty_list), brk := n,
       socks := (socks w)(s + 10 \<mapsto> new_socket (s + 11)), servers := (servers w)(s \<mapsto> new_server s)\<rparr>)"
      (is "_ = Ok s ?w1") and rep: "str_rep t ''nobody''" "str_rep u ''nogroup''" "str_rep v ''undef-proto''" "s + 12 \<le> n"
    using server_new_ok [OF assms(1) s_def, of z] .
  have e: "\<exists>xs. str_rep t xs" "\<exists>xs. str_rep u xs" "\<exists>xs. str_rep v xs" "\<exists>xs. str_rep new_string xs"
    using rep str_rep_fresh unfolding new_string_def by blast+
  have f: "sv_uid (new_server s) = Some (s + 2)" "sv_gid (new_server s) = Some (s + 4)" "sv_service (new_server s) = Some (s + 6)"
      "sv_address (new_server s) = Some (s + 8)" "sv_sock (new_server s) = Some (s + 10)" "sv_controller (new_server s) = Some (s + 1)"
      "so_read_buf (new_socket (s + 11)) = Some (s + 11)"
    by (simp_all add: new_server_def alloc_server_def new_socket_def)
  have none: "strs w (s + i) = None" "lists w (s + i) = None" for i using fresh_none [OF assms(2), of "s + i"] by (simp_all add: s_def)
  have m: "(strs w)(s + 2 := None, s + 4 := None, s + 6 := None, s + 8 := None) = strs w" "(lists w)(s + 11 := None) = lists w"
      "(servers w)(s := None) = servers w" "(ctls w)(s + 1 := None) = ctls w" "(socks w)(s + 10 := None) = socks w"
    using none(1) [of 2] none(1) [of 4] none(1) [of 6] none(1) [of 8] none(2) [of 11] assms(3-5) [folded s_def] by (simp_all add: fun_eq_iff)
  have d: "server_destroy (Some s) ?w1 = Ok () (w\<lparr>ctls := (ctls w)(s + 1 := None), brk := n,
      strs := (strs w)(s + 2 := None, s + 4 := None, s + 6 := None, s + 8 := None),
      lists := (lists w)(s + 11 := None), socks := (socks w)(s + 10 := None), servers := (servers w)(s := None)\<rparr>)" (is "_ = Ok () ?w2")
    by (simp add: server_destroy_def deref_def nc_return_def nc_bind_def destroy_string_field destroy_socket_field e f get_srv_def
      free_ctl_def free_srv_def)
  have "?w2 = w\<lparr>brk := n\<rparr>" using m by (cases w) simp
  moreover have "sv_family (new_server s) = PF_INET" "sv_port (new_server s) = -1" "sv_timeout (new_server s) = 300"
    by (simp_all add: new_server_def)
  moreover have "str_has ?w1 (s + 2) ''nobody''" "str_has ?w1 (s + 4) ''nogroup''" using rep by (auto simp: str_has_def)
  ultimately show ?thesis using new d f(1,2)
    by (intro exI [of _ s] exI [of _ ?w1] exI [of _ "new_server s"] exI [of _ "s + 2"] exI [of _ "s + 4"] exI [of _ ?w2]) simp
qed

theorem server_lifetime_witness:
  "\<exists>s w1 v u g w2. server_new () None vmem = Ok s w1 \<and> servers w1 s = Some v \<and> sv_family v = PF_INET \<and> sv_port v = -1 \<and> sv_timeout v = 300 \<and>
    sv_uid v = Some u \<and> str_has w1 u ''nobody'' \<and> sv_gid v = Some g \<and> str_has w1 g ''nogroup'' \<and>
    server_destroy (Some s) w1 = Ok () w2 \<and> w2 = vmem\<lparr>brk := brk w2\<rparr>"
  by (rule server_lifetime [OF vmem_wf(2,1)]) (simp_all add: vmem_def)

section \<open>The server loop\<close>

text \<open>The number of descriptors with an event, which poll(2) returns\<close>

definition events :: "pollfd list \<Rightarrow> nat" where
  "events pfd = length (filter (\<lambda>p. pf_revents p \<noteq> 0) pfd)"

definition polled :: "(nat \<Rightarrow> nat) \<Rightarrow> pollfd list \<Rightarrow> pollfd list" where
  "polled ev pfd = map (\<lambda>n. (pfd ! n)\<lparr>pf_revents := ev n\<rparr>) [0..<length pfd]"

lemma ready_event: "ready p \<Longrightarrow> pf_revents p \<noteq> 0"
  by (rule notI) (simp add: ready_def)

lemma events_ready:
  assumes "\<forall>p\<in>set pfd. pf_revents p \<noteq> 0 \<longrightarrow> ready p"
  shows "length (filter ready pfd) = events pfd"
proof -
  have "ready p \<longleftrightarrow> pf_revents p \<noteq> 0" if "p \<in> set pfd" for p using assms that ready_event by blast
  then show ?thesis unfolding events_def by (metis (mono_tags, lifting) filter_cong)
qed

lemma events_not_ready:
  assumes "p \<in> set pfd" "pf_revents p \<noteq> 0" "\<not> ready p"
  shows "length (filter ready pfd) < events pfd"
proof -
  have "length (filter ready pfd) \<le> events pfd" for pfd
    unfolding events_def by (induction pfd) (auto dest: ready_event)
  then show ?thesis using assms
  proof (induction pfd)
    case (Cons q pfd)
    then show ?case by (cases "q = p") (auto simp: events_def less_Suc_eq_le dest: ready_event)
  qed simp
qed

text \<open>
  C4. A round of the server loop serves every connection that waits: when each event of poll(2) is a connection, exactly the
  servers with an event accept, in the order of the array and each of them once, and a failure of one does not keep the others
  from it.
\<close>

theorem poll_round_serves:
  fixes w :: "('k, 'c, 'z) server_heap_scheme"
  assumes "sys_poll kc (map pf_fd pfd) (kern w) = (Inr (i, ev), k)" "i = events (polled ev pfd)" "length handler = length pfd"
    "\<forall>p\<in>set (polled ev pfd). pf_revents p \<noteq> 0 \<longrightarrow> ready p"
  shows "poll_round kc accept cap item handler pfd w =
    nc_bind (accept_all accept (ready_servers (polled ev pfd) handler)) (\<lambda>_. nc_return (polled ev pfd)) (w\<lparr>kern := k\<rparr>)"
proof -
  have l: "length (polled ev pfd) = length pfd" by (simp add: polled_def)
  have "poll_scan (Suc (length pfd)) accept cap (polled ev pfd) handler i 0 0 =
      nc_bind (accept_all accept (ready_servers (polled ev pfd) handler)) (\<lambda>_. nc_return i)"
    using poll_scan_ready [of "polled ev pfd" handler 0 i 0 "Suc (length pfd)" accept cap] l assms(2-4) events_ready [OF assms(4)]
    by (auto simp: fun_eq_iff)
  then show ?thesis using assms(1)
    by (simp add: poll_round_def nc_bind_def [of "syscall _"] syscall_def polled_def [symmetric] Let_def nc_bind_assoc bind_return
      del: poll_scan.simps)
qed

theorem poll_round_serves_witness:
  "poll_round www_calls (\<lambda>s. nc_throw) 2 None [8, 9] [\<lparr>pf_fd = 3, pf_events = POLLIN, pf_revents = 0\<rparr>, \<lparr>pf_fd = 4, pf_events = POLLIN, pf_revents = 0\<rparr>]
     vmem = Ok [\<lparr>pf_fd = 3, pf_events = POLLIN, pf_revents = POLLIN\<rparr>, \<lparr>pf_fd = 4, pf_events = POLLIN, pf_revents = 0\<rparr>] vmem"
proof -
  let ?p = "[\<lparr>pf_fd = 3, pf_events = POLLIN, pf_revents = 0\<rparr>, \<lparr>pf_fd = 4, pf_events = POLLIN, pf_revents = 0\<rparr>]"
  let ?ev = "\<lambda>n. if n = (0 :: nat) then POLLIN else 0"
  have p: "polled ?ev ?p = [\<lparr>pf_fd = 3, pf_events = POLLIN, pf_revents = POLLIN\<rparr>, \<lparr>pf_fd = 4, pf_events = POLLIN, pf_revents = 0\<rparr>]"
    by (simp add: polled_def upt_rec)
  have r: "ready_servers (polled ?ev ?p) [8, 9] = [8]" unfolding p by (simp add: ready_servers_def ready_def POLLIN_def)
  have "poll_round www_calls (\<lambda>s. nc_throw) 2 None [8, 9] ?p vmem =
      nc_bind (accept_all (\<lambda>s. nc_throw) (ready_servers (polled ?ev ?p) [8, 9])) (\<lambda>_. nc_return (polled ?ev ?p)) (vmem\<lparr>kern := kern vmem\<rparr>)"
    by (rule poll_round_serves [where i = 1]) (unfold p, simp_all add: www_calls_def events_def ready_def POLLIN_def)
  then show ?thesis unfolding r unfolding p by (simp add: nc_simps)
qed

text \<open>
  C29. The scan goes one entry too far: when a descriptor has an event that is not a connection, an error or a hangup, the number
  of connections never reaches the number that poll(2) returned, and after the last server the code reads the entry behind the
  end of the array.
\<close>

theorem poll_round_overruns:
  fixes w :: "('k, 'c, 'z) server_heap_scheme"
  assumes "sys_poll kc (map pf_fd pfd) (kern w) = (Inr (i, ev), k)" "i = events (polled ev pfd)" "length handler = length pfd"
    "n < length pfd" "ev n \<noteq> 0" "ev n AND POLLIN = 0"
  shows "poll_round kc accept (length pfd) item handler pfd w =
    nc_bind (visit_all accept (zip (polled ev pfd) handler)) (\<lambda>_. nc_fault OutOfBounds) (w\<lparr>kern := k\<rparr>)"
proof -
  have l: "length (polled ev pfd) = length pfd" by (simp add: polled_def)
  have "polled ev pfd ! n = (pfd ! n)\<lparr>pf_revents := ev n\<rparr>" using assms(4) by (simp add: polled_def)
  then have "length (filter ready (polled ev pfd)) < i"
    unfolding assms(2) using assms(4-6) l by (intro events_not_ready [of "polled ev pfd ! n"]) (simp_all add: ready_def del: nth_mem, simp add: polled_def)
  then have "poll_scan (Suc (length pfd)) accept (length pfd) (polled ev pfd) handler i 0 0 =
      nc_bind (visit_all accept (zip (polled ev pfd) handler)) (\<lambda>_. nc_fault OutOfBounds)"
    using poll_scan_overrun [of "polled ev pfd" handler 0 0 i "Suc (length pfd)" accept] l assms(3) by (auto simp: fun_eq_iff)
  then show ?thesis using assms(1)
    by (simp add: poll_round_def nc_bind_def [of "syscall _"] syscall_def polled_def [symmetric] Let_def nc_bind_assoc bind_fault
      del: poll_scan.simps)
qed

definition pmem :: "(nat, unit) server_heap" where
  "pmem = vmem\<lparr>servers := [8 \<mapsto> zero_server\<lparr>sv_uid := Some 0, sv_gid := Some 1, sv_service := Some 2, sv_address := Some 3\<rparr>]\<rparr>"

theorem poll_round_overruns_witness:
  "poll_round (www_calls\<lparr>sys_poll := (\<lambda>fds k. (Inr (1, (\<lambda>n. POLLERR)), k))\<rparr>) (\<lambda>s. nc_return ()) 1 None [8]
     [\<lparr>pf_fd = 3, pf_events = POLLIN, pf_revents = 0\<rparr>] pmem = Fault OutOfBounds"
proof -
  let ?kc = "www_calls\<lparr>sys_poll := (\<lambda>fds k. (Inr (1, (\<lambda>n. POLLERR)), k))\<rparr>" and ?p = "[\<lparr>pf_fd = 3, pf_events = POLLIN, pf_revents = 0\<rparr>]"
  let ?ev = "\<lambda>n :: nat. POLLERR"
  have p: "polled ?ev ?p = [\<lparr>pf_fd = 3, pf_events = POLLIN, pf_revents = POLLERR\<rparr>]" by (simp add: polled_def upt_rec)
  have "poll_round ?kc (\<lambda>s. nc_return ()) (length ?p) None [8] ?p pmem =
      nc_bind (visit_all (\<lambda>s. nc_return ()) (zip (polled ?ev ?p) [8])) (\<lambda>_. nc_fault OutOfBounds) (pmem\<lparr>kern := kern pmem\<rparr>)"
    by (rule poll_round_overruns [where i = 1 and n = 0]) (unfold p, simp_all add: events_def POLLERR_def POLLIN_def)
  moreover have "failed \<lparr>pf_fd = 3, pf_events = POLLIN, pf_revents = POLLERR\<rparr>" "\<not> ready \<lparr>pf_fd = 3, pf_events = POLLIN, pf_revents = POLLERR\<rparr>"
    by (simp_all add: failed_def ready_def POLLERR_def POLLIN_def)
  moreover have "server_dump 8 pmem = Ok () pmem"
    by (simp add: server_dump_def pmem_def vmem_def get_srv_def deref_def get_str_def nc_simps)
  ultimately show ?thesis unfolding p by (simp add: nc_bind_def nc_when_def nc_fault_def nc_return_def)
qed

end
