(* ===== verification/NC_Log.thy ===== *)
theory NC_Log
  imports NC_String_Text
begin

text \<open>
  Logging (src/log.c, src/nc_log.h) and the message of an exception (src/exception.c). The global variables of the
  component and what was written to the standard error and to the system log are the record \<open>log_t\<close>, which the
  functions take and return. The other components do not have it in their memory: their messages change nothing else.
\<close>

unbundle bit_operations_syntax

section \<open>State\<close>

text \<open>
  \<open>log_mask\<close> is the mask of setlogmask(3), \<open>log_stderr\<close> and \<open>log_syslog\<close> are the output, with the level of each message of the
  system log. \<open>log_ident\<close> is the array that openlog(3) got: the library keeps the pointer.
\<close>

record log_t =
  LOG_TO_STDERR :: bool
  LOG_TO_SYSLOG :: bool
  LOG_PRIORITY :: int
  log_mask :: nat
  log_ident :: "cptr option"
  log_options :: nat
  log_stderr :: string
  log_syslog :: "(int \<times> string) list"

definition LOG_ERR :: int where "LOG_ERR = 3"
definition LOG_WARNING :: int where "LOG_WARNING = 4"
definition LOG_NOTICE :: int where "LOG_NOTICE = 5"
definition LOG_INFO :: int where "LOG_INFO = 6"
definition LOG_DEBUG :: int where "LOG_DEBUG = 7"

lemmas log_levels = LOG_ERR_def LOG_WARNING_def LOG_NOTICE_def LOG_INFO_def LOG_DEBUG_def

text \<open>The initial values; every level passes the initial mask.\<close>

definition log_start :: log_t where
  "log_start = \<lparr>LOG_TO_STDERR = True, LOG_TO_SYSLOG = False, LOG_PRIORITY = LOG_NOTICE, log_mask = 255, log_ident = None,
     log_options = 0, log_stderr = [], log_syslog = []\<rparr>"

section \<open>Messages\<close>

text \<open>The bit of a level in the mask is that of its three lowest bits.\<close>

definition log_bit :: "log_t \<Rightarrow> int \<Rightarrow> bool" where
  "log_bit L level = bit (log_mask L) (nat (level mod 8))"

definition log_vmessage :: "log_t \<Rightarrow> int \<Rightarrow> string \<Rightarrow> fmt_arg list \<Rightarrow> (log_t, 'z) nc" where
  "log_vmessage L level format ap =
     (if LOG_TO_STDERR L
      then if level \<le> LOG_PRIORITY L
        then nc_bind (vformat format ap) (\<lambda>out. nc_return (L\<lparr>log_stderr := log_stderr L @ out @ [LF]\<rparr>))
        else nc_return L
      else if LOG_TO_SYSLOG L
      then if log_bit L level
        then nc_bind (vformat format ap) (\<lambda>out. nc_return (L\<lparr>log_syslog := log_syslog L @ [(level, out)]\<rparr>))
        else nc_return L
      else nc_return L)"

definition log_message :: "log_t \<Rightarrow> int \<Rightarrow> string \<Rightarrow> fmt_arg list \<Rightarrow> (log_t, 'z) nc" where
  "log_message L level format ap = log_vmessage L level format ap"

definition log_error :: "log_t \<Rightarrow> string \<Rightarrow> fmt_arg list \<Rightarrow> (log_t, 'z) nc" where
  "log_error L format ap = log_vmessage L LOG_ERR format ap"

definition log_warning :: "log_t \<Rightarrow> string \<Rightarrow> fmt_arg list \<Rightarrow> (log_t, 'z) nc" where
  "log_warning L format ap = log_vmessage L LOG_WARNING format ap"

definition log_notice :: "log_t \<Rightarrow> string \<Rightarrow> fmt_arg list \<Rightarrow> (log_t, 'z) nc" where
  "log_notice L format ap = log_vmessage L LOG_NOTICE format ap"

definition log_info :: "log_t \<Rightarrow> string \<Rightarrow> fmt_arg list \<Rightarrow> (log_t, 'z) nc" where
  "log_info L format ap = log_vmessage L LOG_INFO format ap"

definition log_debug :: "log_t \<Rightarrow> string \<Rightarrow> fmt_arg list \<Rightarrow> (log_t, 'z) nc" where
  "log_debug L format ap = log_vmessage L LOG_DEBUG format ap"

text \<open>The macro behind the logging statements: the position in the source goes before the message.\<close>

definition log_all :: "log_t \<Rightarrow> string \<Rightarrow> string \<Rightarrow> nat \<Rightarrow> int \<Rightarrow> string \<Rightarrow> fmt_arg list \<Rightarrow> (log_t, 'z) nc" where
  "log_all L func file line level format ap =
     log_message L level (''%s(%s:%d): '' @ format) (PStr (CLit func) # PStr (CLit file) # PInt (int line) # ap)"

text \<open>
  The frames of the stack as backtrace_symbols(3) gives them, or \<open>None\<close> on a system without it; \<open>ls\<close> are the lines of the
  statements. The conversion \<^verbatim>\<open>%zd\<close> prints the same digits as \<^verbatim>\<open>%d\<close>.
\<close>

primrec log_frames :: "nat \<Rightarrow> string list \<Rightarrow> log_t \<Rightarrow> (log_t, 'z) nc" where
  "log_frames l [] L = nc_return L"
| "log_frames l (f # fs) L =
     nc_bind (log_all L ''log_backtrace'' ''log.c'' l LOG_WARNING (''WARNING: %s'' @ [LF]) [PStr (CLit f)]) (log_frames l fs)"

definition log_backtrace :: "nat \<times> nat \<times> nat \<Rightarrow> string list option \<Rightarrow> log_t \<Rightarrow> (log_t, 'z) nc" where
  "log_backtrace ls frames L = (case ls of (l1, l2, l3) \<Rightarrow> (case frames of
       Some fs \<Rightarrow> nc_bind (log_all L ''log_backtrace'' ''log.c'' l1 LOG_WARNING
           (''WARNING: Obtained %d stack frames.'' @ [LF]) [PInt (int (length (take 10 fs)))])
         (log_frames l2 (take 10 fs))
     | None \<Rightarrow> log_all L ''log_backtrace'' ''log.c'' l3 LOG_WARNING ''WARNING: %s''
         [PStr (CLit ''This operating system does not provide backtrace_symbols()'')]))"

section \<open>Settings\<close>

text \<open>
  The copy of the name is never used: openlog(3) gets the caller's pointer, and the copy stays allocated.
  \<^verbatim>\<open>LOG_PID\<close> is 1, \<^verbatim>\<open>LOG_NDELAY\<close> is 8.
\<close>

definition syslog_open :: "log_t \<Rightarrow> cptr \<Rightarrow> nat \<Rightarrow> (log_t, 'z) nc" where
  "syslog_open L program logopt =
     nc_bind (str_new None) (\<lambda>program_copy.
     nc_bind (str_cpy program_copy program) (\<lambda>_.
     nc_return (L\<lparr>log_ident := Some program, log_options := logopt OR 1 OR 8, LOG_TO_SYSLOG := True, LOG_TO_STDERR := False\<rparr>)))"

text \<open>\<^verbatim>\<open>LOG_UPTO\<close>, for the levels of syslog(3)\<close>

definition LOG_UPTO :: "int \<Rightarrow> nat" where
  "LOG_UPTO priority = 2 ^ (nat priority + 1) - 1"

definition set_log_level :: "(string \<Rightarrow> string option) \<Rightarrow> log_t \<Rightarrow> int \<Rightarrow> log_t" where
  "set_log_level getenv L priority =
     (let p = (if priority < 0 then LOG_WARNING else priority);
          p = (if getenv ''VERBOSE'' \<noteq> None then LOG_DEBUG else p);
          p = (if getenv ''QUIET'' \<noteq> None then LOG_ERR else p)
      in L\<lparr>log_mask := LOG_UPTO p, LOG_PRIORITY := p\<rparr>)"

section \<open>Exceptions\<close>

text \<open>
  The function behind \<^verbatim>\<open>throw\<close> and \<^verbatim>\<open>throwf\<close>: it returns -1, so only the new state of the log is a result. The caller's
  format becomes a part of the format that is printed; snprintf(3) writes at most 1022 characters into the buffer. \<open>here\<close> is the line of the first message.
\<close>

definition throwf :: "nat \<Rightarrow> log_t \<Rightarrow> string \<Rightarrow> string \<Rightarrow> int \<Rightarrow> string \<Rightarrow> fmt_arg list \<Rightarrow> (log_t, 'z) nc" where
  "throwf here L func file lineno format ap =
     (if format = []
      then log_all L ''_throwf'' ''exception.c'' here LOG_ERR
        (''%s: In function `%s'' @ [CHR 0x27] @ '':'' @ [LF] @ ''%s:%d: error: '')
        [PStr (CLit file), PStr (CLit func), PStr (CLit file), PInt lineno]
      else log_vmessage L LOG_ERR (take 1022 (file @ '':'' @ dec_int lineno @ '': error: '' @ format)) ap)"

end
