(* ===== verification/NC_Process.thy ===== *)
theory NC_Process
  imports NC_File NC_Log
begin

text \<open>
  Processes and signals (src/process.c, src/signal.c). The calls of the system that only these components make are
  a parameter, the record \<open>procs\<close>, and so is the directory \<^verbatim>\<open>NC_IPCDIR\<close>, which the configuration of the library sets.
\<close>

unbundle bit_operations_syntax

section \<open>The system\<close>

datatype disposition = SIG_DFL | SIG_IGN | Default_signal_handler

text \<open>
  \<open>sys_fork\<close> answers 0 in the child. \<open>sys_sleep\<close> gives the seconds that were left, \<open>sys_system\<close> the status of the command,
  \<open>sys_waitpid\<close> the process that was reaped, or 0. \<open>sys_sigaction\<close> and \<open>sys_signal\<close> set what happens on a signal.
\<close>

record 'k procs =
  proc_getuid :: "'k \<Rightarrow> nat"
  proc_getpid :: "'k \<Rightarrow> nat"
  sys_kill :: "int \<Rightarrow> int \<Rightarrow> (unit, 'k) syscall"
  sys_setrlimit :: "int \<Rightarrow> nat \<Rightarrow> (unit, 'k) syscall"
  sys_fork :: "(nat, 'k) syscall"
  sys_sleep :: "nat \<Rightarrow> 'k \<Rightarrow> nat \<times> 'k"
  sys_system :: "string \<Rightarrow> 'k \<Rightarrow> int \<times> 'k"
  sys_setsid :: "(nat, 'k) syscall"
  sys_waitpid :: "(nat, 'k) syscall"
  sys_sigaction :: "int \<Rightarrow> disposition \<Rightarrow> (unit, 'k) syscall"
  sys_signal :: "int \<Rightarrow> disposition \<Rightarrow> (unit, 'k) syscall"

definition ESRCH :: errno where "ESRCH = Errno 3"

definition SIGHUP :: int where "SIGHUP = 1"
definition SIGINT :: int where "SIGINT = 2"
definition SIGQUIT :: int where "SIGQUIT = 3"
definition SIGUSR1 :: int where "SIGUSR1 = 10"
definition SIGUSR2 :: int where "SIGUSR2 = 12"
definition SIGTSTP :: int where "SIGTSTP = 20"

lemmas signal_numbers = SIGHUP_def SIGINT_def SIGQUIT_def SIGUSR1_def SIGUSR2_def SIGTSTP_def

section \<open>Signals\<close>

record sig_flags =
  SIGALRM_triggered :: bool
  SIGHUP_triggered :: bool
  SIGUSR1_triggered :: bool
  SIGUSR2_triggered :: bool
  SIGTERM_triggered :: bool

text \<open>\<open>None\<close> means that the process exits.\<close>

definition default_signal_handler :: "int \<Rightarrow> sig_flags \<Rightarrow> sig_flags option" where
  "default_signal_handler signum f =
     (if signum = SIGINT then None
      else if signum = SIGHUP then Some (f\<lparr>SIGHUP_triggered := True\<rparr>)
      else if signum = SIGUSR1 then Some (f\<lparr>SIGUSR1_triggered := True\<rparr>)
      else Some f)"

definition test_alarm_timer :: "sig_flags \<Rightarrow> int" where
  "test_alarm_timer f = (if SIGALRM_triggered f then 1 else 0)"

text \<open>sigemptyset(3) cannot fail.\<close>

definition signal_handler_install :: "'k procs \<Rightarrow> int \<Rightarrow> disposition \<Rightarrow> (unit, 'k, 'z) ync" where
  "signal_handler_install pr sigcatch h = sys_try (sys_sigaction pr sigcatch h)"

definition signal_library_init :: "'k procs \<Rightarrow> (unit, 'k, 'z) ync" where
  "signal_library_init pr =
     nc_bind (signal_handler_install pr SIGHUP Default_signal_handler) (\<lambda>_.
     nc_bind (signal_handler_install pr SIGUSR1 Default_signal_handler) (\<lambda>_.
     signal_handler_install pr SIGINT Default_signal_handler))"

text \<open>\<^verbatim>\<open>(void) signal(n, h)\<close> for several signals\<close>

primrec set_signals :: "'k procs \<Rightarrow> disposition \<Rightarrow> int list \<Rightarrow> (unit, 'k, 'z) ync" where
  "set_signals pr h [] = nc_return ()"
| "set_signals pr h (s # ss) = nc_bind (syscall (sys_signal pr s h)) (\<lambda>_. set_signals pr h ss)"

definition signal_mask_all :: "'k procs \<Rightarrow> (unit, 'k, 'z) ync" where
  "signal_mask_all pr = set_signals pr SIG_IGN [SIGHUP, SIGINT, SIGQUIT, SIGTSTP, SIGUSR1, SIGUSR2]"

definition signal_unmask_all :: "'k procs \<Rightarrow> (unit, 'k, 'z) ync" where
  "signal_unmask_all pr = set_signals pr SIG_DFL [SIGHUP, SIGINT, SIGQUIT, SIGTSTP, SIGUSR1]"

text \<open>\<open>n\<close> bounds the number of calls.\<close>

primrec default_sigchld_handler :: "'k procs \<Rightarrow> nat \<Rightarrow> (unit, 'k, 'z) ync" where
  "default_sigchld_handler pr 0 = nc_fault Diverge"
| "default_sigchld_handler pr (Suc n) =
     nc_bind (syscall (sys_waitpid pr)) (\<lambda>r. case r of Inl e \<Rightarrow> nc_return ()
       | Inr pid \<Rightarrow> if 0 < pid then default_sigchld_handler pr n else nc_return ())"

section \<open>Process identifier files\<close>

definition PIDFILE :: string where "PIDFILE = ''%s/%s.pid''"

definition pidfile_path :: "string \<Rightarrow> nat \<Rightarrow> nat \<Rightarrow> (unit, 'z) nc" where
  "pidfile_path ipcdir path program = str_sprintf path PIDFILE [PStr (CLit ipcdir), PStr (CVal program 0)]"

definition pidfile_stat :: "'k os \<Rightarrow> string \<Rightarrow> nat \<Rightarrow> (bool, 'k, 'z) ync" where
  "pidfile_stat os ipcdir program =
     nc_bind (str_new None) (\<lambda>path.
     nc_bind (pidfile_path ipcdir path program) (\<lambda>_.
     nc_bind (cread (CVal path 0)) (\<lambda>p.
     nc_bind (syscall (sys_stat os p)) (\<lambda>r.
     nc_bind (str_destroy (Some path)) (\<lambda>_. nc_return (case r of Inl e \<Rightarrow> False | Inr _ \<Rightarrow> True))))))"

text \<open>The destructors behind the label \<^verbatim>\<open>finally\<close>\<close>

definition two_exit :: "nat \<Rightarrow> nat \<Rightarrow> (unit, 'z) nc" where
  "two_exit a b = nc_bind (str_destroy (Some a)) (\<lambda>_. str_destroy (Some b))"

text \<open>The number is stored in a \<^verbatim>\<open>pid_t\<close>, a signed integer of 32 bits. Every signal number, 0 too, removes the file.\<close>

definition pidfile_kill :: "'k os \<Rightarrow> 'k fs \<Rightarrow> 'k procs \<Rightarrow> string \<Rightarrow> nat \<Rightarrow> int \<Rightarrow> (unit, 'k, 'z) fnc" where
  "pidfile_kill os fs pr ipcdir program signal_num =
     nc_bind (pidfile_stat os ipcdir program) (\<lambda>exists.
     if \<not> exists then nc_return ()
     else nc_bind (str_new None) (\<lambda>abspath.
       nc_bind (pidfile_path ipcdir abspath program) (\<lambda>_.
       nc_bind (str_new None) (\<lambda>pid_str.
       nc_bind (file_read os fs pid_str abspath) (\<lambda>_.
       nc_bind (str_chomp pid_str) (\<lambda>_.
       nc_bind (str_to_uint32 pid_str) (\<lambda>pid.
       nc_bind (syscall (sys_kill pr (to_int32 (int pid)) signal_num)) (\<lambda>r.
       if (case r of Inl e \<Rightarrow> e \<noteq> ESRCH | Inr _ \<Rightarrow> False)
       then nc_bind (two_exit abspath pid_str) (\<lambda>_. nc_throw)
       else nc_bind (cread (CVal abspath 0)) (\<lambda>p.
         nc_bind (syscall (sys_unlink os p)) (\<lambda>r. case r of
           Inl e \<Rightarrow> nc_bind (two_exit abspath pid_str) (\<lambda>_. nc_throw)
         | Inr _ \<Rightarrow> two_exit abspath pid_str))))))))))"

definition pidfile_create :: "'k os \<Rightarrow> 'k fs \<Rightarrow> 'k procs \<Rightarrow> string \<Rightarrow> nat \<Rightarrow> (unit, 'k, 'z) fnc" where
  "pidfile_create os fs pr ipcdir program =
     nc_bind (str_new None) (\<lambda>path.
     nc_bind (str_new None) (\<lambda>pid_str.
     nc_bind (pidfile_path ipcdir path program) (\<lambda>_.
     nc_bind (pidfile_stat os ipcdir program) (\<lambda>exists.
     nc_bind (if exists then nc_succeeds (pidfile_kill os fs pr ipcdir program 0) else nc_return False) (\<lambda>running w.
     if running then nc_throw w
     else nc_bind (str_sprintf pid_str (''%u'' @ [LF]) [PInt (int (proc_getpid pr (kern w)))]) (\<lambda>_.
       nc_bind (file_write os fs path pid_str) (\<lambda>_. two_exit path pid_str)) w)))))"

section \<open>Processes\<close>

definition process_setrlimit :: "'k procs \<Rightarrow> int \<Rightarrow> nat \<Rightarrow> (unit, 'k, 'z) ync" where
  "process_setrlimit pr resource limit w =
     (if 0 < proc_getuid pr (kern w) then nc_throw w else sys_try (sys_setrlimit pr resource limit) w)"

definition sleep :: "'k procs \<Rightarrow> nat \<Rightarrow> (nat, 'k, 'z) ync" where
  "sleep pr sec w = (case sys_sleep pr sec (kern w) of (left, k) \<Rightarrow> Ok left (w\<lparr>kern := k\<rparr>))"

text \<open>Calls of fork(2) while \<open>r\<close> retries are left\<close>

primrec try_fork :: "'k procs \<Rightarrow> nat \<Rightarrow> (nat, 'k, 'z) ync" where
  "try_fork pr 0 = sys_try (sys_fork pr)"
| "try_fork pr (Suc r) =
     nc_bind (syscall (sys_fork pr)) (\<lambda>x. case x of Inr pid \<Rightarrow> nc_return pid
       | Inl e \<Rightarrow> if e = EAGAIN then nc_bind (sleep pr 2) (\<lambda>_. try_fork pr r) else nc_throw)"

text \<open>
  The result is the identifier of the child, or \<open>None\<close> when this is the child: there the function returns, too, after
  \<open>func\<close> is done.
\<close>

definition process_create :: "'k procs \<Rightarrow> (unit, 'k, 'z) ync \<Rightarrow> (nat option, 'k, 'z) ync" where
  "process_create pr func =
     nc_bind (try_fork pr 30) (\<lambda>pid.
     if 0 < pid then nc_return (Some pid)
     else nc_bind (signal_library_init pr) (\<lambda>_.
       nc_bind (nc_catch func nc_return (\<lambda>_. nc_return ())) (\<lambda>_. nc_return None)))"

definition WIFEXITED :: "int \<Rightarrow> bool" where "WIFEXITED status \<longleftrightarrow> status AND 127 = 0"
definition WEXITSTATUS :: "int \<Rightarrow> int" where "WEXITSTATUS status = (status AND 65280) div 256"

definition process_run_system :: "'k procs \<Rightarrow> nat \<Rightarrow> (unit, 'k, 'z) ync" where
  "process_run_system pr cmd =
     nc_bind (cread (CVal cmd 0)) (\<lambda>c w. case sys_system pr c (kern w) of (status, k) \<Rightarrow>
       (if \<not> WIFEXITED status then nc_throw
        else if WEXITSTATUS status \<noteq> 0 then nc_throw else nc_return ()) (w\<lparr>kern := k\<rparr>))"

definition process_sleep :: "'k procs \<Rightarrow> nat \<Rightarrow> (unit, 'k, 'z) ync" where
  "process_sleep pr sec = nc_bind (sleep pr sec) (\<lambda>slept. if 0 < slept then nc_throw else nc_return ())"

text \<open>The result \<open>None\<close> is that of the parent, which exits; otherwise it is the new state of the log.\<close>

definition process_daemonize ::
    "'k os \<Rightarrow> 'k fs \<Rightarrow> 'k procs \<Rightarrow> string \<Rightarrow> log_t \<Rightarrow> nat \<Rightarrow> nat \<Rightarrow> (log_t option, 'k, 'z) fnc" where
  "process_daemonize os fs pr ipcdir L progname logopt =
     nc_bind (sys_try (sys_fork pr)) (\<lambda>pid.
     if 0 < pid then nc_return None
     else nc_bind (sys_try (sys_setsid pr)) (\<lambda>_.
       nc_bind (syscall (sys_close os 0)) (\<lambda>_.
       nc_bind (syscall (sys_close os 1)) (\<lambda>_.
       nc_bind (syscall (sys_close os 2)) (\<lambda>_.
       nc_bind (syslog_open L (CVal progname 0) logopt) (\<lambda>L'.
       nc_bind (pidfile_create os fs pr ipcdir progname) (\<lambda>_. nc_return (Some L'))))))))"

end
