(* ===== verification/NC_Process_Laws.thy ===== *)
theory NC_Process_Laws
  imports NC_Process NC_File_Laws
begin

text \<open>
  What the process component does with the file that holds a process identifier, and which signals it changes.
\<close>

section \<open>Memory\<close>

lemma keeps_free: "keeps {a} w w' \<Longrightarrow> strs w a = None \<Longrightarrow> keeps {} w (w'\<lparr>strs := (strs w')(a := None)\<rparr>)"
  by (simp add: keeps_def)

lemma keeps_wf: "keeps {} w w' \<Longrightarrow> wf_strs w \<Longrightarrow> wf_strs w'"
  by (auto simp: keeps_def wf_strs_def intro: less_le_trans)

lemma keeps_kern [simp]:
  fixes w :: "('k, 'z) sys_heap_scheme"
  shows "keeps S (w\<lparr>kern := k\<rparr>) w' = keeps S w w'" "keeps S w (w'\<lparr>kern := k\<rparr>) = keeps S w w'" "wf_strs (w\<lparr>kern := k\<rparr>) = wf_strs w"
  by (simp_all add: keeps_def wf_strs_def)

lemma str_upd_file:
  fixes w :: "('k, 'z) file_heap_scheme"
  assumes "str_upd w s xs w'"
  shows "files w' = files w" "kern w' = kern w" "keeps {s} w w'" "str_has w' s xs" "mem_ok w' = mem_ok w"
  using str_upd_files [OF assms] str_upd_kern_eq [OF assms] str_upd_keeps [OF assms, of "{s}"] str_upd_has [OF assms] str_upd_mem_ok [OF assms]
  by simp_all

text \<open>A new string\<close>

lemma str_new_file:
  fixes w :: "('k, 'z) file_heap_scheme"
  assumes "mem_ok w" "wf_strs w"
  obtains w1 where "str_new None w = Ok (brk w) w1" "keeps {brk w} w w1" "str_has w1 (brk w) []" "brk w < brk w1" "wf_strs w1" "mem_ok w1"
    "files w1 = files w" "kern w1 = kern w"
proof -
  obtain w1 where w1: "str_new None w = Ok (brk w) w1" "str_upd w (brk w) [] w1" "brk w < brk w1"
    using str_new_ok [OF assms(1)] by blast
  note u = str_upd_file [OF w1(2)]
  have "wf_strs w1" using u(3) w1(3) assms(2) unfolding keeps_def wf_strs_def by (metis less_trans singletonD)
  then show ?thesis using w1 u assms(1) by (intro that [of w1]) simp_all
qed

lemma str_upd_file_wf: "str_upd w s xs w' \<Longrightarrow> str_has w s ys \<Longrightarrow> wf_strs w \<Longrightarrow> wf_strs w'"
  using str_has_lt [of w s ys] str_upd_keeps [of w s xs w' "{s}"] unfolding keeps_def wf_strs_def
  by (metis insertI1 order_less_le_trans singletonD)

section \<open>Process identifier files\<close>

definition pid_path :: "string \<Rightarrow> string \<Rightarrow> string" where
  "pid_path ipcdir program = ipcdir @ ''/'' @ program @ ''.pid''"

definition path_ok :: "string \<Rightarrow> string \<Rightarrow> bool" where
  "path_ok ipcdir program \<longleftrightarrow> NUL \<notin> set ipcdir \<and> NUL \<notin> set program \<and> length (pid_path ipcdir program) < STRING_MAX"

lemma path_ok_NUL: "path_ok ipcdir program \<Longrightarrow> NUL \<notin> set (pid_path ipcdir program)" "pid_path ipcdir program \<noteq> []"
  by (auto simp: path_ok_def pid_path_def)

lemma pidfile_path_ok:
  assumes "str_has w path ys" "str_has w prog nm" "path \<noteq> prog" "path_ok ipc nm" "mem_ok w"
  shows "\<exists>w'. pidfile_path ipc path prog w = Ok () w' \<and> str_upd w path (pid_path ipc nm) w'"
  unfolding pidfile_path_def
proof (rule str_sprintf_ok [OF assms(1)])
  fix v assume "mod_strs {path} w v"
  then have "cread (CVal prog 0) v = Ok nm v"
    by (rule mod_strs_cread [OF _ assms(2)]) (use assms(3,4) in \<open>auto simp: path_ok_def\<close>)
  moreover have "cread (CLit ipc) v = Ok ipc v" using assms(4) by (simp add: path_ok_def cread_def nc_simps cstr_terminated)
  ultimately show "vformat PIDFILE [PStr (CLit ipc), PStr (CVal prog 0)] v = Ok (pid_path ipc nm) v"
    by (simp add: PIDFILE_def pid_path_def nc_simps)
qed (use assms(4,5) path_ok_NUL in \<open>auto simp: path_ok_def\<close>)

text \<open>What is documented of stat(2) and unlink(2), for a file that is missing and a file that is removed\<close>

definition missing_law :: "'k os \<Rightarrow> ('k \<Rightarrow> string \<Rightarrow> string option) \<Rightarrow> bool" where
  "missing_law os view \<longleftrightarrow> (\<forall>k p. view k p = None \<longrightarrow> (\<exists>e k'. sys_stat os p k = (Inl e, k') \<and> view k' = view k))"

definition unlink_law :: "'k os \<Rightarrow> ('k \<Rightarrow> string \<Rightarrow> string option) \<Rightarrow> bool" where
  "unlink_law os view \<longleftrightarrow> (\<forall>k p k'. sys_unlink os p k = (Inr (), k') \<longrightarrow> view k' p = None)"

lemma pidfile_stat_ok:
  fixes w :: "('k, 'z) file_heap_scheme"
  assumes "read_laws os fs view descr" "missing_law os view" "str_has w prog nm" "path_ok ipc nm" "mem_ok w" "wf_strs w"
  shows "\<exists>w'. pidfile_stat os ipc prog w = Ok (view (kern w) (pid_path ipc nm) \<noteq> None) w' \<and> keeps {} w w' \<and> files w' = files w \<and>
    view (kern w') = view (kern w)"
proof -
  let ?a = "brk w" and ?p = "pid_path ipc nm"
  obtain w1 where w1: "str_new None w = Ok ?a w1" "keeps {?a} w w1" "str_has w1 ?a []" "mem_ok w1" "files w1 = files w" "kern w1 = kern w"
    using str_new_file [OF assms(5,6)] by metis
  have lt: "prog < ?a" "strs w ?a = None" using str_has_lt [OF assms(6,3)] wf_strs_fresh [OF assms(6)] by simp_all
  have h1: "str_has w1 prog nm" using keeps_has [OF w1(2), of prog nm] lt(1) assms(3) by simp
  obtain w2 where w2: "pidfile_path ipc ?a prog w1 = Ok () w2" "str_upd w1 ?a ?p w2"
    using pidfile_path_ok [OF w1(3) h1 _ assms(4) w1(4)] lt(1) by auto
  note u = str_upd_file [OF w2(2)]
  have r: "cread (CVal ?a 0) w2 = Ok ?p w2" by (rule cread_str_has [OF u(4) path_ok_NUL(1) [OF assms(4)]])
  obtain x k where k: "sys_stat os ?p (kern w) = (x, k)" by fastforce
  have x: "(\<exists>st. x = Inr st) = (view (kern w) ?p \<noteq> None)" "view k = view (kern w)"
    using assms(1,2) k unfolding read_laws_def missing_law_def by (metis Pair_inject Inl_Inr_False not_None_eq)+
  let ?w3 = "w2\<lparr>kern := k, strs := (strs w2)(?a := None)\<rparr>"
  have d: "str_destroy (Some ?a) (w2\<lparr>kern := k\<rparr>) = Ok () ?w3" using str_destroy_ok [of "w2\<lparr>kern := k\<rparr>" ?a ?p] u(4) by simp
  have "keeps {?a} w (w2\<lparr>kern := k\<rparr>)" using keeps_trans [OF w1(2) u(3)] by simp
  then have "keeps {} w ((w2\<lparr>kern := k\<rparr>)\<lparr>strs := (strs (w2\<lparr>kern := k\<rparr>))(?a := None)\<rparr>)" by (rule keeps_free [OF _ lt(2)])
  moreover have "pidfile_stat os ipc prog w = Ok (view (kern w) ?p \<noteq> None) ?w3"
    using w1(1) w2(1) r k u(2) w1(6) d x(1) by (cases x) (simp_all add: pidfile_stat_def nc_bind_def syscall_def nc_return_def)
  ultimately show ?thesis using u(1) w1(5) x(2) by auto
qed

text \<open>The two destructors at the end leave the strings of the caller.\<close>

lemma two_exit_ok:
  fixes w v :: "('k, 'z) file_heap_scheme"
  assumes "str_has v a xs" "str_has v b ys" "a \<noteq> b" "keeps {a, b} w v" "strs w a = None" "strs w b = None"
  shows "\<exists>w'. two_exit a b v = Ok () w' \<and> keeps {} w w' \<and> files w' = files v \<and> kern w' = kern v"
proof -
  let ?v = "v\<lparr>strs := (strs v)(a := None)\<rparr>"
  have "str_has ?v b ys" using assms(2,3) by (simp add: str_has_def)
  then have "two_exit a b v = Ok () (?v\<lparr>strs := (strs ?v)(b := None)\<rparr>)"
    using str_destroy_ok [OF assms(1)] str_destroy_ok [of ?v b ys] by (simp add: two_exit_def nc_bind_def)
  then show ?thesis using assms(4-6) by (simp add: keeps_def)
qed

text \<open>kill(2) failed for another reason than that there is no such process.\<close>

definition refused :: "errno + unit \<Rightarrow> bool" where
  "refused r \<longleftrightarrow> (case r of Inl e \<Rightarrow> e \<noteq> ESRCH | Inr _ \<Rightarrow> False)"

lemma dec_nat_line: "chomp (dec_nat n @ [LF]) = dec_nat n"
proof -
  have "\<not> isdigit CR" "\<not> isdigit LF" by code_simp+
  then have "CR \<notin> set (dec_nat n)" "LF \<notin> set (dec_nat n)" using dec_nat_digits [of n] by (auto simp: list_all_iff)
  moreover have "dec_nat n \<noteq> []" by (subst dec_nat.simps) simp
  ultimately have "last (dec_nat n) \<noteq> CR" by (metis last_in_set)
  then show ?thesis by (simp add: chomp_def chomp1_def)
qed

lemma dec_nat_length: "n < 10 ^ Suc k \<Longrightarrow> length (dec_nat n) \<le> Suc k"
proof (induction k arbitrary: n)
  case (Suc k)
  then have "length (dec_nat (n div 10)) \<le> Suc k" by (intro Suc.IH) (simp add: less_mult_imp_div_less)
  then show ?case by (subst dec_nat.simps) simp
qed (subst dec_nat.simps, simp)

text \<open>The file is read and the number in it is sent the signal; then the file is removed.\<close>

lemma pidfile_kill_enter:
  fixes w :: "('k, 'z) file_heap_scheme"
  assumes "read_laws os fs view descr" "close_law os view" "missing_law os view" "str_has w prog nm" "path_ok ipc nm"
    "view (kern w) (pid_path ipc nm) = Some (dec_nat n @ [LF])" "n < 2 ^ 31" "mem_ok w" "wf_strs w" "\<forall>a\<ge>brk w. files w a = None"
  obtains a b v where "pidfile_kill os fs pr ipc prog sig w = (case sys_kill pr (int n) sig (kern v) of (r, k') \<Rightarrow>
      if refused r then nc_bind (two_exit a b) (\<lambda>_. nc_throw) (v\<lparr>kern := k'\<rparr>)
      else case sys_unlink os (pid_path ipc nm) k' of (x, k) \<Rightarrow> (case x of Inl e \<Rightarrow> nc_bind (two_exit a b) (\<lambda>_. nc_throw)
        | Inr _ \<Rightarrow> two_exit a b) (v\<lparr>kern := k\<rparr>))"
    "str_has v a (pid_path ipc nm)" "str_has v b (dec_nat n)" "a \<noteq> b" "keeps {a, b} w v" "strs w a = None" "strs w b = None"
    "view (kern v) = view (kern w)" "files v = files w"
proof -
  let ?p = "pid_path ipc nm" and ?t = "dec_nat n @ [LF]"
  obtain w0 where w0: "pidfile_stat os ipc prog w = Ok True w0" "keeps {} w w0" "files w0 = files w" "view (kern w0) = view (kern w)"
    using pidfile_stat_ok [OF assms(1,3,4,5,8,9)] assms(6) by auto
  have m0: "mem_ok w0" "wf_strs w0" "str_has w0 prog nm" "brk w \<le> brk w0" "strs w0 = strs w"
    using keeps_mem_ok [OF w0(2)] keeps_wf [OF w0(2)] keeps_has [OF w0(2), of prog nm] assms(4,8,9) w0(2) by (auto simp: keeps_def)
  let ?a = "brk w0"
  obtain w1 where w1: "str_new None w0 = Ok ?a w1" "keeps {?a} w0 w1" "str_has w1 ?a []" "?a < brk w1" "wf_strs w1" "mem_ok w1"
      "files w1 = files w0" "kern w1 = kern w0"
    using str_new_file [OF m0(1,2)] .
  have lt: "prog < ?a" "strs w ?a = None" using str_has_lt [OF m0(2,3)] wf_strs_fresh [OF m0(2)] m0(5) by simp_all
  have h1: "str_has w1 prog nm" using keeps_has [OF w1(2), of prog nm] lt(1) m0(3) by simp
  obtain w2 where w2: "pidfile_path ipc ?a prog w1 = Ok () w2" "str_upd w1 ?a ?p w2"
    using pidfile_path_ok [OF w1(3) h1 _ assms(5) w1(6)] lt(1) by auto
  note u2 = str_upd_file [OF w2(2)]
  have m2: "mem_ok w2" "wf_strs w2" "brk w1 \<le> brk w2" using u2(3,5) w1(6) str_upd_file_wf [OF w2(2) w1(3,5)] by (auto simp: keeps_def)
  let ?b = "brk w2"
  obtain w3 where w3: "str_new None w2 = Ok ?b w3" "keeps {?b} w2 w3" "str_has w3 ?b []" "?b < brk w3" "wf_strs w3" "mem_ok w3"
      "files w3 = files w2" "kern w3 = kern w2"
    using str_new_file [OF m2(1,2)] .
  have ab: "?a < ?b" using w1(4) m2(3) by simp
  have h3: "str_has w3 ?a ?p" using keeps_has [OF w3(2), of ?a ?p] u2(4) ab by simp
  have v3: "view (kern w3) ?p = Some ?t" "files w3 (brk w3) = None" "view (kern w3) = view (kern w)"
    using w3(7,8) u2(1,2) w1(7,8) w0(3,4) assms(6,10) ab w3(4) m0(4) by simp_all
  have "n < 10 ^ Suc 9" using assms(7) by simp
  then have "length ?t \<le> 11" using dec_nat_length [of n 9] by simp
  then have len: "length ?t < STRING_MAX" by (simp add: STRING_MAX_def)
  obtain w4 where w4: "file_read os fs ?b ?a w3 = Ok () w4" "str_has w4 ?b ?t" "view (kern w4) = view (kern w3)" "files w4 = files w3"
      "keeps {?b} w3 w4"
    using file_read_ok [OF assms(1,2) h3 path_ok_NUL(2) path_ok_NUL(1) [OF assms(5)] v3(1) len w3(3,6,5) v3(2)] by blast
  obtain w5 where w5: "str_chomp ?b w4 = Ok () w5" "str_upd w4 ?b (dec_nat n) w5" using str_chomp_ok [OF w4(2)] dec_nat_line by auto
  note u5 = str_upd_file [OF w5(2)]
  have i: "str_to_uint32 ?b w5 = Ok n w5" "to_int32 (int n) = int n"
    using str_to_uint32_dec [OF u5(4)] to_int32_id [of "int n"] assms(7) by (simp_all add: UINT_MAX_def ULONG_MAX_def)
  have k35: "keeps {?b} w3 w5" by (rule keeps_trans [OF w4(5) u5(3)])
  have h5: "str_has w5 ?a ?p" using keeps_has [OF k35, of ?a ?p] h3 ab by simp
  have f: "view (kern w5) = view (kern w)" "files w5 = files w" "strs w ?b = None"
    using u5(1,2) w4(3,4) v3(3) w3(7) u2(1) w1(7) w0(3) wf_strs_fresh [OF assms(9), of ?b] m0(4) ab by simp_all
  have kp: "keeps {?a, ?b} w w5"
    using w0(2) w1(2) u2(3) w3(2) k35 unfolding keeps_def by auto
  have c: "cread (CVal ?a 0) (w5\<lparr>kern := k\<rparr>) = Ok ?p (w5\<lparr>kern := k\<rparr>)" for k
    by (rule cread_str_has) (use h5 path_ok_NUL(1) [OF assms(5)] in simp_all)
  have "pidfile_kill os fs pr ipc prog sig w = (case sys_kill pr (int n) sig (kern w5) of (r, k') \<Rightarrow>
      if refused r then nc_bind (two_exit ?a ?b) (\<lambda>_. nc_throw) (w5\<lparr>kern := k'\<rparr>)
      else case sys_unlink os ?p k' of (x, k) \<Rightarrow> (case x of Inl e \<Rightarrow> nc_bind (two_exit ?a ?b) (\<lambda>_. nc_throw)
        | Inr _ \<Rightarrow> two_exit ?a ?b) (w5\<lparr>kern := k\<rparr>))"
    using w0(1) w1(1) w2(1) w3(1) w4(1) w5(1) i c
    by (simp add: pidfile_kill_def nc_bind_def syscall_def refused_def split: prod.split sum.split)
  then show ?thesis by (rule that) (use h5 u5(4) ab kp lt(2) f in simp_all)
qed

lemma pidfile_kill_ok:
  fixes w :: "('k, 'z) file_heap_scheme"
  assumes "read_laws os fs view descr" "close_law os view" "missing_law os view" "str_has w prog nm" "path_ok ipc nm"
    "view (kern w) (pid_path ipc nm) = Some (dec_nat n @ [LF])" "n < 2 ^ 31" "mem_ok w" "wf_strs w" "\<forall>a\<ge>brk w. files w a = None"
  shows "\<exists>k r k' w'. view k = view (kern w) \<and> sys_kill pr (int n) sig k = (r, k') \<and> keeps {} w w' \<and> files w' = files w \<and>
    (if refused r then pidfile_kill os fs pr ipc prog sig w = Fail (-1) w' \<and> kern w' = k'
     else kern w' = snd (sys_unlink os (pid_path ipc nm) k') \<and>
       pidfile_kill os fs pr ipc prog sig w = (case fst (sys_unlink os (pid_path ipc nm) k') of Inl _ \<Rightarrow> Fail (-1) w' | Inr _ \<Rightarrow> Ok () w'))"
proof -
  let ?p = "pid_path ipc nm"
  obtain a b v where v: "pidfile_kill os fs pr ipc prog sig w = (case sys_kill pr (int n) sig (kern v) of (r, k') \<Rightarrow>
      if refused r then nc_bind (two_exit a b) (\<lambda>_. nc_throw) (v\<lparr>kern := k'\<rparr>)
      else case sys_unlink os ?p k' of (x, k) \<Rightarrow> (case x of Inl e \<Rightarrow> nc_bind (two_exit a b) (\<lambda>_. nc_throw)
        | Inr _ \<Rightarrow> two_exit a b) (v\<lparr>kern := k\<rparr>))"
      "str_has v a ?p" "str_has v b (dec_nat n)" "a \<noteq> b" "keeps {a, b} w v" "strs w a = None" "strs w b = None"
      "view (kern v) = view (kern w)" "files v = files w"
    using pidfile_kill_enter [OF assms] .
  obtain r k' where k': "sys_kill pr (int n) sig (kern v) = (r, k')" by fastforce
  have ex: "\<exists>w'. two_exit a b (v\<lparr>kern := k\<rparr>) = Ok () w' \<and> keeps {} w w' \<and> files w' = files w \<and> kern w' = k" for k
    using two_exit_ok [of "v\<lparr>kern := k\<rparr>" a ?p b "dec_nat n" w] v by simp
  show ?thesis
  proof (cases "refused r")
    case True
    obtain w' where "two_exit a b (v\<lparr>kern := k'\<rparr>) = Ok () w'" "keeps {} w w'" "files w' = files w" "kern w' = k'" using ex by blast
    then show ?thesis using v(1,8) True k'
      by (intro exI [of _ "kern v"] exI [of _ r] exI [of _ k'] exI [of _ w']) (simp add: nc_bind_def nc_throw_def)
  next
    case False
    obtain x k where x: "sys_unlink os ?p k' = (x, k)" by fastforce
    obtain w' where "two_exit a b (v\<lparr>kern := k\<rparr>) = Ok () w'" "keeps {} w w'" "files w' = files w" "kern w' = k" using ex by blast
    then show ?thesis using v(1,8) False k' x
      by (intro exI [of _ "kern v"] exI [of _ r] exI [of _ k'] exI [of _ w']) (cases x; simp add: nc_bind_def nc_throw_def)
  qed
qed

section \<open>Creating the file\<close>

text \<open>After the two strings are made and the file was looked for\<close>

definition create_rest :: "'k os \<Rightarrow> 'k fs \<Rightarrow> 'k procs \<Rightarrow> string \<Rightarrow> nat \<Rightarrow> nat \<Rightarrow> nat \<Rightarrow> bool \<Rightarrow> (unit, 'k, 'z) fnc" where
  "create_rest os fs pr ipcdir program path pid_str exists =
     nc_bind (if exists then nc_succeeds (pidfile_kill os fs pr ipcdir program 0) else nc_return False) (\<lambda>running w.
     if running then nc_throw w
     else nc_bind (str_sprintf pid_str (''%u'' @ [LF]) [PInt (int (proc_getpid pr (kern w)))]) (\<lambda>_.
       nc_bind (file_write os fs path pid_str) (\<lambda>_. two_exit path pid_str)) w)"

lemma pidfile_create_enter:
  fixes w :: "('k, 'z) file_heap_scheme"
  assumes "read_laws os fs view descr" "missing_law os view" "str_has w prog nm" "path_ok ipc nm" "mem_ok w" "wf_strs w"
  obtains a b v where "pidfile_create os fs pr ipc prog w = create_rest os fs pr ipc prog a b (view (kern w) (pid_path ipc nm) \<noteq> None) v"
    "str_has v a (pid_path ipc nm)" "str_has v b []" "a \<noteq> b" "keeps {a, b} w v" "strs w a = None" "strs w b = None"
    "view (kern v) = view (kern w)" "files v = files w" "str_has v prog nm" "mem_ok v" "wf_strs v"
proof -
  let ?p = "pid_path ipc nm" and ?a = "brk w"
  obtain w1 where w1: "str_new None w = Ok ?a w1" "keeps {?a} w w1" "str_has w1 ?a []" "?a < brk w1" "wf_strs w1" "mem_ok w1"
      "files w1 = files w" "kern w1 = kern w"
    using str_new_file [OF assms(5,6)] .
  let ?b = "brk w1"
  obtain w2 where w2: "str_new None w1 = Ok ?b w2" "keeps {?b} w1 w2" "str_has w2 ?b []" "?b < brk w2" "wf_strs w2" "mem_ok w2"
      "files w2 = files w1" "kern w2 = kern w1"
    using str_new_file [OF w1(6,5)] .
  have lt: "prog < ?a" "strs w ?a = None" "strs w ?b = None"
    using str_has_lt [OF assms(6,3)] wf_strs_fresh [OF assms(6)] w1(4) by simp_all
  have h2: "str_has w2 prog nm" "str_has w2 ?a []"
    using keeps_has [OF w1(2), of prog nm] keeps_has [OF w2(2), of prog nm] keeps_has [OF w2(2), of ?a "[]"] lt(1) assms(3) w1(3,4) by simp_all
  obtain w3 where w3: "pidfile_path ipc ?a prog w2 = Ok () w3" "str_upd w2 ?a ?p w3"
    using pidfile_path_ok [OF h2(2,1) _ assms(4) w2(6)] lt(1) by auto
  note u3 = str_upd_file [OF w3(2)]
  have m3: "mem_ok w3" "wf_strs w3" "str_has w3 prog nm" "str_has w3 ?b []"
    using u3(5) w2(6) str_upd_file_wf [OF w3(2) h2(2) w2(5)] keeps_has [OF u3(3), of prog nm] keeps_has [OF u3(3), of ?b "[]"] h2(1) lt(1) w2(3) w1(4)
    by simp_all
  have v3: "view (kern w3) = view (kern w)" "files w3 = files w" using u3(1,2) w1(7,8) w2(7,8) by simp_all
  obtain v where v: "pidfile_stat os ipc prog w3 = Ok (view (kern w) ?p \<noteq> None) v" "keeps {} w3 v" "files v = files w3" "view (kern v) = view (kern w3)"
    using pidfile_stat_ok [OF assms(1,2) m3(3) assms(4) m3(1,2)] unfolding v3(1) by blast
  have kp: "keeps {?a, ?b} w v" using w1(2) w2(2) u3(3) v(2) unfolding keeps_def by auto
  have "pidfile_create os fs pr ipc prog w = create_rest os fs pr ipc prog ?a ?b (view (kern w) ?p \<noteq> None) v"
    using w1(1) w2(1) w3(1) v(1) by (simp add: pidfile_create_def create_rest_def nc_bind_def)
  then show ?thesis
    by (rule that) (use keeps_has [OF v(2)] keeps_mem_ok [OF v(2)] keeps_wf [OF v(2)] u3(4) m3 v(3,4) v3 kp lt w1(4) in simp_all)
qed

lemma pid_text: "n < 2 ^ 31 \<Longrightarrow> vformat (''%u'' @ [LF]) [PInt (int n)] w = Ok (dec_nat n @ [LF]) w"
  by (simp add: nc_simps)

lemma pid_text_plain: "NUL \<notin> set (dec_nat n @ [LF])"
proof -
  have "\<not> isdigit NUL" by code_simp
  then show ?thesis using dec_nat_digits [of n] by (auto simp: list_all_iff)
qed

lemma pid_text_short: "n < 2 ^ 31 \<Longrightarrow> length (dec_nat n @ [LF]) < STRING_MAX"
  using dec_nat_length [of n 9] by (simp add: STRING_MAX_def)

text \<open>
  mkstemp(3) only replaces the last six characters of the template. The temporary file is in the working directory, so it is not
  the file at an absolute path.
\<close>

definition template_law :: "'k fs \<Rightarrow> bool" where
  "template_law fs \<longleftrightarrow> (\<forall>t k fd name k'. sys_mkstemp fs t k = (Inr (fd, name), k') \<longrightarrow> take (length t - 6) name = take (length t - 6) t)"

lemma template_other:
  assumes "template_law fs" "p = CHR ''/'' # q" "sys_mkstemp fs TMP_TEMPLATE k = (Inr (fd, name), k')"
  shows "name \<noteq> p"
proof
  assume "name = p"
  then have "take 11 (CHR ''/'' # q) = take 11 TMP_TEMPLATE" using assms unfolding template_law_def TMP_TEMPLATE_def by fastforce
  then show False by (simp add: TMP_TEMPLATE_def)
qed

text \<open>When there is no file, the new one holds the identifier of the process.\<close>

lemma pidfile_create_ends:
  fixes w :: "('k, 'z) file_heap_scheme"
  assumes "store_laws os fs view descr" "read_laws os fs view descr" "complete_writes os" "missing_law os view" "template_law fs"
    "str_has w prog nm" "path_ok ipc nm" "ipc = CHR ''/'' # dir" "view (kern w) (pid_path ipc nm) = None" "\<And>k. proc_getpid pr k = n" "n < 2 ^ 31"
    "mem_ok w" "wf_strs w"
  shows "ends (pidfile_create os fs pr ipc prog w)
    (\<lambda>_ w'. view (kern w') (pid_path ipc nm) = Some (dec_nat n @ [LF]) \<and> keeps {} w w' \<and> files w' = files w)
    (\<lambda>w'. view (kern w') (pid_path ipc nm) = None)"
proof -
  let ?p = "pid_path ipc nm" and ?t = "dec_nat n @ [LF]"
  obtain a b v where v: "pidfile_create os fs pr ipc prog w = create_rest os fs pr ipc prog a b (view (kern w) ?p \<noteq> None) v"
      "str_has v a ?p" "str_has v b []" "a \<noteq> b" "keeps {a, b} w v" "strs w a = None" "strs w b = None"
      "view (kern v) = view (kern w)" "files v = files w" "str_has v prog nm" "mem_ok v" "wf_strs v"
    using pidfile_create_enter [OF assms(2,4,6,7,12,13)] .
  obtain w1 where w1: "str_sprintf b (''%u'' @ [LF]) [PInt (int n)] v = Ok () w1" "str_upd v b ?t w1"
    using str_sprintf_ok [OF v(3) pid_text [OF assms(11)] pid_text_short [OF assms(11)] pid_text_plain v(11)] by blast
  note u = str_upd_file [OF w1(2)]
  have run: "pidfile_create os fs pr ipc prog w = nc_bind (file_write os fs a b) (\<lambda>_. two_exit a b) w1"
    using v(1) w1(1) assms(9,10) by (simp add: create_rest_def nc_bind_def nc_return_def)
  have h1: "str_has w1 a ?p" "wf_strs w1" "view (kern w1) ?p = None" "keeps {a, b} w w1"
    using keeps_has [OF u(3), of a ?p] v(2,4) str_upd_file_wf [OF w1(2) v(3,12)] v(8) u(2) assms(9) v(5) u(3) unfolding keeps_def by auto
  have p: "?p = CHR ''/'' # dir @ ''/'' @ nm @ ''.pid''" using assms(8) by (simp add: pid_path_def)
  show ?thesis unfolding run
  proof (rule ends_bind)
    show "ends (file_write os fs a b w1) (\<lambda>_ w'. written os view ?p ?t (kern w') \<and> (\<exists>m\<ge>brk w1. w' = w1\<lparr>brk := m, kern := kern w'\<rparr>))
        (\<lambda>w'. view (kern w') ?p = None)"
      by (rule ends_file_write_any [OF assms(1) h1(1) u(4) path_ok_NUL(2) path_ok_NUL(1) [OF assms(7)] h1(3,2)])
        (rule template_other [OF assms(5) p])
  next
    fix x w2 assume x: "written os view ?p ?t (kern w2) \<and> (\<exists>m\<ge>brk w1. w2 = w1\<lparr>brk := m, kern := kern w2\<rparr>)"
    then obtain m where m: "brk w1 \<le> m" "w2 = w1\<lparr>brk := m, kern := kern w2\<rparr>" by blast
    have e: "strs w2 = strs w1" "files w2 = files w1" "brk w2 = m" "malloc_ok w2 = malloc_ok w1"
      using arg_cong [OF m(2), of strs] arg_cong [OF m(2), of files] arg_cong [OF m(2), of brk] arg_cong [OF m(2), of malloc_ok] by simp_all
    have h2: "str_has w2 a ?p" "str_has w2 b ?t" "keeps {a, b} w w2" using h1(1,4) u(4) e m(1) by (auto simp: str_has_def keeps_def)
    have "view (kern w2) ?p = Some ?t" using x assms(3) by (auto simp: written_def)
    moreover obtain w' where "two_exit a b w2 = Ok () w'" "keeps {} w w'" "files w' = files w2" "kern w' = kern w2"
      using two_exit_ok [OF h2(1,2) v(4) h2(3) v(6,7)] by blast
    ultimately show "ends (two_exit a b w2) (\<lambda>_ w'. view (kern w') ?p = Some ?t \<and> keeps {} w w' \<and> files w' = files w)
        (\<lambda>w'. view (kern w') ?p = None)" using e(2) u(1) v(9) by simp
  qed
qed

end
