(* ===== verification/NC_Process_Props.thy ===== *)
theory NC_Process_Props
  imports NC_Process_Laws NC_File_Props
begin

text \<open>
  The properties of processes, signals and logging, with witnesses on a small system.
\<close>

unbundle bit_operations_syntax

section \<open>A concrete system\<close>



definition pid_procs :: "'k procs" where
  "pid_procs = \<lparr>proc_getuid = (\<lambda>k. 0), proc_getpid = (\<lambda>k. 42), sys_kill = (\<lambda>pid s k. (if pid = 42 then Inr () else Inl ESRCH, k)),
     sys_setrlimit = (\<lambda>r n k. (Inr (), k)), sys_fork = (\<lambda>k. (Inl EAGAIN, k)), sys_sleep = (\<lambda>n k. (0, k)), sys_system = (\<lambda>c k. (0, k)),
     sys_setsid = (\<lambda>k. (Inr 42, k)), sys_waitpid = (\<lambda>k. (Inl ESRCH, k)), sys_sigaction = (\<lambda>s h k. (Inr (), k)),
     sys_signal = (\<lambda>s h k. (Inr (), k))\<rparr>"





section \<open>Process identifier files\<close>






section \<open>Signals\<close>

text \<open>signal(2) sets what the process does on the signal.\<close>

definition signal_law :: "'k procs \<Rightarrow> ('k \<Rightarrow> int \<Rightarrow> disposition) \<Rightarrow> bool" where
  "signal_law pr disp \<longleftrightarrow> (\<forall>s h k. disp (snd (sys_signal pr s h k)) = (disp k)(s := h))"

lemma set_signals_ok:
  fixes w :: "('k, 'z) sys_heap_scheme"
  assumes "signal_law pr disp"
  shows "\<exists>k. set_signals pr h ss w = Ok () (w\<lparr>kern := k\<rparr>) \<and> disp k = (\<lambda>s. if s \<in> set ss then h else disp (kern w) s)"
proof (induction ss arbitrary: w)
  case Nil
  then show ?case by (intro exI [of _ "kern w"]) (simp add: nc_return_def)
next
  case (Cons s ss)
  obtain r k1 where k1: "sys_signal pr s h (kern w) = (r, k1)" by fastforce
  then have d: "disp k1 = (disp (kern w))(s := h)" using assms unfolding signal_law_def by (metis snd_conv)
  obtain k where k: "set_signals pr h ss (w\<lparr>kern := k1\<rparr>) = Ok () (w\<lparr>kern := k\<rparr>)" "disp k = (\<lambda>x. if x \<in> set ss then h else disp k1 x)"
    using Cons [of "w\<lparr>kern := k1\<rparr>"] by (auto cong: if_cong)
  have "set_signals pr h (s # ss) w = Ok () (w\<lparr>kern := k\<rparr>)" using k1 k(1) by (simp add: nc_bind_def syscall_def)
  moreover have "disp k = (\<lambda>x. if x \<in> set (s # ss) then h else disp (kern w) x)" unfolding k(2) d by (rule ext) simp
  ultimately show ?case by blast
qed

text \<open>
  C35. \<^verbatim>\<open>signal_unmask_all\<close> does not undo \<^verbatim>\<open>signal_mask_all\<close>: whatever the process did on its signals before, afterwards five of the six have
  their default action and the second user signal stays ignored; all other signals are as before.
\<close>

theorem signal_unmask_incomplete:
  fixes w :: "('k, 'z) sys_heap_scheme"
  assumes "signal_law pr disp"
  shows "\<exists>k. nc_bind (signal_mask_all pr) (\<lambda>_. signal_unmask_all pr) w = Ok () (w\<lparr>kern := k\<rparr>) \<and> disp k SIGUSR2 = SIG_IGN \<and>
    (\<forall>s\<in>{SIGHUP, SIGINT, SIGQUIT, SIGTSTP, SIGUSR1}. disp k s = SIG_DFL) \<and>
    (\<forall>s. s \<notin> {SIGHUP, SIGINT, SIGQUIT, SIGTSTP, SIGUSR1, SIGUSR2} \<longrightarrow> disp k s = disp (kern w) s)"
proof -
  let ?S = "[SIGHUP, SIGINT, SIGQUIT, SIGTSTP, SIGUSR1]"
  obtain k1 where k1: "signal_mask_all pr w = Ok () (w\<lparr>kern := k1\<rparr>)" "disp k1 = (\<lambda>s. if s \<in> set (?S @ [SIGUSR2]) then SIG_IGN else disp (kern w) s)"
    using set_signals_ok [OF assms, of SIG_IGN "?S @ [SIGUSR2]" w] unfolding signal_mask_all_def append.simps by blast
  obtain k where k: "signal_unmask_all pr (w\<lparr>kern := k1\<rparr>) = Ok () (w\<lparr>kern := k\<rparr>)" "disp k = (\<lambda>s. if s \<in> set ?S then SIG_DFL else disp k1 s)"
    using set_signals_ok [OF assms, of SIG_DFL ?S "w\<lparr>kern := k1\<rparr>"] unfolding signal_unmask_all_def by (auto simp del: set_signals.simps cong: if_cong)
  have "nc_bind (signal_mask_all pr) (\<lambda>_. signal_unmask_all pr) w = Ok () (w\<lparr>kern := k\<rparr>)" using k1(1) k(1) by (simp add: nc_bind_def)
  then show ?thesis using k(2) k1(2) by (intro exI [of _ k]) (simp add: signal_numbers)
qed

text \<open>A system whose state is the table of the actions\<close>

definition sig_procs :: "(int \<Rightarrow> disposition) procs" where
  "sig_procs = pid_procs\<lparr>sys_signal := (\<lambda>s h k. (Inr (), k(s := h)))\<rparr>"

definition sig_mem :: "(int \<Rightarrow> disposition) sys_heap" where
  "sig_mem = \<lparr>strs = Map.empty, brk = 0, malloc_ok = (\<lambda>_ _. True), ents = Map.empty, lists = Map.empty, hashes = Map.empty,
     kern = (\<lambda>s. Default_signal_handler)\<rparr>"

theorem signal_unmask_incomplete_witness:
  "\<exists>k. nc_bind (signal_mask_all sig_procs) (\<lambda>_. signal_unmask_all sig_procs) sig_mem = Ok () (sig_mem\<lparr>kern := k\<rparr>) \<and> k SIGUSR2 = SIG_IGN \<and>
    k SIGHUP = SIG_DFL \<and> k 9 = Default_signal_handler"
proof -
  have l: "signal_law sig_procs (\<lambda>k. k)" by (simp add: signal_law_def sig_procs_def)
  obtain k where "nc_bind (signal_mask_all sig_procs) (\<lambda>_. signal_unmask_all sig_procs) sig_mem = Ok () (sig_mem\<lparr>kern := k\<rparr>)" "k SIGUSR2 = SIG_IGN"
      "\<forall>s\<in>{SIGHUP, SIGINT, SIGQUIT, SIGTSTP, SIGUSR1}. k s = SIG_DFL"
      "\<forall>s. s \<notin> {SIGHUP, SIGINT, SIGQUIT, SIGTSTP, SIGUSR1, SIGUSR2} \<longrightarrow> k s = kern sig_mem s"
    using signal_unmask_incomplete [OF l, of sig_mem] by blast
  then show ?thesis by (intro exI [of _ k]) (simp add: signal_numbers sig_mem_def)
qed

section \<open>Creating processes\<close>

lemma try_fork_again:
  fixes w :: "('k, 'z) sys_heap_scheme"
  assumes "\<And>k. fst (sys_fork pr k) = Inl EAGAIN" "\<And>k. forks (snd (sys_fork pr k)) = Suc (forks k)" "\<And>n k. forks (snd (sys_sleep pr n k)) = forks k"
  shows "\<exists>k. try_fork pr r w = Fail (-1) (w\<lparr>kern := k\<rparr>) \<and> forks k = forks (kern w) + Suc r"
proof (induction r arbitrary: w)
  case 0
  obtain k where "sys_fork pr (kern w) = (Inl EAGAIN, k)" "forks k = Suc (forks (kern w))"
    using assms(1,2) [of "kern w"] by (cases "sys_fork pr (kern w)") simp
  then show ?case by (intro exI [of _ k]) (simp add: sys_try_def nc_bind_def syscall_def nc_throw_def)
next
  case (Suc r)
  obtain k1 where k1: "sys_fork pr (kern w) = (Inl EAGAIN, k1)" "forks k1 = Suc (forks (kern w))"
    using assms(1,2) [of "kern w"] by (cases "sys_fork pr (kern w)") simp
  obtain l k2 where k2: "sys_sleep pr 2 k1 = (l, k2)" "forks k2 = forks k1" using assms(3) [of 2 k1] by (cases "sys_sleep pr 2 k1") simp
  obtain k where k: "try_fork pr r (w\<lparr>kern := k2\<rparr>) = Fail (-1) (w\<lparr>kern := k\<rparr>)" "forks k = forks k2 + Suc r"
    using Suc [of "w\<lparr>kern := k2\<rparr>"] by auto
  show ?case using k1 k2 k by (intro exI [of _ k]) (simp add: nc_bind_def syscall_def sleep_def)
qed

text \<open>
  C33. \<^verbatim>\<open>process_create\<close> gives up: on a system that has no room for another process it calls fork(2) 31 times and then fails, without
  running the function. It never tries without end.
\<close>

theorem process_create_gives_up:
  fixes w :: "('k, 'z) sys_heap_scheme"
  assumes "\<And>k. fst (sys_fork pr k) = Inl EAGAIN" "\<And>k. forks (snd (sys_fork pr k)) = Suc (forks k)" "\<And>n k. forks (snd (sys_sleep pr n k)) = forks k"
  shows "\<exists>k. process_create pr func w = Fail (-1) (w\<lparr>kern := k\<rparr>) \<and> forks k = forks (kern w) + 31"
proof -
  obtain k where "try_fork pr 30 w = Fail (-1) (w\<lparr>kern := k\<rparr>)" "forks k = forks (kern w) + Suc 30"
    using try_fork_again [of pr forks 30 w] assms by auto
  then show ?thesis by (intro exI [of _ k]) (simp add: process_create_def nc_bind_def)
qed

definition busy_procs :: "nat procs" where
  "busy_procs = pid_procs\<lparr>sys_fork := (\<lambda>k. (Inl EAGAIN, Suc k))\<rparr>"

definition busy_mem :: "nat sys_heap" where
  "busy_mem = \<lparr>strs = Map.empty, brk = 0, malloc_ok = (\<lambda>_ _. True), ents = Map.empty, lists = Map.empty, hashes = Map.empty, kern = 0\<rparr>"

theorem process_create_gives_up_witness:
  "process_create busy_procs (nc_return ()) busy_mem = Fail (-1) (busy_mem\<lparr>kern := 31\<rparr>)"
  using process_create_gives_up [of busy_procs "\<lambda>k. k" "nc_return ()" busy_mem] by (simp add: busy_procs_def pid_procs_def busy_mem_def)

section \<open>Logging\<close>

lemma log_changed: "L\<lparr>log_stderr := log_stderr L @ out @ [LF]\<rparr> \<noteq> L" "L\<lparr>log_syslog := log_syslog L @ [x]\<rparr> \<noteq> L"
  by (cases L; simp)+

text \<open>
  C34. After \<^verbatim>\<open>set_log_level\<close> the two outputs of the log agree: a message is written exactly when its level is not above the threshold,
  no matter whether the messages go to the standard error or to the system log.
\<close>

theorem set_log_level_filters:
  assumes "0 \<le> level" "level \<le> 7" "priority \<le> 7" "LOG_TO_STDERR L \<or> LOG_TO_SYSLOG L" "vformat format ap w = Ok out w"
  shows "\<exists>L'. log_vmessage (set_log_level getenv L priority) level format ap w = Ok L' w \<and>
    (L' = set_log_level getenv L priority \<longleftrightarrow> LOG_PRIORITY (set_log_level getenv L priority) < level)"
proof -
  let ?L = "set_log_level getenv L priority"
  have p: "0 \<le> LOG_PRIORITY ?L" "LOG_PRIORITY ?L \<le> 7" "log_mask ?L = 2 ^ (nat (LOG_PRIORITY ?L) + 1) - 1"
    using assms(3) by (simp_all add: set_log_level_def LOG_UPTO_def log_levels)
  have b: "log_bit ?L level \<longleftrightarrow> level \<le> LOG_PRIORITY ?L"
  proof -
    have "bit (mask (nat (LOG_PRIORITY ?L) + 1) :: nat) (nat level) \<longleftrightarrow> nat level < nat (LOG_PRIORITY ?L) + 1" by (simp add: bit_mask_iff)
    then show ?thesis using p assms(1,2) by (auto simp: log_bit_def mask_eq_exp_minus_1 nat_less_iff)
  qed
  have f: "LOG_TO_STDERR ?L = LOG_TO_STDERR L" "LOG_TO_SYSLOG ?L = LOG_TO_SYSLOG L" by (simp_all add: set_log_level_def Let_def)
  note ne = log_changed [of ?L]
  show ?thesis using b f ne assms(4,5) by (auto simp: log_vmessage_def nc_bind_def nc_return_def)
qed

text \<open>At the level of warnings a warning is written.\<close>

theorem set_log_level_filters_witness:
  "\<exists>L'. log_vmessage (set_log_level (\<lambda>_. None) log_start 4) 4 ''full'' [] busy_mem = Ok L' busy_mem \<and> L' \<noteq> set_log_level (\<lambda>_. None) log_start 4"
proof -
  have p: "LOG_PRIORITY (set_log_level (\<lambda>_. None) log_start 4) = 4" by (simp add: set_log_level_def)
  have f: "vformat ''full'' [] busy_mem = Ok ''full'' busy_mem" by (simp add: nc_simps)
  show ?thesis using set_log_level_filters [of 4 4 log_start, OF _ _ _ _ f, of "\<lambda>_. None"] unfolding p by (auto simp: log_start_def)
qed

end
