(* ===== verification/NC_List_Deque.thy ===== *)
theory NC_List_Deque
  imports NC_List_Props
begin

text \<open>
  All operations of the list component that keep its links together, as one interface: an abstract machine of
  the contents of a list and of the client's strings, and the simulation of every sequence of calls by it.
\<close>

section \<open>The abstract machine\<close>

datatype list_op = Push nat | Fetch nat nat | Shift nat | Pop nat | Remove nat | Reverse | Clear

text \<open>
  A state has the texts of the client's strings, by address, and those of the list. \<open>None\<close> means that the call fails. Removing
  at the position behind the last element does nothing.
\<close>

type_synonym list_state = "(nat \<Rightarrow> string) \<times> string list"

fun spec_op :: "list_op \<Rightarrow> list_state \<Rightarrow> list_state option" where
  "spec_op (Push v) (f, xss) = Some (f, xss @ [f v])"
| "spec_op (Fetch d i) (f, xss) = (if i < length xss then Some (f(d := xss ! i), xss) else None)"
| "spec_op (Shift d) (f, xss) = (if xss = [] then None else Some (f(d := hd xss), tl xss))"
| "spec_op (Pop d) (f, xss) = (if xss = [] then None else Some (f(d := last xss), butlast xss))"
| "spec_op (Remove i) (f, xss) = (if i \<le> length xss then Some (f, take i xss @ drop (Suc i) xss) else None)"
| "spec_op Reverse (f, xss) = Some (f, rev xss)"
| "spec_op Clear (f, xss) = Some (f, [])"

primrec spec_ops :: "list_op list \<Rightarrow> list_state \<Rightarrow> list_state option" where
  "spec_ops [] s = Some s"
| "spec_ops (op # ops) s = (case spec_op op s of None \<Rightarrow> None | Some s' \<Rightarrow> spec_ops ops s')"

text \<open>The strings of the client that an operation reads or writes\<close>

primrec op_strs :: "list_op \<Rightarrow> nat set" where
  "op_strs (Push v) = {v}"
| "op_strs (Fetch d i) = {d}"
| "op_strs (Shift d) = {d}"
| "op_strs (Pop d) = {d}"
| "op_strs (Remove i) = {}"
| "op_strs Reverse = {}"
| "op_strs Clear = {}"

lemma spec_op_length: "spec_op op (f, xss) = Some (g, yss) \<Longrightarrow> length yss \<le> Suc (length xss)"
  by (cases op) (auto split: if_splits)

section \<open>The interface\<close>

locale string_deque = string_queue seq val room push fetch shift + string_stack seq val room push fetch pop
  for seq :: "'w \<Rightarrow> nat \<Rightarrow> string list \<Rightarrow> nat set \<Rightarrow> bool" and val :: "'w \<Rightarrow> nat \<Rightarrow> string \<Rightarrow> bool" and room :: "nat \<Rightarrow> bool"
    and push :: "nat \<Rightarrow> nat \<Rightarrow> 'w \<Rightarrow> (unit, 'w) outcome" and fetch :: "nat \<Rightarrow> nat \<Rightarrow> nat \<Rightarrow> 'w \<Rightarrow> (unit, 'w) outcome"
    and shift :: "nat \<Rightarrow> nat \<Rightarrow> 'w \<Rightarrow> (unit, 'w) outcome" and pop :: "nat \<Rightarrow> nat \<Rightarrow> 'w \<Rightarrow> (unit, 'w) outcome" +
  fixes remove :: "nat \<Rightarrow> nat \<Rightarrow> 'w \<Rightarrow> (unit, 'w) outcome"
    and reverse :: "nat \<Rightarrow> 'w \<Rightarrow> (unit, 'w) outcome"
    and clear :: "nat \<Rightarrow> 'w \<Rightarrow> (unit, 'w) outcome"
  assumes room_mono: "room n \<Longrightarrow> m \<le> n \<Longrightarrow> room m"
    and remove_law: "seq w l xss F \<Longrightarrow> i \<le> length xss \<Longrightarrow> room (length xss) \<Longrightarrow>
      \<exists>w' F'. remove l i w = Ok () w' \<and> seq w' l (take i xss @ drop (Suc i) xss) F' \<and>
        (\<forall>e z. e \<notin> F \<longrightarrow> val w e z \<longrightarrow> e \<notin> F' \<and> val w' e z)"
    and remove_range: "seq w l xss F \<Longrightarrow> length xss < i \<Longrightarrow> remove l i w = Fail (-1) w"
    and reverse_law: "seq w l xss F \<Longrightarrow>
      \<exists>w' F'. reverse l w = Ok () w' \<and> seq w' l (rev xss) F' \<and> (\<forall>e z. e \<notin> F \<longrightarrow> val w e z \<longrightarrow> e \<notin> F' \<and> val w' e z)"
    and clear_law: "seq w l xss F \<Longrightarrow>
      \<exists>w' F'. clear l w = Ok () w' \<and> seq w' l [] F' \<and> (\<forall>e z. e \<notin> F \<longrightarrow> val w e z \<longrightarrow> e \<notin> F' \<and> val w' e z)"
begin

primrec run_op :: "nat \<Rightarrow> list_op \<Rightarrow> 'w \<Rightarrow> (unit, 'w) outcome" where
  "run_op l (Push v) = push l v"
| "run_op l (Fetch d i) = fetch d l i"
| "run_op l (Shift d) = shift d l"
| "run_op l (Pop d) = pop d l"
| "run_op l (Remove i) = remove l i"
| "run_op l Reverse = reverse l"
| "run_op l Clear = clear l"

primrec run_ops :: "nat \<Rightarrow> list_op list \<Rightarrow> 'w \<Rightarrow> (unit, 'w) outcome" where
  "run_ops l [] = nc_return ()"
| "run_ops l (op # ops) = nc_bind (run_op l op) (\<lambda>_. run_ops l ops)"

text \<open>The simulation relation, for the client's strings \<open>V\<close>\<close>

definition sim :: "nat set \<Rightarrow> nat \<Rightarrow> 'w \<Rightarrow> list_state \<Rightarrow> bool" where
  "sim V l w s \<longleftrightarrow> (\<exists>F. seq w l (snd s) F \<and> (\<forall>v\<in>V. v \<notin> F \<and> val w v (fst s v)))"

text \<open>Each operation does what the machine does, and fails where it has no step, leaving the state as it was.\<close>

lemma run_op_sim:
  assumes "sim V l w s" "op_strs op \<subseteq> V" "room (length (snd s))"
  shows "case spec_op op s of None \<Rightarrow> run_op l op w = Fail (-1) w | Some s' \<Rightarrow> \<exists>w'. run_op l op w = Ok () w' \<and> sim V l w' s'"
proof -
  obtain f xss where s: "s = (f, xss)" by (cases s)
  obtain F where F: "seq w l xss F" "\<And>v. v \<in> V \<Longrightarrow> v \<notin> F \<and> val w v (f v)" using assms(1) by (auto simp: sim_def s)
  have r: "room (length xss)" using assms(3) s by simp
  show ?thesis
  proof (cases op)
    case (Push v)
    then show ?thesis using push_law [OF F(1), of v "f v"] F(2) assms(2) r by (fastforce simp: s sim_def)
  next
    case (Fetch d i)
    show ?thesis
    proof (cases "i < length xss")
      case True
      then have "room i" using room_mono [OF r] by simp
      then show ?thesis using fetch_law [OF F(1) True, of d "f d"] F(2) assms(2) True Fetch by (fastforce simp: s sim_def)
    qed (use fetch_range [OF F(1)] Fetch in \<open>simp add: s\<close>)
  next
    case (Shift d)
    show ?thesis
    proof (cases xss)
      case (Cons x yss)
      then have "room (length yss)" using room_mono [OF r] by simp
      then show ?thesis using shift_law [of w l x yss F d "f d"] F assms(2) Cons Shift by (fastforce simp: s sim_def)
    qed (use shift_empty [of w l F] F(1) Shift in \<open>simp add: s\<close>)
  next
    case (Pop d)
    show ?thesis
    proof (cases xss rule: rev_cases)
      case (snoc yss x)
      then have "room (length yss)" using room_mono [OF r] by simp
      then show ?thesis using pop_law [of w l yss x F d "f d"] F assms(2) snoc Pop by (fastforce simp: s sim_def)
    qed (use pop_empty [of w l F] F(1) Pop in \<open>simp add: s\<close>)
  next
    case (Remove i)
    then show ?thesis using remove_law [OF F(1) _ r, of i] remove_range [OF F(1), of i] F(2) by (fastforce simp: s sim_def)
  next
    case Reverse
    then show ?thesis using reverse_law [OF F(1)] F(2) by (fastforce simp: s sim_def)
  next
    case Clear
    then show ?thesis using clear_law [OF F(1)] F(2) by (fastforce simp: s sim_def)
  qed
qed

lemma run_ops_sim:
  assumes "sim V l w s" "\<forall>op\<in>set ops. op_strs op \<subseteq> V" "room (length (snd s) + length ops)"
  shows "case spec_ops ops s of None \<Rightarrow> (\<exists>w'. run_ops l ops w = Fail (-1) w') | Some s' \<Rightarrow> \<exists>w'. run_ops l ops w = Ok () w' \<and> sim V l w' s'"
  using assms
proof (induction ops arbitrary: w s)
  case (Cons op ops)
  have st: "case spec_op op s of None \<Rightarrow> run_op l op w = Fail (-1) w | Some s' \<Rightarrow> \<exists>w'. run_op l op w = Ok () w' \<and> sim V l w' s'"
    by (rule run_op_sim [OF Cons.prems(1)]) (use Cons.prems(2) room_mono [OF Cons.prems(3)] in simp_all)
  show ?case
  proof (cases "spec_op op s")
    case None
    then show ?thesis using st by (simp add: nc_bind_def)
  next
    case (Some t)
    then obtain w1 where w1: "run_op l op w = Ok () w1" "sim V l w1 t" using st by auto
    have "length (snd t) \<le> Suc (length (snd s))" using spec_op_length [of op "fst s" "snd s" "fst t" "snd t"] Some by simp
    then have "room (length (snd t) + length ops)" by (intro room_mono [OF Cons.prems(3)]) simp
    then show ?thesis using Cons.IH [OF w1(2)] Cons.prems(2) w1(1) Some by (cases "spec_ops ops t") (simp_all add: nc_bind_def)
  qed
qed (simp add: nc_return_def)

end

section \<open>The lists of the library\<close>

text \<open>A result whose strings are among the old ones\<close>

lemma list_obj_rest:
  assumes "list_at w l cs xss" "list_at w' l ds yss" "mod_lh S (fst ` set cs) {l} w w'" "S \<subseteq> snd ` set cs" "snd ` set ds \<subseteq> snd ` set cs"
    "wf_lh w" "mem_ok w"
  shows "\<exists>F'. list_obj w' l yss F' \<and> (\<forall>e z. e \<notin> snd ` set cs \<longrightarrow> str_has w e z \<longrightarrow> e \<notin> F' \<and> str_has w' e z)"
proof -
  have c: "list_cells w l cs" "vals w cs xss" using assms(1) by (auto simp: list_at_def)
  have lt: "l < brk w" "fst ` set cs \<subseteq> {..<brk w}" "snd ` set cs \<subseteq> {..<brk w}"
    using list_cells_lt [OF c(1) assms(6)] vals_lt [OF c(2)] assms(6) by auto
  have "list_obj w' l yss (snd ` set ds)"
    by (rule list_obj_frame [OF assms(2,3,6,7)]) (use lt assms(4) mod_lh_brk [OF assms(3)] in fastforce)
  moreover have "str_has w' e z" if "e \<notin> snd ` set cs" "str_has w e z" for e z
    using mod_lh_has [OF assms(3), of e z] that assms(4) by auto
  ultimately show ?thesis using assms(5) by (intro exI [of _ "snd ` set ds"]) auto
qed

lemma list_obj_delete:
  assumes "list_obj w l xss F" "i \<le> length xss" "list_room (length xss)"
  shows "\<exists>w' F'. list_delete l i w = Ok () w' \<and> list_obj w' l (take i xss @ drop (Suc i) xss) F' \<and>
    (\<forall>e z. e \<notin> F \<longrightarrow> str_has w e z \<longrightarrow> e \<notin> F' \<and> str_has w' e z)"
proof -
  obtain cs where c: "list_at w l cs xss" "F = snd ` set cs" "wf_lh w" "mem_ok w" using assms(1) by (auto simp: list_obj_def)
  have len: "length cs = length xss" "length cs < 2 ^ 64"
    using vals_length [of w cs xss] c(1) assms(3) by (simp_all add: list_at_def list_room_def)
  show ?thesis
  proof (cases "i < length xss")
    case True
    obtain w' where w': "list_delete l i w = Ok () w'" "list_at w' l (take i cs @ drop (Suc i) cs) (take i xss @ drop (Suc i) xss)"
        "mod_lh {snd (cs ! i)} (fst ` set cs) {l} w w'" using list_delete_ok [OF c(1) True len(2) c(3)] by blast
    have "{snd (cs ! i)} \<subseteq> snd ` set cs" "snd ` set (take i cs @ drop (Suc i) cs) \<subseteq> snd ` set cs"
      using True len(1) by (auto dest: in_set_takeD in_set_dropD)
    from list_obj_rest [OF c(1) w'(2,3) this c(3,4)] w'(1) c(2) show ?thesis by blast
  next
    case False
    then have "i = length xss" using assms(2) by simp
    then show ?thesis using list_delete_at_count [OF c(1,3)] len assms(1) by auto
  qed
qed

lemma list_obj_delete_range: "list_obj w l xss F \<Longrightarrow> length xss < i \<Longrightarrow> list_delete l i w = Fail (-1) w"
  using vals_length by (fastforce simp: list_obj_def list_at_def list_cells_def list_delete_def list_run)

lemma list_obj_reverse:
  assumes "list_obj w l xss F"
  shows "\<exists>w' F'. list_reverse l w = Ok () w' \<and> list_obj w' l (rev xss) F' \<and> (\<forall>e z. e \<notin> F \<longrightarrow> str_has w e z \<longrightarrow> e \<notin> F' \<and> str_has w' e z)"
proof -
  obtain cs where c: "list_at w l cs xss" "F = snd ` set cs" "wf_lh w" "mem_ok w" using assms by (auto simp: list_obj_def)
  obtain w' where w': "list_reverse l w = Ok () w'" "list_at w' l (rev cs) (rev xss)" "mod_lh {} (fst ` set cs) {l} w w'"
    using list_reverse_ok [OF c(1,3)] by blast
  from list_obj_rest [OF c(1) w'(2,3) _ _ c(3,4)] w'(1) c(2) show ?thesis by auto
qed

lemma list_obj_clear:
  assumes "list_obj w l xss F"
  shows "\<exists>w' F'. list_truncate l w = Ok () w' \<and> list_obj w' l [] F' \<and> (\<forall>e z. e \<notin> F \<longrightarrow> str_has w e z \<longrightarrow> e \<notin> F' \<and> str_has w' e z)"
proof -
  obtain cs where c: "list_at w l cs xss" "F = snd ` set cs" "wf_lh w" "mem_ok w" using assms by (auto simp: list_obj_def)
  from list_obj_rest [OF c(1) cleared_empty cleared_mod _ _ c(3,4)] list_truncate_ok [OF c(1,3)] c(2) show ?thesis by auto
qed

lemma list_room_mono: "list_room n \<Longrightarrow> m \<le> n \<Longrightarrow> list_room m"
  by (simp add: list_room_def)

interpretation ld: string_deque list_obj str_has list_room list_push list_get list_shift list_pop list_delete list_reverse list_truncate
  by unfold_locales (rule list_room_mono list_obj_delete list_obj_delete_range list_obj_reverse list_obj_clear; assumption)+

text \<open>A sequence of calls, as a client of the library writes it\<close>

primrec list_call :: "nat \<Rightarrow> list_op \<Rightarrow> (unit, 'z) lnc" where
  "list_call l (Push v) = list_push l v"
| "list_call l (Fetch d i) = list_get d l i"
| "list_call l (Shift d) = list_shift d l"
| "list_call l (Pop d) = list_pop d l"
| "list_call l (Remove i) = list_delete l i"
| "list_call l Reverse = list_reverse l"
| "list_call l Clear = list_truncate l"

primrec list_calls :: "nat \<Rightarrow> list_op list \<Rightarrow> (unit, 'z) lnc" where
  "list_calls l [] = nc_return ()"
| "list_calls l (op # ops) = nc_bind (list_call l op) (\<lambda>_. list_calls l ops)"

lemma list_call_run: "list_call l op = ld.run_op l op"
  by (cases op) simp_all

lemma list_calls_run: "list_calls l ops = ld.run_ops l ops"
  by (induction ops) (simp_all add: list_call_run)

text \<open>
  C9. The list component refines a machine on sequences of strings. For every sequence of calls of \<^verbatim>\<open>list_push\<close>, \<^verbatim>\<open>list_get\<close>, \<^verbatim>\<open>list_shift\<close>,
  \<^verbatim>\<open>list_pop\<close>, \<^verbatim>\<open>list_delete\<close>, \<^verbatim>\<open>list_reverse\<close> and \<^verbatim>\<open>list_truncate\<close>, there is no fault, the sequence fails exactly where the machine does, and
  otherwise the links of the list are intact, and the list and all strings of the client hold what they hold in the machine.
\<close>

theorem list_calls_refine:
  assumes "list_obj w l xss F" "\<forall>v\<in>V. v \<notin> F \<and> str_has w v (f v)" "\<forall>op\<in>set ops. op_strs op \<subseteq> V" "length xss + length ops + 1 < 2 ^ 32"
  shows "case spec_ops ops (f, xss) of
      None \<Rightarrow> (\<exists>w'. list_calls l ops w = Fail (-1) w')
    | Some (g, yss) \<Rightarrow> (\<exists>w' F'. list_calls l ops w = Ok () w' \<and> list_obj w' l yss F' \<and> (\<forall>v\<in>V. v \<notin> F' \<and> str_has w' v (g v)))"
proof -
  have "ld.sim V l w (f, xss)" using assms(1,2) by (auto simp: ld.sim_def)
  moreover have "list_room (length (snd (f, xss)) + length ops)" using assms(4) by (simp add: list_room_def)
  ultimately have *: "case spec_ops ops (f, xss) of None \<Rightarrow> (\<exists>w'. list_calls l ops w = Fail (-1) w')
      | Some s' \<Rightarrow> \<exists>w'. list_calls l ops w = Ok () w' \<and> ld.sim V l w' s'"
    unfolding list_calls_run by (rule ld.run_ops_sim [OF _ assms(3)])
  show ?thesis
  proof (cases "spec_ops ops (f, xss)")
    case (Some s')
    obtain g yss where s': "s' = (g, yss)" by (cases s')
    obtain w' where w': "list_calls l ops w = Ok () w'" "ld.sim V l w' (g, yss)" using * Some s' by auto
    obtain F' where "list_obj w' l yss F'" "\<forall>v\<in>V. v \<notin> F' \<and> str_has w' v (g v)" using w'(2) unfolding ld.sim_def by auto
    then show ?thesis using w'(1) Some s' by auto
  qed (use * in simp)
qed

text \<open>Pushing, reversing, taking from both ends, and removing\<close>

theorem list_calls_refine_witness:
  "\<exists>w' F'. list_calls 4 [Push 0, Reverse, Shift 2, Pop 3, Remove 1, Push 2] lmem = Ok () w' \<and> list_obj w' 4 [''c'', ''one''] F' \<and>
     str_has w' 2 ''one'' \<and> str_has w' 3 ''b''"
proof -
  define f where "f = (\<lambda>v :: nat. if v = 0 then ''one'' else [])"
  have v: "\<forall>v\<in>{0, 2, 3}. v \<notin> {6, 8, 10} \<and> str_has lmem v (f v)" using lmem_has by (simp add: f_def)
  have "spec_ops [Push 0, Reverse, Shift 2, Pop 3, Remove 1, Push 2] (f, [''b'', ''a'', ''c'']) =
      Some (f(2 := ''one'', 3 := ''b''), [''c'', ''one''])" by (simp add: f_def)
  then show ?thesis
    using list_calls_refine [OF lmem_obj(1) v, of "[Push 0, Reverse, Shift 2, Pop 3, Remove 1, Push 2]"] by auto
qed

end
