(* ===== verification/NC_Hash_Machine.thy ===== *)
theory NC_Hash_Machine
  imports NC_Hash_Props
begin

text \<open>
  The hash table as an abstract machine: a finite map and the client's strings, and the simulation of every sequence of
  calls by it.
\<close>

section \<open>The abstract machine\<close>

datatype table_op = Put string nat | Get nat string | Delete string | Wipe

type_synonym table_state = "(nat \<Rightarrow> string) \<times> (string \<rightharpoonup> string)"

text \<open>\<open>None\<close> means that the call fails: the key is not there.\<close>

fun table_step :: "table_op \<Rightarrow> table_state \<Rightarrow> table_state option" where
  "table_step (Put k u) (f, m) = Some (f, m(k \<mapsto> f u))"
| "table_step (Get d k) (f, m) = map_option (\<lambda>v. (f(d := v), m)) (m k)"
| "table_step (Delete k) (f, m) = (if m k = None then None else Some (f, m(k := None)))"
| "table_step Wipe (f, m) = Some (f, Map.empty)"

primrec table_steps :: "table_op list \<Rightarrow> table_state \<Rightarrow> table_state option" where
  "table_steps [] s = Some s"
| "table_steps (op # ops) s = (case table_step op s of None \<Rightarrow> None | Some s' \<Rightarrow> table_steps ops s')"

primrec table_strs :: "table_op \<Rightarrow> nat set" where
  "table_strs (Put k u) = {u}"
| "table_strs (Get d k) = {d}"
| "table_strs (Delete k) = {}"
| "table_strs Wipe = {}"

text \<open>
  What the calls of a sequence need: the keys are valid, and a value that is stored is not taken for a key.
\<close>

primrec table_key :: "(string \<Rightarrow> bool) \<Rightarrow> table_op \<Rightarrow> bool" where
  "table_key valid (Put k u) = valid k"
| "table_key valid (Get d k) = valid k"
| "table_key valid (Delete k) = valid k"
| "table_key valid Wipe = True"

primrec table_fits :: "(string \<Rightarrow> string \<Rightarrow> bool) \<Rightarrow> table_op list \<Rightarrow> table_state \<Rightarrow> bool" where
  "table_fits fits [] s = True"
| "table_fits fits (op # ops) s = ((case op of Put k u \<Rightarrow> fits k (fst s u) | _ \<Rightarrow> True) \<and>
     (case table_step op s of None \<Rightarrow> True | Some s' \<Rightarrow> table_fits fits ops s'))"

lemma table_step_card:
  assumes "table_step op (f, m) = Some (g, m')" "finite (dom m)"
  shows "card (dom m') \<le> Suc (card (dom m))"
proof (cases op)
  case (Put k u)
  then have "dom m' = insert k (dom m)" using assms(1) by auto
  then show ?thesis using assms(2) by (simp add: card_insert_if)
next
  case (Delete k)
  then have "dom m' = dom m - {k}" using assms(1) by (auto split: if_splits)
  then show ?thesis using card_Diff1_le [of "dom m" k] by simp
qed (use assms in auto)

section \<open>The interface\<close>

locale string_table_clear = string_table tab val valid fits room put get del
  for tab :: "'w \<Rightarrow> nat \<Rightarrow> (string \<rightharpoonup> string) \<Rightarrow> nat set \<Rightarrow> bool" and val :: "'w \<Rightarrow> nat \<Rightarrow> string \<Rightarrow> bool"
    and valid :: "string \<Rightarrow> bool" and fits :: "string \<Rightarrow> string \<Rightarrow> bool" and room :: "nat \<Rightarrow> bool"
    and put :: "nat \<Rightarrow> string \<Rightarrow> nat \<Rightarrow> 'w \<Rightarrow> (unit, 'w) outcome" and get :: "nat \<Rightarrow> nat \<Rightarrow> string \<Rightarrow> 'w \<Rightarrow> (unit, 'w) outcome"
    and del :: "nat \<Rightarrow> string \<Rightarrow> 'w \<Rightarrow> (unit, 'w) outcome" +
  fixes wipe :: "nat \<Rightarrow> 'w \<Rightarrow> (unit, 'w) outcome"
  assumes wipe_law: "tab w h m F \<Longrightarrow>
      \<exists>w' F'. wipe h w = Ok () w' \<and> tab w' h Map.empty F' \<and> (\<forall>d y. d \<notin> F \<longrightarrow> val w d y \<longrightarrow> d \<notin> F' \<and> val w' d y)"
begin

primrec run_op :: "nat \<Rightarrow> table_op \<Rightarrow> 'w \<Rightarrow> (unit, 'w) outcome" where
  "run_op h (Put k u) = put h k u"
| "run_op h (Get d k) = get d h k"
| "run_op h (Delete k) = del h k"
| "run_op h Wipe = wipe h"

primrec run_ops :: "nat \<Rightarrow> table_op list \<Rightarrow> 'w \<Rightarrow> (unit, 'w) outcome" where
  "run_ops h [] = nc_return ()"
| "run_ops h (op # ops) = nc_bind (run_op h op) (\<lambda>_. run_ops h ops)"

definition sim :: "nat set \<Rightarrow> nat \<Rightarrow> 'w \<Rightarrow> table_state \<Rightarrow> bool" where
  "sim V h w s \<longleftrightarrow> (\<exists>F. tab w h (snd s) F \<and> (\<forall>v\<in>V. v \<notin> F \<and> val w v (fst s v)))"

lemma run_op_sim:
  assumes "sim V h w s" "table_strs op \<subseteq> V" "table_key valid op" "case op of Put k u \<Rightarrow> fits k (fst s u) | _ \<Rightarrow> True"
    "room (card (dom (snd s)))"
  shows "case table_step op s of None \<Rightarrow> run_op h op w = Fail (-1) w | Some s' \<Rightarrow> \<exists>w'. run_op h op w = Ok () w' \<and> sim V h w' s'"
proof -
  obtain f m where s: "s = (f, m)" by (cases s)
  obtain F where F: "tab w h m F" "\<And>v. v \<in> V \<Longrightarrow> v \<notin> F \<and> val w v (f v)" using assms(1) by (auto simp: sim_def s)
  have r: "room (card (dom m))" using assms(5) s by simp
  show ?thesis
  proof (cases op)
    case (Put k u)
    then show ?thesis using put_law [OF F(1), of k u "f u"] F(2) assms(2-4) r by (fastforce simp: s sim_def)
  next
    case (Get d k)
    show ?thesis
    proof (cases "m k")
      case (Some v)
      then show ?thesis using get_law [OF F(1), of k d "f d" v] F(2) assms(2,3) Get by (fastforce simp: s sim_def)
    qed (use get_none [OF F(1), of k d] assms(3) Get in \<open>simp add: s\<close>)
  next
    case (Delete k)
    show ?thesis
    proof (cases "m k")
      case (Some v)
      then show ?thesis using del_law [OF F(1), of k v] F(2) assms(3) Delete r by (fastforce simp: s sim_def)
    qed (use del_none [OF F(1), of k] assms(3) Delete in \<open>simp add: s\<close>)
  next
    case Wipe
    then show ?thesis using wipe_law [OF F(1)] F(2) by (fastforce simp: s sim_def)
  qed
qed

lemma run_ops_sim:
  assumes "sim V h w s" "\<forall>op\<in>set ops. table_strs op \<subseteq> V \<and> table_key valid op" "table_fits fits ops s"
    "room (card (dom (snd s)) + length ops)"
  shows "case table_steps ops s of None \<Rightarrow> (\<exists>w'. run_ops h ops w = Fail (-1) w') | Some s' \<Rightarrow> \<exists>w'. run_ops h ops w = Ok () w' \<and> sim V h w' s'"
  using assms
proof (induction ops arbitrary: w s)
  case (Cons op ops)
  have st: "case table_step op s of None \<Rightarrow> run_op h op w = Fail (-1) w | Some s' \<Rightarrow> \<exists>w'. run_op h op w = Ok () w' \<and> sim V h w' s'"
    by (rule run_op_sim [OF Cons.prems(1)]) (use Cons.prems(2,3) room_le [OF Cons.prems(4)] in simp_all)
  show ?case
  proof (cases "table_step op s")
    case None
    then show ?thesis using st by (simp add: nc_bind_def)
  next
    case (Some t)
    then obtain w1 where w1: "run_op h op w = Ok () w1" "sim V h w1 t" using st by auto
    have "finite (dom (snd s))" using Cons.prems(1) dom_finite by (auto simp: sim_def)
    then have "card (dom (snd t)) \<le> Suc (card (dom (snd s)))" using table_step_card [of op "fst s" "snd s" "fst t" "snd t"] Some by simp
    then have "room (card (dom (snd t)) + length ops)" by (intro room_le [OF Cons.prems(4)]) simp
    then show ?thesis using Cons.IH [OF w1(2)] Cons.prems(2,3) w1(1) Some by (cases "table_steps ops t") (simp_all add: nc_bind_def)
  qed
qed (simp add: nc_return_def)

end

section \<open>The hash table of the library\<close>

lemma hash_table_wipe:
  assumes "hash_table w h m F"
  shows "\<exists>w' F'. hash_truncate h w = Ok () w' \<and> hash_table w' h Map.empty F' \<and> (\<forall>d y. d \<notin> F \<longrightarrow> str_has w d y \<longrightarrow> d \<notin> F' \<and> str_has w' d y)"
  using hash_table_truncate [OF assms] by auto

interpretation hm: string_table_clear hash_table str_has valid_key pair_fits hash_room
  "\<lambda>h k u. hash_set h (CLit k) u" "\<lambda>d h k. hash_get d h (CLit k)" "\<lambda>h k. hash_delete h (CLit k)" hash_truncate
  by unfold_locales (rule hash_table_wipe)

primrec hash_call :: "nat \<Rightarrow> table_op \<Rightarrow> (unit, 'z) hnc" where
  "hash_call h (Put k u) = hash_set h (CLit k) u"
| "hash_call h (Get d k) = hash_get d h (CLit k)"
| "hash_call h (Delete k) = hash_delete h (CLit k)"
| "hash_call h Wipe = hash_truncate h"

primrec hash_calls :: "nat \<Rightarrow> table_op list \<Rightarrow> (unit, 'z) hnc" where
  "hash_calls h [] = nc_return ()"
| "hash_calls h (op # ops) = nc_bind (hash_call h op) (\<lambda>_. hash_calls h ops)"

lemma hash_call_run: "hash_call h op = hm.run_op h op"
  by (cases op) simp_all

lemma hash_calls_run: "hash_calls h ops = hm.run_ops h ops"
  by (induction ops) (simp_all add: hash_call_run)

text \<open>
  C8. The hash table refines a finite map. For every sequence of calls of \<^verbatim>\<open>hash_set\<close>, \<^verbatim>\<open>hash_get\<close>, \<^verbatim>\<open>hash_delete\<close> and \<^verbatim>\<open>hash_truncate\<close> in which no
  value is stored that the search could take for a key, there is no fault, the sequence fails exactly where a key is looked up
  or deleted that the map does not have, and otherwise the buckets are intact, and the table, its counter and all strings of the client
  hold what they hold in the machine.
\<close>

theorem hash_calls_refine:
  assumes "hash_table w h m F" "\<forall>v\<in>V. v \<notin> F \<and> str_has w v (f v)" "\<forall>op\<in>set ops. table_strs op \<subseteq> V \<and> table_key valid_key op"
    "table_fits pair_fits ops (f, m)" "card (dom m) + length ops < 2 ^ 62"
  shows "case table_steps ops (f, m) of
      None \<Rightarrow> (\<exists>w'. hash_calls h ops w = Fail (-1) w')
    | Some (g, m') \<Rightarrow> (\<exists>w' F' x. hash_calls h ops w = Ok () w' \<and> hash_table w' h m' F' \<and> (\<forall>v\<in>V. v \<notin> F' \<and> str_has w' v (g v)) \<and>
        hashes w' h = Some x \<and> h_count x = card (dom m'))"
proof -
  have "hm.sim V h w (f, m)" using assms(1,2) by (auto simp: hm.sim_def)
  moreover have "hash_room (card (dom (snd (f, m))) + length ops)" using assms(5) by (simp add: hash_room_def)
  ultimately have *: "case table_steps ops (f, m) of None \<Rightarrow> (\<exists>w'. hash_calls h ops w = Fail (-1) w')
      | Some s' \<Rightarrow> \<exists>w'. hash_calls h ops w = Ok () w' \<and> hm.sim V h w' s'"
    unfolding hash_calls_run by (rule hm.run_ops_sim [OF _ assms(3,4)])
  show ?thesis
  proof (cases "table_steps ops (f, m)")
    case (Some s')
    obtain g m' where s': "s' = (g, m')" by (cases s')
    obtain w' where w': "hash_calls h ops w = Ok () w'" "hm.sim V h w' (g, m')" using * Some s' by auto
    obtain F' where F': "hash_table w' h m' F'" "\<forall>v\<in>V. v \<notin> F' \<and> str_has w' v (g v)" using w'(2) unfolding hm.sim_def by auto
    moreover have "\<exists>x. hashes w' h = Some x \<and> h_count x = card (dom m')" using F'(1) by (auto simp: hash_table_def hash_rep_def)
    ultimately show ?thesis using w'(1) Some s' by auto
  qed (use * in simp)
qed

theorem hash_calls_refine_witness:
  "\<exists>w' F' x. hash_calls 3 [Put ''k'' 0, Put ''ab'' 0, Put ''k'' 1, Get 2 ''k'', Delete ''ab''] hmem = Ok () w' \<and>
     hash_table w' 3 [''k'' \<mapsto> ''two''] F' \<and> str_has w' 2 ''two'' \<and> hashes w' 3 = Some x \<and> h_count x = 1"
proof -
  let ?ops = "[Put ''k'' 0, Put ''ab'' 0, Put ''k'' 1, Get 2 ''k'', Delete ''ab'']"
  define f where "f = (\<lambda>v :: nat. if v = 0 then ''one'' else if v = 1 then ''two'' else [])"
  have v: "\<forall>v\<in>{0, 1, 2}. v \<notin> {} \<and> str_has hmem v (f v)" using hmem_has by (simp add: f_def)
  have "[''k'' \<mapsto> ''two''](''ab'' := None) = [''k'' \<mapsto> ''two'']" by auto
  then have "table_steps ?ops (f, Map.empty) = Some (f(2 := ''two''), [''k'' \<mapsto> ''two''])" by (simp add: f_def fun_upd_twist)
  moreover have "\<forall>op\<in>set ?ops. table_strs op \<subseteq> {0, 1, 2} \<and> table_key valid_key op" using sample_keys by simp
  moreover have "table_fits pair_fits ?ops (f, Map.empty)" using sample_fits by (simp add: f_def)
  ultimately show ?thesis using hash_calls_refine [OF hmem_table v, of ?ops] by auto
qed

end
