(* ===== verification/NC_Test.thy ===== *)
theory NC_Test
  imports NC_File
begin

text \<open>
  The test harness of the library (src/test.c): the checks, the table of tests, and the function that runs
  them. The heap of files is extended by the global variables of the harness. What it prints is not modelled. The environment
  variables, mkdtemp(3) and the stream functions of the C library are parameters (\<open>harness\<close>), and so are the functions
  that a program registers; the table holds their numbers.
\<close>

section \<open>State\<close>

record test_env_t =
  te_tmpdir :: "nat option"
  te_account :: "nat option"
  te_password :: "nat option"
  te_session :: "nat option"

record 'k harness =
  genv :: "string \<Rightarrow> string option"
  sys_mkdtemp :: "string \<Rightarrow> (string, 'k) syscall"
  sys_fopen :: "string \<Rightarrow> string \<Rightarrow> (nat, 'k) syscall"
  sys_fputs :: "string \<Rightarrow> nat \<Rightarrow> (unit, 'k) syscall"
  sys_fclose :: "nat \<Rightarrow> (unit, 'k) syscall"

definition TESTS_MAX :: nat where "TESTS_MAX = 25"

text \<open>The two arrays have \<^verbatim>\<open>TESTS_MAX + 1\<close> elements, NULL at the start.\<close>

record 'k test_heap = "'k file_heap" +
  num_tests :: int
  test_count :: nat
  test_name :: "nat option list"
  test_func :: "nat option list"

type_synonym ('a, 'k, 'z) tnc = "('k, 'z) test_heap_scheme \<Rightarrow> ('a, ('k, 'z) test_heap_scheme) outcome"

text \<open>Statements one after the other, each wrapped in \<^verbatim>\<open>try\<close>\<close>

primrec nc_seq :: "('w \<Rightarrow> (unit, 'w) outcome) list \<Rightarrow> 'w \<Rightarrow> (unit, 'w) outcome" where
  "nc_seq [] = nc_return ()"
| "nc_seq (m # ms) = nc_bind m (\<lambda>_. nc_seq ms)"

section \<open>Checks\<close>

definition start_test :: "string \<Rightarrow> (unit, 'k, 'z) tnc" where
  "start_test name w = Ok () (w\<lparr>num_tests := to_int32 (num_tests w + 1)\<rparr>)"

definition start_testing :: "(unit, 'k, 'z) tnc" where
  "start_testing = nc_return ()"

definition test_failed :: "(unit, 'k, 'z) tnc" where
  "test_failed = nc_fault Abort"

definition test_retval :: "int \<Rightarrow> int \<Rightarrow> (unit, 'z) nc" where
  "test_retval rv wanted = (if rv \<noteq> wanted then nc_throw else nc_return ())"

definition test_strcmp :: "cptr \<Rightarrow> cptr \<Rightarrow> (unit, 'z) nc" where
  "test_strcmp s1 s2 =
     nc_bind (cread s1) (\<lambda>x. nc_bind (cread s2) (\<lambda>y.
     if strcmp x y \<noteq> 0 then nc_throw else nc_return ()))"

definition test_strncmp :: "cptr \<Rightarrow> cptr \<Rightarrow> nat \<Rightarrow> (unit, 'z) nc" where
  "test_strncmp s1 s2 len =
     nc_bind (cread_n s1 len) (\<lambda>x. nc_bind (cread_n s2 len) (\<lambda>y.
     if strncmp x y len \<noteq> 0 then nc_throw else nc_return ()))"

definition test_strstr :: "cptr \<Rightarrow> cptr \<Rightarrow> (unit, 'z) nc" where
  "test_strstr big little =
     nc_bind (cread big) (\<lambda>x. nc_bind (cread little) (\<lambda>y.
     if strstr x y = None then nc_throw else nc_return ()))"

section \<open>Files for tests\<close>

text \<open>The result is the new contents of the array \<open>dest\<close>: strncpy(3) writes 15 bytes, the name and NULs.\<close>

definition write_tempfile :: "'k harness \<Rightarrow> bytes \<Rightarrow> cptr \<Rightarrow> (bytes, 'k, 'z) ync" where
  "write_tempfile hs dest buf =
     nc_bind (sys_try (sys_fopen hs ''tmp.file'' ''w'')) (\<lambda>f.
     nc_bind (cread buf) (\<lambda>xs.
     nc_bind (sys_try (sys_fputs hs xs f)) (\<lambda>_.
     nc_bind (sys_try (sys_fclose hs f)) (\<lambda>_.
     if length dest < 15 then nc_fault OutOfBounds
     else nc_return (splice 0 (map Some (''tmp.file'' @ replicate 7 NUL)) dest)))))"

section \<open>The table of tests\<close>

text \<open>
  \<^verbatim>\<open>str_new\<close> stores the pointer to the object before it allocates the buffer; when that fails, the pointer stays in the
  table.
\<close>

definition register_test :: "cptr \<Rightarrow> nat \<Rightarrow> (unit, 'k, 'z) tnc" where
  "register_test name fp w =
     (let i = test_count w in
      if length (test_name w) \<le> i then Fault OutOfBounds
      else case str_new (test_name w ! i) w of
        Fault f \<Rightarrow> Fault f
      | Fail rc w' \<Rightarrow> Fail (-1) (if test_name w ! i = None \<and> strs w' (brk w) \<noteq> None
          then w'\<lparr>test_name := (test_name w)[i := Some (brk w)]\<rparr> else w')
      | Ok s w' \<Rightarrow>
          nc_bind (str_cat s name) (\<lambda>_ w. Ok () (w\<lparr>test_func := (test_func w)[i := Some fp], test_count := i + 1\<rparr>))
            (w'\<lparr>test_name := (test_name w)[i := Some s]\<rparr>))"

section \<open>Running the tests\<close>

datatype run_end = Returned | Exited int

definition EXIT_FAILURE :: int where "EXIT_FAILURE = 1"

text \<open>\<^verbatim>\<open>if (f(...) < 0) throw(...)\<close>\<close>

definition nonneg :: "('w \<Rightarrow> (unit, 'w) outcome) \<Rightarrow> 'w \<Rightarrow> (unit, 'w) outcome" where
  "nonneg m = nc_catch m nc_return (\<lambda>rc. if rc < 0 then nc_throw else nc_return ())"

text \<open>
  The loop over the table. \<^verbatim>\<open>test_count\<close> is read in every iteration. The first argument bounds the iterations by the size
  of the arrays: the element behind the last one is out of bounds.
\<close>

primrec run_tests_loop ::
    "nat \<Rightarrow> nat \<Rightarrow> (nat \<Rightarrow> test_env_t \<Rightarrow> (unit, 'k, 'z) tnc) \<Rightarrow> string \<Rightarrow> bool \<Rightarrow> test_env_t \<Rightarrow> (run_end, 'k, 'z) tnc" where
  "run_tests_loop 0 i funcs module run_all env = nc_fault OutOfBounds"
| "run_tests_loop (Suc k) i funcs module run_all env = (\<lambda>w.
     if test_count w \<le> i then Ok Returned w
     else if length (test_name w) \<le> i then Fault OutOfBounds
     else nc_bind (deref (test_name w ! i)) (\<lambda>s.
       nc_bind (cread (CVal s 0)) (\<lambda>x w.
       if run_all \<or> strcmp module x = 0
       then (case test_func w ! i of None \<Rightarrow> Fault NullDeref
         | Some fp \<Rightarrow> nc_catch (funcs fp env)
             (\<lambda>_. run_tests_loop k (Suc i) funcs module run_all env)
             (\<lambda>rc. if rc < 0 then nc_return (Exited EXIT_FAILURE) else run_tests_loop k (Suc i) funcs module run_all env) w)
       else run_tests_loop k (Suc i) funcs module run_all env w)) w)"

text \<open>What \<^verbatim>\<open>tmpdir\<close> points to: nothing, a block of strdup(3), or the array \<^verbatim>\<open>template\<close> on the stack.\<close>

datatype tmp_ptr = TmpNull | TmpHeap string | TmpStack string

text \<open>\<open>None\<close> means that the process exits.\<close>

definition tmp_dir :: "'k harness \<Rightarrow> (tmp_ptr option, 'k, 'z) ync" where
  "tmp_dir hs = (case genv hs ''TESTDIR'' of
       Some d \<Rightarrow> nc_bind (malloc (length d + 1)) (\<lambda>v. nc_return (Some (if v = Null then TmpNull else TmpHeap d)))
     | None \<Rightarrow> nc_bind (syscall (sys_mkdtemp hs ''/tmp/openmta.XXXXXXXXXX'')) (\<lambda>r. case r of
         Inl e \<Rightarrow> nc_return None | Inr d \<Rightarrow> nc_return (Some (TmpStack d))))"

definition tmp_cpy :: "nat \<Rightarrow> tmp_ptr \<Rightarrow> (unit, 'z) nc" where
  "tmp_cpy dest p = (case p of TmpNull \<Rightarrow> nc_fault NullDeref | TmpHeap d \<Rightarrow> str_cpy dest (CLit d)
     | TmpStack d \<Rightarrow> str_cpy dest (CLit d))"

definition tmp_free :: "tmp_ptr \<Rightarrow> (unit, 'z) nc" where
  "tmp_free p = (case p of TmpStack d \<Rightarrow> nc_fault BadFree | _ \<Rightarrow> nc_return ())"

text \<open>\<open>env0\<close> is what the local variable \<^verbatim>\<open>env\<close> holds before it is assigned.\<close>

definition run_unit_tests ::
    "'k harness \<Rightarrow> 'k fs \<Rightarrow> (nat \<Rightarrow> test_env_t \<Rightarrow> (unit, 'k, 'z) tnc) \<Rightarrow> test_env_t \<Rightarrow>
      (test_env_t \<Rightarrow> (unit, 'k, 'z) tnc) \<Rightarrow> (test_env_t \<Rightarrow> (unit, 'k, 'z) tnc) \<Rightarrow> (run_end, 'k, 'z) tnc" where
  "run_unit_tests hs fs funcs env0 init_func cleanup_func =
     nc_bind (tmp_dir hs) (\<lambda>d. case d of
       None \<Rightarrow> nc_return (Exited EXIT_FAILURE)
     | Some tmpdir \<Rightarrow>
       nc_bind (str_new (te_tmpdir env0)) (\<lambda>t.
       nc_bind (tmp_cpy t tmpdir) (\<lambda>_.
       case genv hs ''TEST'' of
         None \<Rightarrow> nc_fault NullDeref
       | Some module \<Rightarrow>
         let env = env0\<lparr>te_tmpdir := Some t\<rparr>; run_all = (strcmp module ''all'' = 0) in
         nc_bind (nc_when run_all (nonneg (init_func env))) (\<lambda>_.
         nc_bind start_testing (\<lambda>_.
         nc_bind (run_tests_loop (TESTS_MAX + 2) 0 funcs module run_all env) (\<lambda>r. case r of
           Exited n \<Rightarrow> nc_return r
         | Returned \<Rightarrow>
           nc_bind (nc_when run_all (nonneg (cleanup_func env))) (\<lambda>_.
           nc_bind (if genv hs ''TESTDIR'' = None
             then nc_catch (file_rmdir fs t) (\<lambda>_. nc_return True) (\<lambda>rc. nc_return (\<not> rc < 0))
             else nc_return True) (\<lambda>ok.
           if \<not> ok then nc_return (Exited EXIT_FAILURE)
           else nc_bind (tmp_free tmpdir) (\<lambda>_.
             nc_bind (str_destroy (Some t)) (\<lambda>_. nc_return Returned))))))))))"

end
