(* ===== verification/NC_Selftest.thy ===== *)
theory NC_Selftest
  imports NC_Test NC_Hash_Text
begin

text \<open>
  The self test of the library (src/selftest.c): the functions that test strings, lists, hash tables, the user database and
  files, statement by statement. Long functions are cut into groups of statements, which the function runs in
  order. The tests of the resolver, of sockets and of threads are not modelled here: they need the network.
\<close>

section \<open>Statements\<close>

text \<open>\<^verbatim>\<open>test_retval((int) str_len(s), n)\<close>\<close>

definition test_len :: "nat \<Rightarrow> int \<Rightarrow> (unit, 'z) nc" where
  "test_len s n = nc_bind (get_str s) (\<lambda>t. test_retval (to_int32 (int (s_len t))) n)"

text \<open>\<^verbatim>\<open>test_retval(f(...), wanted)\<close>\<close>

definition test_rc :: "('w \<Rightarrow> (unit, 'w) outcome) \<Rightarrow> (int \<Rightarrow> 'w \<Rightarrow> (unit, 'w) outcome) \<Rightarrow> 'w \<Rightarrow> (unit, 'w) outcome" where
  "test_rc m check = nc_catch m (\<lambda>_. check 0) check"

text \<open>\<^verbatim>\<open>if (c) throw(...)\<close>\<close>

definition throw_when :: "bool \<Rightarrow> 'w \<Rightarrow> (unit, 'w) outcome" where
  "throw_when c = (if c then nc_throw else nc_return ())"

section \<open>Strings\<close>

definition str_tests_edit :: "nat \<Rightarrow> nat \<Rightarrow> (unit, 'k, 'z) tnc" where
  "str_tests_edit str str2 = nc_seq [
     start_test ''str_cpy()'',
     str_truncate str, str_cpy str (CLit ''xyz''), test_strcmp (CVal str 0) (CLit ''xyz''),
     start_test ''str_cat())'',
     str_truncate str, str_cat str (CLit ''test''), test_len str 4,
     start_test ''str_chomp() #1'',
     str_cpy str (CLit [CHR ''.'', CR, LF]), str_chomp str, test_strcmp (CVal str 0) (CLit ''.''),
     start_test ''str_chomp() #2'',
     str_cpy str (CLit [CHR ''.'', LF]), str_chomp str, test_strcmp (CVal str 0) (CLit ''.''),
     start_test ''str_chomp() #3'',
     str_cpy str (CLit [CHR ''.'', CR]), str_chomp str, test_strcmp (CVal str 0) (CLit ''.''),
     start_test ''str_copy()'',
     str_truncate str, str_cat str (CLit ''test''), str_copy str2 str, test_strcmp (CVal str2 0) (CLit ''test''),
     start_test ''str_ncpy()'',
     str_truncate str, str_ncpy str (CLit ''abcd'') 3, test_strcmp (CVal str 0) (CLit ''abc''),
     start_test ''str_cpy() - empty src'',
     str_cpy str (CLit ''abc''), str_cpy str (CLit []), test_strcmp (CVal str 0) (CLit [])]"

definition str_tests_escape :: "'r regex_lib \<Rightarrow> nat \<Rightarrow> nat \<Rightarrow> (unit, 'k, 'z) tnc" where
  "str_tests_escape rx str str2 = nc_seq [
     start_test ''str_subst_regex()'',
     str_cpy str (CLit ''abcde''), str_subst_regex rx str ''bcd'' (CLit ''.NEW.''), test_strcmp (CVal str 0) (CLit ''a.NEW.e''),
     start_test ''str_escape()'',
     str_cpy str (CLit '' . ''), str_escape str2 str, test_strcmp (CVal str2 0) (CLit ''%20.%20''),
     start_test ''str_unescape()'',
     str_unescape str str2, test_strcmp (CVal str 0) (CLit '' . ''),
     start_test ''str_unescape() - query string'',
     str_cpy str (CLit ''a %27quoted%27 word''), str_unescape str2 str,
     test_strcmp (CVal str2 0) (CLit (''a '' @ CHR 0x27 # ''quoted'' @ CHR 0x27 # '' word'')),
     start_test ''str_unescape() - invalid input'',
     str_cpy str (CLit ''%''), str_unescape str2 str, test_strcmp (CVal str2 0) (CLit ''%''),
     start_test ''str_translate()'',
     str_cpy str (CLit ''a+b+c''), str_translate str 43 32, test_strcmp (CVal str 0) (CLit ''a b c'')]"

definition str_tests_search :: "'r regex_lib \<Rightarrow> nat \<Rightarrow> (unit, 'k, 'z) tnc" where
  "str_tests_search rx str = nc_seq [
     start_test ''str_contains()'',
     str_cpy str (CLit ''foo bar baz''), nc_bind (str_contains str (CLit ''bar'')) (\<lambda>result. test_retval (of_bool result) 1),
     start_test ''str_count()'',
     str_cpy str (CLit ''zzzaaazzz''), nc_bind (str_count str 122) (\<lambda>n. throw_when (n \<noteq> 6)),
     start_test ''str_cmp_terminator()'',
     str_cpy str (CLit (''foo'' @ [LF])), test_rc (str_cmp_terminator str 10) (\<lambda>rc. test_retval rc 0),
     start_test ''str_match_regex()'',
     str_cpy str (CLit ''foo''), nc_bind (str_match_regex rx str ''(foo|bar)'') (\<lambda>result. test_retval (of_bool result) 1),
     str_cpy str (CLit ''baz''), nc_bind (str_match_regex rx str ''(foo|bar)'') (\<lambda>result. test_retval (of_bool result) 0)]"

definition str_tests_parts :: "nat \<Rightarrow> nat \<Rightarrow> nat \<Rightarrow> (unit, 'k, 'z) tnc" where
  "str_tests_parts str str2 str3 = nc_seq [
     start_test ''str_to_int()'',
     str_cpy str (CLit ''-36''), nc_bind (str_to_int str) (\<lambda>i. throw_when (i \<noteq> -36)),
     start_test ''str_divide()'',
     str_cpy str (CLit ''abc''), str_divide str2 str3 str 1,
     test_strcmp (CVal str2 0) (CLit ''a''), test_strcmp (CVal str3 0) (CLit ''c''),
     start_test ''str_truncate_at()'',
     str_cpy str (CLit ''abc''), str_truncate_at str 1, test_strcmp (CVal str 0) (CLit ''a''),
     start_test ''str_swap()'',
     str_cpy str (CLit ''abc''), str_cpy str2 (CLit ''cba''), str_swap str str2,
     test_strcmp (CVal str 0) (CLit ''cba''), test_strcmp (CVal str2 0) (CLit ''abc''),
     start_test ''str_get_char()'',
     str_cpy str (CLit ''abc''), nc_bind (str_get_char str 1) (\<lambda>c. throw_when (c \<noteq> CHR ''b'')),
     start_test ''str_append()'',
     str_cpy str (CLit ''def''), str_cpy str2 (CLit ''abc''), str_prepend str str2, test_strcmp (CVal str 0) (CLit ''abcdef'')]"

definition str_run_tests :: "'r regex_lib \<Rightarrow> (unit, 'k, 'z) tnc" where
  "str_run_tests rx =
     nc_bind (start_test ''str_new()'') (\<lambda>_.
     nc_bind (str_new None) (\<lambda>str. nc_bind (str_new None) (\<lambda>str2. nc_bind (str_new None) (\<lambda>str3.
     nc_seq [
       str_tests_edit str str2,
       str_tests_escape rx str str2,
       str_tests_search rx str,
       str_tests_parts str str2 str3,
       start_test ''str_destroy()'',
       str_destroy (Some str)]))))"

section \<open>Lists\<close>

abbreviation compare_with :: "nat \<Rightarrow> string list \<Rightarrow> (unit, 'z) lnc" where
  "compare_with l xss \<equiv> list_compare l (map CLit xss)"

definition list_tests_split :: "nat \<Rightarrow> nat \<Rightarrow> (unit, 'k, 'z) tnc" where
  "list_tests_split list str = nc_seq [
     start_test ''str_join()'',
     list_truncate list, list_cat list (CLit ''foo''), list_cat list (CLit ''bar''), str_join str list 32,
     test_strcmp (CVal str 0) (CLit ''foo bar''),
     start_test ''str_split()'',
     str_cpy str (CLit ''foo bar baz''), str_split list str 32,
     start_test ''str_split() - trailing LF'',
     str_cpy str (CLit (''foo'' @ LF # ''bar'' @ LF # ''baz'' @ [LF])), str_split list str 10,
     compare_with list [''foo'', ''bar'', ''baz''],
     start_test ''str_split() - multiple empty LF'',
     str_cpy str (CLit [LF, LF, LF, LF]), str_split list str 10, compare_with list [[], [], [], []],
     start_test ''str_split() - LF + empty item'',
     str_cpy str (CLit (''GET / HTTP/1.0'' @ LF # ''User-Agent: Lynx'' @ LF # LF # ''somedata'' @ [LF])), str_split list str 10,
     compare_with list [''GET / HTTP/1.0'', ''User-Agent: Lynx'', [], ''somedata''],
     start_test ''str_split() - RFC2822 via SMTP'',
     str_cpy str (CLit (''HELO a'' @ LF # ''DATA'' @ LF # ''To: You'' @ LF # ''From: Me'' @ LF # ''Subject: Test'' @ LF # LF # ''Message here.'' @ [LF])),
     str_split list str 10,
     compare_with list [''HELO a'', ''DATA'', ''To: You'', ''From: Me'', ''Subject: Test'', [], ''Message here.'']]"

definition list_tests_shift :: "nat \<Rightarrow> nat \<Rightarrow> (unit, 'k, 'z) tnc" where
  "list_tests_shift list str = nc_seq [
     start_test ''list_compare()'',
     str_cpy str (CLit ''foo bar baz''), str_split list str 32, compare_with list [''foo'', ''bar'', ''baz''],
     start_test ''list_shift()'',
     list_shift str list, compare_with list [''bar'', ''baz''], test_strcmp (CVal str 0) (CLit ''foo''),
     list_shift str list, str_cmp str (CLit ''bar''), compare_with list [''baz''],
     list_shift str list, str_cmp str (CLit ''baz''),
     str_cpy str (CLit ''foo bar baz''), str_split list str 32,
     start_test ''list_compare() #2'',
     compare_with list [''foo'', ''bar'', ''baz'']]"

text \<open>The entry that \<^verbatim>\<open>list_entry_get\<close> finds is looked at and deleted.\<close>

definition list_tests_entry :: "nat \<Rightarrow> (unit, 'k, 'z) tnc" where
  "list_tests_entry list =
     nc_bind (start_test ''list_entry_get()'') (\<lambda>_.
     nc_bind (list_entry_get list 0) (\<lambda>ent.
     nc_bind (get_ent ent) (\<lambda>e.
     nc_bind (start_test ''list_entry_get() - value matches'') (\<lambda>_.
     nc_bind (deref (e_value e)) (\<lambda>str_ptr.
     nc_seq [
       test_strcmp (CVal str_ptr 0) (CLit ''foo''),
       start_test ''list_entry_delete()'',
       list_entry_delete list ent,
       start_test ''list_truncate()'',
       list_truncate list])))))"

definition list_tests_move :: "nat \<Rightarrow> nat \<Rightarrow> (unit, 'k, 'z) tnc" where
  "list_tests_move list list2 = nc_seq [
     start_test ''list_move()'',
     list_truncate list, list_truncate list2,
     list_cat list (CLit ''a''), list_cat list (CLit ''b''), list_cat list (CLit ''c''),
     list_move list2 list, compare_with list2 [''a'', ''b'', ''c''],
     nc_bind (get_list list) (\<lambda>h. throw_when (l_count h \<noteq> 0))]"

definition list_tests_sort :: "nat \<Rightarrow> (unit, 'k, 'z) tnc" where
  "list_tests_sort list = nc_seq [
     start_test ''list_sort() - ascending'',
     list_truncate list, list_cat list (CLit ''c''), list_cat list (CLit ''a''), list_cat list (CLit ''b''),
     list_sort list 0, compare_with list [''a'', ''b'', ''c''],
     start_test ''list_sort() - descending'',
     list_truncate list, list_cat list (CLit ''x''), list_cat list (CLit ''z''), list_cat list (CLit ''y''),
     list_sort list SORT_DESCENDING, compare_with list [''z'', ''y'', ''x''],
     start_test ''list_sort() - ascending numeric'',
     list_truncate list, list_cat list (CLit ''99''), list_cat list (CLit ''100''),
     list_sort list SORT_NUMERIC, compare_with list [''99'', ''100''],
     start_test ''list_sort() - only one item'',
     list_truncate list, list_cat list (CLit ''100''),
     list_sort list SORT_NUMERIC, compare_with list [''100'']]"

definition list_tests_text :: "nat \<Rightarrow> nat \<Rightarrow> (unit, 'k, 'z) tnc" where
  "list_tests_text list str = nc_seq [
     start_test ''list_find_substr()'',
     list_truncate list, list_cat list (CLit ''foo''), list_cat list (CLit ''bar''),
     list_find_substr list (CLit ''ba''), list_find_substr list (CLit ''bar''),
     test_rc (list_find_substr list (CLit ''baz'')) (\<lambda>rc. throw_when (rc = 0)),
     start_test ''list_serialize()'',
     list_truncate list, list_cat list (CLit ''s p a c e''), list_cat list (CLit ''foo''), list_cat list (CLit ''bar''),
     list_serialize str list, test_strcmp (CVal str 0) (CLit ''s%20p%20a%20c%20e foo bar''),
     start_test ''list_deserialize()'',
     str_cpy str (CLit ''one%20two three''), list_deserialize list str, compare_with list [''one two'', ''three''],
     start_test ''list_from_char()'',
     list_from_char list (map CLit [''one'', ''two'', ''three'']), compare_with list [''one'', ''two'', ''three'']]"

definition list_run_tests :: "(unit, 'k, 'z) tnc" where
  "list_run_tests =
     nc_bind (str_new None) (\<lambda>str.
     nc_bind (start_test ''list_new()'') (\<lambda>_.
     nc_bind (list_new None) (\<lambda>list. nc_bind (list_new None) (\<lambda>list2.
     nc_seq [
       list_tests_split list str,
       list_tests_shift list str,
       list_tests_entry list,
       list_tests_move list list2,
       list_tests_sort list,
       list_tests_text list str,
       str_destroy (Some str), list_destroy (Some list), list_destroy (Some list2)]))))"

section \<open>Hash tables\<close>

definition hash_tests :: "nat \<Rightarrow> nat \<Rightarrow> nat \<Rightarrow> nat \<Rightarrow> (unit, 'k, 'z) tnc" where
  "hash_tests hash ptr data list = nc_seq [
     hash_set hash (CLit ''key'') data,
     hash_truncate hash, str_cpy data (CLit ''data''), hash_set hash (CLit ''key'') data, hash_get ptr hash (CLit ''key''),
     test_strcmp (CVal ptr 0) (CLit ''data''),
     hash_truncate hash, str_cpy data (CLit ''more.new.data''), hash_set hash (CLit ''key'') data, hash_get ptr hash (CLit ''key''),
     test_strcmp (CVal ptr 0) (CLit ''more.new.data''),
     start_test ''hash_get_keys()'',
     hash_truncate hash, hash_set hash (CLit ''key1'') data, hash_get_keys list hash, compare_with list [''key1''],
     start_test ''hash_get_values()'',
     hash_truncate hash, str_cpy data (CLit ''more.new.data''), hash_set hash (CLit ''key1'') data, hash_get_values list hash,
     compare_with list [''more.new.data''],
     start_test ''hash_delete()'',
     hash_truncate hash, str_cpy data (CLit ''simple data''), hash_set hash (CLit ''key'') data, hash_delete hash (CLit ''key''),
     start_test ''hash_truncate()'',
     hash_set hash (CLit ''key'') data, hash_truncate hash, test_rc (hash_get ptr hash (CLit ''key'')) (\<lambda>rc. throw_when (rc = 0)),
     start_test ''hash_destroy()'',
     hash_destroy (Some hash)]"

definition hash_run_tests :: "(unit, 'k, 'z) tnc" where
  "hash_run_tests =
     nc_bind (str_new None) (\<lambda>ptr. nc_bind (str_new None) (\<lambda>key. nc_bind (str_new None) (\<lambda>data. nc_bind (str_new None) (\<lambda>buf.
     nc_bind (list_new None) (\<lambda>list.
     nc_bind (str_cpy key (CLit ''key'')) (\<lambda>_.
     nc_bind (str_cpy data (CLit ''data'')) (\<lambda>_.
     nc_bind (hash_new None) (\<lambda>hash.
     nc_bind (hash_tests hash ptr data list) (\<lambda>_.
     nc_seq [str_destroy (Some ptr), str_destroy (Some key), str_destroy (Some data), str_destroy (Some buf),
       list_destroy (Some list)])))))))))"

section \<open>The user database\<close>

definition passwd_run_tests :: "'k os \<Rightarrow> (unit, 'k, 'z) tnc" where
  "passwd_run_tests os =
     nc_bind (str_new None) (\<lambda>buf. nc_bind (str_new None) (\<lambda>user. nc_bind (str_new None) (\<lambda>group.
     nc_seq [
       start_test ''passwd_get_id_by_name()'',
       str_cpy user (CLit ''root''), nc_bind (passwd_get_id_by_name os user) (\<lambda>uid. test_retval (to_int32 (int uid)) 0),
       start_test ''passwd_exists() - nonexistent account'',
       str_cpy user (CLit ''r8-)t''), nc_bind (passwd_exists os user) throw_when,
       start_test ''group_get_id_by_name()'',
       str_cpy group (CLit ''daemon''), nc_bind (group_get_id_by_name os group) (\<lambda>gid. test_retval (to_int32 (int gid)) 1),
       start_test ''group_exists() - nonexistent account'',
       str_cpy group (CLit ''r8-)t''), nc_bind (group_exists os group) throw_when,
       start_test ''group_get_name_by_id()'',
       group_get_name_by_id os group 1, test_strcmp (CVal group 0) (CLit ''daemon'')])))"

section \<open>Files\<close>

definition list_count_is :: "nat \<Rightarrow> int \<Rightarrow> (unit, 'z) lnc" where
  "list_count_is l n = nc_bind (get_list l) (\<lambda>h. test_retval (to_int32 (int (l_count h))) n)"

text \<open>The path of a file in the directory of the tests\<close>

definition test_path :: "nat \<Rightarrow> string \<Rightarrow> test_env_t \<Rightarrow> (unit, 'z) nc" where
  "test_path dest name env = nc_bind (deref (te_tmpdir env)) (\<lambda>d. str_sprintf dest (''%s/'' @ name) [PStr (CVal d 0)])"

definition file_run_tests :: "'k os \<Rightarrow> 'k fs \<Rightarrow> 'r regex_lib \<Rightarrow> test_env_t \<Rightarrow> (unit, 'k, 'z) tnc" where
  "file_run_tests os fs rx env =
     nc_bind (str_new None) (\<lambda>subdir. nc_bind (str_new None) (\<lambda>path. nc_bind (str_new None) (\<lambda>path2.
     nc_bind (str_new None) (\<lambda>buf. nc_bind (str_new None) (\<lambda>pattern. nc_bind (list_new None) (\<lambda>list.
     nc_seq [
       start_test ''file_mkdir()'',
       test_path subdir ''testdir'' env, file_mkdir os fs subdir,
       start_test ''file_rmdir()'',
       test_path subdir ''testdir'' env, file_rmdir fs subdir,
       start_test ''file_glob()'',
       str_cpy pattern (CLit ''file.[oh]''), file_glob fs list pattern, list_count_is list 1,
       start_test ''file_glob() - no matches'',
       str_cpy pattern (CLit ''FILE.NOT.FOUND''), file_glob fs list pattern, list_count_is list 0,
       start_test ''file_exists()'',
       str_cpy pattern (CLit ''FILE.NOT.FOUND''), nc_bind (file_exists os pattern) throw_when,
       start_test ''file_copy()'',
       test_path path ''file1'' env, test_path path2 ''file2'' env, str_cpy buf (CLit ''test''),
       file_write os fs path buf, file_copy os fs rx path path2, file_write os fs buf path2,
       test_strcmp (CVal buf 0) (CLit ''test''), file_unlink os path, file_unlink os path2,
       start_test ''file_write() and file_read()'',
       test_path path ''fwfr'' env, str_cpy buf (CLit ''test''), file_write os fs path buf, str_truncate buf,
       file_read os fs buf path, test_strcmp (CVal buf 0) (CLit ''test'')]))))))"

end
