(* ===== verification/NC_Selftest_Laws.thy ===== *)
theory NC_Selftest_Laws
  imports NC_Selftest NC_List_Sort NC_Contract
begin

text \<open>
  Rules to run the self tests: contracts of single statements (\<open>does\<close>) over an assertion that names the contents of the local
  strings and lists of a test function, and what the function has changed since it was called.
\<close>

named_theorems does_rules \<open>contracts of statements\<close>

section \<open>Contracts\<close>

definition does :: "('w \<Rightarrow> bool) \<Rightarrow> ('w \<Rightarrow> (unit, 'w) outcome) \<Rightarrow> ('w \<Rightarrow> bool) \<Rightarrow> bool" where
  "does P m Q \<longleftrightarrow> (\<forall>w. P w \<longrightarrow> (\<exists>w'. m w = Ok () w' \<and> Q w'))"

lemma doesI: "(\<And>w. P w \<Longrightarrow> \<exists>w'. m w = Ok () w' \<and> Q w') \<Longrightarrow> does P m Q"
  by (simp add: does_def)

lemma doesE: "does P m Q \<Longrightarrow> P w \<Longrightarrow> (\<And>w'. m w = Ok () w' \<Longrightarrow> Q w' \<Longrightarrow> thesis) \<Longrightarrow> thesis"
  by (auto simp: does_def)

lemma does_nil: "(\<And>w. P w \<Longrightarrow> Q w) \<Longrightarrow> does P (nc_seq []) Q"
  by (simp add: does_def nc_return_def)

lemma does_cons: "does P m Q \<Longrightarrow> does Q (nc_seq ms) R \<Longrightarrow> does P (nc_seq (m # ms)) R"
  by (fastforce simp: does_def nc_bind_def)

lemma does_bind: "does P m Q \<Longrightarrow> does Q k R \<Longrightarrow> does P (nc_bind m (\<lambda>_. k)) R"
  by (fastforce simp: does_def nc_bind_def)

lemma does_value: "(\<And>w. P w \<Longrightarrow> m w = Ok r w) \<Longrightarrow> does P (k r) Q \<Longrightarrow> does P (nc_bind m k) Q"
  by (simp add: does_def nc_bind_def)

lemma does_ex: "(\<And>x. does (P x) m Q) \<Longrightarrow> does (\<lambda>w. \<exists>x. P x w) m Q"
  by (auto simp: does_def)

lemma does_return [does_rules]: "does P (nc_return ()) P"
  by (simp add: does_def nc_return_def)

section \<open>The assertion\<close>

text \<open>
  Since \<open>w0\<close>, only the strings \<open>V\<close>, the lists \<open>L\<close> and objects with an address in \<open>G\<close> were changed, and \<open>n\<close> tests were
  started. The strings and lists hold what \<open>f\<close> and \<open>g\<close> say.
\<close>

definition since :: "('k, 'z) test_heap_scheme \<Rightarrow> nat set \<Rightarrow> nat set \<Rightarrow> nat set \<Rightarrow> nat \<Rightarrow> ('k, 'z) test_heap_scheme \<Rightarrow> bool" where
  "since w0 G V L n w \<longleftrightarrow> mem_ok w \<and> wf_lh w \<and> 0 \<le> num_tests w0 \<and> num_tests w0 < 2 ^ 30 \<and> num_tests w = num_tests w0 + int n \<and>
     mod_lh (V \<union> G) G (L \<union> G) w0 (w\<lparr>num_tests := num_tests w0\<rparr>)"

definition cells_are :: "nat set \<Rightarrow> nat set \<Rightarrow> nat set \<Rightarrow> (nat \<Rightarrow> string list) \<Rightarrow> (nat \<Rightarrow> (nat \<times> nat) list) \<Rightarrow> 'z list_heap_scheme \<Rightarrow> bool" where
  "cells_are G V L g C w \<longleftrightarrow>
     (\<forall>l\<in>L. list_at w l (C l) (g l) \<and> (\<forall>xs\<in>set (g l). NUL \<notin> set xs) \<and> fst ` set (C l) \<subseteq> G \<and> snd ` set (C l) \<subseteq> G - V) \<and>
     (\<forall>l\<in>L. \<forall>k\<in>L. k \<noteq> l \<longrightarrow> fst ` set (C k) \<inter> fst ` set (C l) = {} \<and> snd ` set (C k) \<inter> snd ` set (C l) = {})"

definition lists_are :: "nat set \<Rightarrow> nat set \<Rightarrow> nat set \<Rightarrow> (nat \<Rightarrow> string list) \<Rightarrow> 'z list_heap_scheme \<Rightarrow> bool" where
  "lists_are G V L g w \<longleftrightarrow> (\<exists>C. cells_are G V L g C w)"

lemma cells_areD:
  assumes "cells_are G V L g C w" "l \<in> L"
  shows "list_at w l (C l) (g l)" "xs \<in> set (g l) \<Longrightarrow> NUL \<notin> set xs" "fst ` set (C l) \<subseteq> G" "snd ` set (C l) \<subseteq> G - V"
    "k \<in> L \<Longrightarrow> k \<noteq> l \<Longrightarrow> fst ` set (C k) \<inter> fst ` set (C l) = {} \<and> snd ` set (C k) \<inter> snd ` set (C l) = {}"
  using assms by (simp_all add: cells_are_def)

lemma cells_are_frame:
  "cells_are G V L g C w \<Longrightarrow> (\<And>l. l \<in> L \<Longrightarrow> list_at w' l (C l) (g l)) \<Longrightarrow> cells_are G V L g C w'"
  by (simp add: cells_are_def)

definition tst ::
    "('k, 'z) test_heap_scheme \<Rightarrow> nat set \<Rightarrow> nat set \<Rightarrow> nat set \<Rightarrow> nat \<Rightarrow> (nat \<Rightarrow> string) \<Rightarrow> (nat \<Rightarrow> string list) \<Rightarrow>
      ('k, 'z) test_heap_scheme \<Rightarrow> bool" where
  "tst w0 G V L n f g w \<longleftrightarrow> since w0 G V L n w \<and> (\<forall>v\<in>V. str_has w v (f v) \<and> NUL \<notin> set (f v)) \<and> lists_are G V L g w"

lemma tstD:
  assumes "tst w0 G V L n f g w"
  shows "mem_ok w" "wf_lh w" "v \<in> V \<Longrightarrow> str_has w v (f v)" "v \<in> V \<Longrightarrow> NUL \<notin> set (f v)"
  using assms by (simp_all add: tst_def since_def)

lemma num_tests_upd [simp]:
  fixes w :: "('k, 'z) test_heap_scheme"
  shows "str_has (w\<lparr>num_tests := i\<rparr>) v x = str_has w v x" "mem_ok (w\<lparr>num_tests := i\<rparr>) = mem_ok w" "wf_lh (w\<lparr>num_tests := i\<rparr>) = wf_lh w"
    "list_at (w\<lparr>num_tests := i\<rparr>) l cs xss = list_at w l cs xss"
  by (simp_all add: str_has_def mem_ok_def wf_lh_def wf_strs_def list_at_def list_cells_def vals_def)

lemma mod_lh_num_tests:
  fixes w :: "('k, 'z) test_heap_scheme"
  assumes "mod_lh S E L w w'"
  shows "num_tests w' = num_tests w" "mod_lh S E L (w\<lparr>num_tests := i\<rparr>) (w'\<lparr>num_tests := i\<rparr>)"
  using assms by (cases w; cases w'; simp add: mod_lh_def)+

lemma since_mod:
  assumes "since w0 G V L n w" "mod_lh S E K w w'" "S \<subseteq> V \<union> G" "E \<subseteq> G" "K \<subseteq> L \<union> G" "wf_lh w'"
  shows "since w0 G V L n w'"
  using assms mod_lh_num_tests [OF assms(2)] mod_lh_mem_ok [OF assms(2)]
    mod_lh_trans_same [OF _ mod_lh_mono [OF mod_lh_num_tests(2) [OF assms(2)] assms(3-5)]]
  by (simp add: since_def)

lemma since_rest:
  assumes "since w0 G V L n w"
  shows "hashes w = hashes w0" "kern w = kern w0" "files w = files w0"
  using assms by (cases w; cases w0; simp add: since_def mod_lh_def)+

text \<open>An operation that changes one of the strings\<close>

lemma tst_upd:
  assumes "tst w0 G V L n f g w" "str_upd w v x w'" "v \<in> V" "NUL \<notin> set x"
  shows "tst w0 G V L n (f(v := x)) g w'"
proof -
  have m: "mod_lh {v} {} {} w w'" "wf_lh w'" "str_has w' v x"
    using str_upd_lh [OF assms(2) tstD(3) [OF assms(1,3)] tstD(2) [OF assms(1)]] by simp_all
  obtain C where C: "cells_are G V L g C w" using assms(1) by (auto simp: tst_def lists_are_def)
  have "list_at w' l (C l) (g l)" if l: "l \<in> L" for l
  proof -
    have "snd ` set (C l) \<inter> {v} = {}" using cells_areD(4) [OF C l] assms(3) by blast
    then show ?thesis using list_at_frame [OF cells_areD(1) [OF C l] m(1)] by simp
  qed
  then have "lists_are G V L g w'" using cells_are_frame [OF C] by (auto simp: lists_are_def)
  moreover have "since w0 G V L n w'" by (rule since_mod [OF _ m(1) _ _ _ m(2)]) (use assms(1,3) in \<open>auto simp: tst_def\<close>)
  moreover have "str_has w' u (f u)" if "u \<in> V" "u \<noteq> v" for u
    using mod_lh_has [OF m(1), of u] tstD(3) [OF assms(1) that(1)] that(2) by simp
  ultimately show ?thesis using m(3) assms(1,4) by (simp add: tst_def)
qed

lemma does_upd:
  assumes "\<And>w. tst w0 G V L n f g w \<Longrightarrow> \<exists>w'. m w = Ok () w' \<and> str_upd w v x w'" "v \<in> V" "NUL \<notin> set x"
  shows "does (tst w0 G V L n f g) m (tst w0 G V L n (f(v := x)) g)"
  by (rule doesI) (use assms tst_upd [OF _ _ assms(2,3)] in blast)

section \<open>Local variables\<close>

lemma tst_start:
  assumes "mem_ok w" "wf_lh w" "0 \<le> num_tests w" "num_tests w < 2 ^ 30"
  shows "tst w G {} {} 0 f g w"
  using assms by (simp add: tst_def since_def lists_are_def cells_are_def)

lemma since_brk: "since w0 G V L n w \<Longrightarrow> brk w0 \<le> brk w"
  by (auto simp: since_def mod_lh_def)

lemma tst_new_str:
  assumes "tst w0 G V L n f g w"
  obtains a w' where "str_new None w = Ok a w'" "a \<notin> V" "brk w0 \<le> a" "tst w0 G (insert a V) L n (f(a := [])) g w'"
proof -
  obtain w' where w': "str_new None w = Ok (brk w) w'" "mod_lh {brk w} {} {} w w'" "str_has w' (brk w) []" "wf_lh w'"
    using str_new_lh [OF tstD(1,2) [OF assms]] by metis
  have V: "brk w \<notin> V" using str_has_lt [OF wf_lh_strs [OF tstD(2) [OF assms]] tstD(3) [OF assms]] by blast
  obtain C where C: "cells_are G V L g C w" using assms by (auto simp: tst_def lists_are_def)
  have fr: "brk w \<notin> snd ` set (C l)" if "l \<in> L" for l
  proof -
    have "vals w (C l) (g l)" using cells_areD(1) [OF C that] by (simp add: list_at_def)
    then show ?thesis using vals_lt wf_lh_strs [OF tstD(2) [OF assms]] by blast
  qed
  have "list_at w' l (C l) (g l)" if "l \<in> L" for l
    using list_at_frame [OF cells_areD(1) [OF C that] w'(2)] fr [OF that] by simp
  moreover have "snd ` set (C l) \<subseteq> G - insert (brk w) V" if "l \<in> L" for l
    using cells_areD(4) [OF C that] fr [OF that] by blast
  ultimately have "cells_are G (insert (brk w) V) L g C w'" using C by (simp add: cells_are_def)
  moreover have "since w0 G (insert (brk w) V) L n w'"
  proof (rule since_mod [OF _ w'(2) _ _ _ w'(4)])
    show "since w0 G (insert (brk w) V) L n w" using assms by (auto simp: tst_def since_def elim: mod_lh_mono)
  qed simp_all
  moreover have "str_has w' u (f u)" if "u \<in> V" for u
    using mod_lh_has [OF w'(2), of u] tstD(3) [OF assms that] that V by auto
  ultimately have "tst w0 G (insert (brk w) V) L n (f(brk w := [])) g w'"
    using w'(3) tstD(4) [OF assms] by (auto simp: tst_def lists_are_def)
  moreover have "brk w0 \<le> brk w" using assms since_brk by (auto simp: tst_def)
  ultimately show thesis using that w'(1) V by blast
qed

lemma tst_new_list:
  assumes "tst w0 G V L n f g w"
  obtains l w' where "list_new None w = Ok l w'" "l \<notin> L" "brk w0 \<le> l" "tst w0 G V (insert l L) n f (g(l := [])) w'"
proof -
  let ?l = "brk w" and ?w = "w\<lparr>lists := (lists w)(brk w \<mapsto> empty_list), brk := Suc (brk w)\<rparr>"
  have m: "mod_lh {} {} {?l} w ?w" by (simp add: mod_lh_def)
  have wf: "wf_lh ?w" by (rule mod_lh_wf [OF m tstD(2) [OF assms]]) simp
  have e: "list_at ?w ?l [] []" by (simp add: list_at_def list_cells_def header_Nil)
  obtain C where C: "cells_are G V L g C w" using assms by (auto simp: tst_def lists_are_def)
  have L: "?l \<notin> L" using list_cells_lt(1) [OF _ tstD(2) [OF assms]] cells_areD(1) [OF C] by (force simp: list_at_def)
  have "list_at ?w k (C k) (g k)" if "k \<in> L" for k
    using list_at_frame [OF cells_areD(1) [OF C that] m] that L by auto
  then have "cells_are G V (insert ?l L) (g(?l := [])) (C(?l := [])) ?w"
    using C e L by (auto simp: cells_are_def)
  moreover have "since w0 G V (insert ?l L) n ?w"
  proof (rule since_mod [OF _ m _ _ _ wf])
    show "since w0 G V (insert ?l L) n w" using assms by (auto simp: tst_def since_def elim: mod_lh_mono)
  qed simp_all
  ultimately have "tst w0 G V (insert ?l L) n f (g(?l := [])) ?w"
    using assms by (auto simp: tst_def lists_are_def)
  moreover have "brk w0 \<le> ?l" using assms since_brk by (auto simp: tst_def)
  ultimately show thesis using that list_new_ok [OF tstD(1) [OF assms]] L by (simp add: list_new_def)
qed

section \<open>Statements of the harness\<close>

lemma does_start_test [does_rules]:
  assumes "n < 1000"
  shows "does (tst w0 G V L n f g) (start_test name) (tst w0 G V L (Suc n) f g)"
proof (rule doesI)
  fix w assume w: "tst w0 G V L n f g w"
  then have "to_int32 (num_tests w + 1) = num_tests w0 + int (Suc n)"
    using assms by (subst to_int32_id) (auto simp: tst_def since_def)
  then have "tst w0 G V L (Suc n) f g (w\<lparr>num_tests := to_int32 (num_tests w + 1)\<rparr>)"
    using w by (simp add: tst_def since_def lists_are_def cells_are_def)
  then show "\<exists>w'. start_test name w = Ok () w' \<and> tst w0 G V L (Suc n) f g w'" by (simp add: start_test_def)
qed

lemma does_test_strcmp [does_rules]:
  assumes "v \<in> V" "f v = x"
  shows "does (tst w0 G V L n f g) (test_strcmp (CVal v 0) (CLit x)) (tst w0 G V L n f g)"
proof (rule doesI)
  fix w assume w: "tst w0 G V L n f g w"
  have "cread (CVal v 0) w = Ok x w" "cread (CLit x) w = Ok x w"
    using cread_str_has [OF tstD(3,4) [OF w assms(1)]] tstD(4) [OF w assms(1)] assms(2) by simp_all
  then show "\<exists>w'. test_strcmp (CVal v 0) (CLit x) w = Ok () w' \<and> tst w0 G V L n f g w'"
    using w by (simp add: test_strcmp_def nc_simps)
qed

lemma does_test_len [does_rules]:
  assumes "v \<in> V" "length (f v) < 2 ^ 31" "int (length (f v)) = i"
  shows "does (tst w0 G V L n f g) (test_len v i) (tst w0 G V L n f g)"
proof (rule doesI)
  fix w assume w: "tst w0 G V L n f g w"
  obtain t where "get_str v w = Ok t w" "s_len t = length (f v)" using get_str_has [OF tstD(3) [OF w assms(1)]] .
  then show "\<exists>w'. test_len v i w = Ok () w' \<and> tst w0 G V L n f g w'"
    using w assms by (simp add: test_len_def nc_simps test_retval_def to_int32_id)
qed

lemma does_test_retval [does_rules]: "a = b \<Longrightarrow> does P (test_retval a b) P"
  by (simp add: does_def test_retval_def nc_return_def)

lemma does_throw_when [does_rules]: "\<not> c \<Longrightarrow> does P (throw_when c) P"
  by (simp add: does_def throw_when_def nc_return_def)

section \<open>Strings\<close>

lemma does_str_truncate [does_rules]:
  "v \<in> V \<Longrightarrow> does (tst w0 G V L n f g) (str_truncate v) (tst w0 G V L n (f(v := [])) g)"
  by (rule does_upd) (auto intro!: str_truncate_ok dest: tstD(3))

lemma does_str_cpy [does_rules]:
  assumes "v \<in> V" "NUL \<notin> set x" "length x < STRING_MAX"
  shows "does (tst w0 G V L n f g) (str_cpy v (CLit x)) (tst w0 G V L n (f(v := x)) g)"
  by (rule does_upd [OF _ assms(1,2)]) (use assms in \<open>auto intro!: str_cpy_ok tstD\<close>)

lemma does_str_ncpy [does_rules]:
  assumes "v \<in> V" "NUL \<notin> set x" "length x < STRING_MAX" "m \<le> length x"
  shows "does (tst w0 G V L n f g) (str_ncpy v (CLit x) m) (tst w0 G V L n (f(v := take m x)) g)"
proof (rule does_upd [OF _ assms(1)])
  fix w assume w: "tst w0 G V L n f g w"
  have "cbytes (CLit x) w = Ok (map Some (take m x) @ map Some (drop m x @ [NUL])) w"
    by (simp flip: map_append)
  moreover have "length (take m x) = m" "m < STRING_MAX" using assms(3,4) by simp_all
  ultimately show "\<exists>w'. str_ncpy v (CLit x) m w = Ok () w' \<and> str_upd w v (take m x) w'"
    using str_ncpy_ok [OF tstD(3) [OF w assms(1)], of "CLit x" "take m x"] tstD(1) [OF w] by (metis points_into_simps(1))
qed (use assms(2) in \<open>auto dest: in_set_takeD\<close>)

lemma does_str_cat [does_rules]:
  assumes "v \<in> V" "NUL \<notin> set x" "length (f v) + length x < STRING_MAX" "NUL \<notin> set (f v)"
  shows "does (tst w0 G V L n f g) (str_cat v (CLit x)) (tst w0 G V L n (f(v := f v @ x)) g)"
  by (rule does_upd [OF _ assms(1)]) (use assms in \<open>auto intro!: str_cat_ok tstD\<close>)

lemma does_str_copy [does_rules]:
  assumes "d \<in> V" "s \<in> V" "d \<noteq> s" "NUL \<notin> set (f s)"
  shows "does (tst w0 G V L n f g) (str_copy d s) (tst w0 G V L n (f(d := f s)) g)"
  by (rule does_upd [OF _ assms(1,4)]) (use assms in \<open>auto intro!: str_copy_ok tstD\<close>)

lemma does_str_chomp [does_rules]:
  assumes "v \<in> V" "NUL \<notin> set (f v)"
  shows "does (tst w0 G V L n f g) (str_chomp v) (tst w0 G V L n (f(v := chomp (f v))) g)"
  by (rule does_upd [OF _ assms(1) chomp_no_NUL [OF assms(2)]]) (use assms in \<open>auto intro!: str_chomp_ok tstD\<close>)

lemma does_str_escape [does_rules]:
  assumes "d \<in> V" "s \<in> V" "d \<noteq> s" "NUL \<notin> set (f s)" "3 * length (f s) < STRING_MAX"
  shows "does (tst w0 G V L n f g) (str_escape d s) (tst w0 G V L n (f(d := uri_escape (f s))) g)"
  by (rule does_upd [OF _ assms(1) uri_escape_no_NUL [OF assms(4)]]) (use assms in \<open>auto intro!: str_escape_ok wf_lh_strs tstD\<close>)

lemma does_str_unescape [does_rules]:
  assumes "d \<in> V" "s \<in> V" "d \<noteq> s" "NUL \<notin> set (f s)" "unescaped (f s) \<noteq> None" "f s \<noteq> []" "length (f s) < STRING_MAX"
  shows "does (tst w0 G V L n f g) (str_unescape d s) (tst w0 G V L n (f(d := the (unescaped (f s)))) g)"
proof -
  obtain vs where vs: "unescaped (f s) = Some vs" using assms(5) by auto
  have l: "length vs < STRING_MAX" using unescaped_length [OF vs] assms(7) by simp
  show ?thesis unfolding vs option.sel
    by (rule does_upd [OF _ assms(1) unescaped_no_NUL [OF assms(4) vs]]) (use assms vs l in \<open>auto intro!: str_unescape_gen wf_lh_strs tstD\<close>)
qed

lemma does_str_translate [does_rules]:
  assumes "v \<in> V" "NUL \<notin> set (f v)" "int_char a \<noteq> NUL" "int_char b \<noteq> NUL"
  shows "does (tst w0 G V L n f g) (str_translate v a b)
    (tst w0 G V L n (f(v := take 1 (f v) @ map (\<lambda>c. if c = int_char a then int_char b else c) (drop 1 (f v)))) g)"
proof (rule does_upd [OF _ assms(1)])
  fix w assume w: "tst w0 G V L n f g w"
  show "\<exists>w'. str_translate v a b w = Ok () w' \<and> str_upd w v (take 1 (f v) @ map (\<lambda>c. if c = int_char a then int_char b else c) (drop 1 (f v))) w'"
    by (rule str_translate_ok [OF tstD(3) [OF w assms(1)] assms(2-4)])
qed (use assms in \<open>auto dest: in_set_takeD in_set_dropD\<close>)

lemma does_str_subst_regex:
  assumes "v \<in> V" "NUL \<notin> set (f v)" "length (f v) + length r < STRING_MAX" "NUL \<notin> set r"
    "rx_comp rx pat False = Inr preg" "rx_exec rx preg (f v) = RxMatch ((so, eo) # ms)" "rx_within (f v) (so, eo)"
  shows "does (tst w0 G V L n f g) (str_subst_regex rx v pat (CLit r))
    (tst w0 G V L n (f(v := take (nat so) (f v) @ r @ drop (nat eo) (f v))) g)"
proof (rule does_upd [OF _ assms(1)])
  fix w assume w: "tst w0 G V L n f g w"
  have "length (f v) < STRING_MAX" using assms(3) by simp
  then show "\<exists>w'. str_subst_regex rx v pat (CLit r) w = Ok () w' \<and> str_upd w v (take (nat so) (f v) @ r @ drop (nat eo) (f v)) w'"
    by (rule str_subst_regex_ok [OF tstD(3) [OF w assms(1)] assms(2) _ tstD(1) [OF w] wf_lh_strs [OF tstD(2) [OF w]] assms(4-7,3)])
qed (use assms(2,4) in \<open>auto dest: in_set_takeD in_set_dropD\<close>)

lemma does_str_truncate_at [does_rules]:
  assumes "v \<in> V" "m \<le> length (f v)" "NUL \<notin> set (f v)"
  shows "does (tst w0 G V L n f g) (str_truncate_at v m) (tst w0 G V L n (f(v := take m (f v))) g)"
  by (rule does_upd [OF _ assms(1)]) (use assms in \<open>auto intro!: str_truncate_at_ok tstD dest: in_set_takeD\<close>)

lemma does_str_prepend [does_rules]:
  assumes "d \<in> V" "s \<in> V" "d \<noteq> s" "NUL \<notin> set (f d)" "NUL \<notin> set (f s)" "length (f s) + length (f d) < STRING_MAX"
  shows "does (tst w0 G V L n f g) (str_prepend d s) (tst w0 G V L n (f(d := f s @ f d)) g)"
  by (rule does_upd [OF _ assms(1)]) (use assms in \<open>auto intro!: str_prepend_ok wf_lh_strs tstD\<close>)

lemma does_str_swap [does_rules]:
  assumes "s \<in> V" "t \<in> V" "s \<noteq> t"
  shows "does (tst w0 G V L n f g) (str_swap s t) (tst w0 G V L n (f(s := f t, t := f s)) g)"
proof (rule doesI)
  fix w assume w: "tst w0 G V L n f g w"
  obtain a b where ab: "strs w s = Some a" "str_rep a (f s)" "strs w t = Some b" "str_rep b (f t)"
    using tstD(3) [OF w assms(1)] tstD(3) [OF w assms(2)] by (auto simp: str_has_def)
  let ?w1 = "w\<lparr>strs := (strs w)(s \<mapsto> b)\<rparr>" and ?w2 = "w\<lparr>strs := (strs w)(s \<mapsto> b, t \<mapsto> a)\<rparr>"
  have "str_upd w s (f t) ?w1" using str_updI [OF ab(4), of w "brk w"] by simp
  then have t1: "tst w0 G V L n (f(s := f t)) g ?w1" by (rule tst_upd [OF w _ assms(1) tstD(4) [OF w assms(2)]])
  have "str_upd ?w1 t (f s) ?w2" using str_updI [OF ab(2), of ?w1 "brk w"] by simp
  then have "tst w0 G V L n (f(s := f t, t := f s)) g ?w2" by (rule tst_upd [OF t1 _ assms(2) tstD(4) [OF w assms(1)]])
  then show "\<exists>w'. str_swap s t w = Ok () w' \<and> tst w0 G V L n (f(s := f t, t := f s)) g w'"
    using str_swap_eval [OF ab(1,3)] by simp
qed

lemma does_str_divide [does_rules]:
  assumes "l \<in> V" "r \<in> V" "s \<in> V" "distinct [l, r, s]" "0 < i" "i < length (f s)" "NUL \<notin> set (f s)" "length (f s) < STRING_MAX"
  shows "does (tst w0 G V L n f g) (str_divide l r s i) (tst w0 G V L n (f(l := take i (f s), r := drop (i + 1) (f s))) g)"
proof (rule doesI)
  fix w assume w: "tst w0 G V L n f g w"
  obtain w' where w': "str_divide l r s i w = Ok () w'" "mod_strs {l, r} w w'" "str_has w' l (take i (f s))" "str_has w' r (drop (i + 1) (f s))"
    using str_divide_ok [OF tstD(3) [OF w assms(3)] tstD(3) [OF w assms(1)] tstD(3) [OF w assms(2)] assms(4,6-8) tstD(1) [OF w]] assms(5) by auto
  let ?w1 = "w\<lparr>strs := (strs w)(l := strs w' l)\<rparr>"
  have u1: "str_upd w l (take i (f s)) ?w1" using w'(3) by (auto simp: str_upd_iff mod_strs_def str_has_def)
  have u2: "str_upd ?w1 r (drop (i + 1) (f s)) w'"
    using w'(2,4) assms(4) by (auto simp: str_upd_iff mod_strs_def)
  have "NUL \<notin> set (take i (f s))" "NUL \<notin> set (drop (i + 1) (f s))" using assms(7) by (auto dest: in_set_takeD in_set_dropD)
  then have "tst w0 G V L n (f(l := take i (f s), r := drop (i + 1) (f s))) g w'"
    by (intro tst_upd [OF tst_upd [OF w u1 assms(1)] u2 assms(2)])
  then show "\<exists>w'. str_divide l r s i w = Ok () w' \<and> tst w0 G V L n (f(l := take i (f s), r := drop (i + 1) (f s))) g w'"
    using w'(1) by blast
qed

section \<open>Queries of strings\<close>

lemma does_str_contains [does_rules]:
  assumes "v \<in> V" "NUL \<notin> set (f v)" "NUL \<notin> set x" "does (tst w0 G V L n f g) (k (\<exists>us vs. f v = us @ x @ vs)) Q"
  shows "does (tst w0 G V L n f g) (nc_bind (str_contains v (CLit x)) k) Q"
  by (rule does_value [where k = k, OF _ assms(4)]) (use assms(1-3) in \<open>auto intro!: str_contains_eval tstD\<close>)

lemma does_str_count [does_rules]:
  assumes "v \<in> V" "NUL \<notin> set (f v)" "does (tst w0 G V L n f g) (k (count_list (f v) (int_char c))) Q"
  shows "does (tst w0 G V L n f g) (nc_bind (str_count v c) k) Q"
  by (rule does_value [where k = k, OF _ assms(3)]) (use assms(1,2) in \<open>auto intro!: str_count_eval tstD\<close>)

lemma does_str_to_int [does_rules]:
  assumes "v \<in> V" "f v = dec_int i" "\<bar>i\<bar> \<le> INT_MAX" "does (tst w0 G V L n f g) (k i) Q"
  shows "does (tst w0 G V L n f g) (nc_bind (str_to_int v) k) Q"
proof (rule does_value [where k = k, OF _ assms(4)])
  fix w assume w: "tst w0 G V L n f g w"
  have "\<bar>i\<bar> \<le> LONG_MAX" "i \<le> INT_MAX" using assms(3) by (simp_all add: INT_MAX_def LONG_MAX_def)
  moreover have "to_int32 i = i" by (rule to_int32_id) (use assms(3) in \<open>simp_all add: INT_MAX_def abs_le_iff\<close>)
  ultimately show "str_to_int v w = Ok i w" using str_to_int_dec [of w v i] tstD(3) [OF w assms(1)] assms(2) by simp
qed

lemma does_str_get_char [does_rules]:
  assumes "v \<in> V" "i < length (f v)" "does (tst w0 G V L n f g) (k (f v ! i)) Q"
  shows "does (tst w0 G V L n f g) (nc_bind (str_get_char v i) k) Q"
  by (rule does_value [where k = k, OF _ assms(3)]) (use assms(1,2) in \<open>simp add: str_get_char_eval [OF tstD(3)]\<close>)

lemma does_str_match_regex:
  assumes "v \<in> V" "NUL \<notin> set (f v)" "rx_comp rx pat True = Inr preg"
    "rx_exec rx preg (f v) = (if b then RxMatch ms else RxNoMatch)" "does (tst w0 G V L n f g) (k b) Q"
  shows "does (tst w0 G V L n f g) (nc_bind (str_match_regex rx v pat) k) Q"
  by (rule does_value [where k = k, OF _ assms(5)]) (use assms(1-4) in \<open>auto simp: str_match_regex_ok [OF tstD(3)]\<close>)

lemma does_str_cmp_terminator [does_rules]:
  assumes "v \<in> V" "f v \<noteq> []" "char_int (last (f v)) = c" "does (tst w0 G V L n f g) (k 0) Q"
  shows "does (tst w0 G V L n f g) (test_rc (str_cmp_terminator v c) k) Q"
proof (rule doesI)
  fix w assume w: "tst w0 G V L n f g w"
  have "str_cmp_terminator v c w = Ok () w" using str_cmp_terminator_eval [OF tstD(3) [OF w assms(1)], of c] assms(3) by simp
  then show "\<exists>w'. test_rc (str_cmp_terminator v c) k w = Ok () w' \<and> Q w'"
    using assms(4) w by (simp add: test_rc_def nc_catch_def does_def)
qed

lemma does_str_cmp [does_rules]:
  assumes "v \<in> V" "f v = x" "NUL \<notin> set x"
  shows "does (tst w0 G V L n f g) (str_cmp v (CLit x)) (tst w0 G V L n f g)"
proof (rule doesI)
  fix w assume w: "tst w0 G V L n f g w"
  have "str_cmp v (CLit x) w = Ok () w"
    using str_cmp_eval [OF tstD(3,4) [OF w assms(1)] cread_CLit [OF assms(3)]] assms(2) by simp
  then show "\<exists>w'. str_cmp v (CLit x) w = Ok () w' \<and> tst w0 G V L n f g w'" using w by blast
qed

end
