(* ===== verification/NC_Selftest_Strings.thy ===== *)
theory NC_Selftest_Strings
  imports NC_Selftest_Laws NC_Regex_Props
begin

text \<open>The self test of strings passes.\<close>

definition tested :: "('k, 'z) test_heap_scheme \<Rightarrow> nat set \<Rightarrow> nat set \<Rightarrow> nat set \<Rightarrow> nat \<Rightarrow> ('k, 'z) test_heap_scheme \<Rightarrow> bool" where
  "tested w0 G V L n w \<longleftrightarrow> (\<exists>f g. tst w0 G V L n f g w)"

lemma testedI: "tst w0 G V L n f g w \<Longrightarrow> n = m \<Longrightarrow> tested w0 G V L m w"
  by (auto simp: tested_def)

lemma does_tested: "(\<And>f g. does (tst w0 G V L n f g) m Q) \<Longrightarrow> does (tested w0 G V L n) m Q"
  by (auto simp: does_def tested_def)

text \<open>What the self test relies on of the regular expression library: its answers for the two patterns it uses.\<close>

definition test_patterns :: "'r regex_lib \<Rightarrow> bool" where
  "test_patterns rx \<longleftrightarrow>
     (\<exists>p ms. rx_comp rx ''bcd'' False = Inr p \<and> rx_exec rx p ''abcde'' = RxMatch ((1, 4) # ms)) \<and>
     (\<exists>p ms. rx_comp rx ''(foo|bar)'' True = Inr p \<and> rx_exec rx p ''foo'' = RxMatch ms \<and> rx_exec rx p ''baz'' = RxNoMatch)"

lemma str_tests_edit_does:
  assumes "{s, t} \<subseteq> V" "s \<noteq> t" "n < 900"
  shows "does (tested w0 G V L n) (str_tests_edit s t) (tested w0 G V L (n + 8))"
  unfolding str_tests_edit_def
  apply (rule does_tested)
  apply (rule does_cons, (rule does_rules; insert assms; simp add: STRING_MAX_def chomp_def chomp1_def; fail))+
  apply (rule does_nil, erule testedI, simp)
  done

lemma escape_sample:
  "uri_escape '' . '' = ''%20.%20''" "unescaped ''%20.%20'' = Some '' . ''" "unescaped ''%'' = Some ''%''"
  "unescaped ''a %27quoted%27 word'' = Some (''a '' @ CHR 0x27 # ''quoted'' @ CHR 0x27 # '' word'')"
  by code_simp+

lemma sample_ints:
  "int_char 43 = CHR ''+''" "int_char 32 = CHR '' ''" "int_char 122 = CHR ''z''" "char_int LF = 10" "''-36'' = dec_int (-36)"
  by code_simp+

lemma str_tests_escape_does:
  assumes "{s, t} \<subseteq> V" "s \<noteq> t" "n < 900" "test_patterns rx"
  shows "does (tested w0 G V L n) (str_tests_escape rx s t) (tested w0 G V L (n + 6))"
proof -
  obtain p ms where p: "rx_comp rx ''bcd'' False = Inr p" "rx_exec rx p ''abcde'' = RxMatch ((1, 4) # ms)"
    using assms(4) by (auto simp: test_patterns_def)
  show ?thesis
  unfolding str_tests_escape_def
  apply (rule does_tested)
  apply (rule does_cons, (rule does_rules; insert assms; simp add: STRING_MAX_def; fail))+
  apply (rule does_cons, rule does_str_subst_regex [where preg = p and so = 1 and eo = 4 and ms = ms];
     insert assms p; (simp add: STRING_MAX_def rx_within_def; fail)?)
  apply (rule does_cons, (rule does_rules; insert assms; simp add: STRING_MAX_def escape_sample sample_ints del: uri_escape_simps unescaped.simps; fail))+
  apply (rule does_nil, erule testedI, simp)
  done
qed

lemma str_tests_search_does:
  assumes "s \<in> V" "n < 900" "test_patterns rx"
  shows "does (tested w0 G V L n) (str_tests_search rx s) (tested w0 G V L (n + 4))"
proof -
  obtain p ms where p: "rx_comp rx ''(foo|bar)'' True = Inr p" "rx_exec rx p ''foo'' = RxMatch ms" "rx_exec rx p ''baz'' = RxNoMatch"
    using assms(3) by (auto simp: test_patterns_def)
  have c: "\<exists>us vs. ''foo bar baz'' = us @ ''bar'' @ vs" by (rule exI [of _ "''foo ''"], rule exI [of _ "'' baz''"]) simp
  show ?thesis
  unfolding str_tests_search_def
  apply (rule does_tested)
  apply (rule does_cons, (rule does_rules; insert assms;
    ((simp add: STRING_MAX_def sample_ints; fail) | (rule does_rules; simp add: sample_ints c [simplified]; fail))))+
  apply (rule does_cons, (rule does_str_match_regex [where b = True and preg = p and ms = ms]; insert assms p; (simp; fail)?; rule does_rules, simp))
  apply (rule does_cons, (rule does_rules; insert assms; simp add: STRING_MAX_def; fail))
  apply (rule does_cons, (rule does_str_match_regex [where b = False and preg = p]; insert assms p; (simp; fail)?; rule does_rules, simp))
  apply (rule does_nil, erule testedI, simp)
  done
qed

lemma str_tests_parts_does:
  assumes "{s, t, u} \<subseteq> V" "distinct [s, t, u]" "n < 900"
  shows "does (tested w0 G V L n) (str_tests_parts s t u) (tested w0 G V L (n + 6))"
  unfolding str_tests_parts_def
  apply (rule does_tested)
  apply (rule does_cons, (rule does_rules; insert assms; simp add: STRING_MAX_def; fail))+
  apply (rule does_cons, (rule does_str_to_int [where i = "-36"]; insert assms; 
    ((simp add: INT_MAX_def sample_ints; fail) | (rule does_rules; simp; fail))))
  apply (rule does_cons, (rule does_rules; insert assms;
    ((simp add: STRING_MAX_def; fail) | (rule does_rules; simp; fail))))+
  apply (rule does_nil, erule testedI, simp)
  done

lemma does_start_tested:
  assumes "n < 1000"
  shows "does (tested w0 G V L n) (start_test name) (tested w0 G V L (Suc n))"
  by (rule doesI) (use does_start_test [OF assms] in \<open>fastforce simp: tested_def does_def\<close>)

definition str_freed :: "(('k, 'z) test_heap_scheme \<Rightarrow> bool) \<Rightarrow> nat \<Rightarrow> ('k, 'z) test_heap_scheme \<Rightarrow> bool" where
  "str_freed P v w \<longleftrightarrow> (\<exists>w0. P w0 \<and> w = w0\<lparr>strs := (strs w0)(v := None)\<rparr>)"

lemma does_str_destroy:
  "v \<in> V \<Longrightarrow> does (tested w0 G V L n) (str_destroy (Some v)) (str_freed (tested w0 G V L n) v)"
  by (auto simp: does_def tested_def str_freed_def intro: str_destroy_ok tstD(3))

lemma str_run_tests_run:
  assumes "mem_ok w" "wf_lh w" "0 \<le> num_tests w" "num_tests w < 2 ^ 30" "test_patterns rx"
  obtains w' s t u where "str_run_tests rx w = Ok () w'" "distinct [s, t, u]" "brk w \<le> s" "brk w \<le> t" "brk w \<le> u"
    "since w {} {u, t, s} {} 26 w'" "strs w' s = None" "strs w' t \<noteq> None" "strs w' u \<noteq> None"
proof -
  let ?f = "\<lambda>_. []" and ?g = "\<lambda>_. []"
  obtain w1 where w1: "start_test ''str_new()'' w = Ok () w1" "tst w {} {} {} (Suc 0) ?f ?g w1"
    using does_start_test [of 0 w "{}" "{}" "{}" ?f ?g] tst_start [OF assms(1-4), of "{}" ?f ?g] by (auto simp: does_def)
  obtain s w2 where w2: "str_new None w1 = Ok s w2" "brk w \<le> s" "tst w {} {s} {} (Suc 0) (?f(s := [])) ?g w2"
    using tst_new_str [OF w1(2)] by metis
  obtain t w3 where w3: "str_new None w2 = Ok t w3" "t \<noteq> s" "brk w \<le> t" "tst w {} {t, s} {} (Suc 0) (?f(s := [], t := [])) ?g w3"
    using tst_new_str [OF w2(3)] by (metis singletonI)
  obtain u w4 where w4: "str_new None w3 = Ok u w4" "u \<notin> {t, s}" "brk w \<le> u" "tst w {} {u, t, s} {} (Suc 0) (?f(s := [], t := [], u := [])) ?g w4"
    using tst_new_str [OF w3(4)] by metis
  let ?V = "{u, t, s}"
  have V: "{s, t} \<subseteq> ?V" "{s, t, u} \<subseteq> ?V" "s \<in> ?V" "s \<noteq> t" "distinct [s, t, u]" using w3(2) w4(2) by auto
  let ?ms = "[str_tests_edit s t, str_tests_escape rx s t, str_tests_search rx s, str_tests_parts s t u,
      start_test ''str_destroy()'', str_destroy (Some s)]"
  have "does (tested w {} ?V {} 1) (nc_seq ?ms) (str_freed (tested w {} ?V {} 26) s)"
    apply (rule does_cons, rule str_tests_edit_does [OF V(1,4)], simp)
    apply (rule does_cons, rule str_tests_escape_does [OF V(1,4) _ assms(5)], simp)
    apply (rule does_cons, rule str_tests_search_does [OF V(3) _ assms(5)], simp)
    apply (rule does_cons, rule str_tests_parts_does [OF V(2,5)], simp)
    apply (rule does_cons, rule does_start_tested, simp)
    apply (rule does_cons, rule does_str_destroy [OF V(3)])
    apply (rule does_nil, simp add: str_freed_def eval_nat_numeral)
    done
  then obtain w5 where w5: "nc_seq ?ms w4 = Ok () w5" "str_freed (tested w {} ?V {} 26) s w5"
    by (rule doesE) (rule testedI [OF w4(4)], simp_all)
  then obtain v f g where v: "tst w {} ?V {} 26 f g v" "w5 = v\<lparr>strs := (strs v)(s := None)\<rparr>" by (auto simp: str_freed_def tested_def)
  have "str_run_tests rx w = Ok () w5"
    using w1(1) w2(1) w3(1) w4(1) w5(1) by (simp add: str_run_tests_def nc_bind_def del: nc_seq.simps)
  moreover have "strs w5 s = None" "strs w5 t \<noteq> None" "strs w5 u \<noteq> None" using tstD(3) [OF v(1)] v(2) V(5) by (auto simp: str_has_def)
  moreover have "since w {} ?V {} 26 w5"
    unfolding v(2) by (rule since_mod [OF _ free_lh _ _ _ free_wf [OF tstD(2) [OF v(1)]]]) (use v(1) in \<open>simp_all add: tst_def\<close>)
  ultimately show thesis using that V(5) w2(2) w3(3) w4(3) by blast
qed

text \<open>
  C11. The self test of strings passes: with enough memory, and a regular expression library that finds the two patterns
  the test uses, \<^verbatim>\<open>str_run_tests\<close> runs all its 26 tests and returns 0. It changes nothing that existed before; of its
  three strings, it frees only the first.
\<close>

theorem str_run_tests_pass:
  assumes "mem_ok w" "wf_lh w" "0 \<le> num_tests w" "num_tests w < 2 ^ 30" "test_patterns rx"
  shows "\<exists>w' t u. str_run_tests rx w = Ok () w' \<and> num_tests w' = num_tests w + 26 \<and>
    t \<noteq> u \<and> strs w t = None \<and> strs w u = None \<and> strs w' t \<noteq> None \<and> strs w' u \<noteq> None \<and> (\<forall>x. x \<notin> {t, u} \<longrightarrow> strs w' x = strs w x) \<and>
    ents w' = ents w \<and> lists w' = lists w \<and> hashes w' = hashes w \<and> kern w' = kern w"
proof -
  obtain w' s t u where w': "str_run_tests rx w = Ok () w'" "distinct [s, t, u]" "brk w \<le> s" "brk w \<le> t" "brk w \<le> u"
      "since w {} {u, t, s} {} 26 w'" "strs w' s = None" "strs w' t \<noteq> None" "strs w' u \<noteq> None"
    using str_run_tests_run [OF assms] .
  have m: "mod_lh {u, t, s} {} {} w (w'\<lparr>num_tests := num_tests w\<rparr>)" "num_tests w' = num_tests w + 26"
    using w'(6) by (simp_all add: since_def)
  have fresh: "strs w s = None" "strs w t = None" "strs w u = None" using wf_strs_fresh wf_lh_strs [OF assms(2)] w'(3-5) by blast+
  have "strs w' x = strs w x" if "x \<notin> {t, u}" for x
    using that fresh(1) mod_lh_strs [OF m(1), of x] w'(7) by (cases "x = s") auto
  moreover have "ents w' = ents w" "lists w' = lists w" using m(1) by (auto simp: fun_eq_iff mod_lh_def)
  ultimately show ?thesis using w' fresh m(2) since_rest [OF w'(6)] by (intro exI [of _ w'] exI [of _ t] exI [of _ u]) simp
qed

definition tmem :: "unit test_heap" where
  "tmem = \<lparr>strs = Map.empty, brk = 0, malloc_ok = (\<lambda>_ _. True), ents = Map.empty, lists = Map.empty, hashes = Map.empty,
     kern = (), files = Map.empty, num_tests = 0, test_count = 0, test_name = replicate 26 None, test_func = replicate 26 None\<rparr>"

lemma tmem_ok: "mem_ok tmem" "wf_lh tmem" "num_tests tmem = 0"
  by (simp_all add: tmem_def mem_ok_def wf_lh_def wf_strs_def)

text \<open>A matcher for literal patterns and for the two alternatives of the test\<close>

definition alt_rx :: "string regex_lib" where
  "alt_rx = \<lparr>rx_comp = (\<lambda>p nosub. Inr p), rx_nsub = (\<lambda>p. 0),
     rx_exec = (\<lambda>p cs. case (if p = ''(foo|bar)'' then find_at ''foo'' cs else find_at p cs) of
         Some i \<Rightarrow> RxMatch [(int i, int i + 3)]
       | None \<Rightarrow> (case find_at ''bar'' cs of Some i \<Rightarrow> if p = ''(foo|bar)'' then RxMatch [(int i, int i + 3)] else RxNoMatch | None \<Rightarrow> RxNoMatch))\<rparr>"

lemma alt_rx_patterns: "test_patterns alt_rx"
  by (auto simp: test_patterns_def alt_rx_def)

theorem str_run_tests_pass_witness:
  "\<exists>w' t u. str_run_tests alt_rx tmem = Ok () w' \<and> num_tests w' = num_tests tmem + 26 \<and>
    t \<noteq> u \<and> strs tmem t = None \<and> strs tmem u = None \<and> strs w' t \<noteq> None \<and> strs w' u \<noteq> None \<and>
    (\<forall>x. x \<notin> {t, u} \<longrightarrow> strs w' x = strs tmem x) \<and>
    ents w' = ents tmem \<and> lists w' = lists tmem \<and> hashes w' = hashes tmem \<and> kern w' = kern tmem"
  by (rule str_run_tests_pass [OF tmem_ok(1,2) _ _ alt_rx_patterns]) (simp_all add: tmem_ok)

end
