(* ===== verification/NC_Selftest_Lists.thy ===== *)
theory NC_Selftest_Lists
  imports NC_Selftest_Strings
begin

text \<open>Contracts of the list operations, and the self test of lists.\<close>

section \<open>Comparing and searching\<close>

lemma list_compare_loop_ok:
  assumes "list_at w l cs xss" "str_has w s (xss ! i)" "s \<notin> snd ` set cs" "i < length xss" "length xss < 2 ^ 32" "mem_ok w" "wf_lh w"
    "\<forall>xs\<in>set xss. NUL \<notin> set xs"
  shows "\<exists>w' y. list_compare_loop (map CLit (drop i xss)) s l (Suc i) w = Ok (Some (length xss)) w' \<and> mod_strs {s} w w' \<and> str_has w' s y"
  using assms(1,2,4,6,7)
proof (induction "length xss - i" arbitrary: i w)
  case (Suc k)
  have x: "NUL \<notin> set (xss ! i)" using assms(8) Suc.prems(3) by simp
  have dr: "drop i xss = xss ! i # drop (Suc i) xss" using Suc.prems(3) by (simp add: Cons_nth_drop_Suc)
  have c: "str_cmp s (CLit (xss ! i)) w = Ok () w"
    using str_cmp_eval [OF Suc.prems(2) x cread_CLit [OF x]] by simp
  show ?case
  proof (cases "Suc i < length xss")
    case True
    have "Suc i < 2 ^ 32" using True assms(5) by simp
    then obtain w1 where w1: "list_get s l (Suc i) w = Ok () w1" "str_upd w s (xss ! Suc i) w1"
      using list_get_ok [OF Suc.prems(1) True _ Suc.prems(2) assms(3) Suc.prems(4,5)] by blast
    note u = str_upd_lh [OF w1(2) Suc.prems(2,5)]
    have "list_at w1 l cs xss" by (rule list_at_frame [OF Suc.prems(1) u(1)]) (use assms(3) in auto)
    moreover have "k = length xss - Suc i" "mem_ok w1" using Suc.hyps(2) u(4) Suc.prems(4) by simp_all
    ultimately obtain w' y where w': "list_compare_loop (map CLit (drop (Suc i) xss)) s l (Suc (Suc i)) w1 = Ok (Some (length xss)) w'"
        "mod_strs {s} w1 w'" "str_has w' s y"
      using Suc.hyps(1) [of "Suc i" w1] u(2,3) True by blast
    have "sz (Suc i + 1) = Suc (Suc i)" using sz_id [of "Suc (Suc i)"] True assms(5) by simp
    then show ?thesis using dr c w1(1) w' True mod_strs_trans_same [OF str_upd_mod [OF w1(2)] w'(2)]
      by (auto simp: nc_catch_def nc_bind_def)
  next
    case False
    then have "drop (Suc i) xss = []" "Suc i = length xss" using Suc.prems(3) by simp_all
    then show ?thesis using dr c Suc.prems(2) by (auto simp: nc_catch_def nc_return_def)
  qed
qed simp

lemma list_compare_ok:
  assumes "list_at w l cs xss" "xss \<noteq> []" "length xss < 2 ^ 32" "\<forall>xs\<in>set xss. NUL \<notin> set xs" "mem_ok w" "wf_lh w"
  shows "\<exists>w'. list_compare l (map CLit xss) w = Ok () w' \<and> mod_lh {brk w..} {} {} w w' \<and> wf_lh w'"
proof -
  let ?s = "brk w"
  obtain w1 where w1: "str_new None w = Ok ?s w1" "mod_lh {?s} {} {} w w1" "str_has w1 ?s []" "wf_lh w1" "mem_ok w1" "?s < brk w1"
    using str_new_lh [OF assms(5,6)] by metis
  have sl: "?s \<notin> snd ` set cs" using vals_lt [of w cs xss] assms(1,6) by (fastforce simp: list_at_def)
  have l1: "list_at w1 l cs xss" by (rule list_at_frame [OF assms(1) w1(2)]) (use sl in auto)
  obtain w2 where w2: "list_get ?s l 0 w1 = Ok () w2" "str_upd w1 ?s (xss ! 0) w2"
    using list_get_ok [OF l1 _ _ w1(3) sl w1(5,4), of 0] assms(2) by auto
  note u = str_upd_lh [OF w2(2) w1(3,4)]
  have l2: "list_at w2 l cs xss" by (rule list_at_frame [OF l1 u(1)]) (use sl in auto)
  obtain w3 y where w3: "list_compare_loop (map CLit xss) ?s l 1 w2 = Ok (Some (length xss)) w3" "mod_strs {?s} w2 w3" "str_has w3 ?s y"
    using list_compare_loop_ok [OF l2, of ?s 0] u(2-4) sl assms(2-4) w1(5) by auto
  let ?w = "w3\<lparr>strs := (strs w3)(?s := None)\<rparr>"
  have h: "lists w1 l = Some (header cs)" "length cs = length xss" using l1 vals_length by (auto simp: list_at_def list_cells_def)
  have "with_auto_str (\<lambda>s1. nc_bind (get_list l) (\<lambda>h. if map CLit xss = [] \<and> l_count h \<noteq> 0 then nc_return (-1 :: int)
       else nc_bind (list_get s1 l 0) (\<lambda>_. nc_bind (list_compare_loop (map CLit xss) s1 l 1) (\<lambda>r.
         nc_return (if r = Some (l_count h) then 0 else -1))))) w = Ok 0 ?w"
    by (rule with_auto_str_run [OF w1(1) _ w3(3)]) (use h assms(2) w2(1) w3(1) in \<open>simp add: nc_bind_def get_list_def nc_return_def\<close>)
  then have "list_compare l (map CLit xss) w = Ok () ?w" by (simp add: list_compare_def nc_bind_def nc_rc_def)
  moreover have "mod_lh {?s..} {} {} w ?w"
    using mod_lh_trans [OF w1(2) mod_lh_trans [OF u(1) mod_strs_lh [OF w3(2)]]] by (auto simp: mod_lh_def)
  moreover have "wf_lh ?w"
  proof -
    have "wf_lh w3" by (rule mod_lh_wf [OF mod_strs_lh [OF w3(2)] u(2)]) (use w1(6) mod_lh_brk [OF u(1)] mod_strs_brk [OF w3(2)] in simp)
    then show ?thesis by (rule free_wf)
  qed
  ultimately show ?thesis by blast
qed

definition substr_body :: "cptr \<Rightarrow> nat \<Rightarrow> bool \<Rightarrow> (bool \<times> bool, 'z) lnc" where
  "substr_body p cur acc =
     nc_bind (get_ent cur) (\<lambda>e. nc_bind (deref (e_value e)) (\<lambda>v.
     nc_bind (str_contains v p) (\<lambda>found. nc_return (found, \<not> found))))"

lemma list_find_substr_loop:
  assumes "cread p w = Ok ys w"
  shows "dseg (ents w) q cs None \<Longrightarrow> vals w cs xss \<Longrightarrow> length cs < k \<Longrightarrow> \<forall>xs\<in>set xss. NUL \<notin> set xs \<Longrightarrow>
     foreach_ent k (hd_addr cs None) (substr_body p) False w = Ok (\<exists>xs\<in>set xss. \<exists>us vs. xs = us @ ys @ vs) w"
proof (induction cs arbitrary: q xss k)
  case Nil
  then show ?case by (cases k) (simp_all add: foreach_ent_None)
next
  case (Cons c cs)
  obtain a s where c: "c = (a, s)" by (cases c)
  obtain x xss' where x: "xss = x # xss'" "str_has w s x" "vals w cs xss'" using Cons.prems(2) c by (auto simp: vals_Cons)
  obtain k' where k: "k = Suc k'" using Cons.prems(3) by (cases k) auto
  have e: "ents w a = Some \<lparr>e_value = Some s, e_next = hd_addr cs None, e_prev = q\<rparr>" using Cons.prems(1) c by simp
  have b: "substr_body p a False w = Ok (\<exists>us vs. x = us @ ys @ vs, \<not> (\<exists>us vs. x = us @ ys @ vs)) w"
    using e str_contains_eval [OF x(2) _ assms] Cons.prems(4) x(1) by (simp add: substr_body_def list_run)
  show ?case
  proof (cases "\<exists>us vs. x = us @ ys @ vs")
    case True
    then show ?thesis using b c k x(1) foreach_ent_break [of "substr_body p" a False w True w k'] by auto
  next
    case False
    then have "foreach_ent k (hd_addr (c # cs) None) (substr_body p) False w = foreach_ent k' (hd_addr cs None) (substr_body p) False w"
      using b c k e foreach_ent_next [of "substr_body p" a False w False w _ k'] by simp
    then show ?thesis using Cons.IH [of "Some a" xss' k'] Cons.prems c x k False by auto
  qed
qed

lemma list_find_substr_ok:
  assumes "list_at w l cs xss" "cread p w = Ok ys w" "\<forall>xs\<in>set xss. NUL \<notin> set xs" "wf_lh w"
  shows "list_find_substr l p w = (if \<exists>xs\<in>set xss. \<exists>us vs. xs = us @ ys @ vs then Ok () w else Fail (-1) w)"
proof -
  have c: "list_cells w l cs" "vals w cs xss" using assms(1) by (auto simp: list_at_def)
  have "for_each l (substr_body p) False w = Ok (\<exists>xs\<in>set xss. \<exists>us vs. xs = us @ ys @ vs) w"
    using list_find_substr_loop [OF assms(2), of None cs xss "Suc (brk w)"] for_each_eval [OF c(1), of "substr_body p" False] c assms(3)
      list_cells_lt(3) [OF c(1) assms(4)] by (simp add: list_cells_def)
  moreover have "list_find_substr l p w = nc_bind (for_each l (substr_body p) False) (\<lambda>found. if \<not> found then nc_throw else nc_return ()) w"
    by (simp add: list_find_substr_def substr_body_def [abs_def])
  ultimately show ?thesis by (simp add: nc_bind_def nc_throw_def nc_return_def)
qed

section \<open>Operations on one list\<close>

text \<open>
  What an operation on the list \<open>l\<close> may change: its cells, new objects, and the strings \<open>T\<close>.
\<close>

lemma split_on_no_NUL: "NUL \<notin> set xs \<Longrightarrow> x \<in> set (split_on d xs) \<Longrightarrow> NUL \<notin> set x"
proof (induction xs arbitrary: x)
  case (Cons c cs)
  have "hd (split_on d cs) \<in> set (split_on d cs)" "set (tl (split_on d cs)) \<subseteq> set (split_on d cs)"
    using list.set_sel(2) [OF split_on_ne] by auto
  then show ?case using Cons by (auto split: if_splits)
qed simp

lemma list_at_lt:
  assumes "list_at w l cs xss" "wf_lh w"
  shows "l < brk w" "fst ` set cs \<subseteq> {..<brk w}" "snd ` set cs \<subseteq> {..<brk w}"
proof -
  have c: "list_cells w l cs" "vals w cs xss" using assms(1) by (simp_all add: list_at_def)
  show "l < brk w" by (rule list_cells_lt(1) [OF c(1) assms(2)])
  show "fst ` set cs \<subseteq> {..<brk w}" using list_cells_lt(2) [OF c(1) assms(2)] by blast
  show "snd ` set cs \<subseteq> {..<brk w}" using vals_lt [OF c(2) wf_lh_strs [OF assms(2)]] by blast
qed

lemma below_above: "S \<subseteq> {..<(b :: nat)} \<Longrightarrow> S \<inter> {b..} = {}"
  by auto

lemma disjoint_Un: "A \<inter> B = {} \<Longrightarrow> A \<inter> U = {} \<Longrightarrow> E \<subseteq> B \<union> U \<Longrightarrow> A \<inter> E = {}"
  by blast

lemma disjoint_Diff: "A \<subseteq> B \<Longrightarrow> V \<inter> A = {} \<Longrightarrow> A \<subseteq> B - V"
  by blast

lemma tst_list_op:
  assumes t: "tst w0 {brk w0..} V L n f g w" and C: "cells_are {brk w0..} V L g C w" and l: "l \<in> L"
    and at: "list_at w' l es yss" and wf: "wf_lh w'"
    and m: "mod_lh (T \<union> snd ` set (C l) \<union> {brk w..}) (fst ` set (C l) \<union> {brk w..}) (insert l {brk w..}) w w'"
    and T: "T \<subseteq> V" "\<And>v. v \<in> T \<Longrightarrow> str_has w' v (f' v) \<and> NUL \<notin> set (f' v)" "\<And>v. v \<in> V - T \<Longrightarrow> f' v = f v"
    and es: "fst ` set es \<subseteq> fst ` set (C l) \<union> {brk w..}" "snd ` set es \<subseteq> snd ` set (C l) \<union> {brk w..}" and yss: "\<forall>ys\<in>set yss. NUL \<notin> set ys"
  shows "tst w0 {brk w0..} V L n f' (g(l := yss)) w'"
proof -
  have b: "brk w0 \<le> brk w" using t since_brk by (auto simp: tst_def)
  have V: "v < brk w" if "v \<in> V" for v using str_has_lt [OF wf_lh_strs [OF tstD(2) [OF t]] tstD(3) [OF t that]] .
  have old: "k < brk w" "fst ` set (C k) \<subseteq> {..<brk w}" "snd ` set (C k) \<subseteq> {..<brk w}" if "k \<in> L" for k
    by (rule list_at_lt [OF cells_areD(1) [OF C that] tstD(2) [OF t]])+
  have Gl: "fst ` set (C l) \<subseteq> {brk w0..}" "snd ` set (C l) \<subseteq> {brk w0..} - V" by (rule cells_areD(3,4) [OF C l])+
  have other: "list_at w' k (C k) (g k)" if k: "k \<in> L" "k \<noteq> l" for k
  proof (rule list_at_frame [OF cells_areD(1) [OF C k(1)] m])
    note d = cells_areD(5) [OF C l k]
    show "fst ` set (C k) \<inter> (fst ` set (C l) \<union> {brk w..}) = {}" using d below_above [OF old(2) [OF k(1)]] by (simp add: Int_Un_distrib)
    show "snd ` set (C k) \<inter> (T \<union> snd ` set (C l) \<union> {brk w..}) = {}"
      using d below_above [OF old(3) [OF k(1)]] cells_areD(4) [OF C k(1)] T(1) by (simp add: Int_Un_distrib) blast
    show "k \<notin> insert l {brk w..}" using old(1) [OF k(1)] k(2) by simp
  qed
  let ?C = "C(l := es)"
  have nV: "V \<inter> {brk w..} = {}" by (rule below_above) (use V in blast)
  have up: "{brk w..} \<subseteq> {brk w0..}" using b by auto
  have el: "fst ` set es \<subseteq> {brk w0..}" "snd ` set es \<subseteq> {brk w0..} - V" 
  proof -
    show "fst ` set es \<subseteq> {brk w0..}" by (rule order_trans [OF es(1) Un_least [OF Gl(1) up]])
    show "snd ` set es \<subseteq> {brk w0..} - V" by (rule order_trans [OF es(2) Un_least [OF Gl(2) disjoint_Diff [OF up nV]]])
  qed
  have dj: "fst ` set (C k) \<inter> fst ` set es = {}" "snd ` set (C k) \<inter> snd ` set es = {}" if k: "k \<in> L" "k \<noteq> l" for k
    using disjoint_Un [OF _ below_above [OF old(2) [OF k(1)]] es(1)] disjoint_Un [OF _ below_above [OF old(3) [OF k(1)]] es(2)]
      cells_areD(5) [OF C l k] by simp_all
  have "cells_are {brk w0..} V L (g(l := yss)) ?C w'"
    unfolding cells_are_def
  proof (intro conjI ballI impI)
    fix k assume k: "k \<in> L"
    show "list_at w' k (?C k) ((g(l := yss)) k)" using other [OF k] at by simp
    show "fst ` set (?C k) \<subseteq> {brk w0..}" using el cells_areD(3) [OF C k] by simp
    show "snd ` set (?C k) \<subseteq> {brk w0..} - V" using el cells_areD(4) [OF C k] by simp
    show "NUL \<notin> set xs" if "xs \<in> set ((g(l := yss)) k)" for xs using that yss cells_areD(2) [OF C k, of xs] by (cases "k = l") auto
    fix j assume j: "j \<in> L" "j \<noteq> k"
    show "fst ` set (?C j) \<inter> fst ` set (?C k) = {}" "snd ` set (?C j) \<inter> snd ` set (?C k) = {}"
      using dj [OF k] dj [OF j(1)] cells_areD(5) [OF C k j] j(2) by (cases "k = l"; cases "j = l"; simp add: Int_commute)+
  qed
  then have "lists_are {brk w0..} V L (g(l := yss)) w'" by (auto simp: lists_are_def)
  moreover have "since w0 {brk w0..} V L n w'"
    by (rule since_mod [OF _ m _ _ _ wf]) (use t T(1) Gl b l in \<open>auto simp: tst_def\<close>)
  moreover have "str_has w' v (f' v) \<and> NUL \<notin> set (f' v)" if v: "v \<in> V" for v
  proof (cases "v \<in> T")
    case False
    then have "v \<notin> T \<union> snd ` set (C l) \<union> {brk w..}" using Gl(2) V [OF v] v by auto
    then show ?thesis using mod_lh_has [OF m] tstD(3,4) [OF t v] T(3) [of v] v False by simp
  qed (use T(2) in simp)
  ultimately show ?thesis by (simp add: tst_def)
qed

lemma tstC:
  assumes "tst w0 G V L n f g w" "l \<in> L"
  obtains C where "cells_are G V L g C w" "list_at w l (C l) (g l)"
proof -
  obtain C where C: "cells_are G V L g C w" using assms(1) by (auto simp: tst_def lists_are_def)
  show thesis by (rule that [OF C cells_areD(1) [OF C assms(2)]])
qed

lemma does_list_truncate [does_rules]:
  assumes "l \<in> L"
  shows "does (tst w0 {brk w0..} V L n f g) (list_truncate l) (tst w0 {brk w0..} V L n f (g(l := [])))"
proof (rule doesI)
  fix w assume w: "tst w0 {brk w0..} V L n f g w"
  obtain C where C: "cells_are {brk w0..} V L g C w" "list_at w l (C l) (g l)" using tstC [OF w assms] .
  let ?w = "cleared l (C l) w"
  have "wf_lh ?w" by (rule cleared_wf [OF tstD(2) [OF w] list_at_lt(1) [OF C(2) tstD(2) [OF w]]])
  then have "tst w0 {brk w0..} V L n f (g(l := [])) ?w"
    by (rule tst_list_op [OF w C(1) assms cleared_empty, where T = "{}"]) (auto intro: mod_lh_mono [OF cleared_mod])
  then show "\<exists>w'. list_truncate l w = Ok () w' \<and> tst w0 {brk w0..} V L n f (g(l := [])) w'"
    using list_truncate_ok [OF C(2) tstD(2) [OF w]] by blast
qed

lemma does_list_cat [does_rules]:
  assumes "l \<in> L" "NUL \<notin> set x" "length x < STRING_MAX" "length (g l) < 2 ^ 32"
  shows "does (tst w0 {brk w0..} V L n f g) (list_cat l (CLit x)) (tst w0 {brk w0..} V L n f (g(l := g l @ [x])))"
proof (rule doesI)
  fix w assume w: "tst w0 {brk w0..} V L n f g w"
  obtain C where C: "cells_are {brk w0..} V L g C w" "list_at w l (C l) (g l)" using tstC [OF w assms(1)] .
  have len: "length (C l) + 1 < 2 ^ 64" using vals_length [of w "C l" "g l"] C(2) assms(4) by (simp add: list_at_def)
  obtain w' a s where w': "list_cat l (CLit x) w = Ok () w'" "list_at w' l (C l @ [(a, s)]) (g l @ [x])"
      "mod_lh {s} (insert a (fst ` set (C l))) {l} w w'" "brk w \<le> a" "brk w \<le> s" "a < brk w'" "s < brk w'"
    using list_cat_ok [OF C(2) _ assms(3) len tstD(1,2) [OF w], of "CLit x"] assms(2) by auto
  have wf: "wf_lh w'" by (rule list_push_wf [OF w'(3) _ tstD(2) [OF w] w'(6,7)]) (use C(2) in \<open>simp add: list_at_def\<close>)
  have "\<forall>ys\<in>set (g l @ [x]). NUL \<notin> set ys" using assms(2) cells_areD(2) [OF C(1) assms(1)] by auto
  moreover have "mod_lh ({} \<union> snd ` set (C l) \<union> {brk w..}) (fst ` set (C l) \<union> {brk w..}) (insert l {brk w..}) w w'"
    by (rule mod_lh_mono [OF w'(3)]) (use w'(4,5) in auto)
  ultimately have "tst w0 {brk w0..} V L n f (g(l := g l @ [x])) w'"
    by (intro tst_list_op [OF w C(1) assms(1) w'(2) wf, where T = "{}"]) (use w'(4,5) in auto)
  then show "\<exists>w'. list_cat l (CLit x) w = Ok () w' \<and> tst w0 {brk w0..} V L n f (g(l := g l @ [x])) w'" using w'(1) by blast
qed

lemma does_list_from_char_loop:
  assumes "l \<in> L" "\<forall>x\<in>set xss. NUL \<notin> set x \<and> length x < STRING_MAX" "length (g l) + length xss < 2 ^ 32"
  shows "does (tst w0 {brk w0..} V L n f g) (list_from_char_loop (map CLit xss) l) (tst w0 {brk w0..} V L n f (g(l := g l @ xss)))"
  using assms(2,3)
proof (induction xss arbitrary: g)
  case Nil
  then show ?case by (simp add: does_def nc_return_def)
next
  case (Cons x xss)
  have "does (tst w0 {brk w0..} V L n f g) (list_cat l (CLit x)) (tst w0 {brk w0..} V L n f (g(l := g l @ [x])))"
    by (rule does_list_cat [OF assms(1)]) (use Cons.prems in simp_all)
  moreover have "does (tst w0 {brk w0..} V L n f (g(l := g l @ [x]))) (list_from_char_loop (map CLit xss) l)
      (tst w0 {brk w0..} V L n f (g(l := g l @ x # xss)))"
    using Cons.IH [of "g(l := g l @ [x])"] Cons.prems by (simp add: fun_upd_def cong: if_cong)
  ultimately show ?case unfolding list.map list_from_char_loop.simps by (rule does_bind)
qed

lemma does_list_from_char [does_rules]:
  assumes "l \<in> L" "\<forall>x\<in>set xss. NUL \<notin> set x \<and> length x < STRING_MAX" "length xss < 2 ^ 32"
  shows "does (tst w0 {brk w0..} V L n f g) (list_from_char l (map CLit xss)) (tst w0 {brk w0..} V L n f (g(l := xss)))"
  unfolding list_from_char_def
  by (rule does_bind, rule does_list_truncate [OF assms(1)])
    (use does_list_from_char_loop [OF assms(1,2), of "g(l := [])"] assms(3) in simp)

lemma does_str_split [does_rules]:
  assumes "l \<in> L" "s \<in> V" "NUL \<notin> set (f s)" "f s \<noteq> []" "length (f s) < STRING_MAX" "int_char d \<noteq> NUL"
  shows "does (tst w0 {brk w0..} V L n f g) (str_split l s d)
    (tst w0 {brk w0..} V L n f (g(l := map (token_post d) (split_on (int_char d) (chomp (f s))))))"
proof (rule doesI)
  fix w assume w: "tst w0 {brk w0..} V L n f g w"
  obtain C where C: "cells_are {brk w0..} V L g C w" "list_at w l (C l) (g l)" using tstC [OF w assms(1)] .
  let ?yss = "map (token_post d) (split_on (int_char d) (chomp (f s)))"
  have sc: "s \<notin> snd ` set (C l)" using cells_areD(4) [OF C(1) assms(1)] assms(2) by auto
  obtain w' es where w': "str_split l s d w = Ok () w'" "list_at w' l es ?yss"
      "mod_lh (snd ` set (C l) \<union> {brk w..}) (fst ` set (C l) \<union> {brk w..}) {l} w w'" "wf_lh w'" "set es \<subseteq> {brk w..} \<times> {brk w..}"
    using str_split_ok [OF tstD(3) [OF w assms(2)] assms(3-6) C(2) sc tstD(1,2) [OF w]] by blast
  have es: "fst ` set es \<subseteq> fst ` set (C l) \<union> {brk w..}" "snd ` set es \<subseteq> snd ` set (C l) \<union> {brk w..}" using w'(5) by auto
  have "tst w0 {brk w0..} V L n f (g(l := ?yss)) w'"
  proof (rule tst_list_op [OF w C(1) assms(1) w'(2,4), where T = "{}"])
    show "mod_lh ({} \<union> snd ` set (C l) \<union> {brk w..}) (fst ` set (C l) \<union> {brk w..}) (insert l {brk w..}) w w'"
      by (rule mod_lh_mono [OF w'(3)]) auto
    show "\<forall>ys\<in>set ?yss. NUL \<notin> set ys" using split_on_no_NUL [OF chomp_no_NUL [OF assms(3)]] chomp_no_NUL by (auto simp: token_post_def)
  qed (use es in auto)
  then show "\<exists>w'. str_split l s d w = Ok () w' \<and> tst w0 {brk w0..} V L n f (g(l := ?yss)) w'" using w'(1) by blast
qed

lemma does_list_shift [does_rules]:
  assumes "l \<in> L" "d \<in> V" "g l \<noteq> []" "length (g l) < 2 ^ 32"
  shows "does (tst w0 {brk w0..} V L n f g) (list_shift d l) (tst w0 {brk w0..} V L n (f(d := hd (g l))) (g(l := tl (g l))))"
proof (rule doesI)
  fix w assume w: "tst w0 {brk w0..} V L n f g w"
  obtain C where C: "cells_are {brk w0..} V L g C w" "list_at w l (C l) (g l)" using tstC [OF w assms(1)] .
  have len: "length (C l) = length (g l)" using vals_length C(2) by (auto simp: list_at_def)
  have ne: "C l \<noteq> []" using len assms(3) by auto
  have dc: "d \<notin> snd ` set (C l)" using cells_areD(4) [OF C(1) assms(1)] assms(2) by auto
  have at: "list_at w l (C l) (hd (g l) # tl (g l))" using C(2) assms(3) by simp
  obtain w' where w': "list_shift d l w = Ok () w'" "list_at w' l (tl (C l)) (tl (g l))" "str_has w' d (hd (g l))"
      "mod_lh {d, snd (hd (C l))} (fst ` set (C l)) {l} w w'"
    using list_shift_ok [OF at tstD(3) [OF w assms(2)] dc tstD(1) [OF w] _ tstD(2) [OF w]] len assms(4) by auto
  have sub: "set (tl (C l)) \<subseteq> set (C l)" "hd (C l) \<in> set (C l)" using ne list.set_sel(2) [OF ne] by auto
  note lt = list_at_lt [OF C(2) tstD(2) [OF w]] str_has_lt [OF wf_lh_strs [OF tstD(2) [OF w]] tstD(3) [OF w assms(2)]]
  have wf: "wf_lh w'"
    by (rule mod_lh_wf [OF w'(4) tstD(2) [OF w]]) (use lt sub(2) mod_lh_brk [OF w'(4)] in \<open>fastforce\<close>)
  have "tst w0 {brk w0..} V L n (f(d := hd (g l))) (g(l := tl (g l))) w'"
  proof (rule tst_list_op [OF w C(1) assms(1) w'(2) wf, where T = "{d}"])
    show "mod_lh ({d} \<union> snd ` set (C l) \<union> {brk w..}) (fst ` set (C l) \<union> {brk w..}) (insert l {brk w..}) w w'"
      by (rule mod_lh_mono [OF w'(4)]) (use sub(2) in auto)
    show "\<forall>ys\<in>set (tl (g l)). NUL \<notin> set ys" using cells_areD(2) [OF C(1) assms(1)] list.set_sel(2) [OF assms(3)] by blast
    show "str_has w' v ((f(d := hd (g l))) v) \<and> NUL \<notin> set ((f(d := hd (g l))) v)" if "v \<in> {d}" for v
      using that w'(3) cells_areD(2) [OF C(1) assms(1)] assms(3) by simp
  qed (use assms(2) sub in auto)
  then show "\<exists>w'. list_shift d l w = Ok () w' \<and> tst w0 {brk w0..} V L n (f(d := hd (g l))) (g(l := tl (g l))) w'" using w'(1) by blast
qed

text \<open>An operation that leaves the contents as they are, but may move strings between the cells of \<open>l\<close>\<close>

lemma tst_same:
  assumes w: "tst w0 {brk w0..} V L n f g w" and C: "cells_are {brk w0..} V L g C w" and l: "l \<in> L"
    and "list_at w' l es yss" "wf_lh w'" "mod_lh {brk w..} (fst ` set (C l)) {} w w'"
    "fst ` set es = fst ` set (C l)" "snd ` set es = snd ` set (C l)" "set yss = set (g l)"
  shows "tst w0 {brk w0..} V L n f (g(l := yss)) w'"
proof (rule tst_list_op [OF w C l assms(4,5), where T = "{}"])
  show "mod_lh ({} \<union> snd ` set (C l) \<union> {brk w..}) (fst ` set (C l) \<union> {brk w..}) (insert l {brk w..}) w w'"
    by (rule mod_lh_mono [OF assms(6)]) auto
  show "\<forall>ys\<in>set yss. NUL \<notin> set ys" using cells_areD(2) [OF C l] assms(9) by simp
qed (use assms(7,8) in auto)

lemma does_list_compare [does_rules]:
  assumes "l \<in> L" "g l = xss" "xss \<noteq> []" "length xss < 2 ^ 32"
  shows "does (tst w0 {brk w0..} V L n f g) (list_compare l (map CLit xss)) (tst w0 {brk w0..} V L n f g)"
proof (rule doesI)
  fix w assume w: "tst w0 {brk w0..} V L n f g w"
  obtain C where C: "cells_are {brk w0..} V L g C w" "list_at w l (C l) (g l)" using tstC [OF w assms(1)] .
  have "\<forall>xs\<in>set xss. NUL \<notin> set xs" using cells_areD(2) [OF C(1) assms(1)] assms(2) by simp
  then obtain w' where w': "list_compare l (map CLit xss) w = Ok () w'" "mod_lh {brk w..} {} {} w w'" "wf_lh w'"
    using list_compare_ok [OF C(2)] assms tstD(1,2) [OF w] by blast
  have "snd ` set (C l) \<inter> {brk w..} = {}"
    by (rule below_above [OF list_at_lt(3) [OF C(2) tstD(2) [OF w]]])
  then have "list_at w' l (C l) (g l)" using list_at_frame [OF C(2) w'(2)] by simp
  moreover have "mod_lh {brk w..} (fst ` set (C l)) {} w w'" by (rule mod_lh_mono [OF w'(2)]) simp_all
  ultimately have "tst w0 {brk w0..} V L n f (g(l := g l)) w'"
    by (rule tst_same [OF w C(1) assms(1) _ w'(3)]) simp_all
  then show "\<exists>w'. list_compare l (map CLit xss) w = Ok () w' \<and> tst w0 {brk w0..} V L n f g w'" using w'(1) by auto
qed

lemma does_list_find_substr [does_rules]:
  assumes "l \<in> L" "NUL \<notin> set y" "\<exists>xs\<in>set (g l). \<exists>us vs. xs = us @ y @ vs"
  shows "does (tst w0 G V L n f g) (list_find_substr l (CLit y)) (tst w0 G V L n f g)"
proof (rule doesI)
  fix w assume w: "tst w0 G V L n f g w"
  obtain C where C: "cells_are G V L g C w" "list_at w l (C l) (g l)" using tstC [OF w assms(1)] .
  have "list_find_substr l (CLit y) w = Ok () w"
    using list_find_substr_ok [OF C(2) cread_CLit [OF assms(2)] _ tstD(2) [OF w]] cells_areD(2) [OF C(1) assms(1)] assms(3) by auto
  then show "\<exists>w'. list_find_substr l (CLit y) w = Ok () w' \<and> tst w0 G V L n f g w'" using w by blast
qed

lemma does_list_find_none:
  assumes "l \<in> L" "NUL \<notin> set y" "\<not> (\<exists>xs\<in>set (g l). \<exists>us vs. xs = us @ y @ vs)" "does (tst w0 G V L n f g) (k (-1)) Q"
  shows "does (tst w0 G V L n f g) (test_rc (list_find_substr l (CLit y)) k) Q"
proof (rule doesI)
  fix w assume w: "tst w0 G V L n f g w"
  obtain C where C: "cells_are G V L g C w" "list_at w l (C l) (g l)" using tstC [OF w assms(1)] .
  have "list_find_substr l (CLit y) w = Fail (-1) w"
    using list_find_substr_ok [OF C(2) cread_CLit [OF assms(2)] _ tstD(2) [OF w]] cells_areD(2) [OF C(1) assms(1)] assms(3) by simp
  then show "\<exists>w'. test_rc (list_find_substr l (CLit y)) k w = Ok () w' \<and> Q w'"
    using assms(4) w by (simp add: test_rc_def nc_catch_def does_def)
qed

section \<open>Sorting\<close>

text \<open>\<open>m\<close> is the number of rotations after which the first two elements are in order.\<close>

lemma does_list_sort:
  assumes "l \<in> L" "2 \<le> length (g l)" "\<not> odd (flags div 16)" "asc = (\<not> odd flags)"
    "\<forall>i<m. gt_str asc (rotate i (g l) ! 0) (rotate i (g l) ! 1)" "\<not> gt_str asc (rotate m (g l) ! 0) (rotate m (g l) ! 1)"
  shows "does (tst w0 {brk w0..} V L n f g) (list_sort l flags) (tst w0 {brk w0..} V L n f (g(l := rotate m (g l))))"
proof (rule doesI)
  fix w assume w: "tst w0 {brk w0..} V L n f g w"
  obtain C where C: "cells_are {brk w0..} V L g C w" "list_at w l (C l) (g l)" using tstC [OF w assms(1)] .
  have "\<forall>xs\<in>set (g l). NUL \<notin> set xs" using cells_areD(2) [OF C(1) assms(1)] by simp
  from list_sort_ok [OF C(2) this tstD(2,1) [OF w] assms(3,2,4)]
  obtain w' cs j where w': "list_sort l flags w = Ok () w'" "list_at w' l cs (rotate j (g l))" "mod_lh {brk w..} (fst ` set (C l)) {} w w'" "wf_lh w'"
      "fst ` set cs = fst ` set (C l)" "snd ` set cs = snd ` set (C l)"
      "\<forall>i<j. gt_str asc (rotate i (g l) ! 0) (rotate i (g l) ! 1)" "\<not> gt_str asc (rotate j (g l) ! 0) (rotate j (g l) ! 1)"
    by (elim exE conjE)
  have j: "j = m" using w'(7,8) assms(5,6) by (metis linorder_neqE_nat)
  have "tst w0 {brk w0..} V L n f (g(l := rotate m (g l))) w'"
    by (rule tst_same [OF w C(1) assms(1) w'(2) [unfolded j] w'(4,3,5,6)]) simp
  then show "\<exists>w'. list_sort l flags w = Ok () w' \<and> tst w0 {brk w0..} V L n f (g(l := rotate m (g l))) w'" using w'(1) by blast
qed

text \<open>Without a swap in the first pass, and for a list with less than two elements, only the automatic string comes and goes.\<close>

lemma list_sort_still:
  assumes "list_at w l cs xss" "mem_ok w" "wf_lh w"
    "length xss < 2 \<or> (\<exists>i j yss. xss = dec_nat i # dec_nat j # yss \<and> i \<le> j \<and> j \<le> UINT_MAX)"
  shows "\<exists>w'. list_sort l SORT_NUMERIC w = Ok () w' \<and> list_at w' l cs xss \<and> mod_lh {brk w..} {} {} w w' \<and> wf_lh w'"
proof -
  let ?s = "brk w"
  obtain w1 where w1: "str_new None w = Ok ?s w1" "mod_lh {?s} {} {} w w1" "str_has w1 ?s []" "wf_lh w1" "mem_ok w1" "?s < brk w1"
    using str_new_lh [OF assms(2,3)] by metis
  have sl: "?s \<notin> snd ` set cs" using list_at_lt(3) [OF assms(1,3)] by auto
  have l1: "list_at w1 l cs xss" by (rule list_at_frame [OF assms(1) w1(2)]) (use sl in auto)
  then have h: "lists w1 l = Some (header cs)" "vals w1 cs xss" "length cs = length xss" "dseg (ents w1) None cs None"
    using vals_length by (auto simp: list_at_def list_cells_def)
  have flags: "\<not> odd (SORT_NUMERIC div SORT_DESCENDING)" "odd (SORT_NUMERIC div SORT_NUMERIC)"
    by (simp_all add: SORT_NUMERIC_def SORT_DESCENDING_def)
  have run: "(if length cs < 2 then nc_return () else list_sort_loop (Suc ?s) l True False) w1 = Ok () w1"
  proof (cases "length xss < 2")
    case True
    then show ?thesis using h(3) by (simp add: nc_return_def)
  next
    case False
    then obtain i j yss where x: "xss = dec_nat i # dec_nat j # yss" "i \<le> j" "j \<le> UINT_MAX" using assms(4) by auto
    obtain a s b t ds where cs: "cs = (a, s) # (b, t) # ds" using h(3) x(1) by (cases cs; cases "tl cs") auto
    have hs: "str_has w1 s (dec_nat i)" "str_has w1 t (dec_nat j)" using h(2) cs x(1) by simp_all
    have "i \<le> UINT_MAX" "i \<le> ULONG_MAX" "j \<le> ULONG_MAX" using x(2,3) by (simp_all add: UINT_MAX_def ULONG_MAX_def)
    then have c: "sort_compare False s t w1 = Ok (if i < j then -1 else 0) w1"
      using str_to_uint32_dec [OF hs(1)] str_to_uint32_dec [OF hs(2)] x(2,3) by (auto simp: sort_compare_def nc_bind_def nc_return_def)
    have "length ((b, t) # ds) < Suc (brk w1)" using list_cells_lt(3) [of w1 l cs] l1 w1(4) cs by (simp add: list_at_def)
    then have p: "list_sort_pass (Suc (brk w1)) (Some a) (Some b) s t True False False w1 = Ok False w1"
      using sort_pass_still [of w1 None a s "(b, t) # ds" "Suc (brk w1)" False s t _ True False] h(4) cs c by (simp add: out_of_order_def)
    then show ?thesis using h(1,4) cs by (simp add: nc_bind_def nc_return_def get_list_def get_ent_def deref_def del: list_sort_pass.simps)
  qed
  let ?w = "w1\<lparr>strs := (strs w1)(?s := None)\<rparr>"
  have "list_sort l SORT_NUMERIC w = Ok () ?w"
    unfolding list_sort_def by (rule with_auto_str_run [OF w1(1) _ w1(3)]) (use run h(1) flags in \<open>simp add: nc_bind_def get_list_def split: if_splits del: list_sort_loop.simps list_sort_pass.simps\<close>)
  moreover have "mod_lh {?s..} {} {} w ?w" using w1(2) by (auto simp: mod_lh_def)
  moreover have "list_at ?w l cs xss" by (rule list_at_frame [OF l1 free_lh]) (use sl in auto)
  ultimately show ?thesis using free_wf [OF w1(4)] by blast
qed

lemma does_list_sort_still:
  assumes "l \<in> L" "length (g l) < 2 \<or> (\<exists>i j yss. g l = dec_nat i # dec_nat j # yss \<and> i \<le> j \<and> j \<le> UINT_MAX)"
  shows "does (tst w0 {brk w0..} V L n f g) (list_sort l SORT_NUMERIC) (tst w0 {brk w0..} V L n f g)"
proof (rule doesI)
  fix w assume w: "tst w0 {brk w0..} V L n f g w"
  obtain C where C: "cells_are {brk w0..} V L g C w" "list_at w l (C l) (g l)" using tstC [OF w assms(1)] .
  obtain w' where w': "list_sort l SORT_NUMERIC w = Ok () w'" "list_at w' l (C l) (g l)" "mod_lh {brk w..} {} {} w w'" "wf_lh w'"
    using list_sort_still [OF C(2) tstD(1,2) [OF w] assms(2)] by blast
  have "tst w0 {brk w0..} V L n f (g(l := g l)) w'"
    by (rule tst_same [OF w C(1) assms(1) w'(2,4) mod_lh_mono [OF w'(3)]]) simp_all
  then show "\<exists>w'. list_sort l SORT_NUMERIC w = Ok () w' \<and> tst w0 {brk w0..} V L n f g w'" using w'(1) by auto
qed

section \<open>Text\<close>

lemma does_str_join [does_rules]:
  assumes "l \<in> L" "d \<in> V" "int_char c \<noteq> NUL" "length (join (int_char c) (g l)) + 1 < STRING_MAX" "length (g l) < 2 ^ 64" "c \<noteq> 10"
    "\<forall>xs\<in>set (g l). NUL \<notin> set xs"
  shows "does (tst w0 G V L n f g) (str_join d l c) (tst w0 G V L n (f(d := join (int_char c) (g l))) g)"
proof (rule does_upd [OF _ assms(2)])
  fix w assume w: "tst w0 G V L n f g w"
  obtain C where C: "cells_are G V L g C w" "list_at w l (C l) (g l)" using tstC [OF w assms(1)] .
  have "d \<notin> snd ` set (C l)" using cells_areD(4) [OF C(1) assms(1)] assms(2) by auto
  then show "\<exists>w'. str_join d l c w = Ok () w' \<and> str_upd w d (join (int_char c) (g l)) w'"
    using str_join_ok [OF C(2) tstD(3) [OF w assms(2)] _ assms(7,3-5) tstD(1,2) [OF w]] assms(6) by simp
next
  show "NUL \<notin> set (join (int_char c) (g l))" using subsetD [OF join_set [of "int_char c" "g l"], of NUL] assms(3,7) by auto
qed

lemma mod_lh_strs_only: "mod_lh S {} {} w w' \<Longrightarrow> mod_strs S w w'"
  by (cases w; cases w'; simp add: mod_lh_def mod_strs_def fun_eq_iff)

lemma does_list_serialize [does_rules]:
  assumes "l \<in> L" "d \<in> V" "\<forall>xs\<in>set (g l). NUL \<notin> set xs \<and> 3 * length xs < STRING_MAX" "length (escaped (g l)) + 1 < STRING_MAX" "length (g l) < 2 ^ 64"
  shows "does (tst w0 G V L n f g) (list_serialize d l) (tst w0 G V L n (f(d := escaped (g l))) g)"
proof (rule does_upd [OF _ assms(2)])
  fix w assume w: "tst w0 G V L n f g w"
  obtain C where C: "cells_are G V L g C w" "list_at w l (C l) (g l)" using tstC [OF w assms(1)] .
  have "d \<notin> snd ` set (C l)" using cells_areD(4) [OF C(1) assms(1)] assms(2) by auto
  then show "\<exists>w'. list_serialize d l w = Ok () w' \<and> str_upd w d (escaped (g l)) w'"
    using list_serialize_ok [OF C(2) tstD(3) [OF w assms(2)] _ assms(3-5) tstD(1,2) [OF w]] mod_lh_strs_only by (fastforce simp: str_upd_iff)
qed (use escaped_no_NUL assms(3) in blast)

lemma does_list_deserialize:
  assumes "l \<in> L" "s \<in> V" "f s = escaped xss" "escaped xss \<noteq> []" "\<forall>xs\<in>set xss. NUL \<notin> set xs \<and> length xs < STRING_MAX"
    "length (escaped xss) < STRING_MAX" "length xss < 2 ^ 64" "[] \<notin> set xss"
  shows "does (tst w0 {brk w0..} V L n f g) (list_deserialize l s) (tst w0 {brk w0..} V L n f (g(l := xss)))"
proof (rule doesI)
  fix w assume w: "tst w0 {brk w0..} V L n f g w"
  obtain C where C: "cells_are {brk w0..} V L g C w" "list_at w l (C l) (g l)" using tstC [OF w assms(1)] .
  have sc: "s \<notin> snd ` set (C l)" using cells_areD(4) [OF C(1) assms(1)] assms(2) by auto
  have hs: "str_has w s (escaped xss)" using tstD(3) [OF w assms(2)] assms(3) by simp
  obtain w' es where w': "list_deserialize l s w = Ok () w'" "list_at w' l es xss"
      "mod_lh (snd ` set (C l) \<union> {brk w..}) (fst ` set (C l) \<union> {brk w..}) (insert l {brk w..}) w w'" "wf_lh w'" "set es \<subseteq> {brk w..} \<times> {brk w..}"
    using list_deserialize_ok [OF hs sc C(2) assms(4-7) tstD(1,2) [OF w]] carry_nonempty [OF assms(8)] by auto
  have es: "fst ` set es \<subseteq> fst ` set (C l) \<union> {brk w..}" "snd ` set es \<subseteq> snd ` set (C l) \<union> {brk w..}" using w'(5) by auto
  have "tst w0 {brk w0..} V L n f (g(l := xss)) w'"
    by (rule tst_list_op [OF w C(1) assms(1) w'(2,4), where T = "{}"]) (use w'(3) es assms(5) in auto)
  then show "\<exists>w'. list_deserialize l s w = Ok () w' \<and> tst w0 {brk w0..} V L n f (g(l := xss)) w'" using w'(1) by blast
qed

end
