(* ===== verification/NC_Selftest_List_Run.thy ===== *)
theory NC_Selftest_List_Run
  imports NC_Selftest_Lists
begin

text \<open>The self test of lists passes.\<close>

section \<open>Moving a list, and single entries\<close>

lemma cells_are_move:
  assumes C: "cells_are G V L g C w" and d: "d \<in> L" and s: "s \<in> L" and ne: "d \<noteq> s"
    and at: "list_at w' d (C s) (g s)" "list_at w' s [] []" and other: "\<And>k. k \<in> L \<Longrightarrow> k \<noteq> d \<Longrightarrow> k \<noteq> s \<Longrightarrow> list_at w' k (C k) (g k)"
  shows "cells_are G V L (g(d := g s, s := [])) (C(d := C s, s := [])) w'"
  unfolding cells_are_def
proof (intro conjI ballI impI)
  fix k assume k: "k \<in> L"
  show "list_at w' k ((C(d := C s, s := [])) k) ((g(d := g s, s := [])) k)" using at other [OF k] by simp
  show "fst ` set ((C(d := C s, s := [])) k) \<subseteq> G" using cells_areD(3) [OF C s] cells_areD(3) [OF C k] by simp
  show "snd ` set ((C(d := C s, s := [])) k) \<subseteq> G - V" using cells_areD(4) [OF C s] cells_areD(4) [OF C k] by simp
  show "NUL \<notin> set xs" if "xs \<in> set ((g(d := g s, s := [])) k)" for xs
    using that cells_areD(2) [OF C s, of xs] cells_areD(2) [OF C k, of xs] by (auto split: if_splits)
  fix j assume j: "j \<in> L" "j \<noteq> k"
  show "fst ` set ((C(d := C s, s := [])) j) \<inter> fst ` set ((C(d := C s, s := [])) k) = {}"
    "snd ` set ((C(d := C s, s := [])) j) \<inter> snd ` set ((C(d := C s, s := [])) k) = {}"
    using cells_areD(5) [OF C k j] cells_areD(5) [OF C s j(1)] cells_areD(5) [OF C s k] j(2)
    by (cases "j = s"; cases "k = s"; cases "j = d"; cases "k = d"; simp add: Int_commute)+
qed

lemma does_list_move [does_rules]:
  assumes "d \<in> L" "s \<in> L" "d \<noteq> s"
  shows "does (tst w0 {brk w0..} V L n f g) (list_move d s) (tst w0 {brk w0..} V L n f (g(d := g s, s := [])))"
proof (rule doesI)
  fix w assume w: "tst w0 {brk w0..} V L n f g w"
  obtain C where C: "cells_are {brk w0..} V L g C w" "list_at w d (C d) (g d)" using tstC [OF w assms(1)] .
  note S = cells_areD [OF C(1) assms(2)] and D = cells_areD [OF C(1) assms(1)]
  obtain w' where w': "list_move d s w = Ok () w'" "list_at w' d (C s) (g s)" "list_at w' s [] []"
      "mod_lh (snd ` set (C d)) (fst ` set (C d)) {d, s} w w'"
    using list_move_ok [OF C(2) S(1) assms(3) _ _ tstD(2) [OF w]] S(5) [OF assms(1,3)] by auto
  note lt = list_at_lt [OF C(2) tstD(2) [OF w]] list_at_lt [OF S(1) tstD(2) [OF w]]
  have wf: "wf_lh w'"
    by (rule mod_lh_wf [OF w'(4) tstD(2) [OF w]]) (use lt mod_lh_brk [OF w'(4)] in fastforce)
  have "list_at w' k (C k) (g k)" if "k \<in> L" "k \<noteq> d" "k \<noteq> s" for k
    using list_at_frame [OF cells_areD(1) [OF C(1) that(1)] w'(4)] D(5) [OF that(1,2)] that(2,3) by simp
  from cells_are_move [OF C(1) assms w'(2,3) this]
  have "lists_are {brk w0..} V L (g(d := g s, s := [])) w'" by (auto simp: lists_are_def)
  moreover have "since w0 {brk w0..} V L n w'"
    by (rule since_mod [OF _ w'(4) _ _ _ wf]) (use w D(3,4) assms in \<open>auto simp: tst_def\<close>)
  moreover have "str_has w' v (f v) \<and> NUL \<notin> set (f v)" if "v \<in> V" for v
    using mod_lh_has [OF w'(4), of v] D(4) that tstD(3,4) [OF w that] by auto
  ultimately show "\<exists>w'. list_move d s w = Ok () w' \<and> tst w0 {brk w0..} V L n f (g(d := g s, s := [])) w'"
    using w'(1) by (auto simp: tst_def)
qed

lemma does_list_empty [does_rules]:
  assumes "l \<in> L" "g l = []"
  shows "does (tst w0 G V L n f g) (nc_bind (get_list l) (\<lambda>h. throw_when (l_count h \<noteq> 0))) (tst w0 G V L n f g)"
proof (rule doesI)
  fix w assume w: "tst w0 G V L n f g w"
  obtain C where C: "cells_are G V L g C w" "list_at w l (C l) (g l)" using tstC [OF w assms(1)] .
  then have "C l = []" "lists w l = Some (header (C l))" using assms(2) vals_length [of w "C l" "g l"] by (auto simp: list_at_def list_cells_def)
  then have "get_list l w = Ok empty_list w" by (simp add: get_list_def header_Nil)
  then show "\<exists>w'. nc_bind (get_list l) (\<lambda>h. throw_when (l_count h \<noteq> 0)) w = Ok () w' \<and> tst w0 G V L n f g w'"
    using w by (simp add: nc_bind_def throw_when_def nc_return_def empty_list_def)
qed

text \<open>While the test looks at an entry, its cells are named.\<close>

abbreviation at_cells :: "('k, 'z) test_heap_scheme \<Rightarrow> nat set \<Rightarrow> nat set \<Rightarrow> nat \<Rightarrow> (nat \<Rightarrow> string) \<Rightarrow> (nat \<Rightarrow> string list) \<Rightarrow>
    (nat \<Rightarrow> (nat \<times> nat) list) \<Rightarrow> ('k, 'z) test_heap_scheme \<Rightarrow> bool" where
  "at_cells w0 V L n f g C w \<equiv> tst w0 {brk w0..} V L n f g w \<and> cells_are {brk w0..} V L g C w"

lemma does_start_test_cells:
  assumes "n < 1000"
  shows "does (at_cells w0 V L n f g C) (start_test name) (at_cells w0 V L (Suc n) f g C)"
proof (rule doesI)
  fix w assume w: "at_cells w0 V L n f g C w"
  then obtain w' where w': "start_test name w = Ok () w'" "tst w0 {brk w0..} V L (Suc n) f g w'"
    using does_start_test [OF assms] by (fastforce simp: does_def)
  moreover have "cells_are {brk w0..} V L g C w'" using w w'(1) by (auto simp: start_test_def cells_are_def)
  ultimately show "\<exists>w'. start_test name w = Ok () w' \<and> at_cells w0 V L (Suc n) f g C w'" by blast
qed

lemma does_entry_strcmp:
  assumes "l \<in> L" "C l = (a, s) # ds" "g l = x # yss"
  shows "does (at_cells w0 V L n f g C) (test_strcmp (CVal s 0) (CLit x)) (at_cells w0 V L n f g C)"
proof (rule doesI)
  fix w assume w: "at_cells w0 V L n f g C w"
  then have h: "str_has w s x" "NUL \<notin> set x" using cells_areD(1,2) [OF _ assms(1)] assms(2,3) by (fastforce simp: list_at_def)+
  then have "cread (CVal s 0) w = Ok x w" "cread (CLit x) w = Ok x w" using cread_str_has by simp_all
  then show "\<exists>w'. test_strcmp (CVal s 0) (CLit x) w = Ok () w' \<and> at_cells w0 V L n f g C w'"
    using w by (simp add: test_strcmp_def nc_simps)
qed

lemma does_list_entry_delete:
  assumes "l \<in> L" "C l = (a, s) # ds" "g l = x # yss" "length yss < 2 ^ 32"
  shows "does (at_cells w0 V L n f g C) (list_entry_delete l a) (tst w0 {brk w0..} V L n f (g(l := yss)))"
proof (rule doesI)
  fix w assume w: "at_cells w0 V L n f g C w"
  have at: "list_at w l ((a, s) # ds) (x # yss)" using cells_areD(1) [OF conjunct2 [OF w] assms(1)] assms(2,3) by simp
  have h: "list_cells w l ([] @ (a, s) # ds)" "str_has w s x" "vals w ds yss" "length ds = length yss"
    using at vals_length [of w ds yss] by (simp_all add: list_at_def)
  obtain w' where w': "list_entry_delete l a w = Ok () w'" "list_cells w' l ds" "mod_lh {s} (insert a (fst ` set ds)) {l} w w'" "brk w' = brk w"
    using list_entry_delete_ok [OF h(1,2)] h(4) assms(4) by auto
  have sd: "s \<notin> snd ` set ds" using h(1) by (auto simp: list_cells_def)
  have "vals w' ds yss = vals w ds yss" by (rule vals_frame) (use mod_lh_strs [OF w'(3)] sd in \<open>metis singletonD\<close>)
  then have "list_at w' l ds yss" using w'(2) h(3) by (simp add: list_at_def)
  note lt = list_at_lt [OF at tstD(2) [OF conjunct1 [OF w]]]
  have wf: "wf_lh w'" by (rule mod_lh_wf [OF w'(3) tstD(2) [OF conjunct1 [OF w]]]) (use lt w'(4) in auto)
  have "tst w0 {brk w0..} V L n f (g(l := yss)) w'"
  proof (rule tst_list_op [OF conjunct1 [OF w] conjunct2 [OF w] assms(1) \<open>list_at w' l ds yss\<close> wf, where T = "{}"])
    show "mod_lh ({} \<union> snd ` set (C l) \<union> {brk w..}) (fst ` set (C l) \<union> {brk w..}) (insert l {brk w..}) w w'"
      by (rule mod_lh_mono [OF w'(3)]) (use assms(2) in auto)
    show "\<forall>ys\<in>set yss. NUL \<notin> set ys" using cells_areD(2) [OF conjunct2 [OF w] assms(1)] assms(3) by simp
  qed (use assms(2) in auto)
  then show "\<exists>w'. list_entry_delete l a w = Ok () w' \<and> tst w0 {brk w0..} V L n f (g(l := yss)) w'" using w'(1) by blast
qed

lemma first_entry:
  assumes "list_at w l ((a, s) # ds) xss" "wf_lh w"
  shows "list_entry_get l 0 w = Ok a w" "get_ent a w = Ok \<lparr>e_value = Some s, e_next = hd_addr ds None, e_prev = None\<rparr> w"
  using list_entry_get_ok [of w l "(a, s) # ds" 0] assms by (simp_all add: list_at_def list_cells_def get_ent_def)

lemma does_list_tests_entry:
  assumes "l \<in> L" "g l = ''foo'' # yss" "length yss < 2 ^ 32" "n < 900"
  shows "does (tst w0 {brk w0..} V L n f g) (list_tests_entry l) (tst w0 {brk w0..} V L (n + 4) f (g(l := [])))"
proof (rule doesI)
  fix w assume w: "tst w0 {brk w0..} V L n f g w"
  obtain C where C: "cells_are {brk w0..} V L g C w" "list_at w l (C l) (g l)" using tstC [OF w assms(1)] .
  obtain a s ds where c: "C l = (a, s) # ds" using C(2) vals_length [of w "C l" "g l"] assms(2) by (cases "C l") (auto simp: list_at_def)
  have fe: "list_entry_get l 0 w' = Ok a w'" "get_ent a w' = Ok \<lparr>e_value = Some s, e_next = hd_addr ds None, e_prev = None\<rparr> w'"
    if "at_cells w0 V L i f g C w'" for i w'
    using first_entry [of w' l a s ds "g l"] cells_areD(1) [OF conjunct2 [OF that] assms(1)] tstD(2) [OF conjunct1 [OF that]] c by simp_all
  have "does (at_cells w0 V L n f g C) (list_tests_entry l) (tst w0 {brk w0..} V L (n + 4) f (g(l := [])))"
    unfolding list_tests_entry_def
    apply (rule does_bind, rule does_start_test_cells, use assms(4) in simp)
    apply (rule does_value, erule fe(1))
    apply (rule does_value, erule fe(2))
    apply (rule does_bind, rule does_start_test_cells, use assms(4) in simp)
    apply (rule does_value [where r = s], simp add: deref_def nc_return_def)
    apply (rule does_cons, rule does_entry_strcmp [where C = C and g = g and l = l, OF assms(1) c assms(2)])
    apply (rule does_cons, rule does_start_test_cells, use assms(4) in simp)
    apply (rule does_cons, rule does_list_entry_delete [where C = C and g = g and l = l, OF assms(1) c assms(2,3)])
    apply (rule does_cons, rule does_start_test, use assms(4) in simp)
    apply (rule does_cons, rule does_list_truncate [OF assms(1)])
    apply (rule does_nil, simp add: eval_nat_numeral)
    done
  then show "\<exists>w'. list_tests_entry l w = Ok () w' \<and> tst w0 {brk w0..} V L (n + 4) f (g(l := [])) w'"
    using w C(1) by (simp add: does_def)
qed

section \<open>The groups\<close>

lemma does_cons2: "does P (nc_bind m (\<lambda>_. m')) Q \<Longrightarrow> does Q (nc_seq ms) R \<Longrightarrow> does P (nc_seq (m # m' # ms)) R"
  by (fastforce simp: does_def nc_bind_def split: outcome.splits)

lemma newline_char: "int_char 10 = LF"
  by code_simp

text \<open>Evaluating \<open>split_on\<close> doubles the work with every character; with an accumulator, it is linear.\<close>

fun split_acc :: "char \<Rightarrow> string \<Rightarrow> string \<Rightarrow> string list" where
  "split_acc d acc [] = [rev acc]"
| "split_acc d acc (c # cs) = (if c = d then rev acc # split_acc d [] cs else split_acc d (c # acc) cs)"

lemma split_acc: "split_acc d acc xs = (rev acc @ hd (split_on d xs)) # tl (split_on d xs)"
  by (induction d acc xs rule: split_acc.induct) simp_all

lemma split_on_acc: "split_on d xs = split_acc d [] xs"
  by (simp add: split_acc)

lemma split_samples:
  "map (token_post 32) (split_on (int_char 32) (chomp ''foo bar baz'')) = [''foo'', ''bar'', ''baz'']"
  "map (token_post 10) (split_on (int_char 10) (chomp (''foo'' @ LF # ''bar'' @ LF # ''baz'' @ [LF]))) = [''foo'', ''bar'', ''baz'']"
  "map (token_post 10) (split_on (int_char 10) (chomp [LF, LF, LF, LF])) = [[], [], [], []]"
  "map (token_post 10) (split_on (int_char 10) (chomp (''GET / HTTP/1.0'' @ LF # ''User-Agent: Lynx'' @ LF # LF # ''somedata'' @ [LF]))) =
     [''GET / HTTP/1.0'', ''User-Agent: Lynx'', [], ''somedata'']"
  "map (token_post 10) (split_on (int_char 10) (chomp (''HELO a'' @ LF # ''DATA'' @ LF # ''To: You'' @ LF # ''From: Me'' @ LF # ''Subject: Test'' @
     LF # LF # ''Message here.'' @ [LF]))) = [''HELO a'', ''DATA'', ''To: You'', ''From: Me'', ''Subject: Test'', [], ''Message here.'']"
  by (simp_all add: split_on_acc sample_ints newline_char chomp_def chomp1_def token_post_def del: split_on.simps)

lemma delimiter_samples: "int_char 10 \<noteq> NUL" "int_char 32 \<noteq> NUL" "join (int_char 32) [''foo'', ''bar''] = ''foo bar''"
  by code_simp+

text \<open>Only the last value of a variable matters.\<close>

lemmas state_simps = fun_upd_upd fun_upd_same append_Cons append_Nil split_samples [unfolded append_Cons append_Nil] delimiter_samples(3)

lemma list_tests_split_does:
  assumes "l \<in> L" "s \<in> V" "n < 900"
  shows "does (tested w0 {brk w0..} V L n) (list_tests_split l s) (tested w0 {brk w0..} V L (n + 6))"
  unfolding list_tests_split_def
  apply (rule does_tested)
  apply (rule does_cons, (rule does_rules; insert assms; simp add: STRING_MAX_def delimiter_samples; fail), (simp only: state_simps)?)+
  apply (rule does_nil, erule testedI, simp)
  done

lemma list_tests_move_does:
  assumes "l \<in> L" "k \<in> L" "k \<noteq> l" "n < 900"
  shows "does (tested w0 {brk w0..} V L n) (list_tests_move l k) (tested w0 {brk w0..} V L (n + 1))"
  unfolding list_tests_move_def
  apply (rule does_tested)
  apply (rule does_cons, (rule does_rules; insert assms; simp add: STRING_MAX_def; fail))+
  apply (rule does_nil, erule testedI, simp)
  done

text \<open>The test of \<^verbatim>\<open>list_shift\<close> leaves the list that the test of its entries begins with.\<close>

lemma list_tests_shift_does:
  assumes "l \<in> L" "s \<in> V" "n < 900"
  shows "does (tst w0 {brk w0..} V L n f g) (list_tests_shift l s)
    (\<lambda>w. \<exists>f' g'. g' l = [''foo'', ''bar'', ''baz''] \<and> tst w0 {brk w0..} V L (n + 3) f' g' w)"
  unfolding list_tests_shift_def
  apply (rule does_cons, (rule does_rules; insert assms; simp add: STRING_MAX_def delimiter_samples; fail), (simp only: state_simps list.sel)?)+
  apply (rule does_nil, rule exI, rule exI [of _ "g(l := [''foo'', ''bar'', ''baz''])"], intro conjI, simp)
  apply (simp add: eval_nat_numeral)
  done

lemma list_tests_shift_entry_does:
  assumes "l \<in> L" "s \<in> V" "n < 800"
  shows "does (tested w0 {brk w0..} V L n) (nc_bind (list_tests_shift l s) (\<lambda>_. list_tests_entry l)) (tested w0 {brk w0..} V L (n + 7))"
proof (rule does_tested)
  fix f g
  have e: "does (\<lambda>w. \<exists>f' g'. g' l = [''foo'', ''bar'', ''baz''] \<and> tst w0 {brk w0..} V L (n + 3) f' g' w) (list_tests_entry l) (tested w0 {brk w0..} V L (n + 7))"
  proof (rule doesI, elim exE conjE)
    fix w f' g' assume g: "g' l = [''foo'', ''bar'', ''baz'']" and w: "tst w0 {brk w0..} V L (n + 3) f' g' w"
    obtain w' where "list_tests_entry l w = Ok () w'" "tst w0 {brk w0..} V L (n + 3 + 4) f' (g'(l := [])) w'"
      by (rule doesE [OF does_list_tests_entry [where l = l and g = g', OF assms(1) g] w]) (use assms(3) in simp_all)
    then show "\<exists>w'. list_tests_entry l w = Ok () w' \<and> tested w0 {brk w0..} V L (n + 7) w'" by (auto intro: testedI)
  qed
  show "does (tst w0 {brk w0..} V L n f g) (nc_bind (list_tests_shift l s) (\<lambda>_. list_tests_entry l)) (tested w0 {brk w0..} V L (n + 7))"
    by (rule does_bind [OF list_tests_shift_does [OF assms(1,2)] e]) (use assms(3) in simp)
qed

text \<open>Where \<^verbatim>\<open>list_sort\<close> moves only the first entry, one rotation happens to sort the lists of the test.\<close>

lemma sort_samples:
  "gt_str True ''c'' ''a''" "\<not> gt_str True ''a'' ''b''" "gt_str False ''x'' ''z''" "\<not> gt_str False ''z'' ''y''"
  "''99'' = dec_nat 99" "''100'' = dec_nat 100"
  by code_simp+

lemma does_list_sort_once:
  assumes "l \<in> L" "g l = [x, y, z]" "\<not> odd (flags div 16)" "asc = (\<not> odd flags)" "gt_str asc x y" "\<not> gt_str asc y z"
  shows "does (tst w0 {brk w0..} V L n f g) (list_sort l flags) (tst w0 {brk w0..} V L n f (g(l := [y, z, x])))"
  using does_list_sort [OF assms(1) _ assms(3,4), of g 1] assms(2,5,6) by simp

lemma list_tests_sort_does:
  assumes "l \<in> L" "n < 900"
  shows "does (tested w0 {brk w0..} V L n) (list_tests_sort l) (tested w0 {brk w0..} V L (n + 4))"
  unfolding list_tests_sort_def
  apply (rule does_tested)
  apply (rule does_cons, (rule does_rules; insert assms; simp add: STRING_MAX_def; fail), (simp only: state_simps)?)+
  apply (rule does_cons, (rule does_list_sort_once [where x = "''c''" and y = "''a''" and z = "''b''" and asc = True, OF assms(1)]; simp add: sort_samples; fail), (simp only: state_simps)?)
  apply (rule does_cons, (rule does_rules; insert assms; simp add: STRING_MAX_def; fail), (simp only: state_simps)?)+
  apply (rule does_cons, (rule does_list_sort_once [where x = "''x''" and y = "''z''" and z = "''y''" and asc = False, OF assms(1)];
     simp add: sort_samples SORT_DESCENDING_def; fail), (simp only: state_simps)?)
  apply (rule does_cons, (rule does_rules; insert assms; simp add: STRING_MAX_def; fail), (simp only: state_simps)?)+
  apply (rule does_cons, rule does_list_sort_still [OF assms(1)], rule disjI2, rule exI [of _ 99], rule exI [of _ 100],
     simp only: state_simps sort_samples(5,6) [symmetric], simp add: UINT_MAX_def)
  apply (rule does_cons, (rule does_rules; insert assms; simp add: STRING_MAX_def; fail), (simp only: state_simps)?)+
  apply (rule does_cons, rule does_list_sort_still [OF assms(1)], simp)
  apply (rule does_cons, (rule does_rules; insert assms; simp add: STRING_MAX_def; fail), (simp only: state_simps)?)+
  apply (rule does_nil, erule testedI, simp)
  done

lemma escaped_samples:
  "escaped [''s p a c e'', ''foo'', ''bar''] = ''s%20p%20a%20c%20e foo bar''" "''one%20two three'' = escaped [''one two'', ''three'']"
  by code_simp+

lemma substr_samples:
  "\<exists>xs\<in>set [''foo'', ''bar'']. \<exists>us vs. xs = us @ ''ba'' @ vs" "\<exists>xs\<in>set [''foo'', ''bar'']. \<exists>us vs. xs = us @ ''bar'' @ vs"
  "\<not> (\<exists>xs\<in>set [''foo'', ''bar'']. \<exists>us vs. xs = us @ ''baz'' @ vs)"
proof -
  show "\<exists>xs\<in>set [''foo'', ''bar'']. \<exists>us vs. xs = us @ ''ba'' @ vs"
    by (rule bexI [of _ "''bar''"], rule exI [of _ "[]"], rule exI [of _ "''r''"]) simp_all
  show "\<exists>xs\<in>set [''foo'', ''bar'']. \<exists>us vs. xs = us @ ''bar'' @ vs"
    by (rule bexI [of _ "''bar''"], rule exI [of _ "[]"], rule exI [of _ "[]"]) simp_all
  show "\<not> (\<exists>xs\<in>set [''foo'', ''bar'']. \<exists>us vs. xs = us @ ''baz'' @ vs)"
    by (auto simp: Cons_eq_append_conv)
qed

lemma list_tests_text_does:
  assumes "l \<in> L" "s \<in> V" "n < 900"
  shows "does (tested w0 {brk w0..} V L n) (list_tests_text l s) (tested w0 {brk w0..} V L (n + 4))"
  unfolding list_tests_text_def
  apply (rule does_tested)
  apply (rule does_cons, (rule does_rules; insert assms; simp add: STRING_MAX_def; fail), (simp only: state_simps)?)+
  apply (rule does_cons, rule does_list_find_substr [OF assms(1)], simp, subst fun_upd_same, rule substr_samples)
  apply (rule does_cons, rule does_list_find_substr [OF assms(1)], simp, subst fun_upd_same, rule substr_samples)
  apply (rule does_cons, rule does_list_find_none [OF assms(1)], simp, subst fun_upd_same, rule substr_samples, rule does_rules, simp)
  apply (rule does_cons, (rule does_rules; insert assms; simp add: STRING_MAX_def; fail), (simp only: state_simps)?)+
  apply (rule does_cons, rule does_list_serialize [OF assms(1,2)]; (simp add: STRING_MAX_def escaped_samples(1) del: uri_escape_simps; fail)?)
  apply (simp only: state_simps escaped_samples(1))
  apply (rule does_cons, (rule does_rules; insert assms; simp add: STRING_MAX_def; fail), (simp only: state_simps)?)+
  apply (rule does_cons, rule does_list_deserialize [where xss = "[''one two'', ''three'']", OF assms(1,2)];
     (simp add: STRING_MAX_def escaped_samples(2) [symmetric] del: uri_escape_simps; fail)?)
  apply (simp only: state_simps)
  apply (rule does_cons, (rule does_rules; insert assms; simp add: STRING_MAX_def; fail), (simp only: state_simps)?)+
  apply (rule does_nil, erule testedI, simp)
  done

section \<open>The whole test\<close>

lemma list_destroy_mod:
  assumes "list_at w l cs xss" "wf_lh w"
  shows "\<exists>w'. list_destroy (Some l) w = Ok () w' \<and> mod_lh (snd ` set cs) (fst ` set cs) {l} w w' \<and> wf_lh w'"
proof -
  let ?w = "w\<lparr>strs := strs w |` (- snd ` set cs), ents := ents w |` (- fst ` set cs), lists := (lists w)(l := None)\<rparr>"
  have m: "mod_lh (snd ` set cs) (fst ` set cs) {l} w ?w" by (auto simp: mod_lh_def restrict_map_def)
  have "wf_lh ?w" by (rule mod_lh_wf [OF m assms(2)]) (use list_at_lt [OF assms] in auto)
  then show ?thesis using list_destroy_ok [OF assms] m by blast
qed

lemma does_free_locals:
  assumes "l \<noteq> k"
  shows "does (tested w0 {brk w0..} {s} {l, k} n) (nc_seq [str_destroy (Some s), list_destroy (Some l), list_destroy (Some k)])
    (since w0 {brk w0..} {s} {l, k} n)"
proof (rule does_tested, rule doesI)
  fix f g w assume w: "tst w0 {brk w0..} {s} {l, k} n f g w"
  obtain C where C: "cells_are {brk w0..} {s} {l, k} g C w" using w by (auto simp: tst_def lists_are_def)
  note L = cells_areD [OF C, of l, simplified] and K = cells_areD [OF C, of k, simplified]
  let ?w1 = "w\<lparr>strs := (strs w)(s := None)\<rparr>"
  have m1: "mod_lh {s} {} {} w ?w1" "wf_lh ?w1" using free_wf [OF tstD(2) [OF w]] by (simp_all add: mod_lh_def)
  have at1: "list_at ?w1 l (C l) (g l)" "list_at ?w1 k (C k) (g k)"
    using list_at_frame [OF L(1) m1(1)] list_at_frame [OF K(1) m1(1)] L(4) K(4) by auto
  obtain w2 where w2: "list_destroy (Some l) ?w1 = Ok () w2" "mod_lh (snd ` set (C l)) (fst ` set (C l)) {l} ?w1 w2" "wf_lh w2"
    using list_destroy_mod [OF at1(1) m1(2)] by blast
  have "list_at w2 k (C k) (g k)" using list_at_frame [OF at1(2) w2(2)] L(5) [of k] assms by auto
  then obtain w3 where w3: "list_destroy (Some k) w2 = Ok () w3" "mod_lh (snd ` set (C k)) (fst ` set (C k)) {k} w2 w3" "wf_lh w3"
    using list_destroy_mod [OF _ w2(3)] by blast
  have "since w0 {brk w0..} {s} {l, k} n ?w1" by (rule since_mod [OF _ m1(1) _ _ _ m1(2)]) (use w in \<open>simp_all add: tst_def\<close>)
  then have "since w0 {brk w0..} {s} {l, k} n w2" by (rule since_mod [OF _ w2(2) _ _ _ w2(3)]) (use L(3,4) in auto)
  then have "since w0 {brk w0..} {s} {l, k} n w3" by (rule since_mod [OF _ w3(2) _ _ _ w3(3)]) (use K(3,4) in auto)
  then show "\<exists>w'. nc_seq [str_destroy (Some s), list_destroy (Some l), list_destroy (Some k)] w = Ok () w' \<and> since w0 {brk w0..} {s} {l, k} n w'"
    using str_destroy_ok [OF tstD(3) [OF w, of s]] w2(1) w3(1) by (simp add: nc_bind_def nc_return_def)
qed

lemma list_run_tests_run:
  assumes "mem_ok w" "wf_lh w" "0 \<le> num_tests w" "num_tests w < 2 ^ 30"
  obtains w' s l k where "list_run_tests w = Ok () w'" "brk w \<le> s" "brk w \<le> l" "brk w \<le> k" "since w {brk w..} {s} {l, k} 23 w'"
proof -
  let ?f = "\<lambda>_. []" and ?g = "\<lambda>_. []" and ?G = "{brk w..}"
  obtain s w1 where w1: "str_new None w = Ok s w1" "brk w \<le> s" "tst w ?G {s} {} 0 (?f(s := [])) ?g w1"
    using tst_new_str [OF tst_start [OF assms(1-4), of ?G ?f ?g]] by metis
  obtain w2 where w2: "start_test ''list_new()'' w1 = Ok () w2" "tst w ?G {s} {} (Suc 0) (?f(s := [])) ?g w2"
    by (rule doesE [OF does_start_test w1(3)]) simp
  obtain l w3 where w3: "list_new None w2 = Ok l w3" "brk w \<le> l" "tst w ?G {s} {l} (Suc 0) (?f(s := [])) (?g(l := [])) w3"
    using tst_new_list [OF w2(2)] by metis
  obtain k w4 where w4: "list_new None w3 = Ok k w4" "k \<noteq> l" "brk w \<le> k" "tst w ?G {s} {k, l} (Suc 0) (?f(s := [])) (?g(l := [], k := [])) w4"
    using tst_new_list [OF w3(3)] by (metis singletonI)
  let ?ms = "[list_tests_split l s, list_tests_shift l s, list_tests_entry l, list_tests_move l k, list_tests_sort l, list_tests_text l s,
      str_destroy (Some s), list_destroy (Some l), list_destroy (Some k)]"
  have L: "l \<in> {l, k}" "k \<in> {l, k}" "s \<in> {s}" "l \<noteq> k" using w4(2) by auto
  have "does (tested w ?G {s} {l, k} 1) (nc_seq ?ms) (since w ?G {s} {l, k} 23)"
    apply (rule does_cons, rule list_tests_split_does [OF L(1,3)], simp)
    apply (rule does_cons2, rule list_tests_shift_entry_does [OF L(1,3)], simp)
    apply (rule does_cons, rule list_tests_move_does [OF L(1,2) w4(2)], simp)
    apply (rule does_cons, rule list_tests_sort_does [OF L(1)], simp)
    apply (rule does_cons, rule list_tests_text_does [OF L(1,3)], simp)
    apply (use does_free_locals [OF L(4), of w s 23] in simp)
    done
  then obtain w5 where w5: "nc_seq ?ms w4 = Ok () w5" "since w ?G {s} {l, k} 23 w5"
    by (rule doesE) (rule testedI [OF w4(4) [unfolded insert_commute [of k]]], simp_all)
  have "list_run_tests w = Ok () w5"
    using w1(1) w2(1) w3(1) w4(1) w5(1) by (simp add: list_run_tests_def nc_bind_def del: nc_seq.simps)
  then show thesis using that w5(2) w1(2) w3(2) w4(3) by blast
qed

text \<open>
  C10. The self test of lists passes: with enough memory, \<^verbatim>\<open>list_run_tests\<close> runs all its 23 tests and returns 0, and leaves every
  object that existed before as it was. It passes although \<^verbatim>\<open>list_sort\<close> only rotates the list until its first
  two entries are in order: one rotation or none happens to sort each of the lists the test tries.
\<close>

theorem list_run_tests_pass:
  assumes "mem_ok w" "wf_lh w" "0 \<le> num_tests w" "num_tests w < 2 ^ 30"
  shows "\<exists>w'. list_run_tests w = Ok () w' \<and> num_tests w' = num_tests w + 23 \<and>
    (\<forall>x<brk w. strs w' x = strs w x \<and> ents w' x = ents w x \<and> lists w' x = lists w x) \<and> hashes w' = hashes w \<and> kern w' = kern w"
proof -
  obtain w' s l k where w': "list_run_tests w = Ok () w'" "brk w \<le> s" "brk w \<le> l" "brk w \<le> k" "since w {brk w..} {s} {l, k} 23 w'"
    using list_run_tests_run [OF assms] .
  have m: "mod_lh ({s} \<union> {brk w..}) {brk w..} ({l, k} \<union> {brk w..}) w (w'\<lparr>num_tests := num_tests w\<rparr>)" "num_tests w' = num_tests w + 23"
    using w'(5) by (simp_all add: since_def)
  have "strs w' x = strs w x \<and> ents w' x = ents w x \<and> lists w' x = lists w x" if "x < brk w" for x
    using that mod_lh_strs [OF m(1), of x] mod_lh_ents [OF m(1), of x] mod_lh_lists [OF m(1), of x] w'(2-4) by auto
  then show ?thesis using w'(1) m(2) since_rest [OF w'(5)] by (intro exI [of _ w']) simp
qed

theorem list_run_tests_pass_witness:
  "\<exists>w'. list_run_tests tmem = Ok () w' \<and> num_tests w' = num_tests tmem + 23 \<and>
    (\<forall>x<brk tmem. strs w' x = strs tmem x \<and> ents w' x = ents tmem x \<and> lists w' x = lists tmem x) \<and>
    hashes w' = hashes tmem \<and> kern w' = kern tmem"
  by (rule list_run_tests_pass [OF tmem_ok(1,2)]) (simp_all add: tmem_ok)

end
