(* ===== verification/NC_Test_Props.thy ===== *)
theory NC_Test_Props
  imports NC_Selftest_List_Run
begin

text \<open>The test harness: the table of tests, and when a run of the tests comes to its end.\<close>

section \<open>The table\<close>

text \<open>The entries from \<open>i\<close> on are the tests \<open>ts\<close>.\<close>

definition tests_at :: "('k, 'z) test_heap_scheme \<Rightarrow> nat \<Rightarrow> (string \<times> nat) list \<Rightarrow> bool" where
  "tests_at w i ts \<longleftrightarrow> i + length ts \<le> length (test_name w) \<and> length (test_func w) = length (test_name w) \<and>
     (\<forall>j<length ts. test_func w ! (i + j) = Some (snd (ts ! j)) \<and> (\<exists>s. test_name w ! (i + j) = Some s \<and> str_has w s (fst (ts ! j))))"

definition free_from :: "('k, 'z) test_heap_scheme \<Rightarrow> nat \<Rightarrow> bool" where
  "free_from w i \<longleftrightarrow> length (test_func w) = length (test_name w) \<and> (\<forall>j. i \<le> j \<longrightarrow> j < length (test_name w) \<longrightarrow> test_name w ! j = None)"

lemma table_upd [simp]:
  fixes w :: "('k, 'z) test_heap_scheme"
  shows "str_has (w\<lparr>test_name := x\<rparr>) v y = str_has w v y" "mem_ok (w\<lparr>test_name := x\<rparr>) = mem_ok w" "wf_lh (w\<lparr>test_name := x\<rparr>) = wf_lh w"
    "str_has (w\<lparr>test_func := z\<rparr>) v y = str_has w v y" "mem_ok (w\<lparr>test_func := z\<rparr>) = mem_ok w" "wf_lh (w\<lparr>test_func := z\<rparr>) = wf_lh w"
    "str_has (w\<lparr>test_count := c\<rparr>) v y = str_has w v y" "mem_ok (w\<lparr>test_count := c\<rparr>) = mem_ok w" "wf_lh (w\<lparr>test_count := c\<rparr>) = wf_lh w"
  by (simp_all add: str_has_def mem_ok_def wf_lh_def wf_strs_def)

lemma mod_lh_table:
  fixes w :: "('k, 'z) test_heap_scheme"
  assumes "mod_lh S E L w w'"
  shows "test_name w' = test_name w" "test_func w' = test_func w" "test_count w' = test_count w"
  using assms by (cases w; cases w'; simp add: mod_lh_def)+

lemma register_test_ok:
  fixes w :: "('k, 'z) test_heap_scheme"
  assumes "mem_ok w" "wf_lh w" "free_from w (test_count w)" "test_count w < length (test_name w)" "NUL \<notin> set x" "length x < STRING_MAX"
  obtains w' s where "register_test (CLit x) fp w = Ok () w'" "mem_ok w'" "wf_lh w'" "str_has w' s x" "test_count w' = Suc (test_count w)"
    "test_name w' = (test_name w)[test_count w := Some s]" "test_func w' = (test_func w)[test_count w := Some fp]"
    "\<And>v y. str_has w v y \<Longrightarrow> str_has w' v y"
proof -
  let ?i = "test_count w" and ?s = "brk w"
  have none: "test_name w ! ?i = None" using assms(3,4) by (simp add: free_from_def)
  obtain w1 where w1: "str_new None w = Ok ?s w1" "mod_lh {?s} {} {} w w1" "str_has w1 ?s []" "wf_lh w1" "mem_ok w1" "?s < brk w1"
    using str_new_lh [OF assms(1,2)] by metis
  let ?w1 = "w1\<lparr>test_name := (test_name w)[?i := Some ?s]\<rparr>"
  have h1: "str_has ?w1 ?s []" "mem_ok ?w1" "wf_lh ?w1" using w1(3-5) by simp_all
  obtain w2 where w2: "str_cat ?s (CLit x) ?w1 = Ok () w2" "str_upd ?w1 ?s x w2"
    using str_cat_ok [OF h1(1) cread_CLit [OF assms(5)] _ _ h1(2)] assms(6) by auto
  note u = str_upd_lh [OF w2(2) h1(1,3)]
  let ?w = "w2\<lparr>test_func := (test_func w2)[?i := Some fp], test_count := ?i + 1\<rparr>"
  have t: "test_name w2 = (test_name w)[?i := Some ?s]" "test_func w2 = test_func w"
    using mod_lh_table [OF u(1)] mod_lh_table [OF w1(2)] by simp_all
  have "register_test (CLit x) fp w = Ok () ?w"
    using assms(4) none w1(1) w2(1) by (simp add: register_test_def Let_def nc_bind_def)
  moreover have "str_has ?w v y" if "str_has w v y" for v y
  proof -
    have "v \<noteq> ?s" using str_has_lt [OF wf_lh_strs [OF assms(2)] that] by simp
    then show ?thesis using that mod_lh_has [OF w1(2), of v y] mod_lh_has [OF u(1), of v y] by simp
  qed
  ultimately show thesis using that [of ?w ?s] u(2,3,4) h1(2) t by simp
qed

abbreviation register_tests :: "(string \<times> nat) list \<Rightarrow> (unit, 'k, 'z) tnc" where
  "register_tests ts \<equiv> nc_seq (map (\<lambda>t. register_test (CLit (fst t)) (snd t)) ts)"

lemma register_tests_ok:
  fixes w :: "('k, 'z) test_heap_scheme"
  assumes "mem_ok w" "wf_lh w" "free_from w (test_count w)" "test_count w + length ts \<le> length (test_name w)"
    "\<forall>t\<in>set ts. NUL \<notin> set (fst t) \<and> length (fst t) < STRING_MAX"
  shows "\<exists>w'. register_tests ts w = Ok () w' \<and> tests_at w' (test_count w) ts \<and> test_count w' = test_count w + length ts \<and>
    length (test_name w') = length (test_name w) \<and> (\<forall>j<test_count w. test_name w' ! j = test_name w ! j \<and> test_func w' ! j = test_func w ! j) \<and>
    (\<forall>v y. str_has w v y \<longrightarrow> str_has w' v y)"
  using assms
proof (induction ts arbitrary: w)
  case Nil
  then show ?case by (auto simp: nc_return_def tests_at_def free_from_def)
next
  case (Cons t ts)
  let ?i = "test_count w"
  obtain w1 s where w1: "register_test (CLit (fst t)) (snd t) w = Ok () w1" "mem_ok w1" "wf_lh w1" "str_has w1 s (fst t)" "test_count w1 = Suc ?i"
      "test_name w1 = (test_name w)[?i := Some s]" "test_func w1 = (test_func w)[?i := Some (snd t)]" "\<And>v y. str_has w v y \<Longrightarrow> str_has w1 v y"
    using register_test_ok [OF Cons.prems(1-3), of "fst t" "snd t"] Cons.prems(4,5) by auto
  have "free_from w1 (test_count w1)" using Cons.prems(3) w1(5-7) by (simp add: free_from_def)
  then obtain w' where w': "register_tests ts w1 = Ok () w'" "tests_at w' (Suc ?i) ts" "test_count w' = Suc ?i + length ts"
      "length (test_name w') = length (test_name w1)"
      "\<And>j. j < Suc ?i \<Longrightarrow> test_name w' ! j = test_name w1 ! j \<and> test_func w' ! j = test_func w1 ! j" "\<And>v y. str_has w1 v y \<Longrightarrow> str_has w' v y"
    using Cons.IH [OF w1(2,3)] Cons.prems(4,5) w1(5,6) by auto
  have len: "length (test_func w) = length (test_name w)" "?i < length (test_name w)" using Cons.prems(3,4) by (auto simp: free_from_def)
  have "tests_at w' ?i (t # ts)"
    unfolding tests_at_def
  proof (intro conjI allI impI)
    show "?i + length (t # ts) \<le> length (test_name w')" "length (test_func w') = length (test_name w')" using w'(2) by (simp_all add: tests_at_def)
    fix j assume j: "j < length (t # ts)"
    show "test_func w' ! (?i + j) = Some (snd ((t # ts) ! j))" "\<exists>s. test_name w' ! (?i + j) = Some s \<and> str_has w' s (fst ((t # ts) ! j))"
      using w'(2) w'(5) [of ?i] w'(6) [OF w1(4)] w1(6,7) len j by (cases j; auto simp: tests_at_def)+
  qed
  moreover have "test_name w' ! j = test_name w ! j \<and> test_func w' ! j = test_func w ! j" if "j < ?i" for j
    using w'(5) [of j] w1(6,7) that by simp
  ultimately show ?case using w1(1,5,6,8) w'(1,3,4,6) by (intro exI [of _ w']) (simp add: nc_bind_def)
qed

text \<open>
  C26. The table of tests: with enough memory, \<^verbatim>\<open>register_test\<close> appends the name and the function of each test to a table with
  room for them and keeps the earlier ones; the test behind the last element of the arrays, the 27th, is written outside
  of them.
\<close>

theorem register_tests_fill:
  fixes w :: "('k, 'z) test_heap_scheme"
  assumes "mem_ok w" "wf_lh w" "free_from w (test_count w)" "test_count w + length ts \<le> length (test_name w)"
    "\<forall>t\<in>set ts. NUL \<notin> set (fst t) \<and> length (fst t) < STRING_MAX"
  shows "\<exists>w'. register_tests ts w = Ok () w' \<and> tests_at w' (test_count w) ts \<and> test_count w' = test_count w + length ts \<and>
    length (test_name w') = length (test_name w) \<and> (\<forall>j<test_count w. test_name w' ! j = test_name w ! j \<and> test_func w' ! j = test_func w ! j) \<and>
    (\<forall>v y. str_has w v y \<longrightarrow> str_has w' v y) \<and>
    (test_count w' = length (test_name w') \<longrightarrow> register_test name fp w' = Fault OutOfBounds)"
  using register_tests_ok [OF assms] by (auto simp: register_test_def)

theorem register_tests_fill_witness:
  "\<exists>w'. register_tests (replicate 26 (''t'', 7)) tmem = Ok () w' \<and> tests_at w' 0 (replicate 26 (''t'', 7)) \<and>
    register_test (CLit ''u'') 8 w' = Fault OutOfBounds"
proof -
  have t: "test_count tmem = 0" "test_name tmem = replicate 26 None" "test_func tmem = replicate 26 None" by (simp_all add: tmem_def)
  have "free_from tmem (test_count tmem)" by (simp add: free_from_def t)
  then obtain w' where "register_tests (replicate 26 (''t'', 7)) tmem = Ok () w'" "tests_at w' 0 (replicate 26 (''t'', 7))" "test_count w' = 26" "length (test_name w') = 26"
      "test_count w' = length (test_name w') \<longrightarrow> register_test (CLit ''u'') 8 w' = Fault OutOfBounds"
    using register_tests_fill [OF tmem_ok(1,2), of "replicate 26 (''t'', 7)" "CLit ''u''" 8] t by (auto simp: STRING_MAX_def)
  then show ?thesis by auto
qed

section \<open>Running the table\<close>




section \<open>The tests of strings and lists as a suite\<close>









section \<open>The whole run\<close>


























end
